(* ===== verification/Psyche_Prelude.thy ===== *)
theory Psyche_Prelude
  imports Main "HOL-Library.Word" "HOL-Library.Multiset"
begin

text \<open>
  Shared vocabulary of the development: the machine-integer types of the Rust sources, checked
  arithmetic, the result type of a method that mutates its receiver (\<open>&mut self\<close>), and the locale
  that turns a one-step preservation argument into an invariant of every run.

  Integer arithmetic follows the build profile of the on-chain programs (\<open>overflow-checks = true\<close>
  in the \<open>Cargo.toml\<close> of each of them) and of the development builds: an overflowing \<open>+\<close>, \<open>-\<close> or
  \<open>*\<close> panics. A panic is the value \<open>None\<close> of an option or the constructor \<open>Panic\<close> below.
\<close>

unbundle bit_operations_syntax

named_theorems run_simps \<open>unfolding equations of the modelled operations\<close>
named_theorems keeps \<open>preservation lemmas of the invariants\<close>

section \<open>Machine integers\<close>

type_synonym u8 = "8 word"
type_synonym u16 = "16 word"
type_synonym u32 = "32 word"
type_synonym u64 = "64 word"
type_synonym bytes = "u8 list"

definition checked_add :: "'a::len word \<Rightarrow> 'a word \<Rightarrow> 'a word option" where
  "checked_add a b = (if unat a + unat b < 2 ^ LENGTH('a) then Some (a + b) else None)"

definition checked_sub :: "'a::len word \<Rightarrow> 'a word \<Rightarrow> 'a word option" where
  "checked_sub a b = (if b \<le> a then Some (a - b) else None)"

definition checked_mul :: "'a::len word \<Rightarrow> 'a word \<Rightarrow> 'a word option" where
  "checked_mul a b = (if unat a * unat b < 2 ^ LENGTH('a) then Some (a * b) else None)"

text \<open>An integer division by zero panics in every build profile.\<close>

definition checked_div :: "'a::len word \<Rightarrow> 'a word \<Rightarrow> 'a word option" where
  "checked_div a b = (if b = 0 then None else Some (a div b))"

definition checked_rem :: "'a::len word \<Rightarrow> 'a word \<Rightarrow> 'a word option" where
  "checked_rem a b = (if b = 0 then None else Some (a mod b))"

lemma unat_of_nat_small: "n < 2 ^ LENGTH('a) \<Longrightarrow> unat (of_nat n :: 'a::len word) = n"
  by (simp add: unat_of_nat take_bit_nat_eq_self)

lemma unat_ucast_up: "LENGTH('a) \<le> LENGTH('b) \<Longrightarrow> unat (ucast (a :: 'a::len word) :: 'b::len word) = unat a"
proof -
  assume le: "LENGTH('a) \<le> LENGTH('b)"
  have "unat a < 2 ^ LENGTH('a)" by (rule unsigned_less)
  also have "\<dots> \<le> 2 ^ LENGTH('b)" using le by simp
  finally show ?thesis by (simp add: unsigned_ucast_eq take_bit_nat_eq_self)
qed

lemma unat_less_pow: "unat (a :: 'a::len word) < 2 ^ LENGTH('a)"
  by (rule unsigned_less)

lemma checked_add_Some: "checked_add a b = Some c \<Longrightarrow> unat c = unat a + unat b"
  by (auto simp: checked_add_def unat_word_ariths split: if_splits)

lemma checked_sub_Some: "checked_sub a b = Some c \<Longrightarrow> unat b \<le> unat a \<and> unat c = unat a - unat b"
  by (auto simp: checked_sub_def unat_sub word_le_nat_alt split: if_splits)

lemma checked_mul_Some: "checked_mul a b = Some c \<Longrightarrow> unat c = unat a * unat b"
  by (auto simp: checked_mul_def unat_word_ariths split: if_splits)

lemma checked_add_fits:
  "unat a + unat b < 2 ^ LENGTH('a) \<Longrightarrow> checked_add (a :: 'a::len word) b = Some (a + b)"
  by (simp add: checked_add_def)

lemma checked_add_iff:
  "checked_add (a :: 'a::len word) b = Some c \<longleftrightarrow> unat a + unat b < 2 ^ LENGTH('a) \<and> c = a + b"
  by (auto simp: checked_add_def)

lemma checked_sub_iff: "checked_sub a b = Some c \<longleftrightarrow> b \<le> a \<and> c = a - b"
  by (auto simp: checked_sub_def)

lemma checked_mul_iff:
  "checked_mul (a :: 'a::len word) b = Some c \<longleftrightarrow> unat a * unat b < 2 ^ LENGTH('a) \<and> c = a * b"
  by (auto simp: checked_mul_def)

section \<open>Results of mutating methods\<close>

text \<open>
  A method \<open>fn op(&mut self, ..) -> Result<A, E>\<close> ends in one of three ways: it panics, it returns an
  error, or it returns a value. In the last two cases the receiver may have been written before the
  return, so both carry the state the method leaves behind.
\<close>

datatype ('s, 'e, 'a) exec = Panic | Fail 's 'e | Done 's 'a

text \<open>The \<open>?\<close> operator: go on with the value, or return the error from the enclosing method.\<close>

fun and_then :: "('s, 'e, 'a) exec \<Rightarrow> ('s \<Rightarrow> 'a \<Rightarrow> ('s, 'e, 'b) exec) \<Rightarrow> ('s, 'e, 'b) exec" where
  "and_then Panic f = Panic"
| "and_then (Fail s e) f = Fail s e"
| "and_then (Done s a) f = f s a"

text \<open>A step that can only panic (an assertion, an index, an \<open>unwrap\<close>, checked arithmetic).\<close>

fun need :: "'v option \<Rightarrow> ('v \<Rightarrow> ('s, 'e, 'a) exec) \<Rightarrow> ('s, 'e, 'a) exec" where
  "need None f = Panic"
| "need (Some v) f = f v"

text \<open>The state a method leaves behind, when it returns at all.\<close>

fun exec_state :: "('s, 'e, 'a) exec \<Rightarrow> 's option" where
  "exec_state Panic = None"
| "exec_state (Fail s e) = Some s"
| "exec_state (Done s a) = Some s"

text \<open>Every state the method can leave behind satisfies the predicate.\<close>

definition holds :: "('s \<Rightarrow> bool) \<Rightarrow> ('s, 'e, 'a) exec \<Rightarrow> bool" where
  "holds I r = (case r of Panic \<Rightarrow> True | Fail s e \<Rightarrow> I s | Done s a \<Rightarrow> I s)"

lemma holds_simps [simp]:
  "holds I Panic" "holds I (Fail s e) = I s" "holds I (Done s a) = I s"
  by (simp_all add: holds_def)

lemma holds_exec_state: "holds I r \<longleftrightarrow> (\<forall>s. exec_state r = Some s \<longrightarrow> I s)"
  by (cases r) auto

lemma holds_and_then:
  "holds I r \<Longrightarrow> (\<And>s a. r = Done s a \<Longrightarrow> holds I (f s a)) \<Longrightarrow> holds I (and_then r f)"
  by (cases r) auto

lemma holds_need: "(\<And>v. x = Some v \<Longrightarrow> holds I (f v)) \<Longrightarrow> holds I (need x f)"
  by (cases x) auto

lemma need_Done: "need x f = Done s a \<longleftrightarrow> (\<exists>v. x = Some v \<and> f v = Done s a)"
  by (cases x) auto

lemma need_Fail: "need x f = Fail s e \<longleftrightarrow> (\<exists>v. x = Some v \<and> f v = Fail s e)"
  by (cases x) auto

lemma need_Panic: "need x f = Panic \<longleftrightarrow> x = None \<or> (\<exists>v. x = Some v \<and> f v = Panic)"
  by (cases x) auto

lemma and_then_Done: "and_then r f = Done s b \<longleftrightarrow> (\<exists>t a. r = Done t a \<and> f t a = Done s b)"
  by (cases r) auto

lemma and_then_Fail:
  "and_then r f = Fail s e \<longleftrightarrow> r = Fail s e \<or> (\<exists>t a. r = Done t a \<and> f t a = Fail s e)"
  by (cases r) auto

lemma and_then_Panic: "and_then r f = Panic \<longleftrightarrow> r = Panic \<or> (\<exists>t a. r = Done t a \<and> f t a = Panic)"
  by (cases r) auto

lemmas exec_iffs = need_Done need_Fail need_Panic and_then_Done and_then_Fail and_then_Panic

section \<open>Runs of commands\<close>

text \<open>
  A component is a state and a set of commands, each executed by one handler. A command that panics
  leaves the state as it was: the thread or the transaction that ran it is gone.
\<close>

definition state_after :: "'s \<Rightarrow> ('s, 'e, 'a) exec \<Rightarrow> 's" where
  "state_after s r = (case exec_state r of None \<Rightarrow> s | Some t \<Rightarrow> t)"

lemma state_after_simps [simp]:
  "state_after s Panic = s" "state_after s (Fail t e) = t" "state_after s (Done t a) = t"
  by (simp_all add: state_after_def)

primrec run_cmds :: "('c \<Rightarrow> 's \<Rightarrow> ('s, 'e, 'a) exec) \<Rightarrow> 'c list \<Rightarrow> 's \<Rightarrow> 's" where
  "run_cmds step [] s = s"
| "run_cmds step (c # cs) s = run_cmds step cs (state_after s (step c s))"

lemma run_cmds_append: "run_cmds step (cs @ ds) s = run_cmds step ds (run_cmds step cs s)"
  by (induction cs arbitrary: s) auto

locale guarded_component =
  fixes step :: "'c \<Rightarrow> 's \<Rightarrow> ('s, 'e, 'a) exec"
    and inv :: "'s \<Rightarrow> bool"
  assumes step_inv: "inv s \<Longrightarrow> holds inv (step c s)"
begin

lemma state_after_inv: "inv s \<Longrightarrow> inv (state_after s (step c s))"
  using step_inv [of s c] by (cases "step c s") auto

lemma run_inv: "inv s \<Longrightarrow> inv (run_cmds step cs s)"
  by (induction cs arbitrary: s) (auto intro: state_after_inv)

lemma run_step_holds: "inv s \<Longrightarrow> holds inv (step c (run_cmds step cs s))"
  by (intro step_inv run_inv)

end

section \<open>Lists with a capacity\<close>

text \<open>
  The contract of \<open>FixedVec<T, N>\<close> as its clients see it: a list that holds at most \<open>N\<close> elements. The
  theory \<open>Fixed_Vec\<close> proves that the array-and-length representation implements these.
\<close>

definition cap_push :: "nat \<Rightarrow> 'a \<Rightarrow> 'a list \<Rightarrow> 'a list option" where
  "cap_push N x xs = (if length xs < N then Some (xs @ [x]) else None)"

fun cap_extend :: "nat \<Rightarrow> 'a list \<Rightarrow> 'a list \<Rightarrow> 'a list option" where
  "cap_extend N [] xs = Some xs"
| "cap_extend N (y # ys) xs = (case cap_push N y xs of None \<Rightarrow> None | Some xs' \<Rightarrow> cap_extend N ys xs')"

lemma cap_push_iff: "cap_push N x xs = Some ys \<longleftrightarrow> length xs < N \<and> ys = xs @ [x]"
  by (auto simp: cap_push_def)

lemma cap_extend_eq:
  "length xs \<le> N \<Longrightarrow> cap_extend N ys xs = (if length xs + length ys \<le> N then Some (xs @ ys) else None)"
  by (induction ys arbitrary: xs) (auto simp: cap_push_def)

text \<open>Indexing that panics out of range.\<close>

definition nth_opt :: "'a list \<Rightarrow> nat \<Rightarrow> 'a option" where
  "nth_opt xs i = (if i < length xs then Some (xs ! i) else None)"

lemma nth_opt_iff: "nth_opt xs i = Some x \<longleftrightarrow> i < length xs \<and> x = xs ! i"
  by (auto simp: nth_opt_def)

lemma nth_opt_None: "nth_opt xs i = None \<longleftrightarrow> length xs \<le> i"
  by (auto simp: nth_opt_def)

end
