(* ===== verification/Shuffling.thy ===== *)
theory Shuffling
  imports Psyche_Prelude
begin

text \<open>
  The two sources of deterministic randomness every node recomputes: the Fisher-Yates shuffle driven
  by a linear congruential generator (\<open>src/shared/core/src/lcg.rs\<close>, \<open>deterministic_shuffle.rs\<close>) and the
  swap-or-not network over SHA-256 (\<open>swap_or_not.rs\<close>). The SHA-256 digest comes from the \<open>sha2\<close> crate or
  from the Solana runtime: it is the parameter \<open>sha\<close>, of which only the output length is used.
\<close>

section \<open>Hashing and byte order\<close>

type_synonym sha = "bytes \<Rightarrow> bytes"

definition sha_ok :: "sha \<Rightarrow> bool" where
  "sha_ok sha \<longleftrightarrow> (\<forall>x. length (sha x) = 32)"

text \<open>\<open>sha256v\<close> feeds the slices to the hasher one after the other.\<close>

definition sha256v :: "sha \<Rightarrow> bytes list \<Rightarrow> bytes" where
  "sha256v sha ds = sha (concat ds)"

definition u64_from_le_bytes :: "bytes \<Rightarrow> u64" where
  "u64_from_le_bytes bs = foldr (\<lambda>b acc. push_bit 8 acc OR ucast b) bs 0"

definition u64_to_le_bytes :: "u64 \<Rightarrow> bytes" where
  "u64_to_le_bytes w = map (\<lambda>i. ucast (drop_bit (8 * i) w)) [0..<8]"

section \<open>Linear congruential generator\<close>

definition LCG_A :: u64 where "LCG_A = 6364136223846793005"
definition LCG_C :: u64 where "LCG_C = 1442695040888963407"

definition lcg_next_u64 :: "u64 \<Rightarrow> u64" where
  "lcg_next_u64 state = state * LCG_A + LCG_C"

definition lcg_next_range :: "nat \<Rightarrow> u64 \<Rightarrow> (nat \<times> u64) option" where
  "lcg_next_range maxval state =
     (let state' = lcg_next_u64 state
      in map_option (\<lambda>r. (unat r, state')) (checked_rem state' (of_nat maxval)))"

section \<open>Fisher-Yates shuffle\<close>

definition swap :: "nat \<Rightarrow> nat \<Rightarrow> 'a list \<Rightarrow> 'a list option" where
  "swap i j xs = (if i < length xs \<and> j < length xs then Some (xs[i := xs ! j, j := xs ! i]) else None)"

text \<open>The loop \<open>for i in (1..items.len()).rev()\<close>, from \<open>i\<close> down to 1.\<close>

fun shuffle_loop :: "nat \<Rightarrow> u64 \<Rightarrow> 'a list \<Rightarrow> 'a list option" where
  "shuffle_loop 0 rng items = Some items"
| "shuffle_loop (Suc i) rng items =
     (case lcg_next_range (Suc i + 1) rng of
        None \<Rightarrow> None
      | Some (j, rng') \<Rightarrow>
          (case swap (Suc i) j items of
             None \<Rightarrow> None
           | Some items' \<Rightarrow> shuffle_loop i rng' items'))"

definition deterministic_shuffle :: "'a list \<Rightarrow> u64 \<Rightarrow> 'a list option" where
  "deterministic_shuffle items seed = shuffle_loop (length items - 1) seed items"

section \<open>The swap-or-not network\<close>

definition SHUFFLE_ROUND_COUNT :: nat where "SHUFFLE_ROUND_COUNT = 90"

definition son_round :: "sha \<Rightarrow> bytes \<Rightarrow> u64 \<Rightarrow> u8 \<Rightarrow> u64 \<Rightarrow> u64 option" where
  "son_round sha seed index_count current_round current_index =
     (let hash_result = sha256v sha [seed, [current_round]] in
      case checked_rem (u64_from_le_bytes (take 8 hash_result)) index_count of None \<Rightarrow> None
      | Some pivot \<Rightarrow>
      case checked_add pivot index_count of None \<Rightarrow> None
      | Some s \<Rightarrow>
      case checked_sub s current_index of None \<Rightarrow> None
      | Some d \<Rightarrow>
      let flip = d mod index_count;
          position = max current_index flip;
          source = sha256v sha [seed, [current_round], take 4 (u64_to_le_bytes (position div 256))]
      in case nth_opt source (unat (position mod 256) div 8) of None \<Rightarrow> None
      | Some byte \<Rightarrow>
      let bit = (drop_bit (unat (position mod 8)) byte) mod 2
      in Some (if bit = 1 then flip else current_index))"

fun son_rounds :: "sha \<Rightarrow> bytes \<Rightarrow> u64 \<Rightarrow> u8 list \<Rightarrow> u64 \<Rightarrow> u64 option" where
  "son_rounds sha seed n [] i = Some i"
| "son_rounds sha seed n (r # rs) i =
     (case son_round sha seed n r i of None \<Rightarrow> None | Some j \<Rightarrow> son_rounds sha seed n rs j)"

definition compute_shuffled_index :: "sha \<Rightarrow> u64 \<Rightarrow> u64 \<Rightarrow> bytes \<Rightarrow> u64 option" where
  "compute_shuffled_index sha index index_count seed =
     (if index < index_count
      then son_rounds sha seed index_count (map of_nat [0..<SHUFFLE_ROUND_COUNT]) index
      else None)"

section \<open>The Fisher-Yates shuffle permutes its input\<close>

lemma lcg_next_range_bound:
  assumes "0 < m" and "m < 2 ^ 64"
  shows "\<exists>j s'. lcg_next_range m s = Some (j, s') \<and> j < m"
proof -
  have nz: "(of_nat m :: u64) \<noteq> 0" and un: "unat (of_nat m :: u64) = m"
    using assms unat_of_nat_small [where 'a = 64, of m] by auto
  then have "unat (lcg_next_u64 s mod of_nat m) < m" using assms by (simp add: unat_mod)
  then show ?thesis using nz by (simp add: lcg_next_range_def checked_rem_def Let_def)
qed

lemma swap_mset: "swap i j xs = Some ys \<Longrightarrow> mset ys = mset xs \<and> length ys = length xs"
  by (auto simp: swap_def mset_swap split: if_splits)

lemma shuffle_loop_mset:
  "i < length xs \<Longrightarrow> length xs < 2 ^ 64 \<Longrightarrow> \<exists>ys. shuffle_loop i rng xs = Some ys \<and> mset ys = mset xs"
proof (induction i arbitrary: rng xs)
  case 0
  then show ?case by simp
next
  case (Suc i)
  obtain j rng' where j: "lcg_next_range (Suc i + 1) rng = Some (j, rng')" "j < Suc i + 1"
    using lcg_next_range_bound [of "Suc i + 1" rng] Suc.prems by auto
  obtain ys where ys: "swap (Suc i) j xs = Some ys"
    using j Suc.prems by (auto simp: swap_def)
  then have m: "mset ys = mset xs" "length ys = length xs" using swap_mset by blast+
  then obtain zs where "shuffle_loop i rng' ys = Some zs" "mset zs = mset ys"
    using Suc.IH [of ys rng'] Suc.prems by auto
  then show ?case using j(1) ys m by auto
qed

lemma deterministic_shuffle_total:
  assumes "length xs < 2 ^ 64"
  obtains ys where "deterministic_shuffle xs seed = Some ys" "mset ys = mset xs"
proof (cases "xs = []")
  case True
  then show ?thesis using that by (simp add: deterministic_shuffle_def)
next
  case False
  then show ?thesis
    using that shuffle_loop_mset [of "length xs - 1" xs seed] assms
    by (auto simp: deterministic_shuffle_def)
qed

section \<open>The swap-or-not network permutes the index range\<close>

text \<open>The reflection of one round, on natural numbers: an involution of \<open>{..<n}\<close>.\<close>

definition reflect :: "nat \<Rightarrow> nat \<Rightarrow> nat \<Rightarrow> nat" where
  "reflect n p i = (p + n - i) mod n"

lemma reflect_less: "0 < n \<Longrightarrow> reflect n p i < n"
  by (simp add: reflect_def)

lemma reflect_reflect: "p < n \<Longrightarrow> i < n \<Longrightarrow> reflect n p (reflect n p i) = i"
proof -
  assume pn: "p < n" and i: "i < n"
  show ?thesis
  proof (cases "i \<le> p")
    case True
    then have "p + n - i = n + (p - i)" by simp
    then have "reflect n p i = p - i" using pn unfolding reflect_def by (simp only: mod_add_self1 mod_less)
    moreover have "p + n - (p - i) = n + i" using True by simp
    ultimately show ?thesis using i by (simp add: reflect_def)
  next
    case False
    then have "reflect n p i = p + n - i" using pn i by (simp add: reflect_def)
    then show ?thesis using pn i False by (simp add: reflect_def)
  qed
qed

text \<open>
  A round swaps an index with its reflection, or not; the decision depends only on the pair, because
  it is read at the larger of the two.
\<close>

lemma son_round_eq:
  assumes sha: "sha_ok sha" and n: "unat n \<le> 2 ^ 63" and i: "i < n"
  obtains p g where "p < unat n"
    and "\<And>j. j < n \<Longrightarrow> \<exists>k. son_round sha seed n r j = Some k \<and> k < n \<and>
           unat k = (if g (max (unat j) (reflect (unat n) p (unat j)))
                     then reflect (unat n) p (unat j) else unat j)"
proof -
  define h where "h = u64_from_le_bytes (take 8 (sha256v sha [seed, [r]]))"
  define p where "p = unat (h mod n)"
  define src where "src q = sha256v sha [seed, [r], take 4 (u64_to_le_bytes (q div 256))]" for q
  define g where "g q = (drop_bit (unat ((of_nat q :: u64) mod 8))
      (src (of_nat q) ! (unat ((of_nat q :: u64) mod 256) div 8)) mod 2 = 1)" for q
  have n0: "n \<noteq> 0" using i by auto
  then have npos: "0 < unat n" by (simp add: unat_gt_0)
  have p: "p < unat n" using npos by (simp add: p_def unat_mod)
  have "\<exists>k. son_round sha seed n r j = Some k \<and> k < n \<and>
      unat k = (if g (max (unat j) (reflect (unat n) p (unat j)))
                then reflect (unat n) p (unat j) else unat j)" if j: "j < n" for j
  proof -
    have ju: "unat j < unat n" using j by (simp add: word_less_nat_alt)
    have fits: "unat (h mod n) + unat n < 2 ^ 64" using p n by (simp add: p_def)
    have s: "checked_add (h mod n) n = Some (h mod n + n)" using fits by (simp add: checked_add_def)
    have us: "unat (h mod n + n) = p + unat n" using checked_add_Some [OF s] by (simp add: p_def)
    have d: "checked_sub (h mod n + n) j = Some (h mod n + n - j)" using us ju
      by (simp add: checked_sub_def word_le_nat_alt)
    have ud: "unat (h mod n + n - j) = p + unat n - unat j" using checked_sub_Some [OF d] us by simp
    define f where "f = (h mod n + n - j) mod n"
    have uf: "unat f = reflect (unat n) p (unat j)" by (simp add: f_def unat_mod ud reflect_def)
    define q where "q = max j f"
    have uq: "unat q = max (unat j) (reflect (unat n) p (unat j))"
      unfolding q_def max_def by (auto simp: uf [symmetric] word_le_nat_alt)
    have qq: "of_nat (unat q) = q" by simp
    have "length (src q) = 32" using sha by (simp add: src_def sha256v_def sha_ok_def)
    moreover have "unat (q mod 256) < 256" by (simp add: unat_mod)
    ultimately have src: "nth_opt (src q) (unat (q mod 256) div 8) = Some (src q ! (unat (q mod 256) div 8))"
      by (simp add: nth_opt_def)
    have "son_round sha seed n r j = Some (if g (unat q) then f else j)"
      using n0 s d src by (simp add: son_round_def Let_def checked_rem_def h_def [symmetric]
          f_def [symmetric] q_def [symmetric] src_def [symmetric] g_def)
    moreover have "f < n" using npos by (simp add: word_less_nat_alt uf reflect_less)
    ultimately show ?thesis using uf uq j by auto
  qed
  with p show ?thesis by (rule that)
qed

lemma son_round_perm:
  assumes "sha_ok sha" and "unat n \<le> 2 ^ 63" and "i < n"
  shows "\<exists>k. son_round sha seed n r i = Some k \<and> k < n \<and> son_round sha seed n r k = Some i"
proof -
  obtain p g where p: "p < unat n"
    and step: "\<And>j. j < n \<Longrightarrow> \<exists>k. son_round sha seed n r j = Some k \<and> k < n \<and>
           unat k = (if g (max (unat j) (reflect (unat n) p (unat j)))
                     then reflect (unat n) p (unat j) else unat j)"
    using son_round_eq [OF assms, of seed r] by blast
  from step [OF assms(3)] obtain k where k: "son_round sha seed n r i = Some k" "k < n"
    and uk: "unat k = (if g (max (unat i) (reflect (unat n) p (unat i)))
                     then reflect (unat n) p (unat i) else unat i)" by blast
  from step [OF k(2)] obtain l where l: "son_round sha seed n r k = Some l"
    and ul: "unat l = (if g (max (unat k) (reflect (unat n) p (unat k)))
                     then reflect (unat n) p (unat k) else unat k)" by blast
  have "reflect (unat n) p (reflect (unat n) p (unat i)) = unat i"
    using p assms(3) by (intro reflect_reflect) (simp_all add: word_less_nat_alt)
  then have "unat l = unat i" using uk ul by (auto simp: max.commute split: if_splits)
  then have "l = i" by (simp add: word_unat_eq_iff)
  then show ?thesis using k l by blast
qed

lemma son_rounds_range:
  assumes "sha_ok sha" and "unat n \<le> 2 ^ 63"
  shows "i < n \<Longrightarrow> \<exists>k. son_rounds sha seed n rs i = Some k \<and> k < n"
proof (induction rs arbitrary: i)
  case (Cons r rs)
  from son_round_perm [OF assms Cons.prems, of seed r] obtain j where
    "son_round sha seed n r i = Some j" "j < n" by blast
  then show ?case using Cons.IH by auto
qed simp

lemma son_rounds_inj:
  assumes "sha_ok sha" and "unat n \<le> 2 ^ 63"
  shows "i < n \<Longrightarrow> j < n \<Longrightarrow> son_rounds sha seed n rs i = Some k \<Longrightarrow>
    son_rounds sha seed n rs j = Some k \<Longrightarrow> i = j"
proof (induction rs arbitrary: i j)
  case (Cons r rs)
  from son_round_perm [OF assms Cons.prems(1), of seed r] obtain a where
    a: "son_round sha seed n r i = Some a" "a < n" "son_round sha seed n r a = Some i" by blast
  from son_round_perm [OF assms Cons.prems(2), of seed r] obtain b where
    b: "son_round sha seed n r j = Some b" "b < n" "son_round sha seed n r b = Some j" by blast
  have "a = b" using Cons.IH [OF a(2) b(2)] Cons.prems(3,4) a b by simp
  then show ?case using a b by simp
qed simp

lemma compute_shuffled_index_range:
  "sha_ok sha \<Longrightarrow> unat n \<le> 2 ^ 63 \<Longrightarrow> i < n \<Longrightarrow>
    \<exists>k. compute_shuffled_index sha i n seed = Some k \<and> k < n"
  unfolding compute_shuffled_index_def using son_rounds_range [of sha n i seed] by simp

lemma compute_shuffled_index_inj:
  "sha_ok sha \<Longrightarrow> unat n \<le> 2 ^ 63 \<Longrightarrow> i < n \<Longrightarrow> j < n \<Longrightarrow>
    compute_shuffled_index sha i n seed = Some k \<Longrightarrow> compute_shuffled_index sha j n seed = Some k \<Longrightarrow> i = j"
  unfolding compute_shuffled_index_def by (auto intro: son_rounds_inj)

text \<open>A map that is injective on \<open>{..<n}\<close> and stays inside sends exactly \<open>min m n\<close> indices below \<open>m\<close>.\<close>

lemma card_below:
  assumes "inj_on f {..<n}" and "f ` {..<n} \<subseteq> {..<(n::nat)}"
  shows "card {i. i < n \<and> f i < m} = min m n"
proof -
  have surj: "f ` {..<n} = {..<n}" using assms by (simp add: endo_inj_surj)
  have "bij_betw f {i. i < n \<and> f i < m} ({..<n} \<inter> {..<m})"
    unfolding bij_betw_def
  proof
    show "inj_on f {i. i < n \<and> f i < m}" using assms(1) by (rule inj_on_subset) auto
    show "f ` {i. i < n \<and> f i < m} = {..<n} \<inter> {..<m}" using surj by auto
  qed
  then have "card {i. i < n \<and> f i < m} = card ({..<n} \<inter> {..<m})" by (rule bij_betw_same_card)
  also have "{..<n} \<inter> {..<m} = {..<min m n}" by auto
  finally show ?thesis by simp
qed

section \<open>Properties\<close>

text \<open>
  The Fisher-Yates shuffle never panics and returns a permutation of its input, whatever the
  seed: no trainer is lost or duplicated when the batch owners are shuffled.
\<close>

theorem deterministic_shuffle_permutes:
  "length xs < 2 ^ 64 \<Longrightarrow> \<exists>ys. deterministic_shuffle xs seed = Some ys \<and> mset ys = mset xs"
  by (rule deterministic_shuffle_total) auto

theorem deterministic_shuffle_permutes_witness:
  "length [10, 20, 30 :: nat] < 2 ^ 64 \<and>
   (\<exists>ys. deterministic_shuffle [10, 20, 30 :: nat] 42 = Some ys \<and> mset ys = {#10, 20, 30#})"
  using deterministic_shuffle_permutes [of "[10, 20, 30 :: nat]" 42] by simp

text \<open>
  Swap-or-not is a permutation: for up to \<open>2\<^sup>6\<^sup>3\<close> nodes, \<open>compute_shuffled_index\<close> never panics on an
  index below the node count, and maps the indices bijectively onto the positions. The bound is the
  one below which \<open>pivot + index_count\<close> cannot overflow.
\<close>

theorem compute_shuffled_index_bij:
  assumes "sha_ok sha" and "unat n \<le> 2 ^ 63"
  shows "(\<forall>i. i < n \<longleftrightarrow> compute_shuffled_index sha i n seed \<noteq> None) \<and>
         bij_betw (\<lambda>i. the (compute_shuffled_index sha i n seed)) {..<n} {..<n}"
proof
  have r: "\<exists>k. compute_shuffled_index sha i n seed = Some k \<and> k < n" if "i < n" for i
    using compute_shuffled_index_range [OF assms that] .
  show "\<forall>i. i < n \<longleftrightarrow> compute_shuffled_index sha i n seed \<noteq> None"
    using r by (force simp: compute_shuffled_index_def)
  have inj: "inj_on (\<lambda>i. the (compute_shuffled_index sha i n seed)) {..<n}"
  proof (rule inj_onI)
    fix i j assume "i \<in> {..<n}" "j \<in> {..<n}"
      and eq: "the (compute_shuffled_index sha i n seed) = the (compute_shuffled_index sha j n seed)"
    then show "i = j" using r [of i] r [of j] compute_shuffled_index_inj [OF assms, of i j seed] by auto
  qed
  have "(\<lambda>i. the (compute_shuffled_index sha i n seed)) ` {..<n} \<subseteq> {..<n}" using r by force
  then show "bij_betw (\<lambda>i. the (compute_shuffled_index sha i n seed)) {..<n} {..<n}"
    using inj by (simp add: bij_betw_def endo_inj_surj)
qed

theorem compute_shuffled_index_bij_witness:
  "sha_ok (\<lambda>_. replicate 32 7) \<and> unat (5 :: u64) \<le> 2 ^ 63 \<and>
   bij_betw (\<lambda>i. the (compute_shuffled_index (\<lambda>_. replicate 32 7) i 5 [1, 2])) {..<5} {..<5}"
proof -
  have h: "sha_ok (\<lambda>_. replicate 32 7)" "unat (5 :: u64) \<le> 2 ^ 63" by (simp_all add: sha_ok_def)
  show ?thesis using h compute_shuffled_index_bij [OF h, of "[1, 2]"] by blast
qed

end
