(* ===== verification/Bloom.thy ===== *)
theory Bloom
  imports Shuffling
begin

text \<open>
  The Bloom filter witnesses publish (\<open>src/shared/core/src/bloom.rs\<close>). Its bits live in a \<open>BitArray\<close> of
  the \<open>bitvec\<close> crate and its hash is the \<open>fnv\<close> crate's, so both are parameters, collected with the
  SHA-256 digest in the record \<open>externs\<close>; \<open>externs_ok\<close> states the documented behaviour relied on. A
  \<open>BitArray<[u64; U]>\<close> is represented by its raw words.
\<close>

record externs =
  x_sha256 :: sha
  x_fnv :: "u64 \<Rightarrow> bytes \<Rightarrow> u64"
  x_bits_len :: "u64 list \<Rightarrow> nat"
  x_bits_get :: "u64 list \<Rightarrow> nat \<Rightarrow> bool option"
  x_bits_set :: "u64 list \<Rightarrow> nat \<Rightarrow> bool \<Rightarrow> u64 list option"

definition externs_ok :: "('a) externs_scheme \<Rightarrow> bool" where
  "externs_ok X \<longleftrightarrow>
     sha_ok (x_sha256 X) \<and>
     (\<forall>raw. x_bits_len X raw = 64 * length raw) \<and>
     (\<forall>raw i. x_bits_get X raw i = None \<longleftrightarrow> 64 * length raw \<le> i) \<and>
     (\<forall>raw i b. i < 64 * length raw \<longrightarrow>
        (\<exists>raw'. x_bits_set X raw i b = Some raw' \<and> length raw' = length raw \<and>
           (\<forall>j. x_bits_get X raw' j = (if j = i then Some b else x_bits_get X raw j)))) \<and>
     (\<forall>U i. i < 64 * U \<longrightarrow> x_bits_get X (replicate U 0) i = Some False)"

record bloom =
  bl_keys :: "u64 list"
  bl_bits :: "u64 list"

definition bloom_max_bits :: "nat \<Rightarrow> nat" where
  "bloom_max_bits U = U * 8 * 8"

definition bloom_default :: "nat \<Rightarrow> nat \<Rightarrow> bloom" where
  "bloom_default U K = \<lparr>bl_keys = replicate K 0, bl_bits = replicate U 0\<rparr>"

text \<open>\<open>Bloom::<U, K>::new\<close>: \<open>None\<close> where one of its assertions fails.\<close>

definition bloom_new :: "nat \<Rightarrow> nat \<Rightarrow> nat \<Rightarrow> u64 list \<Rightarrow> bloom option" where
  "bloom_new U K num_bits keys_slice =
     (if num_bits \<le> bloom_max_bits U \<and> length keys_slice = K
      then Some \<lparr>bl_keys = keys_slice, bl_bits = replicate U 0\<rparr>
      else None)"

definition slice_hash :: "'a externs_scheme \<Rightarrow> bytes \<Rightarrow> u64 \<Rightarrow> u64" where
  "slice_hash X data hash_index = x_fnv X hash_index data"

definition bloom_pos :: "'a externs_scheme \<Rightarrow> bloom \<Rightarrow> bytes \<Rightarrow> u64 \<Rightarrow> u64" where
  "bloom_pos X self key k =
     (case checked_rem (slice_hash X key k) (of_nat (x_bits_len X (bl_bits self))) of
        None \<Rightarrow> 0 | Some r \<Rightarrow> r)"

definition bloom_clear :: "bloom \<Rightarrow> bloom" where
  "bloom_clear self = self\<lparr>bl_bits := replicate (length (bl_bits self)) 0\<rparr>"

fun bloom_add_loop :: "'a externs_scheme \<Rightarrow> bytes \<Rightarrow> u64 list \<Rightarrow> bloom \<Rightarrow> bloom option" where
  "bloom_add_loop X key [] self = Some self"
| "bloom_add_loop X key (k # ks) self =
     (let pos = unat (bloom_pos X self key k) in
      case x_bits_get X (bl_bits self) pos of
        None \<Rightarrow> None
      | Some True \<Rightarrow> bloom_add_loop X key ks self
      | Some False \<Rightarrow>
          (case x_bits_set X (bl_bits self) pos True of
             None \<Rightarrow> None
           | Some raw \<Rightarrow> bloom_add_loop X key ks (self\<lparr>bl_bits := raw\<rparr>)))"

definition bloom_add :: "'a externs_scheme \<Rightarrow> bytes \<Rightarrow> bloom \<Rightarrow> bloom option" where
  "bloom_add X key self = bloom_add_loop X key (bl_keys self) self"

fun bloom_contains_loop :: "'a externs_scheme \<Rightarrow> bloom \<Rightarrow> bytes \<Rightarrow> u64 list \<Rightarrow> bool option" where
  "bloom_contains_loop X self key [] = Some True"
| "bloom_contains_loop X self key (k # ks) =
     (case x_bits_get X (bl_bits self) (unat (bloom_pos X self key k)) of
        None \<Rightarrow> None
      | Some False \<Rightarrow> Some False
      | Some True \<Rightarrow> bloom_contains_loop X self key ks)"

definition bloom_contains :: "'a externs_scheme \<Rightarrow> bloom \<Rightarrow> bytes \<Rightarrow> bool option" where
  "bloom_contains X self key = bloom_contains_loop X self key (bl_keys self)"

fun bloom_add_all :: "'a externs_scheme \<Rightarrow> bytes list \<Rightarrow> bloom \<Rightarrow> bloom option" where
  "bloom_add_all X [] self = Some self"
| "bloom_add_all X (key # keys) self =
     (case bloom_add X key self of None \<Rightarrow> None | Some self' \<Rightarrow> bloom_add_all X keys self')"

section \<open>Bits of a filter\<close>

text \<open>A filter with at least one and at most \<open>2\<^sup>5\<^sup>8 - 1\<close> words: every position is a bit of it.\<close>

definition bloom_ok :: "bloom \<Rightarrow> bool" where
  "bloom_ok b \<longleftrightarrow> 0 < length (bl_bits b) \<and> 64 * length (bl_bits b) < 2 ^ 64"

lemma externs_sha_ok: "externs_ok X \<Longrightarrow> sha_ok (x_sha256 X)"
  by (simp add: externs_ok_def)

lemma bits_set_ok:
  "externs_ok X \<Longrightarrow> i < 64 * length raw \<Longrightarrow>
    \<exists>raw'. x_bits_set X raw i b = Some raw' \<and> length raw' = length raw \<and>
      (\<forall>j. x_bits_get X raw' j = (if j = i then Some b else x_bits_get X raw j))"
  unfolding externs_ok_def by blast

lemma bits_get_ok: "externs_ok X \<Longrightarrow> i < 64 * length raw \<Longrightarrow> \<exists>b. x_bits_get X raw i = Some b"
  unfolding externs_ok_def by (metis not_le option.exhaust)

lemma bloom_pos_range:
  assumes "externs_ok X" and "bloom_ok b"
  shows "unat (bloom_pos X b key k) < 64 * length (bl_bits b)"
proof -
  let ?n = "64 * length (bl_bits b)"
  have n: "unat (of_nat ?n :: u64) = ?n" "0 < ?n" "x_bits_len X (bl_bits b) = ?n"
    using assms unat_of_nat_small [where 'a = 64, of ?n] by (auto simp: bloom_ok_def externs_ok_def)
  then have "(of_nat ?n :: u64) \<noteq> 0" by (metis less_irrefl unat_0)
  then show ?thesis using n by (simp add: bloom_pos_def checked_rem_def unat_mod del: of_nat_mult)
qed

lemma bloom_pos_cong:
  "externs_ok X \<Longrightarrow> length (bl_bits b) = length (bl_bits c) \<Longrightarrow> bloom_pos X b key k = bloom_pos X c key k"
  by (simp add: bloom_pos_def externs_ok_def)

text \<open>One filter extends another: same keys and size, and every bit set before is still set.\<close>

definition bloom_le :: "'a externs_scheme \<Rightarrow> bloom \<Rightarrow> bloom \<Rightarrow> bool" where
  "bloom_le X b c \<longleftrightarrow> bl_keys b = bl_keys c \<and> length (bl_bits b) = length (bl_bits c) \<and>
     (\<forall>i. x_bits_get X (bl_bits b) i = Some True \<longrightarrow> x_bits_get X (bl_bits c) i = Some True)"

lemma bloom_le_refl [simp]: "bloom_le X b b"
  by (simp add: bloom_le_def)

lemma bloom_le_trans: "bloom_le X a b \<Longrightarrow> bloom_le X b c \<Longrightarrow> bloom_le X a c"
  by (simp add: bloom_le_def)

lemma bloom_le_ok: "bloom_le X b c \<Longrightarrow> bloom_ok b \<longleftrightarrow> bloom_ok c"
  by (simp add: bloom_le_def bloom_ok_def)

lemma bloom_add_loop_ok:
  assumes "externs_ok X" and "bloom_ok b"
  shows "\<exists>c. bloom_add_loop X key ks b = Some c \<and> bloom_le X b c \<and>
           (\<forall>k \<in> set ks. x_bits_get X (bl_bits c) (unat (bloom_pos X c key k)) = Some True)"
  using assms(2)
proof (induction ks arbitrary: b)
  case Nil
  then show ?case by simp
next
  case (Cons k ks)
  let ?p = "unat (bloom_pos X b key k)"
  have p: "?p < 64 * length (bl_bits b)" by (rule bloom_pos_range [OF assms(1) Cons.prems])
  obtain v where v: "x_bits_get X (bl_bits b) ?p = Some v" using bits_get_ok [OF assms(1) p] by blast
  obtain b' where b': "bloom_le X b b'" "x_bits_get X (bl_bits b') ?p = Some True"
    and step: "bloom_add_loop X key (k # ks) b = bloom_add_loop X key ks b'"
  proof (cases v)
    case True
    then show ?thesis using v by (intro that [of b]) (simp_all add: Let_def)
  next
    case False
    obtain raw where "x_bits_set X (bl_bits b) ?p True = Some raw" "length raw = length (bl_bits b)"
      "\<forall>j. x_bits_get X raw j = (if j = ?p then Some True else x_bits_get X (bl_bits b) j)"
      using bits_set_ok [OF assms(1) p, of True] by blast
    then show ?thesis using v False
      by (intro that [of "b\<lparr>bl_bits := raw\<rparr>"]) (simp_all add: Let_def bloom_le_def)
  qed
  have "bloom_ok b'" using bloom_le_ok [OF b'(1)] Cons.prems by simp
  from Cons.IH [OF this] obtain c where c: "bloom_add_loop X key ks b' = Some c" "bloom_le X b' c"
    "\<forall>k \<in> set ks. x_bits_get X (bl_bits c) (unat (bloom_pos X c key k)) = Some True" by blast
  have "bloom_pos X c key k = bloom_pos X b key k"
    using bloom_le_trans [OF b'(1) c(2)] by (intro bloom_pos_cong [OF assms(1)]) (simp add: bloom_le_def)
  then have "x_bits_get X (bl_bits c) (unat (bloom_pos X c key k)) = Some True"
    using b'(2) c(2) by (simp add: bloom_le_def)
  then show ?case using c step bloom_le_trans [OF b'(1) c(2)] by auto
qed

lemma bloom_contains_loop_True:
  "\<forall>k \<in> set ks. x_bits_get X (bl_bits b) (unat (bloom_pos X b key k)) = Some True \<Longrightarrow>
    bloom_contains_loop X b key ks = Some True"
  by (induction ks) auto

lemma bloom_contains_loop_bits:
  "bloom_contains_loop X b key ks = Some True \<Longrightarrow>
    \<forall>k \<in> set ks. x_bits_get X (bl_bits b) (unat (bloom_pos X b key k)) = Some True"
  by (induction ks) (auto split: option.splits bool.splits)

lemma bloom_contains_mono:
  assumes "externs_ok X" and "bloom_le X b c" and "bloom_contains X b key = Some True"
  shows "bloom_contains X c key = Some True"
proof -
  have "bloom_pos X c key k = bloom_pos X b key k" for k
    using assms(2) by (intro bloom_pos_cong [OF assms(1)]) (simp add: bloom_le_def)
  then have "\<forall>k \<in> set (bl_keys c). x_bits_get X (bl_bits c) (unat (bloom_pos X c key k)) = Some True"
    using bloom_contains_loop_bits [of X b key "bl_keys b"] assms(2,3)
    by (auto simp: bloom_contains_def bloom_le_def)
  then show ?thesis by (simp add: bloom_contains_def bloom_contains_loop_True)
qed

lemma bloom_add_ok:
  assumes "externs_ok X" and "bloom_ok b"
  shows "\<exists>c. bloom_add X key b = Some c \<and> bloom_le X b c \<and> bloom_contains X c key = Some True"
proof -
  obtain c where "bloom_add_loop X key (bl_keys b) b = Some c" "bloom_le X b c"
    "\<forall>k \<in> set (bl_keys b). x_bits_get X (bl_bits c) (unat (bloom_pos X c key k)) = Some True"
    using bloom_add_loop_ok [OF assms] by blast
  then show ?thesis
    by (auto simp: bloom_add_def bloom_contains_def bloom_le_def intro!: bloom_contains_loop_True)
qed

lemma bloom_contains_total:
  assumes "externs_ok X" and "bloom_ok b"
  shows "\<exists>v. bloom_contains X b key = Some v"
proof -
  have g: "\<exists>v. x_bits_get X (bl_bits b) (unat (bloom_pos X b key k)) = Some v" for k
    by (rule bits_get_ok [OF assms(1) bloom_pos_range [OF assms]])
  have "\<exists>v. bloom_contains_loop X b key ks = Some v" for ks
  proof (induction ks)
    case (Cons k ks)
    then show ?case using g [of k] by (auto split: bool.splits)
  qed auto
  then show ?thesis by (simp add: bloom_contains_def)
qed

lemma bloom_add_all_ok:
  assumes "externs_ok X" and "bloom_ok b"
  shows "\<exists>c. bloom_add_all X keys b = Some c \<and> bloom_le X b c \<and>
           (\<forall>key \<in> set keys. bloom_contains X c key = Some True)"
  using assms(2)
proof (induction keys arbitrary: b)
  case (Cons key keys)
  obtain b' where b': "bloom_add X key b = Some b'" "bloom_le X b b'" "bloom_contains X b' key = Some True"
    using bloom_add_ok [OF assms(1) Cons.prems] by blast
  have "bloom_ok b'" using bloom_le_ok [OF b'(2)] Cons.prems by simp
  from Cons.IH [OF this] obtain c where c: "bloom_add_all X keys b' = Some c" "bloom_le X b' c"
    "\<forall>key \<in> set keys. bloom_contains X c key = Some True" by blast
  moreover have "bloom_contains X c key = Some True"
    by (rule bloom_contains_mono [OF assms(1) c(2) b'(3)])
  ultimately show ?case using b' bloom_le_trans [OF b'(2) c(2)] by auto
qed simp

section \<open>A concrete set of externals\<close>

text \<open>
  Least-significant-bit-first bit access on the raw words, with a constant digest and a simple hash:
  an instance on which the hypotheses of this development can be evaluated.
\<close>

definition lsb0_get :: "u64 list \<Rightarrow> nat \<Rightarrow> bool option" where
  "lsb0_get raw i = (if i < 64 * length raw then Some (bit (raw ! (i div 64)) (i mod 64)) else None)"

definition lsb0_set :: "u64 list \<Rightarrow> nat \<Rightarrow> bool \<Rightarrow> u64 list option" where
  "lsb0_set raw i b =
     (if i < 64 * length raw
      then Some (raw[i div 64 := (if b then Bit_Operations.set_bit (i mod 64) (raw ! (i div 64))
                                  else unset_bit (i mod 64) (raw ! (i div 64)))])
      else None)"

definition sample_externs :: externs where
  "sample_externs = \<lparr>x_sha256 = (\<lambda>_. replicate 32 0),
     x_fnv = (\<lambda>k bs. k + of_nat (length bs)),
     x_bits_len = (\<lambda>raw. 64 * length raw), x_bits_get = lsb0_get, x_bits_set = lsb0_set\<rparr>"

lemma lsb0_get_set:
  assumes "i < 64 * length raw"
  shows "\<exists>raw'. lsb0_set raw i b = Some raw' \<and> length raw' = length raw \<and>
    (\<forall>j. lsb0_get raw' j = (if j = i then Some b else lsb0_get raw j))"
proof -
  let ?w = "raw ! (i div 64)"
  let ?v = "if b then Bit_Operations.set_bit (i mod 64) ?w else unset_bit (i mod 64) ?w"
  let ?raw = "raw[i div 64 := ?v]"
  have "lsb0_set raw i b = Some ?raw" using assms by (simp add: lsb0_set_def)
  moreover have "lsb0_get ?raw j = (if j = i then Some b else lsb0_get raw j)" for j
  proof (cases "j div 64 = i div 64")
    case True
    have "j = i \<longleftrightarrow> j mod 64 = i mod 64" using True by (metis div_mult_mod_eq)
    then show ?thesis using True assms
      by (auto simp: lsb0_get_def bit_set_bit_iff bit_unset_bit_iff)
  next
    case False
    then show ?thesis by (auto simp: lsb0_get_def)
  qed
  ultimately show ?thesis by auto
qed

lemma externs_ok_lsb0:
  assumes "sha_ok (x_sha256 X)" and "x_bits_len X = (\<lambda>raw. 64 * length raw)"
    and "x_bits_get X = lsb0_get" and "x_bits_set X = lsb0_set"
  shows "externs_ok X"
proof -
  have "lsb0_get raw i = None \<longleftrightarrow> 64 * length raw \<le> i" for raw i by (simp add: lsb0_get_def not_less)
  moreover have "lsb0_get (replicate U 0) i = Some False" if "i < 64 * U" for U i
    using that by (simp add: lsb0_get_def)
  ultimately show ?thesis using assms(1) lsb0_get_set unfolding externs_ok_def assms(2-4)
    by (simp split del: if_split)
qed

lemma sample_externs_ok: "externs_ok sample_externs"
  by (rule externs_ok_lsb0) (simp_all add: sample_externs_def sha_ok_def)

section \<open>Properties\<close>

text \<open>
  The Bloom filter has no false negatives: adding items never panics, and every item added is
  reported as contained, whatever is added before or after it. A witness can therefore not fail to
  vouch for a participant it has seen.
\<close>

theorem bloom_no_false_negatives:
  assumes "externs_ok X" and "bloom_ok b" and "key \<in> set keys"
  shows "\<exists>c. bloom_add_all X keys b = Some c \<and> bloom_contains X c key = Some True"
  using bloom_add_all_ok [OF assms(1,2), of keys] assms(3) by blast

theorem bloom_no_false_negatives_witness:
  "externs_ok sample_externs \<and> bloom_ok (bloom_default 16 8) \<and>
   (\<exists>c. bloom_add_all sample_externs [[1, 2], [3]] (bloom_default 16 8) = Some c \<and>
      bloom_contains sample_externs c [3] = Some True)"
proof -
  have b: "bloom_ok (bloom_default 16 8)" by (simp add: bloom_ok_def bloom_default_def)
  show ?thesis
    using sample_externs_ok b bloom_no_false_negatives [OF sample_externs_ok b, of "[3]" "[[1, 2], [3]]"]
    by simp
qed

end
