(* ===== verification/Core_Types.thy ===== *)
theory Core_Types
  imports Psyche_Prelude
begin

text \<open>
  The small fixed-size value types of \<open>src/shared/core\<close>: \<open>SmallBoolean\<close>, \<open>FixedString\<close>, \<open>TokenSize\<close>, the
  \<open>Shuffle\<close> option of a data source, and \<open>BoundedQueue\<close>.
\<close>

section \<open>SmallBoolean\<close>

datatype small_boolean = SmallBoolean u8

definition SB_TRUE :: small_boolean where "SB_TRUE = SmallBoolean 1"
definition SB_FALSE :: small_boolean where "SB_FALSE = SmallBoolean 0"

definition sb_new :: "bool \<Rightarrow> small_boolean" where
  "sb_new v = (if v then SB_TRUE else SB_FALSE)"

fun sb_is_false :: "small_boolean \<Rightarrow> bool" where
  "sb_is_false (SmallBoolean b) \<longleftrightarrow> b = 0"

definition sb_is_true :: "small_boolean \<Rightarrow> bool" where
  "sb_is_true b \<longleftrightarrow> \<not> sb_is_false b"

definition sb_not :: "small_boolean \<Rightarrow> small_boolean" where
  "sb_not b = sb_new (\<not> sb_is_true b)"

lemma sb_new_simps [simp]:
  "sb_is_true (sb_new v) = v" "sb_is_false (sb_new v) = (\<not> v)"
  "sb_is_true SB_TRUE" "\<not> sb_is_true SB_FALSE" "sb_is_false SB_FALSE" "\<not> sb_is_false SB_TRUE"
  by (auto simp: sb_new_def sb_is_true_def SB_TRUE_def SB_FALSE_def)

lemma sb_new_inj [simp]: "sb_new a = sb_new b \<longleftrightarrow> a = b"
  by (auto simp: sb_new_def SB_TRUE_def SB_FALSE_def)

section \<open>FixedString\<close>

text \<open>
  \<open>FixedString<L>\<close> is an array of \<open>L\<close> bytes; the string ends at the first zero byte. Strings are their
  UTF-8 bytes. Reading a string back also repairs invalid UTF-8 (\<open>from_utf8_lossy\<close>), which is the
  identity on the bytes of a string; \<open>fs_string\<close> is the byte slice it is applied to.
\<close>

type_synonym fixed_string = bytes

datatype fixed_string_error = FixedStringError nat nat

definition fs_default :: "nat \<Rightarrow> fixed_string" where
  "fs_default L = replicate L 0"

definition fs_from_str_truncated :: "nat \<Rightarrow> bytes \<Rightarrow> fixed_string" where
  "fs_from_str_truncated L s = (let len = min (length s) L in take len s @ replicate (L - len) 0)"

text \<open>\<open>is_empty\<close> reads byte 0: it panics on \<open>FixedString<0>\<close>.\<close>

definition fs_is_empty :: "fixed_string \<Rightarrow> bool option" where
  "fs_is_empty a = map_option (\<lambda>b. b = 0) (nth_opt a 0)"

definition fs_try_from :: "nat \<Rightarrow> bytes \<Rightarrow> fixed_string_error + fixed_string" where
  "fs_try_from L s =
     (if L < length s then Inl (FixedStringError (length s) L) else Inr (s @ replicate (L - length s) 0))"

definition fs_string :: "fixed_string \<Rightarrow> bytes" where
  "fs_string a = takeWhile (\<lambda>b. b \<noteq> 0) a"

lemma fs_string_pad: "0 \<notin> set s \<Longrightarrow> fs_string (s @ replicate k 0) = s"
  unfolding fs_string_def by (subst takeWhile_append2) auto

section \<open>Data-source options\<close>

datatype token_size = TwoBytes | FourBytes

fun token_size_to_usize :: "token_size \<Rightarrow> nat" where
  "token_size_to_usize TwoBytes = 2"
| "token_size_to_usize FourBytes = 4"

definition token_size_try_from :: "nat \<Rightarrow> nat + token_size" where
  "token_size_try_from v = (if v = 2 then Inr TwoBytes else if v = 4 then Inr FourBytes else Inl v)"

datatype shuffle = DontShuffle | Seeded bytes

section \<open>BoundedQueue\<close>

definition bq_push :: "nat \<Rightarrow> 'a \<Rightarrow> 'a list \<Rightarrow> 'a list" where
  "bq_push U item queue =
     (let queue = queue @ [item] in if U < length queue then tl queue else queue)"

lemma bq_push_last:
  "length q \<le> U \<Longrightarrow> bq_push U x q = drop (Suc (length q) - U) (q @ [x])"
  by (cases q) (auto simp: bq_push_def Let_def Suc_diff_le)

lemma bq_pushes:
  "length q \<le> U \<Longrightarrow> fold (bq_push U) xs q = drop (length q + length xs - U) (q @ xs)"
proof (induction xs arbitrary: q)
  case (Cons x xs)
  let ?q = "bq_push U x q"
  have q: "?q = drop (Suc (length q) - U) (q @ [x])" using Cons.prems by (rule bq_push_last)
  then have len: "length ?q \<le> U" using Cons.prems by simp
  have "fold (bq_push U) (x # xs) q = drop (length ?q + length xs - U) (?q @ xs)"
    using Cons.IH [OF len] by simp
  also have "?q @ xs = drop (Suc (length q) - U) ((q @ [x]) @ xs)"
    unfolding q using Cons.prems by (subst drop_append) (simp del: append_assoc)
  also have "drop (length ?q + length xs - U) \<dots> = drop (length q + length (x # xs) - U) ((q @ [x]) @ xs)"
    unfolding drop_drop using Cons.prems by (intro arg_cong [where f = "\<lambda>n. drop n _"]) (simp add: q)
  finally show ?case by simp
qed simp

section \<open>Properties\<close>

text \<open>
  A string without zero bytes that fits survives the fixed-size encoding: \<open>try_from\<close> succeeds exactly
  on strings of at most \<open>L\<close> bytes, produces an array of exactly \<open>L\<close> bytes, agrees with
  \<open>from_str_truncated\<close> there, and reading the array back gives the string.
\<close>

theorem fixed_string_roundtrip:
  assumes "0 \<notin> set s"
  shows "(length s \<le> L \<longrightarrow> (\<exists>a. fs_try_from L s = Inr a \<and> length a = L \<and> fs_string a = s \<and>
             fs_from_str_truncated L s = a)) \<and>
         (L < length s \<longrightarrow> fs_try_from L s = Inl (FixedStringError (length s) L) \<and>
             fs_string (fs_from_str_truncated L s) = take L s)"
proof -
  have "0 \<notin> set (take L s)" using assms by (meson in_set_takeD)
  then show ?thesis using assms fs_string_pad [of s] fs_string_pad [of "take L s" 0]
    by (auto simp: fs_try_from_def fs_from_str_truncated_def Let_def min_def)
qed

theorem fixed_string_roundtrip_witness:
  "(0::u8) \<notin> set [104, 105] \<and> (\<exists>a. fs_try_from 4 [104, 105] = Inr a \<and> fs_string a = [104, 105])"
  using fixed_string_roundtrip [of "[104, 105]" 4] by auto

text \<open>
  A bounded queue keeps exactly the most recent \<open>U\<close> items, in order, whatever is pushed.
\<close>

theorem bounded_queue_keeps_latest:
  "fold (bq_push U) xs [] = drop (length xs - U) xs"
  using bq_pushes [of "[]" U xs] by simp

end
