(* ===== verification/Float64.thy ===== *)
theory Float64
  imports Psyche_Prelude Complex_Main "HOL-Library.Log_Nat"
begin

text \<open>
  IEEE 754 double precision, as far as the coordinator computes with \<open>f64\<close>: a finite double is the
  rational number it denotes, and every operation is the exact rational operation followed by
  rounding to nearest, ties to even. The values the coordinator meets lie far inside the exponent
  range (products of 16-bit and 64-bit integers and quotients below one), so overflow to infinity is
  not modelled; gradual underflow is. The locale \<open>rounding\<close> states what the coordinator relies on
  (rounding is monotone and exact on small integers) and derives the bounds its formulas need.
\<close>

section \<open>Rounding\<close>

text \<open>The binary exponent of a positive rational: the \<open>e\<close> with \<open>2\<^sup>e \<le> x < 2\<^sup>e\<^sup>+\<^sup>1\<close>.\<close>

definition expo :: "rat \<Rightarrow> int" where
  "expo x = (let (p, q) = quotient_of x; k = bitlen p - bitlen q
             in if 2 powi k \<le> x then k else k - 1)"

definition round_half_even :: "rat \<Rightarrow> int" where
  "round_half_even x =
     (let f = \<lfloor>x\<rfloor>; d = x - of_int f
      in if d < 1 / 2 then f else if 1 / 2 < d then f + 1 else if even f then f else f + 1)"

text \<open>The spacing of doubles in the binade of \<open>x\<close>: 52 bits of fraction, minimal exponent \<open>-1074\<close>.\<close>

definition ulp64 :: "rat \<Rightarrow> rat" where
  "ulp64 x = 2 powi (max (expo x - 52) (-1074))"

definition rnd64 :: "rat \<Rightarrow> rat" where
  "rnd64 x = (if x = 0 then 0
              else if 0 < x then of_int (round_half_even (x / ulp64 x)) * ulp64 x
              else - (of_int (round_half_even (- x / ulp64 (- x))) * ulp64 (- x)))"

lemma rnd64_pos: "0 < x \<Longrightarrow> rnd64 x = of_int (round_half_even (x / ulp64 x)) * ulp64 x"
  by (simp add: rnd64_def)

section \<open>Rounding to an integer\<close>

lemma round_half_even_mono: "x \<le> y \<Longrightarrow> round_half_even x \<le> round_half_even y"
proof -
  assume le: "x \<le> y"
  show ?thesis
  proof (cases "\<lfloor>x\<rfloor> = \<lfloor>y\<rfloor>")
    case True
    with le show ?thesis by (auto simp: round_half_even_def Let_def)
  next
    case False
    with le have lt: "\<lfloor>x\<rfloor> + 1 \<le> \<lfloor>y\<rfloor>" using floor_mono [OF le] by linarith
    have "round_half_even x \<le> \<lfloor>x\<rfloor> + 1" by (auto simp: round_half_even_def Let_def)
    moreover have "\<lfloor>y\<rfloor> \<le> round_half_even y" by (auto simp: round_half_even_def Let_def)
    ultimately show ?thesis using lt by linarith
  qed
qed

lemma round_half_even_of_int [simp]: "round_half_even (of_int n) = n"
  by (simp add: round_half_even_def)

lemma round_half_even_near:
  "\<bar>x - of_int n\<bar> < 1 / 2 \<Longrightarrow> round_half_even x = n"
proof -
  assume a: "\<bar>x - of_int n\<bar> < 1 / 2"
  show ?thesis
  proof (cases "of_int n \<le> x")
    case True
    with a have "\<lfloor>x\<rfloor> = n" by (intro floor_unique) auto
    with a True show ?thesis by (simp add: round_half_even_def)
  next
    case False
    with a have "\<lfloor>x\<rfloor> = n - 1" by (intro floor_unique) auto
    with a False show ?thesis by (simp add: round_half_even_def)
  qed
qed

lemma round_half_even_tie:
  "even n \<Longrightarrow> x = of_int n - 1 / 2 \<Longrightarrow> round_half_even x = n"
proof -
  assume "even n" and x: "x = of_int n - 1 / 2"
  have "\<lfloor>x\<rfloor> = n - 1" unfolding x by (intro floor_unique) auto
  with \<open>even n\<close> x show ?thesis by (simp add: round_half_even_def)
qed

section \<open>The exponent\<close>

lemma two_powi_less_iff [simp]: "(2::rat) powi a < 2 powi b \<longleftrightarrow> a < b"
proof
  assume lt: "(2::rat) powi a < 2 powi b"
  show "a < b"
  proof (rule ccontr)
    assume "\<not> a < b"
    then have "(2::rat) powi b \<le> 2 powi a" by (intro power_int_increasing) auto
    with lt show False by simp
  qed
qed (intro power_int_strict_increasing, auto)

lemma two_powi_le_iff [simp]: "(2::rat) powi a \<le> 2 powi b \<longleftrightarrow> a \<le> b"
  using two_powi_less_iff [of b a] by linarith

lemma bitlen_pos_bounds:
  "0 < p \<Longrightarrow> (2::rat) powi (bitlen p - 1) \<le> of_int p \<and> of_int p < (2::rat) powi (bitlen p)"
proof -
  assume p: "0 < p"
  obtain n where n: "bitlen p = int (Suc n)"
    using p by (metis bitlen_nonneg gr0_conv_Suc int_nat_eq nat_0_iff bitlen_eq_zero_iff not_le not_less_iff_gr_or_eq zero_less_nat_eq zero_le_imp_eq_int gr0I of_nat_0)
  have "2 ^ nat (bitlen p - 1) \<le> p \<and> p < 2 ^ nat (bitlen p)" using bitlen_bounds [OF p] .
  then have "2 ^ n \<le> p" "p < 2 ^ Suc n" unfolding n by (simp_all only: nat_int) simp
  then have "(of_int (2 ^ n) :: rat) \<le> of_int p" "(of_int p :: rat) < of_int (2 ^ Suc n)"
    by (simp_all only: of_int_le_iff of_int_less_iff)
  moreover have "(2::rat) powi (bitlen p - 1) = 2 ^ n" by (simp add: n)
  moreover have "(2::rat) powi (bitlen p) = 2 ^ Suc n" unfolding n by (simp only: power_int_of_nat)
  ultimately show ?thesis by (auto simp del: power_Suc)
qed

lemma expo_bounds:
  assumes "0 < x"
  shows "2 powi (expo x) \<le> x" and "x < 2 powi (expo x + 1)"
proof -
  obtain p q where pq: "quotient_of x = (p, q)" by (cases "quotient_of x")
  have q: "0 < q" and x: "x = of_int p / of_int q"
    using quotient_of_denom_pos [OF pq] quotient_of_div [OF pq] by auto
  have p: "0 < p" using assms q by (simp add: x zero_less_divide_iff)
  let ?k = "bitlen p - bitlen q"
  have bp: "(2::rat) powi (bitlen p - 1) \<le> of_int p" "of_int p < (2::rat) powi (bitlen p)"
    using bitlen_pos_bounds [OF p] by auto
  have bq: "(2::rat) powi (bitlen q - 1) \<le> of_int q" "of_int q < (2::rat) powi (bitlen q)"
    using bitlen_pos_bounds [OF q] by auto
  have up: "x < 2 powi (?k + 1)"
  proof -
    have "x < 2 powi (bitlen p) / of_int q" using bp q by (simp add: x divide_strict_right_mono)
    also have "\<dots> \<le> 2 powi (bitlen p) / 2 powi (bitlen q - 1)"
      using bq q by (intro divide_left_mono) auto
    also have "\<dots> = 2 powi (?k + 1)" by (simp add: power_int_diff power_int_add)
    finally show ?thesis .
  qed
  have lo: "2 powi (?k - 1) \<le> x"
  proof -
    have "2 powi (?k - 1) = (2 powi (bitlen p - 1) / 2 powi (bitlen q) :: rat)"
      by (simp add: power_int_diff)
    also have "\<dots> \<le> 2 powi (bitlen p - 1) / of_int q"
      using bq q by (intro divide_left_mono) auto
    also have "\<dots> \<le> x" using bp q by (simp add: x divide_right_mono)
    finally show ?thesis .
  qed
  show "2 powi (expo x) \<le> x" using lo by (auto simp: expo_def pq Let_def)
  show "x < 2 powi (expo x + 1)" using up by (auto simp: expo_def pq Let_def)
qed

lemma expo_unique:
  assumes "2 powi e \<le> x" and "x < 2 powi (e + 1)"
  shows "expo x = e"
proof -
  have pos: "0 < x" using assms(1) by (rule order.strict_trans2 [rotated]) simp
  note b = expo_bounds [OF pos]
  have "(2::rat) powi e < 2 powi (expo x + 1)" using assms(1) b(2) by (rule order.strict_trans1)
  then have "e < expo x + 1" by simp
  moreover have "(2::rat) powi (expo x) < 2 powi (e + 1)" using assms(2) b(1) by (rule order.strict_trans1 [rotated])
  then have "expo x < e + 1" by simp
  ultimately show ?thesis by simp
qed

lemma expo_mono: "0 < x \<Longrightarrow> x \<le> y \<Longrightarrow> expo x \<le> expo y"
proof -
  assume "0 < x" "x \<le> y"
  then have "2 powi (expo x) < (2::rat) powi (expo y + 1)"
    using expo_bounds [of x] expo_bounds [of y] by linarith
  then show ?thesis by simp
qed

section \<open>Rounding is monotone and exact on representable numbers\<close>

lemma ulp64_pos [simp]: "0 < ulp64 x"
  by (simp add: ulp64_def)

lemma ulp64_nonneg [simp]: "0 \<le> ulp64 x"
  by (rule less_imp_le [OF ulp64_pos])

lemma two_powi_div_ulp:
  assumes "max (expo x - 52) (-1074) \<le> e"
  shows "(2::rat) powi e / ulp64 x = of_int (2 ^ nat (e - max (expo x - 52) (-1074)))"
proof -
  have "(2::rat) powi e / ulp64 x = 2 powi (e - max (expo x - 52) (-1074))"
    by (simp add: ulp64_def power_int_diff)
  also have "\<dots> = of_int (2 ^ nat (e - max (expo x - 52) (-1074)))"
    using assms by (simp add: power_int_def)
  finally show ?thesis .
qed

lemma rnd64_le_powi:
  assumes "0 < x" and "x \<le> 2 powi e" and "max (expo x - 52) (-1074) \<le> e"
  shows "rnd64 x \<le> 2 powi e"
proof -
  have "x / ulp64 x \<le> 2 powi e / ulp64 x" using assms(2) by (simp add: divide_right_mono)
  then have "round_half_even (x / ulp64 x) \<le> 2 ^ nat (e - max (expo x - 52) (-1074))"
    using round_half_even_mono [of "x / ulp64 x" "2 powi e / ulp64 x"]
    unfolding two_powi_div_ulp [OF assms(3)] round_half_even_of_int by simp
  then have "(of_int (round_half_even (x / ulp64 x)) :: rat)
    \<le> of_int (2 ^ nat (e - max (expo x - 52) (-1074)))"
    by (simp only: of_int_le_iff)
  then have "of_int (round_half_even (x / ulp64 x)) \<le> 2 powi e / ulp64 x"
    unfolding two_powi_div_ulp [OF assms(3)] .
  then show ?thesis using assms(1) by (simp add: rnd64_def pos_le_divide_eq)
qed

lemma rnd64_ge_powi:
  assumes "0 < x" and "2 powi e \<le> x" and "max (expo x - 52) (-1074) \<le> e"
  shows "2 powi e \<le> rnd64 x"
proof -
  have "2 powi e / ulp64 x \<le> x / ulp64 x" using assms(2) by (simp add: divide_right_mono)
  then have "2 ^ nat (e - max (expo x - 52) (-1074)) \<le> round_half_even (x / ulp64 x)"
    using round_half_even_mono [of "2 powi e / ulp64 x" "x / ulp64 x"]
    unfolding two_powi_div_ulp [OF assms(3)] round_half_even_of_int by simp
  then have "of_int (2 ^ nat (e - max (expo x - 52) (-1074)))
    \<le> (of_int (round_half_even (x / ulp64 x)) :: rat)"
    by (simp only: of_int_le_iff)
  then have "2 powi e / ulp64 x \<le> of_int (round_half_even (x / ulp64 x))"
    unfolding two_powi_div_ulp [OF assms(3)] .
  then show ?thesis using assms(1) by (simp add: rnd64_def pos_divide_le_eq)
qed

lemma round_half_even_nonneg: "0 \<le> x \<Longrightarrow> 0 \<le> round_half_even x"
  using round_half_even_mono [of 0 x] round_half_even_of_int [of 0] by simp

lemma rnd64_nonneg: "0 \<le> x \<Longrightarrow> 0 \<le> rnd64 x"
  by (auto simp: rnd64_def intro!: mult_nonneg_nonneg round_half_even_nonneg divide_nonneg_pos
      ulp64_nonneg)

lemma rnd64_minus: "rnd64 (- x) = - rnd64 x"
  by (auto simp: rnd64_def)

lemma rnd64_mono_pos:
  assumes x: "0 < x" and xy: "x \<le> y"
  shows "rnd64 x \<le> rnd64 y"
proof (cases "ulp64 x = ulp64 y")
  case True
  have "round_half_even (x / ulp64 x) \<le> round_half_even (y / ulp64 y)"
    using xy by (intro round_half_even_mono) (simp add: True divide_right_mono)
  then show ?thesis using x xy
    by (simp add: rnd64_def True mult_right_mono ulp64_nonneg)
next
  case False
  have y: "0 < y" using x xy by simp
  have ee: "expo x \<le> expo y" by (rule expo_mono [OF x xy])
  have "expo x \<noteq> expo y" using False by (auto simp: ulp64_def)
  with ee have "expo x < expo y" by simp
  have "-1074 < expo y - 52" using False ee by (auto simp: ulp64_def max_def split: if_splits)
  with \<open>expo x < expo y\<close> have m: "max (expo x - 52) (-1074) \<le> expo y" "max (expo y - 52) (-1074) \<le> expo y" by auto
  have "x < 2 powi (expo x + 1)" by (rule expo_bounds(2) [OF x])
  also have "\<dots> \<le> 2 powi (expo y)" using \<open>expo x < expo y\<close> by simp
  finally have "x \<le> 2 powi (expo y)" by simp
  then have "rnd64 x \<le> 2 powi (expo y)" by (rule rnd64_le_powi [OF x _ m(1)])
  also have "\<dots> \<le> rnd64 y" by (rule rnd64_ge_powi [OF y expo_bounds(1) [OF y] m(2)])
  finally show ?thesis .
qed

lemma rnd64_mono: "x \<le> y \<Longrightarrow> rnd64 x \<le> rnd64 y"
proof -
  assume xy: "x \<le> y"
  consider "0 < x" | "x \<le> 0" "0 \<le> y" | "y < 0" by linarith
  then show ?thesis
  proof cases
    case 1
    then show ?thesis using xy by (rule rnd64_mono_pos)
  next
    case 2
    then have "0 \<le> rnd64 (- x)" "0 \<le> rnd64 y" by (auto intro!: rnd64_nonneg)
    then show ?thesis by (simp add: rnd64_minus)
  next
    case 3
    then have "rnd64 (- y) \<le> rnd64 (- x)" using xy by (intro rnd64_mono_pos) auto
    then show ?thesis by (simp add: rnd64_minus)
  qed
qed

lemma rnd64_representable:
  assumes "0 < x" and "x = of_int k * 2 powi j" and "max (expo x - 52) (-1074) \<le> j"
  shows "rnd64 x = x"
proof -
  have "x / ulp64 x = of_int k * (2 powi j / ulp64 x)" by (subst (1) assms(2)) simp
  also have "\<dots> = of_int (k * 2 ^ nat (j - max (expo x - 52) (-1074)))"
    unfolding two_powi_div_ulp [OF assms(3)] by simp
  finally have q: "x / ulp64 x = of_int (k * 2 ^ nat (j - max (expo x - 52) (-1074)))" .
  have "of_int (round_half_even (x / ulp64 x)) = x / ulp64 x"
    unfolding q round_half_even_of_int ..
  with assms(1) show ?thesis by (simp add: rnd64_def less_imp_neq [OF ulp64_pos, symmetric])
qed

lemma expo_of_int_less: "0 < n \<Longrightarrow> n < 2 ^ k \<Longrightarrow> expo (of_int n) < int k"
proof -
  assume n: "0 < n" "n < 2 ^ k"
  have "2 powi (expo (of_int n)) \<le> (of_int n :: rat)" using n by (intro expo_bounds) simp
  also have "\<dots> < of_int (2 ^ k)" using n(2) by (simp only: of_int_less_iff)
  also have "\<dots> = 2 powi (int k)" by simp
  finally show ?thesis by (simp only: two_powi_less_iff)
qed

lemma rnd64_of_pos_int: "0 < n \<Longrightarrow> n \<le> 2 ^ 53 \<Longrightarrow> rnd64 (of_int n) = of_int n"
proof -
  assume n: "0 < n" "n \<le> 2 ^ 53"
  show ?thesis
  proof (cases "n = 2 ^ 53")
    case True
    have e: "expo (of_int n) = 53" unfolding True by (rule expo_unique) simp_all
    show ?thesis by (rule rnd64_representable [of _ 1 53]) (use n e in \<open>simp_all add: True\<close>)
  next
    case False
    with n have "expo (of_int n) < 53" using expo_of_int_less [of n 53] by simp
    then show ?thesis using n by (intro rnd64_representable [of _ n 0]) auto
  qed
qed

lemma rnd64_of_int: "\<bar>n\<bar> \<le> 2 ^ 53 \<Longrightarrow> rnd64 (of_int n) = of_int n"
proof -
  assume n: "\<bar>n\<bar> \<le> 2 ^ 53"
  consider "n = 0" | "0 < n" | "n < 0" by linarith
  then show ?thesis
  proof cases
    case 1
    then show ?thesis by (simp add: rnd64_def)
  next
    case 2
    then show ?thesis using n by (intro rnd64_of_pos_int) auto
  next
    case 3
    then have "rnd64 (of_int (- n)) = of_int (- n)" using n by (intro rnd64_of_pos_int) auto
    then show ?thesis using rnd64_minus [of "of_int n"] by simp
  qed
qed

section \<open>What the coordinator's formulas need\<close>

locale rounding =
  fixes rnd :: "rat \<Rightarrow> rat"
    and exact_bound :: int
  assumes rnd_mono: "x \<le> y \<Longrightarrow> rnd x \<le> rnd y"
    and rnd_exact: "\<bar>n\<bar> \<le> exact_bound \<Longrightarrow> rnd (of_int n) = of_int n"
    and exact_bound_pos: "1 \<le> exact_bound"
begin

lemma rnd_0 [simp]: "rnd 0 = 0" and rnd_1 [simp]: "rnd 1 = 1"
  using rnd_exact [of 0] rnd_exact [of 1] exact_bound_pos by auto

lemma rnd_nonneg: "0 \<le> x \<Longrightarrow> 0 \<le> rnd x"
  using rnd_mono [of 0 x] by simp

lemma rnd_le_int: "x \<le> of_int n \<Longrightarrow> \<bar>n\<bar> \<le> exact_bound \<Longrightarrow> rnd x \<le> of_int n"
  using rnd_mono [of x "of_int n"] rnd_exact [of n] by simp

lemma rnd_ge_int: "of_int n \<le> x \<Longrightarrow> \<bar>n\<bar> \<le> exact_bound \<Longrightarrow> of_int n \<le> rnd x"
  using rnd_mono [of "of_int n" x] rnd_exact [of n] by simp

text \<open>A quotient of two rounded naturals in order stays in the unit interval.\<close>

lemma ratio_unit:
  assumes "0 \<le> t" and "t \<le> w"
  shows "0 \<le> rnd (rnd t / rnd w)" and "rnd (rnd t / rnd w) \<le> 1"
proof -
  have "0 \<le> rnd t" "rnd t \<le> rnd w" using assms by (auto intro: rnd_nonneg rnd_mono)
  then show "0 \<le> rnd (rnd t / rnd w)" by (intro rnd_nonneg) (simp add: divide_nonneg_nonneg)
  have "rnd t / rnd w \<le> 1" using \<open>0 \<le> rnd t\<close> \<open>rnd t \<le> rnd w\<close>
    by (cases "rnd w = 0") (auto simp: divide_le_eq_1)
  then show "rnd (rnd t / rnd w) \<le> 1" using rnd_mono [of "rnd t / rnd w" 1] by simp
qed

text \<open>
  Linear interpolation between two integers, computed with a rounding after every operation, stays
  between them and grows with the interpolation parameter.
\<close>

lemma lerp_bounds:
  assumes "a \<le> b" and "0 \<le> a" and "b \<le> exact_bound" and "0 \<le> r" and "r \<le> 1"
  shows "of_int a \<le> rnd (of_int a + rnd (rnd (of_int b - of_int a) * r))"
    and "rnd (of_int a + rnd (rnd (of_int b - of_int a) * r)) \<le> of_int b"
proof -
  have d: "rnd (of_int b - of_int a) = of_int (b - a)"
    using assms rnd_exact [of "b - a"] by simp
  have nn: "0 \<le> (of_int (b - a) :: rat)" using assms(1) by simp
  have p1: "0 \<le> rnd (of_int (b - a) * r)" using nn assms(4) by (intro rnd_nonneg mult_nonneg_nonneg)
  have p2: "rnd (of_int (b - a) * r) \<le> of_int (b - a)"
    by (rule rnd_le_int) (use nn assms in \<open>auto intro: mult_left_le\<close>)
  note p = p1 p2
  show "of_int a \<le> rnd (of_int a + rnd (rnd (of_int b - of_int a) * r))"
    unfolding d using p assms by (intro rnd_ge_int) auto
  show "rnd (of_int a + rnd (rnd (of_int b - of_int a) * r)) \<le> of_int b"
    unfolding d using p assms by (intro rnd_le_int) auto
qed

lemma lerp_mono:
  assumes "a \<le> b" and "r \<le> r'"
  shows "rnd (of_int a + rnd (rnd (of_int b - of_int a) * r))
       \<le> rnd (of_int a + rnd (rnd (of_int b - of_int a) * r'))"
proof -
  have "0 \<le> rnd (of_int b - of_int a)" using assms(1) by (intro rnd_nonneg) simp
  then have "rnd (rnd (of_int b - of_int a) * r) \<le> rnd (rnd (of_int b - of_int a) * r')"
    using assms(2) by (intro rnd_mono mult_left_mono)
  then show ?thesis by (intro rnd_mono) simp
qed

end

interpretation f64: rounding rnd64 "2 ^ 53"
  by unfold_locales (auto intro: rnd64_mono rnd64_of_int simp del: power_numeral)

section \<open>Conversions\<close>

text \<open>\<open>f64::round\<close> rounds half away from zero; \<open>as u16\<close> truncates and saturates.\<close>

definition f64_round :: "rat \<Rightarrow> rat" where
  "f64_round x = (if 0 \<le> x then of_int \<lfloor>x + 1 / 2\<rfloor> else - of_int \<lfloor>- x + 1 / 2\<rfloor>)"

definition f64_as_u16 :: "rat \<Rightarrow> u16" where
  "f64_as_u16 x = (if x < 0 then 0 else if 65535 < x then 65535 else word_of_int \<lfloor>x\<rfloor>)"

definition f64_of_nat :: "nat \<Rightarrow> rat" where
  "f64_of_nat n = rnd64 (of_nat n)"

lemma f64_round_bounds:
  "of_int m \<le> x \<Longrightarrow> x \<le> of_int n \<Longrightarrow> 0 \<le> m \<Longrightarrow> of_int m \<le> f64_round x \<and> f64_round x \<le> of_int n"
proof -
  assume a: "of_int m \<le> x" "x \<le> of_int n" "0 \<le> m"
  then have "0 \<le> x" by (metis of_int_0_le_iff order_trans)
  moreover have "m \<le> \<lfloor>x + 1 / 2\<rfloor>" using a(1) by (simp add: le_floor_iff)
  moreover have "\<lfloor>x + 1 / 2\<rfloor> \<le> n" using a(2) by (simp add: floor_le_iff)
  ultimately show ?thesis by (simp add: f64_round_def)
qed

lemma f64_round_mono: "0 \<le> x \<Longrightarrow> x \<le> y \<Longrightarrow> f64_round x \<le> f64_round y"
  by (simp add: f64_round_def floor_mono)

lemma f64_as_u16_mono: "x \<le> y \<Longrightarrow> f64_as_u16 x \<le> f64_as_u16 y"
proof -
  assume xy: "x \<le> y"
  have "\<lfloor>x\<rfloor> \<le> 65535" if "x \<le> 65535" for x :: rat using that by linarith
  moreover have "0 \<le> \<lfloor>x\<rfloor>" if "0 \<le> x" for x :: rat using that by simp
  ultimately show ?thesis using xy floor_mono [OF xy]
    by (auto simp: f64_as_u16_def word_le_def uint_word_of_int_eq take_bit_int_eq_self)
qed

lemma unat_f64_as_u16: "0 \<le> x \<Longrightarrow> x \<le> 65535 \<Longrightarrow> int (unat (f64_as_u16 x)) = \<lfloor>x\<rfloor>"
  by (auto simp: f64_as_u16_def uint_word_of_int_eq take_bit_int_eq_self floor_less_iff)

section \<open>Multiplying by two thirds\<close>

lemma rnd64_two_thirds: "rnd64 (2 / 3) = 6004799503160661 / 2 ^ 53"
proof -
  have e: "expo (2 / 3) = -1" by (rule expo_unique) (simp_all add: power_int_minus)
  have u: "ulp64 (2 / 3) = 1 / 2 ^ 53" by (simp add: ulp64_def e power_int_minus field_simps)
  have "round_half_even (2 / 3 / ulp64 (2 / 3)) = 6004799503160661"
    unfolding u by (rule round_half_even_near) simp
  then show ?thesis by (simp add: rnd64_def u)
qed

lemma of_int_less_two_power: "k < 2 ^ n \<Longrightarrow> (of_int k :: rat) < 2 ^ n"
proof -
  assume "k < 2 ^ n"
  then have "(of_int k :: rat) < of_int (2 ^ n)" by (simp only: of_int_less_iff)
  then show ?thesis by simp
qed

lemma rnd64_even_below:
  assumes k: "0 < k" "k < 2 ^ 50"
  shows "rnd64 (2 * of_int k - of_int k / 2 ^ 53) = 2 * of_int k"
proof -
  let ?y = "2 * of_int k - of_int k / 2 ^ 53 :: rat"
  define E where "E = expo (of_int (2 * k))"
  have kpos: "0 < (of_int k :: rat)" using k by simp
  have lo: "2 powi E \<le> (2 * of_int k :: rat)" and hi: "2 * of_int k < (2 powi (E + 1) :: rat)"
    using expo_bounds [of "of_int (2 * k)"] k by (auto simp: E_def)
  have E: "0 \<le> E" "E < 51"
  proof -
    have "(2::rat) powi 0 < 2 powi (E + 1)" using hi kpos k by (intro order.strict_trans1 [OF _ hi]) simp
    then show "0 \<le> E" by (simp only: two_powi_less_iff)
    show "E < 51" using expo_of_int_less [of "2 * k" 51] k by (simp add: E_def)
  qed
  define e where "e = nat E"
  have Ee: "E = int e" using E by (simp add: e_def)
  have lo': "2 ^ e \<le> 2 * k" and hi': "k < 2 ^ e"
  proof -
    have "(of_int (2 ^ e) :: rat) \<le> of_int (2 * k)" using lo by (simp add: Ee)
    then show "2 ^ e \<le> 2 * k" by (simp only: of_int_le_iff)
    have "(2 powi (E + 1) :: rat) = 2 * 2 ^ e" by (simp add: Ee power_int_add)
    then have "(of_int k :: rat) < of_int (2 ^ e)" using hi by simp
    then show "k < 2 ^ e" by (simp only: of_int_less_iff)
  qed
  show ?thesis
  proof (cases "2 * k = 2 ^ e")
    case True
    then have "(of_int (2 * k) :: rat) = of_int (2 ^ e)" by (simp only:)
    then have kk: "2 * of_int k = (2 ^ e :: rat)" by simp
    have y: "?y = 2 ^ e * (1 - 1 / 2 ^ 54)" using kk by (simp add: field_simps)
    have p: "(2::rat) powi (E - 1) = of_int k" by (simp add: Ee power_int_diff flip: kk)
    have q: "(2::rat) powi (E - 1 + 1) = 2 * of_int k" by (simp add: Ee flip: kk)
    have x: "expo ?y = E - 1"
      by (rule expo_unique; unfold p q) (use kpos in simp_all)
    have "(2::rat) powi (E - 53) = 2 ^ e / 2 ^ 53" by (simp add: Ee power_int_diff)
    then have u: "ulp64 ?y = 2 ^ e / 2 ^ 53" using E unfolding ulp64_def x by (simp add: max_def)
    have "?y / ulp64 ?y = of_int (2 ^ 53) - 1 / 2"
      unfolding u unfolding y by (simp add: field_simps)
    then have r: "round_half_even (?y / ulp64 ?y) = 2 ^ 53" by (intro round_half_even_tie) auto
    have pos: "0 < ?y" using kpos by simp
    have "rnd64 ?y = of_int (2 ^ 53) * (2 ^ e / 2 ^ 53)" using rnd64_pos [OF pos] unfolding r unfolding u .
    then show ?thesis unfolding kk by (simp only: of_int_power of_int_numeral) simp
  next
    case False
    with lo' have "2 ^ e + 1 \<le> 2 * k" by simp
    then have "(of_int (2 ^ e + 1) :: rat) \<le> of_int (2 * k)" by (simp only: of_int_le_iff)
    then have lo1: "(2 ^ e + 1 :: rat) \<le> 2 * of_int k" by simp
    have kb: "of_int k < (2 ^ 50 :: rat)" by (rule of_int_less_two_power [OF k(2)])
    have hik: "of_int k < (2 ^ e :: rat)" by (rule of_int_less_two_power [OF hi'])
    have x: "expo ?y = E"
    proof (rule expo_unique)
      have "of_int k / 2 ^ 53 < (1 :: rat)" using kb by simp
      then show "2 powi E \<le> ?y" using lo1 by (simp add: Ee)
      show "?y < 2 powi (E + 1)" using hi kpos by (intro order.strict_trans1 [OF _ hi]) simp
    qed
    have "(2::rat) powi (E - 52) = 2 ^ e / 2 ^ 52" by (simp add: Ee power_int_diff)
    then have u: "ulp64 ?y = 2 ^ e / 2 ^ 52" using E unfolding ulp64_def x by (simp add: max_def)
    define N where "N = 2 * k * 2 ^ (52 - e)"
    have e52: "(2 ^ 52 :: rat) = 2 ^ e * 2 ^ (52 - e)" using E Ee by (simp flip: power_add)
    have N: "of_int N * (2 ^ e / 2 ^ 52) = (2 * of_int k :: rat)"
      unfolding N_def by (subst e52) simp
    have "?y / ulp64 ?y = of_int N - of_int k / (2 * 2 ^ e)"
      unfolding u using N by (simp add: field_simps)
    moreover have "of_int k / (2 * 2 ^ e) < (1 / 2 :: rat)" using hik by (simp add: field_simps)
    moreover have "0 < (of_int k / (2 * 2 ^ e) :: rat)" using kpos by simp
    ultimately have r: "round_half_even (?y / ulp64 ?y) = N" by (intro round_half_even_near) linarith
    have pos: "0 < ?y" using kpos by simp
    have "rnd64 ?y = of_int N * (2 ^ e / 2 ^ 52)" using rnd64_pos [OF pos] unfolding r unfolding u .
    then show ?thesis unfolding N .
  qed
qed

lemma rnd64_quarter: "0 < n \<Longrightarrow> n < 2 ^ 50 \<Longrightarrow> rnd64 (of_int n / 4) = of_int n / 4"
proof -
  assume n: "0 < n" "n < 2 ^ 50"
  have "2 powi (expo (of_int n / 4)) \<le> (of_int n / 4 :: rat)" using n by (intro expo_bounds) simp
  also have "\<dots> \<le> of_int n" using n by simp
  also have "\<dots> < 2 powi (expo (of_int n) + 1)" using n by (intro expo_bounds) simp
  finally have "expo (of_int n / 4) \<le> expo (of_int n)" by simp
  also have "\<dots> < 50" using expo_of_int_less [of n 50] n by simp
  finally have x: "expo (of_int n / 4) < 50" .
  then show ?thesis using n
    by (intro rnd64_representable [of _ n "-2"]) (simp_all add: power_int_minus field_simps)
qed

lemma rnd64_mult_two_thirds:
  assumes w: "0 < w" "w < 2 ^ 48"
  shows "\<lfloor>rnd64 (of_int w * rnd64 (2 / 3))\<rfloor> = 2 * w div 3"
proof -
  define k where "k = w div 3"
  have y: "of_int w * rnd64 (2 / 3) = (2 * of_int w / 3 - of_int w / 3 / 2 ^ 53 :: rat)"
    unfolding rnd64_two_thirds by (simp add: field_simps)
  have small: "0 \<le> of_int w / 3 / (2 ^ 53 :: rat)" "of_int w / 3 / (2 ^ 53 :: rat) < 1 / 12"
  proof -
    show "0 \<le> of_int w / 3 / (2 ^ 53 :: rat)" using w by simp
    have "of_int w < (2 ^ 48 :: rat)" by (rule of_int_less_two_power [OF w(2)])
    then show "of_int w / 3 / (2 ^ 53 :: rat) < 1 / 12" by simp
  qed
  consider "w = 3 * k" | "w = 3 * k + 1" | "w = 3 * k + 2" unfolding k_def by linarith
  then show ?thesis
  proof cases
    case 1
    have eq: "of_int w * rnd64 (2 / 3) = (2 * of_int k - of_int k / 2 ^ 53 :: rat)"
      unfolding y by (simp add: 1)
    have "rnd64 (of_int w * rnd64 (2 / 3)) = of_int (2 * k)"
      unfolding eq using rnd64_even_below [of k] w 1 by simp
    then have "\<lfloor>rnd64 (of_int w * rnd64 (2 / 3))\<rfloor> = 2 * k" by (simp only: floor_of_int)
    then show ?thesis using 1 by simp
  next
    case 2
    have q: "of_int w * rnd64 (2 / 3) \<le> (of_int (8 * k + 3) / 4 :: rat)"
      unfolding y using small by (simp add: 2 field_simps)
    have "of_int (2 * k) \<le> (of_int w * rnd64 (2 / 3) :: rat)"
      unfolding y using small by (simp add: 2 field_simps)
    then have "of_int (2 * k) \<le> rnd64 (of_int w * rnd64 (2 / 3))"
      using w 2 by (intro f64.rnd_ge_int) auto
    moreover have "rnd64 (of_int w * rnd64 (2 / 3)) \<le> of_int (8 * k + 3) / 4"
      using rnd64_mono [OF q] rnd64_quarter [of "8 * k + 3"] w 2 by simp
    ultimately have "\<lfloor>rnd64 (of_int w * rnd64 (2 / 3))\<rfloor> = 2 * k"
      by (intro floor_unique) (auto simp: field_simps)
    then show ?thesis using 2 by simp
  next
    case 3
    have q: "of_int w * rnd64 (2 / 3) \<le> (of_int (8 * k + 7) / 4 :: rat)"
      unfolding y using small by (simp add: 3 field_simps)
    have "of_int (2 * k + 1) \<le> (of_int w * rnd64 (2 / 3) :: rat)"
      unfolding y using small by (simp add: 3 field_simps)
    then have "of_int (2 * k + 1) \<le> rnd64 (of_int w * rnd64 (2 / 3))"
      using w 3 by (intro f64.rnd_ge_int) auto
    moreover have "rnd64 (of_int w * rnd64 (2 / 3)) \<le> of_int (8 * k + 7) / 4"
      using rnd64_mono [OF q] rnd64_quarter [of "8 * k + 7"] w 3 by simp
    ultimately have "\<lfloor>rnd64 (of_int w * rnd64 (2 / 3))\<rfloor> = 2 * k + 1"
      by (intro floor_unique) (auto simp: field_simps)
    then show ?thesis using 3 by simp
  qed
qed

end
