(* ===== verification/Coordinator_Types.thy ===== *)
theory Coordinator_Types
  imports Bloom Core_Types Float64 "HOL-Library.Monad_Syntax"
begin

text \<open>
  The data of the coordinator (\<open>src/shared/coordinator/src/coordinator.rs\<close>, \<open>committee_selection.rs\<close>,
  \<open>model.rs\<close>, \<open>commitment.rs\<close>, and the schedule and optimizer types of \<open>src/shared/core/src/definitions.rs\<close>)
  and the parts of its interface that only read it. A \<open>FixedVec\<close> is the list of its elements, its
  capacity appearing where an element is pushed. Floating-point settings that the coordinator stores
  but never computes with are kept as their bit patterns.
\<close>

type_synonym f32_bits = u32
type_synonym f64_bits = u64

section \<open>Model description\<close>

record constant_lr =
  clr_base_lr :: f64_bits
  clr_warmup_init_lr :: f64_bits
  clr_warmup_steps :: u32

record linear_lr =
  llr_base_lr :: f64_bits
  llr_warmup_init_lr :: f64_bits
  llr_final_lr :: f64_bits
  llr_warmup_steps :: u32
  llr_total_steps :: u32

record cosine_lr =
  colr_base_lr :: f64_bits
  colr_warmup_init_lr :: f64_bits
  colr_final_lr :: f64_bits
  colr_warmup_steps :: u32
  colr_total_steps :: u32

record warmup_stable_decay_lr =
  wsd_base_lr :: f64_bits
  wsd_warmup_init_lr :: f64_bits
  wsd_cosine_decay_final_lr :: f64_bits
  wsd_linear_decay_final_lr :: f64_bits
  wsd_warmup_steps :: u32
  wsd_stable_steps :: u32
  wsd_cosine_decay_steps :: u32
  wsd_linear_decay_steps :: u32

datatype learning_rate_schedule =
    Constant constant_lr
  | Linear linear_lr
  | Cosine cosine_lr
  | WarmupStableDecay warmup_stable_decay_lr

fun get_warmup_steps :: "learning_rate_schedule \<Rightarrow> u32" where
  "get_warmup_steps (Constant l) = clr_warmup_steps l"
| "get_warmup_steps (Linear l) = llr_warmup_steps l"
| "get_warmup_steps (Cosine l) = colr_warmup_steps l"
| "get_warmup_steps (WarmupStableDecay l) = wsd_warmup_steps l"

fun get_warmup_init_lr :: "learning_rate_schedule \<Rightarrow> f64_bits" where
  "get_warmup_init_lr (Constant l) = clr_warmup_init_lr l"
| "get_warmup_init_lr (Linear l) = llr_warmup_init_lr l"
| "get_warmup_init_lr (Cosine l) = colr_warmup_init_lr l"
| "get_warmup_init_lr (WarmupStableDecay l) = wsd_warmup_init_lr l"

text \<open>\<open>AdamW\<close>: betas, weight decay, eps, gradient clip. \<open>Distro\<close>: gradient clip, weight decay, compression
  decay, top-k, chunk, 1-bit quantization.\<close>

datatype optimizer_definition =
    OptDummy
  | AdamW "f32_bits \<times> f32_bits" f32_bits f32_bits "f32_bits option"
  | Distro "f32_bits option" "f32_bits option" f32_bits u16 u16 bool

datatype llm_architecture = HfLlama | HfDeepseek | HfAuto | Torchtitan

datatype llm_training_data_type = Pretraining | Finetuning

text \<open>\<open>NumberedFiles\<close>: url template, start index, zero padding, number of files. \<open>Gcp\<close>: bucket, directory.\<close>

datatype http_training_data_location =
    SingleUrl fixed_string
  | NumberedFiles fixed_string u32 u8 u32
  | Gcp fixed_string fixed_string

record http_llm_training_data_location =
  hl_location :: http_training_data_location
  hl_token_size_in_bytes :: token_size
  hl_shuffle :: shuffle

datatype llm_training_data_location =
    DataDummy
  | Server fixed_string
  | Local fixed_string
  | Http http_llm_training_data_location
  | WeightedHttp fixed_string
  | Preprocessed fixed_string

record hub_repo =
  hr_repo_id :: fixed_string
  hr_revision :: "fixed_string option"

datatype checkpoint = Ephemeral | CkDummy hub_repo | Hub hub_repo | P2P hub_repo

record llm =
  max_seq_len :: u32
  cold_start_warmup_steps :: u32
  llm_arch :: llm_architecture
  llm_checkpoint :: checkpoint
  llm_data_type :: llm_training_data_type
  llm_data_location :: llm_training_data_location
  llm_lr_schedule :: learning_rate_schedule
  llm_optimizer :: optimizer_definition

datatype model = LLM (the_llm: llm)

text \<open>Strings of a model have 64 or 192 bytes, so \<open>is_empty\<close> does not panic on them.\<close>

definition fs_empty :: "fixed_string \<Rightarrow> bool" where
  "fs_empty s \<longleftrightarrow> fs_is_empty s = Some True"

fun bad_http_location :: "http_training_data_location \<Rightarrow> bool" where
  "bad_http_location (SingleUrl url) = fs_empty url"
| "bad_http_location (NumberedFiles url_template start_index pad num_files) =
     (fs_empty url_template \<or> num_files = 0)"
| "bad_http_location (Gcp bucket_name filter_directory) = fs_empty bucket_name"

fun bad_data_location :: "llm_training_data_location \<Rightarrow> bool" where
  "bad_data_location DataDummy = False"
| "bad_data_location (Server url) = fs_empty url"
| "bad_data_location (Local path) = False"
| "bad_data_location (Http h) = bad_http_location (hl_location h)"
| "bad_data_location (WeightedHttp url) = fs_empty url"
| "bad_data_location (Preprocessed url) = fs_empty url"

fun bad_checkpoint :: "checkpoint \<Rightarrow> bool" where
  "bad_checkpoint (CkDummy r) = False"
| "bad_checkpoint Ephemeral = True"
| "bad_checkpoint (Hub r) = fs_empty (hr_repo_id r)"
| "bad_checkpoint (P2P r) = fs_empty (hr_repo_id r)"

fun good_optimizer :: "optimizer_definition \<Rightarrow> bool" where
  "good_optimizer OptDummy = False"
| "good_optimizer (AdamW betas wd eps clip) = True"
| "good_optimizer (Distro clip wd decay topk chunk q) = True"

fun model_check :: "model \<Rightarrow> bool" where
  "model_check (LLM l) =
     (if max_seq_len l = 0 then False
      else if bad_data_location (llm_data_location l) then False
      else if bad_checkpoint (llm_checkpoint l) then False
      else if \<not> good_optimizer (llm_optimizer l) then False
      else True)"

section \<open>Rounds, clients, epochs\<close>

definition SOLANA_MAX_NUM_CLIENTS :: nat where "SOLANA_MAX_NUM_CLIENTS = 256"
definition SOLANA_MAX_NUM_WITNESSES :: nat where "SOLANA_MAX_NUM_WITNESSES = 32"
definition SOLANA_RUN_ID_MAX_LEN :: nat where "SOLANA_RUN_ID_MAX_LEN = 32"
definition SOLANA_MAX_STRING_LEN :: nat where "SOLANA_MAX_STRING_LEN = 64"
definition NUM_STORED_ROUNDS :: nat where "NUM_STORED_ROUNDS = 4"

datatype run_state =
  Uninitialized | WaitingForMembers | Warmup | RoundTrain | RoundWitness | Cooldown | Finished | Paused

datatype client_state = Healthy | Dropped | Withdrawn | Ejected

datatype coordinator_error =
    NoActiveRound | InvalidWitness | InvalidRunState | DuplicateWitness | InvalidHealthCheck | Halted
  | WitnessesFull | CannotResume | InvalidWithdraw | InvalidCommitteeSelection | InvalidCommitteeProof

datatype tick_result = Ticked | EpochEnd bool

fun run_state_to_usize :: "run_state \<Rightarrow> nat" where
  "run_state_to_usize Uninitialized = 0"
| "run_state_to_usize WaitingForMembers = 1"
| "run_state_to_usize Warmup = 2"
| "run_state_to_usize RoundTrain = 3"
| "run_state_to_usize RoundWitness = 4"
| "run_state_to_usize Cooldown = 5"
| "run_state_to_usize Finished = 6"
| "run_state_to_usize Paused = 7"

definition run_state_try_from :: "nat \<Rightarrow> coordinator_error + run_state" where
  "run_state_try_from v =
     (if v = 0 then Inr Uninitialized else if v = 1 then Inr WaitingForMembers
      else if v = 2 then Inr Warmup else if v = 3 then Inr RoundTrain
      else if v = 4 then Inr RoundWitness else if v = 5 then Inr Cooldown
      else if v = 6 then Inr Finished else if v = 7 then Inr Paused else Inl InvalidRunState)"

datatype committee = TieBreaker | Verifier | Trainer

record committee_proof =
  cp_committee :: committee
  cp_position :: u64
  cp_index :: u64

record witness_proof =
  wp_position :: u64
  wp_index :: u64
  wp_witness :: small_boolean

record witness =
  w_proof :: witness_proof
  w_participant_bloom :: bloom
  w_broadcast_bloom :: bloom
  w_broadcast_merkle :: bytes

record commitment =
  cm_data_hash :: bytes
  cm_signature :: bytes

record 'id client =
  cl_id :: 'id
  cl_state :: client_state
  cl_exited_height :: u32

definition client_new :: "'id \<Rightarrow> 'id client" where
  "client_new i = \<lparr>cl_id = i, cl_state = Healthy, cl_exited_height = 0\<rparr>"

record round =
  r_witnesses :: "witness list"
  r_data_index :: u64
  r_random_seed :: u64
  r_height :: u32
  r_clients_len :: u16
  r_tie_breaker_tasks :: u16

definition zero_round :: round where
  "zero_round = \<lparr>r_witnesses = [], r_data_index = 0, r_random_seed = 0, r_height = 0,
     r_clients_len = 0, r_tie_breaker_tasks = 0\<rparr>"

record coordinator_config =
  warmup_time :: u64
  cooldown_time :: u64
  max_round_train_time :: u64
  round_witness_time :: u64
  global_batch_size_warmup_tokens :: u64
  epoch_time :: u64
  total_steps :: u32
  init_min_clients :: u16
  min_clients :: u16
  witness_nodes :: u16
  global_batch_size_start :: u16
  global_batch_size_end :: u16
  verification_percent :: u8
  waiting_for_members_extra_time :: u8

record 'id epoch_state =
  es_rounds :: "round list"
  es_clients :: "'id client list"
  es_exited_clients :: "'id client list"
  es_rounds_head :: u32
  es_start_step :: u32
  es_last_step :: u32
  es_start_timestamp :: u64
  es_first_round :: small_boolean
  es_cold_start_epoch :: small_boolean

record coordinator_progress =
  pr_epoch :: u16
  pr_step :: u32
  pr_epoch_start_data_index :: u64

record 'id coordinator =
  co_run_id :: fixed_string
  co_run_state :: run_state
  co_model :: model
  co_config :: coordinator_config
  co_progress :: coordinator_progress
  co_epoch_state :: "'id epoch_state"
  co_run_state_start :: u64
  co_pending_pause :: small_boolean

text \<open>\<open>bytemuck::write_zeroes\<close> on an epoch state.\<close>

definition zero_epoch_state :: "'id epoch_state" where
  "zero_epoch_state = \<lparr>es_rounds = replicate NUM_STORED_ROUNDS zero_round, es_clients = [],
     es_exited_clients = [], es_rounds_head = 0, es_start_step = 0, es_last_step = 0,
     es_start_timestamp = 0, es_first_round = SB_FALSE, es_cold_start_epoch = SB_FALSE\<rparr>"

text \<open>\<open>CoordinatorEpochState::default\<close> differs from zero in \<open>first_round\<close>.\<close>

definition default_epoch_state :: "'id epoch_state" where
  "default_epoch_state = zero_epoch_state\<lparr>es_first_round := sb_new True\<rparr>"

definition default_progress :: coordinator_progress where
  "default_progress = \<lparr>pr_epoch = 0, pr_step = 1, pr_epoch_start_data_index = 0\<rparr>"

abbreviation co_clients :: "'id coordinator \<Rightarrow> 'id client list" where
  "co_clients c \<equiv> es_clients (co_epoch_state c)"

abbreviation co_exited :: "'id coordinator \<Rightarrow> 'id client list" where
  "co_exited c \<equiv> es_exited_clients (co_epoch_state c)"

abbreviation co_rounds :: "'id coordinator \<Rightarrow> round list" where
  "co_rounds c \<equiv> es_rounds (co_epoch_state c)"

abbreviation co_head :: "'id coordinator \<Rightarrow> nat" where
  "co_head c \<equiv> unat (es_rounds_head (co_epoch_state c))"

abbreviation co_step :: "'id coordinator \<Rightarrow> u32" where
  "co_step c \<equiv> pr_step (co_progress c)"

section \<open>Node identities\<close>

text \<open>
  The coordinator is generic in the identity type: \<open>T: NodeIdentity\<close> brings its own equality and hash
  (\<open>PartialEq\<close>, \<open>Hash\<close>) and its bytes (\<open>AsRef<[u8]>\<close>). They join the external functions in the environment
  of every operation, and the locale states what the trait's contract promises.
\<close>

record 'id node_env = externs +
  ne_eq :: "'id \<Rightarrow> 'id \<Rightarrow> bool"
  ne_as_ref :: "'id \<Rightarrow> bytes"

locale node_identity =
  fixes eq :: "'id \<Rightarrow> 'id \<Rightarrow> bool"
    and as_ref :: "'id \<Rightarrow> bytes"
  assumes eq_refl: "eq a a"
    and eq_sym: "eq a b \<Longrightarrow> eq b a"
    and eq_trans: "eq a b \<Longrightarrow> eq b c \<Longrightarrow> eq a c"
    and as_ref_cong: "eq a b \<Longrightarrow> as_ref a = as_ref b"
begin

lemma eq_cong_left: "eq a b \<Longrightarrow> eq a c \<longleftrightarrow> eq b c"
  using eq_sym eq_trans by blast

lemma equivp_eq: "equivp eq"
  by (rule equivpI) (auto simp: reflp_def symp_def transp_def intro: eq_refl eq_sym eq_trans)

end

text \<open>The environment of a run satisfies the documented behaviour of everything it stands for.\<close>

definition env_ok :: "'id node_env \<Rightarrow> bool" where
  "env_ok E \<longleftrightarrow> externs_ok E \<and> node_identity (ne_eq E) (ne_as_ref E)"

section \<open>Reading the coordinator\<close>

definition current_round :: "'id coordinator \<Rightarrow> round option" where
  "current_round c = nth_opt (co_rounds c) (co_head c)"

text \<open>\<open>rounds\<close> is an array of \<open>NUM_STORED_ROUNDS\<close> rounds, so its constant indices are in range.\<close>

definition previous_round :: "'id coordinator \<Rightarrow> round option" where
  "previous_round c =
     (case current_round c of
        Some rnd \<Rightarrow>
          (if es_rounds_head (co_epoch_state c) = 0 \<and> r_height rnd = 0 then None
           else if es_rounds_head (co_epoch_state c) = 0 then Some (co_rounds c ! (NUM_STORED_ROUNDS - 1))
           else Some (co_rounds c ! (co_head c - 1)))
      | None \<Rightarrow> None)"

definition previous_previous_round :: "'id coordinator \<Rightarrow> round option" where
  "previous_previous_round c =
     (case current_round c of
        Some rnd \<Rightarrow>
          (if es_rounds_head (co_epoch_state c) = 0 \<and> r_height rnd \<le> 1 then None
           else if es_rounds_head (co_epoch_state c) = 0 then Some (co_rounds c ! (NUM_STORED_ROUNDS - 2))
           else if es_rounds_head (co_epoch_state c) = 1 then Some (co_rounds c ! (NUM_STORED_ROUNDS - 1))
           else Some (co_rounds c ! (co_head c - 2)))
      | None \<Rightarrow> None)"

definition active :: "'id coordinator \<Rightarrow> bool" where
  "active c \<longleftrightarrow> co_run_state c \<notin> {WaitingForMembers, Warmup, Uninitialized, Finished, Paused}"

definition halted :: "'id coordinator \<Rightarrow> bool" where
  "halted c \<longleftrightarrow> co_run_state c \<in> {Uninitialized, Finished, Paused}"

definition get_client_at_historical_index ::
    "nat \<Rightarrow> u16 \<Rightarrow> 'id coordinator \<Rightarrow> 'id client option" where
  "get_client_at_historical_index n prev_clients_len c =
     (if n < length (co_clients c) then Some (co_clients c ! n)
      else if n < unat prev_clients_len
      then let offset = unat prev_clients_len - n - 1 in nth_opt (rev (co_exited c)) offset
      else None)"

definition get_historical_clients :: "u16 \<Rightarrow> 'id coordinator \<Rightarrow> 'id client list" where
  "get_historical_clients clients_len c =
     List.map_filter (\<lambda>i. get_client_at_historical_index i clients_len c) [0..<unat clients_len]"

definition get_sequence_length :: "'id coordinator \<Rightarrow> u32" where
  "get_sequence_length c = max_seq_len (the_llm (co_model c))"

definition get_batch_size :: "coordinator_config \<Rightarrow> u64 \<Rightarrow> u16" where
  "get_batch_size cfg tokens =
     (if global_batch_size_warmup_tokens cfg \<le> tokens then global_batch_size_end cfg
      else let start = of_nat (unat (global_batch_size_start cfg));
               fin = of_nat (unat (global_batch_size_end cfg));
               progress = rnd64 (f64_of_nat (unat tokens) /
                                 f64_of_nat (unat (global_batch_size_warmup_tokens cfg)))
           in f64_as_u16 (f64_round (rnd64 (start + rnd64 (rnd64 (fin - start) * progress)))))"

definition total_tokens_processed :: "round option \<Rightarrow> 'id coordinator \<Rightarrow> u64 option" where
  "total_tokens_processed rnd c =
     (let current_data_start_index =
        (case rnd of Some r \<Rightarrow> r_data_index r
         | None \<Rightarrow> pr_epoch_start_data_index (co_progress c))
      in checked_mul current_data_start_index (ucast (get_sequence_length c)))"

definition get_target_global_batch_size :: "round option \<Rightarrow> 'id coordinator \<Rightarrow> u16 option" where
  "get_target_global_batch_size rnd c =
     map_option (get_batch_size (co_config c)) (total_tokens_processed rnd c)"

definition get_cold_start_warmup_bounds :: "'id coordinator \<Rightarrow> (u32 \<times> u32) option option" where
  "get_cold_start_warmup_bounds c =
     (let steps = cold_start_warmup_steps (the_llm (co_model c)) in
      if sb_is_false (es_cold_start_epoch (co_epoch_state c)) \<or> steps = 0 then Some None
      else map_option (\<lambda>e. Some (es_start_step (co_epoch_state c), e))
             (checked_add (es_start_step (co_epoch_state c)) steps))"

text \<open>The quorum: \<open>None\<close> is the \<open>unreachable!()\<close> branch.\<close>

definition witness_quorum :: "u16 \<Rightarrow> 'id coordinator \<Rightarrow> u16 option" where
  "witness_quorum num_witnesses c =
     (let wn = (if witness_nodes (co_config c) = 0 then num_witnesses else witness_nodes (co_config c))
      in if wn = 0 then None
         else if wn = 1 then Some 1
         else if wn = 2 then Some 2
         else if wn = 3 then Some 2
         else Some (max (f64_as_u16 (rnd64 (of_nat (unat wn) * rnd64 (2 / 3)))) 1))"

definition config_check :: "coordinator_config \<Rightarrow> bool" where
  "config_check cfg \<longleftrightarrow>
     max_round_train_time cfg \<noteq> 0 \<and> round_witness_time cfg \<noteq> 0 \<and> min_clients cfg \<noteq> 0 \<and>
     min_clients cfg \<le> init_min_clients cfg \<and>
     unat (init_min_clients cfg) \<le> SOLANA_MAX_NUM_CLIENTS \<and>
     global_batch_size_start cfg \<noteq> 0 \<and> global_batch_size_end cfg \<noteq> 0 \<and>
     global_batch_size_start cfg \<le> global_batch_size_end cfg \<and>
     total_steps cfg \<noteq> 0 \<and> witness_nodes cfg \<le> min_clients cfg \<and>
     unat (witness_nodes cfg) \<le> SOLANA_MAX_NUM_WITNESSES \<and>
     0 < cooldown_time cfg \<and> 0 < waiting_for_members_extra_time cfg"

definition progress_check :: "coordinator_progress \<Rightarrow> bool" where
  "progress_check p \<longleftrightarrow> 0 < pr_step p"

definition last_step_set :: "'id epoch_state \<Rightarrow> bool" where
  "last_step_set es \<longleftrightarrow> es_last_step es \<noteq> 0"

definition is_warmup_just_starting :: "'id coordinator \<Rightarrow> bool" where
  "is_warmup_just_starting c \<longleftrightarrow> sb_is_true (es_first_round (co_epoch_state c)) \<and> co_run_state c = Warmup"

definition is_training_just_starting :: "'id coordinator \<Rightarrow> bool" where
  "is_training_just_starting c \<longleftrightarrow>
     sb_is_true (es_first_round (co_epoch_state c)) \<and> co_run_state c = RoundTrain"

end
