(* ===== verification/Committee.thy ===== *)
theory Committee
  imports Coordinator_Types
begin

text \<open>
  Committee selection (\<open>src/shared/coordinator/src/committee_selection.rs\<close>): every node derives from the
  round's random seed which clients are tie breakers, verifiers, trainers and witnesses, by looking up
  its own position in a virtual shuffle of the client indices. Results that may panic are options;
  \<open>usize\<close> is 64 bits wide.
\<close>

section \<open>Definitions\<close>

definition COMMITTEE_SALT :: bytes where
  "COMMITTEE_SALT = [0x63, 0x6F, 0x6D, 0x6D, 0x69, 0x74, 0x74, 0x65, 0x65]"

definition WITNESS_SALT :: bytes where
  "WITNESS_SALT = [0x77, 0x69, 0x74, 0x6E, 0x65, 0x73, 0x73]"

record committee_selection =
  cs_tie_breaker_nodes :: u64
  cs_verifier_nodes :: u64
  cs_total_nodes :: u64
  cs_witness_nodes :: u64
  cs_seed :: bytes

definition committee_selection_new ::
    "'e externs_scheme \<Rightarrow> u64 \<Rightarrow> u64 \<Rightarrow> u8 \<Rightarrow> u64 \<Rightarrow> u64 \<Rightarrow> (coordinator_error + committee_selection) option" where
  "committee_selection_new X tie_breakers witnesses percent n_total seed =
     (if n_total \<ge> - 1 then Some (Inl InvalidCommitteeSelection)
      else if n_total < tie_breakers then Some (Inl InvalidCommitteeSelection)
      else if witnesses \<noteq> 0 \<and> n_total < witnesses then Some (Inl InvalidCommitteeSelection)
      else if percent > 100 then Some (Inl InvalidCommitteeSelection)
      else do {
        free_nodes \<leftarrow> checked_sub n_total tie_breakers;
        product \<leftarrow> checked_mul free_nodes (ucast percent);
        verifier_nodes \<leftarrow> checked_div product 100;
        Some (Inr \<lparr>cs_tie_breaker_nodes = tie_breakers, cs_verifier_nodes = verifier_nodes,
                   cs_total_nodes = n_total, cs_witness_nodes = witnesses,
                   cs_seed = x_sha256 X (u64_to_le_bytes seed)\<rparr>)
      })"

definition from_coordinator ::
    "'id node_env \<Rightarrow> 'id coordinator \<Rightarrow> int \<Rightarrow> (coordinator_error + committee_selection) option" where
  "from_coordinator E c offset =
     (let rnd = (if offset = -2 then previous_previous_round c
                 else if offset = -1 then previous_round c
                 else if offset = 0 then current_round c
                 else None)
      in case rnd of
           None \<Rightarrow> Some (Inl NoActiveRound)
         | Some r \<Rightarrow> committee_selection_new E (ucast (r_tie_breaker_tasks r))
                       (ucast (witness_nodes (co_config c))) (verification_percent (co_config c))
                       (ucast (r_clients_len r)) (r_random_seed r))"

definition cs_shuffled_index ::
    "'e externs_scheme \<Rightarrow> committee_selection \<Rightarrow> u64 \<Rightarrow> bytes \<Rightarrow> u64 option" where
  "cs_shuffled_index X self index salt =
     compute_shuffled_index (x_sha256 X) index (cs_total_nodes self)
       (sha256v (x_sha256 X) [cs_seed self, salt])"

definition get_committee_from_position :: "committee_selection \<Rightarrow> u64 \<Rightarrow> committee option" where
  "get_committee_from_position self committee_position =
     (if committee_position < cs_tie_breaker_nodes self then Some TieBreaker
      else do {
        bound \<leftarrow> checked_add (cs_tie_breaker_nodes self) (cs_verifier_nodes self);
        Some (if committee_position < bound then Verifier else Trainer)
      })"

definition get_witness_from_position :: "committee_selection \<Rightarrow> u64 \<Rightarrow> bool" where
  "get_witness_from_position self witness_position =
     (if cs_witness_nodes self = 0 then witness_position < of_nat SOLANA_MAX_NUM_WITNESSES
      else witness_position < cs_witness_nodes self)"

definition get_witness :: "'e externs_scheme \<Rightarrow> committee_selection \<Rightarrow> u64 \<Rightarrow> witness_proof option" where
  "get_witness X self index =
     do {
       position \<leftarrow> cs_shuffled_index X self index WITNESS_SALT;
       Some \<lparr>wp_position = position, wp_index = index,
             wp_witness = sb_new (get_witness_from_position self position)\<rparr>
     }"

definition get_committee :: "'e externs_scheme \<Rightarrow> committee_selection \<Rightarrow> u64 \<Rightarrow> committee_proof option" where
  "get_committee X self index =
     do {
       position \<leftarrow> cs_shuffled_index X self index COMMITTEE_SALT;
       committee \<leftarrow> get_committee_from_position self position;
       Some \<lparr>cp_committee = committee, cp_position = position, cp_index = index\<rparr>
     }"

definition verify_client :: "'id node_env \<Rightarrow> 'id \<Rightarrow> u64 \<Rightarrow> 'id client list \<Rightarrow> bool" where
  "verify_client E client_id index clients =
     (case nth_opt clients (unat index) of None \<Rightarrow> False | Some c \<Rightarrow> ne_eq E (cl_id c) client_id)"

definition verify_committee :: "'e externs_scheme \<Rightarrow> committee_selection \<Rightarrow> committee_proof \<Rightarrow> bool option" where
  "verify_committee X self proof =
     do {
       position \<leftarrow> cs_shuffled_index X self (cp_index proof) COMMITTEE_SALT;
       if cp_position proof = position
       then do {
         committee \<leftarrow> get_committee_from_position self position;
         Some (cp_committee proof = committee)
       }
       else Some False
     }"

definition verify_witness :: "'e externs_scheme \<Rightarrow> committee_selection \<Rightarrow> witness_proof \<Rightarrow> bool option" where
  "verify_witness X self proof =
     do {
       position \<leftarrow> cs_shuffled_index X self (wp_index proof) WITNESS_SALT;
       Some (wp_position proof = position \<and>
             wp_witness proof = sb_new (get_witness_from_position self position))
     }"

text \<open>The \<open>&&\<close> of the source does not evaluate the proof when the client does not match.\<close>

definition verify_committee_for_client ::
    "'id node_env \<Rightarrow> committee_selection \<Rightarrow> 'id \<Rightarrow> committee_proof \<Rightarrow> 'id client list \<Rightarrow> bool option" where
  "verify_committee_for_client E self client_id proof clients =
     (if verify_client E client_id (cp_index proof) clients then verify_committee E self proof
      else Some False)"

definition verify_witness_for_client ::
    "'id node_env \<Rightarrow> committee_selection \<Rightarrow> 'id \<Rightarrow> witness_proof \<Rightarrow> 'id client list \<Rightarrow> bool option" where
  "verify_witness_for_client E self client_id proof clients =
     (if verify_client E client_id (wp_index proof) clients then verify_witness E self proof
      else Some False)"

definition get_num_trainer_nodes :: "committee_selection \<Rightarrow> u64 option" where
  "get_num_trainer_nodes self =
     do {
       a \<leftarrow> checked_sub (cs_total_nodes self) (cs_tie_breaker_nodes self);
       checked_sub a (cs_verifier_nodes self)
     }"

section \<open>A selection that was built\<close>

text \<open>What a successful \<open>CommitteeSelection::new\<close> guarantees.\<close>

definition selection_ok :: "committee_selection \<Rightarrow> bool" where
  "selection_ok s \<longleftrightarrow>
     unat (cs_tie_breaker_nodes s) + unat (cs_verifier_nodes s) \<le> unat (cs_total_nodes s) \<and>
     (cs_witness_nodes s = 0 \<or> cs_witness_nodes s \<le> cs_total_nodes s)"

lemma committee_selection_new_ok:
  assumes "committee_selection_new X tb wn vp tn seed = Some (Inr s)"
  shows "selection_ok s" and "cs_total_nodes s = tn" and "cs_witness_nodes s = wn"
    and "cs_tie_breaker_nodes s = tb" and "cs_seed s = x_sha256 X (u64_to_le_bytes seed)"
    and "unat (cs_verifier_nodes s) = (unat tn - unat tb) * unat vp div 100"
proof -
  from assms obtain free prod where f: "checked_sub tn tb = Some free"
    and m: "checked_mul free (ucast vp) = Some prod"
    and s: "s = \<lparr>cs_tie_breaker_nodes = tb, cs_verifier_nodes = prod div 100, cs_total_nodes = tn,
                 cs_witness_nodes = wn, cs_seed = x_sha256 X (u64_to_le_bytes seed)\<rparr>"
    and vp: "vp \<le> 100" and w: "wn = 0 \<or> wn \<le> tn"
    by (auto simp: committee_selection_new_def checked_div_def bind_eq_Some_conv not_less split: if_splits)
  have uf: "unat tb \<le> unat tn" "unat free = unat tn - unat tb" using checked_sub_Some [OF f] by auto
  have up: "unat prod = unat free * unat vp" using checked_mul_Some [OF m] by (simp add: unat_ucast_up)
  have v100: "unat vp \<le> 100" using vp by (simp add: word_le_nat_alt)
  have uv: "unat (prod div 100) = (unat tn - unat tb) * unat vp div 100" by (simp add: unat_div up uf)
  have "(unat tn - unat tb) * unat vp \<le> (unat tn - unat tb) * 100" using v100 by (rule mult_le_mono2)
  then have "unat (prod div 100) \<le> (unat tn - unat tb) * 100 div 100" unfolding uv by (rule div_le_mono)
  then have "unat (prod div 100) \<le> unat tn - unat tb" by simp
  then show "selection_ok s" using uf w by (auto simp: selection_ok_def s)
  show "cs_total_nodes s = tn" "cs_witness_nodes s = wn" "cs_tie_breaker_nodes s = tb"
    "cs_seed s = x_sha256 X (u64_to_le_bytes seed)"
    "unat (cs_verifier_nodes s) = (unat tn - unat tb) * unat vp div 100"
    using uv by (simp_all add: s)
qed

lemma from_coordinator_ok:
  assumes "from_coordinator E c 0 = Some (Inr s)"
  obtains r where "current_round c = Some r" "selection_ok s"
    "unat (cs_total_nodes s) = unat (r_clients_len r)"
    "unat (cs_witness_nodes s) = unat (witness_nodes (co_config c))"
proof -
  from assms obtain r where r: "current_round c = Some r"
    and n: "committee_selection_new E (ucast (r_tie_breaker_tasks r)) (ucast (witness_nodes (co_config c)))
      (verification_percent (co_config c)) (ucast (r_clients_len r)) (r_random_seed r) = Some (Inr s)"
    by (auto simp: from_coordinator_def Let_def split: option.splits)
  show ?thesis using r committee_selection_new_ok [OF n] by (intro that) (simp_all add: unat_ucast_up)
qed

text \<open>For at most \<open>2\<^sup>1\<^sup>6\<close> clients the selection is built unless a configured limit is exceeded.\<close>

lemma committee_selection_new_total:
  assumes "unat tn < 2 ^ 16" and "tb \<le> tn" and "wn = 0 \<or> wn \<le> tn" and "vp \<le> 100"
  shows "\<exists>s. committee_selection_new X tb wn vp tn seed = Some (Inr s)"
proof -
  have "unat (- 1 :: u64) = 2 ^ 64 - 1"
    by (simp add: unsigned_minus_1_eq_mask mask_eq_exp_minus_1)
  then have nm: "\<not> - 1 \<le> tn" using assms(1) by (simp add: word_le_nat_alt)
  have "unat (tn - tb) * unat vp \<le> unat tn * unat vp"
    using assms(2) by (simp add: unat_sub word_le_nat_alt)
  also have "\<dots> \<le> unat tn * 255" using unat_less_pow [of vp] by simp
  also have "\<dots> < 2 ^ 64" using assms(1) by simp
  finally have "checked_mul (tn - tb) (ucast vp) = Some ((tn - tb) * ucast vp)"
    by (simp add: checked_mul_def unat_ucast_up)
  then show ?thesis using nm assms
    by (auto simp: committee_selection_new_def checked_sub_def checked_div_def not_less)
qed

section \<open>Counting positions\<close>

lemma card_below_word:
  assumes inj: "inj_on f {..<n}" and sub: "f ` {..<n} \<subseteq> {..<(n::u64)}"
  shows "card {i. i < n \<and> f i < m} = min (unat m) (unat n)"
proof -
  let ?g = "\<lambda>i. unat (f (of_nat i))"
  have un: "unat (of_nat i :: u64) = i" if "i < unat n" for i
    using that unat_less_pow [of n] by (intro unat_of_nat_small) simp
  have of: "of_nat i < n" if "i < unat n" for i using that un by (simp add: word_less_nat_alt)
  have "inj_on ?g {..<unat n}"
  proof (rule inj_onI)
    fix i j assume i: "i \<in> {..<unat n}" and j: "j \<in> {..<unat n}" and eq: "?g i = ?g j"
    then have "f (of_nat i) = f (of_nat j)" by (simp add: word_unat_eq_iff)
    then have "(of_nat i :: u64) = of_nat j" using inj of i j by (auto dest: inj_onD)
    then have "unat (of_nat i :: u64) = unat (of_nat j :: u64)" by simp
    then show "i = j" using i j un by simp
  qed
  moreover have "?g ` {..<unat n} \<subseteq> {..<unat n}"
    using sub of by (auto simp: word_less_nat_alt image_subset_iff)
  ultimately have c: "card {i. i < unat n \<and> ?g i < unat m} = min (unat m) (unat n)" by (rule card_below)
  have "bij_betw unat {i. i < n \<and> f i < m} {i. i < unat n \<and> ?g i < unat m}"
    by (rule bij_betw_byWitness [where f' = of_nat])
      (use un in \<open>auto simp: word_less_nat_alt\<close>)
  then show ?thesis using c bij_betw_same_card by force
qed

lemma cs_shuffled_index_inj:
  assumes "externs_ok X" and "unat (cs_total_nodes s) \<le> 2 ^ 63"
  shows "inj_on (\<lambda>i. the (cs_shuffled_index X s i salt)) {..<cs_total_nodes s}"
    and "(\<lambda>i. the (cs_shuffled_index X s i salt)) ` {..<cs_total_nodes s} \<subseteq> {..<cs_total_nodes s}"
    and "i < cs_total_nodes s \<Longrightarrow> \<exists>k. cs_shuffled_index X s i salt = Some k \<and> k < cs_total_nodes s"
proof -
  note sha = externs_sha_ok [OF assms(1)]
  let ?seed = "sha256v (x_sha256 X) [cs_seed s, salt]"
  have r: "\<exists>k. cs_shuffled_index X s i salt = Some k \<and> k < cs_total_nodes s" if "i < cs_total_nodes s" for i
    unfolding cs_shuffled_index_def by (rule compute_shuffled_index_range [OF sha assms(2) that])
  show "inj_on (\<lambda>i. the (cs_shuffled_index X s i salt)) {..<cs_total_nodes s}"
  proof (rule inj_onI)
    fix i j assume i: "i \<in> {..<cs_total_nodes s}" and j: "j \<in> {..<cs_total_nodes s}"
      and eq: "the (cs_shuffled_index X s i salt) = the (cs_shuffled_index X s j salt)"
    then show "i = j" using r [of i] r [of j] compute_shuffled_index_inj [OF sha assms(2), of i j ?seed]
      by (auto simp: cs_shuffled_index_def)
  qed
  show "(\<lambda>i. the (cs_shuffled_index X s i salt)) ` {..<cs_total_nodes s} \<subseteq> {..<cs_total_nodes s}"
    using r by force
  show "\<exists>k. cs_shuffled_index X s i salt = Some k \<and> k < cs_total_nodes s" if "i < cs_total_nodes s"
    using r [OF that] .
qed

text \<open>The number of witnesses a selection asks for.\<close>

definition witness_target :: "committee_selection \<Rightarrow> nat" where
  "witness_target s = (if cs_witness_nodes s = 0 then SOLANA_MAX_NUM_WITNESSES else unat (cs_witness_nodes s))"

lemma get_witness_from_position_iff:
  "get_witness_from_position s p \<longleftrightarrow> unat p < witness_target s"
  by (auto simp: get_witness_from_position_def witness_target_def word_less_nat_alt SOLANA_MAX_NUM_WITNESSES_def)

lemma verify_witness_iff:
  "verify_witness X s p = Some True \<longleftrightarrow> get_witness X s (wp_index p) = Some p"
  by (cases p) (auto simp: verify_witness_def get_witness_def bind_eq_Some_conv)

lemma verify_committee_iff:
  "verify_committee X s p = Some True \<longleftrightarrow> get_committee X s (cp_index p) = Some p"
  by (cases p) (auto simp: verify_committee_def get_committee_def bind_eq_Some_conv)

lemma card_witnesses:
  assumes "externs_ok X" and "unat (cs_total_nodes s) \<le> 2 ^ 63"
  shows "card {i. i < cs_total_nodes s \<and> (\<exists>p. get_witness X s i = Some p \<and> sb_is_true (wp_witness p))}
    = min (witness_target s) (unat (cs_total_nodes s))"
proof -
  let ?f = "\<lambda>i. the (cs_shuffled_index X s i WITNESS_SALT)"
  let ?m = "if cs_witness_nodes s = 0 then of_nat SOLANA_MAX_NUM_WITNESSES else cs_witness_nodes s :: u64"
  have "(\<exists>p. get_witness X s i = Some p \<and> sb_is_true (wp_witness p)) \<longleftrightarrow> ?f i < ?m"
    if "i < cs_total_nodes s" for i
    using cs_shuffled_index_inj(3) [OF assms that, of WITNESS_SALT]
    by (auto simp: get_witness_def get_witness_from_position_def)
  then have "{i. i < cs_total_nodes s \<and> (\<exists>p. get_witness X s i = Some p \<and> sb_is_true (wp_witness p))}
    = {i. i < cs_total_nodes s \<and> ?f i < ?m}" by blast
  also have "card \<dots> = min (unat ?m) (unat (cs_total_nodes s))"
    by (rule card_below_word) (rule cs_shuffled_index_inj [OF assms])+
  also have "unat ?m = witness_target s" by (simp add: witness_target_def SOLANA_MAX_NUM_WITNESSES_def)
  finally show ?thesis .
qed

text \<open>Accepted witness proofs with pairwise different indices: no more than the selection asks for.\<close>

lemma accepted_witnesses_bound:
  assumes "externs_ok X" and "unat (cs_total_nodes s) \<le> 2 ^ 63"
    and "distinct (map wp_index ps)"
    and "\<forall>p \<in> set ps. wp_index p < cs_total_nodes s \<and> verify_witness X s p = Some True \<and> sb_is_true (wp_witness p)"
  shows "length ps \<le> min (witness_target s) (unat (cs_total_nodes s))"
proof -
  let ?A = "{i. i < cs_total_nodes s \<and> (\<exists>p. get_witness X s i = Some p \<and> sb_is_true (wp_witness p))}"
  have "set (map wp_index ps) \<subseteq> ?A" using assms(4) by (auto simp: verify_witness_iff)
  then have "card (set (map wp_index ps)) \<le> card ?A" by (rule card_mono [rotated]) simp
  moreover have "card (set (map wp_index ps)) = length ps" using distinct_card [OF assms(3)] by simp
  ultimately show ?thesis using card_witnesses [OF assms(1,2)] by simp
qed

lemma card_committee_below:
  assumes "externs_ok X" and "unat (cs_total_nodes s) \<le> 2 ^ 63" and "m \<le> cs_total_nodes s"
  shows "card {i. i < cs_total_nodes s \<and> the (cs_shuffled_index X s i COMMITTEE_SALT) < m} = unat m"
  using card_below_word [OF cs_shuffled_index_inj(1,2) [OF assms(1,2)], of COMMITTEE_SALT m] assms(3)
  by (simp add: word_le_nat_alt)

lemma get_committee_position:
  assumes "externs_ok X" and "unat (cs_total_nodes s) \<le> 2 ^ 63" and "selection_ok s"
    and "i < cs_total_nodes s"
  shows "map_option cp_committee (get_committee X s i) =
    Some (let p = the (cs_shuffled_index X s i COMMITTEE_SALT) in
          if p < cs_tie_breaker_nodes s then TieBreaker
          else if p < cs_tie_breaker_nodes s + cs_verifier_nodes s then Verifier else Trainer)"
proof -
  obtain k where k: "cs_shuffled_index X s i COMMITTEE_SALT = Some k"
    using cs_shuffled_index_inj(3) [OF assms(1,2,4)] by blast
  have "unat (cs_tie_breaker_nodes s) + unat (cs_verifier_nodes s) < 2 ^ 64"
    using assms(2,3) by (simp add: selection_ok_def)
  then show ?thesis using k
    by (simp add: get_committee_def get_committee_from_position_def checked_add_fits Let_def)
qed

lemma card_committees:
  assumes X: "externs_ok X" and n: "unat (cs_total_nodes s) \<le> 2 ^ 63" and s: "selection_ok s"
  defines "C k \<equiv> {i. i < cs_total_nodes s \<and> map_option cp_committee (get_committee X s i) = Some k}"
  shows "card (C TieBreaker) = unat (cs_tie_breaker_nodes s)"
    and "card (C Verifier) = unat (cs_verifier_nodes s)"
    and "card (C Trainer)
      = unat (cs_total_nodes s) - unat (cs_tie_breaker_nodes s) - unat (cs_verifier_nodes s)"
proof -
  let ?f = "\<lambda>i. the (cs_shuffled_index X s i COMMITTEE_SALT)" and ?n = "cs_total_nodes s"
  let ?t = "cs_tie_breaker_nodes s" and ?v = "cs_verifier_nodes s"
  let ?B = "\<lambda>m. {i. i < ?n \<and> ?f i < m}"
  have sum: "unat (?t + ?v) = unat ?t + unat ?v"
    using s n by (intro checked_add_Some checked_add_fits) (simp add: selection_ok_def)
  then have le: "?t \<le> ?t + ?v" "?t + ?v \<le> ?n" "?t \<le> ?n"
    using s by (auto simp: word_le_nat_alt selection_ok_def)
  have cards: "card (?B ?t) = unat ?t" "card (?B (?t + ?v)) = unat ?t + unat ?v" "card (?B ?n) = unat ?n"
    using card_committee_below [OF X n] le sum by auto
  have C: "C k = {i. i < ?n \<and> (if ?f i < ?t then TieBreaker else if ?f i < ?t + ?v then Verifier else Trainer) = k}"
    for k unfolding C_def
    by (intro Collect_cong conj_cong refl) (simp only: get_committee_position [OF X n s] Let_def option.inject)
  have sets: "C TieBreaker = ?B ?t" "C Verifier = ?B (?t + ?v) - ?B ?t"
    using le by (auto simp: C split: if_splits)
  have fn: "?f i < ?n" if "i < ?n" for i
    using cs_shuffled_index_inj(3) [OF X n that, of COMMITTEE_SALT] by auto
  have tr: "C Trainer = ?B ?n - ?B (?t + ?v)"
    unfolding C using le(1) fn by (auto split: if_splits)
  have sub: "?B ?t \<subseteq> ?B (?t + ?v)" "?B (?t + ?v) \<subseteq> ?B ?n"
    using le by (auto intro: order.strict_trans2)
  show "card (C TieBreaker) = unat ?t" using cards sets by simp
  show "card (C Verifier) = unat ?v" unfolding sets(2) using sub(1) cards by (simp add: card_Diff_subset)
  show "card (C Trainer) = unat ?n - unat ?t - unat ?v"
    unfolding tr using sub(2) cards by (simp add: card_Diff_subset)
qed

section \<open>Properties\<close>

text \<open>
  A selection elects exactly the configured number of witnesses: among the client indices, exactly
  \<open>witness_nodes\<close> hold a positive witness proof (\<open>min(32, clients)\<close> of them when \<open>witness_nodes\<close> is 0).
\<close>

theorem committee_elects_exactly:
  assumes "externs_ok X"
    and "committee_selection_new X tb wn vp tn seed = Some (Inr s)" and "unat tn \<le> 2 ^ 63"
  shows "card {i. i < tn \<and> (\<exists>p. get_witness X s i = Some p \<and> sb_is_true (wp_witness p))}
    = (if wn = 0 then min SOLANA_MAX_NUM_WITNESSES (unat tn) else unat wn)"
proof -
  note ok = committee_selection_new_ok [OF assms(2)]
  have "card {i. i < tn \<and> (\<exists>p. get_witness X s i = Some p \<and> sb_is_true (wp_witness p))}
    = min (witness_target s) (unat tn)"
    using card_witnesses [OF assms(1), of s] ok(2) assms(3) by simp
  also have "\<dots> = (if wn = 0 then min SOLANA_MAX_NUM_WITNESSES (unat tn) else unat wn)"
    using ok by (auto simp: witness_target_def selection_ok_def word_le_nat_alt)
  finally show ?thesis .
qed

theorem committee_elects_exactly_witness:
  "\<exists>s. committee_selection_new sample_externs 0 3 0 10 99 = Some (Inr s) \<and>
     card {i. i < 10 \<and> (\<exists>p. get_witness sample_externs s i = Some p \<and> sb_is_true (wp_witness p))} = 3"
proof -
  obtain s where s: "committee_selection_new sample_externs 0 3 0 10 99 = Some (Inr s)"
    using committee_selection_new_total [of 10 0 3 0 sample_externs 99] by auto
  show ?thesis using s committee_elects_exactly [OF sample_externs_ok s] by auto
qed

text \<open>
  C23. The three committees partition the clients with the computed sizes: exactly \<open>tie_breaker_nodes\<close> tie
  breakers, exactly \<open>verification_percent\<close> percent (rounded down) of the remaining nodes as verifiers, and
  everybody else a trainer, which is the number \<open>get_num_trainer_nodes\<close> reports.
\<close>

theorem committee_partition:
  assumes "externs_ok X"
    and "committee_selection_new X tb wn vp tn seed = Some (Inr s)" and "unat tn \<le> 2 ^ 63"
  shows "card {i. i < tn \<and> map_option cp_committee (get_committee X s i) = Some TieBreaker} = unat tb \<and>
    card {i. i < tn \<and> map_option cp_committee (get_committee X s i) = Some Verifier}
      = (unat tn - unat tb) * unat vp div 100 \<and>
    (\<exists>k. get_num_trainer_nodes s = Some k \<and>
       card {i. i < tn \<and> map_option cp_committee (get_committee X s i) = Some Trainer} = unat k)"
proof -
  note ok = committee_selection_new_ok [OF assms(2)]
  note c = card_committees [OF assms(1) _ ok(1), unfolded ok(2,4,6), OF assms(3)]
  obtain a where a: "checked_sub (cs_total_nodes s) (cs_tie_breaker_nodes s) = Some a"
    using ok(1) by (auto simp: selection_ok_def checked_sub_def word_le_nat_alt)
  have "cs_verifier_nodes s \<le> a"
    using ok(1) checked_sub_Some [OF a] unfolding selection_ok_def word_le_nat_alt by linarith
  then obtain b where b: "checked_sub a (cs_verifier_nodes s) = Some b" by (simp add: checked_sub_def)
  have "get_num_trainer_nodes s = Some b" using a b by (simp add: get_num_trainer_nodes_def)
  moreover have "unat b = unat tn - unat tb - (unat tn - unat tb) * unat vp div 100"
    using checked_sub_Some [OF a] checked_sub_Some [OF b] ok by simp
  ultimately show ?thesis using c by auto
qed

theorem committee_partition_witness:
  "\<exists>s. committee_selection_new sample_externs 1 0 50 9 99 = Some (Inr s) \<and>
     card {i. i < 9 \<and> map_option cp_committee (get_committee sample_externs s i) = Some Verifier} = 4"
proof -
  obtain s where s: "committee_selection_new sample_externs 1 0 50 9 99 = Some (Inr s)"
    using committee_selection_new_total [of 9 1 0 50 sample_externs 99] by auto
  show ?thesis using s committee_partition [OF sample_externs_ok s] by auto
qed

text \<open>
  C24. Proofs are sound and complete: the verifier accepts a witness proof or a committee proof exactly when
  it is the proof the selection itself computes for the claimed index.
\<close>

theorem proofs_verify_iff_computed:
  "(verify_witness X s p = Some True \<longleftrightarrow> get_witness X s (wp_index p) = Some p) \<and>
   (verify_committee X s q = Some True \<longleftrightarrow> get_committee X s (cp_index q) = Some q)"
proof
  show "verify_witness X s p = Some True \<longleftrightarrow> get_witness X s (wp_index p) = Some p"
    by (rule verify_witness_iff)
  show "verify_committee X s q = Some True \<longleftrightarrow> get_committee X s (cp_index q) = Some q"
    by (rule verify_committee_iff)
qed

end
