(* ===== verification/Fixed_Vec.thy ===== *)
theory Fixed_Vec
  imports Psyche_Prelude
begin

text \<open>
  \<open>FixedVec<T, N>\<close> (\<open>src/shared/core/src/fixed_vec.rs\<close>): an array of \<open>N\<close> slots and the number of slots in
  use, so that the coordinator state has a fixed size on chain. The theory models every operation on
  that representation and proves that it implements a list of at most \<open>N\<close> elements, the view the other
  components work with. The argument \<open>d\<close> of an operation is \<open>T::default()\<close>, the value of unused slots.
\<close>

record 'a fixed_vec =
  fv_data :: "'a list"
  fv_len :: u64

definition fv_capacity :: "'a fixed_vec \<Rightarrow> nat" where
  "fv_capacity v = length (fv_data v)"

definition fv_new :: "nat \<Rightarrow> 'a \<Rightarrow> 'a fixed_vec" where
  "fv_new N d = \<lparr>fv_data = replicate N d, fv_len = 0\<rparr>"

definition fv_is_empty :: "'a fixed_vec \<Rightarrow> bool" where
  "fv_is_empty v \<longleftrightarrow> fv_len v = 0"

definition fv_is_full :: "'a fixed_vec \<Rightarrow> bool" where
  "fv_is_full v \<longleftrightarrow> unat (fv_len v) = fv_capacity v"

definition fv_push :: "'a \<Rightarrow> 'a fixed_vec \<Rightarrow> string + 'a fixed_vec" where
  "fv_push x v =
     (if unat (fv_len v) < fv_capacity v
      then Inr (v\<lparr>fv_data := (fv_data v)[unat (fv_len v) := x], fv_len := fv_len v + 1\<rparr>)
      else Inl ''FixedVec is full'')"

definition fv_pop :: "'a \<Rightarrow> 'a fixed_vec \<Rightarrow> 'a fixed_vec \<times> 'a option" where
  "fv_pop d v =
     (if 0 < fv_len v
      then let i = unat (fv_len v - 1)
           in (v\<lparr>fv_data := (fv_data v)[i := d], fv_len := fv_len v - 1\<rparr>, Some (fv_data v ! i))
      else (v, None))"

definition fv_get :: "nat \<Rightarrow> 'a fixed_vec \<Rightarrow> 'a option" where
  "fv_get i v = (if i < unat (fv_len v) then Some (fv_data v ! i) else None)"

definition fv_clear :: "'a \<Rightarrow> 'a fixed_vec \<Rightarrow> 'a fixed_vec" where
  "fv_clear d v =
     v\<lparr>fv_data := fold (\<lambda>i D. D[i := d]) [0..<unat (fv_len v)] (fv_data v), fv_len := 0\<rparr>"

text \<open>\<open>extend\<close> stops at the first element that does not fit and leaves the earlier ones in place.\<close>

fun fv_extend :: "'a list \<Rightarrow> 'a fixed_vec \<Rightarrow> 'a fixed_vec \<times> (string + unit)" where
  "fv_extend [] v = (v, Inr ())"
| "fv_extend (x # xs) v =
     (case fv_push x v of Inl e \<Rightarrow> (v, Inl e) | Inr v' \<Rightarrow> fv_extend xs v')"

definition fv_first :: "'a fixed_vec \<Rightarrow> 'a option" where
  "fv_first v = (if 0 < fv_len v then Some (fv_data v ! 0) else None)"

definition fv_last :: "'a fixed_vec \<Rightarrow> 'a option" where
  "fv_last v = (if 0 < fv_len v then Some (fv_data v ! (unat (fv_len v) - 1)) else None)"

definition fv_remove :: "'a \<Rightarrow> nat \<Rightarrow> 'a fixed_vec \<Rightarrow> 'a fixed_vec \<times> 'a option" where
  "fv_remove d i v =
     (if unat (fv_len v) \<le> i then (v, None)
      else let last_pos = unat (fv_len v) - 1;
               D = fold (\<lambda>j D. D[j := D ! (j + 1)]) [i..<last_pos] (fv_data v)
           in (v\<lparr>fv_data := D[last_pos := d], fv_len := fv_len v - 1\<rparr>, Some (fv_data v ! i)))"

definition fv_insert :: "nat \<Rightarrow> 'a \<Rightarrow> 'a fixed_vec \<Rightarrow> string + 'a fixed_vec" where
  "fv_insert i x v =
     (if fv_capacity v \<le> unat (fv_len v) then Inl ''FixedVec is full''
      else if unat (fv_len v) < i then Inl ''Index out of bounds''
      else let D = fold (\<lambda>j D. D[j + 1 := D ! j]) (rev [i..<unat (fv_len v)]) (fv_data v)
           in Inr (v\<lparr>fv_data := D[i := x], fv_len := fv_len v + 1\<rparr>))"

text \<open>
  The read/write loop of \<open>retain\<close>. The predicate is an \<open>FnMut\<close> closure: it takes and returns the state
  it captures, which is how \<open>move_clients_to_exited\<close> collects the clients it drops.
\<close>

function retain_loop ::
    "('s \<Rightarrow> 'a \<Rightarrow> bool \<times> 's) \<Rightarrow> 's \<Rightarrow> 'a list \<Rightarrow> nat \<Rightarrow> nat \<Rightarrow> nat \<Rightarrow> 'a list \<times> nat \<times> 's" where
  "retain_loop f s D rd wr n =
     (if rd < n
      then case f s (D ! rd) of (keep, s') \<Rightarrow>
             if keep
             then retain_loop f s' (if rd \<noteq> wr then D[wr := D ! rd] else D)
                    (rd + 1) (wr + 1) n
             else retain_loop f s' D (rd + 1) wr n
      else (D, wr, s))"
  by pat_completeness auto
termination
  by (relation "measure (\<lambda>(f, s, D, rd, wr, n). n - rd)") auto

declare retain_loop.simps [simp del]

definition fv_retain ::
    "'a \<Rightarrow> ('s \<Rightarrow> 'a \<Rightarrow> bool \<times> 's) \<Rightarrow> 's \<Rightarrow> 'a fixed_vec \<Rightarrow> 'a fixed_vec \<times> 's" where
  "fv_retain d f s v =
     (case retain_loop f s (fv_data v) 0 0 (unat (fv_len v)) of (D, wr, s') \<Rightarrow>
        (v\<lparr>fv_data := fold (\<lambda>i D. D[i := d]) [wr..<unat (fv_len v)] D,
           fv_len := of_nat wr\<rparr>, s'))"

definition fv_try_from_iter :: "nat \<Rightarrow> 'a \<Rightarrow> 'a list \<Rightarrow> string + 'a fixed_vec" where
  "fv_try_from_iter N d xs =
     (case fv_extend xs (fv_new N d) of (v, Inl e) \<Rightarrow> Inl e | (v, Inr _) \<Rightarrow> Inr v)"

section \<open>Abstraction to lists\<close>

definition fv_inv :: "'a fixed_vec \<Rightarrow> bool" where
  "fv_inv v \<longleftrightarrow> unat (fv_len v) \<le> length (fv_data v) \<and> length (fv_data v) < 2 ^ 64"

definition fv_list :: "'a fixed_vec \<Rightarrow> 'a list" where
  "fv_list v = take (unat (fv_len v)) (fv_data v)"

text \<open>What \<open>retain\<close> with a stateful closure does to a list.\<close>

fun retain_list :: "('s \<Rightarrow> 'a \<Rightarrow> bool \<times> 's) \<Rightarrow> 's \<Rightarrow> 'a list \<Rightarrow> 'a list \<times> 's" where
  "retain_list f s [] = ([], s)"
| "retain_list f s (x # xs) =
     (case f s x of (keep, s') \<Rightarrow>
        case retain_list f s' xs of (ys, t) \<Rightarrow> (if keep then x # ys else ys, t))"

lemma retain_list_pure: "fst (retain_list (\<lambda>s x. (P x, s)) s xs) = filter P xs"
  by (induction xs arbitrary: s) (auto simp: split_beta)

lemma retain_list_length: "length (fst (retain_list f s xs)) \<le> length xs"
  by (induction xs arbitrary: s) (auto simp: split_beta intro: le_SucI)

lemma fv_len_list: "fv_inv v \<Longrightarrow> length (fv_list v) = unat (fv_len v)"
  by (simp add: fv_list_def fv_inv_def)

lemma unat_len_Suc: "fv_inv v \<Longrightarrow> unat (fv_len v) < length (fv_data v) \<Longrightarrow> unat (fv_len v + 1) = Suc (unat (fv_len v))"
  by (auto simp: fv_inv_def unat_word_ariths)

lemma unat_len_pred: "0 < fv_len v \<Longrightarrow> unat (fv_len v - 1) = unat (fv_len v) - 1"
  by (rule unat_minus_one) auto

lemma fold_reset:
  "length (fold (\<lambda>i D. D[i := d]) js D) = length D"
  "\<forall>i \<in> set js. n \<le> i \<Longrightarrow> take n (fold (\<lambda>i D. D[i := d]) js D) = take n D"
  by (induction js arbitrary: D) auto

lemma retain_loop_list:
  assumes "wr \<le> rd" "rd \<le> n" "n \<le> length D"
  shows "case (retain_loop f s D rd wr n, retain_list f s (take (n - rd) (drop rd D))) of
           ((D', wr', s'), (ys, t)) \<Rightarrow>
             take wr' D' = take wr D @ ys \<and> wr' = wr + length ys \<and> s' = t \<and>
             length D' = length D \<and> wr' \<le> n"
  using assms
proof (induction f s D rd wr n rule: retain_loop.induct)
  case (1 f s D rd wr n)
  show ?case
  proof (cases "rd < n")
    case False
    with "1.prems" show ?thesis by (simp add: retain_loop.simps)
  next
    case True
    obtain keep s' where f: "f s (D ! rd) = (keep, s')" by force
    have split: "take (n - rd) (drop rd D) = D ! rd # take (n - Suc rd) (drop (Suc rd) D)"
      using True "1.prems" by (simp add: Cons_nth_drop_Suc [symmetric] Suc_diff_Suc [symmetric])
    define E where "E = (if rd \<noteq> wr then D[wr := D ! rd] else D)"
    have E: "drop (Suc rd) E = drop (Suc rd) D" "length E = length D"
      "take (Suc wr) E = take wr D @ [D ! rd]"
      using True "1.prems" by (auto simp: E_def take_Suc_conv_app_nth)
    have unf: "retain_loop f s D rd wr n =
      (if keep then retain_loop f s' E (rd + 1) (wr + 1) n else retain_loop f s' D (rd + 1) wr n)"
      using True by (subst retain_loop.simps) (simp add: f E_def)
    show ?thesis
    proof (cases keep)
      case True
      note IH = "1.IH"(1) [OF \<open>rd < n\<close> f [symmetric] True, folded E_def]
      from IH "1.prems" E \<open>rd < n\<close> True show ?thesis unfolding unf
        by (simp add: split f split: prod.splits)
    next
      case False
      note IH = "1.IH"(2) [OF \<open>rd < n\<close> f [symmetric] False]
      from IH "1.prems" \<open>rd < n\<close> False show ?thesis unfolding unf
        by (simp add: split f split: prod.splits)
    qed
  qed
qed

lemma remove_shift:
  assumes "i \<le> n" and "n < length D"
  shows "length (fold (\<lambda>j D. D[j := D ! Suc j]) [i..<n] D) = length D"
    and "k < length D \<Longrightarrow> fold (\<lambda>j D. D[j := D ! Suc j]) [i..<n] D ! k
      = (if i \<le> k \<and> k < n then D ! Suc k else D ! k)"
  using assms
proof (induction n arbitrary: k)
  case (Suc n)
  { case 1
    with Suc.IH show ?case by (cases "i = Suc n") auto
  next
    case 2
    show ?case
    proof (cases "i = Suc n")
      case True
      with 2 show ?thesis by auto
    next
      case False
      with 2 have le: "i \<le> n" "n < length D" by auto
      let ?E = "fold (\<lambda>j D. D[j := D ! Suc j]) [i..<n] D"
      have "length ?E = length D" by (rule Suc.IH(1)) (use le in auto)
      moreover have "?E ! j = (if i \<le> j \<and> j < n then D ! Suc j else D ! j)" if "j < length D" for j
        by (rule Suc.IH(2)) (use le that in auto)
      ultimately show ?thesis using 2 le by (auto simp: nth_list_update less_Suc_eq)
    qed }
qed auto

lemma insert_shift:
  assumes "i \<le> n" and "n < length D"
  shows "length (fold (\<lambda>j D. D[Suc j := D ! j]) (rev [i..<n]) D) = length D"
    and "k < length D \<Longrightarrow> fold (\<lambda>j D. D[Suc j := D ! j]) (rev [i..<n]) D ! k
      = (if i < k \<and> k \<le> n then D ! (k - 1) else D ! k)"
  using assms
proof (induction n arbitrary: k D)
  case (Suc n)
  { case 1
    with Suc.IH show ?case by (cases "i = Suc n") auto
  next
    case 2
    show ?case
    proof (cases "i = Suc n")
      case True
      with 2 show ?thesis by auto
    next
      case False
      with 2 have le: "i \<le> n" "n < length D" by auto
      let ?E = "D[Suc n := D ! n]"
      have "fold (\<lambda>j D. D[Suc j := D ! j]) (rev [i..<n]) ?E ! k
        = (if i < k \<and> k \<le> n then ?E ! (k - 1) else ?E ! k)"
        by (rule Suc.IH(2)) (use 2 le in auto)
      then show ?thesis using 2 le by (auto simp: nth_list_update le_Suc_eq)
    qed }
qed auto

section \<open>The bounded-vector interface\<close>

text \<open>
  What a client may assume of a vector with a capacity: a list view, an invariant every operation
  keeps, and one equation per operation. The clients of \<open>FixedVec\<close> are modelled on lists with
  \<^const>\<open>cap_push\<close>, \<^const>\<open>cap_extend\<close> and \<^const>\<open>retain_list\<close>; this is the justification.
\<close>

locale bounded_vec =
  fixes invar :: "'v \<Rightarrow> bool"
    and view :: "'v \<Rightarrow> 'a list"
    and cap :: "'v \<Rightarrow> nat"
    and push :: "'a \<Rightarrow> 'v \<Rightarrow> string + 'v"
    and pop :: "'v \<Rightarrow> 'v \<times> 'a option"
    and insert_at :: "nat \<Rightarrow> 'a \<Rightarrow> 'v \<Rightarrow> string + 'v"
    and remove_at :: "nat \<Rightarrow> 'v \<Rightarrow> 'v \<times> 'a option"
  assumes view_cap: "invar v \<Longrightarrow> length (view v) \<le> cap v"
    and push_ok: "invar v \<Longrightarrow> push x v = Inr w \<Longrightarrow>
           invar w \<and> cap w = cap v \<and> length (view v) < cap v \<and> view w = view v @ [x]"
    and push_full: "invar v \<Longrightarrow> push x v = Inl e \<Longrightarrow> length (view v) = cap v"
    and pop_some: "invar v \<Longrightarrow> view v \<noteq> [] \<Longrightarrow> pop v = (w, r) \<Longrightarrow>
           invar w \<and> cap w = cap v \<and> r = Some (last (view v)) \<and> view w = butlast (view v)"
    and pop_none: "invar v \<Longrightarrow> view v = [] \<Longrightarrow> pop v = (v, None)"
    and insert_ok: "invar v \<Longrightarrow> insert_at i x v = Inr w \<Longrightarrow>
           invar w \<and> cap w = cap v \<and> i \<le> length (view v) \<and> length (view v) < cap v \<and>
           view w = take i (view v) @ x # drop i (view v)"
    and insert_err: "invar v \<Longrightarrow> insert_at i x v = Inl e \<Longrightarrow>
           length (view v) = cap v \<or> length (view v) < i"
    and remove_some: "invar v \<Longrightarrow> i < length (view v) \<Longrightarrow> remove_at i v = (w, r) \<Longrightarrow>
           invar w \<and> cap w = cap v \<and> r = Some (view v ! i) \<and>
           view w = take i (view v) @ drop (Suc i) (view v)"
    and remove_none: "invar v \<Longrightarrow> length (view v) \<le> i \<Longrightarrow> remove_at i v = (v, None)"
begin

lemma push_is_cap_push:
  "invar v \<Longrightarrow> cap_push (cap v) x (view v) = (case push x v of Inl e \<Rightarrow> None | Inr w \<Rightarrow> Some (view w))"
  using push_ok [of v x] push_full [of v x] by (cases "push x v") (auto simp: cap_push_def)

lemma push_then_pop:
  "invar v \<Longrightarrow> push x v = Inr w \<Longrightarrow> pop w = (u, r) \<Longrightarrow> r = Some x \<and> view u = view v"
  using push_ok [of v x w] pop_some [of w u r] by auto

lemma insert_then_remove:
  "invar v \<Longrightarrow> insert_at i x v = Inr w \<Longrightarrow> remove_at i w = (u, r) \<Longrightarrow> r = Some x \<and> view u = view v"
  using insert_ok [of v i x w] remove_some [of w i u r] by (auto simp: nth_append)

end

lemma fv_push_ok:
  assumes "fv_inv v" and "fv_push x v = Inr w"
  shows "fv_inv w \<and> fv_capacity w = fv_capacity v \<and> length (fv_list v) < fv_capacity v \<and>
         fv_list w = fv_list v @ [x]"
proof -
  from assms(2) have lt: "unat (fv_len v) < length (fv_data v)"
    and w: "w = v\<lparr>fv_data := (fv_data v)[unat (fv_len v) := x], fv_len := fv_len v + 1\<rparr>"
    by (auto simp: fv_push_def fv_capacity_def split: if_splits)
  from assms(1) lt have "unat (fv_len v + 1) = Suc (unat (fv_len v))" by (rule unat_len_Suc)
  then show ?thesis using assms(1) lt
    by (auto simp: w fv_inv_def fv_capacity_def fv_list_def take_Suc_conv_app_nth)
qed

lemma fv_push_full: "fv_inv v \<Longrightarrow> fv_push x v = Inl e \<Longrightarrow> length (fv_list v) = fv_capacity v"
  by (auto simp: fv_push_def fv_capacity_def fv_inv_def fv_list_def split: if_splits)

lemma fv_pop_some:
  assumes "fv_inv v" and "fv_list v \<noteq> []" and "fv_pop d v = (w, r)"
  shows "fv_inv w \<and> fv_capacity w = fv_capacity v \<and> r = Some (last (fv_list v)) \<and>
         fv_list w = butlast (fv_list v)"
proof -
  let ?n = "unat (fv_len v)"
  have pos: "0 < fv_len v" using assms(2) by (auto simp: fv_list_def word_gt_0)
  have n: "unat (fv_len v - 1) = ?n - 1" by (rule unat_len_pred [OF pos])
  have pos': "0 < ?n" using pos by (simp add: word_less_nat_alt)
  have w: "w = v\<lparr>fv_data := (fv_data v)[?n - 1 := d], fv_len := fv_len v - 1\<rparr>"
    and r: "r = Some (fv_data v ! (?n - 1))"
    using assms(3) pos by (auto simp: fv_pop_def n Let_def)
  have "last (fv_list v) = fv_data v ! (?n - 1)"
    using assms(1) pos' by (subst last_conv_nth [OF assms(2)]) (auto simp: fv_list_def fv_inv_def)
  then show ?thesis using assms(1) pos'
    by (auto simp: w r n fv_inv_def fv_capacity_def fv_list_def butlast_take)
qed

lemma fv_insert_ok:
  assumes "fv_inv v" and "fv_insert i x v = Inr w"
  shows "fv_inv w \<and> fv_capacity w = fv_capacity v \<and> i \<le> length (fv_list v) \<and>
         length (fv_list v) < fv_capacity v \<and> fv_list w = take i (fv_list v) @ x # drop i (fv_list v)"
proof -
  let ?n = "unat (fv_len v)" and ?D = "fv_data v"
  let ?E = "fold (\<lambda>j D. D[Suc j := D ! j]) (rev [i..<?n]) ?D"
  from assms(2) have lt: "?n < length ?D" and le: "i \<le> ?n"
    and w: "w = v\<lparr>fv_data := ?E[i := x], fv_len := fv_len v + 1\<rparr>"
    by (auto simp: fv_insert_def fv_capacity_def Let_def split: if_splits)
  have n: "unat (fv_len v + 1) = Suc ?n" using assms(1) lt by (rule unat_len_Suc)
  note sh = insert_shift [OF le lt]
  have "fv_list w = take i (fv_list v) @ x # drop i (fv_list v)"
  proof (rule nth_equalityI)
    show "length (fv_list w) = length (take i (fv_list v) @ x # drop i (fv_list v))"
      using lt le by (simp add: w n fv_list_def sh)
    fix k assume "k < length (fv_list w)"
    then have "k < Suc ?n" using lt by (simp add: w n fv_list_def sh)
    then consider "k < i" | "k = i" | "i < k" "k \<le> ?n" by linarith
    then show "fv_list w ! k = (take i (fv_list v) @ x # drop i (fv_list v)) ! k"
      by cases (use lt le in \<open>auto simp: w n fv_list_def sh nth_append nth_Cons'\<close>)
  qed
  then show ?thesis using assms(1) lt le by (auto simp: w n sh fv_inv_def fv_capacity_def fv_list_def)
qed

lemma fv_insert_err:
  "fv_inv v \<Longrightarrow> fv_insert i x v = Inl e \<Longrightarrow> length (fv_list v) = fv_capacity v \<or> length (fv_list v) < i"
  by (auto simp: fv_insert_def fv_capacity_def fv_inv_def fv_list_def Let_def split: if_splits)

lemma fv_remove_some:
  assumes "fv_inv v" and "i < length (fv_list v)" and "fv_remove d i v = (w, r)"
  shows "fv_inv w \<and> fv_capacity w = fv_capacity v \<and> r = Some (fv_list v ! i) \<and>
         fv_list w = take i (fv_list v) @ drop (Suc i) (fv_list v)"
proof -
  let ?n = "unat (fv_len v)" and ?D = "fv_data v"
  let ?E = "fold (\<lambda>j D. D[j := D ! Suc j]) [i..<?n - 1] ?D"
  have i: "i < ?n" and len: "?n \<le> length ?D" using assms(1,2) by (auto simp: fv_list_def fv_inv_def)
  have pos: "0 < fv_len v" using i by (auto simp: word_gt_0)
  have n: "unat (fv_len v - 1) = ?n - 1" by (rule unat_len_pred [OF pos])
  have w: "w = v\<lparr>fv_data := ?E[?n - 1 := d], fv_len := fv_len v - 1\<rparr>" and r: "r = Some (?D ! i)"
    using assms(3) i by (auto simp: fv_remove_def Let_def)
  have pre: "i \<le> ?n - Suc 0" "?n - Suc 0 < length ?D" using i len by auto
  note sh = remove_shift [OF pre]
  have "fv_list w = take i (fv_list v) @ drop (Suc i) (fv_list v)"
  proof (rule nth_equalityI)
    show "length (fv_list w) = length (take i (fv_list v) @ drop (Suc i) (fv_list v))"
      using i len by (simp add: w n fv_list_def sh)
    fix k assume "k < length (fv_list w)"
    then have "k < ?n - 1" using len by (simp add: w n fv_list_def sh)
    then show "fv_list w ! k = (take i (fv_list v) @ drop (Suc i) (fv_list v)) ! k"
      using i len by (cases "k < i") (simp_all add: w n fv_list_def sh nth_append)
  qed
  then show ?thesis using assms(1) i len by (auto simp: w n r sh fv_inv_def fv_capacity_def fv_list_def)
qed

interpretation fv: bounded_vec fv_inv fv_list fv_capacity fv_push "fv_pop d" fv_insert "fv_remove d"
  for d :: 'a
  apply unfold_locales
  subgoal for v by (simp add: fv_inv_def fv_list_def fv_capacity_def)
  subgoal by (rule fv_push_ok)
  subgoal by (rule fv_push_full)
  subgoal by (rule fv_pop_some)
  subgoal for v by (cases "fv_len v = 0") (auto simp: fv_pop_def fv_list_def fv_inv_def unat_eq_zero)
  subgoal by (rule fv_insert_ok)
  subgoal by (rule fv_insert_err)
  subgoal by (rule fv_remove_some)
  subgoal for v i by (auto simp: fv_remove_def fv_list_def fv_inv_def)
  done

lemma fv_retain_list:
  assumes "fv_inv v" and "fv_retain d f s v = (w, t)"
  shows "fv_inv w" and "fv_capacity w = fv_capacity v"
    and "retain_list f s (fv_list v) = (fv_list w, t)"
proof -
  let ?n = "unat (fv_len v)"
  obtain D wr s' where l: "retain_loop f s (fv_data v) 0 0 ?n = (D, wr, s')" by (metis prod_cases3)
  obtain ys u where r: "retain_list f s (fv_list v) = (ys, u)" by force
  have h: "take wr D = ys" "wr = length ys" "s' = u" "length D = length (fv_data v)" "wr \<le> ?n"
    using retain_loop_list [of 0 0 ?n "fv_data v" f s] assms(1) l r
    by (auto simp: fv_inv_def fv_list_def)
  have w: "w = v\<lparr>fv_data := fold (\<lambda>i D. D[i := d]) [wr..<?n] D, fv_len := of_nat wr\<rparr>" "t = s'"
    using assms(2) l by (auto simp: fv_retain_def)
  have n: "unat (of_nat wr :: u64) = wr"
    using h(5) unat_less_pow [of "fv_len v"] by (intro unat_of_nat_small) simp
  show "fv_inv w" "fv_capacity w = fv_capacity v" using assms(1) h(4,5)
    by (auto simp: w n fv_inv_def fv_capacity_def fold_reset)
  have "fv_list w = ys" using h(1) by (simp add: w n fv_list_def fold_reset)
  then show "retain_list f s (fv_list v) = (fv_list w, t)" using r h(3) w(2) by simp
qed

lemma fv_clear_list:
  "fv_inv v \<Longrightarrow> fv_inv (fv_clear d v) \<and> fv_capacity (fv_clear d v) = fv_capacity v \<and>
     fv_list (fv_clear d v) = []"
  by (auto simp: fv_clear_def fv_inv_def fv_capacity_def fv_list_def fold_reset)

lemma fv_new_list: "N < 2 ^ 64 \<Longrightarrow> fv_inv (fv_new N d) \<and> fv_capacity (fv_new N d) = N \<and> fv_list (fv_new N d) = []"
  by (simp add: fv_new_def fv_inv_def fv_capacity_def fv_list_def)

lemma fv_extend_list:
  "fv_inv v \<Longrightarrow> fv_extend xs v = (w, r) \<Longrightarrow>
     fv_inv w \<and> fv_capacity w = fv_capacity v \<and>
     cap_extend (fv_capacity v) xs (fv_list v) = (case r of Inl e \<Rightarrow> None | Inr _ \<Rightarrow> Some (fv_list w))"
proof (induction xs arbitrary: v)
  case Nil
  then show ?case by auto
next
  case (Cons x xs)
  show ?case
  proof (cases "fv_push x v")
    case (Inl e)
    then show ?thesis using Cons.prems fv.push_is_cap_push [of v x] by auto
  next
    case (Inr u)
    then have "fv_inv u" "fv_capacity u = fv_capacity v" "cap_push (fv_capacity v) x (fv_list v) = Some (fv_list u)"
      using fv_push_ok [of v x u] fv.push_is_cap_push [of v x] Cons.prems(1) by auto
    then show ?thesis using Cons.IH [of u] Cons.prems Inr by auto
  qed
qed


section \<open>Properties\<close>

text \<open>
  \<open>FixedVec\<close> refines the list with a capacity that the other components are modelled with: \<open>push\<close>,
  \<open>extend\<close> and \<open>retain\<close> (with a closure that has side effects) on the array and its length are
  \<^const>\<open>cap_push\<close>, \<^const>\<open>cap_extend\<close> and \<^const>\<open>retain_list\<close> on the stored elements.
\<close>

theorem fixed_vec_refines_list:
  assumes "fv_inv v"
  shows "cap_push (fv_capacity v) x (fv_list v) = (case fv_push x v of Inl e \<Rightarrow> None | Inr w \<Rightarrow> Some (fv_list w)) \<and>
    cap_extend (fv_capacity v) xs (fv_list v) =
      (case fv_extend xs v of (w, Inl e) \<Rightarrow> None | (w, Inr _) \<Rightarrow> Some (fv_list w)) \<and>
    retain_list f s (fv_list v) = (case fv_retain d f s v of (w, t) \<Rightarrow> (fv_list w, t))"
proof -
  obtain w r where e: "fv_extend xs v = (w, r)" by force
  obtain u t where r: "fv_retain d f s v = (u, t)" by force
  show ?thesis
    using fv.push_is_cap_push [OF assms, of x] fv_extend_list [OF assms e] fv_retain_list(3) [OF assms r]
    by (auto simp: e r split: sum.split)
qed

theorem fixed_vec_refines_list_witness:
  "fv_inv \<lparr>fv_data = [7, 8, 0 :: nat], fv_len = 2\<rparr> \<and>
   retain_list (\<lambda>s x. (x = 8, s + x)) 0 [7, 8] =
     (case fv_retain 0 (\<lambda>s x. (x = 8, s + x)) 0 \<lparr>fv_data = [7, 8, 0 :: nat], fv_len = 2\<rparr> of (w, t) \<Rightarrow> (fv_list w, t))"
proof -
  let ?v = "\<lparr>fv_data = [7, 8, 0 :: nat], fv_len = 2\<rparr>"
  have i: "fv_inv ?v" by (simp add: fv_inv_def)
  have "fv_list ?v = [7, 8]" by (simp add: fv_list_def)
  then show ?thesis using i fixed_vec_refines_list [OF i, where f = "\<lambda>s x. (x = 8, s + x)" and s = 0 and d = 0] by simp
qed

text \<open>
  Round trips on a \<open>FixedVec\<close>: what was pushed is popped and what was inserted is removed again, both
  leaving the stored elements as they were, whenever the insertion was accepted.
\<close>

theorem fixed_vec_roundtrip:
  assumes "fv_inv v"
  shows "(\<forall>w. fv_push x v = Inr w \<longrightarrow> snd (fv_pop d w) = Some x \<and> fv_list (fst (fv_pop d w)) = fv_list v) \<and>
    (\<forall>w. fv_insert i x v = Inr w \<longrightarrow> snd (fv_remove d i w) = Some x \<and> fv_list (fst (fv_remove d i w)) = fv_list v)"
proof (intro conjI allI impI)
  fix w assume "fv_push x v = Inr w"
  then show "snd (fv_pop d w) = Some x" "fv_list (fst (fv_pop d w)) = fv_list v"
    using fv.push_then_pop [OF assms, of x w d "fst (fv_pop d w)" "snd (fv_pop d w)"] by simp_all
next
  fix w assume "fv_insert i x v = Inr w"
  then show "snd (fv_remove d i w) = Some x" "fv_list (fst (fv_remove d i w)) = fv_list v"
    using fv.insert_then_remove [OF assms, of i x w d "fst (fv_remove d i w)" "snd (fv_remove d i w)"] by simp_all
qed

theorem fixed_vec_roundtrip_witness:
  "\<exists>w. fv_insert 1 (9 :: nat) \<lparr>fv_data = [7, 8, 0], fv_len = 2\<rparr> = Inr w \<and> snd (fv_remove 0 1 w) = Some 9"
proof -
  have i: "fv_inv \<lparr>fv_data = [7, 8, 0 :: nat], fv_len = 2\<rparr>" by (simp add: fv_inv_def)
  obtain w where "fv_insert 1 (9 :: nat) \<lparr>fv_data = [7, 8, 0], fv_len = 2\<rparr> = Inr w"
    by (simp add: fv_insert_def fv_capacity_def Let_def)
  then show ?thesis using fixed_vec_roundtrip [OF i, where i = 1 and x = 9 and d = 0] by blast
qed

end
