(* ===== verification/Coordinator.thy ===== *)
theory Coordinator
  imports Committee Fixed_Vec
begin

text \<open>
  The coordinator's state machine (\<open>impl Coordinator\<close> in \<open>src/shared/coordinator/src/coordinator.rs\<close>): one
  definition per method, in the order of the file, then the commands its owners (the Solana program
  and the centralized server) send to it.

  A method that can only panic is an \<open>option\<close>; a method that returns a \<open>Result\<close> is an \<open>exec\<close>, whose
  \<open>Fail\<close> carries the state at the early return. Arithmetic is checked, as in the on-chain build
  (\<open>overflow-checks = true\<close>).
\<close>

type_synonym ('id, 'a) co_exec = "('id coordinator, coordinator_error, 'a) exec"

abbreviation set_epoch :: "('id epoch_state \<Rightarrow> 'id epoch_state) \<Rightarrow> 'id coordinator \<Rightarrow> 'id coordinator" where
  "set_epoch f c \<equiv> c\<lparr>co_epoch_state := f (co_epoch_state c)\<rparr>"

abbreviation set_progress ::
    "(coordinator_progress \<Rightarrow> coordinator_progress) \<Rightarrow> 'id coordinator \<Rightarrow> 'id coordinator" where
  "set_progress f c \<equiv> c\<lparr>co_progress := f (co_progress c)\<rparr>"

section \<open>Rounds and state changes\<close>

definition current_round_unchecked :: "'id coordinator \<Rightarrow> round option" where
  "current_round_unchecked c = nth_opt (co_rounds c) (co_head c)"

text \<open>Writing through \<open>current_round_mut_unchecked\<close>.\<close>

definition current_round_mut_unchecked :: "(round \<Rightarrow> round) \<Rightarrow> 'id coordinator \<Rightarrow> 'id coordinator option" where
  "current_round_mut_unchecked f c =
     (case nth_opt (co_rounds c) (co_head c) of
        None \<Rightarrow> None
      | Some r \<Rightarrow> Some (set_epoch (es_rounds_update (\<lambda>rs. rs[co_head c := f r])) c))"

definition change_state :: "u64 \<Rightarrow> run_state \<Rightarrow> 'id coordinator \<Rightarrow> 'id coordinator option" where
  "change_state unix_timestamp new_state c =
     (if co_run_state c = new_state then None
      else Some (c\<lparr>co_run_state_start := unix_timestamp, co_run_state := new_state\<rparr>))"

definition check_timeout :: "u64 \<Rightarrow> u64 \<Rightarrow> 'id coordinator \<Rightarrow> bool option" where
  "check_timeout unix_timestamp duration c =
     (if co_run_state_start c = unix_timestamp then Some False
      else do {
        deadline \<leftarrow> checked_add duration (co_run_state_start c);
        Some (deadline \<le> unix_timestamp)
      })"

definition check_epoch_timeout :: "u64 \<Rightarrow> 'id coordinator \<Rightarrow> bool option" where
  "check_epoch_timeout unix_timestamp c =
     (if es_start_timestamp (co_epoch_state c) = unix_timestamp then Some False
      else do {
        deadline \<leftarrow> checked_add (es_start_timestamp (co_epoch_state c)) (epoch_time (co_config c));
        Some (deadline \<le> unix_timestamp)
      })"

definition start_cooldown :: "u64 \<Rightarrow> 'id coordinator \<Rightarrow> 'id coordinator option" where
  "start_cooldown unix_timestamp c =
     do {
       c \<leftarrow> current_round_mut_unchecked (r_witnesses_update (\<lambda>_. [])) c;
       change_state unix_timestamp Cooldown c
     }"

text \<open>The head, height and data index of the round to start.\<close>

definition next_round :: "'id coordinator \<Rightarrow> (nat \<times> u32 \<times> u64) option" where
  "next_round c =
     (if sb_is_true (es_first_round (co_epoch_state c))
      then Some (0, 0, pr_epoch_start_data_index (co_progress c))
      else do {
        prev_round \<leftarrow> nth_opt (co_rounds c) (co_head c);
        prev_round_start_tokens \<leftarrow> checked_mul (r_data_index prev_round) (ucast (get_sequence_length c));
        let prev_round_batch_size = get_batch_size (co_config c) prev_round_start_tokens;
        head \<leftarrow> checked_add (es_rounds_head (co_epoch_state c)) 1;
        height \<leftarrow> checked_add (r_height prev_round) 1;
        data_index \<leftarrow> checked_add (r_data_index prev_round) (ucast prev_round_batch_size);
        Some (unat head mod length (co_rounds c), height, data_index)
      })"

definition start_round_train :: "u64 \<Rightarrow> u64 \<Rightarrow> u16 \<Rightarrow> 'id coordinator \<Rightarrow> 'id coordinator option" where
  "start_round_train unix_timestamp random_seed tie_breaker_tasks c =
     do {
       (next_rounds_head, next_height, next_data_index) \<leftarrow> next_round c;
       rnd \<leftarrow> nth_opt (co_rounds c) next_rounds_head;
       let rnd' = rnd\<lparr>r_clients_len := of_nat (length (co_clients c)), r_height := next_height,
                      r_data_index := next_data_index, r_tie_breaker_tasks := tie_breaker_tasks,
                      r_random_seed := random_seed, r_witnesses := []\<rparr>;
       change_state unix_timestamp RoundTrain
         (set_epoch (\<lambda>es. es\<lparr>es_rounds_head := of_nat next_rounds_head,
                             es_rounds := (es_rounds es)[next_rounds_head := rnd']\<rparr>) c)
     }"

definition start_warmup :: "u64 \<Rightarrow> 'id coordinator \<Rightarrow> 'id coordinator option" where
  "start_warmup unix_timestamp c = change_state unix_timestamp Warmup c"

definition start_waiting_for_members :: "u64 \<Rightarrow> 'id coordinator \<Rightarrow> 'id coordinator option" where
  "start_waiting_for_members unix_timestamp c =
     change_state unix_timestamp
       (if co_step c < total_steps (co_config c) then WaitingForMembers else Finished) c"

text \<open>The closure \<open>move_clients_to_exited\<close> passes to \<open>retain\<close>; \<open>None\<close> is the panic of the full vector.\<close>

definition exit_client ::
    "u32 \<Rightarrow> 'id client list option \<Rightarrow> 'id client \<Rightarrow> bool \<times> 'id client list option" where
  "exit_client height exited x =
     (if cl_state x \<noteq> Healthy
      then (False, do {
              exited \<leftarrow> exited;
              exited \<leftarrow> cap_push SOLANA_MAX_NUM_CLIENTS x exited;
              Some (butlast exited @ [(last exited)\<lparr>cl_exited_height := height\<rparr>])
            })
      else (True, exited))"

definition move_clients_to_exited :: "u32 \<Rightarrow> 'id coordinator \<Rightarrow> 'id coordinator option" where
  "move_clients_to_exited height c =
     (case retain_list (exit_client height) (Some (co_exited c)) (co_clients c) of
        (clients, exited) \<Rightarrow>
          map_option (\<lambda>exited. set_epoch (\<lambda>es. es\<lparr>es_clients := clients, es_exited_clients := exited\<rparr>) c) exited)"

section \<open>Witnesses\<close>

definition witness_nodes_of :: "'id coordinator \<Rightarrow> nat" where
  "witness_nodes_of c =
     (if witness_nodes (co_config c) = 0 then min (length (co_clients c)) SOLANA_MAX_NUM_WITNESSES
      else unat (witness_nodes (co_config c)))"

text \<open>The loop over the witnesses recorded so far: has \<open>from\<close> already sent one?\<close>

fun already_witnessed :: "'id node_env \<Rightarrow> 'id \<Rightarrow> 'id client list \<Rightarrow> witness list \<Rightarrow> bool option" where
  "already_witnessed E from clients [] = Some False"
| "already_witnessed E from clients (w # ws) =
     (case nth_opt clients (unat (wp_index (w_proof w))) of
        None \<Rightarrow> None
      | Some client \<Rightarrow> (if ne_eq E (cl_id client) from then Some True
                        else already_witnessed E from clients ws))"

text \<open>Pushing a witness onto the current round: the number of witnesses afterwards.\<close>

definition push_witness :: "witness \<Rightarrow> 'id coordinator \<Rightarrow> ('id, nat) co_exec" where
  "push_witness w c =
     need (current_round_unchecked c) (\<lambda>rnd.
       case cap_push SOLANA_MAX_NUM_WITNESSES w (r_witnesses rnd) of
         None \<Rightarrow> Fail c WitnessesFull
       | Some ws \<Rightarrow> need (current_round_mut_unchecked (r_witnesses_update (\<lambda>_. ws)) c) (\<lambda>c.
           Done c (length ws)))"

definition warmup_witness ::
    "'id node_env \<Rightarrow> 'id \<Rightarrow> witness \<Rightarrow> u64 \<Rightarrow> u64 \<Rightarrow> 'id coordinator \<Rightarrow> ('id, unit) co_exec" where
  "warmup_witness E from w unix_timestamp random_seed c =
     (if halted c then Fail c Halted
      else if co_run_state c = RoundTrain then Done c ()
      else if co_run_state c \<noteq> Warmup then Fail c InvalidRunState
      else need (current_round c) (\<lambda>rnd.
        need (already_witnessed E from (co_clients c) (r_witnesses rnd)) (\<lambda>dup.
        if dup then Fail c DuplicateWitness
        else and_then (push_witness w c) (\<lambda>c' n.
          if n = witness_nodes_of c
          then need (start_round_train unix_timestamp random_seed 0 c') (\<lambda>c'. Done c' ())
          else Done c' ()))))"

definition witness ::
    "'id node_env \<Rightarrow> 'id \<Rightarrow> witness \<Rightarrow> u64 \<Rightarrow> 'id coordinator \<Rightarrow> ('id, unit) co_exec" where
  "witness E from w unix_timestamp c =
     (if halted c then Fail c Halted
      else if co_run_state c \<notin> {RoundWitness, RoundTrain} then Fail c InvalidRunState
      else need (from_coordinator E c 0) (\<lambda>sel.
        case sel of
          Inl e \<Rightarrow> Fail c e
        | Inr selection \<Rightarrow>
            need (verify_witness_for_client E selection from (w_proof w) (co_clients c)) (\<lambda>ok.
            if \<not> ok \<or> sb_is_false (wp_witness (w_proof w)) then Fail c InvalidWitness
            else need (current_round c) (\<lambda>rnd.
              need (already_witnessed E from (co_clients c) (r_witnesses rnd)) (\<lambda>dup.
              if dup then Fail c DuplicateWitness
              else and_then (push_witness w c) (\<lambda>c' n.
                if n = witness_nodes_of c \<and> co_run_state c' \<noteq> RoundWitness
                then need (change_state unix_timestamp RoundWitness c') (\<lambda>c'. Done c' ())
                else Done c' ()))))))"

section \<open>Health\<close>

fun score_loop :: "'e externs_scheme \<Rightarrow> bytes \<Rightarrow> witness list \<Rightarrow> u16 \<Rightarrow> u16 option" where
  "score_loop X h [] score = Some score"
| "score_loop X h (w # ws) score =
     do {
       b \<leftarrow> bloom_contains X (w_participant_bloom w) h;
       score \<leftarrow> (if b then checked_add score 1 else Some score);
       score_loop X h ws score
     }"

definition trainer_healthy_score_by_witnesses :: "'id node_env \<Rightarrow> 'id \<Rightarrow> witness list \<Rightarrow> u16 option" where
  "trainer_healthy_score_by_witnesses E i ws = score_loop E (x_sha256 E (ne_as_ref E i)) ws 0"

definition trainer_healthy :: "'id node_env \<Rightarrow> 'id \<Rightarrow> 'id coordinator \<Rightarrow> (coordinator_error + bool) option" where
  "trainer_healthy E i c =
     (case previous_round c of
        None \<Rightarrow> Some (Inl NoActiveRound)
      | Some r \<Rightarrow> do {
          score \<leftarrow> trainer_healthy_score_by_witnesses E i (r_witnesses r);
          quorum \<leftarrow> witness_quorum (of_nat (length (r_witnesses r))) c;
          Some (Inr (quorum \<le> score))
        })"

definition healthy ::
    "'id node_env \<Rightarrow> 'id \<Rightarrow> committee_proof \<Rightarrow> 'id coordinator \<Rightarrow> (coordinator_error + bool) option" where
  "healthy E i proof c =
     (case previous_round c of
        None \<Rightarrow> Some (Inl NoActiveRound)
      | Some r \<Rightarrow>
          (if cp_index proof < ucast (r_clients_len r)
           then (case get_client_at_historical_index (unat (cp_index proof)) (r_clients_len r) c of
                   None \<Rightarrow> Some (Inl InvalidCommitteeProof)
                 | Some client \<Rightarrow> do {
                     sel \<leftarrow> from_coordinator E c (-1);
                     case sel of
                       Inl e \<Rightarrow> Some (Inl e)
                     | Inr selection \<Rightarrow> do {
                         ok \<leftarrow> (if \<not> ne_eq E (cl_id client) i then Some False
                               else verify_committee_for_client E selection (cl_id client) proof (co_clients c));
                         if \<not> ok then Some (Inl InvalidCommitteeProof)
                         else (case cp_committee proof of
                                 TieBreaker \<Rightarrow> None
                               | Verifier \<Rightarrow> None
                               | Trainer \<Rightarrow> trainer_healthy E (cl_id client) c)
                       }
                   })
           else Some (Inl InvalidCommitteeProof)))"

text \<open>The two loops of \<open>health_check\<close>.\<close>

fun check_unhealthy ::
    "'id node_env \<Rightarrow> ('id \<times> committee_proof) list \<Rightarrow> 'id coordinator \<Rightarrow> ('id, unit) co_exec" where
  "check_unhealthy E [] c = Done c ()"
| "check_unhealthy E ((i, proof) # checks) c =
     need (healthy E i proof c) (\<lambda>r.
       case r of
         Inl e \<Rightarrow> Fail c e
       | Inr b \<Rightarrow> (if b then Fail c InvalidHealthCheck else check_unhealthy E checks c))"

fun drop_clients ::
    "('id \<times> committee_proof) list \<Rightarrow> 'id client list \<Rightarrow> u32 \<Rightarrow> ('id client list \<times> u32) option" where
  "drop_clients [] clients dropped = Some (clients, dropped)"
| "drop_clients ((i, proof) # checks) clients dropped =
     do {
       client \<leftarrow> nth_opt clients (unat (cp_index proof));
       if cl_state client = Healthy
       then do {
         dropped \<leftarrow> checked_add dropped 1;
         drop_clients checks (clients[unat (cp_index proof) := client\<lparr>cl_state := Dropped\<rparr>]) dropped
       }
       else drop_clients checks clients dropped
     }"

definition health_check ::
    "'id node_env \<Rightarrow> 'id \<Rightarrow> ('id \<times> committee_proof) list \<Rightarrow> 'id coordinator \<Rightarrow> ('id, u32) co_exec" where
  "health_check E from checks c =
     (if halted c then Fail c Halted
      else (case current_round c of
              None \<Rightarrow> Fail c NoActiveRound
            | Some r \<Rightarrow>
                (if r_height r < 2 then Fail c InvalidHealthCheck
                 else and_then (check_unhealthy E checks c) (\<lambda>c _.
                   need (drop_clients checks (co_clients c) 0) (\<lambda>(clients, dropped).
                     Done (set_epoch (es_clients_update (\<lambda>_. clients)) c) dropped)))))"

text \<open>
  \<open>select_consensus_commitment_by_witnesses\<close>: each witness votes for the first commitment its broadcast
  filter contains; among the commitments with at least the quorum the last with the most votes wins.
\<close>

fun first_seen :: "'e externs_scheme \<Rightarrow> bloom \<Rightarrow> nat \<Rightarrow> commitment list \<Rightarrow> nat option option" where
  "first_seen X b i [] = Some None"
| "first_seen X b i (cm # cms) =
     do {
       hit \<leftarrow> bloom_contains X b (cm_data_hash cm);
       if hit then Some (Some i) else first_seen X b (Suc i) cms
     }"

fun vote_loop :: "'e externs_scheme \<Rightarrow> commitment list \<Rightarrow> witness list \<Rightarrow> u16 list \<Rightarrow> u16 list option" where
  "vote_loop X cms [] scores = Some scores"
| "vote_loop X cms (w # ws) scores =
     do {
       v \<leftarrow> first_seen X (w_broadcast_bloom w) 0 cms;
       scores \<leftarrow> (case v of
                    None \<Rightarrow> Some scores
                  | Some i \<Rightarrow> do {
                      s \<leftarrow> nth_opt scores i;
                      s \<leftarrow> checked_add s 1;
                      Some (scores[i := s])
                    });
       vote_loop X cms ws scores
     }"

fun max_by_key :: "('a \<Rightarrow> 'k::linorder) \<Rightarrow> 'a list \<Rightarrow> 'a option" where
  "max_by_key f [] = None"
| "max_by_key f (x # xs) =
     (case max_by_key f xs of
        None \<Rightarrow> Some x
      | Some y \<Rightarrow> Some (if f x \<le> f y then y else x))"

definition select_consensus_commitment_by_witnesses ::
    "'e externs_scheme \<Rightarrow> commitment list \<Rightarrow> witness list \<Rightarrow> u16 \<Rightarrow> nat option option" where
  "select_consensus_commitment_by_witnesses X commitments witnesses quorum =
     do {
       scores \<leftarrow> vote_loop X commitments witnesses (replicate (length commitments) 0);
       Some (map_option fst
               (max_by_key snd (filter (\<lambda>(_, score). quorum \<le> score) (enumerate 0 scores))))
     }"

section \<open>Leaving, pausing, checkpoints\<close>

definition checkpoint_repo :: "hub_repo \<Rightarrow> checkpoint \<Rightarrow> checkpoint" where
  "checkpoint_repo repo ck = (case ck of P2P _ \<Rightarrow> P2P repo | Hub _ \<Rightarrow> Hub repo | _ \<Rightarrow> ck)"

abbreviation set_checkpoint :: "(checkpoint \<Rightarrow> checkpoint) \<Rightarrow> 'id coordinator \<Rightarrow> 'id coordinator" where
  "set_checkpoint f c \<equiv> c\<lparr>co_model := LLM (llm_checkpoint_update f (the_llm (co_model c)))\<rparr>"

definition checkpoint :: "'id node_env \<Rightarrow> 'id \<Rightarrow> u64 \<Rightarrow> hub_repo \<Rightarrow> 'id coordinator \<Rightarrow> ('id, unit) co_exec" where
  "checkpoint E from index repo c =
     (case nth_opt (co_clients c) (unat index) of
        None \<Rightarrow> Fail c InvalidCommitteeProof
      | Some client \<Rightarrow>
          (if \<not> ne_eq E (cl_id client) from then Fail c InvalidCommitteeProof
           else Done (set_checkpoint (checkpoint_repo repo) c) ()))"

definition withdraw :: "u64 \<Rightarrow> 'id coordinator \<Rightarrow> ('id, unit) co_exec" where
  "withdraw index c =
     (case nth_opt (co_clients c) (unat index) of
        Some client \<Rightarrow>
          (if cl_state client = Healthy
           then Done (set_epoch (es_clients_update
                        (\<lambda>cs. cs[unat index := client\<lparr>cl_state := Withdrawn\<rparr>])) c) ()
           else Fail c InvalidWithdraw)
      | None \<Rightarrow> Fail c InvalidWithdraw)"

fun withdraw_each :: "nat list \<Rightarrow> 'id coordinator \<Rightarrow> ('id, unit) co_exec" where
  "withdraw_each [] c = Done c ()"
| "withdraw_each (i # js) c = and_then (withdraw (of_nat i) c) (\<lambda>c _. withdraw_each js c)"

definition withdraw_all :: "'id coordinator \<Rightarrow> ('id, unit) co_exec" where
  "withdraw_all c =
     (if co_clients c \<noteq> [] then withdraw_each [0..<length (co_clients c)] c else Done c ())"

definition pause :: "u64 \<Rightarrow> 'id coordinator \<Rightarrow> ('id, unit) co_exec" where
  "pause unix_timestamp c =
     (if \<not> halted c
      then (if active c then Done (c\<lparr>co_pending_pause := sb_new True\<rparr>) ()
            else and_then (withdraw_all c) (\<lambda>c _.
              need (change_state unix_timestamp Paused c) (\<lambda>c.
                Done (set_epoch (es_cold_start_epoch_update (\<lambda>_. sb_new True)) c) ())))
      else Fail c Halted)"

definition resume :: "u64 \<Rightarrow> 'id coordinator \<Rightarrow> ('id, unit) co_exec" where
  "resume unix_timestamp c =
     (if co_run_state c \<noteq> Paused then Fail c CannotResume
      else need (start_waiting_for_members unix_timestamp c) (\<lambda>c. Done c ()))"

section \<open>Ticks\<close>

definition p2p_to_hub :: "checkpoint \<Rightarrow> checkpoint" where
  "p2p_to_hub ck = (case ck of P2P repo \<Rightarrow> Hub repo | _ \<Rightarrow> ck)"

definition hub_to_p2p :: "checkpoint \<Rightarrow> checkpoint" where
  "hub_to_p2p ck = (case ck of Hub repo \<Rightarrow> P2P repo | CkDummy repo \<Rightarrow> P2P repo | _ \<Rightarrow> ck)"

text \<open>The epoch state a new epoch starts from; \<open>None\<close> is the \<open>unwrap\<close> of the full vector.\<close>

definition new_epoch :: "'id list \<Rightarrow> u64 \<Rightarrow> 'id coordinator \<Rightarrow> 'id coordinator option" where
  "new_epoch pending_clients unix_timestamp c =
     do {
       clients \<leftarrow> cap_extend SOLANA_MAX_NUM_CLIENTS
                    (map client_new (take SOLANA_MAX_NUM_CLIENTS pending_clients)) [];
       Some (set_epoch (\<lambda>es. zero_epoch_state\<lparr>es_first_round := sb_new True,
               es_cold_start_epoch := es_cold_start_epoch es, es_start_step := co_step c,
               es_start_timestamp := unix_timestamp, es_clients := clients\<rparr>) c)
     }"

definition tick_waiting_for_members ::
    "'id node_env \<Rightarrow> 'id list option \<Rightarrow> u64 \<Rightarrow> 'id coordinator \<Rightarrow> ('id, tick_result) co_exec" where
  "tick_waiting_for_members E pending unix_timestamp c =
     (case pending of
        None \<Rightarrow> Done c Ticked
      | Some pending_clients \<Rightarrow>
          need (if init_min_clients (co_config c) \<le> of_nat (length pending_clients)
                then check_timeout unix_timestamp (ucast (waiting_for_members_extra_time (co_config c))) c
                else Some False) (\<lambda>go.
          if go then
            need (current_round_unchecked c) (\<lambda>rnd.
            need (move_clients_to_exited (r_height rnd) c) (\<lambda>c.
            let all_prev_clients_disconnected =
                  \<not> list_ex (\<lambda>client. list_ex (\<lambda>p. ne_eq E p (cl_id client)) pending_clients) (co_clients c);
                c = (if all_prev_clients_disconnected then set_checkpoint p2p_to_hub c else c)
            in need (new_epoch pending_clients unix_timestamp c) (\<lambda>c.
               need (start_warmup unix_timestamp c) (\<lambda>c. Done c Ticked))))
          else Done c Ticked))"

definition tick_warmup :: "u64 \<Rightarrow> u64 \<Rightarrow> 'id coordinator \<Rightarrow> ('id, tick_result) co_exec" where
  "tick_warmup unix_timestamp random_seed c =
     need (check_timeout unix_timestamp (warmup_time (co_config c)) c) (\<lambda>timeout.
     need (if timeout then start_round_train unix_timestamp random_seed 0 c
           else move_clients_to_exited 0 c) (\<lambda>c.
     if (of_nat (length (co_clients c)) :: u16) < min_clients (co_config c)
     then need (start_waiting_for_members unix_timestamp c) (\<lambda>c. Done c (EpochEnd False))
     else Done c Ticked))"

definition tick_round_train :: "u64 \<Rightarrow> 'id coordinator \<Rightarrow> ('id, tick_result) co_exec" where
  "tick_round_train unix_timestamp c =
     need (check_timeout unix_timestamp (max_round_train_time (co_config c)) c) (\<lambda>timeout.
     if timeout then need (change_state unix_timestamp RoundWitness c) (\<lambda>c. Done c Ticked)
     else Done c Ticked)"

text \<open>The block that fixes the last step of the epoch once its time is over.\<close>

definition set_last_step :: "u64 \<Rightarrow> 'id coordinator \<Rightarrow> 'id coordinator option" where
  "set_last_step unix_timestamp c =
     do {
       over \<leftarrow> check_epoch_timeout unix_timestamp c;
       if over \<and> \<not> last_step_set (co_epoch_state c)
       then do {
         last_step \<leftarrow> checked_add (co_step c) 2;
         Some (if 4 \<le> last_step then set_epoch (es_last_step_update (\<lambda>_. last_step)) c else c)
       }
       else Some c
     }"

text \<open>The condition that ends the epoch after a round; \<open>witness_quorum\<close> is not called when \<open>||\<close> stops before it.\<close>

definition epoch_over :: "u16 \<Rightarrow> 'id coordinator \<Rightarrow> bool option" where
  "epoch_over num_witnesses c =
     (if length (co_clients c) < unat (min_clients (co_config c)) then Some True
      else do {
        quorum \<leftarrow> witness_quorum num_witnesses c;
        Some (num_witnesses < quorum \<or> total_steps (co_config c) \<le> co_step c \<or> sb_is_true (co_pending_pause c))
      })"

text \<open>The end of a round, once its clients are sorted out: cool down or start the next round.\<close>

definition end_of_round :: "u64 \<Rightarrow> u64 \<Rightarrow> u16 \<Rightarrow> 'id coordinator \<Rightarrow> ('id, tick_result) co_exec" where
  "end_of_round unix_timestamp random_seed num_witnesses c =
     (if num_witnesses = 0
      then and_then (withdraw_all c) (\<lambda>c _. need (start_cooldown unix_timestamp c) (\<lambda>c. Done c Ticked))
      else need (set_last_step unix_timestamp c) (\<lambda>c.
        if last_step_set (co_epoch_state c) \<and> co_step c = es_last_step (co_epoch_state c)
        then need (start_cooldown unix_timestamp c) (\<lambda>c. Done c Ticked)
        else need (epoch_over num_witnesses c) (\<lambda>over.
          if over then need (start_cooldown unix_timestamp c) (\<lambda>c. Done c Ticked)
          else need (start_round_train unix_timestamp random_seed 0 c) (\<lambda>c. Done c Ticked))))"

definition tick_round_witness :: "u64 \<Rightarrow> u64 \<Rightarrow> 'id coordinator \<Rightarrow> ('id, tick_result) co_exec" where
  "tick_round_witness unix_timestamp random_seed c =
     need (check_timeout unix_timestamp (round_witness_time (co_config c)) c) (\<lambda>timeout.
     if timeout then
       need (checked_add (co_step c) 1) (\<lambda>next_step.
       let c = set_progress (pr_step_update (\<lambda>_. next_step))
                 (set_epoch (es_first_round_update (\<lambda>_. sb_new False)) c)
       in need (current_round_unchecked c) (\<lambda>current.
       let num_witnesses = (of_nat (length (r_witnesses current)) :: u16)
       in need (move_clients_to_exited (r_height current) c) (\<lambda>c.
          end_of_round unix_timestamp random_seed num_witnesses c)))
     else Done c Ticked)"

text \<open>The bookkeeping of a finished epoch, before the coordinator pauses or waits for members again.\<close>

definition finish_epoch :: "'id coordinator \<Rightarrow> 'id coordinator option" where
  "finish_epoch c =
     do {
       last_round_batch_size \<leftarrow> get_target_global_batch_size (current_round c) c;
       rnd \<leftarrow> current_round_unchecked c;
       data_index \<leftarrow> checked_add (r_data_index rnd) (ucast last_round_batch_size);
       epoch \<leftarrow> checked_add (pr_epoch (co_progress c)) 1;
       let c = set_progress (\<lambda>p. p\<lparr>pr_epoch_start_data_index := data_index, pr_epoch := epoch\<rparr>) c;
       c \<leftarrow> move_clients_to_exited (r_height rnd) c;
       Some (set_checkpoint hub_to_p2p c)
     }"

definition tick_cooldown :: "u64 \<Rightarrow> 'id coordinator \<Rightarrow> ('id, tick_result) co_exec" where
  "tick_cooldown unix_timestamp c =
     need (check_timeout unix_timestamp (cooldown_time (co_config c)) c) (\<lambda>timeout.
     if timeout then
       need (finish_epoch c) (\<lambda>c.
       if sb_is_true (co_pending_pause c)
       then and_then (withdraw_all c) (\<lambda>c _.
              need (change_state unix_timestamp Paused c) (\<lambda>c.
                Done (set_epoch (es_cold_start_epoch_update (\<lambda>_. sb_new True))
                        (c\<lparr>co_pending_pause := sb_new False\<rparr>)) (EpochEnd True)))
       else need (start_waiting_for_members unix_timestamp c) (\<lambda>c.
              Done (set_epoch (es_cold_start_epoch_update (\<lambda>_. sb_new False)) c) (EpochEnd True)))
     else Done c Ticked)"

definition tick ::
    "'id node_env \<Rightarrow> 'id list option \<Rightarrow> u64 \<Rightarrow> u64 \<Rightarrow> 'id coordinator \<Rightarrow> ('id, tick_result) co_exec" where
  "tick E new_clients unix_timestamp random_seed c =
     (case co_run_state c of
        WaitingForMembers \<Rightarrow> tick_waiting_for_members E new_clients unix_timestamp c
      | Warmup \<Rightarrow> tick_warmup unix_timestamp random_seed c
      | RoundTrain \<Rightarrow> tick_round_train unix_timestamp c
      | RoundWitness \<Rightarrow> tick_round_witness unix_timestamp random_seed c
      | Cooldown \<Rightarrow> tick_cooldown unix_timestamp c
      | _ \<Rightarrow> Fail c Halted)"

section \<open>Commands\<close>

text \<open>What the owners of a coordinator call: each command is one public method with its arguments.\<close>

datatype 'id co_cmd =
    CmdTick "'id list option" u64 u64
  | CmdWarmupWitness 'id witness u64 u64
  | CmdWitness 'id witness u64
  | CmdHealthCheck 'id "('id \<times> committee_proof) list"
  | CmdCheckpoint 'id u64 hub_repo
  | CmdWithdraw u64
  | CmdWithdrawAll
  | CmdPause u64
  | CmdResume u64

datatype co_answer = AnsUnit | AnsTick tick_result | AnsDropped u32

fun co_exec :: "'id node_env \<Rightarrow> 'id co_cmd \<Rightarrow> 'id coordinator \<Rightarrow> ('id, co_answer) co_exec" where
  "co_exec E (CmdTick new t seed) c = and_then (tick E new t seed c) (\<lambda>c r. Done c (AnsTick r))"
| "co_exec E (CmdWarmupWitness i w t seed) c = and_then (warmup_witness E i w t seed c) (\<lambda>c _. Done c AnsUnit)"
| "co_exec E (CmdWitness i w t) c = and_then (witness E i w t c) (\<lambda>c _. Done c AnsUnit)"
| "co_exec E (CmdHealthCheck i checks) c = and_then (health_check E i checks c) (\<lambda>c n. Done c (AnsDropped n))"
| "co_exec E (CmdCheckpoint i n repo) c = and_then (checkpoint E i n repo c) (\<lambda>c _. Done c AnsUnit)"
| "co_exec E (CmdWithdraw n) c = and_then (withdraw n c) (\<lambda>c _. Done c AnsUnit)"
| "co_exec E CmdWithdrawAll c = and_then (withdraw_all c) (\<lambda>c _. Done c AnsUnit)"
| "co_exec E (CmdPause t) c = and_then (pause t c) (\<lambda>c _. Done c AnsUnit)"
| "co_exec E (CmdResume t) c = and_then (resume t c) (\<lambda>c _. Done c AnsUnit)"

end
