(* ===== verification/Coordinator_Inv.thy ===== *)
theory Coordinator_Inv
  imports Coordinator
begin

text \<open>
  The invariant of the coordinator and its preservation by every command: the ring buffer of rounds, the
  capacities of the client and witness vectors, what each run state says about clients, steps and data,
  and that every recorded witness was elected. One lemma per helper and per tick handler; the commands
  then form a \<open>guarded_component\<close>, whose facts carry the invariant along every run.
\<close>

section \<open>The invariant\<close>

text \<open>The data index after \<open>n\<close> completed steps, in unbounded arithmetic: the reference for the code's bookkeeping.\<close>

fun data_index_at :: "coordinator_config \<Rightarrow> u32 \<Rightarrow> nat \<Rightarrow> nat" where
  "data_index_at cfg sl 0 = 0"
| "data_index_at cfg sl (Suc n) =
     data_index_at cfg sl n + unat (get_batch_size cfg (of_nat (data_index_at cfg sl n * unat sl)))"

abbreviation data_after :: "'id coordinator \<Rightarrow> nat \<Rightarrow> nat" where
  "data_after c n \<equiv> data_index_at (co_config c) (get_sequence_length c) n"

abbreviation steps_done :: "'id coordinator \<Rightarrow> nat" where
  "steps_done c \<equiv> unat (co_step c) - 1"

text \<open>The round stored for height \<open>h\<close>.\<close>

definition ring_round :: "'id coordinator \<Rightarrow> nat \<Rightarrow> round" where
  "ring_round c h = co_rounds c ! (h mod NUM_STORED_ROUNDS)"

definition ring_ok :: "'id coordinator \<Rightarrow> nat \<Rightarrow> bool" where
  "ring_ok c h \<longleftrightarrow> co_head c = h mod NUM_STORED_ROUNDS \<and>
     (\<forall>k < NUM_STORED_ROUNDS. k \<le> h \<longrightarrow> unat (r_height (ring_round c (h - k))) = h - k)"

text \<open>A recorded witness: it was verified against the current committee, and its index is a client.\<close>

definition witness_ok :: "'id node_env \<Rightarrow> 'id coordinator \<Rightarrow> witness \<Rightarrow> bool" where
  "witness_ok E c w \<longleftrightarrow>
     (\<exists>s. from_coordinator E c 0 = Some (Inr s) \<and> verify_witness E s (w_proof w) = Some True) \<and>
     sb_is_true (wp_witness (w_proof w)) \<and> unat (wp_index (w_proof w)) < length (co_clients c)"

definition co_base :: "'id coordinator \<Rightarrow> bool" where
  "co_base c \<longleftrightarrow> length (co_rounds c) = NUM_STORED_ROUNDS \<and> co_head c < NUM_STORED_ROUNDS \<and>
     length (co_clients c) + length (co_exited c) \<le> SOLANA_MAX_NUM_CLIENTS \<and>
     (\<forall>x \<in> set (co_exited c). cl_state x \<noteq> Healthy) \<and>
     (\<forall>r \<in> set (co_rounds c). length (r_witnesses r) \<le> SOLANA_MAX_NUM_WITNESSES)"

definition at_rest :: "'id coordinator \<Rightarrow> bool" where
  "at_rest c \<longleftrightarrow> unat (pr_epoch_start_data_index (co_progress c)) = data_after c (steps_done c)"

definition round_ok :: "'id node_env \<Rightarrow> 'id coordinator \<Rightarrow> round \<Rightarrow> bool" where
  "round_ok E c r \<longleftrightarrow>
     unat (r_clients_len r) = length (co_clients c) \<and>
     unat (co_step c) = unat (es_start_step (co_epoch_state c)) + unat (r_height r) \<and>
     (sb_is_true (es_first_round (co_epoch_state c)) \<longleftrightarrow> r_height r = 0) \<and>
     ring_ok c (unat (r_height r)) \<and>
     unat (r_data_index r) = data_after c (steps_done c) \<and>
     r_tie_breaker_tasks r = 0 \<and>
     distinct (map (\<lambda>w. wp_index (w_proof w)) (r_witnesses r)) \<and>
     (\<forall>w \<in> set (r_witnesses r). witness_ok E c w)"

definition train_ok :: "'id node_env \<Rightarrow> 'id coordinator \<Rightarrow> bool" where
  "train_ok E c \<longleftrightarrow> co_step c < total_steps (co_config c) \<and>
     unat (min_clients (co_config c)) \<le> length (co_clients c) \<and>
     (case current_round c of None \<Rightarrow> False | Some r \<Rightarrow> round_ok E c r)"

definition cool_ok :: "'id coordinator \<Rightarrow> bool" where
  "cool_ok c \<longleftrightarrow> 1 \<le> steps_done c \<and>
     (case current_round c of None \<Rightarrow> False
      | Some r \<Rightarrow> unat (r_data_index r) = data_after c (steps_done c - 1))"

definition warm_ok :: "'id coordinator \<Rightarrow> bool" where
  "warm_ok c \<longleftrightarrow> at_rest c \<and> co_step c < total_steps (co_config c) \<and>
     sb_is_true (es_first_round (co_epoch_state c)) \<and> es_start_step (co_epoch_state c) = co_step c \<and>
     unat (min_clients (co_config c)) \<le> length (co_clients c)"

definition phase_ok :: "'id node_env \<Rightarrow> 'id coordinator \<Rightarrow> bool" where
  "phase_ok E c \<longleftrightarrow>
     (case co_run_state c of
        WaitingForMembers \<Rightarrow> at_rest c \<and> co_step c < total_steps (co_config c)
      | Warmup \<Rightarrow> warm_ok c
      | RoundTrain \<Rightarrow> train_ok E c
      | RoundWitness \<Rightarrow> train_ok E c
      | Cooldown \<Rightarrow> cool_ok c
      | Finished \<Rightarrow> at_rest c \<and> total_steps (co_config c) \<le> co_step c
      | Paused \<Rightarrow> at_rest c
      | Uninitialized \<Rightarrow> at_rest c)"

definition co_inv :: "'id node_env \<Rightarrow> 'id coordinator \<Rightarrow> bool" where
  "co_inv E c \<longleftrightarrow> config_check (co_config c) \<and> progress_check (co_progress c) \<and> co_base c \<and> phase_ok E c"

lemmas inv_defs = co_inv_def co_base_def phase_ok_def train_ok_def cool_ok_def warm_ok_def round_ok_def
  at_rest_def witness_ok_def ring_ok_def ring_round_def

section \<open>Frames: what an invariant depends on\<close>

lemma from_coordinator_cong:
  "co_rounds c = co_rounds c' \<Longrightarrow> es_rounds_head (co_epoch_state c) = es_rounds_head (co_epoch_state c') \<Longrightarrow>
   co_config c = co_config c' \<Longrightarrow> from_coordinator E c n = from_coordinator E c' n"
  by (simp add: from_coordinator_def previous_round_def previous_previous_round_def current_round_def
    cong: option.case_cong if_cong)

lemma current_round_cong:
  "co_rounds c = co_rounds c' \<Longrightarrow> es_rounds_head (co_epoch_state c) = es_rounds_head (co_epoch_state c') \<Longrightarrow>
   current_round c = current_round c'"
  by (simp add: current_round_def)

text \<open>Everything the invariant reads apart from the clients and the run state.\<close>

definition same_core :: "'id coordinator \<Rightarrow> 'id coordinator \<Rightarrow> bool" where
  "same_core c c' \<longleftrightarrow> co_config c' = co_config c \<and> get_sequence_length c' = get_sequence_length c \<and>
     co_progress c' = co_progress c \<and> co_rounds c' = co_rounds c \<and>
     es_rounds_head (co_epoch_state c') = es_rounds_head (co_epoch_state c) \<and>
     es_start_step (co_epoch_state c') = es_start_step (co_epoch_state c) \<and>
     es_first_round (co_epoch_state c') = es_first_round (co_epoch_state c)"

lemma same_core_refl [simp]: "same_core c c"
  by (simp add: same_core_def)

lemma same_core_trans: "same_core a b \<Longrightarrow> same_core b c \<Longrightarrow> same_core a c"
  by (simp add: same_core_def)

lemma same_core_current: "same_core c c' \<Longrightarrow> current_round c' = current_round c"
  by (simp add: same_core_def current_round_def)

lemma same_core_from: "same_core c c' \<Longrightarrow> from_coordinator E c' n = from_coordinator E c n"
  by (rule from_coordinator_cong) (simp_all add: same_core_def)

lemma same_core_frames:
  assumes "same_core c c'"
  shows "at_rest c' = at_rest c" and "cool_ok c' = cool_ok c" and "ring_ok c' h = ring_ok c h"
  using assms
  by (simp_all add: same_core_def at_rest_def cool_ok_def ring_ok_def ring_round_def current_round_def
    cong: option.case_cong)

lemma same_core_train:
  assumes "same_core c c'" and "length (co_clients c') = length (co_clients c)"
  shows "train_ok E c' = train_ok E c" and "warm_ok c' = warm_ok c"
proof -
  have w: "witness_ok E c' w = witness_ok E c w" for w
    using assms by (simp add: witness_ok_def same_core_from)
  have r: "round_ok E c' r = round_ok E c r" for r
    unfolding round_ok_def w same_core_frames(3) [OF assms(1)]
    using assms by (simp add: same_core_def)
  have cfg: "co_config c' = co_config c" "co_progress c' = co_progress c"
    using assms by (simp_all add: same_core_def)
  show "train_ok E c' = train_ok E c"
    unfolding train_ok_def r same_core_current [OF assms(1)] assms(2) cfg ..
  show "warm_ok c' = warm_ok c"
    unfolding warm_ok_def same_core_frames(1) [OF assms(1)] using assms by (simp add: same_core_def)
qed

lemma same_core_phase:
  assumes "same_core c c'" and "length (co_clients c') = length (co_clients c)"
    and "co_run_state c' = co_run_state c"
  shows "phase_ok E c' = phase_ok E c"
  unfolding phase_ok_def same_core_train [OF assms(1,2)] same_core_frames(1,2) [OF assms(1)] assms(3)
  using assms(1) by (cases "co_run_state c") (simp_all add: same_core_def)

lemma same_core_inv:
  assumes "co_inv E c" and "same_core c c'" and "length (co_clients c') = length (co_clients c)"
    and "co_run_state c' = co_run_state c" and "co_exited c' = co_exited c"
  shows "co_inv E c'"
  using assms(1,2,3,5) same_core_phase [OF assms(2-4), of E]
  by (simp add: co_inv_def co_base_def same_core_def)

lemma get_sequence_length_checkpoint [simp]:
  "get_sequence_length (set_checkpoint f c) = get_sequence_length c"
  by (simp add: get_sequence_length_def)

lemma get_sequence_length_model:
  "co_model c' = co_model c \<Longrightarrow> get_sequence_length c' = get_sequence_length c"
  by (simp add: get_sequence_length_def)

section \<open>Helpers\<close>

lemma change_state_Some:
  "change_state t s c = Some c' \<longleftrightarrow>
     co_run_state c \<noteq> s \<and> c' = c\<lparr>co_run_state_start := t, co_run_state := s\<rparr>"
  by (auto simp: change_state_def)

lemma change_state_None: "change_state t s c = None \<longleftrightarrow> co_run_state c = s"
  by (auto simp: change_state_def)

lemma set_state_same_core: "same_core c (c\<lparr>co_run_state_start := t, co_run_state := s\<rparr>)"
  by (simp add: same_core_def get_sequence_length_def)

text \<open>Moving clients out never panics: the two vectors together hold at most 256 clients.\<close>

lemma retain_exit:
  assumes "length xs + length ex \<le> SOLANA_MAX_NUM_CLIENTS"
  shows "retain_list (exit_client h) (Some ex) xs =
    (filter (\<lambda>x. cl_state x = Healthy) xs,
     Some (ex @ map (cl_exited_height_update (\<lambda>_. h)) (filter (\<lambda>x. cl_state x \<noteq> Healthy) xs)))"
  using assms
proof (induction xs arbitrary: ex)
  case Nil
  then show ?case by simp
next
  case (Cons x xs)
  show ?case
  proof (cases "cl_state x = Healthy")
    case True
    then show ?thesis using Cons by (simp add: exit_client_def)
  next
    case False
    then have "exit_client h (Some ex) x = (False, Some (ex @ [x\<lparr>cl_exited_height := h\<rparr>]))"
      using Cons.prems by (simp add: exit_client_def cap_push_def)
    then show ?thesis using False Cons.IH [of "ex @ [x\<lparr>cl_exited_height := h\<rparr>]"] Cons.prems by simp
  qed
qed

definition exit_unhealthy :: "u32 \<Rightarrow> 'id coordinator \<Rightarrow> 'id coordinator" where
  "exit_unhealthy h c = set_epoch (\<lambda>es. es\<lparr>
     es_clients := filter (\<lambda>x. cl_state x = Healthy) (es_clients es),
     es_exited_clients := es_exited_clients es @
       map (cl_exited_height_update (\<lambda>_. h)) (filter (\<lambda>x. cl_state x \<noteq> Healthy) (es_clients es))\<rparr>) c"

lemma move_clients_to_exited_eq:
  "co_base c \<Longrightarrow> move_clients_to_exited h c = Some (exit_unhealthy h c)"
  by (simp add: move_clients_to_exited_def retain_exit co_base_def exit_unhealthy_def)

lemma exit_unhealthy_simps [simp]:
  "co_clients (exit_unhealthy h c) = filter (\<lambda>x. cl_state x = Healthy) (co_clients c)"
  "co_run_state (exit_unhealthy h c) = co_run_state c"
  "co_config (exit_unhealthy h c) = co_config c"
  "co_progress (exit_unhealthy h c) = co_progress c"
  "co_rounds (exit_unhealthy h c) = co_rounds c"
  "co_pending_pause (exit_unhealthy h c) = co_pending_pause c"
  "co_model (exit_unhealthy h c) = co_model c"
  "es_rounds_head (co_epoch_state (exit_unhealthy h c)) = es_rounds_head (co_epoch_state c)"
  "es_start_step (co_epoch_state (exit_unhealthy h c)) = es_start_step (co_epoch_state c)"
  "es_first_round (co_epoch_state (exit_unhealthy h c)) = es_first_round (co_epoch_state c)"
  "es_last_step (co_epoch_state (exit_unhealthy h c)) = es_last_step (co_epoch_state c)"
  by (simp_all add: exit_unhealthy_def)

lemma exit_unhealthy_same_core: "same_core c (exit_unhealthy h c)"
  by (simp add: same_core_def get_sequence_length_def)

lemma exit_unhealthy_base: "co_base c \<Longrightarrow> co_base (exit_unhealthy h c)"
proof -
  assume b: "co_base c"
  then show "co_base (exit_unhealthy h c)"
    using sum_length_filter_compl [of "\<lambda>x. cl_state x = Healthy" "co_clients c"]
    by (auto simp: co_base_def exit_unhealthy_def)
qed

text \<open>Withdrawing only writes client states.\<close>

definition only_clients :: "'id coordinator \<Rightarrow> 'id coordinator \<Rightarrow> bool" where
  "only_clients c c' \<longleftrightarrow> (\<exists>cs. c' = set_epoch (es_clients_update (\<lambda>_. cs)) c \<and> map cl_id cs = map cl_id (co_clients c))"

lemma es_clients_update_const: "es_clients_update f es = es_clients_update (\<lambda>_. f (es_clients es)) es"
  by (cases es) simp

lemma only_clients_refl: "only_clients c c"
  by (auto simp: only_clients_def intro!: exI [of _ "co_clients c"])

lemma only_clients_trans: "only_clients a b \<Longrightarrow> only_clients b c \<Longrightarrow> only_clients a c"
  by (force simp: only_clients_def)

lemma only_clients_frame:
  assumes "only_clients c c'"
  shows "same_core c c'" and "length (co_clients c') = length (co_clients c)"
    and "co_run_state c' = co_run_state c" and "co_exited c' = co_exited c"
  using assms by (auto simp: only_clients_def same_core_def get_sequence_length_def dest: map_eq_imp_length_eq)

lemma only_clients_inv: "co_inv E c \<Longrightarrow> only_clients c c' \<Longrightarrow> co_inv E c'"
  by (rule same_core_inv) (simp_all add: only_clients_frame)

lemma withdraw_only_clients: "holds (only_clients c) (withdraw i c)"
proof (cases "nth_opt (co_clients c) (unat i)")
  case None
  then show ?thesis by (simp add: withdraw_def only_clients_refl)
next
  case (Some x)
  then have "map cl_id ((co_clients c)[unat i := x\<lparr>cl_state := Withdrawn\<rparr>]) = map cl_id (co_clients c)"
    by (auto simp: nth_opt_iff map_update intro: list_update_id)
      (metis client.select_convs(1) list_update_id map_update)
  then have "only_clients c (set_epoch (es_clients_update (\<lambda>cs. cs[unat i := x\<lparr>cl_state := Withdrawn\<rparr>])) c)"
    unfolding only_clients_def by (subst es_clients_update_const) blast
  then show ?thesis using Some by (auto simp: withdraw_def only_clients_refl)
qed

lemma withdraw_each_only_clients: "holds (only_clients c) (withdraw_each js c)"
proof (induction js arbitrary: c)
  case (Cons j js)
  show ?case
  proof (cases "withdraw (of_nat j) c")
    case (Done c' a)
    then have "only_clients c c'" using withdraw_only_clients [of c "of_nat j"] by simp
    then show ?thesis using Done Cons.IH [of c'] only_clients_trans
      by (cases "withdraw_each js c'") auto
  qed (use withdraw_only_clients [of c "of_nat j"] in auto)
qed (simp add: only_clients_refl)

lemma withdraw_all_only_clients: "holds (only_clients c) (withdraw_all c)"
  by (simp add: withdraw_all_def withdraw_each_only_clients only_clients_refl)


lemma nth_opt_append_length: "nth_opt (xs @ y # ys) (length xs) = Some y"
  by (simp add: nth_opt_def)

lemma withdraw_each_healthy:
  assumes "\<forall>x \<in> set ys. cl_state x = Healthy" and "length xs + length ys < 2 ^ 64"
  shows "withdraw_each [length xs..<length xs + length ys] (set_epoch (es_clients_update (\<lambda>_. xs @ ys)) c) =
    Done (set_epoch (es_clients_update (\<lambda>_. xs @ map (cl_state_update (\<lambda>_. Withdrawn)) ys)) c) ()"
  using assms
proof (induction ys arbitrary: xs)
  case Nil
  then show ?case by simp
next
  case (Cons y ys)
  let ?y = "y\<lparr>cl_state := Withdrawn\<rparr>"
  have u: "unat (of_nat (length xs) :: u64) = length xs"
    using Cons.prems(2) by (intro unat_of_nat_small) simp
  have w: "withdraw (of_nat (length xs)) (set_epoch (es_clients_update (\<lambda>_. xs @ y # ys)) c) =
    Done (set_epoch (es_clients_update (\<lambda>_. (xs @ [?y]) @ ys)) c) ()"
    using Cons.prems(1) by (simp add: withdraw_def u nth_opt_append_length o_def)
  have "[length xs..<length xs + length (y # ys)] =
    length xs # [length (xs @ [?y])..<length (xs @ [?y]) + length ys]"
    by (simp add: upt_rec)
  then have "withdraw_each [length xs..<length xs + length (y # ys)] (set_epoch (es_clients_update (\<lambda>_. xs @ y # ys)) c) =
    withdraw_each [length (xs @ [?y])..<length (xs @ [?y]) + length ys]
      (set_epoch (es_clients_update (\<lambda>_. (xs @ [?y]) @ ys)) c)"
    by (simp only: withdraw_each.simps w and_then.simps)
  also have "\<dots> = Done (set_epoch (es_clients_update
      (\<lambda>_. (xs @ [?y]) @ map (cl_state_update (\<lambda>_. Withdrawn)) ys)) c) ()"
    using Cons.prems by (intro Cons.IH) auto
  finally show ?case by simp
qed

definition withdrawn_all :: "'id coordinator \<Rightarrow> 'id coordinator" where
  "withdrawn_all c = set_epoch (es_clients_update (map (cl_state_update (\<lambda>_. Withdrawn)))) c"

lemma set_clients_id: "set_epoch (es_clients_update (\<lambda>_. co_clients c)) c = c"
  by (simp add: es_clients_update_const [of id, symmetric, unfolded id_def])

lemma withdraw_all_healthy:
  assumes "\<forall>x \<in> set (co_clients c). cl_state x = Healthy" and "co_base c"
  shows "withdraw_all c = Done (withdrawn_all c) ()"
proof -
  have "length (co_clients c) < 2 ^ 64" using assms(2) by (simp add: co_base_def SOLANA_MAX_NUM_CLIENTS_def)
  then have "withdraw_each [0..<length (co_clients c)] c = Done (withdrawn_all c) ()"
    using withdraw_each_healthy [of "co_clients c" "[]" c] assms(1)
      es_clients_update_const [of "map (cl_state_update (\<lambda>_. Withdrawn))" "co_epoch_state c"]
    by (simp add: set_clients_id withdrawn_all_def)
  then show ?thesis by (auto simp: withdraw_all_def)
qed

lemma withdrawn_all_only_clients: "only_clients c (withdrawn_all c)"
  unfolding only_clients_def withdrawn_all_def
  by (subst es_clients_update_const) (auto simp: o_def intro!: exI [of _ "map (cl_state_update (\<lambda>_. Withdrawn)) (co_clients c)"])

lemma withdrawn_all_simps [simp]:
  "co_pending_pause (withdrawn_all c) = co_pending_pause c"
  "co_progress (withdrawn_all c) = co_progress c" "co_config (withdrawn_all c) = co_config c"
  "co_run_state (withdrawn_all c) = co_run_state c" "co_rounds (withdrawn_all c) = co_rounds c"
  by (simp_all add: withdrawn_all_def)

lemma drop_clients_ids:
  "drop_clients checks cs n = Some (cs', m) \<Longrightarrow> map cl_id cs' = map cl_id cs"
proof (induction checks cs n rule: drop_clients.induct)
  case (2 i pf checks cs n)
  then obtain x where x: "nth_opt cs (unat (cp_index pf)) = Some x" by (auto simp: bind_eq_Some_conv)
  have "map cl_id (cs[unat (cp_index pf) := x\<lparr>cl_state := Dropped\<rparr>]) = map cl_id cs"
    using x by (auto simp: nth_opt_iff list_eq_iff_nth_eq nth_list_update)
  then show ?case using 2 x by (auto simp: bind_eq_Some_conv split: if_splits)
qed simp


section \<open>Starting a round\<close>

text \<open>What must hold of the coordinator for the next round to continue the run.\<close>

definition can_start :: "'id coordinator \<Rightarrow> bool" where
  "can_start c \<longleftrightarrow>
     (if sb_is_true (es_first_round (co_epoch_state c))
      then es_start_step (co_epoch_state c) = co_step c \<and> at_rest c
      else 1 \<le> steps_done c \<and>
        (case current_round c of None \<Rightarrow> False
         | Some r \<Rightarrow> unat (co_step c) = unat (es_start_step (co_epoch_state c)) + unat (r_height r) + 1 \<and>
             ring_ok c (unat (r_height r)) \<and> unat (r_data_index r) = data_after c (steps_done c - 1)))"

lemma tokens_eq:
  assumes "checked_mul i (ucast (sl :: u32)) = Some tokens" and "unat (i :: u64) = n"
  shows "of_nat (n * unat sl) = tokens"
proof -
  have "unat tokens = n * unat sl" using checked_mul_Some [OF assms(1)] assms(2) by (simp add: unat_ucast_up)
  moreover have "of_nat (unat tokens) = tokens" by simp
  ultimately show ?thesis by (simp only:)
qed

lemma data_step:
  assumes "checked_mul i (ucast sl) = Some tokens" and "checked_add i (ucast (get_batch_size cfg tokens)) = Some j"
    and "unat (i :: u64) = data_index_at cfg sl n"
  shows "unat j = data_index_at cfg sl (Suc n)"
  using checked_add_Some [OF assms(2)] assms(3)
  by (simp only: data_index_at.simps tokens_eq [OF assms(1,3)]) (simp add: unat_ucast_up)

lemma mod4_ne: "0 < j \<Longrightarrow> j < 4 \<Longrightarrow> (d::nat) mod 4 \<noteq> (d + j) mod 4"
  by presburger

lemma ring_step:
  assumes "length (co_rounds c) = NUM_STORED_ROUNDS" and "ring_ok c h"
    and "co_rounds c' = (co_rounds c)[Suc h mod NUM_STORED_ROUNDS := r]" and "unat (r_height r) = Suc h"
    and "co_head c' = Suc h mod NUM_STORED_ROUNDS"
  shows "ring_ok c' (Suc h)"
  unfolding ring_ok_def
proof (intro conjI allI impI)
  fix k assume k: "k < NUM_STORED_ROUNDS" "k \<le> Suc h"
  show "unat (r_height (ring_round c' (Suc h - k))) = Suc h - k"
  proof (cases k)
    case 0
    then show ?thesis using assms by (simp add: ring_round_def NUM_STORED_ROUNDS_def)
  next
    case (Suc m)
    have "(h - m) mod 4 \<noteq> Suc h mod 4"
      using mod4_ne [of "Suc m" "h - m"] k Suc by (simp add: NUM_STORED_ROUNDS_def)
    then have "ring_round c' (Suc h - k) = ring_round c (h - m)"
      using assms(3) Suc by (simp add: ring_round_def NUM_STORED_ROUNDS_def)
    moreover have "unat (r_height (ring_round c (h - m))) = h - m"
      using assms(2) k Suc by (simp add: ring_ok_def)
    ultimately show ?thesis using Suc by simp
  qed
qed (use assms in simp)

lemma ring_start:
  "0 < length (co_rounds c) \<Longrightarrow> co_rounds c' = (co_rounds c)[0 := r] \<Longrightarrow> r_height r = 0 \<Longrightarrow> co_head c' = 0 \<Longrightarrow>
   ring_ok c' 0"
  by (simp add: ring_ok_def ring_round_def)

lemma next_round_later:
  assumes "next_round c = Some (nh, ht, di)" and "\<not> sb_is_true (es_first_round (co_epoch_state c))"
    and "co_base c" and "can_start c"
  obtains h where "nh = Suc h mod NUM_STORED_ROUNDS" and "unat ht = Suc h" and "ring_ok c h"
    and "unat di = data_after c (steps_done c)"
    and "unat (co_step c) = unat (es_start_step (co_epoch_state c)) + Suc h"
proof -
  from assms(1,2) obtain r tokens head where r: "nth_opt (co_rounds c) (co_head c) = Some r"
    and t: "checked_mul (r_data_index r) (ucast (get_sequence_length c)) = Some tokens"
    and nh: "checked_add (es_rounds_head (co_epoch_state c)) 1 = Some head" "nh = unat head mod length (co_rounds c)"
    and ht: "checked_add (r_height r) 1 = Some ht"
    and di: "checked_add (r_data_index r) (ucast (get_batch_size (co_config c) tokens)) = Some di"
    by (auto simp: next_round_def bind_eq_Some_conv)
  have "1 \<le> steps_done c \<and> unat (co_step c) = unat (es_start_step (co_epoch_state c)) + unat (r_height r) + 1 \<and>
    ring_ok c (unat (r_height r)) \<and> unat (r_data_index r) = data_after c (steps_done c - 1)"
    using assms(4) unfolding can_start_def current_round_def r if_not_P [OF assms(2)] option.case .
  then have cs: "1 \<le> steps_done c" "unat (co_step c) = unat (es_start_step (co_epoch_state c)) + unat (r_height r) + 1"
    "ring_ok c (unat (r_height r))" "unat (r_data_index r) = data_after c (steps_done c - 1)" by blast+
  have "unat head = Suc (co_head c)" using checked_add_Some [OF nh(1)] by simp
  then have "nh = Suc (unat (r_height r)) mod NUM_STORED_ROUNDS"
    using nh(2) cs(3) assms(3) by (simp add: co_base_def ring_ok_def mod_Suc_eq)
  moreover have "unat ht = Suc (unat (r_height r))" using checked_add_Some [OF ht] by simp
  moreover have "unat di = data_after c (steps_done c)"
    using data_step [OF t di cs(4)] cs(1) by (simp only: Suc_diff_le diff_Suc_1 Suc_pred' [symmetric])
  ultimately show ?thesis using cs by (intro that) auto
qed

lemma next_round_first:
  assumes "next_round c = Some (nh, ht, di)" and "sb_is_true (es_first_round (co_epoch_state c))" and "can_start c"
  shows "nh = 0" and "ht = 0" and "unat di = data_after c (steps_done c)"
    and "es_start_step (co_epoch_state c) = co_step c"
  using assms by (simp_all add: next_round_def can_start_def at_rest_def)

text \<open>What starting a round writes.\<close>

definition started :: "nat \<Rightarrow> round \<Rightarrow> u64 \<Rightarrow> 'id coordinator \<Rightarrow> 'id coordinator" where
  "started nh r t c = (set_epoch (\<lambda>es. es\<lparr>es_rounds_head := of_nat nh, es_rounds := (es_rounds es)[nh := r]\<rparr>) c)
     \<lparr>co_run_state_start := t, co_run_state := RoundTrain\<rparr>"

lemma started_simps [simp]:
  "co_clients (started nh r t c) = co_clients c" "co_exited (started nh r t c) = co_exited c"
  "co_config (started nh r t c) = co_config c" "co_progress (started nh r t c) = co_progress c"
  "co_rounds (started nh r t c) = (co_rounds c)[nh := r]" "co_run_state (started nh r t c) = RoundTrain"
  "es_rounds_head (co_epoch_state (started nh r t c)) = of_nat nh"
  "es_start_step (co_epoch_state (started nh r t c)) = es_start_step (co_epoch_state c)"
  "es_first_round (co_epoch_state (started nh r t c)) = es_first_round (co_epoch_state c)"
  "get_sequence_length (started nh r t c) = get_sequence_length c"
  "co_model (started nh r t c) = co_model c" "co_pending_pause (started nh r t c) = co_pending_pause c"
  by (simp_all add: started_def get_sequence_length_def)

lemma round_all_fields:
  "r\<lparr>r_clients_len := n, r_height := ht, r_data_index := di, r_tie_breaker_tasks := tb, r_random_seed := seed,
     r_witnesses := ws\<rparr> =
   \<lparr>r_witnesses = ws, r_data_index = di, r_random_seed = seed, r_height = ht, r_clients_len = n,
    r_tie_breaker_tasks = tb\<rparr>"
  by (cases r) simp

lemma start_round_train_Some:
  assumes "start_round_train t seed tb c = Some c'"
  obtains nh ht di r where "next_round c = Some (nh, ht, di)" and "nth_opt (co_rounds c) nh = Some r"
    and "co_run_state c \<noteq> RoundTrain"
    and "c' = started nh \<lparr>r_witnesses = [], r_data_index = di, r_random_seed = seed, r_height = ht,
           r_clients_len = of_nat (length (co_clients c)), r_tie_breaker_tasks = tb\<rparr> t c"
proof -
  from assms obtain nh ht di r where "next_round c = Some (nh, ht, di)" "nth_opt (co_rounds c) nh = Some r"
    and cs: "change_state t RoundTrain (set_epoch (\<lambda>es. es\<lparr>es_rounds_head := of_nat nh,
       es_rounds := (es_rounds es)[nh := r\<lparr>r_clients_len := of_nat (length (co_clients c)), r_height := ht,
           r_data_index := di, r_tie_breaker_tasks := tb, r_random_seed := seed, r_witnesses := []\<rparr>]\<rparr>) c) = Some c'"
    by (auto simp: start_round_train_def bind_eq_Some_conv Let_def)
  then show ?thesis by (intro that) (auto simp: change_state_Some started_def round_all_fields)
qed

lemma start_round_train_ok:
  assumes base: "co_base c" and start: "can_start c"
    and step: "co_step c < total_steps (co_config c)"
    and clients: "unat (min_clients (co_config c)) \<le> length (co_clients c)"
    and ok: "start_round_train t seed 0 c = Some c'"
  shows "co_base c'" and "train_ok E c'"
proof -
  from start_round_train_Some [OF ok] obtain nh ht di r where n: "next_round c = Some (nh, ht, di)"
    and r: "nth_opt (co_rounds c) nh = Some r"
    and c': "c' = started nh \<lparr>r_witnesses = [], r_data_index = di, r_random_seed = seed, r_height = ht,
           r_clients_len = of_nat (length (co_clients c)), r_tie_breaker_tasks = 0\<rparr> t c" by metis
  have hd4: "nh < NUM_STORED_ROUNDS" and len: "length (co_rounds c) = NUM_STORED_ROUNDS"
    using r base by (auto simp: nth_opt_iff co_base_def)
  have u: "unat (of_nat nh :: u32) = nh" using hd4 by (intro unat_of_nat_small) (simp add: NUM_STORED_ROUNDS_def)
  have lc: "unat (of_nat (length (co_clients c)) :: u16) = length (co_clients c)"
    using base by (intro unat_of_nat_small) (simp add: co_base_def SOLANA_MAX_NUM_CLIENTS_def)
  show "co_base c'" using base hd4 u
    by (auto simp: co_base_def c' dest!: set_update_subset_insert [THEN subsetD])
  have "sb_is_true (es_first_round (co_epoch_state c)) = (ht = 0) \<and> ring_ok c' (unat ht) \<and>
    unat di = data_after c (steps_done c) \<and>
    unat (co_step c) = unat (es_start_step (co_epoch_state c)) + unat ht"
  proof (cases "sb_is_true (es_first_round (co_epoch_state c))")
    case True
    note f = next_round_first [OF n True start]
    have "ring_ok c' 0" using f len u c' by (intro ring_start [of c]) (auto simp: NUM_STORED_ROUNDS_def)
    then show ?thesis using f True by simp
  next
    case False
    from next_round_later [OF n False base start] obtain h where h: "nh = Suc h mod NUM_STORED_ROUNDS"
      "unat ht = Suc h" "ring_ok c h" "unat di = data_after c (steps_done c)"
      "unat (co_step c) = unat (es_start_step (co_epoch_state c)) + Suc h" by metis
    have "ring_ok c' (Suc h)" by (rule ring_step [OF len h(3)]) ((use h u in \<open>simp add: c'\<close>)+)
    then show ?thesis using h False by auto
  qed
  then show "train_ok E c'" using step clients hd4 len lc u
    by (simp add: train_ok_def round_ok_def current_round_def nth_opt_def c')
qed


section \<open>Preservation, one handler at a time\<close>

lemma co_inv_parts:
  assumes "co_inv E c"
  shows "config_check (co_config c)" "progress_check (co_progress c)" "co_base c" "phase_ok E c"
  using assms by (simp_all add: co_inv_def)

lemma start_waiting_ok:
  assumes "start_waiting_for_members t c = Some c'" and "at_rest c" and "co_base c"
    and "config_check (co_config c)" and "progress_check (co_progress c)"
  shows "co_inv E c'"
proof -
  let ?s = "if co_step c < total_steps (co_config c) then WaitingForMembers else Finished"
  have c': "c' = c\<lparr>co_run_state_start := t, co_run_state := ?s\<rparr>"
    using assms(1) by (simp only: start_waiting_for_members_def change_state_Some)
  have "at_rest (c\<lparr>co_run_state_start := t, co_run_state := s\<rparr>)" for s
    using same_core_frames(1) [OF set_state_same_core] assms(2) by blast
  then show ?thesis using assms(3-5) by (auto simp: c' co_inv_def co_base_def phase_ok_def not_less)
qed

lemma resume_inv: "co_inv E c \<Longrightarrow> holds (co_inv E) (resume t c)"
  using co_inv_parts [of E c] start_waiting_ok [of t c]
  by (auto simp: resume_def phase_ok_def intro!: holds_need)

lemma withdraw_inv: "co_inv E c \<Longrightarrow> holds (co_inv E) (withdraw i c)"
  using withdraw_only_clients [of c i] only_clients_inv by (cases "withdraw i c") auto

lemma withdraw_all_inv: "co_inv E c \<Longrightarrow> holds (co_inv E) (withdraw_all c)"
  using withdraw_all_only_clients [of c] only_clients_inv by (cases "withdraw_all c") auto

lemma pending_pause_inv: "co_inv E c \<Longrightarrow> co_inv E (c\<lparr>co_pending_pause := b\<rparr>)"
  by (erule same_core_inv) (simp_all add: same_core_def get_sequence_length_def)

text \<open>Entering \<open>Paused\<close> only needs the data bookkeeping to be at rest.\<close>

lemma paused_ok:
  assumes "at_rest c" and "co_base c" and "config_check (co_config c)" and "progress_check (co_progress c)"
  shows "co_inv E (set_epoch (es_cold_start_epoch_update (\<lambda>_. b))
    (c\<lparr>co_run_state_start := t, co_run_state := Paused, co_pending_pause := p\<rparr>))"
  using assms by (simp add: co_inv_def co_base_def phase_ok_def at_rest_def get_sequence_length_def)

lemma pause_inv:
  assumes "co_inv E c"
  shows "holds (co_inv E) (pause t c)"
proof (cases "\<not> halted c \<and> \<not> active c")
  case True
  then have rs: "co_run_state c = WaitingForMembers \<or> co_run_state c = Warmup"
    by (auto simp: halted_def active_def)
  then have rest: "at_rest c" using co_inv_parts(4) [OF assms] by (auto simp: phase_ok_def warm_ok_def)
  have "holds (co_inv E) (need (change_state t Paused d) (\<lambda>c.
      Done (set_epoch (es_cold_start_epoch_update (\<lambda>_. sb_new True)) c) ()))"
    if d: "withdraw_all c = Done d a" for d a
  proof (rule holds_need)
    fix e assume "change_state t Paused d = Some e"
    then have e: "e = d\<lparr>co_run_state_start := t, co_run_state := Paused, co_pending_pause := co_pending_pause d\<rparr>"
      by (simp add: change_state_Some)
    have oc: "only_clients c d" using withdraw_all_only_clients [of c] d by simp
    have "co_inv E d" using only_clients_inv [OF assms oc] .
    moreover have "at_rest d" using rest same_core_frames(1) [OF only_clients_frame(1) [OF oc]] by simp
    ultimately show "holds (co_inv E) (Done (set_epoch (es_cold_start_epoch_update (\<lambda>_. sb_new True)) e) ())"
      unfolding e holds_simps by (intro paused_ok) (auto dest: co_inv_parts)
  qed
  then show ?thesis using True withdraw_all_inv [OF assms]
    by (auto simp: pause_def intro!: holds_and_then)
qed (use assms in \<open>auto simp: pause_def intro: pending_pause_inv\<close>)

lemma checkpoint_inv: "co_inv E c \<Longrightarrow> holds (co_inv E) (checkpoint E i n repo c)"
proof -
  assume i: "co_inv E c"
  have "co_inv E (set_checkpoint f c)" for f
    by (rule same_core_inv [OF i]) (simp_all add: same_core_def get_sequence_length_def)
  then show ?thesis using i by (auto simp: checkpoint_def split: option.split)
qed

lemma check_unhealthy_state: "holds (\<lambda>d. d = c) (check_unhealthy E checks c)"
  by (induction E checks c rule: check_unhealthy.induct) (auto intro!: holds_need split: sum.split)

lemma health_check_inv:
  assumes "co_inv E c"
  shows "holds (co_inv E) (health_check E i checks c)"
proof -
  have "holds (co_inv E) (need (drop_clients checks (co_clients c) 0) (\<lambda>(clients, dropped).
      Done (set_epoch (es_clients_update (\<lambda>_. clients)) c) dropped))"
    using only_clients_inv [OF assms] drop_clients_ids
    by (intro holds_need) (fastforce simp: only_clients_def)
  then show ?thesis using assms check_unhealthy_state [of c E checks]
    by (cases "check_unhealthy E checks c") (auto simp: health_check_def split: option.split)
qed


text \<open>Recording a witness.\<close>

definition pushed :: "witness \<Rightarrow> round \<Rightarrow> 'id coordinator \<Rightarrow> 'id coordinator" where
  "pushed w r c = set_epoch (es_rounds_update (\<lambda>rs. rs[co_head c := r\<lparr>r_witnesses := r_witnesses r @ [w]\<rparr>])) c"

lemma pushed_simps [simp]:
  "co_clients (pushed w r c) = co_clients c" "co_exited (pushed w r c) = co_exited c"
  "co_config (pushed w r c) = co_config c" "co_progress (pushed w r c) = co_progress c"
  "co_rounds (pushed w r c) = (co_rounds c)[co_head c := r\<lparr>r_witnesses := r_witnesses r @ [w]\<rparr>]"
  "co_run_state (pushed w r c) = co_run_state c"
  "es_rounds_head (co_epoch_state (pushed w r c)) = es_rounds_head (co_epoch_state c)"
  "es_start_step (co_epoch_state (pushed w r c)) = es_start_step (co_epoch_state c)"
  "es_first_round (co_epoch_state (pushed w r c)) = es_first_round (co_epoch_state c)"
  "get_sequence_length (pushed w r c) = get_sequence_length c"
  by (simp_all add: pushed_def get_sequence_length_def)

lemma witness_nodes_of_pushed [simp]: "witness_nodes_of (pushed w r c) = witness_nodes_of c"
  by (simp add: witness_nodes_of_def cong: if_cong)

lemma push_witness_Done:
  "push_witness w c = Done c' n \<Longrightarrow>
   \<exists>r. current_round c = Some r \<and> length (r_witnesses r) < SOLANA_MAX_NUM_WITNESSES \<and> c' = pushed w r c \<and>
     n = Suc (length (r_witnesses r))"
  by (auto simp: push_witness_def need_Done current_round_unchecked_def current_round_def cap_push_def
    current_round_mut_unchecked_def pushed_def split: if_splits option.splits)

lemma push_witness_Fail:
  "push_witness w c = Fail c' e \<Longrightarrow> c' = c \<and> e = WitnessesFull \<and>
   (\<exists>r. current_round c = Some r \<and> SOLANA_MAX_NUM_WITNESSES \<le> length (r_witnesses r))"
  by (auto simp: push_witness_def need_Fail current_round_unchecked_def current_round_def cap_push_def
    split: if_splits option.splits)

lemma current_round_pushed:
  "current_round c = Some r \<Longrightarrow> current_round (pushed w r c) = Some (r\<lparr>r_witnesses := r_witnesses r @ [w]\<rparr>)"
  by (simp add: current_round_def nth_opt_iff)

lemma from_coordinator_pushed:
  "current_round c = Some r \<Longrightarrow> from_coordinator E (pushed w r c) 0 = from_coordinator E c 0"
  by (simp add: from_coordinator_def current_round_pushed)

lemma ring_ok_pushed: "current_round c = Some r \<Longrightarrow> ring_ok (pushed w r c) h = ring_ok c h"
proof -
  assume r: "current_round c = Some r"
  have "r_height (ring_round (pushed w r c) k) = r_height (ring_round c k)" for k
    using r by (cases "co_head c = k mod NUM_STORED_ROUNDS")
      (auto simp: ring_round_def current_round_def nth_opt_iff)
  then show ?thesis by (simp add: ring_ok_def)
qed

lemma pushed_base:
  assumes "co_base c" "current_round c = Some r" "length (r_witnesses r) < SOLANA_MAX_NUM_WITNESSES"
  shows "co_base (pushed w r c)"
  using assms by (auto simp: co_base_def dest!: set_update_subset_insert [THEN subsetD])

lemma already_witnessed_False:
  "already_witnessed E i cs ws = Some False \<Longrightarrow>
   \<forall>w \<in> set ws. \<exists>x. nth_opt cs (unat (wp_index (w_proof w))) = Some x \<and> \<not> ne_eq E (cl_id x) i"
  by (induction ws) (auto split: option.splits if_splits)

lemma already_witnessed_total:
  "\<forall>w \<in> set ws. unat (wp_index (w_proof w)) < length cs \<Longrightarrow> \<exists>b. already_witnessed E i cs ws = Some b"
  by (induction ws) (auto simp: nth_opt_def)

lemma pushed_round_ok:
  assumes r: "current_round c = Some r" and ok: "round_ok E c r"
    and s: "from_coordinator E c 0 = Some (Inr s)"
    and v: "verify_witness_for_client E s i (w_proof w) (co_clients c) = Some True"
    and t: "\<not> sb_is_false (wp_witness (w_proof w))"
    and new: "already_witnessed E i (co_clients c) (r_witnesses r) = Some False"
  shows "round_ok E (pushed w r c) (r\<lparr>r_witnesses := r_witnesses r @ [w]\<rparr>)"
proof -
  have vc: "verify_client E i (wp_index (w_proof w)) (co_clients c)" and vw: "verify_witness E s (w_proof w) = Some True"
    using v by (auto simp: verify_witness_for_client_def split: if_splits)
  then obtain x where x: "nth_opt (co_clients c) (unat (wp_index (w_proof w))) = Some x" "ne_eq E (cl_id x) i"
    by (auto simp: verify_client_def split: option.splits)
  have fresh: "wp_index (w_proof w) \<noteq> wp_index (w_proof w')" if "w' \<in> set (r_witnesses r)" for w'
    using already_witnessed_False [OF new] that x by fastforce
  have wk: "witness_ok E (pushed w r c) w' = witness_ok E c w'" for w'
    by (simp add: witness_ok_def from_coordinator_pushed [OF r])
  have "witness_ok E c w" using s vw x(1) t by (auto simp: witness_ok_def nth_opt_iff sb_is_true_def)
  then show ?thesis using ok fresh unfolding round_ok_def
    by (auto simp: wk ring_ok_pushed [OF r])
qed

lemma witness_Fail: "witness E i w t c = Fail d e \<Longrightarrow> d = c"
  by (cases "from_coordinator E c 0"; cases "the (from_coordinator E c 0)")
    (auto simp: witness_def need_Fail and_then_Fail dest: push_witness_Fail split: if_splits)

lemma witness_Done:
  assumes "witness E i w t c = Done d u"
  obtains s r c' n where "co_run_state c \<in> {RoundWitness, RoundTrain}"
    and "from_coordinator E c 0 = Some (Inr s)"
    and "verify_witness_for_client E s i (w_proof w) (co_clients c) = Some True"
    and "\<not> sb_is_false (wp_witness (w_proof w))"
    and "current_round c = Some r"
    and "already_witnessed E i (co_clients c) (r_witnesses r) = Some False"
    and "push_witness w c = Done c' n"
    and "d = c' \<or> co_run_state c' \<noteq> RoundWitness \<and> d = c'\<lparr>co_run_state_start := t, co_run_state := RoundWitness\<rparr>"
  using assms
  by (cases "from_coordinator E c 0"; cases "the (from_coordinator E c 0)")
    (auto simp: witness_def need_Done and_then_Done change_state_Some split: if_splits)

lemma witness_inv:
  assumes "co_inv E c"
  shows "holds (co_inv E) (witness E i w t c)"
proof (cases "witness E i w t c")
  case (Fail d e)
  then show ?thesis using witness_Fail [OF Fail] assms by simp
next
  case (Done d u)
  from witness_Done [OF Done] obtain s r c' n where rs: "co_run_state c \<in> {RoundWitness, RoundTrain}"
    and s: "from_coordinator E c 0 = Some (Inr s)"
    and v: "verify_witness_for_client E s i (w_proof w) (co_clients c) = Some True"
    and tr: "\<not> sb_is_false (wp_witness (w_proof w))"
    and r: "current_round c = Some r"
    and new: "already_witnessed E i (co_clients c) (r_witnesses r) = Some False"
    and p: "push_witness w c = Done c' n"
    and d: "d = c' \<or> d = c'\<lparr>co_run_state_start := t, co_run_state := RoundWitness\<rparr>" by metis
  have c': "c' = pushed w r c" and len: "length (r_witnesses r) < SOLANA_MAX_NUM_WITNESSES"
    using push_witness_Done [OF p] r by auto
  have tr_ok: "train_ok E c" using co_inv_parts(4) [OF assms] rs by (auto simp: phase_ok_def)
  then have "round_ok E c r" using r by (simp add: train_ok_def)
  from pushed_round_ok [OF r this s v tr new]
  have "train_ok E c'" using tr_ok by (simp add: train_ok_def c' current_round_pushed [OF r])
  moreover have "co_base c'" unfolding c' by (rule pushed_base [OF co_inv_parts(3) [OF assms] r len])
  moreover have "train_ok E (c'\<lparr>co_run_state_start := t, co_run_state := RoundWitness\<rparr>) = train_ok E c'"
    by (rule same_core_train [OF set_state_same_core]) simp
  ultimately have "co_inv E d" using d rs co_inv_parts(1,2) [OF assms]
    by (auto simp: co_inv_def phase_ok_def c' co_base_def)
  then show ?thesis using Done by simp
qed simp

lemma warm_can_start: "warm_ok c \<Longrightarrow> can_start c"
  by (simp add: warm_ok_def can_start_def)

lemma start_round_train_inv:
  assumes "start_round_train t seed 0 c = Some c'" and "co_base c" and "can_start c"
    and "co_step c < total_steps (co_config c)" and "unat (min_clients (co_config c)) \<le> length (co_clients c)"
    and "config_check (co_config c)" and "progress_check (co_progress c)"
  shows "co_inv E c'"
proof -
  have "co_config c' = co_config c \<and> co_progress c' = co_progress c \<and> co_run_state c' = RoundTrain"
    using start_round_train_Some [OF assms(1)] by (metis started_simps(3,4,6))
  then show ?thesis using start_round_train_ok [OF assms(2-5,1)] assms(6,7)
    by (simp add: co_inv_def phase_ok_def)
qed

lemma warmup_witness_inv:
  assumes "co_inv E c"
  shows "holds (co_inv E) (warmup_witness E i w t seed c)"
proof (cases "warmup_witness E i w t seed c")
  case (Fail d e)
  then have "d = c"
    by (auto simp: warmup_witness_def need_Fail and_then_Fail dest: push_witness_Fail push_witness_Done
        split: if_splits)
  then show ?thesis using Fail assms by simp
next
  case (Done d u)
  show ?thesis
  proof (cases "co_run_state c = Warmup")
    case False
    then have "d = c" using Done by (auto simp: warmup_witness_def split: if_splits)
    then show ?thesis using Done assms by simp
  next
    case True
    obtain r c' n where r: "current_round c = Some r" and p: "push_witness w c = Done c' n"
      and d: "d = c' \<or> start_round_train t seed 0 c' = Some d"
      using Done True by (auto simp: warmup_witness_def need_Done and_then_Done split: if_splits)
    have c': "c' = pushed w r c" and len: "length (r_witnesses r) < SOLANA_MAX_NUM_WITNESSES"
      using push_witness_Done [OF p] r by auto
    have "warm_ok c" using co_inv_parts(4) [OF assms] True by (simp add: phase_ok_def)
    then have w: "warm_ok c'" by (simp add: warm_ok_def at_rest_def c')
    have b: "co_base c'" unfolding c' by (rule pushed_base [OF co_inv_parts(3) [OF assms] r len])
    have i: "co_inv E c'" using w b True co_inv_parts(1,2) [OF assms] by (simp add: co_inv_def phase_ok_def c')
    have "co_inv E d"
      using d i start_round_train_inv [OF _ b warm_can_start [OF w]] w co_inv_parts(1,2) [OF i]
      by (auto simp: warm_ok_def)
    then show ?thesis using Done by simp
  qed
qed simp

end
