(* ===== verification/Coordinator_Steps.thy ===== *)
theory Coordinator_Steps
  imports Coordinator_Inv
begin

text \<open>
  The tick handlers keep the invariant; with the other commands they make the coordinator a
  \<open>guarded_component\<close>. The transition relation between run states, the step counter and the absence
  of panics follow.
\<close>

section \<open>Tick handlers\<close>

lemma new_epoch_eq:
  "new_epoch ps t c = Some (set_epoch (\<lambda>es. zero_epoch_state\<lparr>es_first_round := sb_new True,
     es_cold_start_epoch := es_cold_start_epoch es, es_start_step := co_step c,
     es_start_timestamp := t, es_clients := map client_new (take SOLANA_MAX_NUM_CLIENTS ps)\<rparr>) c)"
  by (simp add: new_epoch_def cap_extend_eq)

lemma enough_pending:
  assumes "config_check cfg" and "init_min_clients cfg \<le> of_nat n"
  shows "unat (min_clients cfg) \<le> min SOLANA_MAX_NUM_CLIENTS n"
proof -
  have "unat (of_nat n :: u16) \<le> n" by (simp add: unsigned_of_nat take_bit_nat_less_eq_self)
  then show ?thesis using assms unfolding config_check_def word_le_nat_alt by linarith
qed

lemma new_epoch_inv:
  assumes "config_check (co_config c)" and "progress_check (co_progress c)" and "at_rest c"
    and "co_step c < total_steps (co_config c)" and "init_min_clients (co_config c) \<le> of_nat (length ps)"
    and "new_epoch ps t c = Some d" and "start_warmup t d = Some d'"
  shows "co_inv E d'"
proof -
  have d: "d = set_epoch (\<lambda>es. zero_epoch_state\<lparr>es_first_round := sb_new True,
     es_cold_start_epoch := es_cold_start_epoch es, es_start_step := co_step c,
     es_start_timestamp := t, es_clients := map client_new (take SOLANA_MAX_NUM_CLIENTS ps)\<rparr>) c"
    using assms(6) by (simp add: new_epoch_eq)
  have d': "d' = d\<lparr>co_run_state_start := t, co_run_state := Warmup\<rparr>"
    using assms(7) by (simp add: start_warmup_def change_state_Some)
  have "at_rest d'" using assms(3) by (simp add: at_rest_def d d' get_sequence_length_def)
  moreover have "unat (min_clients (co_config c)) \<le> length (co_clients d')"
    using enough_pending [OF assms(1,5)] by (simp add: d d')
  ultimately show ?thesis using assms(1,2,4)
    by (simp add: co_inv_def co_base_def phase_ok_def warm_ok_def d d' zero_epoch_state_def
        NUM_STORED_ROUNDS_def zero_round_def)
qed

lemma at_rest_cong:
  "co_config c' = co_config c \<Longrightarrow> co_progress c' = co_progress c \<Longrightarrow>
   get_sequence_length c' = get_sequence_length c \<Longrightarrow> at_rest c' = at_rest c"
  by (simp add: at_rest_def)

lemma tick_waiting_inv:
  assumes i: "co_inv E c" and rs: "co_run_state c = WaitingForMembers"
  shows "holds (co_inv E) (tick_waiting_for_members E pending t c)"
proof -
  note p = co_inv_parts [OF i]
  have rest: "at_rest c" "co_step c < total_steps (co_config c)" using p(4) rs by (simp_all add: phase_ok_def)
  have key: "co_inv E e'"
    if "init_min_clients (co_config c) \<le> of_nat (length ps)" and "start_warmup t e = Some e'"
      and "new_epoch ps t (if b then set_checkpoint p2p_to_hub (exit_unhealthy h c) else exit_unhealthy h c) = Some e"
    for ps h b e e'
  proof -
    let ?d = "if b then set_checkpoint p2p_to_hub (exit_unhealthy h c) else exit_unhealthy h c"
    have d: "co_config ?d = co_config c" "co_progress ?d = co_progress c" by simp_all
    have "at_rest ?d" using rest at_rest_cong [of ?d c] d by (simp add: get_sequence_length_def)
    then show ?thesis using new_epoch_inv [OF _ _ _ _ _ that(3,2)] d p rest that(1) by simp
  qed
  note keys = key [where b = True, simplified] key [where b = False, simplified]
  show ?thesis
  proof (cases pending)
    case (Some ps)
    show ?thesis using i unfolding tick_waiting_for_members_def Let_def Some option.case
      by (intro holds_need) (auto simp: move_clients_to_exited_eq [OF p(3)] split: if_splits
          intro!: holds_need intro: keys)
  qed (use i in \<open>simp add: tick_waiting_for_members_def\<close>)
qed

lemma clients_as_u16:
  "co_base c \<Longrightarrow> unat (of_nat (length (co_clients c)) :: u16) = length (co_clients c)"
  by (intro unat_of_nat_small) (simp add: co_base_def SOLANA_MAX_NUM_CLIENTS_def)

lemma tick_warmup_inv:
  assumes i: "co_inv E c" and rs: "co_run_state c = Warmup"
  shows "holds (co_inv E) (tick_warmup t seed c)"
proof -
  note p = co_inv_parts [OF i]
  have w: "warm_ok c" using p(4) rs by (simp add: phase_ok_def)
  have train: "co_inv E d \<and> \<not> (of_nat (length (co_clients d)) :: u16) < min_clients (co_config d)"
    if "start_round_train t seed 0 c = Some d" for d
  proof -
    have "co_inv E d" using start_round_train_inv [OF that p(3) warm_can_start [OF w]] w p by (simp add: warm_ok_def)
    moreover have "co_clients d = co_clients c \<and> co_config d = co_config c"
      using start_round_train_Some [OF that] by (metis started_simps(1,3))
    ultimately show ?thesis using w clients_as_u16 [OF p(3)] by (simp add: warm_ok_def word_less_nat_alt)
  qed
  let ?d = "exit_unhealthy 0 c"
  have b: "co_base ?d" using p(3) by (rule exit_unhealthy_base)
  have rest: "at_rest ?d" using w same_core_frames(1) [OF exit_unhealthy_same_core] by (auto simp: warm_ok_def)
  have stay: "co_inv E ?d" if "\<not> (of_nat (length (co_clients ?d)) :: u16) < min_clients (co_config c)"
    using that b rest w p rs clients_as_u16 [OF b]
    by (simp add: co_inv_def phase_ok_def warm_ok_def word_less_nat_alt)
  have again: "co_inv E e" if "start_waiting_for_members t ?d = Some e" for e
    using start_waiting_ok [OF that rest b] p by simp
  show ?thesis unfolding tick_warmup_def
  proof (intro holds_need, goal_cases)
    case (1 timeout d)
    then show ?case using train stay again
      by (auto simp: move_clients_to_exited_eq [OF p(3)] split: if_splits intro!: holds_need)
  qed
qed

lemma tick_round_train_inv:
  assumes i: "co_inv E c" and rs: "co_run_state c = RoundTrain"
  shows "holds (co_inv E) (tick_round_train t c)"
proof -
  note p = co_inv_parts [OF i]
  have "train_ok E (c\<lparr>co_run_state_start := t, co_run_state := RoundWitness\<rparr>) = train_ok E c"
    by (rule same_core_train [OF set_state_same_core]) simp
  then have "co_inv E (c\<lparr>co_run_state_start := t, co_run_state := RoundWitness\<rparr>)"
    using p rs by (simp add: co_inv_def phase_ok_def co_base_def)
  then show ?thesis using i
    by (auto simp: tick_round_train_def change_state_Some intro!: holds_need)
qed

text \<open>The state between two rounds: the step is counted, the next round not yet started.\<close>

definition between :: "'id coordinator \<Rightarrow> bool" where
  "between c \<longleftrightarrow> config_check (co_config c) \<and> progress_check (co_progress c) \<and> co_base c \<and> can_start c \<and>
     \<not> sb_is_true (es_first_round (co_epoch_state c))"

lemma can_start_same_core: "same_core c c' \<Longrightarrow> can_start c' = can_start c"
  unfolding can_start_def same_core_current same_core_frames
  by (simp add: same_core_def cong: option.case_cong if_cong)

lemma between_same_core: "between c \<Longrightarrow> same_core c c' \<Longrightarrow> co_base c' \<Longrightarrow> between c'"
  unfolding between_def using can_start_same_core by (auto simp: same_core_def)

lemma between_cool: "between c \<Longrightarrow> cool_ok c"
  by (auto simp: between_def can_start_def cool_ok_def split: option.splits)

lemma start_cooldown_inv:
  assumes "between c" and "start_cooldown t c = Some c'"
  shows "co_inv E c'"
proof -
  obtain r where r: "nth_opt (co_rounds c) (co_head c) = Some r"
    and c': "c' = (set_epoch (es_rounds_update (\<lambda>rs. rs[co_head c := r\<lparr>r_witnesses := []\<rparr>])) c)
       \<lparr>co_run_state_start := t, co_run_state := Cooldown\<rparr>"
    using assms(2) by (auto simp: start_cooldown_def current_round_mut_unchecked_def change_state_Some
        bind_eq_Some_conv split: option.splits)
  have "co_base c'" using assms(1)
    by (auto simp: between_def co_base_def c' dest!: set_update_subset_insert [THEN subsetD])
  moreover have "current_round c' = Some (r\<lparr>r_witnesses := []\<rparr>)" "co_config c' = co_config c"
    "co_progress c' = co_progress c" "get_sequence_length c' = get_sequence_length c"
    using r by (simp_all add: current_round_def c' nth_opt_iff get_sequence_length_def)
  then have "cool_ok c'" using between_cool [OF assms(1)] r by (simp add: cool_ok_def current_round_def)
  ultimately show ?thesis using assms(1) by (simp add: between_def co_inv_def phase_ok_def c')
qed

lemma set_last_step_Some:
  "set_last_step t c = Some c' \<Longrightarrow> \<exists>n. c' = set_epoch (es_last_step_update (\<lambda>_. n)) c"
  by (auto simp: set_last_step_def bind_eq_Some_conv split: if_splits intro: exI [of _ "es_last_step (co_epoch_state c)"])

lemma last_step_same_core: "same_core c (set_epoch (es_last_step_update f) c)"
  by (simp add: same_core_def get_sequence_length_def)

lemma last_step_base: "co_base c \<Longrightarrow> co_base (set_epoch (es_last_step_update f) c)"
  by (simp add: co_base_def)

lemma count_step_between:
  assumes i: "co_inv E c" and rs: "co_run_state c = RoundWitness" and n: "checked_add (co_step c) 1 = Some n"
  shows "between (exit_unhealthy h (set_progress (pr_step_update (\<lambda>_. n))
           (set_epoch (es_first_round_update (\<lambda>_. sb_new False)) c)))" (is "between (exit_unhealthy h ?d)")
proof -
  note p = co_inv_parts [OF i]
  have n': "unat n = Suc (unat (co_step c))" using checked_add_Some [OF n] by simp
  obtain r where r: "current_round c = Some r" and ok: "round_ok E c r"
    using p(4) rs by (auto simp: phase_ok_def train_ok_def split: option.splits)
  have st: "1 \<le> unat (co_step c)" using p(2) by (simp add: progress_check_def word_less_nat_alt)
  have "current_round ?d = Some r" "get_sequence_length ?d = get_sequence_length c"
    using r by (simp_all add: current_round_def get_sequence_length_def)
  moreover have "ring_ok ?d k = ring_ok c k" for k by (simp add: ring_ok_def ring_round_def)
  ultimately have "can_start ?d" using ok n' st by (simp add: can_start_def round_ok_def)
  then have "between ?d" using p(1,3) n' by (simp add: between_def progress_check_def co_base_def word_less_nat_alt)
  then show ?thesis using between_same_core exit_unhealthy_same_core exit_unhealthy_base by (metis between_def)
qed


lemma start_cooldown_holds: "between c \<Longrightarrow> holds (co_inv E) (need (start_cooldown t c) (\<lambda>c. Done c r))"
  using start_cooldown_inv by (intro holds_need) auto

lemma between_withdrawn: "between c \<Longrightarrow> between (withdrawn_all c)"
  using between_same_core [OF _ only_clients_frame(1) [OF withdrawn_all_only_clients]]
  by (auto simp: between_def co_base_def withdrawn_all_def)

lemma between_last_step: "between c \<Longrightarrow> set_last_step t c = Some d \<Longrightarrow> between d"
  by (drule set_last_step_Some)
    (metis between_def between_same_core last_step_base last_step_same_core)

lemma end_of_round_inv:
  assumes b: "between c" and h: "\<forall>x \<in> set (co_clients c). cl_state x = Healthy"
  shows "holds (co_inv E) (end_of_round t seed nw c)"
proof -
  have base: "co_base c" using b by (simp add: between_def)
  have go: "co_inv E z" if "between y" and "epoch_over nw y = Some False" and "start_round_train t seed 0 y = Some z"
    for y z
  proof -
    have "unat (min_clients (co_config y)) \<le> length (co_clients y)" "co_step y < total_steps (co_config y)"
      using that(2) by (auto simp: epoch_over_def bind_eq_Some_conv not_less not_le split: if_splits)
    then show ?thesis using start_round_train_inv [OF that(3)] that(1) by (auto simp: between_def)
  qed
  show ?thesis
    unfolding end_of_round_def withdraw_all_healthy [OF h base]
    using start_cooldown_inv [OF between_withdrawn [OF b]] start_cooldown_inv [OF between_last_step [OF b]]
      go [OF between_last_step [OF b]]
    by (auto intro!: holds_need)
qed

lemma tick_round_witness_inv:
  assumes i: "co_inv E c" and rs: "co_run_state c = RoundWitness"
  shows "holds (co_inv E) (tick_round_witness t seed c)"
proof -
  have "co_base (c\<lparr>co_epoch_state := (co_epoch_state c)\<lparr>es_first_round := b\<rparr>, co_progress := q\<rparr>)" for b q
    using co_inv_parts(3) [OF i] by (simp add: co_base_def)
  note mv = move_clients_to_exited_eq [OF this]
  show ?thesis unfolding tick_round_witness_def Let_def
    using i count_step_between [OF i rs] by (auto simp: mv intro!: holds_need end_of_round_inv)
qed

lemma finish_epoch_rest:
  assumes "finish_epoch c = Some d" and "cool_ok c" and "co_base c"
  shows "at_rest d" and "co_base d" and "co_config d = co_config c"
    and "pr_step (co_progress d) = pr_step (co_progress c)" and "co_run_state d = co_run_state c"
    and "\<forall>x \<in> set (co_clients d). cl_state x = Healthy"
proof -
  obtain r where r: "current_round c = Some r" and st: "1 \<le> steps_done c"
    and di: "unat (r_data_index r) = data_after c (steps_done c - 1)"
    using assms(2) by (auto simp: cool_ok_def split: option.splits)
  have mv: "move_clients_to_exited h (c\<lparr>co_progress := q\<rparr>) = Some (exit_unhealthy h (c\<lparr>co_progress := q\<rparr>))" for h q
    using assms(3) by (intro move_clients_to_exited_eq) (simp add: co_base_def)
  obtain tokens j ep where t: "checked_mul (r_data_index r) (ucast (get_sequence_length c)) = Some tokens"
    and j: "checked_add (r_data_index r) (ucast (get_batch_size (co_config c) tokens)) = Some j"
    and d: "d = set_checkpoint hub_to_p2p (exit_unhealthy (r_height r)
       (set_progress (\<lambda>p. p\<lparr>pr_epoch_start_data_index := j, pr_epoch := ep\<rparr>) c))"
    using assms(1) r
    by (auto simp: finish_epoch_def get_target_global_batch_size_def total_tokens_processed_def mv
        current_round_unchecked_def current_round_def bind_eq_Some_conv Let_def)
  have "Suc (steps_done c - 1) = steps_done c" using st by simp
  then have "unat j = data_after c (steps_done c)" using data_step [OF t j di] by (simp only:)
  then show "at_rest d" by (simp add: at_rest_def d get_sequence_length_def)
  have "co_base (c\<lparr>co_progress := q\<rparr>)" for q using assms(3) by (simp add: co_base_def)
  from exit_unhealthy_base [OF this] have "co_base (exit_unhealthy h (c\<lparr>co_progress := q\<rparr>))" for h q .
  then show "co_base d" by (simp add: d co_base_def)
  show "co_config d = co_config c" "pr_step (co_progress d) = pr_step (co_progress c)"
    "co_run_state d = co_run_state c" "\<forall>x \<in> set (co_clients d). cl_state x = Healthy"
    by (simp_all add: d)
qed

lemma tick_cooldown_inv:
  assumes i: "co_inv E c" and rs: "co_run_state c = Cooldown"
  shows "holds (co_inv E) (tick_cooldown t c)"
proof -
  note p = co_inv_parts [OF i]
  have cool: "cool_ok c" using p(4) rs by (simp add: phase_ok_def)
  have "holds (co_inv E) (if sb_is_true (co_pending_pause d)
       then and_then (withdraw_all d) (\<lambda>c _.
              need (change_state t Paused c) (\<lambda>c.
                Done (set_epoch (es_cold_start_epoch_update (\<lambda>_. sb_new True))
                        (c\<lparr>co_pending_pause := sb_new False\<rparr>)) (EpochEnd True)))
       else need (start_waiting_for_members t d) (\<lambda>c.
              Done (set_epoch (es_cold_start_epoch_update (\<lambda>_. sb_new False)) c) (EpochEnd True)))"
    if "finish_epoch c = Some d" for d
  proof -
    note f = finish_epoch_rest [OF that cool p(3)]
    have ok: "config_check (co_config d)" "progress_check (co_progress d)"
      using p f by (simp_all add: progress_check_def)
    have wr: "at_rest (withdrawn_all d)" "co_base (withdrawn_all d)"
      using f(1,2) same_core_frames(1) [OF only_clients_frame(1) [OF withdrawn_all_only_clients]]
      by (auto simp: co_base_def withdrawn_all_def)
    have "co_inv E e \<Longrightarrow> co_inv E (set_epoch (es_cold_start_epoch_update g) e)" for e g
      by (erule same_core_inv) (simp_all add: same_core_def get_sequence_length_def)
    then show ?thesis
      using withdraw_all_healthy [OF f(6,2)] start_waiting_ok [OF _ f(1,2) ok] paused_ok [OF wr] ok
      by (auto simp: change_state_Some intro!: holds_need)
  qed
  then show ?thesis using i unfolding tick_cooldown_def by (intro holds_need) (auto intro!: holds_need)
qed

lemma tick_inv: "co_inv E c \<Longrightarrow> holds (co_inv E) (tick E new t seed c)"
  unfolding tick_def
  by (cases "co_run_state c")
    (simp_all add: tick_waiting_inv tick_warmup_inv tick_round_train_inv tick_round_witness_inv tick_cooldown_inv)

section \<open>The coordinator as a component\<close>

lemma holds_answer: "holds I r \<Longrightarrow> holds I (and_then r (\<lambda>c a. Done c (f a)))"
  by (cases r) auto

lemma co_exec_inv: "co_inv E c \<Longrightarrow> holds (co_inv E) (co_exec E cmd c)"
  by (cases cmd) (simp_all add: holds_answer tick_inv warmup_witness_inv witness_inv health_check_inv
      checkpoint_inv withdraw_inv withdraw_all_inv pause_inv resume_inv)

interpretation coord: guarded_component "co_exec E" "co_inv E" for E :: "'id node_env"
  by unfold_locales (rule co_exec_inv)

end
