(* ===== verification/Coordinator_Props.thy ===== *)
theory Coordinator_Props
  imports Coordinator_Steps
begin

text \<open>
  What the coordinator guarantees in every state that satisfies its invariant, and so in every state
  reached by commands from a fresh coordinator: the properties of witnesses, phases, steps, rounds,
  batch sizes, quorums, health checks and consensus.
\<close>

section \<open>A sample run\<close>

text \<open>An environment and a coordinator on which the hypotheses below can be evaluated.\<close>

definition sample_env :: "nat node_env" where
  "sample_env = externs.extend sample_externs \<lparr>ne_eq = (=), ne_as_ref = (\<lambda>i. [of_nat i])\<rparr>"

lemma sample_env_externs: "externs_ok sample_env"
  by (rule externs_ok_lsb0) (simp_all add: sample_env_def sample_externs_def externs.defs sha_ok_def)

definition sample_config :: coordinator_config where
  "sample_config = \<lparr>warmup_time = 30, cooldown_time = 30, max_round_train_time = 30, round_witness_time = 10,
     global_batch_size_warmup_tokens = 0, epoch_time = 1000, total_steps = 100, init_min_clients = 2,
     min_clients = 2, witness_nodes = 2, global_batch_size_start = 8, global_batch_size_end = 8,
     verification_percent = 0, waiting_for_members_extra_time = 3\<rparr>"

definition sample_llm :: llm where
  "sample_llm = \<lparr>max_seq_len = 2048, cold_start_warmup_steps = 0, llm_arch = HfLlama,
     llm_checkpoint = Hub \<lparr>hr_repo_id = [1], hr_revision = None\<rparr>, llm_data_type = Pretraining,
     llm_data_location = DataDummy,
     llm_lr_schedule = Constant \<lparr>clr_base_lr = 0, clr_warmup_init_lr = 0, clr_warmup_steps = 0\<rparr>,
     llm_optimizer = AdamW (0, 0) 0 0 None\<rparr>"

text \<open>A coordinator before its first epoch.\<close>

definition fresh :: "run_state \<Rightarrow> coordinator_config \<Rightarrow> llm \<Rightarrow> 'id coordinator" where
  "fresh s cfg l = \<lparr>co_run_id = [], co_run_state = s, co_model = LLM l, co_config = cfg,
     co_progress = default_progress, co_epoch_state = default_epoch_state, co_run_state_start = 0,
     co_pending_pause = SB_FALSE\<rparr>"

lemma fresh_inv:
  assumes "config_check cfg" and "s \<in> {Uninitialized, Paused}  \<or> s = WaitingForMembers \<and> 1 < total_steps cfg"
  shows "co_inv E (fresh s cfg l)"
  using assms
  by (auto simp: co_inv_def phase_ok_def fresh_def at_rest_def default_progress_def progress_check_def
      co_base_def default_epoch_state_def zero_epoch_state_def zero_round_def NUM_STORED_ROUNDS_def)

lemma sample_config_ok: "config_check sample_config"
  by (simp add: config_check_def sample_config_def SOLANA_MAX_NUM_CLIENTS_def SOLANA_MAX_NUM_WITNESSES_def)

text \<open>The sample coordinator in the training phase of its first round, with clients 7 and 9.\<close>

definition sample_training :: "nat coordinator" where
  "sample_training =
     (fresh RoundTrain sample_config sample_llm)\<lparr>co_epoch_state := default_epoch_state\<lparr>
        es_clients := [client_new 7, client_new 9], es_start_step := 1,
        es_rounds := [zero_round\<lparr>r_clients_len := 2, r_random_seed := 5\<rparr>, zero_round, zero_round, zero_round]\<rparr>\<rparr>"

lemma sample_training_inv: "co_inv sample_env sample_training"
proof -
  have "config_check (co_config sample_training)" using sample_config_ok by (simp add: sample_training_def fresh_def)
  moreover have "co_base sample_training"
    by (simp add: co_base_def sample_training_def fresh_def default_epoch_state_def zero_epoch_state_def
        zero_round_def NUM_STORED_ROUNDS_def SOLANA_MAX_NUM_CLIENTS_def)
  moreover have "ring_ok sample_training 0"
    by (simp add: ring_ok_def ring_round_def sample_training_def default_epoch_state_def zero_epoch_state_def zero_round_def)
  then have "train_ok sample_env sample_training"
    by (simp add: train_ok_def round_ok_def current_round_def nth_opt_def sample_training_def fresh_def
        default_epoch_state_def zero_epoch_state_def zero_round_def default_progress_def sample_config_def)
  ultimately show ?thesis
    by (simp add: co_inv_def phase_ok_def progress_check_def default_progress_def sample_training_def fresh_def)
qed

definition sample_witness :: witness where
  "sample_witness = \<lparr>w_proof = \<lparr>wp_position = 0, wp_index = 1, wp_witness = sb_new True\<rparr>,
     w_participant_bloom = bloom_default 16 8, w_broadcast_bloom = bloom_default 16 8,
     w_broadcast_merkle = replicate 32 0\<rparr>"

section \<open>The invariant along runs\<close>

text \<open>
  C1. Every run of the coordinator keeps its invariant: from a state that satisfies it, any sequence of
  ticks, witnesses, health checks, checkpoints, withdrawals, pauses and resumes (failing ones included)
  leads to a state that satisfies it again.
\<close>

theorem coordinator_run_invariant:
  assumes "co_inv E c"
  shows "co_inv E (run_cmds (co_exec E) cmds c)"
  by (rule coord.run_inv) (rule assms)

theorem coordinator_run_invariant_witness:
  "co_inv sample_env (run_cmds (co_exec sample_env) [CmdTick (Some [7, 9]) 5 1, CmdPause 6, CmdResume 7]
     (fresh WaitingForMembers sample_config sample_llm))"
  by (rule coordinator_run_invariant [OF fresh_inv [OF sample_config_ok]]) (simp add: sample_config_def)

section \<open>Witnesses\<close>

text \<open>The number of witnesses a round can record is the number the committee elects.\<close>

lemma training_round:
  assumes "co_inv E c" and "co_run_state c \<in> {RoundTrain, RoundWitness}"
  obtains r where "current_round c = Some r" and "round_ok E c r"
  using assms by (auto simp: co_inv_def phase_ok_def train_ok_def split: option.splits)

lemma clients_small: "co_base c \<Longrightarrow> length (co_clients c) \<le> 256"
  by (simp add: co_base_def SOLANA_MAX_NUM_CLIENTS_def)

lemma verified_bound:
  assumes X: "externs_ok E" and few: "length (co_clients c) \<le> 256" and r: "current_round c = Some r"
    and len: "unat (r_clients_len r) = length (co_clients c)"
    and d: "distinct (map (\<lambda>w. wp_index (w_proof w)) ws)" and ok: "\<forall>w \<in> set ws. witness_ok E c w"
  shows "length ws \<le> witness_nodes_of c"
proof (cases ws)
  case (Cons w ws')
  then obtain s where s: "from_coordinator E c 0 = Some (Inr s)" using ok by (auto simp: witness_ok_def)
  from from_coordinator_ok [OF s] r len have t: "unat (cs_total_nodes s) = length (co_clients c)"
    and wn: "unat (cs_witness_nodes s) = unat (witness_nodes (co_config c))" by auto
  have "length (map w_proof ws) \<le> min (witness_target s) (unat (cs_total_nodes s))"
  proof (rule accepted_witnesses_bound [OF X])
    show "unat (cs_total_nodes s) \<le> 2 ^ 63" using t few by simp
    show "distinct (map wp_index (map w_proof ws))" using d by (simp add: o_def)
    show "\<forall>p \<in> set (map w_proof ws). wp_index p < cs_total_nodes s \<and> verify_witness E s p = Some True \<and>
        sb_is_true (wp_witness p)"
      using ok s t by (auto simp: witness_ok_def word_less_nat_alt)
  qed
  then show ?thesis using t wn
    by (auto simp: witness_nodes_of_def witness_target_def unat_eq_zero split: if_splits)
qed (simp add: witness_nodes_of_def)

lemma witness_nodes_of_max:
  "config_check (co_config c) \<Longrightarrow> witness_nodes_of c \<le> SOLANA_MAX_NUM_WITNESSES"
  by (auto simp: witness_nodes_of_def config_check_def)




lemma training_selection:
  assumes "co_inv E c" and "co_run_state c \<in> {RoundTrain, RoundWitness}" and "verification_percent (co_config c) \<le> 100"
  obtains s where "from_coordinator E c 0 = Some (Inr s)"
proof -
  from training_round [OF assms(1,2)] obtain r where r: "current_round c = Some r" and ok: "round_ok E c r" .
  note p = co_inv_parts [OF assms(1)]
  have m: "unat (min_clients (co_config c)) \<le> length (co_clients c)"
    using p(4) assms(2) by (auto simp: phase_ok_def train_ok_def)
  have "\<exists>s. committee_selection_new E (ucast (r_tie_breaker_tasks r)) (ucast (witness_nodes (co_config c)))
      (verification_percent (co_config c)) (ucast (r_clients_len r)) (r_random_seed r) = Some (Inr s)"
  proof (rule committee_selection_new_total)
    show "unat (ucast (r_clients_len r) :: u64) < 2 ^ 16"
      using ok clients_small [OF p(3)] by (simp add: unat_ucast_up round_ok_def)
    show "ucast (r_tie_breaker_tasks r) \<le> (ucast (r_clients_len r) :: u64)"
      using ok by (simp add: round_ok_def)
    have "unat (witness_nodes (co_config c)) \<le> unat (r_clients_len r)"
      using p(1) m ok by (simp add: config_check_def round_ok_def word_le_nat_alt)
    then show "ucast (witness_nodes (co_config c)) = (0::u64) \<or>
        ucast (witness_nodes (co_config c)) \<le> (ucast (r_clients_len r) :: u64)"
      by (simp add: word_le_nat_alt unat_ucast_up)
  qed (rule assms(3))
  then show ?thesis using that r by (auto simp: from_coordinator_def)
qed

lemma verify_witness_for_client_total:
  assumes "externs_ok E" and "unat (cs_total_nodes s) = length cs" and "length cs \<le> 256"
  shows "\<exists>b. verify_witness_for_client E s i p cs = Some b"
proof (cases "verify_client E i (wp_index p) cs")
  case True
  then have "wp_index p < cs_total_nodes s"
    using assms(2) by (auto simp: verify_client_def nth_opt_iff word_less_nat_alt split: option.splits)
  then have "\<exists>k. cs_shuffled_index E s (wp_index p) WITNESS_SALT = Some k \<and> k < cs_total_nodes s"
    using assms(2,3) by (intro cs_shuffled_index_inj(3) [OF assms(1)]) simp_all
  then show ?thesis using True by (auto simp: verify_witness_for_client_def verify_witness_def)
qed (simp add: verify_witness_for_client_def exI [of _ False])

lemma witness_returns:
  assumes "externs_ok E" and "co_inv E c" and "co_run_state c \<in> {RoundTrain, RoundWitness}"
    and "verification_percent (co_config c) \<le> 100"
  shows "witness E i w t c = Fail c InvalidWitness \<or> witness E i w t c = Fail c DuplicateWitness \<or>
    (\<exists>r c'. current_round c = Some r \<and> witness E i w t c = Done c' () \<and>
       current_round c' = Some (r\<lparr>r_witnesses := r_witnesses r @ [w]\<rparr>) \<and>
       co_run_state c' = (if length (r_witnesses r) + 1 = witness_nodes_of c then RoundWitness
                          else co_run_state c))"
proof -
  note p = co_inv_parts [OF assms(2)]
  from training_round [OF assms(2,3)] obtain r where r: "current_round c = Some r" and ok: "round_ok E c r" .
  from training_selection [OF assms(2-4)] obtain s where s: "from_coordinator E c 0 = Some (Inr s)" .
  have tn: "unat (cs_total_nodes s) = length (co_clients c)"
    using from_coordinator_ok [OF s] r ok by (auto simp: round_ok_def)
  obtain v where v: "verify_witness_for_client E s i (w_proof w) (co_clients c) = Some v"
    using verify_witness_for_client_total [OF assms(1) tn clients_small [OF p(3)]] by blast
  obtain dup where dup: "already_witnessed E i (co_clients c) (r_witnesses r) = Some dup"
    using already_witnessed_total [of "r_witnesses r" "co_clients c"] ok
    unfolding round_ok_def witness_ok_def by blast
  have h: "\<not> halted c" using assms(3) by (auto simp: halted_def)
  let ?r = "r\<lparr>r_witnesses := r_witnesses r @ [w]\<rparr>"
  show ?thesis
  proof (cases "v \<and> \<not> sb_is_false (wp_witness (w_proof w)) \<and> \<not> dup")
    case True
    then have ok': "round_ok E (pushed w r c) ?r" using pushed_round_ok [OF r ok s] v dup by simp
    have cp: "current_round (pushed w r c) = Some ?r" using current_round_pushed [OF r] .
    have "length (r_witnesses ?r) \<le> witness_nodes_of (pushed w r c)"
      using ok' clients_small [OF p(3)] unfolding round_ok_def
      by (intro verified_bound [OF assms(1) _ cp]) (auto simp only: pushed_simps)
    then have len: "length (r_witnesses r) < SOLANA_MAX_NUM_WITNESSES"
      using witness_nodes_of_max [OF p(1)] by simp
    have push: "push_witness w c = Done (pushed w r c) (Suc (length (r_witnesses r)))"
      using len r by (simp add: push_witness_def current_round_unchecked_def current_round_def cap_push_def
          current_round_mut_unchecked_def pushed_def)
    have cs: "current_round (d\<lparr>co_run_state_start := t, co_run_state := RoundWitness\<rparr>) = current_round d" for d :: "'a coordinator"
      by (simp add: current_round_def)
    show ?thesis
      using True assms(3) h s v r dup push cp
      by (auto simp: witness_def change_state_def cs)
  next
    case False
    then show ?thesis using h s v r dup assms(3) by (auto simp: witness_def)
  qed
qed




section \<open>Phases and steps\<close>

text \<open>The state machine of a run.\<close>

inductive phase_step :: "run_state \<Rightarrow> run_state \<Rightarrow> bool" where
  members_arrived: "phase_step WaitingForMembers Warmup"
| warmed_up: "phase_step Warmup RoundTrain"
| members_lost: "phase_step Warmup WaitingForMembers"
| trained: "phase_step RoundTrain RoundWitness"
| next_one: "phase_step RoundWitness RoundTrain"
| epoch_ends: "phase_step RoundWitness Cooldown"
| next_epoch: "phase_step Cooldown WaitingForMembers"
| run_ends: "phase_step Cooldown Finished"
| pause_pending: "phase_step Cooldown Paused"
| pause_waiting: "phase_step WaitingForMembers Paused"
| pause_warmup: "phase_step Warmup Paused"
| resumed: "phase_step Paused WaitingForMembers"
| resumed_finished: "phase_step Paused Finished"

inductive_simps phase_step_from:
  "phase_step Uninitialized s" "phase_step WaitingForMembers s" "phase_step Warmup s" "phase_step RoundTrain s"
  "phase_step RoundWitness s" "phase_step Cooldown s" "phase_step Finished s" "phase_step Paused s"

definition moves :: "'id coordinator \<Rightarrow> 'id coordinator \<Rightarrow> bool" where
  "moves c d \<longleftrightarrow>
     (co_run_state d = co_run_state c \<and> co_step d = co_step c) \<or>
     (phase_step (co_run_state c) (co_run_state d) \<and>
      unat (co_step d) = unat (co_step c) + (if co_run_state c = RoundWitness then 1 else 0))"

lemma moves_refl [simp]: "moves c c"
  by (simp add: moves_def)

lemma moves_same: "co_run_state d = co_run_state c \<Longrightarrow> co_progress d = co_progress c \<Longrightarrow> moves c d"
  by (simp add: moves_def)

lemma holds_weaken: "holds P r \<Longrightarrow> (\<And>s. P s \<Longrightarrow> Q s) \<Longrightarrow> holds Q r"
  by (cases r) auto

lemma only_clients_moves: "only_clients c d \<Longrightarrow> moves c d"
  using only_clients_frame [of c d] by (intro moves_same) (auto simp: same_core_def)

lemma start_round_train_moves:
  assumes "start_round_train t seed tb c = Some d"
  shows "co_run_state d = RoundTrain \<and> co_progress d = co_progress c \<and> co_config d = co_config c \<and>
    co_clients d = co_clients c \<and> co_run_state c \<noteq> RoundTrain"
  using start_round_train_Some [OF assms] by (metis started_simps(1,3,4,6))

lemma start_cooldown_moves:
  "start_cooldown t c = Some d \<Longrightarrow> co_run_state d = Cooldown \<and> co_progress d = co_progress c"
  by (auto simp: start_cooldown_def current_round_mut_unchecked_def change_state_Some bind_eq_Some_conv
      split: option.splits)

lemma tick_waiting_moves:
  assumes "co_inv E c" and "co_run_state c = WaitingForMembers"
  shows "holds (moves c) (tick_waiting_for_members E pending t c)"
proof (cases "tick_waiting_for_members E pending t c")
  case (Fail d e)
  then show ?thesis
    by (auto simp: tick_waiting_for_members_def need_Fail Let_def split: option.splits if_splits)
next
  case (Done d a)
  then have "d = c \<or> co_run_state d = Warmup \<and> co_progress d = co_progress c"
    using move_clients_to_exited_eq [OF co_inv_parts(3) [OF assms(1)]]
    by (auto simp: tick_waiting_for_members_def need_Done new_epoch_eq Let_def start_warmup_def change_state_Some
        split: option.splits if_splits)
  then show ?thesis using Done assms(2) by (auto simp: moves_def phase_step_from)
qed simp

lemma tick_warmup_moves:
  assumes i: "co_inv E c" and rs: "co_run_state c = Warmup"
  shows "holds (moves c) (tick_warmup t seed c)"
proof -
  note p = co_inv_parts [OF i]
  have st: "co_step c < total_steps (co_config c)" using p(4) rs by (simp add: phase_ok_def warm_ok_def)
  have tr: "moves c d \<and> \<not> (of_nat (length (co_clients d)) :: u16) < min_clients (co_config d)"
    if "start_round_train t seed 0 c = Some d" for d
    using start_round_train_moves [OF that] clients_as_u16 [OF p(3)] p(4) rs
    by (simp add: moves_def phase_step_from phase_ok_def warm_ok_def word_less_nat_alt)
  have ex: "moves c (exit_unhealthy 0 c)" by (intro moves_same) simp_all
  have wt: "moves c e" if "start_waiting_for_members t (exit_unhealthy 0 c) = Some e" for e
    using that st rs by (auto simp: start_waiting_for_members_def change_state_Some moves_def phase_step_from)
  show ?thesis unfolding tick_warmup_def
  proof (intro holds_need, goal_cases)
    case (1 timeout d)
    then show ?case using tr ex wt
      by (auto simp: move_clients_to_exited_eq [OF p(3)] split: if_splits intro!: holds_need)
  qed
qed

lemma end_of_round_moves:
  assumes "\<forall>x \<in> set (co_clients c). cl_state x = Healthy" and "co_base c"
  shows "holds (\<lambda>d. co_progress d = co_progress c \<and> co_run_state d \<in> {RoundTrain, Cooldown})
    (end_of_round t seed nw c)"
proof -
  have s: "co_progress d = co_progress c" if "set_last_step t c = Some d" for d
    using set_last_step_Some [OF that] by auto
  show ?thesis
    unfolding end_of_round_def withdraw_all_healthy [OF assms]
    using s by (auto dest!: start_cooldown_moves start_round_train_moves intro!: holds_need)
qed

lemma tick_round_witness_moves:
  assumes i: "co_inv E c" and rs: "co_run_state c = RoundWitness"
  shows "holds (moves c) (tick_round_witness t seed c)"
proof -
  have b: "co_base (c\<lparr>co_epoch_state := (co_epoch_state c)\<lparr>es_first_round := b\<rparr>, co_progress := q\<rparr>)" for b q
    using co_inv_parts(3) [OF i] by (simp add: co_base_def)
  note mv = move_clients_to_exited_eq [OF b] and eb = exit_unhealthy_base [OF b]
  have "holds (moves c) (end_of_round t seed nw
      (exit_unhealthy h (c\<lparr>co_epoch_state := (co_epoch_state c)\<lparr>es_first_round := b\<rparr>,
         co_progress := (co_progress c)\<lparr>pr_step := n\<rparr>\<rparr>)))"
    if "checked_add (co_step c) 1 = Some n" for n h nw b
    by (rule holds_weaken [OF end_of_round_moves [OF _ eb]])
      (use checked_add_Some [OF that] rs in \<open>auto simp: moves_def phase_step_from\<close>)
  then show ?thesis unfolding tick_round_witness_def Let_def
    by (auto simp: mv intro!: holds_need)
qed

lemma tick_cooldown_moves:
  assumes i: "co_inv E c" and rs: "co_run_state c = Cooldown"
  shows "holds (moves c) (tick_cooldown t c)"
proof -
  note p = co_inv_parts [OF i]
  have cool: "cool_ok c" using p(4) rs by (simp add: phase_ok_def)
  have "moves c e" if "finish_epoch c = Some d" and "start_waiting_for_members t d = Some e" for d e
    using finish_epoch_rest(3-5) [OF that(1) cool p(3)] that(2) rs
    by (auto simp: start_waiting_for_members_def change_state_Some moves_def phase_step_from split: if_splits)
  moreover have "moves c e \<Longrightarrow> moves c (set_epoch f e)" for f e by (simp add: moves_def)
  moreover have "withdraw_all d = Done (withdrawn_all d) ()" if "finish_epoch c = Some d" for d
    using finish_epoch_rest(2,6) [OF that cool p(3)] by (intro withdraw_all_healthy)
  moreover have "moves c (set_epoch f ((withdrawn_all d)\<lparr>co_run_state_start := t, co_run_state := Paused,
      co_pending_pause := b\<rparr>))" if "finish_epoch c = Some d" for d f b
    using finish_epoch_rest(3-5) [OF that cool p(3)] rs by (simp add: moves_def phase_step_from)
  ultimately show ?thesis unfolding tick_cooldown_def
    by (auto simp: change_state_Some intro!: holds_need split: if_splits)
qed

lemma tick_moves: "co_inv E c \<Longrightarrow> holds (moves c) (tick E new t seed c)"
  unfolding tick_def
  by (cases "co_run_state c")
    (auto simp: tick_waiting_moves tick_warmup_moves tick_round_witness_moves tick_cooldown_moves
      tick_round_train_def change_state_Some moves_def phase_step_from intro!: holds_need)

lemma pause_moves: "holds (moves c) (pause t c)"
proof (cases "withdraw_all c")
  case (Done d a)
  then have "co_run_state d = co_run_state c \<and> co_progress d = co_progress c"
    using withdraw_all_only_clients [of c] only_clients_frame [of c d] by (simp add: same_core_def)
  then show ?thesis using Done
    by (cases "co_run_state c")
      (auto simp: pause_def halted_def active_def change_state_Some moves_def phase_step_from intro!: holds_need)
next
  case (Fail d e)
  then have "moves c d" using withdraw_all_only_clients [of c] only_clients_moves [of c d] by simp
  then show ?thesis using Fail by (auto simp: pause_def moves_def)
qed (simp add: pause_def moves_def)

lemma resume_moves: "holds (moves c) (resume t c)"
  by (auto simp: resume_def start_waiting_for_members_def change_state_Some moves_def phase_step_from
      intro!: holds_need)

lemma witness_moves: "holds (moves c) (witness E i w t c)"
proof (cases "witness E i w t c")
  case (Done d u)
  from witness_Done [OF Done] obtain c' n where rs: "co_run_state c \<in> {RoundWitness, RoundTrain}"
    and p: "push_witness w c = Done c' n"
    and d: "d = c' \<or> co_run_state c' \<noteq> RoundWitness \<and> d = c'\<lparr>co_run_state_start := t, co_run_state := RoundWitness\<rparr>"
    by metis
  have "co_run_state c' = co_run_state c \<and> co_progress c' = co_progress c" using push_witness_Done [OF p] by auto
  then show ?thesis using Done d rs by (auto simp: moves_def phase_step_from)
next
  case (Fail d e)
  then show ?thesis using witness_Fail [OF Fail] by simp
qed simp

lemma warmup_witness_moves: "holds (moves c) (warmup_witness E i w t seed c)"
proof (cases "warmup_witness E i w t seed c")
  case (Done d u)
  then show ?thesis
    by (auto simp: warmup_witness_def exec_iffs moves_def phase_step_from
      dest!: push_witness_Done start_round_train_moves split: if_splits)
qed (auto simp: warmup_witness_def exec_iffs dest!: push_witness_Fail split: if_splits)

lemma health_check_moves: "holds (moves c) (health_check E i checks c)"
  using check_unhealthy_state [of c E checks]
  by (cases "check_unhealthy E checks c") (auto simp: health_check_def moves_def split: option.split intro!: holds_need)

lemma checkpoint_moves: "holds (moves c) (checkpoint E i n repo c)"
  by (auto simp: checkpoint_def moves_def split: option.split)

text \<open>
  C2. The run follows its state machine. Every command either leaves the phase and the step counter alone
  or takes one edge of \<open>phase_step\<close>; the step counter grows by one exactly when a witnessed round ends,
  and otherwise does not change. In particular \<open>Finished\<close> and \<open>Uninitialized\<close> are never left.
\<close>

theorem run_follows_state_machine:
  assumes "co_inv E c"
  shows "holds (\<lambda>d. (co_run_state d = co_run_state c \<and> co_step d = co_step c) \<or>
      (phase_step (co_run_state c) (co_run_state d) \<and>
       unat (co_step d) = unat (co_step c) + (if co_run_state c = RoundWitness then 1 else 0)))
    (co_exec E cmd c)"
proof -
  have "holds (moves c) (co_exec E cmd c)"
    using holds_weaken [OF withdraw_only_clients only_clients_moves]
      holds_weaken [OF withdraw_all_only_clients only_clients_moves] assms
    by (cases cmd) (auto simp: tick_moves witness_moves warmup_witness_moves health_check_moves
        checkpoint_moves pause_moves resume_moves intro!: holds_answer)
  then show ?thesis by (rule holds_weaken) (simp add: moves_def)
qed

theorem run_follows_state_machine_witness:
  "holds (\<lambda>d. (co_run_state d = WaitingForMembers \<and> co_step d = 1) \<or>
      (phase_step WaitingForMembers (co_run_state d) \<and> unat (co_step d) = 1))
    (co_exec sample_env (CmdTick (Some [7, 9]) 5 1) (fresh WaitingForMembers sample_config sample_llm))"
proof -
  have i: "co_inv sample_env (fresh WaitingForMembers sample_config sample_llm)"
    by (rule fresh_inv [OF sample_config_ok]) (simp add: sample_config_def)
  show ?thesis using run_follows_state_machine [OF i, of "CmdTick (Some [7, 9]) 5 1"]
    by (simp add: fresh_def default_progress_def)
qed


section \<open>Ticks return\<close>

text \<open>Room left in the fixed-width counters: no timer, counter or data index is about to overflow.\<close>

definition headroom :: "'id coordinator \<Rightarrow> bool" where
  "headroom c \<longleftrightarrow>
     (\<forall>d \<in> {warmup_time (co_config c), cooldown_time (co_config c), max_round_train_time (co_config c),
            round_witness_time (co_config c), ucast (waiting_for_members_extra_time (co_config c))}.
        unat d + unat (co_run_state_start c) < 2 ^ 64) \<and>
     unat (es_start_timestamp (co_epoch_state c)) + unat (epoch_time (co_config c)) < 2 ^ 64 \<and>
     unat (co_step c) + 3 < 2 ^ 32 \<and> unat (pr_epoch (co_progress c)) + 1 < 2 ^ 16 \<and>
     (\<forall>r. current_round c = Some r \<longrightarrow>
        unat (r_data_index r) * unat (get_sequence_length c) < 2 ^ 64 \<and> unat (r_data_index r) + 2 ^ 16 \<le> 2 ^ 64)"

lemma check_timeout_total:
  "unat d + unat (co_run_state_start c) < 2 ^ 64 \<Longrightarrow> \<exists>b. check_timeout t d c = Some b"
  by (cases "co_run_state_start c = t") (auto simp: check_timeout_def checked_add_fits)

lemma base_current_round: "co_base c \<Longrightarrow> \<exists>r. current_round c = Some r \<and> current_round_unchecked c = Some r"
  by (simp add: co_base_def current_round_def current_round_unchecked_def nth_opt_def)

lemma start_cooldown_total: "co_base c \<Longrightarrow> co_run_state c \<noteq> Cooldown \<Longrightarrow> \<exists>d. start_cooldown t c = Some d"
  by (simp add: start_cooldown_def current_round_mut_unchecked_def nth_opt_def co_base_def change_state_def)

lemma data_index_fits:
  fixes i :: u64
  assumes "unat i * unat sl < 2 ^ 64" and "unat i + 2 ^ 16 \<le> 2 ^ 64"
  shows "\<exists>tokens. checked_mul i (ucast (sl :: u32)) = Some tokens" and "\<exists>j. checked_add i (ucast (b :: u16)) = Some j"
proof -
  show "\<exists>tokens. checked_mul i (ucast sl) = Some tokens" using assms(1) by (simp add: checked_mul_def unat_ucast_up)
  have "unat b < 2 ^ 16" using unat_less_pow [of b] by simp
  then show "\<exists>j. checked_add i (ucast b) = Some j" using assms(2) by (simp add: checked_add_def unat_ucast_up)
qed

lemma start_round_train_total:
  assumes base: "co_base c" and start: "can_start c" and rs: "co_run_state c \<noteq> RoundTrain"
    and r: "\<And>r. current_round c = Some r \<Longrightarrow>
      unat (r_data_index r) * unat (get_sequence_length c) < 2 ^ 64 \<and> unat (r_data_index r) + 2 ^ 16 \<le> 2 ^ 64"
  shows "\<exists>d. start_round_train t seed tb c = Some d"
proof -
  obtain rd where rd: "current_round c = Some rd" using base_current_round [OF base] by blast
  have len: "length (co_rounds c) = 4" "co_head c < 4" using base by (auto simp: co_base_def NUM_STORED_ROUNDS_def)
  have "\<exists>nh ht di. next_round c = Some (nh, ht, di) \<and> nh < 4"
  proof (cases "sb_is_true (es_first_round (co_epoch_state c))")
    case False
    have rd': "nth_opt (co_rounds c) (co_head c) = Some rd" using rd by (simp add: current_round_def)
    have ht: "unat (co_step c) = unat (es_start_step (co_epoch_state c)) + unat (r_height rd) + 1"
      using start False rd by (simp add: can_start_def)
    have "unat (r_height rd) + 1 < 2 ^ 32" using ht unat_less_pow [of "co_step c"] by simp
    then have h1: "\<exists>h. checked_add (r_height rd) 1 = Some h" by (simp add: checked_add_def)
    have h2: "\<exists>h. checked_add (es_rounds_head (co_epoch_state c)) 1 = Some h"
      using len(2) by (simp add: checked_add_def)
    obtain tokens where t: "checked_mul (r_data_index rd) (ucast (get_sequence_length c)) = Some tokens"
      using data_index_fits(1) r [OF rd] by blast
    have "\<exists>j. checked_add (r_data_index rd) (ucast (get_batch_size (co_config c) tokens)) = Some j"
      using data_index_fits(2) r [OF rd] by blast
    then show ?thesis using False rd' h1 h2 t len by (auto simp: next_round_def)
  qed (simp add: next_round_def)
  then show ?thesis using len rs by (auto simp: start_round_train_def nth_opt_def change_state_def Let_def)
qed

lemma witness_quorum_total: "num \<noteq> 0 \<Longrightarrow> \<exists>q. witness_quorum num c = Some q"
  by (simp add: witness_quorum_def Let_def)

lemma end_of_round_total:
  assumes b: "between c" and h: "\<forall>x \<in> set (co_clients c). cl_state x = Healthy" and rs: "co_run_state c = RoundWitness"
    and ts: "unat (es_start_timestamp (co_epoch_state c)) + unat (epoch_time (co_config c)) < 2 ^ 64"
    and st: "unat (co_step c) + 2 < 2 ^ 32"
    and r: "\<And>r. current_round c = Some r \<Longrightarrow>
      unat (r_data_index r) * unat (get_sequence_length c) < 2 ^ 64 \<and> unat (r_data_index r) + 2 ^ 16 \<le> 2 ^ 64"
  shows "\<exists>d. end_of_round t seed nw c = Done d Ticked"
proof -
  have base: "co_base c" using b by (simp add: between_def)
  have "\<exists>over. check_epoch_timeout t c = Some over"
    using ts by (cases "es_start_timestamp (co_epoch_state c) = t") (auto simp: check_epoch_timeout_def checked_add_fits)
  moreover have "checked_add (co_step c) 2 = Some (co_step c + 2)" using st by (simp add: checked_add_fits)
  ultimately have "\<exists>y. set_last_step t c = Some y" by (auto simp: set_last_step_def)
  then obtain y where y: "set_last_step t c = Some y" by blast
  obtain k where yk: "y = set_epoch (es_last_step_update (\<lambda>_. k)) c" using set_last_step_Some [OF y] by blast
  have bw: "between y" using between_last_step [OF b y] .
  have ry: "current_round y = current_round c" "get_sequence_length y = get_sequence_length c" "co_run_state y = RoundWitness"
    using rs by (simp_all add: yk current_round_def get_sequence_length_def)
  obtain z where z: "start_cooldown t y = Some z"
    using start_cooldown_total [of y t] bw ry by (auto simp: between_def)
  obtain z' where z': "start_round_train t seed 0 y = Some z'"
    using start_round_train_total [of y t seed 0] bw ry r by (auto simp: between_def)
  have "co_base (withdrawn_all c)" using between_withdrawn [OF b] by (simp add: between_def)
  then obtain z'' where z'': "start_cooldown t (withdrawn_all c) = Some z''"
    using start_cooldown_total [of "withdrawn_all c" t] rs by auto
  have over: "\<exists>ov. epoch_over nw y = Some ov" if "nw \<noteq> 0"
    using witness_quorum_total [OF that, of y] by (auto simp: epoch_over_def)
  show ?thesis
    unfolding end_of_round_def withdraw_all_healthy [OF h base]
    using y z z' z'' over by (cases "nw = 0") auto
qed

lemma tick_round_witness_total:
  assumes i: "co_inv E c" and rs: "co_run_state c = RoundWitness" and hr: "headroom c"
  shows "\<exists>d r. tick_round_witness t seed c = Done d r"
proof -
  note p = co_inv_parts [OF i]
  let ?d = "\<lambda>n. c\<lparr>co_epoch_state := (co_epoch_state c)\<lparr>es_first_round := sb_new False\<rparr>,
    co_progress := (co_progress c)\<lparr>pr_step := n\<rparr>\<rparr>"
  obtain b where b: "check_timeout t (round_witness_time (co_config c)) c = Some b"
    using hr check_timeout_total by (fastforce simp: headroom_def)
  have n: "checked_add (co_step c) 1 = Some (co_step c + 1)" using hr by (simp add: headroom_def checked_add_fits)
  have un: "unat (co_step c + 1) = unat (co_step c) + 1" using checked_add_Some [OF n] by simp
  have mv: "move_clients_to_exited h (?d n) = Some (exit_unhealthy h (?d n))" for h n
    using p(3) by (intro move_clients_to_exited_eq) (simp add: co_base_def)
  have cr: "current_round_unchecked (?d n) = current_round c" for n
    by (simp add: current_round_unchecked_def current_round_def)
  obtain rc where rc: "current_round c = Some rc" using base_current_round [OF p(3)] by blast
  have "\<exists>d. end_of_round t seed nw (exit_unhealthy h (?d (co_step c + 1))) = Done d Ticked" for nw h
  proof (rule end_of_round_total)
    show "between (exit_unhealthy h (?d (co_step c + 1)))" using count_step_between [OF i rs n] by simp
  qed (use hr rs un in \<open>auto simp: headroom_def exit_unhealthy_def current_round_def get_sequence_length_def\<close>)
  then obtain z where "end_of_round t seed (of_nat (length (r_witnesses rc)))
      (exit_unhealthy (r_height rc) (?d (co_step c + 1))) = Done z Ticked" by blast
  then show ?thesis using b n mv cr rc by (cases b) (simp_all add: tick_round_witness_def Let_def)
qed

lemma tick_cooldown_total:
  assumes i: "co_inv E c" and rs: "co_run_state c = Cooldown" and hr: "headroom c"
  shows "\<exists>d r. tick_cooldown t c = Done d r"
proof -
  note p = co_inv_parts [OF i]
  obtain b where b: "check_timeout t (cooldown_time (co_config c)) c = Some b"
    using hr check_timeout_total by (fastforce simp: headroom_def)
  obtain rc where rc: "current_round c = Some rc" "current_round_unchecked c = Some rc"
    using base_current_round [OF p(3)] by blast
  have fits: "unat (r_data_index rc) * unat (get_sequence_length c) < 2 ^ 64" "unat (r_data_index rc) + 2 ^ 16 \<le> 2 ^ 64"
    using hr rc by (simp_all add: headroom_def)
  obtain tokens where t: "checked_mul (r_data_index rc) (ucast (get_sequence_length c)) = Some tokens"
    using data_index_fits(1) [OF fits] by blast
  obtain j where j: "checked_add (r_data_index rc) (ucast (get_batch_size (co_config c) tokens)) = Some j"
    using data_index_fits(2) [OF fits] by blast
  have ep: "\<exists>e. checked_add (pr_epoch (co_progress c)) 1 = Some e" using hr by (simp add: headroom_def checked_add_def)
  have mv: "move_clients_to_exited h (c\<lparr>co_progress := q\<rparr>) = Some (exit_unhealthy h (c\<lparr>co_progress := q\<rparr>))" for h q
    using p(3) by (intro move_clients_to_exited_eq) (simp add: co_base_def)
  obtain d where d: "finish_epoch c = Some d"
    using rc t j ep mv by (auto simp: finish_epoch_def get_target_global_batch_size_def total_tokens_processed_def Let_def)
  note f = finish_epoch_rest [OF d _ p(3)]
  have cool: "cool_ok c" using p(4) rs by (simp add: phase_ok_def)
  have "withdraw_all d = Done (withdrawn_all d) ()" using withdraw_all_healthy f [OF cool] by blast
  then show ?thesis using b d f(5) [OF cool] rs
    by (auto simp: tick_cooldown_def change_state_def start_waiting_for_members_def)
qed

text \<open>
  C13. A running coordinator does not get stuck: as long as its fixed-width counters have room, \<open>tick\<close>
  returns \<open>Ok\<close> in every phase that is not halted. No assertion of \<open>change_state\<close> fires, no index is out of
  range, no vector overflows, and no \<open>withdraw\<close> inside a tick is refused.
\<close>

theorem tick_returns:
  assumes "co_inv E c" and "\<not> halted c" and "headroom c"
  shows "\<exists>d r. tick E new t seed c = Done d r"
proof -
  note p = co_inv_parts [OF assms(1)]
  have to: "\<exists>b. check_timeout t (warmup_time (co_config c)) c = Some b"
    "\<exists>b. check_timeout t (cooldown_time (co_config c)) c = Some b"
    "\<exists>b. check_timeout t (max_round_train_time (co_config c)) c = Some b"
    "\<exists>b. check_timeout t (round_witness_time (co_config c)) c = Some b"
    "\<exists>b. check_timeout t (ucast (waiting_for_members_extra_time (co_config c))) c = Some b"
    using assms(3) by (auto simp: headroom_def intro!: check_timeout_total)
  have dr: "current_round c = Some r \<Longrightarrow> unat (r_data_index r) * unat (get_sequence_length c) < 2 ^ 64 \<and>
      unat (r_data_index r) + 2 ^ 16 \<le> 2 ^ 64" for r
    using assms(3) by (simp add: headroom_def)
  obtain rc where rc: "current_round c = Some rc" "current_round_unchecked c = Some rc"
    using base_current_round [OF p(3)] by blast
  consider "co_run_state c = WaitingForMembers" | "co_run_state c = Warmup" | "co_run_state c = RoundTrain"
    | "co_run_state c = RoundWitness" | "co_run_state c = Cooldown"
    using assms(2) by (cases "co_run_state c") (auto simp: halted_def)
  then show ?thesis
  proof cases
    case 1
    then show ?thesis using to(5) rc move_clients_to_exited_eq [OF p(3)]
      by (auto simp: tick_def tick_waiting_for_members_def new_epoch_eq start_warmup_def change_state_def Let_def
          split: option.split)
  next
    case 2
    have "can_start c" using p(4) 2 by (simp add: phase_ok_def warm_can_start)
    then obtain d where d: "start_round_train t seed 0 c = Some d"
      using start_round_train_total [OF p(3) _ _ dr, of t seed 0] 2 by auto
    have "\<exists>e. start_waiting_for_members t d = Some e" using start_round_train_moves [OF d]
      by (auto simp: start_waiting_for_members_def change_state_def)
    moreover have "\<exists>e. start_waiting_for_members t (exit_unhealthy 0 c) = Some e"
      using 2 by (auto simp: start_waiting_for_members_def change_state_def)
    ultimately show ?thesis using to(1) 2 d move_clients_to_exited_eq [OF p(3)]
      by (auto simp: tick_def tick_warmup_def)
  next
    case 3
    then show ?thesis using to(3) by (auto simp: tick_def tick_round_train_def change_state_def)
  next
    case 4
    then show ?thesis using tick_round_witness_total [OF assms(1) _ assms(3)] by (simp add: tick_def)
  next
    case 5
    then show ?thesis using tick_cooldown_total [OF assms(1) _ assms(3)] by (simp add: tick_def)
  qed
qed

theorem tick_returns_witness: "\<exists>d r. tick sample_env None 40 6 sample_training = Done d r"
proof -
  have "\<not> halted sample_training" by (simp add: halted_def sample_training_def fresh_def)
  moreover have "headroom sample_training"
    by (simp add: headroom_def current_round_def nth_opt_def sample_training_def fresh_def sample_config_def
        default_epoch_state_def zero_epoch_state_def zero_round_def default_progress_def unat_ucast_up)
  ultimately show ?thesis by (rule tick_returns [OF sample_training_inv])
qed

end
