(* ===== verification/Coordinator_Reads.thy ===== *)
theory Coordinator_Reads
  imports Coordinator_Props
begin

text \<open>
  Properties of what is read off the coordinator: earlier rounds of the ring buffer, the batch size
  schedule, the quorum, the clients of an earlier round, health checks and the consensus commitment.
\<close>

section \<open>Earlier rounds\<close>

lemma ring_back:
  assumes "ring_ok c h" and "k < NUM_STORED_ROUNDS" and "k \<le> h"
  shows "unat (r_height (co_rounds c ! ((h - k) mod NUM_STORED_ROUNDS))) = h - k"
  using assms by (simp add: ring_ok_def ring_round_def)

lemma mod4_pred: "0 < h \<Longrightarrow> (h - 1) mod 4 = (if h mod 4 = 0 then 3 else h mod 4 - 1)" for h :: nat
  by (cases h) (auto simp: mod_Suc)

lemma mod4_pred2:
  "2 \<le> h \<Longrightarrow> (h - 2) mod 4 = (if h mod 4 = 0 then 2 else if h mod 4 = 1 then 3 else h mod 4 - 2)" for h :: nat
  by (cases h; cases "h - 1") (auto simp: mod_Suc)

text \<open>
  The ring buffer of four rounds remembers the two rounds before the current one: while training,
  \<open>previous_round\<close> is absent in the first round of an epoch and is otherwise the round with the previous
  height, and from height 2 on \<open>previous_previous_round\<close> is the round two heights back.
\<close>

theorem earlier_rounds_found:
  assumes "co_inv E c" and "co_run_state c \<in> {RoundTrain, RoundWitness}" and "current_round c = Some r"
  shows "(r_height r = 0 \<longrightarrow> previous_round c = None) \<and>
    (0 < r_height r \<longrightarrow> (\<exists>q. previous_round c = Some q \<and> unat (r_height q) = unat (r_height r) - 1)) \<and>
    (2 \<le> r_height r \<longrightarrow> (\<exists>q. previous_previous_round c = Some q \<and> unat (r_height q) = unat (r_height r) - 2))"
proof -
  obtain r' where "current_round c = Some r'" "round_ok E c r'" by (rule training_round [OF assms(1,2)])
  then have ring: "ring_ok c (unat (r_height r))" using assms(3) by (simp add: round_ok_def)
  then have hd: "co_head c = unat (r_height r) mod 4" by (simp add: ring_ok_def NUM_STORED_ROUNDS_def)
  have z: "es_rounds_head (co_epoch_state c) = 0 \<longleftrightarrow> co_head c = 0"
    and one: "es_rounds_head (co_epoch_state c) = 1 \<longleftrightarrow> co_head c = 1"
    by (simp_all add: word_unat_eq_iff)
  have p: "r_height r = 0 \<Longrightarrow> previous_round c = None" using assms(3) hd z by (simp add: previous_round_def)
  have q: "\<exists>q. previous_round c = Some q \<and> unat (r_height q) = unat (r_height r) - 1" if "0 < r_height r"
  proof -
    have h: "0 < unat (r_height r)" using that by (simp add: word_less_nat_alt)
    then show ?thesis using ring_back [OF ring, of 1] assms(3) hd z that mod4_pred [OF h]
      by (auto simp: previous_round_def NUM_STORED_ROUNDS_def split: if_splits)
  qed
  have pp: "\<exists>q. previous_previous_round c = Some q \<and> unat (r_height q) = unat (r_height r) - 2" if "2 \<le> r_height r"
  proof -
    have h: "2 \<le> unat (r_height r)" using that by (simp add: word_le_nat_alt)
    then have n1: "\<not> r_height r \<le> 1" by (simp add: word_le_nat_alt)
    show ?thesis using ring_back [OF ring, of 2] h assms(3) hd z one n1 mod4_pred2 [OF h]
      by (auto simp: previous_previous_round_def NUM_STORED_ROUNDS_def split: if_splits)
  qed
  show ?thesis using p q pp by blast
qed

theorem earlier_rounds_found_witness:
  "previous_round sample_training = None"
proof -
  have t: "co_run_state sample_training \<in> {RoundTrain, RoundWitness}" by (simp add: sample_training_def fresh_def)
  have r: "current_round sample_training = Some (zero_round\<lparr>r_clients_len := 2, r_random_seed := 5\<rparr>)"
    by (simp add: current_round_def nth_opt_def sample_training_def default_epoch_state_def zero_epoch_state_def)
  show ?thesis using earlier_rounds_found [OF sample_training_inv t r] by (simp add: zero_round_def)
qed

text \<open>
  The second round of an epoch has no round two before it, and yet \<open>previous_previous_round\<close> answers
  with the last slot of the ring, which this epoch has not written.
\<close>

theorem previous_previous_round_unwritten:
  assumes "co_inv E c" and "co_run_state c \<in> {RoundTrain, RoundWitness}" and "current_round c = Some r"
    and "r_height r = 1"
  shows "previous_previous_round c = Some (co_rounds c ! 3)"
proof -
  obtain r' where "current_round c = Some r'" "round_ok E c r'" by (rule training_round [OF assms(1,2)])
  then have "co_head c = 1" using assms(3,4) by (simp add: round_ok_def ring_ok_def NUM_STORED_ROUNDS_def)
  then have "es_rounds_head (co_epoch_state c) = 1" by (simp add: word_unat_eq_iff)
  then show ?thesis using assms(3) by (simp add: previous_previous_round_def NUM_STORED_ROUNDS_def)
qed

section \<open>Batch size\<close>

definition batch_progress :: "coordinator_config \<Rightarrow> u64 \<Rightarrow> rat" where
  "batch_progress cfg tokens = rnd64 (f64_of_nat (unat tokens) / f64_of_nat (unat (global_batch_size_warmup_tokens cfg)))"

definition batch_lerp :: "coordinator_config \<Rightarrow> rat \<Rightarrow> rat" where
  "batch_lerp cfg p = rnd64 (of_int (int (unat (global_batch_size_start cfg))) +
     rnd64 (rnd64 (of_int (int (unat (global_batch_size_end cfg))) - of_int (int (unat (global_batch_size_start cfg)))) * p))"

lemma get_batch_size_alt:
  "get_batch_size cfg tokens = (if global_batch_size_warmup_tokens cfg \<le> tokens then global_batch_size_end cfg
     else f64_as_u16 (f64_round (batch_lerp cfg (batch_progress cfg tokens))))"
  by (simp add: get_batch_size_def Let_def batch_lerp_def batch_progress_def del: of_nat_unat)

lemma batch_progress_unit:
  "tokens < global_batch_size_warmup_tokens cfg \<Longrightarrow> 0 \<le> batch_progress cfg tokens \<and> batch_progress cfg tokens \<le> 1"
  using f64.ratio_unit [of "of_nat (unat tokens)" "of_nat (unat (global_batch_size_warmup_tokens cfg))"]
  by (simp add: batch_progress_def f64_of_nat_def word_less_nat_alt del: of_nat_unat)

lemma batch_progress_mono:
  assumes "t \<le> t'" shows "batch_progress cfg t \<le> batch_progress cfg t'"
  unfolding batch_progress_def f64_of_nat_def
  using assms by (intro f64.rnd_mono divide_right_mono f64.rnd_nonneg) (simp_all add: word_le_nat_alt del: of_nat_unat)

lemma u16_small: "int (unat (x :: u16)) \<le> 65535"
  using unat_less_pow [of x] by (simp del: of_nat_unat)

lemma batch_lerp_bounds:
  assumes "global_batch_size_start cfg \<le> global_batch_size_end cfg" and "0 \<le> p" and "p \<le> 1"
  shows "of_int (int (unat (global_batch_size_start cfg))) \<le> batch_lerp cfg p"
    and "batch_lerp cfg p \<le> of_int (int (unat (global_batch_size_end cfg)))"
  using f64.lerp_bounds [of "int (unat (global_batch_size_start cfg))" "int (unat (global_batch_size_end cfg))" p]
    assms u16_small [of "global_batch_size_end cfg"]
  unfolding batch_lerp_def by (simp_all add: word_le_nat_alt del: of_nat_unat)

lemma rounded_batch_bounds:
  assumes "of_int (int (unat a)) \<le> x" and "x \<le> of_int (int (unat (b :: u16)))"
  shows "a \<le> f64_as_u16 (f64_round x) \<and> f64_as_u16 (f64_round x) \<le> b"
proof -
  note f = f64_round_bounds [OF assms]
  have "(of_int (int (unat b)) :: rat) \<le> of_int 65535" using u16_small [of b] by (simp only: of_int_le_iff)
  then have "f64_round x \<le> 65535" using f [OF of_nat_0_le_iff] by (simp del: of_nat_unat of_int_of_nat_eq)
  moreover have "(0 :: rat) \<le> of_int (int (unat a))" by (simp only: of_int_0_le_iff of_nat_0_le_iff)
  then have "0 \<le> f64_round x" using f [OF of_nat_0_le_iff] by linarith
  ultimately have u: "int (unat (f64_as_u16 (f64_round x))) = \<lfloor>f64_round x\<rfloor>" by (intro unat_f64_as_u16)
  have "int (unat a) \<le> \<lfloor>f64_round x\<rfloor>" "\<lfloor>f64_round x\<rfloor> \<le> int (unat b)"
    using f [OF of_nat_0_le_iff] by (simp_all add: le_floor_iff floor_le_iff del: of_nat_unat)
  then show ?thesis using u by (simp add: word_le_nat_alt del: of_nat_unat)
qed

text \<open>
  The batch size warms up monotonically within its bounds: for a configuration with
  \<open>start \<le> end\<close> the batch size computed in double precision is never below the start size nor above the
  end size, never shrinks as more tokens are processed, and is the end size once the warmup is over.
\<close>

theorem batch_size_schedule:
  assumes "global_batch_size_start cfg \<le> global_batch_size_end cfg"
  shows "global_batch_size_start cfg \<le> get_batch_size cfg t \<and> get_batch_size cfg t \<le> global_batch_size_end cfg \<and>
    (t \<le> t' \<longrightarrow> get_batch_size cfg t \<le> get_batch_size cfg t') \<and>
    (global_batch_size_warmup_tokens cfg \<le> t \<longrightarrow> get_batch_size cfg t = global_batch_size_end cfg)"
proof -
  let ?W = "global_batch_size_warmup_tokens cfg"
  have b: "global_batch_size_start cfg \<le> get_batch_size cfg s \<and> get_batch_size cfg s \<le> global_batch_size_end cfg" for s
  proof (cases "?W \<le> s")
    case False
    then have "0 \<le> batch_progress cfg s" "batch_progress cfg s \<le> 1" using batch_progress_unit [of s cfg] by auto
    then show ?thesis using False rounded_batch_bounds [OF batch_lerp_bounds [OF assms]] by (simp add: get_batch_size_alt)
  qed (use assms in \<open>simp add: get_batch_size_alt\<close>)
  have m: "get_batch_size cfg t \<le> get_batch_size cfg t'" if "t \<le> t'"
  proof (cases "?W \<le> t'")
    case True
    then show ?thesis using b [of t] by (simp add: get_batch_size_alt)
  next
    case False
    then have lt: "t < ?W" "t' < ?W" "\<not> ?W \<le> t" using that by auto
    have "batch_lerp cfg (batch_progress cfg t) \<le> batch_lerp cfg (batch_progress cfg t')"
      unfolding batch_lerp_def using assms batch_progress_mono [OF that]
      by (intro f64.lerp_mono) (simp_all add: word_le_nat_alt del: of_nat_unat)
    moreover have "0 \<le> batch_lerp cfg (batch_progress cfg t)"
      using batch_lerp_bounds(1) [OF assms] batch_progress_unit [OF lt(1)] by (meson of_int_0_le_iff of_nat_0_le_iff order_trans)
    ultimately show ?thesis using lt False by (simp add: get_batch_size_alt f64_as_u16_mono f64_round_mono)
  qed
  show ?thesis using b m by (auto simp: get_batch_size_alt)
qed

theorem batch_size_schedule_witness:
  "(8 :: u16) \<le> get_batch_size (sample_config\<lparr>global_batch_size_warmup_tokens := 1000, global_batch_size_end := 64\<rparr>) 300 \<and>
   get_batch_size (sample_config\<lparr>global_batch_size_warmup_tokens := 1000, global_batch_size_end := 64\<rparr>) 300 \<le> 64"
  using batch_size_schedule [of "sample_config\<lparr>global_batch_size_warmup_tokens := 1000, global_batch_size_end := 64\<rparr>" 300]
  by (simp add: sample_config_def)

section \<open>Quorum\<close>

text \<open>
  C26. The witness quorum is exactly two thirds of the witness nodes, rounded down, although it is computed
  in double precision, with the special values 1 of 1 and 2 of 2; it never exceeds the number of nodes.
\<close>

theorem witness_quorum_exact:
  assumes "wn = (if witness_nodes (co_config c) = 0 then num else witness_nodes (co_config c))" and "wn \<noteq> 0"
  shows "\<exists>q. witness_quorum num c = Some q \<and>
    unat q = (if unat wn \<le> 2 then unat wn else 2 * unat wn div 3) \<and> q \<le> wn"
proof -
  have big: "unat (f64_as_u16 (rnd64 (of_nat (unat wn) * rnd64 (2 / 3)))) = 2 * unat wn div 3" if "3 < unat wn"
  proof -
    let ?x = "rnd64 (of_nat (unat wn) * rnd64 (2 / 3))"
    have f: "\<lfloor>?x\<rfloor> = 2 * int (unat wn) div 3"
      using rnd64_mult_two_thirds [of "int (unat wn)"] that unat_less_pow [of wn] by (simp del: of_nat_unat)
    have "0 \<le> \<lfloor>?x\<rfloor>" "\<lfloor>?x\<rfloor> < 65535" unfolding f using unat_less_pow [of wn] by (simp_all del: of_nat_unat)
    then have "0 \<le> ?x" "?x \<le> 65535" by linarith+
    then have "int (unat (f64_as_u16 ?x)) = 2 * int (unat wn) div 3" using unat_f64_as_u16 f by (simp only:)
    also have "\<dots> = int (2 * unat wn div 3)" by (simp del: of_nat_unat)
    finally show ?thesis by linarith
  qed
  consider "wn = 1" | "wn = 2" | "wn = 3" | "3 < unat wn"
    using assms(2) by (force simp: word_unat_eq_iff)
  then show ?thesis
  proof cases
    case 4
    then have ne: "wn \<noteq> 1" "wn \<noteq> 2" "wn \<noteq> 3" by auto
    let ?q = "f64_as_u16 (rnd64 (of_nat (unat wn) * rnd64 (2 / 3)))"
    have "1 \<le> ?q" using big [OF 4] 4 by (simp add: word_le_nat_alt del: of_nat_unat)
    then have "max ?q 1 = ?q" by (rule max_absorb1)
    then show ?thesis using assms ne 4 big [OF 4]
      by (simp add: witness_quorum_def Let_def word_le_nat_alt)
  qed (use assms in \<open>simp_all add: witness_quorum_def Let_def\<close>)
qed

theorem witness_quorum_exact_witness:
  "\<exists>q. witness_quorum 0 ((fresh RoundTrain (sample_config\<lparr>witness_nodes := 32\<rparr>) sample_llm) :: nat coordinator) = Some q \<and>
     unat q = 21"
  using witness_quorum_exact [of 32 "(fresh RoundTrain (sample_config\<lparr>witness_nodes := 32\<rparr>) sample_llm) :: nat coordinator" 0]
  by (auto simp: fresh_def sample_config_def)

section \<open>Clients of an earlier round\<close>

text \<open>
  \<open>get_historical_clients\<close> rebuilds a round's client list of the given length from the present clients
  followed by the most recently exited ones, in the order in which they left.
\<close>

theorem historical_clients_exact:
  assumes "length (co_clients c) \<le> unat n" and "unat n \<le> length (co_clients c) + length (co_exited c)"
  shows "get_historical_clients n c =
    co_clients c @ drop (length (co_clients c) + length (co_exited c) - unat n) (co_exited c)"
proof -
  let ?cs = "co_clients c" and ?ex = "co_exited c"
  let ?all = "?cs @ drop (length ?cs + length ?ex - unat n) ?ex"
  have len: "length ?all = unat n" using assms by simp
  have nth: "get_client_at_historical_index i n c = Some (?all ! i)" if i: "i < unat n" for i
  proof (cases "i < length ?cs")
    case False
    then have "length ?ex - Suc (unat n - i - 1) = (length ?cs + length ?ex - unat n) + (i - length ?cs)"
      using i assms by linarith
    then show ?thesis using False i assms
      by (simp add: get_client_at_historical_index_def nth_opt_def rev_nth nth_append Let_def)
  qed (simp add: get_client_at_historical_index_def nth_append)
  have "List.map_filter f [0..<k] = map g [0..<k]" if "\<And>i. i < k \<Longrightarrow> f i = Some (g i)" for f :: "nat \<Rightarrow> 'a client option" and g k
    using that by (induction k) (simp_all add: List.map_filter_def)
  from this [OF nth] have "get_historical_clients n c = map ((!) ?all) [0..<unat n]"
    by (simp add: get_historical_clients_def)
  also have "\<dots> = ?all" using len map_nth [of ?all] by simp
  finally show ?thesis .
qed

theorem historical_clients_exact_witness:
  "get_historical_clients 3 ((fresh RoundTrain sample_config sample_llm)\<lparr>co_epoch_state :=
     default_epoch_state\<lparr>es_clients := [client_new (1::nat), client_new 2],
       es_exited_clients := [client_new 3, client_new 4]\<rparr>\<rparr>) = [client_new 1, client_new 2, client_new 4]"
  using historical_clients_exact [of "(fresh RoundTrain sample_config sample_llm)\<lparr>co_epoch_state :=
     default_epoch_state\<lparr>es_clients := [client_new (1::nat), client_new 2],
       es_exited_clients := [client_new 3, client_new 4]\<rparr>\<rparr>" 3]
  by (simp add: fresh_def)

section \<open>Health\<close>

definition vouches :: "'id node_env \<Rightarrow> 'id \<Rightarrow> witness \<Rightarrow> bool" where
  "vouches E i w \<longleftrightarrow> bloom_contains E (w_participant_bloom w) (x_sha256 E (ne_as_ref E i)) = Some True"

lemma score_loop_count:
  assumes "externs_ok E" and "\<forall>w \<in> set ws. bloom_ok (w_participant_bloom w)" and "unat score + length ws < 2 ^ 16"
  shows "\<exists>n. score_loop E (x_sha256 E (ne_as_ref E i)) ws score = Some n \<and>
    unat n = unat score + length (filter (vouches E i) ws)"
  using assms(2,3)
proof (induction ws arbitrary: score)
  case Nil
  then show ?case by simp
next
  case (Cons w ws)
  let ?h = "x_sha256 E (ne_as_ref E i)"
  obtain b where b: "bloom_contains E (w_participant_bloom w) ?h = Some b"
    using bloom_contains_total [OF assms(1)] Cons.prems(1) by fastforce
  show ?case
  proof (cases b)
    case True
    have add1: "checked_add score 1 = Some (score + 1)" using Cons.prems(2) by (simp add: checked_add_fits)
    note add = add1 checked_add_Some [OF add1]
    obtain n where "score_loop E ?h ws (score + 1) = Some n" "unat n = unat (score + 1) + length (filter (vouches E i) ws)"
      using Cons.IH [of "score + 1"] Cons.prems add by auto
    moreover have "vouches E i w" using b True by (simp add: vouches_def)
    ultimately show ?thesis using b True add by simp
  next
    case False
    then have "\<not> vouches E i w" using b by (simp add: vouches_def)
    then show ?thesis using b False Cons.IH [of score] Cons.prems by auto
  qed
qed

lemma trainer_healthy_count:
  assumes "externs_ok E" and "previous_round c = Some r" and "\<forall>w \<in> set (r_witnesses r). bloom_ok (w_participant_bloom w)"
    and "length (r_witnesses r) \<le> SOLANA_MAX_NUM_WITNESSES"
    and "witness_quorum (of_nat (length (r_witnesses r))) c = Some q"
  shows "trainer_healthy E i c = Some (Inr (unat q \<le> length (filter (vouches E i) (r_witnesses r))))"
proof -
  obtain n where n: "score_loop E (x_sha256 E (ne_as_ref E i)) (r_witnesses r) 0 = Some n"
    and u: "unat n = length (filter (vouches E i) (r_witnesses r))"
    using score_loop_count [OF assms(1,3), of 0 i] assms(4) by (auto simp: SOLANA_MAX_NUM_WITNESSES_def)
  show ?thesis using assms(2,5) n u
    by (simp add: trainer_healthy_def trainer_healthy_score_by_witnesses_def word_le_nat_alt)
qed

text \<open>
  A trainer is healthy exactly when enough witnesses saw it: with well-formed filters the check returns,
  and it says healthy if and only if the number of witnesses of the previous round whose participant
  filter contains the trainer's hashed identity reaches the quorum.
\<close>

theorem trainer_healthy_counts:
  assumes "externs_ok E" and "previous_round c = Some r" and "\<forall>w \<in> set (r_witnesses r). bloom_ok (w_participant_bloom w)"
    and "length (r_witnesses r) \<le> SOLANA_MAX_NUM_WITNESSES"
    and "witness_quorum (of_nat (length (r_witnesses r))) c = Some q"
  shows "trainer_healthy E i c = Some (Inr (unat q \<le> length (filter (vouches E i) (r_witnesses r))))"
  by (rule trainer_healthy_count [OF assms])

text \<open>The sample coordinator in its second round, the first having one witness with an empty filter.\<close>

definition sample_second :: "nat coordinator" where
  "sample_second =
     sample_training\<lparr>co_epoch_state := (co_epoch_state sample_training)\<lparr>es_rounds_head := 1,
        es_rounds := [zero_round\<lparr>r_clients_len := 2, r_witnesses := [sample_witness]\<rparr>,
          zero_round\<lparr>r_clients_len := 2, r_height := 1\<rparr>, zero_round, zero_round]\<rparr>\<rparr>"

theorem trainer_healthy_counts_witness:
  "trainer_healthy sample_env 7 sample_second =
     Some (Inr (2 \<le> length (filter (vouches sample_env 7) [sample_witness])))"
proof -
  let ?r = "zero_round\<lparr>r_clients_len := 2, r_witnesses := [sample_witness]\<rparr>"
  have p: "previous_round sample_second = Some ?r"
    by (simp add: previous_round_def current_round_def nth_opt_def sample_second_def)
  have q: "witness_quorum (of_nat (length (r_witnesses ?r))) sample_second = Some 2"
    by (simp add: witness_quorum_def sample_second_def sample_training_def fresh_def sample_config_def Let_def)
  show ?thesis using trainer_healthy_counts [OF sample_env_externs p _ _ q, of 7]
    by (simp add: sample_witness_def bloom_ok_def bloom_default_def SOLANA_MAX_NUM_WITNESSES_def)
qed


lemma healthy_False:
  assumes "healthy E i pf c = Some (Inr False)"
  obtains x where "nth_opt (co_clients c) (unat (cp_index pf)) = Some x" and "ne_eq E (cl_id x) i"
    and "trainer_healthy E (cl_id x) c = Some (Inr False)"
proof -
  obtain s where s: "from_coordinator E c (- 1) = Some (Inr s)"
    using assms by (cases "from_coordinator E c (- 1)"; cases "the (from_coordinator E c (- 1))")
      (auto simp: healthy_def split: option.splits if_splits)
  obtain r :: round and x where x: "get_client_at_historical_index (unat (cp_index pf)) (r_clients_len r) c = Some x"
    and e: "ne_eq E (cl_id x) i" and v: "verify_committee_for_client E s (cl_id x) pf (co_clients c) = Some True"
    and h: "trainer_healthy E (cl_id x) c = Some (Inr False)"
    using assms s by (simp add: healthy_def split: option.splits if_splits)
      (auto simp: bind_eq_Some_conv split: committee.splits if_splits)
  from v obtain y where "nth_opt (co_clients c) (unat (cp_index pf)) = Some y"
    by (auto simp: verify_committee_for_client_def verify_client_def split: if_splits option.splits)
  then have "nth_opt (co_clients c) (unat (cp_index pf)) = Some x"
    using x by (simp add: get_client_at_historical_index_def nth_opt_iff)
  then show ?thesis using that e h by blast
qed

lemma check_unhealthy_Done:
  "check_unhealthy E checks c = Done d u \<Longrightarrow> \<forall>(i, pf) \<in> set checks. healthy E i pf c = Some (Inr False)"
proof (induction checks)
  case (Cons a checks)
  obtain i pf where a: "a = (i, pf)" by (cases a)
  show ?case
  proof (cases "healthy E i pf c")
    case (Some r)
    then show ?thesis using Cons a by (cases r) (auto split: if_splits)
  qed (use Cons a in simp)
qed simp

lemma drop_clients_spec:
  "drop_clients checks cs n = Some (cs', m) \<Longrightarrow> length cs' = length cs \<and> (\<forall>k < length cs.
    cs' ! k = (if cl_state (cs ! k) = Healthy \<and> (\<exists>(i, pf) \<in> set checks. unat (cp_index pf) = k)
               then (cs ! k)\<lparr>cl_state := Dropped\<rparr> else cs ! k))"
proof (induction checks arbitrary: cs n)
  case (Cons a checks)
  obtain i pf where a: "a = (i, pf)" by (cases a)
  let ?j = "unat (cp_index pf)"
  obtain x where x: "nth_opt cs ?j = Some x" using Cons.prems a by (auto simp: bind_eq_Some_conv)
  show ?case
  proof (cases "cl_state x = Healthy")
    case True
    then obtain n' where d: "drop_clients checks (cs[?j := x\<lparr>cl_state := Dropped\<rparr>]) n' = Some (cs', m)"
      using Cons.prems a x by (auto simp: bind_eq_Some_conv)
    show ?thesis using Cons.IH [OF d] x True a by (auto simp: nth_opt_iff nth_list_update)
  next
    case False
    then have "drop_clients checks cs n = Some (cs', m)" using Cons.prems a x by simp
    from Cons.IH [OF this] show ?thesis using x False a by (auto simp: nth_opt_iff)
  qed
qed simp

text \<open>A coordinator whose only client was not seen by the witness of the previous round.\<close>

definition sample_sick :: "nat coordinator" where
  "sample_sick = (fresh RoundTrain (sample_config\<lparr>witness_nodes := 0\<rparr>) sample_llm)\<lparr>co_epoch_state :=
     default_epoch_state\<lparr>es_clients := [client_new 7], es_rounds_head := 2,
        es_rounds := [zero_round, zero_round\<lparr>r_clients_len := 1, r_height := 1, r_witnesses := [sample_witness]\<rparr>,
          zero_round\<lparr>r_clients_len := 1, r_height := 2\<rparr>, zero_round]\<rparr>\<rparr>"

definition sample_proof :: committee_proof where
  "sample_proof = \<lparr>cp_committee = Trainer, cp_position = 0, cp_index = 0\<rparr>"

lemma one_node_shuffle:
  assumes "externs_ok X" "cs_total_nodes s = 1"
  shows "cs_shuffled_index X s 0 salt = Some 0"
proof -
  have "\<exists>k. cs_shuffled_index X s 0 salt = Some k \<and> k < cs_total_nodes s"
    using assms by (intro cs_shuffled_index_inj(3)) simp_all
  then show ?thesis using assms(2) by (auto simp: word_less_1)
qed

lemma sample_sick_rounds:
  "current_round sample_sick = Some (zero_round\<lparr>r_clients_len := 1, r_height := 2\<rparr>)"
  "previous_round sample_sick = Some (zero_round\<lparr>r_clients_len := 1, r_height := 1, r_witnesses := [sample_witness]\<rparr>)"
  by (simp_all add: current_round_def previous_round_def nth_opt_def sample_sick_def)

lemma bloom_default_empty:
  assumes "externs_ok X" and "0 < U" and "64 * U < 2 ^ 64"
  shows "bloom_contains X (bloom_default U (Suc K)) key = Some False"
proof -
  let ?b = "bloom_default U (Suc K)"
  have "bloom_ok ?b" using assms(2,3) by (simp add: bloom_ok_def bloom_default_def)
  then have "unat (bloom_pos X ?b key 0) < 64 * U"
    using bloom_pos_range [OF assms(1), of ?b key 0] by (simp add: bloom_default_def)
  then have "x_bits_get X (bl_bits ?b) (unat (bloom_pos X ?b key 0)) = Some False"
    using assms(1) by (simp add: externs_ok_def bloom_default_def)
  then show ?thesis by (simp add: bloom_contains_def) (simp add: bloom_default_def)
qed

lemma sample_sick_simps:
  "co_config sample_sick = sample_config\<lparr>witness_nodes := 0\<rparr>" "co_clients sample_sick = [client_new 7]"
  "co_run_state sample_sick = RoundTrain"
  by (simp_all add: sample_sick_def fresh_def)

lemma sample_not_vouched: "\<not> vouches sample_env i sample_witness"
  using bloom_default_empty [OF sample_env_externs, of 16 7]
  by (simp add: vouches_def sample_witness_def)

lemma sample_sick_unhealthy: "trainer_healthy sample_env 7 sample_sick = Some (Inr False)"
proof -
  have q: "witness_quorum (of_nat (length (r_witnesses (zero_round\<lparr>r_clients_len := 1, r_height := 1, r_witnesses := [sample_witness]\<rparr>)))) sample_sick = Some 1"
    by (simp add: witness_quorum_def sample_sick_def fresh_def sample_config_def Let_def)
  show ?thesis using trainer_healthy_count [OF sample_env_externs sample_sick_rounds(2) _ _ q, of 7] sample_not_vouched
    by (simp add: sample_witness_def bloom_ok_def bloom_default_def SOLANA_MAX_NUM_WITNESSES_def)
qed

text \<open>
  A health check drops exactly the clients it names, and only unhealthy ones: when it succeeds, every
  named index is a present client that the witnesses of the previous round did not confirm; the healthy
  ones among them become \<open>Dropped\<close> and every other client keeps its record. A trainer that reached the
  quorum can therefore not be dropped.
\<close>

theorem health_check_drops_unhealthy:
  assumes "health_check E from checks c = Done d n"
  shows "length (co_clients d) = length (co_clients c) \<and>
    (\<forall>k < length (co_clients c). co_clients d ! k =
       (if cl_state (co_clients c ! k) = Healthy \<and> (\<exists>(i, pf) \<in> set checks. unat (cp_index pf) = k)
        then (co_clients c ! k)\<lparr>cl_state := Dropped\<rparr> else co_clients c ! k)) \<and>
    (\<forall>(i, pf) \<in> set checks. \<exists>x. nth_opt (co_clients c) (unat (cp_index pf)) = Some x \<and>
       trainer_healthy E (cl_id x) c = Some (Inr False))"
proof -
  obtain e cs m where e: "check_unhealthy E checks c = Done e ()"
    and dr: "drop_clients checks (co_clients e) 0 = Some (cs, m)"
    and d: "d = set_epoch (es_clients_update (\<lambda>_. cs)) e"
    using assms by (auto simp: health_check_def need_Done and_then_Done split: if_splits option.splits)
  have "e = c" using check_unhealthy_state [of c E checks] e by simp
  moreover have "\<exists>x. nth_opt (co_clients c) (unat (cp_index pf)) = Some x \<and> trainer_healthy E (cl_id x) c = Some (Inr False)"
    if "(i, pf) \<in> set checks" for i pf
    using check_unhealthy_Done [OF e] that healthy_False [of E i pf c] by blast
  ultimately show ?thesis using drop_clients_spec [OF dr] d by auto
qed

theorem health_check_drops_unhealthy_witness:
  "\<exists>d. health_check sample_env 7 [(7, sample_proof)] sample_sick = Done d 1 \<and>
     co_clients d ! 0 = (client_new 7)\<lparr>cl_state := Dropped\<rparr>"
proof -
  obtain s where n: "committee_selection_new sample_env 0 0 0 1 0 = Some (Inr s)"
    using committee_selection_new_total [of 1 0 0 0 sample_env 0] by auto
  have s: "from_coordinator sample_env sample_sick (- 1) = Some (Inr s)"
    using n by (simp add: from_coordinator_def sample_sick_rounds sample_sick_simps sample_config_def zero_round_def)
  note ok = committee_selection_new_ok [OF n]
  have t: "cs_total_nodes s = 1" and z: "cs_tie_breaker_nodes s = 0" "cs_verifier_nodes s = 0"
    using ok by (simp_all add: word_unat_eq_iff)
  have v: "verify_committee sample_env s sample_proof = Some True"
    using one_node_shuffle [OF sample_env_externs t] z
    by (simp add: verify_committee_def sample_proof_def get_committee_from_position_def checked_add_def)
  have h: "healthy sample_env 7 sample_proof sample_sick = Some (Inr False)"
    using s v sample_sick_unhealthy
    by (simp add: healthy_def sample_sick_rounds get_client_at_historical_index_def sample_sick_simps verify_committee_for_client_def
        verify_client_def nth_opt_def sample_proof_def sample_env_def externs.defs client_new_def zero_round_def)
  then obtain d where d: "health_check sample_env 7 [(7, sample_proof)] sample_sick = Done d 1"
    by (simp add: health_check_def sample_sick_rounds sample_sick_simps halted_def nth_opt_def sample_proof_def
        client_new_def checked_add_def)
  show ?thesis using health_check_drops_unhealthy [OF d] d
    by (simp add: sample_sick_simps client_new_def sample_proof_def)
qed

section \<open>Consensus\<close>

lemma vote_loop_spec:
  "vote_loop X cms ws scores = Some scores' \<Longrightarrow> length scores' = length scores \<and>
   sum_list (map unat scores') \<le> sum_list (map unat scores) + length ws"
proof (induction ws arbitrary: scores)
  case (Cons w ws)
  from Cons.prems obtain v where v: "first_seen X (w_broadcast_bloom w) 0 cms = Some v" by (auto simp: bind_eq_Some_conv)
  show ?case
  proof (cases v)
    case None
    then show ?thesis using Cons v by fastforce
  next
    case (Some i)
    obtain s' where i: "i < length scores" and s': "checked_add (scores ! i) 1 = Some s'"
      and l: "vote_loop X cms ws (scores[i := s']) = Some scores'"
      using Cons.prems v Some by (auto simp: bind_eq_Some_conv nth_opt_iff)
    have "sum_list (map unat (scores[i := s'])) = sum_list (map unat scores) + 1"
      using i checked_add_Some [OF s'] elem_le_sum_list [of i "map unat scores"]
      by (simp add: map_update sum_list_update)
    then show ?thesis using Cons.IH [OF l] by simp
  qed
qed simp

lemma max_by_key_max:
  "max_by_key f xs = Some x \<Longrightarrow> x \<in> set xs \<and> (\<forall>y \<in> set xs. f y \<le> f x)"
  "max_by_key f xs = None \<longleftrightarrow> xs = []"
  by (induction xs arbitrary: x) (fastforce split: option.splits if_splits)+

lemma two_le_sum_list:
  "i < length xs \<Longrightarrow> j < length xs \<Longrightarrow> i \<noteq> j \<Longrightarrow> xs ! i + xs ! j \<le> sum_list (xs :: nat list)"
proof (induction xs arbitrary: i j)
  case (Cons x xs)
  then show ?case using elem_le_sum_list [of "i - 1" xs] elem_le_sum_list [of "j - 1" xs]
    by (cases i; cases j) (auto intro: trans_le_add2)
qed simp

text \<open>
  The consensus commitment has the votes: the chosen index is a commitment whose votes reach the quorum
  and are not exceeded by any other commitment, each witness having cast at most one vote; nothing is
  chosen only if no commitment reaches the quorum. When the quorum is more than half of the witnesses the
  choice is unique.
\<close>

theorem consensus_commitment_wins:
  assumes "select_consensus_commitment_by_witnesses X cms ws quorum = Some res"
  shows "\<exists>scores. vote_loop X cms ws (replicate (length cms) 0) = Some scores \<and> length scores = length cms \<and>
    sum_list (map unat scores) \<le> length ws \<and>
    (res = None \<longrightarrow> (\<forall>j < length cms. scores ! j < quorum)) \<and>
    (\<forall>k. res = Some k \<longrightarrow> k < length cms \<and> quorum \<le> scores ! k \<and> (\<forall>j < length cms. scores ! j \<le> scores ! k) \<and>
       (length ws < 2 * unat quorum \<longrightarrow> (\<forall>j < length cms. j \<noteq> k \<longrightarrow> scores ! j < quorum)))"
proof -
  from assms obtain scores where v: "vote_loop X cms ws (replicate (length cms) 0) = Some scores"
    and res: "res = map_option fst (max_by_key snd (filter (\<lambda>(_, score). quorum \<le> score) (enumerate 0 scores)))"
    by (auto simp: select_consensus_commitment_by_witnesses_def bind_eq_Some_conv)
  have len: "length scores = length cms" and tot: "sum_list (map unat scores) \<le> length ws"
    using vote_loop_spec [OF v] by (simp_all add: sum_list_replicate)
  have mem: "(j, s) \<in> set (filter (\<lambda>(_, score). quorum \<le> score) (enumerate 0 scores)) \<longleftrightarrow>
      j < length cms \<and> s = scores ! j \<and> quorum \<le> s" for j s
    using len by (auto simp: in_set_enumerate_eq)
  let ?L = "filter (\<lambda>(_, score). quorum \<le> score) (enumerate 0 scores)"
  have none: "\<forall>j < length cms. scores ! j < quorum" if "res = None"
  proof -
    have "?L = []" using that res max_by_key_max(2) [of snd ?L] by simp
    then show ?thesis using mem by (metis empty_iff empty_set not_le)
  qed
  have some: "k < length cms \<and> quorum \<le> scores ! k \<and> (\<forall>j < length cms. scores ! j \<le> scores ! k)"
    if k: "res = Some k" for k
  proof -
    obtain s where m: "max_by_key snd ?L = Some (k, s)" using k res by (cases "max_by_key snd ?L") auto
    note mx = max_by_key_max(1) [OF m]
    have ks: "k < length cms" "s = scores ! k" "quorum \<le> s" using mx mem by blast+
    have "scores ! j \<le> scores ! k" if "j < length cms" for j
      using mx mem [of j "scores ! j"] that ks by (cases "quorum \<le> scores ! j") auto
    then show ?thesis using ks by simp
  qed
  have uniq: "scores ! j < quorum"
    if "res = Some k" "length ws < 2 * unat quorum" "j < length cms" "j \<noteq> k" for j k
  proof (rule ccontr)
    assume "\<not> scores ! j < quorum"
    then have "unat quorum + unat quorum \<le> unat (scores ! j) + unat (scores ! k)"
      using some [OF that(1)] by (simp add: word_less_nat_alt word_le_nat_alt)
    also have "\<dots> \<le> sum_list (map unat scores)"
      using two_le_sum_list [of j "map unat scores" k] some [OF that(1)] that(3,4) len by simp
    finally show False using tot that(2) by simp
  qed
  show ?thesis using v len tot none some uniq by blast
qed

text \<open>A filter that contains everything, and a witness that publishes it.\<close>

definition full_witness :: witness where
  "full_witness = sample_witness\<lparr>w_broadcast_bloom := \<lparr>bl_keys = [0], bl_bits = [- 1]\<rparr>\<rparr>"

lemma full_witness_vote:
  "vote_loop sample_externs [\<lparr>cm_data_hash = [1], cm_signature = []\<rparr>] [full_witness] [0] = Some [1]"
  by (simp add: full_witness_def sample_externs_def bloom_contains_def bloom_pos_def slice_hash_def checked_rem_def
      lsb0_get_def nth_opt_def checked_add_def)

theorem consensus_commitment_wins_witness:
  "select_consensus_commitment_by_witnesses sample_externs [\<lparr>cm_data_hash = [1], cm_signature = []\<rparr>] [full_witness] 1
     = Some (Some 0) \<and>
   (\<exists>scores. vote_loop sample_externs [\<lparr>cm_data_hash = [1], cm_signature = []\<rparr>] [full_witness] [0] = Some scores \<and>
      (1 :: u16) \<le> scores ! 0)"
proof -
  have "select_consensus_commitment_by_witnesses sample_externs [\<lparr>cm_data_hash = [1], cm_signature = []\<rparr>]
      [full_witness] 1 = Some (Some 0)"
    by (simp add: select_consensus_commitment_by_witnesses_def full_witness_vote del: vote_loop.simps)
  then show ?thesis using consensus_commitment_wins [of sample_externs "[\<lparr>cm_data_hash = [1], cm_signature = []\<rparr>]"
      "[full_witness]" 1 "Some 0"] by auto
qed

end
