(* ===== verification/Batches.thy ===== *)
theory Batches
  imports Psyche_Prelude
begin

text \<open>
  Closed intervals and the interval tree (\<open>src/shared/core/src/interval_tree.rs\<close>) and batch identifiers
  (\<open>batch_id.rs\<close>). Both the interval tree and the data assignment keep their entries in a \<open>BTreeMap\<close>, the
  standard library's ordered map: here the list of its entries in key order.
\<close>

section \<open>Ordered maps\<close>

fun bt_insert :: "'k::linorder \<Rightarrow> 'v \<Rightarrow> ('k \<times> 'v) list \<Rightarrow> ('k \<times> 'v) list" where
  "bt_insert k v [] = [(k, v)]"
| "bt_insert k v ((a, b) # xs) =
     (if k < a then (k, v) # (a, b) # xs
      else if k = a then (k, v) # xs
      else (a, b) # bt_insert k v xs)"

definition bt_remove :: "'k::linorder \<Rightarrow> ('k \<times> 'v) list \<Rightarrow> ('k \<times> 'v) list \<times> 'v option" where
  "bt_remove k xs = (filter (\<lambda>(a, b). a \<noteq> k) xs, map_of xs k)"

text \<open>\<open>range(..=k).next_back()\<close> and \<open>range(k..).next()\<close>.\<close>

definition bt_floor :: "'k::linorder \<Rightarrow> ('k \<times> 'v) list \<Rightarrow> ('k \<times> 'v) option" where
  "bt_floor k xs = (case filter (\<lambda>(a, b). a \<le> k) xs of [] \<Rightarrow> None | ys \<Rightarrow> Some (last ys))"

definition bt_ceil :: "'k::linorder \<Rightarrow> ('k \<times> 'v) list \<Rightarrow> ('k \<times> 'v) option" where
  "bt_ceil k xs = (case filter (\<lambda>(a, b). k \<le> a) xs of [] \<Rightarrow> None | y # ys \<Rightarrow> Some y)"

lemma bt_insert_last: "\<forall>(a, b) \<in> set xs. a < k \<Longrightarrow> bt_insert k v xs = xs @ [(k, v)]"
  by (induction xs) auto

lemma set_bt_insert_new: "k \<notin> fst ` set xs \<Longrightarrow> set (bt_insert k v xs) = insert (k, v) (set xs)"
  by (induction xs) (auto split: if_splits)

section \<open>Intervals\<close>

datatype 'a closed_interval = ClosedInterval (ci_start: 'a) (ci_end: 'a)

text \<open>The derived order compares the fields in their order.\<close>

instantiation closed_interval :: (linorder) linorder
begin

definition less_eq_closed_interval :: "'a closed_interval \<Rightarrow> 'a closed_interval \<Rightarrow> bool" where
  "less_eq_closed_interval i j \<longleftrightarrow> ci_start i < ci_start j \<or> (ci_start i = ci_start j \<and> ci_end i \<le> ci_end j)"

definition less_closed_interval :: "'a closed_interval \<Rightarrow> 'a closed_interval \<Rightarrow> bool" where
  "less_closed_interval i j \<longleftrightarrow> ci_start i < ci_start j \<or> (ci_start i = ci_start j \<and> ci_end i < ci_end j)"

instance
  by standard (auto simp: less_eq_closed_interval_def less_closed_interval_def intro: closed_interval.expand)

end

definition ci_new :: "'a::linorder \<Rightarrow> 'a \<Rightarrow> 'a closed_interval option" where
  "ci_new s e = (if s \<le> e then Some (ClosedInterval s e) else None)"

definition ci_contains :: "'a::linorder closed_interval \<Rightarrow> 'a \<Rightarrow> bool" where
  "ci_contains i p \<longleftrightarrow> ci_start i \<le> p \<and> p \<le> ci_end i"

definition ci_overlaps :: "'a::linorder closed_interval \<Rightarrow> 'a closed_interval \<Rightarrow> bool" where
  "ci_overlaps i j \<longleftrightarrow> ci_start i \<le> ci_end j \<and> ci_start j \<le> ci_end i"

datatype batch_id = BatchId (batch_interval: "u64 closed_interval")

instantiation batch_id :: linorder
begin

definition less_eq_batch_id :: "batch_id \<Rightarrow> batch_id \<Rightarrow> bool" where
  "less_eq_batch_id a b \<longleftrightarrow> batch_interval a \<le> batch_interval b"

definition less_batch_id :: "batch_id \<Rightarrow> batch_id \<Rightarrow> bool" where
  "less_batch_id a b \<longleftrightarrow> batch_interval a < batch_interval b"

instance
  by standard (auto simp: less_eq_batch_id_def less_batch_id_def intro: batch_id.expand)

end

definition batch_id_iter :: "batch_id \<Rightarrow> u64 set" where
  "batch_id_iter b = {ci_start (batch_interval b)..ci_end (batch_interval b)}"

definition batch_id_len :: "batch_id \<Rightarrow> u64 option" where
  "batch_id_len b =
     (case checked_sub (ci_end (batch_interval b)) (ci_start (batch_interval b)) of
        None \<Rightarrow> None | Some d \<Rightarrow> checked_add d 1)"

section \<open>The interval tree\<close>

type_synonym ('a, 'v) interval_tree = "('a \<times> 'a closed_interval \<times> 'v) list"

definition it_new :: "('a, 'v) interval_tree" where
  "it_new = []"

definition it_clear :: "('a, 'v) interval_tree \<Rightarrow> ('a, 'v) interval_tree" where
  "it_clear t = []"

definition it_insert ::
    "'a::linorder closed_interval \<Rightarrow> 'v \<Rightarrow> ('a, 'v) interval_tree \<Rightarrow> string + ('a, 'v) interval_tree" where
  "it_insert i v t =
     (if (case bt_floor (ci_start i) t of None \<Rightarrow> False | Some (_, j, _) \<Rightarrow> ci_start i \<le> ci_end j)
      then Inl ''Overlapping interval''
      else if (case bt_ceil (ci_start i) t of None \<Rightarrow> False | Some (_, j, _) \<Rightarrow> ci_start j \<le> ci_end i)
      then Inl ''Overlapping interval''
      else Inr (bt_insert (ci_start i) (i, v) t))"

definition it_get :: "'a::linorder \<Rightarrow> ('a, 'v) interval_tree \<Rightarrow> 'v option" where
  "it_get p t =
     (case bt_floor p t of
        None \<Rightarrow> None
      | Some (_, i, v) \<Rightarrow> (if ci_contains i p then Some v else None))"

definition it_remove ::
    "'a::linorder closed_interval \<Rightarrow> ('a, 'v) interval_tree \<Rightarrow> ('a, 'v) interval_tree \<times> 'v option" where
  "it_remove i t =
     (case bt_remove (ci_start i) t of
        (t', None) \<Rightarrow> (t', None)
      | (t', Some (j, v)) \<Rightarrow> (t', if j = i then Some v else None))"

definition it_iter :: "('a, 'v) interval_tree \<Rightarrow> ('a closed_interval \<times> 'v) list" where
  "it_iter t = map snd t"

text \<open>Entries are keyed by their start, are proper intervals, and follow each other without overlap.\<close>

definition it_inv :: "('a::linorder, 'v) interval_tree \<Rightarrow> bool" where
  "it_inv t \<longleftrightarrow> (\<forall>(k, i, v) \<in> set t. k = ci_start i \<and> ci_start i \<le> ci_end i) \<and>
     sorted_wrt (\<lambda>(k, i, v) (k', j, v'). ci_end i < ci_start j) t"

lemma it_inv_Cons:
  "it_inv ((k, i, v) # t) \<longleftrightarrow> k = ci_start i \<and> ci_start i \<le> ci_end i \<and>
     (\<forall>(k', j, v') \<in> set t. ci_end i < ci_start j) \<and> it_inv t"
  by (auto simp: it_inv_def)

lemma bt_floor_Cons:
  "bt_floor k ((a, b) # xs) =
     (case bt_floor k xs of Some e \<Rightarrow> Some e | None \<Rightarrow> (if a \<le> k then Some (a, b) else None))"
  by (auto simp: bt_floor_def split: list.splits)

lemma it_get_Cons:
  assumes "it_inv ((k, i, v) # t)"
  shows "it_get p ((k, i, v) # t) = (if ci_contains i p then Some v else it_get p t)"
proof (cases "bt_floor p t")
  case None
  then show ?thesis using assms by (auto simp: it_get_def bt_floor_Cons ci_contains_def it_inv_Cons)
next
  case (Some e)
  then obtain k' j w where e: "bt_floor p t = Some (k', j, w)" by (cases e) auto
  have "filter (\<lambda>(a, b). a \<le> p) t \<noteq> []" "last (filter (\<lambda>(a, b). a \<le> p) t) = (k', j, w)"
    using e by (auto simp: bt_floor_def split: list.splits)
  then have "(k', j, w) \<in> set (filter (\<lambda>(a, b). a \<le> p) t)" by (metis last_in_set)
  then have m: "(k', j, w) \<in> set t" "k' \<le> p" by auto
  then have "ci_end i < p" using assms by (fastforce simp: it_inv_def)
  then show ?thesis using e by (auto simp: it_get_def bt_floor_Cons ci_contains_def)
qed

lemma it_get_iff:
  "it_inv t \<Longrightarrow> it_get p t = Some v \<longleftrightarrow> (\<exists>k i. (k, i, v) \<in> set t \<and> ci_contains i p)"
proof (induction t)
  case Nil
  then show ?case by (simp add: it_get_def bt_floor_def)
next
  case (Cons e t)
  obtain k i w where e: "e = (k, i, w)" by (cases e) auto
  have "\<not> ci_contains j p" if "ci_contains i p" "(k', j, v') \<in> set t" for k' j v'
    using Cons.prems that unfolding e it_inv_Cons by (fastforce simp: ci_contains_def)
  then show ?case using Cons e it_get_Cons [of k i w t p] by (auto simp: it_inv_Cons)
qed


lemma bt_floor_in: "bt_floor p t = Some e \<Longrightarrow> e \<in> set t \<and> fst e \<le> p"
proof (induction t)
  case (Cons x t)
  then show ?case by (cases x; cases "bt_floor p t") (auto simp: bt_floor_Cons split: if_splits)
qed (simp add: bt_floor_def)

lemma bt_ceil_Cons: "bt_ceil k ((a, b) # xs) = (if k \<le> a then Some (a, b) else bt_ceil k xs)"
  by (simp add: bt_ceil_def)

lemma bt_ceil_in: "bt_ceil p t = Some e \<Longrightarrow> e \<in> set t \<and> p \<le> fst e"
  by (induction t) (auto simp: bt_ceil_Cons bt_ceil_def split: if_splits list.splits)

lemma floor_dominates:
  "it_inv t \<Longrightarrow> (k, j, w) \<in> set t \<Longrightarrow> k \<le> p \<Longrightarrow> \<exists>k' j' w'. bt_floor p t = Some (k', j', w') \<and> ci_end j \<le> ci_end j'"
proof (induction t)
  case (Cons e t)
  obtain a i v where e: "e = (a, i, v)" by (cases e) auto
  show ?case
  proof (cases "(k, j, w) \<in> set t")
    case True
    then show ?thesis using Cons e by (auto simp: it_inv_Cons bt_floor_Cons)
  next
    case False
    then have j: "j = i" "a \<le> p" using Cons.prems e by auto
    show ?thesis
    proof (cases "bt_floor p t")
      case None
      then show ?thesis using j e by (simp add: bt_floor_Cons)
    next
      case (Some x)
      then obtain k' j' w' where x: "x = (k', j', w')" "(k', j', w') \<in> set t"
        using bt_floor_in [OF Some] by (cases x) auto
      then have "ci_end i < ci_start j'" "ci_start j' \<le> ci_end j'" using Cons.prems(1) e by (auto simp: it_inv_def)
      then show ?thesis using Some x j e by (auto simp: bt_floor_Cons)
    qed
  qed
qed simp

lemma ceil_dominates:
  "it_inv t \<Longrightarrow> (k, j, w) \<in> set t \<Longrightarrow> p \<le> k \<Longrightarrow>
   \<exists>k' j' w'. bt_ceil p t = Some (k', j', w') \<and> ci_start j' \<le> ci_start j"
proof (induction t)
  case (Cons e t)
  obtain a i v where e: "e = (a, i, v)" by (cases e) auto
  have "a = ci_start i" "ci_start i \<le> ci_end i" and l: "\<forall>(k', j, v') \<in> set t. ci_end i < ci_start j" and t: "it_inv t"
    using Cons.prems(1) unfolding e it_inv_Cons by auto
  then have "ci_start i \<le> ci_start j" using Cons.prems(2) e by fastforce
  then show ?case using Cons e t by (auto simp: bt_ceil_Cons)
qed simp

lemma bt_insert_inv:
  "it_inv t \<Longrightarrow> ci_start i \<le> ci_end i \<Longrightarrow> \<forall>(k, j, w) \<in> set t. \<not> ci_overlaps i j \<Longrightarrow>
   it_inv (bt_insert (ci_start i) (i, v) t) \<and> set (bt_insert (ci_start i) (i, v) t) = insert (ci_start i, i, v) (set t)"
proof (induction t)
  case Nil
  then show ?case by (simp add: it_inv_def)
next
  case (Cons e t)
  obtain a j w where e: "e = (a, j, w)" by (cases e) auto
  have j: "a = ci_start j" "ci_start j \<le> ci_end j" "\<forall>(k', j', v') \<in> set t. ci_end j < ci_start j'" "it_inv t"
    using Cons.prems(1) unfolding e it_inv_Cons by auto
  have no: "\<not> ci_overlaps i j" using Cons.prems(3) e by auto
  show ?case
  proof (cases "ci_start i < ci_start j")
    case True
    then have "ci_end i < ci_start j" using no Cons.prems(2) j(2) by (auto simp: ci_overlaps_def)
    then have "it_inv ((ci_start i, i, v) # e # t)" using Cons.prems(1,2) j unfolding e it_inv_Cons by fastforce
    then show ?thesis using True e j(1) by simp
  next
    case False
    then have lt: "ci_end j < ci_start i" using no Cons.prems(2) by (auto simp: ci_overlaps_def)
    have ih: "it_inv (bt_insert (ci_start i) (i, v) t)"
      "set (bt_insert (ci_start i) (i, v) t) = insert (ci_start i, i, v) (set t)" using Cons j(4) by auto
    have "it_inv (e # bt_insert (ci_start i) (i, v) t)" using ih j lt unfolding e it_inv_Cons by auto
    moreover have "bt_insert (ci_start i) (i, v) (e # t) = e # bt_insert (ci_start i) (i, v) t"
      using False lt j(1,2) e by auto
    ultimately show ?thesis using ih(2) by auto
  qed
qed

lemma it_insert_Inr:
  assumes "it_inv t" and "ci_start i \<le> ci_end i" and "it_insert i v t = Inr t'"
  shows "it_inv t'" and "set t' = insert (ci_start i, i, v) (set t)" and "\<forall>(k, j, w) \<in> set t. \<not> ci_overlaps i j"
proof -
  have fl: "ci_end j < ci_start i" if "bt_floor (ci_start i) t = Some (k, j, w)" for k j w
    using assms(3) that by (auto simp: it_insert_def split: if_splits)
  have cl: "ci_end i < ci_start j" if "bt_ceil (ci_start i) t = Some (k, j, w)" for k j w
    using assms(3) that by (auto simp: it_insert_def split: if_splits option.splits)
  have t': "t' = bt_insert (ci_start i) (i, v) t" using assms(3) by (auto simp: it_insert_def split: if_splits)
  have no: "\<not> ci_overlaps i j" if m: "(k, j, w) \<in> set t" for k j w
  proof (cases "k \<le> ci_start i")
    case True
    then show ?thesis using floor_dominates [OF assms(1) m] fl by (fastforce simp: ci_overlaps_def)
  next
    case False
    then show ?thesis using ceil_dominates [OF assms(1) m, of "ci_start i"] cl by (fastforce simp: ci_overlaps_def)
  qed
  then show "\<forall>(k, j, w) \<in> set t. \<not> ci_overlaps i j" by auto
  then show "it_inv t'" "set t' = insert (ci_start i, i, v) (set t)"
    using bt_insert_inv [OF assms(1,2)] unfolding t' by auto
qed

lemma it_insert_Inl:
  assumes "it_inv t" and "ci_start i \<le> ci_end i" and "it_insert i v t = Inl e"
  shows "\<exists>(k, j, w) \<in> set t. ci_overlaps i j"
proof -
  consider k j w where "bt_floor (ci_start i) t = Some (k, j, w)" "ci_start i \<le> ci_end j"
    | k j w where "bt_ceil (ci_start i) t = Some (k, j, w)" "ci_start j \<le> ci_end i"
    using assms(3) by (auto simp: it_insert_def split: if_splits option.splits)
  then show ?thesis
  proof cases
    case 1
    then have "(k, j, w) \<in> set t" "k \<le> ci_start i" using bt_floor_in [OF 1(1)] by auto
    moreover from this have "ci_overlaps i j" using 1(2) assms(1,2) by (fastforce simp: it_inv_def ci_overlaps_def)
    ultimately show ?thesis by auto
  next
    case 2
    then have "(k, j, w) \<in> set t" "ci_start i \<le> k" using bt_ceil_in [OF 2(1)] by auto
    moreover from this have "ci_overlaps i j" using 2(2) assms(1,2) by (fastforce simp: it_inv_def ci_overlaps_def)
    ultimately show ?thesis by auto
  qed
qed

section \<open>Properties\<close>

text \<open>
  The interval tree is a map from points: an insertion is refused exactly when the interval overlaps a
  stored one; otherwise the stored intervals stay disjoint, every point of the new interval maps to the new
  value and every other point maps to what it mapped to before.
\<close>

theorem interval_tree_insert_get:
  assumes "it_inv t" and "ci_start i \<le> ci_end i"
  shows "case it_insert i v t of
      Inl e \<Rightarrow> \<exists>(k, j, w) \<in> set t. ci_overlaps i j
    | Inr t' \<Rightarrow> it_inv t' \<and> (\<forall>(k, j, w) \<in> set t. \<not> ci_overlaps i j) \<and>
        (\<forall>p. it_get p t' = (if ci_contains i p then Some v else it_get p t))"
proof (cases "it_insert i v t")
  case (Inl e)
  then show ?thesis using it_insert_Inl [OF assms] by simp
next
  case (Inr t')
  note r = it_insert_Inr [OF assms Inr]
  have c: "\<not> ci_contains j p" if "ci_contains i p" "(k, j, w) \<in> set t" for k j w p
    using r(3) that by (fastforce simp: ci_contains_def ci_overlaps_def)
  have "it_get p t' = Some x \<longleftrightarrow> (if ci_contains i p then Some v else it_get p t) = Some x" for p x
    using it_get_iff [OF r(1), of p x] it_get_iff [OF assms(1), of p x] c [of p] by (auto simp: r(2))
  then have "it_get p t' = (if ci_contains i p then Some v else it_get p t)" for p by (metis option.exhaust)
  then show ?thesis using Inr r by simp
qed

theorem interval_tree_insert_get_witness:
  "\<exists>t'. it_insert (ClosedInterval (5::nat) 9) ''b'' [(1, ClosedInterval 1 3, ''a'')] = Inr t' \<and>
     it_get 7 t' = Some ''b'' \<and> it_get 2 t' = Some ''a'' \<and> it_get 4 t' = None"
proof -
  let ?t = "[(1, ClosedInterval (1::nat) 3, ''a'')]" and ?i = "ClosedInterval (5::nat) 9"
  have i: "it_inv ?t" "ci_start ?i \<le> ci_end ?i" by (simp_all add: it_inv_def)
  have "it_insert ?i ''b'' ?t = Inr (bt_insert 5 (?i, ''b'') ?t)"
    by (simp add: it_insert_def bt_floor_def bt_ceil_def)
  then show ?thesis using interval_tree_insert_get [OF i, of "''b''"]
    by (simp add: ci_contains_def it_get_def bt_floor_def)
qed

end
