(* ===== verification/Data_Selection.thy ===== *)
theory Data_Selection
  imports Coordinator_Reads Batches
begin

text \<open>
  Which data a round trains on and who trains on which part of it
  (\<open>src/shared/coordinator/src/data_selection.rs\<close>).
\<close>

section \<open>Definitions\<close>

text \<open>The clients in the trainer committee; \<open>None\<close> where an assertion of the unfinished committees fails.\<close>

fun trainer_nodes_loop ::
    "'id node_env \<Rightarrow> 'id coordinator \<Rightarrow> round \<Rightarrow> committee_selection \<Rightarrow> nat list \<Rightarrow> 'id client list option" where
  "trainer_nodes_loop E c rnd s [] = Some []"
| "trainer_nodes_loop E c rnd s (i # js) =
     do {
       client \<leftarrow> nth_opt (co_clients c) i;
       proof \<leftarrow> get_committee E s (of_nat i);
       here \<leftarrow> (case cp_committee proof of
                 Trainer \<Rightarrow> Some [client]
               | TieBreaker \<Rightarrow> (if r_tie_breaker_tasks rnd = 0 then Some [] else None)
               | Verifier \<Rightarrow> (if verification_percent (co_config c) = 0 then Some [] else None));
       rest \<leftarrow> trainer_nodes_loop E c rnd s js;
       Some (here @ rest)
     }"

text \<open>One batch per node, the first \<open>remainder\<close> nodes getting one element more.\<close>

fun assign_loop ::
    "u64 \<Rightarrow> u64 \<Rightarrow> nat \<Rightarrow> u64 \<Rightarrow> 'id client list \<Rightarrow> (batch_id \<times> 'id) list \<Rightarrow> (batch_id \<times> 'id) list option" where
  "assign_loop base_size remainder i current_index [] assignments = Some assignments"
| "assign_loop base_size remainder i current_index (node # nodes) assignments =
     do {
       node_batch_size \<leftarrow> checked_add base_size (if of_nat i < remainder then 1 else 0);
       if 0 < node_batch_size
       then do {
         e \<leftarrow> checked_add current_index node_batch_size;
         end_index \<leftarrow> checked_sub e 1;
         interval \<leftarrow> ci_new current_index end_index;
         next_index \<leftarrow> checked_add end_index 1;
         assign_loop base_size remainder (Suc i) next_index nodes
           (bt_insert (BatchId interval) (cl_id node) assignments)
       }
       else assign_loop base_size remainder (Suc i) current_index nodes assignments
     }"

definition assign_data_for_state ::
    "'id node_env \<Rightarrow> 'id coordinator \<Rightarrow> committee_selection \<Rightarrow> (batch_id \<times> 'id) list option" where
  "assign_data_for_state E c s =
     do {
       rnd \<leftarrow> current_round c;
       trainer_nodes \<leftarrow> trainer_nodes_loop E c rnd s [0..<length (co_clients c)];
       if trainer_nodes = [] then Some []
       else do {
         trainer_nodes \<leftarrow> deterministic_shuffle trainer_nodes (r_random_seed rnd);
         total_size \<leftarrow> get_target_global_batch_size (current_round c) c;
         let num_trainers = (of_nat (length trainer_nodes) :: u64);
         base_size \<leftarrow> checked_div (ucast total_size) num_trainers;
         remainder \<leftarrow> checked_rem (ucast total_size) num_trainers;
         assign_loop base_size remainder 0 (r_data_index rnd) trainer_nodes []
       }
     }"

fun batch_ids_loop :: "u64 \<Rightarrow> u64 \<Rightarrow> u64 \<Rightarrow> u64 \<Rightarrow> nat list \<Rightarrow> batch_id list option" where
  "batch_ids_loop base_size remainder fin current [] = Some []"
| "batch_ids_loop base_size remainder fin current (i # js) =
     do {
       node_size \<leftarrow> checked_add base_size (if of_nat i < remainder then 1 else 0);
       if 0 < node_size
       then do {
         e \<leftarrow> checked_add current node_size;
         batch_end \<leftarrow> checked_sub e 1;
         interval \<leftarrow> ci_new current batch_end;
         next \<leftarrow> checked_add batch_end 1;
         if fin \<le> next then Some [BatchId interval]
         else do {
           rest \<leftarrow> batch_ids_loop base_size remainder fin next js;
           Some (BatchId interval # rest)
         }
       }
       else batch_ids_loop base_size remainder fin current js
     }"

definition get_batch_ids_for_round :: "round \<Rightarrow> 'id coordinator \<Rightarrow> u64 \<Rightarrow> batch_id list option" where
  "get_batch_ids_for_round rnd c num_trainer_nodes =
     do {
       let start = r_data_index rnd;
       total_size \<leftarrow> get_target_global_batch_size (Some rnd) c;
       fin \<leftarrow> checked_add start (ucast total_size);
       base_size \<leftarrow> checked_div (ucast total_size) num_trainer_nodes;
       remainder \<leftarrow> checked_rem (ucast total_size) num_trainer_nodes;
       batch_ids_loop base_size remainder fin start [0..<unat num_trainer_nodes]
     }"

definition get_batch_ids_for_node :: "('id \<Rightarrow> 'id \<Rightarrow> bool) \<Rightarrow> (batch_id \<times> 'id) list \<Rightarrow> 'id \<Rightarrow> batch_id list" where
  "get_batch_ids_for_node eq tree node = map fst (filter (\<lambda>(_, assigned). eq assigned node) tree)"

fun data_index_loop :: "coordinator_config \<Rightarrow> u64 \<Rightarrow> nat \<Rightarrow> u64 \<Rightarrow> u64 option" where
  "data_index_loop cfg sl 0 current = Some current"
| "data_index_loop cfg sl (Suc n) current =
     do {
       tokens \<leftarrow> checked_mul current sl;
       next \<leftarrow> checked_add current (ucast (get_batch_size cfg tokens));
       data_index_loop cfg sl n next
     }"

definition get_data_index_for_step :: "'id coordinator \<Rightarrow> u32 \<Rightarrow> u64 option" where
  "get_data_index_for_step c target_step =
     (if target_step \<le> 1 \<or> total_steps (co_config c) < target_step then Some 0
      else data_index_loop (co_config c) (ucast (get_sequence_length c)) (unat target_step - 1) 0)"

section \<open>Data indices\<close>

lemma data_index_at_mono: "k \<le> n \<Longrightarrow> data_index_at cfg sl k \<le> data_index_at cfg sl n"
  by (induction n) (auto simp: le_Suc_eq)

lemma data_index_loop_eq:
  assumes "unat current = data_index_at cfg sl k" and "data_index_at cfg sl (k + n) < 2 ^ 64"
    and "data_index_at cfg sl (k + n) * unat sl < 2 ^ 64"
  shows "\<exists>j. data_index_loop cfg (ucast (sl::u32)) n current = Some j \<and> unat j = data_index_at cfg sl (k + n)"
  using assms
proof (induction n arbitrary: k current)
  case (Suc n)
  have "data_index_at cfg sl k * unat sl \<le> data_index_at cfg sl (k + Suc n) * unat sl"
    by (intro mult_le_mono1 data_index_at_mono) simp
  from le_less_trans [OF this Suc.prems(3)] have "unat current * unat sl < 2 ^ 64" unfolding Suc.prems(1) .
  then have "unat current * unat (ucast sl :: u64) < 2 ^ 64" by (simp add: unat_ucast_up)
  then obtain tokens where t: "checked_mul current (ucast sl) = Some tokens" by (auto simp: checked_mul_def)
  have "data_index_at cfg sl (Suc k) \<le> data_index_at cfg sl (k + Suc n)" by (intro data_index_at_mono) simp
  then have "unat current + unat (ucast (get_batch_size cfg tokens) :: u64) < 2 ^ 64"
    using Suc.prems(1,2) unfolding data_index_at.simps(2) tokens_eq [OF t Suc.prems(1)] by (simp add: unat_ucast_up)
  then obtain nx where nx: "checked_add current (ucast (get_batch_size cfg tokens)) = Some nx"
    by (auto simp: checked_add_def)
  from Suc.IH [OF data_step [OF t nx Suc.prems(1)]] Suc.prems t nx show ?case by simp
qed simp




section \<open>Consecutive batches\<close>

text \<open>The reference: \<open>total\<close> elements in \<open>n\<close> shares, as consecutive spans of natural numbers.\<close>

definition shares :: "nat \<Rightarrow> nat \<Rightarrow> nat list" where
  "shares tot n = map (\<lambda>i. tot div n + (if i < tot mod n then 1 else 0)) [0..<n]"

fun spans :: "nat \<Rightarrow> nat list \<Rightarrow> (nat \<times> nat) list" where
  "spans s [] = []"
| "spans s (k # ks) = (if k = 0 then spans s ks else (s, s + k - 1) # spans (s + k) ks)"

definition batch_span :: "batch_id \<Rightarrow> nat \<times> nat" where
  "batch_span b = (unat (ci_start (batch_interval b)), unat (ci_end (batch_interval b)))"

lemma batch_span_simp [simp]: "batch_span (BatchId (ClosedInterval a b)) = (unat a, unat b)"
  by (simp add: batch_span_def)

lemma sum_first: "sum_list (map (\<lambda>i. q + (if i < r then 1 else 0)) [0..<n]) = n * q + min r n" for q r :: nat
  by (induction n) auto

lemma sum_shares:
  assumes "0 < n"
  shows "sum_list (shares tot n) = tot"
proof -
  have "min (tot mod n) n = tot mod n" using assms by (simp add: min_def)
  then show ?thesis by (simp only: shares_def sum_first mult_div_mod_eq)
qed

lemma spans_after: "e \<in> set (spans s ks) \<Longrightarrow> s \<le> fst e \<and> fst e \<le> snd e"
proof (induction ks arbitrary: s)
  case (Cons k ks)
  show ?case using Cons.IH [of s] Cons.IH [of "s + k"] Cons.prems by (auto split: if_splits)
qed simp

lemma spans_cover:
  "(\<exists>!e. e \<in> set (spans s ks) \<and> fst e \<le> p \<and> p \<le> snd e) \<longleftrightarrow> s \<le> p \<and> p < s + sum_list ks"
proof (induction ks arbitrary: s)
  case (Cons k ks)
  show ?case
  proof (cases "k = 0")
    case False
    let ?R = "\<lambda>e. e \<in> set (spans (s + k) ks) \<and> fst e \<le> p \<and> p \<le> snd e"
    have after: "s + k \<le> p" if "?R e" for e using spans_after [of e "s + k" ks] that by linarith
    have "(\<exists>!e. e \<in> set (spans s (k # ks)) \<and> fst e \<le> p \<and> p \<le> snd e) =
        (if s \<le> p \<and> p < s + k then True else (\<exists>!e. ?R e))"
    proof (cases "s \<le> p \<and> p < s + k")
      case True
      then have no: "\<not> ?R e" for e using after [of e] by linarith
      have "(e \<in> set (spans s (k # ks)) \<and> fst e \<le> p \<and> p \<le> snd e) \<longleftrightarrow> e = (s, s + k - 1)" for e
        using False True no [of e] by auto
      then show ?thesis using True by simp
    next
      case out: False
      then have "(e \<in> set (spans s (k # ks)) \<and> fst e \<le> p \<and> p \<le> snd e) \<longleftrightarrow> ?R e" for e using False by auto
      then show ?thesis by (simp only: out if_False)
    qed
    also have "\<dots> \<longleftrightarrow> s \<le> p \<and> p < s + sum_list (k # ks)"
      unfolding Cons.IH [of "s + k"] by (cases "p < s + k") auto
    finally show ?thesis .
  qed (use Cons.IH [of s] in simp)
qed auto

lemma spans_distinct: "distinct (spans s ks)"
proof (induction ks arbitrary: s)
  case (Cons k ks)
  then show ?case using spans_after [of "(s, s + k - 1)" "s + k" ks] by auto
qed simp

lemma spans_size: "e \<in> set (spans s ks) \<Longrightarrow> snd e + 1 - fst e \<in> set ks"
  by (induction ks arbitrary: s) (auto split: if_splits)

text \<open>The sizes the loops compute from position \<open>i\<close> on.\<close>

definition sizes_from :: "u64 \<Rightarrow> u64 \<Rightarrow> nat \<Rightarrow> nat \<Rightarrow> nat list" where
  "sizes_from base rem i n = map (\<lambda>j. unat base + (if j < unat rem then 1 else 0)) [i..<i + n]"

lemma sizes_from_0 [simp]: "sizes_from base rem i 0 = []"
  by (simp add: sizes_from_def)

lemma sizes_from_Suc:
  "sizes_from base rem i (Suc n) = (unat base + (if i < unat rem then 1 else 0)) # sizes_from base rem (Suc i) n"
  by (simp add: sizes_from_def upt_conv_Cons)

text \<open>One step of either loop.\<close>

lemma batch_step:
  assumes "i < 2 ^ 64" and "k = unat base + (if i < unat (rem :: u64) then 1 else 0)" and "unat cur + k < 2 ^ 64"
  shows "\<exists>sz. checked_add base (if of_nat i < rem then 1 else 0 :: u64) = Some sz \<and> unat sz = k \<and>
    (0 < sz \<longrightarrow> (\<exists>e f. checked_add cur sz = Some e \<and> checked_sub e 1 = Some f \<and>
       ci_new cur f = Some (ClosedInterval cur f) \<and> checked_add f 1 = Some e \<and>
       unat f = unat cur + k - 1 \<and> unat e = unat cur + k))"
proof -
  let ?x = "if of_nat i < rem then 1 else 0 :: u64"
  have "of_nat i < rem \<longleftrightarrow> i < unat rem" 
    using unat_of_nat_small [where 'a = 64, of i] assms(1) by (simp add: word_less_nat_alt)
  then have x: "unat ?x = (if i < unat rem then 1 else 0)" by simp
  then have "unat base + unat ?x < 2 ^ 64" using assms by simp
  then have a: "checked_add base ?x = Some (base + ?x)" by (intro checked_add_fits) simp
  have u: "unat (base + ?x) = k" using checked_add_Some [OF a] x assms(2) by simp
  show ?thesis
  proof (cases "0 < base + ?x")
    case True
    let ?e = "cur + (base + ?x)"
    have e: "checked_add cur (base + ?x) = Some ?e" using assms(3) u by (intro checked_add_fits) simp
    have ue: "unat ?e = unat cur + k" using checked_add_Some [OF e] u by simp
    have k: "0 < k" using True u by (simp add: word_less_nat_alt)
    then have f: "checked_sub ?e 1 = Some (?e - 1)" using ue by (simp add: checked_sub_def word_le_nat_alt)
    have uf: "unat (?e - 1) = unat cur + k - 1" using checked_sub_Some [OF f] ue by simp
    have "ci_new cur (?e - 1) = Some (ClosedInterval cur (?e - 1))" using k uf by (simp add: ci_new_def word_le_nat_alt)
    moreover have "checked_add (?e - 1) 1 = Some ?e" using uf ue k assms(3) by (simp add: checked_add_def)
    ultimately show ?thesis using a u e f ue uf by blast
  qed (use a u in blast)
qed

lemma assign_loop_spec:
  assumes "i + length nodes < 2 ^ 64" and "unat cur + sum_list (sizes_from base rem i (length nodes)) < 2 ^ 64"
    and "\<forall>(b, v) \<in> set acc. ci_start (batch_interval b) < cur"
  shows "\<exists>new. assign_loop base rem i cur nodes acc = Some (acc @ new) \<and>
    map (\<lambda>e. batch_span (fst e)) new = spans (unat cur) (sizes_from base rem i (length nodes)) \<and>
    map snd new = map (\<lambda>(x, k). cl_id x)
      (filter (\<lambda>(x, k). k \<noteq> 0) (zip nodes (sizes_from base rem i (length nodes))))"
  using assms
proof (induction nodes arbitrary: i cur acc)
  case (Cons node nodes)
  define k where "k = unat base + (if i < unat rem then 1 else 0)"
  have sz: "sizes_from base rem i (Suc (length nodes)) = k # sizes_from base rem (Suc i) (length nodes)"
    by (simp add: sizes_from_Suc k_def)
  obtain w where w: "checked_add base (if of_nat i < rem then 1 else 0 :: u64) = Some w" "unat w = k"
    and st: "0 < w \<longrightarrow> (\<exists>e f. checked_add cur w = Some e \<and> checked_sub e 1 = Some f \<and>
       ci_new cur f = Some (ClosedInterval cur f) \<and> checked_add f 1 = Some e \<and>
       unat f = unat cur + k - 1 \<and> unat e = unat cur + k)"
    using batch_step [of i k base rem cur] Cons.prems(1,2) sz k_def by auto
  show ?case
  proof (cases "k = 0")
    case True
    then have "\<not> 0 < w" using w(2) by (simp add: word_less_nat_alt)
    then show ?thesis using Cons.IH [of "Suc i" cur acc] Cons.prems w True by (simp add: sz)
  next
    case False
    then have w0: "0 < w" using w(2) by (simp add: word_less_nat_alt)
    from st w0 obtain e f where e: "checked_add cur w = Some e" "checked_sub e 1 = Some f"
      "ci_new cur f = Some (ClosedInterval cur f)" "checked_add f 1 = Some e"
      "unat f = unat cur + k - 1" "unat e = unat cur + k" by blast
    let ?b = "BatchId (ClosedInterval cur f)"
    have ins: "bt_insert ?b (cl_id node) acc = acc @ [(?b, cl_id node)]"
      using Cons.prems(3) by (intro bt_insert_last) (auto simp: less_batch_id_def less_closed_interval_def)
    have lt: "cur < e" using e(6) False by (simp add: word_less_nat_alt)
    have "\<exists>new. assign_loop base rem (Suc i) e nodes (acc @ [(?b, cl_id node)]) = Some ((acc @ [(?b, cl_id node)]) @ new) \<and>
      map (\<lambda>e. batch_span (fst e)) new = spans (unat e) (sizes_from base rem (Suc i) (length nodes)) \<and>
      map snd new = map (\<lambda>(x, k). cl_id x)
        (filter (\<lambda>(x, k). k \<noteq> 0) (zip nodes (sizes_from base rem (Suc i) (length nodes))))"
      using Cons.prems e(6) lt by (intro Cons.IH) (auto simp: sz dest: order.strict_trans)
    then obtain new where n: "assign_loop base rem (Suc i) e nodes (acc @ [(?b, cl_id node)]) = Some ((acc @ [(?b, cl_id node)]) @ new)"
      "map (\<lambda>e. batch_span (fst e)) new = spans (unat e) (sizes_from base rem (Suc i) (length nodes))"
      "map snd new = map (\<lambda>(x, k). cl_id x)
        (filter (\<lambda>(x, k). k \<noteq> 0) (zip nodes (sizes_from base rem (Suc i) (length nodes))))" by blast
    show ?thesis
      by (rule exI [of _ "(?b, cl_id node) # new"])
        (use n w w0 e ins False in \<open>simp add: sz\<close>)
  qed
qed simp


lemma batch_ids_loop_spec:
  assumes "i + n < 2 ^ 64" and "unat cur + sum_list (sizes_from base rem i n) = unat fin"
  shows "\<exists>bs. batch_ids_loop base rem fin cur [i..<i + n] = Some bs \<and>
    map batch_span bs = spans (unat cur) (sizes_from base rem i n)"
  using assms
proof (induction n arbitrary: i cur)
  case (Suc n)
  define k where "k = unat base + (if i < unat rem then 1 else 0)"
  have sz: "sizes_from base rem i (Suc n) = k # sizes_from base rem (Suc i) n" by (simp add: sizes_from_Suc k_def)
  have fits: "unat cur + k < 2 ^ 64" using Suc.prems(2) unat_less_pow [of fin] unfolding sz by simp
  obtain w where w: "checked_add base (if of_nat i < rem then 1 else 0 :: u64) = Some w" "unat w = k"
    and st: "0 < w \<longrightarrow> (\<exists>e f. checked_add cur w = Some e \<and> checked_sub e 1 = Some f \<and>
       ci_new cur f = Some (ClosedInterval cur f) \<and> checked_add f 1 = Some e \<and>
       unat f = unat cur + k - 1 \<and> unat e = unat cur + k)"
    using batch_step [of i k base rem cur] Suc.prems(1) fits k_def by auto
  have upt: "[i..<i + Suc n] = i # [Suc i..<Suc i + n]" by (simp add: upt_conv_Cons)
  show ?case
  proof (cases "k = 0")
    case True
    then have "\<not> 0 < w" using w(2) by (simp add: word_less_nat_alt)
    then show ?thesis using Suc.IH [of "Suc i" cur] Suc.prems w True unfolding sz upt by simp
  next
    case False
    then have w0: "0 < w" using w(2) by (simp add: word_less_nat_alt)
    from st w0 obtain e f where e: "checked_add cur w = Some e" "checked_sub e 1 = Some f"
      "ci_new cur f = Some (ClosedInterval cur f)" "checked_add f 1 = Some e"
      "unat f = unat cur + k - 1" "unat e = unat cur + k" by blast
    have tot: "unat e + sum_list (sizes_from base rem (Suc i) n) = unat fin" using Suc.prems(2) e(6) unfolding sz by simp
    from Suc.IH [of "Suc i" e] Suc.prems(1) tot obtain bs where bs: "batch_ids_loop base rem fin e [Suc i..<Suc i + n] = Some bs"
      "map batch_span bs = spans (unat e) (sizes_from base rem (Suc i) n)" by auto
    have none_left: "spans (unat e) (sizes_from base rem (Suc i) n) = []" if "fin \<le> e"
    proof -
      have "sum_list (sizes_from base rem (Suc i) n) = 0" using tot that unfolding word_le_nat_alt by linarith
      moreover have "sum_list ks = 0 \<Longrightarrow> spans t ks = []" for t ks by (induction ks arbitrary: t) auto
      ultimately show ?thesis by blast
    qed
    show ?thesis
    proof (cases "fin \<le> e")
      case True
      then show ?thesis using w w0 e none_left False unfolding upt sz by simp
    next
      case False
      then show ?thesis using w w0 e bs \<open>k \<noteq> 0\<close> unfolding upt sz by simp
    qed
  qed
qed simp

section \<open>The assignment of a round\<close>

lemma all_trainers:
  assumes "\<forall>i \<in> set js. i < length (co_clients c) \<and> map_option cp_committee (get_committee E s (of_nat i)) = Some Trainer"
  shows "trainer_nodes_loop E c r s js = Some (map ((!) (co_clients c)) js)"
  using assms
proof (induction js)
  case (Cons i js)
  then obtain pf where "get_committee E s (of_nat i) = Some pf" "cp_committee pf = Trainer" by auto
  then show ?case using Cons by (simp add: nth_opt_def)
qed simp

lemma training_all_trainers:
  assumes "externs_ok E" and "co_inv E c" and "co_run_state c \<in> {RoundTrain, RoundWitness}"
    and "verification_percent (co_config c) = 0" and "from_coordinator E c 0 = Some (Inr s)"
  shows "trainer_nodes_loop E c r s [0..<length (co_clients c)] = Some (co_clients c)"
    and "0 < length (co_clients c)" and "length (co_clients c) \<le> 256"
proof -
  obtain rc where rc: "current_round c = Some rc" and ok: "round_ok E c rc" by (rule training_round [OF assms(2,3)])
  show small: "length (co_clients c) \<le> 256" using clients_small [OF co_inv_parts(3) [OF assms(2)]] .
  show "0 < length (co_clients c)"
  proof -
    have "unat (min_clients (co_config c)) \<le> length (co_clients c)"
      using co_inv_parts(4) [OF assms(2)] assms(3) by (auto simp: phase_ok_def train_ok_def)
    moreover have "min_clients (co_config c) \<noteq> 0" using co_inv_parts(1) [OF assms(2)] by (simp add: config_check_def)
    ultimately show ?thesis by (auto simp: word_unat_eq_iff)
  qed
  have n: "committee_selection_new E 0 (ucast (witness_nodes (co_config c))) 0 (ucast (r_clients_len rc))
      (r_random_seed rc) = Some (Inr s)"
    using assms(4,5) rc ok by (simp add: from_coordinator_def round_ok_def)
  note sel = committee_selection_new_ok [OF n]
  have tn: "unat (cs_total_nodes s) = length (co_clients c)" using sel(2) ok by (simp add: unat_ucast_up round_ok_def)
  have "cs_verifier_nodes s = 0" "cs_tie_breaker_nodes s = 0" using sel(4,6) by (simp_all add: word_unat_eq_iff)
  then have "map_option cp_committee (get_committee E s (of_nat i)) = Some Trainer" if "i < length (co_clients c)" for i
    using get_committee_position [OF assms(1) _ sel(1), of "of_nat i"] that tn small
      unat_of_nat_small [where 'a = 64, of i] by (simp add: Let_def word_less_nat_alt)
  then show "trainer_nodes_loop E c r s [0..<length (co_clients c)] = Some (co_clients c)"
    using all_trainers [of "[0..<length (co_clients c)]" c E s] by (simp add: map_nth)
qed


lemma batch_span_inj: "batch_span a = batch_span b \<longleftrightarrow> a = b"
  by (cases a; cases b) (auto simp: batch_span_def word_unat_eq_iff intro: closed_interval.expand)

lemma batch_span_contains:
  "ci_contains (batch_interval b) p \<longleftrightarrow> fst (batch_span b) \<le> unat p \<and> unat p \<le> snd (batch_span b)"
  by (simp add: ci_contains_def batch_span_def word_le_nat_alt)

lemma ex1_image:
  assumes "inj f"
  shows "(\<exists>!b. b \<in> A \<and> P (f b)) \<longleftrightarrow> (\<exists>!e. e \<in> f ` A \<and> P e)"
proof
  assume "\<exists>!b. b \<in> A \<and> P (f b)"
  then obtain b where b: "b \<in> A" "P (f b)" and u: "\<And>x. x \<in> A \<and> P (f x) \<Longrightarrow> x = b" by (elim ex1E) blast
  show "\<exists>!e. e \<in> f ` A \<and> P e"
  proof (rule ex1I [of _ "f b"])
    fix e assume "e \<in> f ` A \<and> P e"
    then obtain x where "e = f x" "x \<in> A \<and> P (f x)" by blast
    then show "e = f b" using u [of x] by simp
  qed (use b in blast)
next
  assume "\<exists>!e. e \<in> f ` A \<and> P e"
  then obtain b where b: "b \<in> A" "P (f b)" and u: "\<And>e. e \<in> f ` A \<Longrightarrow> P e \<Longrightarrow> e = f b" by blast
  show "\<exists>!b. b \<in> A \<and> P (f b)"
  proof (rule ex1I [of _ b])
    fix x assume "x \<in> A \<and> P (f x)"
    then have "f x = f b" using u [of "f x"] by blast
    then show "x = b" by (rule injD [OF assms])
  qed (use b in blast)
qed

lemma spans_unique:
  assumes "map batch_span bs = spans st ks"
  shows "(\<exists>!b. b \<in> set bs \<and> ci_contains (batch_interval b) p) \<longleftrightarrow> st \<le> unat p \<and> unat p < st + sum_list ks"
proof -
  have "(\<exists>!b. b \<in> set bs \<and> ci_contains (batch_interval b) p) \<longleftrightarrow>
      (\<exists>!e. e \<in> batch_span ` set bs \<and> fst e \<le> unat p \<and> unat p \<le> snd e)"
    unfolding batch_span_contains by (rule ex1_image) (simp add: inj_def batch_span_inj)
  also have "batch_span ` set bs = set (spans st ks)" using assms by (metis set_map)
  finally show ?thesis by (simp only: spans_cover)
qed

lemma shares_words:
  assumes "0 < n" and "n < 2 ^ 64"
  shows "sizes_from (ucast (tot :: u16) div of_nat n) (ucast tot mod of_nat n) 0 n = shares (unat tot) n"
  using unat_of_nat_small [where 'a = 64, of n] assms
  by (simp add: sizes_from_def shares_def unat_div unat_mod unat_ucast_up)

text \<open>The assignment and the batch ids of a round, computed side by side.\<close>

lemma assignment_spec:
  assumes "externs_ok E" and "co_inv E c" and "co_run_state c \<in> {RoundTrain, RoundWitness}"
    and "verification_percent (co_config c) = 0" and "from_coordinator E c 0 = Some (Inr s)"
    and "current_round c = Some r" and "unat (r_data_index r) * unat (get_sequence_length c) < 2 ^ 64"
    and "unat (r_data_index r) + 2 ^ 16 \<le> 2 ^ 64"
  shows "\<exists>tot m. get_target_global_batch_size (Some r) c = Some tot \<and> assign_data_for_state E c s = Some m \<and>
    distinct (map fst m) \<and>
    (\<forall>p. (\<exists>!b. b \<in> set (map fst m) \<and> ci_contains (batch_interval b) p) \<longleftrightarrow>
       unat (r_data_index r) \<le> unat p \<and> unat p < unat (r_data_index r) + unat tot) \<and>
    (\<forall>b \<in> set (map fst m). snd (batch_span b) + 1 - fst (batch_span b) - unat tot div length (co_clients c) \<le> 1) \<and>
    snd ` set m \<subseteq> cl_id ` set (co_clients c) \<and>
    get_batch_ids_for_round r c (of_nat (length (co_clients c))) = Some (map fst m)"
proof -
  note tr = training_all_trainers [OF assms(1-5)]
  let ?n = "length (co_clients c)" and ?di = "r_data_index r"
  obtain tokens where "checked_mul ?di (ucast (get_sequence_length c)) = Some tokens"
    using data_index_fits(1) [OF assms(7,8)] by blast
  then obtain tot where tot: "get_target_global_batch_size (Some r) c = Some tot"
    by (simp add: get_target_global_batch_size_def total_tokens_processed_def)
  obtain nodes where sh: "deterministic_shuffle (co_clients c) (r_random_seed r) = Some nodes"
    and ms: "mset nodes = mset (co_clients c)" using deterministic_shuffle_total [of "co_clients c"] tr(3) by auto
  have len: "length nodes = ?n" using ms by (metis size_mset)
  let ?base = "ucast tot div of_nat ?n :: u64" and ?rem = "ucast tot mod of_nat ?n :: u64"
  have un: "unat (of_nat ?n :: u64) = ?n" using tr(3) by (intro unat_of_nat_small) simp
  have nz: "(of_nat ?n :: u64) \<noteq> 0" using un tr(2) by (metis less_irrefl unat_0)
  have sz: "sizes_from ?base ?rem 0 ?n = shares (unat tot) ?n" using shares_words [OF tr(2)] tr(3) by simp
  have sum: "sum_list (shares (unat tot) ?n) = unat tot" using sum_shares [OF tr(2)] .
  have t16: "unat tot < 2 ^ 16" using unat_less_pow [of tot] by simp
  obtain m where m: "assign_loop ?base ?rem 0 ?di nodes [] = Some m"
    and sp: "map (\<lambda>e. batch_span (fst e)) m = spans (unat ?di) (shares (unat tot) ?n)"
    and ow: "map snd m = map (\<lambda>(x, k). cl_id x) (filter (\<lambda>(x, k). k \<noteq> 0) (zip nodes (shares (unat tot) ?n)))"
    using assign_loop_spec [of 0 nodes ?di ?base ?rem "[]"] len sz sum t16 tr(3) assms(8) by auto
  have asg: "assign_data_for_state E c s = Some m"
    using assms(6) tr sh tot m nz len by (auto simp: assign_data_for_state_def checked_div_def checked_rem_def)
  have sp': "map batch_span (map fst m) = spans (unat ?di) (shares (unat tot) ?n)" using sp by (simp add: o_def)
  have fin: "checked_add ?di (ucast tot) = Some (?di + ucast tot)" "unat (?di + ucast tot) = unat ?di + unat tot"
    using assms(8) t16 by (auto simp: checked_add_fits unat_ucast_up unat_word_ariths)
  obtain bs where bs: "batch_ids_loop ?base ?rem (?di + ucast tot) ?di [0..<?n] = Some bs"
    "map batch_span bs = spans (unat ?di) (shares (unat tot) ?n)"
    using batch_ids_loop_spec [of 0 ?n ?di ?base ?rem "?di + ucast tot"] sz sum fin tr(3) by auto
  have "bs = map fst m" using bs(2) sp' by (metis batch_span_inj injI inj_map_eq_map)
  then have ids: "get_batch_ids_for_round r c (of_nat ?n) = Some (map fst m)"
    using tot fin bs(1) nz un by (simp add: get_batch_ids_for_round_def checked_div_def checked_rem_def)
  have "distinct (map batch_span (map fst m))" using sp' spans_distinct by metis
  then have dis: "distinct (map fst m)" by (simp only: distinct_map)
  have cov: "(\<exists>!b. b \<in> set (map fst m) \<and> ci_contains (batch_interval b) p) \<longleftrightarrow>
      unat ?di \<le> unat p \<and> unat p < unat ?di + unat tot" for p
    using spans_unique [OF sp'] sum by simp
  have fair: "snd (batch_span b) + 1 - fst (batch_span b) - unat tot div ?n \<le> 1" if "b \<in> set (map fst m)" for b
  proof -
    have "batch_span b \<in> set (spans (unat ?di) (shares (unat tot) ?n))" using that sp' by (metis image_eqI set_map)
    from spans_size [OF this] show ?thesis by (auto simp: shares_def split: if_splits)
  qed
  have "snd ` set m = set (map snd m)" by simp
  also have "\<dots> \<subseteq> cl_id ` set nodes" unfolding ow by (auto dest: set_zip_leftD)
  finally have own: "snd ` set m \<subseteq> cl_id ` set (co_clients c)" using ms by (metis set_mset_mset)
  show ?thesis using tot asg dis cov fair own ids by blast
qed



end
