(* ===== verification/Solana_Base.thy ===== *)
theory Solana_Base
  imports Bloom
begin

text \<open>
  What the four on-chain programs under \<open>src/architectures/decentralized\<close> share: public keys, program
  derived addresses, SPL token accounts, the checks of an accounts struct, and transactions.

  The Solana runtime, the Anchor framework and the token program are not part of the repository. Their
  functions are the parameters of \<open>chain_env\<close>, and \<open>chain_env_ok\<close> states the documented behaviour the
  programs rely on. A \<open>#[account(..)]\<close> attribute is the check it documents: an account that is not there,
  a constraint that is false or an \<open>init\<close> of an existing account ends the instruction with an error. A
  \<open>Signer\<close> is a key whose signature the runtime has verified; it is an argument of the instruction.
\<close>

section \<open>Public keys\<close>

text \<open>A \<open>Pubkey\<close> is an array of 32 bytes, read as a little-endian 256-bit number.\<close>

type_synonym pubkey = "256 word"

definition pubkey_bytes :: "pubkey \<Rightarrow> bytes" where
  "pubkey_bytes k = map (\<lambda>i. ucast (drop_bit (8 * i) k)) [0..<32]"

definition pubkey_default :: pubkey where
  "pubkey_default = 0"

lemma length_pubkey_bytes [simp]: "length (pubkey_bytes k) = 32"
  by (simp add: pubkey_bytes_def)

lemma le_bytes_inj:
  fixes w v :: "'a::len word"
  assumes "map (\<lambda>i. ucast (drop_bit (8 * i) w) :: u8) [0..<n] = map (\<lambda>i. ucast (drop_bit (8 * i) v)) [0..<n]"
    and "LENGTH('a) \<le> 8 * n"
  shows "w = v"
proof (rule bit_word_eqI)
  fix b assume "b < LENGTH('a)"
  then have d: "b div 8 < n" and m: "b mod 8 < 8" and e: "8 * (b div 8) + b mod 8 = b" using assms(2) by simp_all
  have "(ucast (drop_bit (8 * (b div 8)) w) :: u8) = ucast (drop_bit (8 * (b div 8)) v)"
    using assms(1) d by (auto simp: map_eq_conv)
  then have "bit (ucast (drop_bit (8 * (b div 8)) w) :: u8) (b mod 8) = bit (ucast (drop_bit (8 * (b div 8)) v) :: u8) (b mod 8)"
    by simp
  then show "bit w b = bit v b" using m e by (simp add: bit_ucast_iff bit_drop_bit_eq)
qed

lemma pubkey_bytes_inject [simp]: "pubkey_bytes k = pubkey_bytes l \<longleftrightarrow> k = l"
  using le_bytes_inj [of k 32 l] by (auto simp: pubkey_bytes_def)

lemma u64_bytes_inject [simp]: "u64_to_le_bytes k = u64_to_le_bytes l \<longleftrightarrow> k = l"
  using le_bytes_inj [of k 8 l] by (auto simp: u64_to_le_bytes_def)

lemma length_u64_bytes [simp]: "length (u64_to_le_bytes k) = 8"
  by (simp add: u64_to_le_bytes_def)

section \<open>Token accounts\<close>

record token_account =
  ta_mint :: pubkey
  ta_owner :: pubkey
  ta_amount :: u64
  ta_delegate :: "pubkey option"
  ta_frozen :: bool

type_synonym tokens = "pubkey \<rightharpoonup> token_account"

definition tok_amount :: "tokens \<Rightarrow> pubkey \<Rightarrow> nat" where
  "tok_amount ts k = (case ts k of None \<Rightarrow> 0 | Some a \<Rightarrow> unat (ta_amount a))"

text \<open>Token accounts keep their mint and owner.\<close>

definition same_token_accounts :: "tokens \<Rightarrow> tokens \<Rightarrow> bool" where
  "same_token_accounts ts ts' \<longleftrightarrow>
     (\<forall>k. map_option (\<lambda>a. (ta_mint a, ta_owner a)) (ts' k) = map_option (\<lambda>a. (ta_mint a, ta_owner a)) (ts k))"

section \<open>The environment\<close>

text \<open>
  \<open>ce_create_pda\<close> and \<open>ce_find_pda\<close> are \<open>Pubkey::create_program_address\<close> and
  \<open>Pubkey::find_program_address\<close> for a program id; \<open>ce_ata\<close> is the associated token address of an owner
  and a mint; \<open>ce_transfer\<close> is the token program's transfer (from, to, authority, amount);
  \<open>ce_coordinator_space\<close> is \<open>size_of::<CoordinatorAccount>()\<close> plus its discriminator.
\<close>

record chain_env =
  ce_externs :: externs
  ce_create_pda :: "pubkey \<Rightarrow> bytes list \<Rightarrow> u8 \<Rightarrow> pubkey option"
  ce_find_pda :: "pubkey \<Rightarrow> bytes list \<Rightarrow> (pubkey \<times> u8) option"
  ce_ata :: "pubkey \<Rightarrow> pubkey \<Rightarrow> pubkey"
  ce_transfer :: "tokens \<Rightarrow> pubkey \<Rightarrow> pubkey \<Rightarrow> pubkey \<Rightarrow> u64 \<Rightarrow> tokens option"
  ce_coordinator_space :: nat

text \<open>
  Program derived addresses do not collide: an address is the hash of the concatenated seeds, the bump
  and the program id, which is taken to be injective.
\<close>

definition pda_ok :: "chain_env \<Rightarrow> bool" where
  "pda_ok E \<longleftrightarrow>
     (\<forall>p seeds k b. ce_find_pda E p seeds = Some (k, b) \<longrightarrow> ce_create_pda E p seeds b = Some k) \<and>
     (\<forall>p seeds b p' seeds' b' k. ce_create_pda E p seeds b = Some k \<longrightarrow> ce_create_pda E p' seeds' b' = Some k \<longrightarrow>
        p = p' \<and> concat seeds = concat seeds' \<and> b = b')"

text \<open>
  A transfer that succeeds moves the amount between two accounts of one mint, authorised by the owner or
  a delegate of the source; between two accounts that are not frozen, the owner's transfer of an available
  amount succeeds.
\<close>

definition moved :: "pubkey \<Rightarrow> pubkey \<Rightarrow> nat \<Rightarrow> (pubkey \<Rightarrow> nat) \<Rightarrow> pubkey \<Rightarrow> nat" where
  "moved from to n f = (let g = f(from := f from - n) in g(to := g to + n))"

definition transfer_effect :: "tokens \<Rightarrow> pubkey \<Rightarrow> pubkey \<Rightarrow> pubkey \<Rightarrow> u64 \<Rightarrow> tokens \<Rightarrow> bool" where
  "transfer_effect ts from to auth amt ts' \<longleftrightarrow>
     same_token_accounts ts ts' \<and> unat amt \<le> tok_amount ts from \<and>
     tok_amount ts' = moved from to (unat amt) (tok_amount ts) \<and>
     (\<exists>a b. ts from = Some a \<and> ts to = Some b \<and> ta_mint a = ta_mint b \<and>
        (ta_owner a = auth \<or> ta_delegate a = Some auth))"

definition transfer_ok :: "chain_env \<Rightarrow> bool" where
  "transfer_ok E \<longleftrightarrow>
     (\<forall>ts from to auth amt ts'. ce_transfer E ts from to auth amt = Some ts' \<longrightarrow>
        transfer_effect ts from to auth amt ts') \<and>
     (\<forall>ts from to amt a b. ts from = Some a \<longrightarrow> ts to = Some b \<longrightarrow> ta_mint a = ta_mint b \<longrightarrow>
        \<not> ta_frozen a \<longrightarrow> \<not> ta_frozen b \<longrightarrow> amt \<le> ta_amount a \<longrightarrow>
        (from = to \<or> unat (ta_amount b) + unat amt < 2 ^ 64) \<longrightarrow>
        (\<exists>ts'. ce_transfer E ts from to (ta_owner a) amt = Some ts'))"

definition chain_env_ok :: "chain_env \<Rightarrow> bool" where
  "chain_env_ok E \<longleftrightarrow> externs_ok (ce_externs E) \<and> pda_ok E \<and> transfer_ok E"

lemma chain_env_parts:
  "chain_env_ok E \<Longrightarrow> externs_ok (ce_externs E)" "chain_env_ok E \<Longrightarrow> pda_ok E" "chain_env_ok E \<Longrightarrow> transfer_ok E"
  by (simp_all add: chain_env_ok_def)

lemma find_create: "pda_ok E \<Longrightarrow> ce_find_pda E p seeds = Some (k, b) \<Longrightarrow> ce_create_pda E p seeds b = Some k"
  by (auto simp: pda_ok_def)

lemma create_inj:
  "pda_ok E \<Longrightarrow> ce_create_pda E p seeds b = Some k \<Longrightarrow> ce_create_pda E p seeds' b' = Some k \<Longrightarrow>
   concat seeds = concat seeds' \<and> b = b'"
  unfolding pda_ok_def by blast

lemma transfer_Some:
  "transfer_ok E \<Longrightarrow> ce_transfer E ts from to auth amt = Some ts' \<Longrightarrow> transfer_effect ts from to auth amt ts'"
  unfolding transfer_ok_def by blast

text \<open>Two keys after a common prefix: the seeds of a participant or a lender determine both.\<close>

lemma seeds_two_keys:
  "concat [pre, pubkey_bytes a, pubkey_bytes b] = concat [pre, pubkey_bytes a', pubkey_bytes b'] \<longleftrightarrow> a = a' \<and> b = b'"
  by auto

section \<open>Errors and checks\<close>

datatype 'e tx_error =
    ConstraintViolated | AccountMissing | AlreadyInUse | TransferFailed | DiscriminatorAlreadySet
  | Custom 'e

text \<open>An early return \<open>if !cond { return err!(e) }\<close>, and a look-up of an account.\<close>

definition require :: "bool \<Rightarrow> 'e \<Rightarrow> 's \<Rightarrow> ('s, 'e, 'a) exec \<Rightarrow> ('s, 'e, 'a) exec" where
  "require b e s k = (if b then k else Fail s e)"

definition with_account :: "'k \<Rightarrow> ('k \<rightharpoonup> 'v) \<Rightarrow> 's \<Rightarrow> ('v \<Rightarrow> ('s, 'e tx_error, 'a) exec) \<Rightarrow> ('s, 'e tx_error, 'a) exec" where
  "with_account k m s f = (case m k of None \<Rightarrow> Fail s AccountMissing | Some v \<Rightarrow> f v)"

text \<open>
  The checks of token accounts: one that a signer brings (\<open>mint\<close>, \<open>owner\<close>, no \<open>delegate\<close>), and the one
  associated with an authority and a mint (its address and its owner).
\<close>

definition with_user_token ::
    "pubkey \<Rightarrow> pubkey \<Rightarrow> pubkey \<Rightarrow> tokens \<Rightarrow> 's \<Rightarrow> (token_account \<Rightarrow> ('s, 'e tx_error, 'a) exec) \<Rightarrow> ('s, 'e tx_error, 'a) exec" where
  "with_user_token key mint owner ts s f =
     with_account key ts s (\<lambda>a.
       require (ta_mint a = mint \<and> ta_owner a = owner \<and> ta_delegate a = None) ConstraintViolated s (f a))"

definition with_associated_token ::
    "chain_env \<Rightarrow> pubkey \<Rightarrow> pubkey \<Rightarrow> tokens \<Rightarrow> 's \<Rightarrow> (token_account \<Rightarrow> ('s, 'e tx_error, 'a) exec) \<Rightarrow> ('s, 'e tx_error, 'a) exec" where
  "with_associated_token E authority mint ts s f =
     with_account (ce_ata E authority mint) ts s (\<lambda>a.
       require (ta_owner a = authority) ConstraintViolated s (f a))"

text \<open>\<open>init\<close> of an associated token account: empty, owned by the given authority.\<close>

definition empty_token_account :: "pubkey \<Rightarrow> pubkey \<Rightarrow> token_account" where
  "empty_token_account mint owner =
     \<lparr>ta_mint = mint, ta_owner = owner, ta_amount = 0, ta_delegate = None, ta_frozen = False\<rparr>"

text \<open>A cross-program invocation: its error ends the calling instruction.\<close>

fun cpi :: "('e \<Rightarrow> 'f) \<Rightarrow> ('s, 'e, 'a) exec \<Rightarrow> ('s, 'f, 'a) exec" where
  "cpi h Panic = Panic"
| "cpi h (Fail s e) = Fail s (h e)"
| "cpi h (Done s a) = Done s a"

lemma require_Done [simp]: "require b e s k = Done t a \<longleftrightarrow> b \<and> k = Done t a"
  by (simp add: require_def)

lemma require_simps [simp]: "require True e s k = k" "require False e s k = Fail s e"
  by (simp_all add: require_def)

lemma with_account_Done [simp]: "with_account k m s f = Done t a \<longleftrightarrow> (\<exists>v. m k = Some v \<and> f v = Done t a)"
  by (simp add: with_account_def split: option.splits)

lemma with_account_simps [simp]:
  "m k = Some v \<Longrightarrow> with_account k m s f = f v" "m k = None \<Longrightarrow> with_account k m s f = Fail s AccountMissing"
  by (simp_all add: with_account_def)

lemma with_user_token_Done [simp]:
  "with_user_token key mint owner ts s f = Done t u \<longleftrightarrow>
     (\<exists>a. ts key = Some a \<and> ta_mint a = mint \<and> ta_owner a = owner \<and> ta_delegate a = None \<and> f a = Done t u)"
  by (auto simp: with_user_token_def)

lemma with_associated_token_Done [simp]:
  "with_associated_token E owner mint ts s f = Done t u \<longleftrightarrow>
     (\<exists>a. ts (ce_ata E owner mint) = Some a \<and> ta_owner a = owner \<and> f a = Done t u)"
  by (auto simp: with_associated_token_def)

lemma cpi_Done [simp]: "cpi h r = Done t a \<longleftrightarrow> r = Done t a"
  by (cases r) auto

section \<open>Transactions\<close>

text \<open>An instruction that panics or returns an error leaves no trace: the runtime discards its writes.\<close>

definition tx :: "('s \<Rightarrow> ('s, 'e, 'a) exec) \<Rightarrow> 's \<Rightarrow> ('s, 'e, 'a) exec" where
  "tx f s = (case f s of Panic \<Rightarrow> Panic | Fail t e \<Rightarrow> Fail s e | Done t a \<Rightarrow> Done t a)"

lemma state_after_tx: "state_after s (tx f s) = (case f s of Done t a \<Rightarrow> t | _ \<Rightarrow> s)"
  by (cases "f s") (simp_all add: tx_def)

text \<open>
  The contract of a program: its instructions keep the invariant when they succeed, and never undo what
  has been achieved (\<open>mono\<close>). Atomic transactions turn this into a guarded component.
\<close>

locale on_chain_program =
  fixes handler :: "'c \<Rightarrow> 's \<Rightarrow> ('s, 'e, 'a) exec"
    and inv :: "'s \<Rightarrow> bool"
    and mono :: "'s \<Rightarrow> 's \<Rightarrow> bool"
  assumes handler_inv: "inv s \<Longrightarrow> handler c s = Done t a \<Longrightarrow> inv t"
    and handler_mono: "inv s \<Longrightarrow> handler c s = Done t a \<Longrightarrow> mono s t"
    and mono_refl: "mono s s"
    and mono_trans: "mono s t \<Longrightarrow> mono t u \<Longrightarrow> mono s u"
begin

lemma tx_inv: "inv s \<Longrightarrow> holds inv (tx (handler c) s)"
  using handler_inv by (cases "handler c s") (auto simp: tx_def)

lemma tx_mono: "inv s \<Longrightarrow> mono s (state_after s (tx (handler c) s))"
  using handler_mono mono_refl by (cases "handler c s") (auto simp: tx_def)

lemma run_mono: "inv s \<Longrightarrow> inv (run_cmds (\<lambda>c. tx (handler c)) cs s) \<and> mono s (run_cmds (\<lambda>c. tx (handler c)) cs s)"
proof (induction cs arbitrary: s)
  case (Cons c cs)
  let ?t = "state_after s (tx (handler c) s)"
  have "inv ?t" using tx_inv [OF Cons.prems, of c] Cons.prems by (cases "tx (handler c) s") auto
  then show ?case using Cons.IH [of ?t] tx_mono [OF Cons.prems, of c] mono_trans by auto
qed (simp add: mono_refl)

lemma run_mono_append: "inv s \<Longrightarrow>
   mono (run_cmds (\<lambda>c. tx (handler c)) cs s) (run_cmds (\<lambda>c. tx (handler c)) (cs @ ds) s)"
  using run_mono by (simp add: run_cmds_append)

end

sublocale on_chain_program \<subseteq> guarded_component "\<lambda>c. tx (handler c)" inv
  by unfold_locales (rule tx_inv)

section \<open>A sample environment\<close>

text \<open>
  A concrete chain on which the hypotheses can be evaluated: derived addresses from a table, and a token
  program that moves balances between accounts of one mint.
\<close>

definition plain_transfer :: "tokens \<Rightarrow> pubkey \<Rightarrow> pubkey \<Rightarrow> pubkey \<Rightarrow> u64 \<Rightarrow> tokens option" where
  "plain_transfer ts from to auth amt =
     (case ts from of None \<Rightarrow> None
      | Some a \<Rightarrow> (case ts to of None \<Rightarrow> None
        | Some b \<Rightarrow>
            if ta_mint a = ta_mint b \<and> ta_owner a = auth \<and> \<not> ta_frozen a \<and> \<not> ta_frozen b \<and> amt \<le> ta_amount a \<and>
               (from = to \<or> unat (ta_amount b) + unat amt < 2 ^ 64)
            then Some (if from = to then ts
                       else ts(from \<mapsto> a\<lparr>ta_amount := ta_amount a - amt\<rparr>, to \<mapsto> b\<lparr>ta_amount := ta_amount b + amt\<rparr>))
            else None))"

definition table_env :: "((pubkey \<times> bytes) \<times> pubkey) list \<Rightarrow> nat \<Rightarrow> chain_env" where
  "table_env tab space = \<lparr>ce_externs = sample_externs,
     ce_create_pda = (\<lambda>p seeds b. if b = 255 then map_of tab (p, concat seeds) else None),
     ce_find_pda = (\<lambda>p seeds. map_option (\<lambda>k. (k, 255)) (map_of tab (p, concat seeds))),
     ce_ata = (\<lambda>owner mint. 1000 * owner + mint), ce_transfer = plain_transfer, ce_coordinator_space = space\<rparr>"

lemma plain_transfer_effect:
  assumes "plain_transfer ts from to auth amt = Some ts'"
  shows "transfer_effect ts from to auth amt ts'"
proof -
  obtain a b where a: "ts from = Some a" and b: "ts to = Some b"
    using assms by (auto simp: plain_transfer_def split: option.splits)
  have c: "ta_mint a = ta_mint b" "ta_owner a = auth" "amt \<le> ta_amount a"
      "from = to \<or> unat (ta_amount b) + unat amt < 2 ^ 64"
    and ts': "ts' = (if from = to then ts
       else ts(from \<mapsto> a\<lparr>ta_amount := ta_amount a - amt\<rparr>, to \<mapsto> b\<lparr>ta_amount := ta_amount b + amt\<rparr>))"
    using assms a b by (auto simp: plain_transfer_def split: if_splits)
  have "unat (ta_amount a - amt) = unat (ta_amount a) - unat amt" and "unat amt \<le> unat (ta_amount a)"
    using c(3) by (simp_all add: unat_sub word_le_nat_alt)
  moreover have "from \<noteq> to \<Longrightarrow> unat (ta_amount b + amt) = unat (ta_amount b) + unat amt"
    using c(4) by (simp add: unat_word_ariths)
  ultimately have "tok_amount ts' = moved from to (unat amt) (tok_amount ts)"
    using a b by (auto simp: fun_eq_iff tok_amount_def moved_def Let_def ts')
  then show ?thesis using a b c by (auto simp: transfer_effect_def tok_amount_def same_token_accounts_def ts' word_le_nat_alt)
qed

lemma map_of_inj:
  "distinct (map snd tab) \<Longrightarrow> map_of tab x = Some k \<Longrightarrow> map_of tab y = Some k \<Longrightarrow> x = y"
  by (metis distinct_map inj_on_eq_iff map_of_SomeD prod.inject snd_conv)

lemma table_env_ok:
  assumes "distinct (map snd tab)"
  shows "chain_env_ok (table_env tab space)"
proof -
  have "pda_ok (table_env tab space)"
    using map_of_inj [OF assms] by (auto simp: pda_ok_def table_env_def split: if_splits)
  moreover have "transfer_ok (table_env tab space)"
    using plain_transfer_effect by (auto simp: transfer_ok_def table_env_def plain_transfer_def)
  moreover have "externs_ok (ce_externs (table_env tab space))"
    by (rule externs_ok_lsb0) (simp_all add: table_env_def sample_externs_def sha_ok_def)
  ultimately show ?thesis by (simp add: chain_env_ok_def)
qed

end
