(* ===== verification/Authorizer.thy ===== *)
theory Authorizer
  imports Solana_Base
begin

text \<open>
  The authorizer program (\<open>src/architectures/decentralized/solana-authorizer\<close>): a grantor creates an
  authorization for a grantee and a scope, switches it on and off and may close it; the grantee manages
  its delegates. Other programs ask \<open>is_valid_for\<close>.

  The state is the map from addresses to authorization accounts with their allocated size. Lamports (who
  pays the rent of an account, who receives it when the account is closed) are not modelled.
\<close>

section \<open>State\<close>

definition AUTHORIZER_ID :: pubkey where
  "AUTHORIZER_ID = 37107360654272075324395382805109772694846479127838080367788392828804994227205"

record authorization =
  au_bump :: u8
  au_grantor :: pubkey
  au_grantee :: pubkey
  au_scope :: bytes
  au_active :: bool
  au_delegates :: "pubkey list"
  au_grantor_update_unix_timestamp :: u64

text \<open>\<open>b"Authorization"\<close>\<close>

definition AUTHORIZATION_SEEDS_PREFIX :: bytes where
  "AUTHORIZATION_SEEDS_PREFIX = [65, 117, 116, 104, 111, 114, 105, 122, 97, 116, 105, 111, 110]"

definition authorization_space_with_discriminator :: "nat \<Rightarrow> nat \<Rightarrow> nat" where
  "authorization_space_with_discriminator scope_len delegates_len =
     8 + 1 + 32 + 32 + (4 + scope_len * 1) + 1 + (4 + delegates_len * 32) + 8"

definition is_valid_for :: "authorization \<Rightarrow> pubkey \<Rightarrow> pubkey \<Rightarrow> bytes \<Rightarrow> bool" where
  "is_valid_for self grantor grantee scope =
     (if \<not> au_active self then False
      else if au_grantor self \<noteq> grantor then False
      else if au_scope self \<noteq> scope then False
      else au_grantee self = pubkey_default \<or> au_grantee self = grantee \<or> grantee \<in> set (au_delegates self))"

text \<open>The Borsh encoding of an account: discriminator, fixed-size fields, and a 4-byte length before each vector.\<close>

definition authorization_encoded_len :: "authorization \<Rightarrow> nat" where
  "authorization_encoded_len a =
     8 + (1 + 32 + 32 + (4 + length (au_scope a)) + 1 + (4 + 32 * length (au_delegates a)) + 8)"

record authorization_account =
  aa_data :: authorization
  aa_space :: nat

record auth_chain =
  ch_auths :: "pubkey \<rightharpoonup> authorization_account"

datatype authorizer_error = AuthorizationActiveIsTrue | AuthorizationClosingConditionsNotReachedYet

type_synonym 'z auth_exec = "('z auth_chain_scheme, authorizer_error tx_error, unit) exec"

definition authorization_seeds :: "pubkey \<Rightarrow> pubkey \<Rightarrow> bytes \<Rightarrow> bytes list" where
  "authorization_seeds grantor grantee scope =
     [AUTHORIZATION_SEEDS_PREFIX, pubkey_bytes grantor, pubkey_bytes grantee, scope]"

text \<open>\<open>find_program_address\<close> panics when no address can be derived, for instance from a scope of more than 32 bytes.\<close>

definition find_authorization :: "chain_env \<Rightarrow> pubkey \<Rightarrow> pubkey \<Rightarrow> bytes \<Rightarrow> pubkey option" where
  "find_authorization E grantor grantee scope =
     map_option fst (ce_find_pda E AUTHORIZER_ID (authorization_seeds grantor grantee scope))"

section \<open>Instructions\<close>

text \<open>At the end of an instruction the account is written back; it has to fit into its allocated space.\<close>

definition store_authorization :: "pubkey \<Rightarrow> authorization_account \<Rightarrow> 'z auth_chain_scheme \<Rightarrow> 'z auth_exec" where
  "store_authorization key a ch =
     require (authorization_encoded_len (aa_data a) \<le> aa_space a) ConstraintViolated ch
       (Done (ch\<lparr>ch_auths := (ch_auths ch)(key \<mapsto> a)\<rparr>) ())"

definition authorization_create ::
    "chain_env \<Rightarrow> pubkey \<Rightarrow> pubkey \<Rightarrow> bytes \<Rightarrow> 'z auth_chain_scheme \<Rightarrow> 'z auth_exec" where
  "authorization_create E grantor grantee scope ch =
     need (ce_find_pda E AUTHORIZER_ID (authorization_seeds grantor grantee scope)) (\<lambda>(key, bump).
     require (ch_auths ch key = None) AlreadyInUse ch
       (store_authorization key
          \<lparr>aa_data = \<lparr>au_bump = bump, au_grantor = grantor, au_grantee = grantee, au_scope = scope,
                     au_active = False, au_delegates = [], au_grantor_update_unix_timestamp = 0\<rparr>,
           aa_space = authorization_space_with_discriminator (length scope) 0\<rparr> ch))"

definition authorization_grantor_update ::
    "pubkey \<Rightarrow> pubkey \<Rightarrow> bool \<Rightarrow> u64 \<Rightarrow> 'z auth_chain_scheme \<Rightarrow> 'z auth_exec" where
  "authorization_grantor_update grantor key active unix_timestamp ch =
     with_account key (ch_auths ch) ch (\<lambda>a.
     require (au_grantor (aa_data a) = grantor) ConstraintViolated ch
       (store_authorization key
          (a\<lparr>aa_data := (aa_data a)\<lparr>au_active := active,
               au_grantor_update_unix_timestamp := unix_timestamp\<rparr>\<rparr>) ch))"

definition authorization_grantee_update ::
    "pubkey \<Rightarrow> pubkey \<Rightarrow> bool \<Rightarrow> pubkey list \<Rightarrow> 'z auth_chain_scheme \<Rightarrow> 'z auth_exec" where
  "authorization_grantee_update grantee key delegates_clear delegates_added ch =
     with_account key (ch_auths ch) ch (\<lambda>a.
     require (au_grantee (aa_data a) = grantee) ConstraintViolated ch
       (let space = authorization_space_with_discriminator (length (au_scope (aa_data a)))
              ((if delegates_clear then 0 else length (au_delegates (aa_data a))) + length delegates_added);
            delegates = (if delegates_clear then [] else au_delegates (aa_data a)) @ delegates_added
        in store_authorization key
             \<lparr>aa_data = (aa_data a)\<lparr>au_delegates := delegates\<rparr>, aa_space = space\<rparr> ch))"

text \<open>\<open>i64::saturating_add\<close> and the comparison of timestamps.\<close>

definition i64_saturating_add :: "u64 \<Rightarrow> int \<Rightarrow> int" where
  "i64_saturating_add a b = max (- (2 ^ 63)) (min (2 ^ 63 - 1) (sint a + b))"

definition CLOSE_DELAY :: int where "CLOSE_DELAY = 30 * 24 * 60 * 60"

definition authorization_close ::
    "pubkey \<Rightarrow> pubkey \<Rightarrow> u64 \<Rightarrow> 'z auth_chain_scheme \<Rightarrow> 'z auth_exec" where
  "authorization_close grantor key unix_timestamp ch =
     with_account key (ch_auths ch) ch (\<lambda>a.
     require (au_grantor (aa_data a) = grantor) ConstraintViolated ch
     (require (\<not> au_active (aa_data a)) (Custom AuthorizationActiveIsTrue) ch
     (require (\<not> (au_delegates (aa_data a) \<noteq> [] \<and>
        sint unix_timestamp < i64_saturating_add (au_grantor_update_unix_timestamp (aa_data a)) CLOSE_DELAY))
        (Custom AuthorizationClosingConditionsNotReachedYet) ch
       (Done (ch\<lparr>ch_auths := (ch_auths ch)(key := None)\<rparr>) ()))))"

datatype auth_cmd =
    AuthCreate pubkey pubkey bytes
  | AuthGrantorUpdate pubkey pubkey bool u64
  | AuthGranteeUpdate pubkey pubkey bool "pubkey list"
  | AuthClose pubkey pubkey u64

fun auth_exec :: "chain_env \<Rightarrow> auth_cmd \<Rightarrow> 'z auth_chain_scheme \<Rightarrow> 'z auth_exec" where
  "auth_exec E (AuthCreate grantor grantee scope) ch = authorization_create E grantor grantee scope ch"
| "auth_exec E (AuthGrantorUpdate grantor key active now) ch = authorization_grantor_update grantor key active now ch"
| "auth_exec E (AuthGranteeUpdate grantee key clear added) ch = authorization_grantee_update grantee key clear added ch"
| "auth_exec E (AuthClose grantor key now) ch = authorization_close grantor key now ch"

section \<open>Steps\<close>

text \<open>
  The intended behaviour, one rule per party: what may happen to the account at one address. The handlers
  are shown to take only these steps.
\<close>

inductive auth_step ::
    "chain_env \<Rightarrow> auth_cmd \<Rightarrow> pubkey \<Rightarrow> authorization option \<Rightarrow> authorization option \<Rightarrow> bool"
  for E where
  created: "ce_find_pda E AUTHORIZER_ID (authorization_seeds g e sc) = Some (k, b) \<Longrightarrow>
    auth_step E (AuthCreate g e sc) k None
      (Some \<lparr>au_bump = b, au_grantor = g, au_grantee = e, au_scope = sc, au_active = False,
             au_delegates = [], au_grantor_update_unix_timestamp = 0\<rparr>)"
| switched: "au_grantor a = g \<Longrightarrow>
    auth_step E (AuthGrantorUpdate g k act now) k (Some a)
      (Some (a\<lparr>au_active := act, au_grantor_update_unix_timestamp := now\<rparr>))"
| delegated: "au_grantee a = e \<Longrightarrow>
    auth_step E (AuthGranteeUpdate e k clear added) k (Some a)
      (Some (a\<lparr>au_delegates := (if clear then [] else au_delegates a) @ added\<rparr>))"
| closed: "au_grantor a = g \<Longrightarrow> \<not> au_active a \<Longrightarrow>
    au_delegates a = [] \<or> i64_saturating_add (au_grantor_update_unix_timestamp a) CLOSE_DELAY \<le> sint now \<Longrightarrow>
    auth_step E (AuthClose g k now) k (Some a) None"

inductive_simps auth_step_create: "auth_step E (AuthCreate g e sc) k x y"

definition auth_at :: "'z auth_chain_scheme \<Rightarrow> pubkey \<Rightarrow> authorization option" where
  "auth_at ch k = map_option aa_data (ch_auths ch k)"

lemma auth_exec_step:
  assumes "auth_exec E c ch = Done ch' u"
  shows "\<exists>k. auth_step E c k (auth_at ch k) (auth_at ch' k) \<and> (\<forall>l. l \<noteq> k \<longrightarrow> ch_auths ch' l = ch_auths ch l)"
proof (cases c)
  case (AuthCreate g e sc)
  then obtain k b where f: "ce_find_pda E AUTHORIZER_ID (authorization_seeds g e sc) = Some (k, b)"
    using assms by (auto simp: authorization_create_def need_Done)
  show ?thesis using assms f created [OF f] AuthCreate
    by (intro exI [of _ k]) (auto simp: authorization_create_def store_authorization_def auth_at_def)
next
  case (AuthGrantorUpdate g k act now)
  show ?thesis using assms switched [of _ g E k act now] AuthGrantorUpdate
    by (intro exI [of _ k]) (auto simp: authorization_grantor_update_def store_authorization_def auth_at_def)
next
  case (AuthGranteeUpdate e k clear added)
  show ?thesis using assms delegated [of _ e E k clear added] AuthGranteeUpdate
    by (intro exI [of _ k])
      (auto simp: authorization_grantee_update_def store_authorization_def auth_at_def Let_def)
next
  case (AuthClose g k now)
  show ?thesis using assms closed [of _ g now E k] AuthClose
    by (intro exI [of _ k]) (auto simp: authorization_close_def auth_at_def not_less)
qed

text \<open>Everything else of a larger chain state is left alone.\<close>

lemma auth_exec_more:
  "auth_exec E c ch = Done ch' u \<Longrightarrow> auth_chain.more ch' = auth_chain.more ch"
  by (cases c) (auto simp: authorization_create_def authorization_grantor_update_def need_Done
      authorization_grantee_update_def authorization_close_def store_authorization_def Let_def)

section \<open>Invariant\<close>

text \<open>Every authorization lives at the canonical address of its parties and scope, in exactly the space it needs.\<close>

definition auth_inv :: "chain_env \<Rightarrow> 'z auth_chain_scheme \<Rightarrow> bool" where
  "auth_inv E ch \<longleftrightarrow> (\<forall>k a. ch_auths ch k = Some a \<longrightarrow>
     ce_find_pda E AUTHORIZER_ID
       (authorization_seeds (au_grantor (aa_data a)) (au_grantee (aa_data a)) (au_scope (aa_data a))) =
       Some (k, au_bump (aa_data a)) \<and>
     aa_space a = authorization_encoded_len (aa_data a))"

lemmas space_defs = authorization_space_with_discriminator_def authorization_encoded_len_def

lemma auth_exec_inv:
  "auth_inv E ch \<Longrightarrow> auth_exec E c ch = Done ch' u \<Longrightarrow> auth_inv E ch'"
  by (cases c) (auto simp: auth_inv_def authorization_create_def authorization_grantor_update_def need_Done
      authorization_grantee_update_def authorization_close_def store_authorization_def Let_def space_defs
      split: if_splits)

interpretation authorizer: on_chain_program "auth_exec E" "auth_inv E"
  "\<lambda>s t. auth_chain.more t = auth_chain.more s" for E
  by unfold_locales (auto intro: auth_exec_inv auth_exec_more)

section \<open>Properties\<close>

text \<open>
  The history of an address: the last switch of its grantor, and the delegates its grantee has added.
\<close>

definition activated_by :: "auth_cmd list \<Rightarrow> pubkey \<Rightarrow> pubkey \<Rightarrow> bool" where
  "activated_by cs g k \<longleftrightarrow> (\<exists>now. AuthGrantorUpdate g k True now \<in> set cs)"

definition delegated_by :: "auth_cmd list \<Rightarrow> pubkey \<Rightarrow> pubkey \<Rightarrow> pubkey \<Rightarrow> bool" where
  "delegated_by cs e k u \<longleftrightarrow> (\<exists>clear added. AuthGranteeUpdate e k clear added \<in> set cs \<and> u \<in> set added)"

definition traced :: "auth_cmd list \<Rightarrow> pubkey \<Rightarrow> authorization \<Rightarrow> bool" where
  "traced cs k a \<longleftrightarrow> (au_active a \<longrightarrow> activated_by cs (au_grantor a) k) \<and>
     (\<forall>u \<in> set (au_delegates a). delegated_by cs (au_grantee a) k u)"

lemma activated_by_mono: "activated_by cs g k \<Longrightarrow> activated_by (cs @ ds) g k"
  by (auto simp: activated_by_def)

lemma delegated_by_mono: "delegated_by cs e k u \<Longrightarrow> delegated_by (cs @ ds) e k u"
  unfolding delegated_by_def by force

lemma traced_mono: "traced cs k a \<Longrightarrow> traced (cs @ ds) k a"
  by (auto simp: traced_def intro: activated_by_mono delegated_by_mono)

lemma activated_by_snoc: "activated_by (cs @ [AuthGrantorUpdate g k True now]) g k"
  by (auto simp: activated_by_def)

lemma delegated_by_snoc: "u \<in> set added \<Longrightarrow> delegated_by (cs @ [AuthGranteeUpdate e k clear added]) e k u"
  unfolding delegated_by_def by (intro exI [of _ clear] exI [of _ added]) simp

lemma auth_step_traced:
  assumes "auth_step E c k x (Some b)" and "\<And>a. x = Some a \<Longrightarrow> traced cs k a"
  shows "traced (cs @ [c]) k b"
  using assms(1)
proof cases
  case (switched a g act now)
  then show ?thesis using assms(2) [of a] activated_by_snoc
    by (auto simp: traced_def intro: delegated_by_mono)
next
  case (delegated a e clear added)
  then show ?thesis using assms(2) [of a] delegated_by_snoc
    by (auto simp: traced_def intro: delegated_by_mono activated_by_mono)
qed (simp add: traced_def)

lemma run_traced:
  assumes "\<forall>k. ch_auths ch k = None" and "auth_at (run_cmds (\<lambda>c. tx (auth_exec E c)) cs ch) k = Some a"
  shows "traced cs k a"
  using assms(2)
proof (induction cs arbitrary: k a rule: rev_induct)
  case Nil
  then show ?case using assms(1) by (simp add: auth_at_def)
next
  case (snoc c cs)
  let ?s = "run_cmds (\<lambda>c. tx (auth_exec E c)) cs ch"
  show ?case
  proof (cases "auth_exec E c ?s")
    case (Done t u)
    then have t: "auth_at t k = Some a" using snoc.prems by (simp add: run_cmds_append state_after_tx)
    obtain l where l: "auth_step E c l (auth_at ?s l) (auth_at t l)" "\<forall>m. m \<noteq> l \<longrightarrow> ch_auths t m = ch_auths ?s m"
      using auth_exec_step [OF Done] by blast
    show ?thesis
    proof (cases "k = l")
      case True
      then show ?thesis using auth_step_traced [of E c l "auth_at ?s l" a cs] l(1) t snoc.IH by simp
    next
      case False
      then have "auth_at ?s k = Some a" using l(2) t by (simp add: auth_at_def)
      then show ?thesis using snoc.IH traced_mono by blast
    qed
  qed (use snoc in \<open>auto simp: run_cmds_append state_after_tx intro: traced_mono\<close>)
qed

text \<open>
  Nobody is authorised without the parties having asked for it. After any sequence of instructions on a
  chain without authorizations, an account for which \<open>is_valid_for\<close> accepts a user has been switched on by
  an instruction its grantor signed, and the user is the grantee, or was added as a delegate by an
  instruction the grantee signed, or the authorization is for everyone (default grantee).
\<close>

theorem valid_only_if_granted:
  assumes "\<forall>k. ch_auths ch k = None"
    and "auth_at (run_cmds (\<lambda>c. tx (auth_exec E c)) cs ch) k = Some a"
    and "is_valid_for a grantor user scope"
  shows "activated_by cs grantor k \<and> au_scope a = scope \<and>
    (au_grantee a = pubkey_default \<or> au_grantee a = user \<or> delegated_by cs (au_grantee a) k user)"
  using run_traced [OF assms(1,2)] assms(3) by (auto simp: is_valid_for_def traced_def split: if_splits)

definition sample_auth_env :: chain_env where
  "sample_auth_env = table_env [((AUTHORIZER_ID, concat (authorization_seeds 1 2 [9])), 100)] 0"

theorem valid_only_if_granted_witness:
  "activated_by [AuthCreate 1 2 [9], AuthGrantorUpdate 1 100 True 5, AuthGranteeUpdate 2 100 False [3]] 1 100 \<and>
   is_valid_for \<lparr>au_bump = 255, au_grantor = 1, au_grantee = 2, au_scope = [9], au_active = True,
     au_delegates = [3], au_grantor_update_unix_timestamp = 5\<rparr> 1 3 [9]"
  using valid_only_if_granted [of "\<lparr>ch_auths = Map.empty\<rparr>" sample_auth_env
      "[AuthCreate 1 2 [9], AuthGrantorUpdate 1 100 True 5, AuthGranteeUpdate 2 100 False [3]]" 100
      "\<lparr>au_bump = 255, au_grantor = 1, au_grantee = 2, au_scope = [9], au_active = True,
        au_delegates = [3], au_grantor_update_unix_timestamp = 5\<rparr>" 1 3 "[9]"]
  by (simp add: authorization_create_def sample_auth_env_def table_env_def store_authorization_def
      space_defs tx_def auth_at_def authorization_grantor_update_def authorization_grantee_update_def
      is_valid_for_def)

text \<open>
  C28. Every instruction of the authorizer is one of the four intended steps on a single account: creation by
  its grantor (inactive, without delegates, at the derived address), a switch signed by the grantor, a
  change of delegates signed by the grantee, or a closing by the grantor of an inactive account whose
  delegates have had 30 days; and an account that exists never runs out of its allocated space, so both
  updates succeed for the party they belong to.
\<close>

theorem authorizer_refines_steps:
  assumes "auth_inv E ch"
  shows "(\<forall>ch' u. auth_exec E c ch = Done ch' u \<longrightarrow> auth_inv E ch' \<and>
           (\<exists>k. auth_step E c k (auth_at ch k) (auth_at ch' k) \<and> (\<forall>l. l \<noteq> k \<longrightarrow> ch_auths ch' l = ch_auths ch l))) \<and>
         (\<forall>k a. auth_at ch k = Some a \<longrightarrow>
           (\<exists>ch'. auth_exec E (AuthGrantorUpdate (au_grantor a) k act now) ch = Done ch' ()) \<and>
           (\<exists>ch'. auth_exec E (AuthGranteeUpdate (au_grantee a) k clear added) ch = Done ch' ()))"
proof (intro conjI allI impI)
  fix k a assume "auth_at ch k = Some a"
  then obtain x where x: "ch_auths ch k = Some x" "aa_data x = a" by (auto simp: auth_at_def)
  then show "\<exists>ch'. auth_exec E (AuthGrantorUpdate (au_grantor a) k act now) ch = Done ch' ()"
    and "\<exists>ch'. auth_exec E (AuthGranteeUpdate (au_grantee a) k clear added) ch = Done ch' ()"
    using assms by (auto simp: auth_inv_def authorization_grantor_update_def authorization_grantee_update_def
        store_authorization_def Let_def space_defs)
qed (use auth_exec_step auth_exec_inv [OF assms] in blast)+

theorem authorizer_refines_steps_witness:
  "\<exists>k. auth_step sample_auth_env (AuthCreate 1 2 [9]) k (auth_at \<lparr>ch_auths = Map.empty\<rparr> k)
     (Some \<lparr>au_bump = 255, au_grantor = 1, au_grantee = 2, au_scope = [9], au_active = False,
       au_delegates = [], au_grantor_update_unix_timestamp = 0\<rparr>)"
proof -
  let ?ch = "\<lparr>ch_auths = Map.empty\<rparr>"
  have i: "auth_inv sample_auth_env ?ch" by (simp add: auth_inv_def)
  obtain ch' where d: "auth_exec sample_auth_env (AuthCreate 1 2 [9]) ?ch = Done ch' ()"
    and a: "auth_at ch' = [100 \<mapsto> \<lparr>au_bump = 255, au_grantor = 1, au_grantee = 2, au_scope = [9],
      au_active = False, au_delegates = [], au_grantor_update_unix_timestamp = 0\<rparr>]"
    by (simp add: authorization_create_def sample_auth_env_def table_env_def store_authorization_def
        space_defs auth_at_def fun_eq_iff)
  obtain k where k: "auth_step sample_auth_env (AuthCreate 1 2 [9]) k (auth_at ?ch k) (auth_at ch' k)"
    using authorizer_refines_steps [OF i, of "AuthCreate 1 2 [9]"] d by blast
  show ?thesis using k unfolding a by (cases "k = 100") (auto simp: auth_step_create auth_at_def)
qed

end
