(* ===== verification/Coordinator_Program.thy ===== *)
theory Coordinator_Program
  imports Authorizer Coordinator
begin

text \<open>
  The coordinator program (\<open>src/architectures/decentralized/solana-coordinator\<close>): the on-chain owner of a
  coordinator. It keeps the registry of the clients that joined a run with the points they earned, drives
  the coordinator's state machine from the chain's clock, and guards every instruction by the checks of its
  accounts. The definitions follow \<open>client.rs\<close>, \<open>clients_state.rs\<close>, \<open>program_error.rs\<close>, \<open>instance_state.rs\<close>,
  \<open>lib.rs\<close> and \<open>logic/\<close>, in this order. The coordinator is the one of the theory \<open>Coordinator\<close>, instantiated
  with the program's client identities.
\<close>

section \<open>Clients\<close>

definition COORDINATOR_ID :: pubkey where
  "COORDINATOR_ID = 11869275631774389306834770326506990174164895878903508589518274791267877719347"

definition SOLANA_MAX_NUM_PENDING_CLIENTS :: nat where
  "SOLANA_MAX_NUM_PENDING_CLIENTS = SOLANA_MAX_NUM_CLIENTS"

record client_id =
  ci_signer :: pubkey
  ci_p2p_identity :: bytes

text \<open>Equality is on the wallet key only.\<close>

definition client_id_eq :: "client_id \<Rightarrow> client_id \<Rightarrow> bool" where
  "client_id_eq self other \<longleftrightarrow> ci_signer self = ci_signer other"

definition client_id_as_ref :: "client_id \<Rightarrow> bytes" where
  "client_id_as_ref self = pubkey_bytes (ci_signer self)"

interpretation client_id: node_identity client_id_eq client_id_as_ref
  by unfold_locales (simp_all add: client_id_eq_def client_id_as_ref_def)

definition solana_node_env :: "externs \<Rightarrow> client_id node_env" where
  "solana_node_env X = externs.extend X \<lparr>ne_eq = client_id_eq, ne_as_ref = client_id_as_ref\<rparr>"

record solana_client =
  sc_id :: client_id
  sc_earned :: u64
  sc_slashed :: u64
  sc_active :: u64

abbreviation sc_signer :: "solana_client \<Rightarrow> pubkey" where
  "sc_signer x \<equiv> ci_signer (sc_id x)"

section \<open>The registry\<close>

record clients_epoch_rates =
  earning_rate_total_shared :: u64
  slashing_rate_per_client :: u64

record clients_state =
  st_clients :: "solana_client list"
  st_next_active :: u64
  st_current_epoch_rates :: clients_epoch_rates
  st_future_epoch_rates :: clients_epoch_rates

definition get_active_clients_ids :: "clients_state \<Rightarrow> client_id list" where
  "get_active_clients_ids self = map sc_id (filter (\<lambda>x. sc_active x = st_next_active self) (st_clients self))"

datatype program_error =
    UpdateConfigFinished | UpdateConfigNotHalted | CoordinatorAccountIncorrectSize | ClientIdMismatch
  | ClientsFull | ConfigSanityCheckFailed | ModelSanityCheckFailed | ProgressSanityCheckFailed
  | SignerNotAClient | SignerMismatch | CloseCoordinatorNotHalted
  | CoordinatorErrorNoActiveRound | CoordinatorErrorInvalidWitness | CoordinatorErrorInvalidRunState
  | CoordinatorErrorDuplicateWitness | CoordinatorErrorInvalidHealthCheck | CoordinatorErrorHalted
  | CoordinatorErrorInvalidCheckpoint | CoordinatorErrorWitnessesFull | CoordinatorErrorCannotResume
  | CoordinatorErrorInvalidWithdraw | CoordinatorErrorInvalidCommitteeSelection
  | CoordinatorErrorInvalidCommitteeProof | MoreClientsThanBatches | RunIdInvalidLength

fun program_error_from :: "coordinator_error \<Rightarrow> program_error" where
  "program_error_from NoActiveRound = CoordinatorErrorNoActiveRound"
| "program_error_from InvalidWitness = CoordinatorErrorInvalidWitness"
| "program_error_from InvalidRunState = CoordinatorErrorInvalidRunState"
| "program_error_from DuplicateWitness = CoordinatorErrorDuplicateWitness"
| "program_error_from InvalidHealthCheck = CoordinatorErrorInvalidHealthCheck"
| "program_error_from Halted = CoordinatorErrorHalted"
| "program_error_from WitnessesFull = CoordinatorErrorWitnessesFull"
| "program_error_from CannotResume = CoordinatorErrorCannotResume"
| "program_error_from InvalidWithdraw = CoordinatorErrorInvalidWithdraw"
| "program_error_from InvalidCommitteeSelection = CoordinatorErrorInvalidCommitteeSelection"
| "program_error_from InvalidCommitteeProof = CoordinatorErrorInvalidCommitteeProof"

definition find_signer :: "pubkey \<Rightarrow> clients_state \<Rightarrow> client_id option" where
  "find_signer signer self = map_option sc_id (find (\<lambda>x. sc_signer x = signer) (st_clients self))"

section \<open>The instance\<close>

record run_metadata =
  rm_name :: fixed_string
  rm_description :: fixed_string
  rm_num_parameters :: u64
  rm_vocab_size :: u64

record instance_state =
  in_metadata :: run_metadata
  in_coordinator :: "client_id coordinator"
  in_clients_state :: clients_state
  in_is_warmup_first_tick :: small_boolean
  in_is_training_first_tick :: small_boolean
  in_client_version :: fixed_string

type_synonym 'a inst_exec = "(instance_state, program_error, 'a) exec"

text \<open>\<open>unix_timestamp\<close> is an \<open>i64\<close>, cast to \<open>u64\<close> bit by bit.\<close>

record clock =
  ck_unix_timestamp :: u64
  ck_slot :: u64

definition get_random_seed :: "externs \<Rightarrow> clock \<Rightarrow> u64" where
  "get_random_seed X clk =
     u64_from_le_bytes (take 8 (sha256v (x_sha256 X)
       [u64_to_le_bytes (ck_unix_timestamp clk), u64_to_le_bytes (ck_slot clk)]))"

text \<open>Calling a method of the coordinator, its error converted and returned.\<close>

definition call_coordinator ::
    "(client_id coordinator \<Rightarrow> (client_id, 'a) co_exec) \<Rightarrow> instance_state \<Rightarrow>
     (instance_state \<Rightarrow> 'a \<Rightarrow> 'b inst_exec) \<Rightarrow> 'b inst_exec" where
  "call_coordinator f self k =
     (case f (in_coordinator self) of
        Panic \<Rightarrow> Panic
      | Fail c e \<Rightarrow> Fail (self\<lparr>in_coordinator := c\<rparr>) (program_error_from e)
      | Done c a \<Rightarrow> k (self\<lparr>in_coordinator := c\<rparr>) a)"

text \<open>The body of the loop over the registry at the end of an epoch: one pointer into the finished and
  one into the exited clients of the coordinator.\<close>

definition reward_finished ::
    "clients_epoch_rates \<Rightarrow> client_id client list \<Rightarrow> nat \<Rightarrow> solana_client \<Rightarrow> (solana_client \<times> nat) option" where
  "reward_finished rates finished i x =
     (if i < length finished \<and> sc_signer x = ci_signer (cl_id (finished ! i))
      then (if cl_state (finished ! i) = Healthy
            then do {
              share \<leftarrow> checked_div (earning_rate_total_shared rates) (of_nat (length finished));
              earned \<leftarrow> checked_add (sc_earned x) share;
              Some (x\<lparr>sc_earned := earned\<rparr>, Suc i)
            }
            else Some (x, Suc i))
      else Some (x, i))"

definition slash_exited ::
    "clients_epoch_rates \<Rightarrow> client_id client list \<Rightarrow> nat \<Rightarrow> solana_client \<Rightarrow> (solana_client \<times> nat) option" where
  "slash_exited rates exited i x =
     (if i < length exited \<and> sc_signer x = ci_signer (cl_id (exited ! i))
      then (if cl_state (exited ! i) = Ejected
            then do {
              slashed \<leftarrow> checked_add (sc_slashed x) (slashing_rate_per_client rates);
              Some (x\<lparr>sc_slashed := slashed\<rparr>, Suc i)
            }
            else Some (x, Suc i))
      else Some (x, i))"

fun epoch_end_loop ::
    "clients_epoch_rates \<Rightarrow> client_id client list \<Rightarrow> client_id client list \<Rightarrow> nat \<Rightarrow> nat \<Rightarrow>
     solana_client list \<Rightarrow> solana_client list option" where
  "epoch_end_loop rates finished exited i j [] = Some []"
| "epoch_end_loop rates finished exited i j (x # xs) =
     do {
       (x, i) \<leftarrow> reward_finished rates finished i x;
       (x, j) \<leftarrow> slash_exited rates exited j x;
       xs \<leftarrow> epoch_end_loop rates finished exited i j xs;
       Some (x # xs)
     }"

definition after_ticked :: "instance_state \<Rightarrow> unit inst_exec" where
  "after_ticked self =
     (if is_warmup_just_starting (in_coordinator self) \<and> sb_is_true (in_is_warmup_first_tick self)
      then Done (self\<lparr>in_clients_state := (in_clients_state self)\<lparr>
                   st_current_epoch_rates := st_future_epoch_rates (in_clients_state self)\<rparr>,
                 in_is_warmup_first_tick := sb_new False\<rparr>) ()
      else if is_training_just_starting (in_coordinator self) \<and> sb_is_true (in_is_training_first_tick self)
      then need (checked_add (st_next_active (in_clients_state self)) 1) (\<lambda>n.
             Done (self\<lparr>in_clients_state := (in_clients_state self)\<lparr>st_next_active := n\<rparr>,
                   in_is_training_first_tick := sb_new False\<rparr>) ())
      else Done self ())"

definition after_epoch_end :: "instance_state \<Rightarrow> unit inst_exec" where
  "after_epoch_end self =
     need (epoch_end_loop (st_current_epoch_rates (in_clients_state self)) (co_clients (in_coordinator self))
             (co_exited (in_coordinator self)) 0 0 (st_clients (in_clients_state self))) (\<lambda>clients.
       Done (self\<lparr>in_clients_state := (in_clients_state self)\<lparr>st_clients := clients\<rparr>\<rparr>) ())"

text \<open>Before the tick: while the run waits for members, the flags are reset and the active clients offered.\<close>

definition reset_flags :: "instance_state \<Rightarrow> instance_state" where
  "reset_flags self =
     (if co_run_state (in_coordinator self) = WaitingForMembers
      then self\<lparr>in_is_warmup_first_tick := sb_new True, in_is_training_first_tick := sb_new True\<rparr>
      else self)"

definition offered_clients :: "instance_state \<Rightarrow> client_id list option" where
  "offered_clients self =
     (if co_run_state (in_coordinator self) = WaitingForMembers
      then Some (get_active_clients_ids (in_clients_state self)) else None)"

definition inst_tick :: "externs \<Rightarrow> clock \<Rightarrow> instance_state \<Rightarrow> unit inst_exec" where
  "inst_tick X clk self =
     call_coordinator (tick (solana_node_env X) (offered_clients self) (ck_unix_timestamp clk) (get_random_seed X clk))
       (reset_flags self) (\<lambda>self r.
         case r of Ticked \<Rightarrow> after_ticked self | EpochEnd success \<Rightarrow> after_epoch_end self)"

text \<open>Leaving \<open>Uninitialized\<close>: the only way in which the program starts a run.\<close>

definition initialize_run :: "client_id coordinator \<Rightarrow> client_id coordinator" where
  "initialize_run c =
     (if co_run_state c = Uninitialized
      then c\<lparr>co_run_state := Paused, co_progress := (co_progress c)\<lparr>pr_step := 1\<rparr>\<rparr> else c)"

definition bump_next_active :: "instance_state \<Rightarrow> instance_state option" where
  "bump_next_active self =
     map_option (\<lambda>n. self\<lparr>in_clients_state := (in_clients_state self)\<lparr>st_next_active := n\<rparr>\<rparr>)
       (checked_add (st_next_active (in_clients_state self)) 1)"

definition inst_set_paused :: "externs \<Rightarrow> clock \<Rightarrow> bool \<Rightarrow> instance_state \<Rightarrow> unit inst_exec" where
  "inst_set_paused X clk paused self =
     (if paused then call_coordinator (pause (ck_unix_timestamp clk)) self (\<lambda>self _. Done self ())
      else require (config_check (co_config (in_coordinator self))) ConfigSanityCheckFailed self
          (require (model_check (co_model (in_coordinator self))) ModelSanityCheckFailed self
          (let self = self\<lparr>in_coordinator := initialize_run (in_coordinator self)\<rparr> in
           require (progress_check (co_progress (in_coordinator self))) ProgressSanityCheckFailed self
           (call_coordinator (resume (ck_unix_timestamp clk)) self (\<lambda>self _.
              need (bump_next_active self) (\<lambda>self. inst_tick X clk self))))))"

text \<open>Looking up the identity a payer joined with.\<close>

definition with_signer :: "pubkey \<Rightarrow> instance_state \<Rightarrow> (client_id \<Rightarrow> 'a inst_exec) \<Rightarrow> 'a inst_exec" where
  "with_signer payer self k =
     (case find_signer payer (in_clients_state self) of None \<Rightarrow> Fail self SignerNotAClient | Some i \<Rightarrow> k i)"

definition inst_witness :: "externs \<Rightarrow> clock \<Rightarrow> pubkey \<Rightarrow> witness \<Rightarrow> instance_state \<Rightarrow> unit inst_exec" where
  "inst_witness X clk payer w self =
     with_signer payer self (\<lambda>i.
     call_coordinator (witness (solana_node_env X) i w (ck_unix_timestamp clk)) self (\<lambda>self _.
       inst_tick X clk self))"

definition inst_warmup_witness :: "externs \<Rightarrow> clock \<Rightarrow> pubkey \<Rightarrow> witness \<Rightarrow> instance_state \<Rightarrow> unit inst_exec" where
  "inst_warmup_witness X clk payer w self =
     with_signer payer self (\<lambda>i.
     call_coordinator (warmup_witness (solana_node_env X) i w (ck_unix_timestamp clk) (get_random_seed X clk)) self
       (\<lambda>self _. inst_tick X clk self))"

definition inst_set_future_epoch_rates ::
    "u64 option \<Rightarrow> u64 option \<Rightarrow> instance_state \<Rightarrow> unit inst_exec" where
  "inst_set_future_epoch_rates earning slashing self =
     (let set_earning = (case earning of None \<Rightarrow> id | Some v \<Rightarrow> earning_rate_total_shared_update (\<lambda>_. v));
          set_slashing = (case slashing of None \<Rightarrow> id | Some v \<Rightarrow> slashing_rate_per_client_update (\<lambda>_. v))
      in Done (self\<lparr>in_clients_state := st_future_epoch_rates_update (\<lambda>r. set_slashing (set_earning r))
                 (in_clients_state self)\<rparr>) ())"

definition inst_update ::
    "run_metadata option \<Rightarrow> coordinator_config option \<Rightarrow> model option \<Rightarrow> coordinator_progress option \<Rightarrow>
     instance_state \<Rightarrow> unit inst_exec" where
  "inst_update metadata config mdl progress self =
     (if co_run_state (in_coordinator self) = Finished then Fail self UpdateConfigFinished
      else if \<not> halted (in_coordinator self) \<and> (config \<noteq> None \<or> mdl \<noteq> None \<or> progress \<noteq> None)
      then Fail self UpdateConfigNotHalted
      else
        (let self = (case metadata of None \<Rightarrow> self | Some m \<Rightarrow> self\<lparr>in_metadata := m\<rparr>) in
         and_then
           (case config of None \<Rightarrow> Done self ()
            | Some cfg \<Rightarrow> require (config_check cfg) ConfigSanityCheckFailed self
                (Done (self\<lparr>in_coordinator := (in_coordinator self)\<lparr>co_config := cfg\<rparr>\<rparr>) ())) (\<lambda>self _.
         and_then
           (case mdl of None \<Rightarrow> Done self ()
            | Some m \<Rightarrow> require (model_check m) ModelSanityCheckFailed self
                (Done (self\<lparr>in_coordinator := (in_coordinator self)\<lparr>co_model := m\<rparr>\<rparr>) ())) (\<lambda>self _.
         (case progress of None \<Rightarrow> Done self ()
            | Some p \<Rightarrow> require (progress_check p) ModelSanityCheckFailed self
                (Done (self\<lparr>in_coordinator := (in_coordinator self)\<lparr>co_progress := p\<rparr>\<rparr>) ()))))))"

text \<open>The first registered client with the same wallet: \<open>iter_mut().find(..)\<close> and the writes through it.\<close>

fun rejoin :: "client_id \<Rightarrow> u64 \<Rightarrow> solana_client list \<Rightarrow> (program_error + solana_client list) option" where
  "rejoin i next_active [] = None"
| "rejoin i next_active (x # xs) =
     (if sc_signer x = ci_signer i
      then (if \<not> client_id_eq (sc_id x) i then Some (Inl ClientIdMismatch)
            else Some (Inr (x\<lparr>sc_id := i, sc_active := next_active\<rparr> # xs)))
      else map_option (map_sum id ((#) x)) (rejoin i next_active xs))"

definition join_new :: "client_id \<Rightarrow> instance_state \<Rightarrow> unit inst_exec" where
  "join_new i self =
     (let clients = st_clients (in_clients_state self) in
      if global_batch_size_end (co_config (in_coordinator self)) = of_nat (length clients)
      then Fail self MoreClientsThanBatches
      else (case cap_push SOLANA_MAX_NUM_PENDING_CLIENTS
                   \<lparr>sc_id = i, sc_earned = 0, sc_slashed = 0, sc_active = st_next_active (in_clients_state self)\<rparr>
                   clients of
              None \<Rightarrow> Fail self ClientsFull
            | Some clients \<Rightarrow> Done (self\<lparr>in_clients_state := (in_clients_state self)\<lparr>st_clients := clients\<rparr>\<rparr>) ()))"

text \<open>The first part of \<open>join_run\<close>: the registry entry of the client.\<close>

definition register_client :: "client_id \<Rightarrow> instance_state \<Rightarrow> unit inst_exec" where
  "register_client i self =
     (case rejoin i (st_next_active (in_clients_state self)) (st_clients (in_clients_state self)) of
        Some (Inl e) \<Rightarrow> Fail self e
      | Some (Inr clients) \<Rightarrow> Done (self\<lparr>in_clients_state := (in_clients_state self)\<lparr>st_clients := clients\<rparr>\<rparr>) ()
      | None \<Rightarrow> join_new i self)"

definition inst_join_run :: "externs \<Rightarrow> clock \<Rightarrow> client_id \<Rightarrow> instance_state \<Rightarrow> unit inst_exec" where
  "inst_join_run X clk i self =
     and_then (register_client i self)
       (\<lambda>self _. if \<not> halted (in_coordinator self) then inst_tick X clk self else Done self ())"

definition inst_health_check ::
    "externs \<Rightarrow> clock \<Rightarrow> pubkey \<Rightarrow> (client_id \<times> committee_proof) list \<Rightarrow> instance_state \<Rightarrow> unit inst_exec" where
  "inst_health_check X clk payer checks self =
     with_signer payer self (\<lambda>i.
     call_coordinator (health_check (solana_node_env X) i checks) self (\<lambda>self _. inst_tick X clk self))"

text \<open>\<open>position\<close> among the clients of the epoch.\<close>

fun client_position :: "client_id \<Rightarrow> client_id client list \<Rightarrow> nat option" where
  "client_position i [] = None"
| "client_position i (x # xs) = (if client_id_eq (cl_id x) i then Some 0 else map_option Suc (client_position i xs))"

definition inst_checkpoint :: "externs \<Rightarrow> clock \<Rightarrow> pubkey \<Rightarrow> hub_repo \<Rightarrow> instance_state \<Rightarrow> unit inst_exec" where
  "inst_checkpoint X clk payer repo self =
     with_signer payer self (\<lambda>i.
     case client_position i (co_clients (in_coordinator self)) of
       None \<Rightarrow> Fail self SignerNotAClient
     | Some index \<Rightarrow>
         call_coordinator (checkpoint (solana_node_env X) i (of_nat index) repo) self (\<lambda>self _.
           if \<not> halted (in_coordinator self) then inst_tick X clk self else Done self ()))"

end
