(* ===== verification/Coordinator_Roster.thy ===== *)
theory Coordinator_Roster
  imports Coordinator_Steps "HOL-Library.Sublist"
begin

text \<open>
  Who the clients of an epoch can be, whatever the commands: the coordinator never reorders its clients and
  takes new ones only from the list it is offered at the start of an epoch, so they form a subsequence of
  any registry that contains the offered list as one; no client is ever \<open>Ejected\<close>, and no command changes
  the configuration. These facts need
  only the structural part of the invariant, so they hold for a coordinator whose owner has changed its
  configuration or progress by hand.
\<close>

definition roster :: "('id \<Rightarrow> 'k) \<Rightarrow> 'k list \<Rightarrow> coordinator_config \<Rightarrow> 'id coordinator \<Rightarrow> bool" where
  "roster f R g c \<longleftrightarrow> co_base c \<and> co_config c = g \<and> subseq (map (\<lambda>x. f (cl_id x)) (co_clients c)) R \<and>
     (\<forall>x \<in> set (co_clients c) \<union> set (co_exited c). cl_state x \<noteq> Ejected)"

lemma roster_base: "roster f R g c \<Longrightarrow> co_base c"
  by (simp add: roster_def)

text \<open>What the predicate does not read.\<close>

lemma roster_frames [simp]:
  "roster f R g (c\<lparr>co_run_state_start := t\<rparr>) = roster f R g c"
  "roster f R g (c\<lparr>co_config := g2\<rparr>) \<longleftrightarrow> g = g2 \<and> roster f R (co_config c) c"
  "roster f R g (c\<lparr>co_run_state := s\<rparr>) = roster f R g c"
  "roster f R g (c\<lparr>co_progress := p\<rparr>) = roster f R g c"
  "roster f R g (c\<lparr>co_model := m\<rparr>) = roster f R g c"
  "roster f R g (c\<lparr>co_pending_pause := b\<rparr>) = roster f R g c"
  "roster f R g (set_epoch (es_cold_start_epoch_update h) c) = roster f R g c"
  "roster f R g (set_epoch (es_last_step_update k) c) = roster f R g c"
  "roster f R g (set_epoch (es_first_round_update h) c) = roster f R g c"
  "roster f R g (c\<lparr>co_pending_pause := b, co_epoch_state := es\<rparr>) = roster f R g (c\<lparr>co_epoch_state := es\<rparr>)"
  "roster f R g (c\<lparr>co_progress := p, co_epoch_state := es\<rparr>) = roster f R g (c\<lparr>co_epoch_state := es\<rparr>)"
  by (auto simp: roster_def co_base_def)

lemma roster_exit: "roster f R g c \<Longrightarrow> roster f R g (exit_unhealthy h c)"
proof -
  assume r: "roster f R g c"
  have "subseq (map (\<lambda>x. f (cl_id x)) (filter (\<lambda>x. cl_state x = Healthy) (co_clients c)))
          (map (\<lambda>x. f (cl_id x)) (co_clients c))"
    by (intro subseq_map subseq_filter_left)
  then show ?thesis using r exit_unhealthy_base [of c h] subseq_order.order_trans
    by (auto simp: roster_def exit_unhealthy_def)
qed

lemma roster_mono: "roster f R g c \<Longrightarrow> subseq R R' \<Longrightarrow> roster f R' g c"
  using subseq_order.order_trans by (auto simp: roster_def)

lemma roster_clients:
  assumes "roster f R g c" and "map cl_id cs = map cl_id (co_clients c)" and "\<forall>x \<in> set cs. cl_state x \<noteq> Ejected"
  shows "roster f R g (set_epoch (es_clients_update (\<lambda>_. cs)) c)"
proof -
  have "map (\<lambda>x. f (cl_id x)) cs = map (\<lambda>x. f (cl_id x)) (co_clients c)"
    using arg_cong [OF assms(2), of "map f"] by (simp add: o_def)
  then show ?thesis using assms(1,3) map_eq_imp_length_eq [OF assms(2)]
    by (auto simp: roster_def co_base_def)
qed

lemma holds_Done: "holds P r \<Longrightarrow> r = Done s a \<Longrightarrow> P s"
  by simp

lemma withdraw_roster: "roster f R g c \<Longrightarrow> holds (roster f R g) (withdraw i c)"
proof (cases "nth_opt (co_clients c) (unat i)")
  case (Some x)
  assume r: "roster f R g c"
  let ?cs = "(co_clients c)[unat i := x\<lparr>cl_state := Withdrawn\<rparr>]"
  have "map cl_id ?cs = map cl_id (co_clients c)"
    using Some by (auto simp: nth_opt_iff list_eq_iff_nth_eq nth_list_update)
  moreover have "\<forall>y \<in> set ?cs. cl_state y \<noteq> Ejected"
    using r by (auto simp: roster_def dest!: set_update_subset_insert [THEN subsetD])
  ultimately have "roster f R g (set_epoch (es_clients_update (\<lambda>_. ?cs)) c)" by (rule roster_clients [OF r])
  then show ?thesis using Some r by (auto simp: withdraw_def es_clients_update_const [of "\<lambda>cs. cs[_ := _]"])
qed (simp add: withdraw_def)

lemma withdraw_all_roster: "roster f R g c \<Longrightarrow> holds (roster f R g) (withdraw_all c)"
proof -
  have "holds (roster f R g) (withdraw_each js c)" if "roster f R g c" for js c
    using that
    by (induction js arbitrary: c) (auto intro!: holds_and_then withdraw_roster dest: holds_Done [OF withdraw_roster])
  then show "roster f R g c \<Longrightarrow> ?thesis" by (simp add: withdraw_all_def)
qed

lemma roster_rounds:
  assumes "roster f R g c" and "length rs = length (co_rounds c)" and "unat h < NUM_STORED_ROUNDS"
    and "\<forall>r \<in> set rs. length (r_witnesses r) \<le> SOLANA_MAX_NUM_WITNESSES"
  shows "roster f R g (set_epoch (\<lambda>es. es\<lparr>es_rounds_head := h, es_rounds := rs\<rparr>) c)"
  using assms by (auto simp: roster_def co_base_def)

lemma set_update_all: "\<forall>x \<in> set xs. P x \<Longrightarrow> P y \<Longrightarrow> \<forall>x \<in> set (xs[i := y]). P x"
  by (auto dest!: set_update_subset_insert [THEN subsetD])

lemma start_round_train_roster:
  assumes "start_round_train t seed tb c = Some d" and "roster f R g c"
  shows "roster f R g d"
proof -
  from start_round_train_Some [OF assms(1)] obtain nh ht di r
    where r: "nth_opt (co_rounds c) nh = Some r"
      and d: "d = started nh \<lparr>r_witnesses = [], r_data_index = di, r_random_seed = seed, r_height = ht,
           r_clients_len = of_nat (length (co_clients c)), r_tie_breaker_tasks = tb\<rparr> t c" by metis
  have b: "length (co_rounds c) = NUM_STORED_ROUNDS"
    "\<forall>r \<in> set (co_rounds c). length (r_witnesses r) \<le> SOLANA_MAX_NUM_WITNESSES"
    using roster_base [OF assms(2)] by (simp_all add: co_base_def)
  have "unat (of_nat nh :: u32) < NUM_STORED_ROUNDS"
    using r b(1) unat_of_nat_small [of nh, where 'a = 32] by (simp add: nth_opt_iff NUM_STORED_ROUNDS_def)
  then show ?thesis unfolding d started_def roster_frames using b(1)
    by (intro roster_rounds [OF assms(2)] set_update_all [OF b(2)]) simp_all
qed

lemma start_cooldown_roster:
  assumes "start_cooldown t c = Some d" and "roster f R g c"
  shows "roster f R g d"
proof -
  obtain r where d: "d = (set_epoch (es_rounds_update (\<lambda>rs. rs[co_head c := r\<lparr>r_witnesses := []\<rparr>])) c)
       \<lparr>co_run_state_start := t, co_run_state := Cooldown\<rparr>"
    using assms(1) by (auto simp: start_cooldown_def current_round_mut_unchecked_def change_state_Some
        bind_eq_Some_conv split: option.splits)
  show ?thesis using assms(2) by (auto simp: d roster_def co_base_def dest!: set_update_subset_insert [THEN subsetD])
qed

lemma change_state_roster: "change_state t s c = Some d \<Longrightarrow> roster f R g c \<Longrightarrow> roster f R g d"
  by (auto simp: change_state_Some)

lemma start_waiting_roster: "start_waiting_for_members t c = Some d \<Longrightarrow> roster f R g c \<Longrightarrow> roster f R g d"
  unfolding start_waiting_for_members_def by (rule change_state_roster)

section \<open>Commands\<close>

lemma new_epoch_roster:
  assumes "subseq (map f ps) R" and "new_epoch ps t c = Some d" and "co_config c = g"
  shows "roster f R g d"
proof -
  have "subseq (map f (take n ps)) R" for n
    using assms(1) subseq_map [OF prefix_imp_subseq [OF take_is_prefix [of n ps]], of f]
      subseq_order.order_trans by blast
  then show ?thesis using assms(2,3)
    by (auto simp: new_epoch_eq roster_def co_base_def zero_epoch_state_def zero_round_def client_new_def o_def
        NUM_STORED_ROUNDS_def SOLANA_MAX_NUM_CLIENTS_def)
qed

lemma tick_waiting_roster:
  assumes "roster f R g c" and "\<And>ps. pending = Some ps \<Longrightarrow> subseq (map f ps) R"
  shows "holds (roster f R g) (tick_waiting_for_members E pending t c)"
proof (cases pending)
  case (Some ps)
  have key: "roster f R g y" if "start_warmup t x = Some y" and "new_epoch ps t d = Some x" and "co_config d = g" for d x y
    using new_epoch_roster [OF assms(2) [OF Some] that(2,3)] that(1) by (auto simp: start_warmup_def change_state_Some)
  have g: "co_config c = g" using assms(1) by (simp add: roster_def)
  show ?thesis using assms(1)
    unfolding tick_waiting_for_members_def Let_def Some option.case
    by (intro holds_need)
      (auto simp: move_clients_to_exited_eq [OF roster_base [OF assms(1)]] g split: if_splits intro!: holds_need
        elim!: key)
qed (use assms in \<open>simp add: tick_waiting_for_members_def\<close>)

lemma tick_warmup_roster:
  assumes "roster f R g c"
  shows "holds (roster f R g) (tick_warmup t seed c)"
  unfolding tick_warmup_def move_clients_to_exited_eq [OF roster_base [OF assms]]
  using assms roster_exit [OF assms]
  by (auto intro!: holds_need split: if_splits) (auto dest: start_round_train_roster start_waiting_roster)

lemma tick_round_train_roster:
  "roster f R g c \<Longrightarrow> holds (roster f R g) (tick_round_train t c)"
  unfolding tick_round_train_def by (auto intro!: holds_need) (auto dest: change_state_roster)

lemma end_of_round_roster:
  assumes "roster f R g c"
  shows "holds (roster f R g) (end_of_round t seed n c)"
proof -
  have w: "roster f R g d" if "withdraw_all c = Done d a" for d a
    using withdraw_all_roster [OF assms] that by simp
  show ?thesis
  proof (cases "n = 0")
    case True
    then show ?thesis using withdraw_all_roster [OF assms] w
      by (auto simp: end_of_round_def intro!: holds_and_then holds_need) (auto dest: start_cooldown_roster)
  next
    case False
    then show ?thesis using assms
      by (auto simp: end_of_round_def dest!: set_last_step_Some intro!: holds_need)
        (auto dest: start_cooldown_roster start_round_train_roster)
  qed
qed

lemma tick_round_witness_roster:
  assumes "roster f R g c"
  shows "holds (roster f R g) (tick_round_witness t seed c)"
proof -
  have r: "roster f R g (set_progress p (set_epoch (es_first_round_update h) c))" for p h using assms by simp
  note mv = move_clients_to_exited_eq [OF roster_base [OF r]]
  show ?thesis unfolding tick_round_witness_def Let_def mv
    using assms by (auto intro!: holds_need end_of_round_roster roster_exit)
qed

lemma finish_epoch_roster:
  assumes "roster f R g c" and "finish_epoch c = Some d"
  shows "roster f R g d"
proof -
  have r: "roster f R g (c\<lparr>co_progress := q\<rparr>)" for q using assms by simp
  note mv = move_clients_to_exited_eq [OF roster_base [OF r]]
  show ?thesis using assms(2) roster_exit [OF r] unfolding finish_epoch_def Let_def mv
    by (auto simp: bind_eq_Some_conv)
qed

lemma paused_roster:
  assumes "roster f R g c"
  shows "holds (roster f R g) (and_then (withdraw_all c) (\<lambda>c _. need (change_state t Paused c) (\<lambda>c.
     Done (set_epoch (es_cold_start_epoch_update h) (c\<lparr>co_pending_pause := b\<rparr>)) r)))"
proof (rule holds_and_then [OF withdraw_all_roster [OF assms]])
  fix d a assume "withdraw_all c = Done d a"
  then have "roster f R g d" using withdraw_all_roster [OF assms] by simp
  then show "holds (roster f R g) (need (change_state t Paused d) (\<lambda>c.
     Done (set_epoch (es_cold_start_epoch_update h) (c\<lparr>co_pending_pause := b\<rparr>)) r))"
    by (auto intro!: holds_need) (auto dest: change_state_roster)
qed

lemma waiting_roster:
  "roster f R g c \<Longrightarrow> holds (roster f R g) (need (start_waiting_for_members t c) (\<lambda>c.
     Done (set_epoch (es_cold_start_epoch_update h) c) r))"
  by (auto intro!: holds_need dest: start_waiting_roster)

lemma tick_cooldown_roster:
  assumes "roster f R g c"
  shows "holds (roster f R g) (tick_cooldown t c)"
proof -
  have "holds (roster f R g)
      (if sb_is_true (co_pending_pause d)
       then and_then (withdraw_all d) (\<lambda>c _.
              need (change_state t Paused c) (\<lambda>c.
                Done (set_epoch (es_cold_start_epoch_update (\<lambda>_. sb_new True))
                        (c\<lparr>co_pending_pause := sb_new False\<rparr>)) (EpochEnd True)))
       else need (start_waiting_for_members t d) (\<lambda>c.
              Done (set_epoch (es_cold_start_epoch_update (\<lambda>_. sb_new False)) c) (EpochEnd True)))"
    if "finish_epoch c = Some d" for d
    using paused_roster [OF finish_epoch_roster [OF assms that], of t "\<lambda>_. sb_new True" "sb_new False" "EpochEnd True"]
    by (simp add: waiting_roster finish_epoch_roster [OF assms that])
  then show ?thesis unfolding tick_cooldown_def using assms by (intro holds_need) (auto intro!: holds_need)
qed

lemma tick_roster:
  assumes "roster f R g c" and "\<And>ps. pending = Some ps \<Longrightarrow> subseq (map f ps) R"
  shows "holds (roster f R g) (tick E pending t seed c)"
  using assms tick_waiting_roster [OF assms(1), of pending E t]
  by (cases "co_run_state c")
    (simp_all add: tick_def tick_warmup_roster tick_round_train_roster tick_round_witness_roster tick_cooldown_roster)

lemma pushed_roster:
  assumes "roster f R g c" and "push_witness w c = Done d n"
  shows "roster f R g d"
proof -
  obtain r where r: "current_round c = Some r" "length (r_witnesses r) < SOLANA_MAX_NUM_WITNESSES" "d = pushed w r c"
    using push_witness_Done [OF assms(2)] by blast
  then show ?thesis using assms(1) pushed_base [OF roster_base [OF assms(1)] r(1,2), of w] by (simp add: roster_def)
qed

lemma witness_roster: "roster f R g c \<Longrightarrow> holds (roster f R g) (witness E i w t c)"
proof (cases "witness E i w t c")
  case (Done d u)
  assume r: "roster f R g c"
  from witness_Done [OF Done] obtain c' n where "push_witness w c = Done c' n"
    and "d = c' \<or> d = c'\<lparr>co_run_state_start := t, co_run_state := RoundWitness\<rparr>" by metis
  then show ?thesis using Done pushed_roster [OF r] by auto
qed (auto dest: witness_Fail)

lemma warmup_witness_roster: "roster f R g c \<Longrightarrow> holds (roster f R g) (warmup_witness E i w t seed c)"
proof -
  assume r: "roster f R g c"
  have p: "holds (roster f R g) (and_then (push_witness w c) (\<lambda>c' n.
      if n = witness_nodes_of c then need (start_round_train t seed 0 c') (\<lambda>c'. Done c' ()) else Done c' ()))"
  proof (rule holds_and_then)
    show "holds (roster f R g) (push_witness w c)"
      using r pushed_roster [OF r] push_witness_Fail [of w c] by (cases "push_witness w c") auto
    fix c' n assume "push_witness w c = Done c' n"
    then have "roster f R g c'" by (rule pushed_roster [OF r])
    then show "holds (roster f R g) (if n = witness_nodes_of c then need (start_round_train t seed 0 c') (\<lambda>c'. Done c' ())
        else Done c' ())"
      by (auto intro!: holds_need) (auto dest: start_round_train_roster)
  qed
  show ?thesis using r p by (auto simp: warmup_witness_def intro!: holds_need)
qed

lemma drop_clients_states:
  "drop_clients checks cs n = Some (cs', m) \<Longrightarrow> \<forall>x \<in> set cs. cl_state x \<noteq> Ejected \<Longrightarrow>
   \<forall>x \<in> set cs'. cl_state x \<noteq> Ejected"
proof (induction checks cs n rule: drop_clients.induct)
  case (2 i pf checks cs n)
  then obtain x where x: "nth_opt cs (unat (cp_index pf)) = Some x" by (auto simp: bind_eq_Some_conv)
  have "\<forall>y \<in> set (cs[unat (cp_index pf) := x\<lparr>cl_state := Dropped\<rparr>]). cl_state y \<noteq> Ejected"
    by (rule set_update_all [OF "2.prems"(2)]) simp
  then show ?case using 2 x by (auto simp: bind_eq_Some_conv split: if_splits)
qed simp

lemma health_check_roster:
  assumes "roster f R g c"
  shows "holds (roster f R g) (health_check E i checks c)"
proof -
  have "roster f R g (set_epoch (es_clients_update (\<lambda>_. cs)) c)" if "drop_clients checks (co_clients c) 0 = Some (cs, m)" for cs m
    using assms drop_clients_states [OF that] by (intro roster_clients [OF assms drop_clients_ids [OF that]]) (auto simp: roster_def)
  then have "holds (roster f R g) (need (drop_clients checks (co_clients c) 0) (\<lambda>(clients, dropped).
      Done (set_epoch (es_clients_update (\<lambda>_. clients)) c) dropped))"
    by (intro holds_need) auto
  then show ?thesis using assms check_unhealthy_state [of c E checks]
    by (cases "check_unhealthy E checks c") (auto simp: health_check_def split: option.split)
qed

lemma checkpoint_roster: "roster f R g c \<Longrightarrow> holds (roster f R g) (checkpoint E i n repo c)"
  by (auto simp: checkpoint_def split: option.split)

lemma resume_roster: "roster f R g c \<Longrightarrow> holds (roster f R g) (resume t c)"
  by (auto simp: resume_def intro!: holds_need) (auto dest: start_waiting_roster)

lemma pause_roster:
  assumes "roster f R g c"
  shows "holds (roster f R g) (pause t c)"
proof -
  have "holds (roster f R g) (and_then (withdraw_all c) (\<lambda>c _. need (change_state t Paused c) (\<lambda>c.
      Done (set_epoch (es_cold_start_epoch_update (\<lambda>_. sb_new True)) c) ())))"
  proof (rule holds_and_then [OF withdraw_all_roster [OF assms]])
    fix d a assume "withdraw_all c = Done d a"
    then have "roster f R g d" using withdraw_all_roster [OF assms] by simp
    then show "holds (roster f R g) (need (change_state t Paused d) (\<lambda>c.
        Done (set_epoch (es_cold_start_epoch_update (\<lambda>_. sb_new True)) c) ()))"
      by (auto intro!: holds_need) (auto dest: change_state_roster)
  qed
  then show ?thesis using assms by (simp add: pause_def)
qed

lemmas roster_commands = witness_roster warmup_witness_roster health_check_roster checkpoint_roster resume_roster
  pause_roster

section \<open>The end of an epoch\<close>

text \<open>
  When a tick reports the end of an epoch, the clients left are those that finished it: all healthy, unless
  the coordinator pauses, which withdraws every one of them first.
\<close>

lemma tick_waiting_ticked: "tick_waiting_for_members E new t c = Done d r \<Longrightarrow> r = Ticked"
  by (auto simp: tick_waiting_for_members_def need_Done Let_def split: option.splits if_splits)

lemma tick_round_train_ticked: "tick_round_train t c = Done d r \<Longrightarrow> r = Ticked"
  by (auto simp: tick_round_train_def need_Done split: if_splits)

lemma tick_round_witness_ticked: "tick_round_witness t seed c = Done d r \<Longrightarrow> r = Ticked"
  by (auto simp: tick_round_witness_def end_of_round_def need_Done and_then_Done Let_def split: if_splits)

lemma tick_epoch_end:
  assumes "tick E new t seed c = Done d (EpochEnd b)"
  shows "b \<and> co_run_state c = Cooldown \<or> \<not> b \<and> co_run_state c = Warmup"
proof (cases "co_run_state c")
  case Warmup
  then show ?thesis using assms by (auto simp: tick_def tick_warmup_def need_Done split: if_splits)
next
  case Cooldown
  then show ?thesis using assms by (auto simp: tick_def tick_cooldown_def need_Done and_then_Done split: if_splits)
qed (use assms in \<open>auto simp: tick_def dest: tick_waiting_ticked tick_round_train_ticked tick_round_witness_ticked\<close>)

lemma finish_epoch_clients:
  assumes "co_base c" and "finish_epoch c = Some d"
  shows "(\<forall>x \<in> set (co_clients d). cl_state x = Healthy) \<and> co_base d \<and> co_pending_pause d = co_pending_pause c"
proof -
  have b: "co_base (c\<lparr>co_progress := q\<rparr>)" for q using assms(1) by (simp add: co_base_def)
  show ?thesis using assms(2) exit_unhealthy_base [OF b]
    by (auto simp: finish_epoch_def move_clients_to_exited_eq [OF b] bind_eq_Some_conv co_base_def)
qed

lemma epoch_end_clients:
  assumes "co_base c" and "tick E new t seed c = Done d (EpochEnd True)" and "x \<in> set (co_clients d)"
  shows "cl_state x = (if sb_is_true (co_pending_pause c) then Withdrawn else Healthy)"
proof -
  have "tick_cooldown t c = Done d (EpochEnd True)"
    using tick_epoch_end [OF assms(2)] assms(2) by (simp add: tick_def)
  then obtain e where e: "finish_epoch c = Some e"
    and d: "(if sb_is_true (co_pending_pause e)
       then and_then (withdraw_all e) (\<lambda>c _.
              need (change_state t Paused c) (\<lambda>c.
                Done (set_epoch (es_cold_start_epoch_update (\<lambda>_. sb_new True))
                        (c\<lparr>co_pending_pause := sb_new False\<rparr>)) (EpochEnd True)))
       else need (start_waiting_for_members t e) (\<lambda>c.
              Done (set_epoch (es_cold_start_epoch_update (\<lambda>_. sb_new False)) c) (EpochEnd True))) =
       Done d (EpochEnd True)"
    by (auto simp: tick_cooldown_def need_Done split: if_splits)
  note f = finish_epoch_clients [OF assms(1) e]
  show ?thesis
  proof (cases "sb_is_true (co_pending_pause c)")
    case True
    have "withdraw_all e = Done (withdrawn_all e) ()" using f by (intro withdraw_all_healthy) auto
    then have "co_clients d = co_clients (withdrawn_all e)" using d True f by (auto simp: need_Done change_state_Some)
    then show ?thesis using assms(3) True by (auto simp: withdrawn_all_def)
  next
    case False
    then have "co_clients d = co_clients e" using d f
      by (auto simp: need_Done start_waiting_for_members_def change_state_Some)
    then show ?thesis using assms(3) False f by auto
  qed
qed

end
