(* ===== verification/Coordinator_Instance.thy ===== *)
theory Coordinator_Instance
  imports Coordinator_Program Coordinator_Roster Coordinator_Props
begin

text \<open>
  The instance of a run on chain keeps its registry in step with the coordinator: the clients of an epoch
  are a subsequence of the registered ones, so the single pass over the registry at the end of an epoch
  pays exactly the clients it should, and points are never lost.
\<close>

section \<open>Payment\<close>

text \<open>What the end of an epoch is meant to do to one registered client.\<close>

definition is_paid :: "client_id client list \<Rightarrow> solana_client \<Rightarrow> bool" where
  "is_paid finished x \<longleftrightarrow> list_ex (\<lambda>y. ci_signer (cl_id y) = sc_signer x \<and> cl_state y = Healthy) finished"

definition epoch_share :: "clients_epoch_rates \<Rightarrow> client_id client list \<Rightarrow> u64" where
  "epoch_share rates finished = earning_rate_total_shared rates div of_nat (length finished)"

definition pay_client :: "u64 \<Rightarrow> client_id client list \<Rightarrow> solana_client \<Rightarrow> solana_client" where
  "pay_client share finished x = (if is_paid finished x then x\<lparr>sc_earned := sc_earned x + share\<rparr> else x)"

abbreviation signers :: "client_id client list \<Rightarrow> pubkey list" where
  "signers cs \<equiv> map (\<lambda>x. ci_signer (cl_id x)) cs"

lemma subseq_set_subset: "subseq xs ys \<Longrightarrow> set xs \<subseteq> set ys"
  by (induction rule: list_emb.induct) auto

lemma is_paid_iff: "is_paid fin x \<longleftrightarrow> (\<exists>y \<in> set fin. ci_signer (cl_id y) = sc_signer x \<and> cl_state y = Healthy)"
  by (auto simp: is_paid_def list_ex_iff)

lemma is_paid_signer: "is_paid fin x \<Longrightarrow> sc_signer x \<in> set (signers fin)"
  by (force simp: is_paid_iff)

lemma slash_exited_none:
  "\<forall>x \<in> set ex. cl_state x \<noteq> Ejected \<Longrightarrow> slash_exited rates ex j x = Some (y, k) \<Longrightarrow> y = x"
  by (auto simp: slash_exited_def split: if_splits)

lemma reward_finished_hit:
  assumes "reward_finished rates fin i x = Some (y, k)" and "i < length fin" and "sc_signer x = ci_signer (cl_id (fin ! i))"
  shows "k = Suc i \<and> (if cl_state (fin ! i) = Healthy
     then y = x\<lparr>sc_earned := sc_earned x + epoch_share rates fin\<rparr> \<and>
          unat (sc_earned y) = unat (sc_earned x) + unat (epoch_share rates fin)
     else y = x)"
  using assms by (auto simp: reward_finished_def epoch_share_def checked_div_def checked_add_iff bind_eq_Some_conv
      unat_word_ariths split: if_splits)

lemma reward_finished_miss:
  assumes "reward_finished rates fin i x = Some (y, k)" and "\<not> (i < length fin \<and> sc_signer x = ci_signer (cl_id (fin ! i)))"
  shows "k = i \<and> y = x"
  using assms by (auto simp: reward_finished_def split: if_splits)

text \<open>The two-pointer pass computes the intended payment, given that the finished clients are in registry order.\<close>

lemma epoch_end_loop_pays:
  assumes "epoch_end_loop rates fin ex i j xs = Some ys" and "\<forall>x \<in> set ex. cl_state x \<noteq> Ejected"
    and "subseq (signers (drop i fin)) (map sc_signer xs)" and "distinct (map sc_signer xs)"
  shows "ys = map (pay_client (epoch_share rates fin) (drop i fin)) xs \<and>
    (\<forall>x \<in> set xs. is_paid (drop i fin) x \<longrightarrow> unat (sc_earned x) + unat (epoch_share rates fin) < 2 ^ 64)"
  using assms(1,3,4)
proof (induction xs arbitrary: i j ys)
  case Nil
  then show ?case by simp
next
  case (Cons x xs)
  obtain y k z l zs where r: "reward_finished rates fin i x = Some (y, k)" and s: "slash_exited rates ex j y = Some (z, l)"
    and rest: "epoch_end_loop rates fin ex k l xs = Some zs" and ys: "ys = z # zs"
    using Cons.prems(1) by (auto simp: bind_eq_Some_conv)
  have z: "z = y" using slash_exited_none [OF assms(2) s] .
  have new: "sc_signer x \<notin> set (map sc_signer xs)" and d: "distinct (map sc_signer xs)" using Cons.prems(3) by auto
  show ?case
  proof (cases "i < length fin \<and> sc_signer x = ci_signer (cl_id (fin ! i))")
    case True
    then have dr: "drop i fin = fin ! i # drop (Suc i) fin" by (simp add: Cons_nth_drop_Suc)
    have sub: "subseq (signers (drop (Suc i) fin)) (map sc_signer xs)"
      using Cons.prems(2) True by (simp add: dr)
    have hit: "k = Suc i" and y: "if cl_state (fin ! i) = Healthy
        then y = x\<lparr>sc_earned := sc_earned x + epoch_share rates fin\<rparr> \<and>
             unat (sc_earned y) = unat (sc_earned x) + unat (epoch_share rates fin) else y = x"
      using reward_finished_hit [OF r] True by auto
    have "set (signers (drop (Suc i) fin)) \<subseteq> set (map sc_signer xs)" using sub by (rule subseq_set_subset)
    then have nx: "\<not> is_paid (drop (Suc i) fin) x" using new is_paid_signer by blast
    have other: "is_paid (drop i fin) x' = is_paid (drop (Suc i) fin) x'" if "x' \<in> set xs" for x'
      using that new True by (auto simp: dr is_paid_iff image_iff)
    have px: "is_paid (drop i fin) x \<longleftrightarrow> cl_state (fin ! i) = Healthy" using nx True by (auto simp: dr is_paid_iff)
    note ih = Cons.IH [OF rest [unfolded hit] sub d]
    have "zs = map (pay_client (epoch_share rates fin) (drop i fin)) xs"
      using ih other by (auto simp: pay_client_def)
    moreover have "unat (sc_earned y) < 2 ^ 64" using unat_less_pow [of "sc_earned y"] by simp
    ultimately show ?thesis using ih y px other z unfolding ys by (auto simp: pay_client_def split: if_splits)
  next
    case False
    have k: "k = i" "y = x" using reward_finished_miss [OF r False] by auto
    have sub: "subseq (signers (drop i fin)) (map sc_signer xs)"
    proof (cases "i < length fin")
      case True
      then have "drop i fin = fin ! i # drop (Suc i) fin" by (simp add: Cons_nth_drop_Suc)
      then show ?thesis using Cons.prems(2) False True by (auto simp: subseq_Cons2_iff split: if_splits)
    qed simp
    have "set (signers (drop i fin)) \<subseteq> set (map sc_signer xs)" using sub by (rule subseq_set_subset)
    then have nx: "\<not> is_paid (drop i fin) x" using new is_paid_signer by blast
    then show ?thesis using Cons.IH [OF rest [unfolded k] sub d] z k unfolding ys by (auto simp: pay_client_def)
  qed
qed

section \<open>The amount paid\<close>

definition total_earned :: "solana_client list \<Rightarrow> nat" where
  "total_earned xs = (\<Sum>x \<leftarrow> xs. unat (sc_earned x))"

lemma total_earned_paid:
  assumes "\<forall>x \<in> set xs. is_paid fin x \<longrightarrow> unat (sc_earned x) + unat share < 2 ^ 64"
  shows "total_earned (map (pay_client share fin) xs) =
    total_earned xs + unat share * length (filter (is_paid fin) xs)"
  using assms by (induction xs) (auto simp: total_earned_def pay_client_def unat_word_ariths)

lemma paid_at_most:
  assumes "distinct (map sc_signer xs)"
  shows "length (filter (is_paid fin) xs) \<le> length fin"
proof -
  have "distinct (map sc_signer (filter (is_paid fin) xs))" using assms by (rule distinct_map_filter)
  then have "length (filter (is_paid fin) xs) = card (set (map sc_signer (filter (is_paid fin) xs)))"
    by (metis distinct_card length_map)
  also have "\<dots> \<le> card (set (signers fin))"
    using is_paid_signer by (intro card_mono) auto
  also have "\<dots> \<le> length fin" using card_length [of "signers fin"] by simp
  finally show ?thesis .
qed

lemma share_bound:
  assumes "n \<le> length fin" and "length fin < 2 ^ 64"
  shows "unat (epoch_share rates fin) * n \<le> unat (earning_rate_total_shared rates)"
proof -
  have "unat (of_nat (length fin) :: u64) = length fin" using assms(2) by (intro unat_of_nat_small) simp
  then have "unat (epoch_share rates fin) * length fin \<le> unat (earning_rate_total_shared rates)"
    by (simp add: epoch_share_def unat_div del: of_nat_unat)
  then show ?thesis using mult_le_mono2 [OF assms(1), of "unat (epoch_share rates fin)"] by linarith
qed

section \<open>The invariant of an instance\<close>

abbreviation in_clients :: "instance_state \<Rightarrow> solana_client list" where
  "in_clients s \<equiv> st_clients (in_clients_state s)"

definition inst_inv :: "instance_state \<Rightarrow> bool" where
  "inst_inv s \<longleftrightarrow> roster ci_signer (map sc_signer (in_clients s)) (co_config (in_coordinator s)) (in_coordinator s) \<and>
     distinct (map sc_signer (in_clients s)) \<and> length (in_clients s) \<le> SOLANA_MAX_NUM_PENDING_CLIENTS \<and>
     (\<forall>x \<in> set (in_clients s). sc_active x \<le> st_next_active (in_clients_state s) \<and> sc_slashed x = 0)"

text \<open>The points of a wallet, as other programs read them: the first registered client with that signer.\<close>

fun earned_points :: "pubkey \<Rightarrow> solana_client list \<Rightarrow> u64" where
  "earned_points k [] = 0"
| "earned_points k (x # xs) = (if sc_signer x = k then sc_earned x else earned_points k xs)"

definition points_grow :: "solana_client list \<Rightarrow> solana_client list \<Rightarrow> bool" where
  "points_grow xs ys \<longleftrightarrow> (\<forall>k. earned_points k xs \<le> earned_points k ys)"

text \<open>What only the owner of a run may change, and the registered wallets.\<close>

definition same_settings :: "instance_state \<Rightarrow> instance_state \<Rightarrow> bool" where
  "same_settings s t \<longleftrightarrow> co_config (in_coordinator t) = co_config (in_coordinator s) \<and>
     in_metadata t = in_metadata s \<and> in_client_version t = in_client_version s \<and>
     st_future_epoch_rates (in_clients_state t) = st_future_epoch_rates (in_clients_state s) \<and>
     map sc_signer (in_clients t) = map sc_signer (in_clients s)"

lemma same_settings_refl [simp]: "same_settings s s"
  by (simp add: same_settings_def)

lemma same_settings_trans: "same_settings s t \<Longrightarrow> same_settings t u \<Longrightarrow> same_settings s u"
  by (simp add: same_settings_def)

definition inst_mono :: "instance_state \<Rightarrow> instance_state \<Rightarrow> bool" where
  "inst_mono s t \<longleftrightarrow> points_grow (in_clients s) (in_clients t) \<and>
     set (map sc_signer (in_clients s)) \<subseteq> set (map sc_signer (in_clients t))"

lemma points_grow_refl [simp]: "points_grow xs xs"
  by (simp add: points_grow_def)

lemma points_grow_trans: "points_grow xs ys \<Longrightarrow> points_grow ys zs \<Longrightarrow> points_grow xs zs"
  unfolding points_grow_def using order_trans by blast

lemma inst_mono_refl [simp]: "inst_mono s s"
  by (simp add: inst_mono_def)

lemma inst_mono_trans: "inst_mono s t \<Longrightarrow> inst_mono t u \<Longrightarrow> inst_mono s u"
  unfolding inst_mono_def using points_grow_trans by blast

lemma pay_client_simps [simp]:
  "sc_id (pay_client share fin x) = sc_id x" "sc_slashed (pay_client share fin x) = sc_slashed x"
  "sc_active (pay_client share fin x) = sc_active x"
  by (simp_all add: pay_client_def)

lemma add_no_wrap: "unat a + unat b < 2 ^ 64 \<Longrightarrow> a \<le> a + (b :: u64)"
  by (simp add: word_le_nat_alt unat_word_ariths)

lemma points_grow_pay:
  assumes "\<forall>x \<in> set xs. is_paid fin x \<longrightarrow> unat (sc_earned x) + unat share < 2 ^ 64"
  shows "points_grow xs (map (pay_client share fin) xs)"
proof -
  have "earned_points k xs \<le> earned_points k (map (pay_client share fin) xs)" for k
    using assms by (induction xs) (auto simp: pay_client_def intro: add_no_wrap)
  then show ?thesis by (simp add: points_grow_def)
qed

text \<open>The coordinator of an instance and the registry only meet in the roster.\<close>

lemma roster_config: "roster f R g c \<Longrightarrow> roster f R (co_config c) c"
  by (simp add: roster_def)

lemma inst_inv_roster: "inst_inv s \<Longrightarrow> roster ci_signer (map sc_signer (in_clients s)) (co_config (in_coordinator s)) (in_coordinator s)"
  by (simp add: inst_inv_def)

lemma inst_inv_coordinator:
  "inst_inv s \<Longrightarrow> roster ci_signer (map sc_signer (in_clients s)) g c \<Longrightarrow> inst_inv (s\<lparr>in_coordinator := c\<rparr>)"
  by (simp add: inst_inv_def roster_config)

lemma inst_frames [simp]:
  "inst_inv (s\<lparr>in_metadata := m\<rparr>) = inst_inv s" "inst_inv (s\<lparr>in_client_version := v\<rparr>) = inst_inv s"
  "inst_inv (s\<lparr>in_is_warmup_first_tick := b\<rparr>) = inst_inv s"
  "inst_inv (s\<lparr>in_is_training_first_tick := b\<rparr>) = inst_inv s"
  "inst_mono s (t\<lparr>in_coordinator := c\<rparr>) = inst_mono s t" "inst_mono s (t\<lparr>in_metadata := m\<rparr>) = inst_mono s t"
  "inst_mono s (t\<lparr>in_client_version := v\<rparr>) = inst_mono s t"
  "inst_mono (s\<lparr>in_coordinator := c\<rparr>) t = inst_mono s t"
  by (simp_all add: inst_inv_def inst_mono_def)

section \<open>Ticks\<close>

lemma reset_flags_simps [simp]:
  "in_coordinator (reset_flags s) = in_coordinator s" "in_clients_state (reset_flags s) = in_clients_state s"
  "in_metadata (reset_flags s) = in_metadata s" "in_client_version (reset_flags s) = in_client_version s"
  by (simp_all add: reset_flags_def)

lemma offered_subseq:
  "offered_clients s = Some ps \<Longrightarrow> subseq (map ci_signer ps) (map sc_signer (in_clients s))"
  by (auto simp: offered_clients_def get_active_clients_ids_def o_def split: if_splits intro!: subseq_map)

lemma call_coordinator_Done:
  "call_coordinator f s k = Done t a \<longleftrightarrow>
     (\<exists>c r. f (in_coordinator s) = Done c r \<and> k (s\<lparr>in_coordinator := c\<rparr>) r = Done t a)"
  by (auto simp: call_coordinator_def split: exec.splits)

text \<open>The effect of a successful tick.\<close>

definition tick_effect :: "instance_state \<Rightarrow> client_id coordinator \<Rightarrow> tick_result \<Rightarrow> instance_state \<Rightarrow> bool" where
  "tick_effect s c r t \<longleftrightarrow> in_coordinator t = c \<and> in_metadata t = in_metadata s \<and> in_client_version t = in_client_version s \<and>
     st_future_epoch_rates (in_clients_state t) = st_future_epoch_rates (in_clients_state s) \<and>
     st_next_active (in_clients_state s) \<le> st_next_active (in_clients_state t) \<and>
     (case r of
        Ticked \<Rightarrow> in_clients t = in_clients s
      | EpochEnd b \<Rightarrow>
          (let share = epoch_share (st_current_epoch_rates (in_clients_state s)) (co_clients c) in
           st_next_active (in_clients_state t) = st_next_active (in_clients_state s) \<and>
           in_clients t = map (pay_client share (co_clients c)) (in_clients s) \<and>
           (\<forall>x \<in> set (in_clients s). is_paid (co_clients c) x \<longrightarrow> unat (sc_earned x) + unat share < 2 ^ 64)))"

lemma after_ticked_effect:
  "after_ticked (s'\<lparr>in_coordinator := c\<rparr>) = Done t u \<Longrightarrow> s' = reset_flags s \<Longrightarrow> tick_effect s c Ticked t"
  by (auto simp: after_ticked_def tick_effect_def need_Done checked_add_iff word_le_nat_alt unat_word_ariths
      split: if_splits)

lemma after_epoch_end_effect:
  assumes "after_epoch_end ((reset_flags s)\<lparr>in_coordinator := c\<rparr>) = Done t u"
    and "roster ci_signer (map sc_signer (in_clients s)) (co_config (in_coordinator s)) c" and "distinct (map sc_signer (in_clients s))"
  shows "tick_effect s c (EpochEnd b) t"
proof -
  obtain ys where ys: "epoch_end_loop (st_current_epoch_rates (in_clients_state s)) (co_clients c) (co_exited c) 0 0
      (in_clients s) = Some ys"
    and t: "t = (reset_flags s)\<lparr>in_coordinator := c, in_clients_state := (in_clients_state s)\<lparr>st_clients := ys\<rparr>\<rparr>"
    using assms(1) by (auto simp: after_epoch_end_def need_Done)
  show ?thesis using epoch_end_loop_pays [OF ys] assms(2,3)
    by (auto simp: tick_effect_def t roster_def Let_def)
qed

lemma inst_tick_effect:
  assumes "inst_inv s" and "inst_tick X clk s = Done t u"
  obtains c r where "tick (solana_node_env X) (offered_clients s) (ck_unix_timestamp clk) (get_random_seed X clk)
      (in_coordinator s) = Done c r"
    and "roster ci_signer (map sc_signer (in_clients s)) (co_config (in_coordinator s)) c" and "tick_effect s c r t"
proof -
  obtain c r where c: "tick (solana_node_env X) (offered_clients s) (ck_unix_timestamp clk) (get_random_seed X clk)
      (in_coordinator s) = Done c r"
    and k: "(case r of Ticked \<Rightarrow> after_ticked ((reset_flags s)\<lparr>in_coordinator := c\<rparr>)
       | EpochEnd success \<Rightarrow> after_epoch_end ((reset_flags s)\<lparr>in_coordinator := c\<rparr>)) = Done t u"
    using assms(2) by (auto simp: inst_tick_def call_coordinator_Done)
  have r: "roster ci_signer (map sc_signer (in_clients s)) (co_config (in_coordinator s)) c"
    using tick_roster [OF inst_inv_roster [OF assms(1)] offered_subseq] c by (metis holds_Done)
  moreover have "tick_effect s c r t"
    using k after_ticked_effect after_epoch_end_effect [OF _ r] assms(1)
    by (cases r) (auto simp: inst_inv_def)
  ultimately show thesis using c that by blast
qed

abbreviation keeps_instance :: "instance_state \<Rightarrow> instance_state \<Rightarrow> bool" where
  "keeps_instance s t \<equiv> inst_inv t \<and> inst_mono s t"

abbreviation keeps_run :: "instance_state \<Rightarrow> instance_state \<Rightarrow> bool" where
  "keeps_run s t \<equiv> inst_inv t \<and> inst_mono s t \<and> same_settings s t"

lemma keeps_run_trans: "keeps_run s t \<Longrightarrow> keeps_run t u \<Longrightarrow> keeps_run s u"
  using inst_mono_trans same_settings_trans by blast

lemma keeps_instance_trans: "keeps_instance s t \<Longrightarrow> keeps_instance t u \<Longrightarrow> keeps_instance s u"
  using inst_mono_trans by blast

lemma tick_effect_keeps:
  assumes "inst_inv s" and ro: "roster ci_signer (map sc_signer (in_clients s)) (co_config (in_coordinator s)) c"
    and e: "tick_effect s c r t"
  shows "keeps_run s t"
proof -
  have co: "in_coordinator t = c" "in_metadata t = in_metadata s" "in_client_version t = in_client_version s"
    "st_future_epoch_rates (in_clients_state t) = st_future_epoch_rates (in_clients_state s)"
    "st_next_active (in_clients_state s) \<le> st_next_active (in_clients_state t)"
    using e by (simp_all add: tick_effect_def)
  have cfg: "co_config c = co_config (in_coordinator s)" using ro by (simp add: roster_def)
  have sig: "map sc_signer (in_clients t) = map sc_signer (in_clients s)"
    and old: "\<forall>x \<in> set (in_clients t). \<exists>y \<in> set (in_clients s). sc_active x = sc_active y \<and> sc_slashed x = sc_slashed y"
    and grow: "points_grow (in_clients s) (in_clients t)"
    using e points_grow_pay by (auto simp: tick_effect_def Let_def split: tick_result.splits)
  have len: "length (in_clients t) = length (in_clients s)" using sig by (rule map_eq_imp_length_eq)
  have "\<forall>x \<in> set (in_clients t). sc_active x \<le> st_next_active (in_clients_state t) \<and> sc_slashed x = 0"
    using old assms(1) co(5) by (fastforce simp: inst_inv_def)
  then show ?thesis using assms(1) ro co cfg sig grow len by (simp add: inst_inv_def inst_mono_def same_settings_def)
qed

lemma inst_tick_keeps: "inst_inv s \<Longrightarrow> inst_tick X clk s = Done t u \<Longrightarrow> keeps_run s t"
  using tick_effect_keeps by (metis inst_tick_effect)

section \<open>The other operations\<close>

lemma call_keeps:
  assumes "inst_inv s" and "\<And>R g c. roster ci_signer R g c \<Longrightarrow> holds (roster ci_signer R g) (f c)"
    and "call_coordinator f s k = Done t a"
  obtains s' r where "keeps_run s s'" and "k s' r = Done t a"
proof -
  obtain c r where c: "f (in_coordinator s) = Done c r" and k: "k (s\<lparr>in_coordinator := c\<rparr>) r = Done t a"
    using assms(3) by (auto simp: call_coordinator_Done)
  have ro: "roster ci_signer (map sc_signer (in_clients s)) (co_config (in_coordinator s)) c"
    using assms(2) [OF inst_inv_roster [OF assms(1)]] c by simp
  then have "same_settings s (s\<lparr>in_coordinator := c\<rparr>)" by (simp add: same_settings_def roster_def)
  then show thesis using that [OF _ k] inst_inv_coordinator [OF assms(1) ro] by simp
qed

lemma call_tick_keeps:
  assumes "inst_inv s" and "\<And>R g c. roster ci_signer R g c \<Longrightarrow> holds (roster ci_signer R g) (f c)"
    and "call_coordinator f s (\<lambda>s _. inst_tick X clk s) = Done t a"
  shows "keeps_run s t"
  using call_keeps [OF assms] by (metis inst_tick_keeps keeps_run_trans)

lemma with_signer_Done: "with_signer p s k = Done t a \<longleftrightarrow> (\<exists>i. find_signer p (in_clients_state s) = Some i \<and> k i = Done t a)"
  by (auto simp: with_signer_def split: option.splits)

lemma inst_witness_keeps: "inst_inv s \<Longrightarrow> inst_witness X clk p w s = Done t a \<Longrightarrow> keeps_run s t"
  using call_tick_keeps [OF _ witness_roster] by (auto simp: inst_witness_def with_signer_Done)

lemma inst_warmup_witness_keeps: "inst_inv s \<Longrightarrow> inst_warmup_witness X clk p w s = Done t a \<Longrightarrow> keeps_run s t"
  using call_tick_keeps [OF _ warmup_witness_roster] by (auto simp: inst_warmup_witness_def with_signer_Done)

lemma inst_health_check_keeps: "inst_inv s \<Longrightarrow> inst_health_check X clk p w s = Done t a \<Longrightarrow> keeps_run s t"
  using call_tick_keeps [OF _ health_check_roster] by (auto simp: inst_health_check_def with_signer_Done)

lemma tick_unless_halted_keeps:
  assumes "keeps_run s s'" and "(if \<not> halted (in_coordinator s') then inst_tick X clk s' else Done s' ()) = Done t a"
  shows "keeps_run s t"
  using assms inst_tick_keeps keeps_run_trans by (metis exec.inject(2))

lemma inst_checkpoint_keeps:
  assumes "inst_inv s" and "inst_checkpoint X clk p repo s = Done t a"
  shows "keeps_run s t"
proof -
  obtain i n where "call_coordinator (checkpoint (solana_node_env X) i (of_nat n) repo) s (\<lambda>s _.
      if \<not> halted (in_coordinator s) then inst_tick X clk s else Done s ()) = Done t a"
    using assms(2) by (auto simp: inst_checkpoint_def with_signer_Done split: option.splits)
  from call_keeps [OF assms(1) checkpoint_roster this] show ?thesis
    using tick_unless_halted_keeps by metis
qed

lemma bump_next_active_keeps:
  assumes "inst_inv s" and "bump_next_active s = Some t"
  shows "keeps_run s t"
proof -
  obtain n where n: "checked_add (st_next_active (in_clients_state s)) 1 = Some n"
    and t: "t = s\<lparr>in_clients_state := (in_clients_state s)\<lparr>st_next_active := n\<rparr>\<rparr>"
    using assms(2) by (auto simp: bump_next_active_def)
  have "st_next_active (in_clients_state s) \<le> n" using checked_add_Some [OF n] by (simp add: word_le_nat_alt)
  then show ?thesis using assms(1) by (auto simp: t inst_inv_def inst_mono_def same_settings_def intro: order_trans)
qed

lemma initialize_run_roster: "roster f R g c \<Longrightarrow> roster f R g (initialize_run c)"
  by (simp add: initialize_run_def)

lemma inst_set_paused_keeps:
  assumes "inst_inv s" and "inst_set_paused X clk paused s = Done t a"
  shows "keeps_run s t"
proof (cases paused)
  case True
  then have "call_coordinator (pause (ck_unix_timestamp clk)) s (\<lambda>s _. Done s ()) = Done t a"
    using assms(2) by (simp add: inst_set_paused_def)
  from call_keeps [OF assms(1) pause_roster this] show ?thesis by auto
next
  case False
  let ?s = "s\<lparr>in_coordinator := initialize_run (in_coordinator s)\<rparr>"
  have i: "inst_inv ?s"
    using inst_inv_coordinator [OF assms(1) initialize_run_roster [OF inst_inv_roster [OF assms(1)]]] .
  have "call_coordinator (resume (ck_unix_timestamp clk)) ?s (\<lambda>s _.
      need (bump_next_active s) (\<lambda>s. inst_tick X clk s)) = Done t a"
    using assms(2) False by (auto simp: inst_set_paused_def Let_def)
  from call_keeps [OF i resume_roster this] obtain s' where s': "keeps_run ?s s'"
    and "need (bump_next_active s') (\<lambda>s. inst_tick X clk s) = Done t a" by metis
  then obtain s'' where "bump_next_active s' = Some s''" and "inst_tick X clk s'' = Done t a" by (auto simp: need_Done)
  then have "keeps_run ?s t"
    using s' bump_next_active_keeps inst_tick_keeps keeps_run_trans by meson
  then show ?thesis by (simp add: same_settings_def initialize_run_def split: if_splits)
qed

lemma rates_keep: "inst_inv s \<Longrightarrow> inst_set_future_epoch_rates e sl s = Done t a \<Longrightarrow> keeps_instance s t"
  by (auto simp: inst_set_future_epoch_rates_def Let_def inst_inv_def inst_mono_def)

lemma inst_update_keeps:
  assumes "inst_inv s" and "inst_update md cfg m p s = Done t a"
  shows "keeps_instance s t"
  using assms unfolding inst_update_def
  by (auto simp: Let_def and_then_Done inst_inv_def inst_mono_def split: if_splits option.splits)

section \<open>Joining\<close>

lemma rejoin_None: "rejoin i n xs = None \<longleftrightarrow> ci_signer i \<notin> set (map sc_signer xs)"
  by (induction xs) auto

lemma rejoin_no_mismatch: "rejoin i n xs \<noteq> Some (Inl e)"
proof (induction xs)
  case (Cons x xs)
  show ?case
  proof (cases "rejoin i n xs")
    case (Some r)
    then show ?thesis using Cons by (cases r) (auto simp: client_id_eq_def)
  qed (simp add: client_id_eq_def)
qed simp

lemma rejoin_Some:
  "rejoin i n xs = Some (Inr ys) \<Longrightarrow>
     \<exists>us x vs. xs = us @ x # vs \<and> ys = us @ x\<lparr>sc_id := i, sc_active := n\<rparr> # vs \<and> sc_signer x = ci_signer i"
proof (induction xs arbitrary: ys)
  case (Cons y xs)
  show ?case
  proof (cases "sc_signer y = ci_signer i")
    case True
    then show ?thesis using Cons.prems by (auto simp: client_id_eq_def intro: exI [of _ "[]"])
  next
    case False
    then obtain zs where "rejoin i n xs = Some (Inr zs)" "ys = y # zs"
      using Cons.prems by (cases "rejoin i n xs"; cases "the (rejoin i n xs)") auto
    then show ?thesis using Cons.IH by (metis append_Cons)
  qed
qed simp

lemma earned_points_append:
  "earned_points k (us @ vs) = (if k \<in> set (map sc_signer us) then earned_points k us else earned_points k vs)"
  by (induction us) auto

lemma earned_points_absent: "k \<notin> set (map sc_signer xs) \<Longrightarrow> earned_points k xs = 0"
  by (induction xs) auto

lemma rejoin_keeps:
  assumes "rejoin i n xs = Some (Inr ys)"
  shows "map sc_signer ys = map sc_signer xs" and "points_grow xs ys"
    and "\<forall>y \<in> set ys. \<exists>x \<in> set xs. sc_slashed y = sc_slashed x \<and> (sc_active y = n \<or> sc_active y = sc_active x)"
proof -
  obtain us x vs where e: "xs = us @ x # vs" "ys = us @ x\<lparr>sc_id := i, sc_active := n\<rparr> # vs" "sc_signer x = ci_signer i"
    using rejoin_Some [OF assms] by blast
  show "map sc_signer ys = map sc_signer xs" using e by simp
  show "points_grow xs ys" using e by (simp add: points_grow_def earned_points_append)
  show "\<forall>y \<in> set ys. \<exists>x \<in> set xs. sc_slashed y = sc_slashed x \<and> (sc_active y = n \<or> sc_active y = sc_active x)"
    using e by auto
qed

text \<open>Registering writes the registry only, and adds at most the wallet of the joining client.\<close>

definition registers :: "client_id \<Rightarrow> instance_state \<Rightarrow> instance_state \<Rightarrow> bool" where
  "registers i s t \<longleftrightarrow> in_coordinator t = in_coordinator s \<and> in_metadata t = in_metadata s \<and>
     in_client_version t = in_client_version s \<and>
     st_future_epoch_rates (in_clients_state t) = st_future_epoch_rates (in_clients_state s) \<and>
     set (map sc_signer (in_clients t)) = insert (ci_signer i) (set (map sc_signer (in_clients s)))"

lemma register_client_keeps:
  assumes "inst_inv s" and "register_client i s = Done t u"
  shows "keeps_instance s t \<and> registers i s t"
proof (cases "rejoin i (st_next_active (in_clients_state s)) (in_clients s)")
  case None
  then obtain clients where c: "cap_push SOLANA_MAX_NUM_PENDING_CLIENTS
       \<lparr>sc_id = i, sc_earned = 0, sc_slashed = 0, sc_active = st_next_active (in_clients_state s)\<rparr> (in_clients s) = Some clients"
    and t: "t = s\<lparr>in_clients_state := (in_clients_state s)\<lparr>st_clients := clients\<rparr>\<rparr>"
    using assms(2) by (auto simp: register_client_def join_new_def Let_def split: if_splits option.splits)
  have "roster ci_signer (map sc_signer (in_clients s) @ [ci_signer i]) (co_config (in_coordinator s)) (in_coordinator s)"
    using roster_mono [OF inst_inv_roster [OF assms(1)]] by (simp add: subseq_rev_drop_many)
  then show ?thesis using assms(1) c None [unfolded rejoin_None]
    by (auto simp: t inst_inv_def inst_mono_def registers_def cap_push_iff points_grow_def earned_points_append earned_points_absent)
next
  case (Some r)
  then obtain ys where ys: "rejoin i (st_next_active (in_clients_state s)) (in_clients s) = Some (Inr ys)"
    and t: "t = s\<lparr>in_clients_state := (in_clients_state s)\<lparr>st_clients := ys\<rparr>\<rparr>"
    using assms(2) rejoin_no_mismatch by (cases r) (auto simp: register_client_def)
  have "ci_signer i \<in> set (map sc_signer (in_clients s))" using ys rejoin_None [of i _ "in_clients s"] by (metis option.simps(3))
  moreover have "length ys = length (in_clients s)" using rejoin_keeps(1) [OF ys] by (rule map_eq_imp_length_eq)
  moreover have "set (map sc_signer ys) = set (map sc_signer (in_clients s))" using rejoin_keeps(1) [OF ys] by simp
  moreover have "\<forall>y \<in> set ys. sc_active y \<le> st_next_active (in_clients_state s) \<and> sc_slashed y = 0"
    using rejoin_keeps(3) [OF ys] assms(1) by (fastforce simp: inst_inv_def)
  ultimately show ?thesis using assms(1) rejoin_keeps(1,2) [OF ys]
    by (simp add: t inst_inv_def inst_mono_def registers_def insert_absorb)
qed

lemma inst_join_run_Done:
  assumes "inst_inv s" and "inst_join_run X clk i s = Done t a"
  obtains s' where "keeps_instance s s'" and "registers i s s'" and "keeps_run s' t"
    and "register_client i s = Done s' ()"
    and "(if \<not> halted (in_coordinator s') then inst_tick X clk s' else Done s' ()) = Done t a"
proof -
  obtain s' where s': "register_client i s = Done s' ()"
    and k: "(if \<not> halted (in_coordinator s') then inst_tick X clk s' else Done s' ()) = Done t a"
    using assms(2) by (auto simp: inst_join_run_def and_then_Done)
  note r = register_client_keeps [OF assms(1) s']
  then have "keeps_run s' t" using k inst_tick_keeps by (auto split: if_splits)
  then show thesis using that r s' k by blast
qed

lemma inst_join_run_keeps: "inst_inv s \<Longrightarrow> inst_join_run X clk i s = Done t a \<Longrightarrow> keeps_instance s t"
  by (metis inst_join_run_Done inst_mono_trans)

section \<open>A sample instance\<close>

definition sample_id :: "nat \<Rightarrow> client_id" where
  "sample_id n = \<lparr>ci_signer = of_nat n, ci_p2p_identity = replicate 32 0\<rparr>"

definition sample_client :: "nat \<Rightarrow> solana_client" where
  "sample_client n = \<lparr>sc_id = sample_id n, sc_earned = 10, sc_slashed = 0, sc_active = 1\<rparr>"

definition sample_cooldown :: "bool \<Rightarrow> client_id coordinator" where
  "sample_cooldown b = (fresh Cooldown sample_config sample_llm)\<lparr>co_pending_pause := sb_new b,
     co_epoch_state := default_epoch_state\<lparr>es_clients := [client_new (sample_id 7), client_new (sample_id 9)]\<rparr>\<rparr>"

definition sample_instance :: "bool \<Rightarrow> instance_state" where
  "sample_instance b = \<lparr>in_metadata = \<lparr>rm_name = [], rm_description = [], rm_num_parameters = 0, rm_vocab_size = 0\<rparr>,
     in_coordinator = sample_cooldown b,
     in_clients_state = \<lparr>st_clients = [sample_client 7, sample_client 8, sample_client 9], st_next_active = 2,
       st_current_epoch_rates = \<lparr>earning_rate_total_shared = 101, slashing_rate_per_client = 0\<rparr>,
       st_future_epoch_rates = \<lparr>earning_rate_total_shared = 101, slashing_rate_per_client = 0\<rparr>\<rparr>,
     in_is_warmup_first_tick = sb_new False, in_is_training_first_tick = sb_new False, in_client_version = []\<rparr>"

lemmas sample_instance_defs = sample_instance_def sample_cooldown_def sample_client_def sample_id_def fresh_def
  sample_config_def sample_llm_def default_epoch_state_def zero_epoch_state_def zero_round_def client_new_def
  NUM_STORED_ROUNDS_def SOLANA_MAX_NUM_CLIENTS_def SOLANA_MAX_NUM_PENDING_CLIENTS_def default_progress_def

lemma sample_instance_inv: "inst_inv (sample_instance b)"
  by (simp add: inst_inv_def roster_def co_base_def sample_instance_defs)

definition sample_clock :: clock where
  "sample_clock = \<lparr>ck_unix_timestamp = 100, ck_slot = 3\<rparr>"

lemmas sample_tick_defs = inst_tick_def call_coordinator_def tick_def tick_cooldown_def check_timeout_def checked_add_def
  finish_epoch_def get_target_global_batch_size_def total_tokens_processed_def current_round_def
  current_round_unchecked_def nth_opt_def checked_mul_def get_batch_size_def move_clients_to_exited_def exit_client_def
  start_waiting_for_members_def change_state_def after_epoch_end_def reward_finished_def slash_exited_def
  checked_div_def reset_flags_def offered_clients_def sample_clock_def get_sequence_length_def withdraw_all_def
  withdraw_def p2p_to_hub_def hub_to_p2p_def

lemma sample_instance_pause:
  "\<exists>t. inst_tick sample_externs sample_clock (sample_instance True) = Done t () \<and> co_run_state (in_coordinator t) = Paused"
  by (simp add: sample_instance_defs sample_tick_defs Let_def)

lemma sample_instance_tick:
  "\<exists>t. inst_tick sample_externs sample_clock (sample_instance False) = Done t () \<and>
     map sc_earned (in_clients t) = [60, 10, 60] \<and> co_run_state (in_coordinator t) = WaitingForMembers"
  by (simp add: sample_instance_defs sample_tick_defs Let_def)

section \<open>Properties\<close>



text \<open>
  A completed epoch pays everybody or nobody. When an epoch ends in \<open>Cooldown\<close> every client that is still
  part of it receives the share, unless the run was asked to pause: then the coordinator has withdrawn
  every client before the registry is updated, and no client is paid for the epoch it completed.
\<close>

theorem completed_epoch_pays_all_or_none:
  assumes "inst_inv s" and "co_run_state (in_coordinator s) = Cooldown"
    and "inst_tick X clk s = Done t ()" and "co_run_state (in_coordinator t) \<noteq> Cooldown"
  shows "if sb_is_true (co_pending_pause (in_coordinator s))
         then in_clients t = in_clients s
         else \<forall>x \<in> set (in_clients s). sc_signer x \<in> set (signers (co_clients (in_coordinator t))) \<longrightarrow>
           x\<lparr>sc_earned := sc_earned x + epoch_share (st_current_epoch_rates (in_clients_state s))
               (co_clients (in_coordinator t))\<rparr> \<in> set (in_clients t)"
proof -
  obtain c r where c: "tick (solana_node_env X) (offered_clients s) (ck_unix_timestamp clk) (get_random_seed X clk)
      (in_coordinator s) = Done c r"
    and ro: "roster ci_signer (map sc_signer (in_clients s)) (co_config (in_coordinator s)) c" and e: "tick_effect s c r t"
    using inst_tick_effect [OF assms(1,3)] by metis
  have co: "in_coordinator t = c" using e by (simp add: tick_effect_def)
  have "r = EpochEnd True"
    using c assms(2,4) unfolding co
    by (auto simp: tick_def tick_cooldown_def need_Done and_then_Done split: if_splits)
  then have cl: "in_clients t = map (pay_client (epoch_share (st_current_epoch_rates (in_clients_state s)) (co_clients c))
      (co_clients c)) (in_clients s)"
    and st: "\<forall>x \<in> set (co_clients c). cl_state x =
      (if sb_is_true (co_pending_pause (in_coordinator s)) then Withdrawn else Healthy)"
    using e epoch_end_clients [OF roster_base [OF inst_inv_roster [OF assms(1)]]] c
    by (auto simp: tick_effect_def Let_def)
  show ?thesis
  proof (cases "sb_is_true (co_pending_pause (in_coordinator s))")
    case True
    then have "\<not> is_paid (co_clients c) x" for x using st by (auto simp: is_paid_iff)
    then show ?thesis using True cl by (auto simp: pay_client_def [abs_def])
  next
    case False
    then have "is_paid (co_clients c) x" if "sc_signer x \<in> set (signers (co_clients c))" for x
      using st that by (force simp: is_paid_iff)
    then show ?thesis using False cl unfolding co by (force simp: pay_client_def)
  qed
qed

theorem completed_epoch_pays_all_or_none_witness:
  "\<exists>t. inst_tick sample_externs sample_clock (sample_instance True) = Done t () \<and>
     in_clients t = in_clients (sample_instance True)"
proof -
  obtain t where t: "inst_tick sample_externs sample_clock (sample_instance True) = Done t ()"
    and p: "co_run_state (in_coordinator t) = Paused"
    using sample_instance_pause by blast
  have "co_run_state (in_coordinator (sample_instance True)) = Cooldown"
    "sb_is_true (co_pending_pause (in_coordinator (sample_instance True)))"
    by (simp_all add: sample_instance_def sample_cooldown_def fresh_def)
  then show ?thesis using completed_epoch_pays_all_or_none [OF sample_instance_inv _ t] t p by simp
qed

end
