(* ===== verification/Coordinator_Accounts.thy ===== *)
theory Coordinator_Accounts
  imports Coordinator_Instance
begin

text \<open>
  The instructions of the coordinator program (\<open>lib.rs\<close> and \<open>logic/\<close> of
  \<open>src/architectures/decentralized/solana-coordinator\<close>): creation and closing of the accounts of a run, and
  the instructions that load a coordinator account, count them in its nonce and call the instance. An
  instruction names the signer and the addresses of the accounts it is given; the checks are those of its
  accounts struct.
\<close>

section \<open>Accounts\<close>

record coordinator_account =
  ca_version :: u64
  ca_state :: instance_state
  ca_nonce :: u64

definition CA_VERSION :: u64 where "CA_VERSION = 1"

record coordinator_instance =
  ci_bump :: u8
  ci_main_authority :: pubkey
  ci_join_authority :: pubkey
  ci_coordinator_account :: pubkey
  ci_run_id :: bytes

text \<open>\<open>b"coordinator"\<close>\<close>

definition COORDINATOR_SEEDS_PREFIX :: bytes where
  "COORDINATOR_SEEDS_PREFIX = [99, 111, 111, 114, 100, 105, 110, 97, 116, 111, 114]"

definition bytes_from_string :: "bytes \<Rightarrow> bytes" where
  "bytes_from_string s = take (min SOLANA_MAX_STRING_LEN (length s)) s"

definition coordinator_seeds :: "bytes \<Rightarrow> bytes list" where
  "coordinator_seeds run_id = [COORDINATOR_SEEDS_PREFIX, bytes_from_string run_id]"

definition find_coordinator_instance :: "chain_env \<Rightarrow> bytes \<Rightarrow> pubkey option" where
  "find_coordinator_instance E run_id = map_option fst (ce_find_pda E COORDINATOR_ID (coordinator_seeds run_id))"

text \<open>
  An account owned by the program holds zeroes (of some length) until it is initialised: only the program
  can write to it. \<open>Uninit n\<close> is such an account with \<open>n\<close> bytes.
\<close>

datatype coordinator_slot = Uninit nat | Coord coordinator_account

record coord_chain = auth_chain +
  ch_instances :: "pubkey \<rightharpoonup> coordinator_instance"
  ch_slots :: "pubkey \<rightharpoonup> coordinator_slot"

type_synonym ('z, 'a) coord_exec = "('z coord_chain_scheme, program_error tx_error, 'a) exec"

text \<open>The all-zero instance: \<open>bytemuck::from_bytes_mut\<close> of a fresh account. The first variant of an enum is its zero.\<close>

definition zero_llm :: llm where
  "zero_llm = \<lparr>max_seq_len = 0, cold_start_warmup_steps = 0, llm_arch = HfLlama, llm_checkpoint = Ephemeral,
     llm_data_type = Pretraining, llm_data_location = DataDummy,
     llm_lr_schedule = Constant \<lparr>clr_base_lr = 0, clr_warmup_init_lr = 0, clr_warmup_steps = 0\<rparr>,
     llm_optimizer = OptDummy\<rparr>"

definition zero_config :: coordinator_config where
  "zero_config = \<lparr>warmup_time = 0, cooldown_time = 0, max_round_train_time = 0, round_witness_time = 0,
     global_batch_size_warmup_tokens = 0, epoch_time = 0, total_steps = 0, init_min_clients = 0,
     min_clients = 0, witness_nodes = 0, global_batch_size_start = 0, global_batch_size_end = 0,
     verification_percent = 0, waiting_for_members_extra_time = 0\<rparr>"

definition zero_coordinator :: "client_id coordinator" where
  "zero_coordinator = \<lparr>co_run_id = fs_default SOLANA_RUN_ID_MAX_LEN, co_run_state = Uninitialized, co_model = LLM zero_llm,
     co_config = zero_config, co_progress = \<lparr>pr_epoch = 0, pr_step = 0, pr_epoch_start_data_index = 0\<rparr>,
     co_epoch_state = zero_epoch_state, co_run_state_start = 0, co_pending_pause = SB_FALSE\<rparr>"

definition zero_rates :: clients_epoch_rates where
  "zero_rates = \<lparr>earning_rate_total_shared = 0, slashing_rate_per_client = 0\<rparr>"

definition zero_instance :: instance_state where
  "zero_instance = \<lparr>in_metadata = \<lparr>rm_name = fs_default SOLANA_MAX_STRING_LEN, rm_description = fs_default 280,
       rm_num_parameters = 0, rm_vocab_size = 0\<rparr>,
     in_coordinator = zero_coordinator,
     in_clients_state = \<lparr>st_clients = [], st_next_active = 0, st_current_epoch_rates = zero_rates,
       st_future_epoch_rates = zero_rates\<rparr>,
     in_is_warmup_first_tick = SB_FALSE, in_is_training_first_tick = SB_FALSE, in_client_version = fs_default 96\<rparr>"

section \<open>Creating and closing\<close>

definition init_coordinator ::
    "chain_env \<Rightarrow> pubkey \<Rightarrow> pubkey \<Rightarrow> pubkey \<Rightarrow> bytes \<Rightarrow> bytes \<Rightarrow> 'z coord_chain_scheme \<Rightarrow> ('z, unit) coord_exec" where
  "init_coordinator E account main_authority join_authority run_id client_version ch =
     need (ce_find_pda E COORDINATOR_ID (coordinator_seeds run_id)) (\<lambda>(key, bump).
     require (ch_instances ch key = None) AlreadyInUse ch
     (with_account account (ch_slots ch) ch (\<lambda>slot.
     require (length run_id \<le> SOLANA_RUN_ID_MAX_LEN) (Custom RunIdInvalidLength) ch
     (case slot of
        Coord _ \<Rightarrow> Fail ch DiscriminatorAlreadySet
      | Uninit n \<Rightarrow>
          require (n = ce_coordinator_space E) (Custom CoordinatorAccountIncorrectSize) ch
          (let st = zero_instance\<lparr>in_client_version := fs_from_str_truncated 96 client_version,
                 in_coordinator := zero_coordinator\<lparr>co_run_id := fs_from_str_truncated SOLANA_RUN_ID_MAX_LEN run_id\<rparr>\<rparr>
           in Done (ch\<lparr>ch_instances := (ch_instances ch)(key \<mapsto>
                       \<lparr>ci_bump = bump, ci_main_authority = main_authority, ci_join_authority = join_authority,
                        ci_coordinator_account = account, ci_run_id = run_id\<rparr>),
                    ch_slots := (ch_slots ch)(account \<mapsto> Coord \<lparr>ca_version = CA_VERSION, ca_state = st, ca_nonce = 0\<rparr>)\<rparr>) ())))))"

text \<open>The checks every accounts struct makes of the instance account: the address derives from the run id.\<close>

definition with_instance ::
    "chain_env \<Rightarrow> pubkey \<Rightarrow> 'z coord_chain_scheme \<Rightarrow> (coordinator_instance \<Rightarrow> ('z, 'a) coord_exec) \<Rightarrow> ('z, 'a) coord_exec" where
  "with_instance E ikey ch k =
     with_account ikey (ch_instances ch) ch (\<lambda>i.
     require (ce_create_pda E COORDINATOR_ID (coordinator_seeds (ci_run_id i)) (ci_bump i) = Some ikey)
       ConstraintViolated ch (k i))"

text \<open>\<open>AccountLoader\<close>: the account must carry the discriminator.\<close>

definition with_coordinator_account ::
    "coordinator_instance \<Rightarrow> pubkey \<Rightarrow> 'z coord_chain_scheme \<Rightarrow> (coordinator_account \<Rightarrow> ('z, 'a) coord_exec) \<Rightarrow> ('z, 'a) coord_exec" where
  "with_coordinator_account i account ch k =
     with_account account (ch_slots ch) ch (\<lambda>slot.
     case slot of
       Uninit _ \<Rightarrow> Fail ch AccountMissing
     | Coord a \<Rightarrow> require (ci_coordinator_account i = account) ConstraintViolated ch (k a))"

definition free_coordinator ::
    "chain_env \<Rightarrow> pubkey \<Rightarrow> pubkey \<Rightarrow> pubkey \<Rightarrow> 'z coord_chain_scheme \<Rightarrow> ('z, unit) coord_exec" where
  "free_coordinator E authority ikey account ch =
     with_instance E ikey ch (\<lambda>i.
     require (ci_main_authority i = authority) ConstraintViolated ch
     (with_coordinator_account i account ch (\<lambda>a.
     require (halted (in_coordinator (ca_state a))) (Custom CloseCoordinatorNotHalted) ch
       (Done (ch\<lparr>ch_instances := (ch_instances ch)(ikey := None), ch_slots := (ch_slots ch)(account := None)\<rparr>) ()))))"

section \<open>Instructions on a loaded account\<close>

definition increment_nonce :: "coordinator_account \<Rightarrow> coordinator_account option" where
  "increment_nonce a = map_option (\<lambda>n. a\<lparr>ca_nonce := n\<rparr>) (checked_add (ca_nonce a) 1)"

text \<open>Run a method of the instance in place, its error becoming the program's.\<close>

definition run_instance ::
    "pubkey \<Rightarrow> coordinator_account \<Rightarrow> (instance_state \<Rightarrow> unit inst_exec) \<Rightarrow> 'z coord_chain_scheme \<Rightarrow> ('z, unit) coord_exec" where
  "run_instance account a f ch =
     (case f (ca_state a) of
        Panic \<Rightarrow> Panic
      | Fail s e \<Rightarrow> Fail ch (Custom e)
      | Done s u \<Rightarrow> Done (ch\<lparr>ch_slots := (ch_slots ch)(account \<mapsto> Coord (a\<lparr>ca_state := s\<rparr>))\<rparr>) u)"

definition counted_instance ::
    "pubkey \<Rightarrow> coordinator_account \<Rightarrow> (instance_state \<Rightarrow> unit inst_exec) \<Rightarrow> 'z coord_chain_scheme \<Rightarrow> ('z, unit) coord_exec" where
  "counted_instance account a f ch = need (increment_nonce a) (\<lambda>a. run_instance account a f ch)"

definition owner_accounts ::
    "chain_env \<Rightarrow> pubkey \<Rightarrow> pubkey \<Rightarrow> pubkey \<Rightarrow> 'z coord_chain_scheme \<Rightarrow>
     (coordinator_account \<Rightarrow> ('z, 'a) coord_exec) \<Rightarrow> ('z, 'a) coord_exec" where
  "owner_accounts E authority ikey account ch k =
     with_instance E ikey ch (\<lambda>i.
     require (ci_main_authority i = authority) ConstraintViolated ch
     (with_coordinator_account i account ch (\<lambda>a.
     require (ca_version a = CA_VERSION) ConstraintViolated ch (k a))))"

definition permissionless_accounts ::
    "chain_env \<Rightarrow> pubkey \<Rightarrow> pubkey \<Rightarrow> 'z coord_chain_scheme \<Rightarrow>
     (coordinator_account \<Rightarrow> ('z, 'a) coord_exec) \<Rightarrow> ('z, 'a) coord_exec" where
  "permissionless_accounts E ikey account ch k =
     with_instance E ikey ch (\<lambda>i.
     with_coordinator_account i account ch (\<lambda>a.
     require (ca_version a = CA_VERSION) ConstraintViolated ch (k a)))"

text \<open>The call-backs into the instance that an owner may make, and those that any signer may make.\<close>

datatype owner_call =
    CallUpdate "run_metadata option" "coordinator_config option" "model option" "coordinator_progress option"
  | CallSetFutureEpochRates "u64 option" "u64 option"
  | CallSetPaused clock bool

datatype user_call =
    CallTick clock
  | CallWitness clock witness
  | CallWarmupWitness clock witness
  | CallHealthCheck clock client_id committee_proof
  | CallCheckpoint clock hub_repo

fun owner_method :: "externs \<Rightarrow> owner_call \<Rightarrow> instance_state \<Rightarrow> unit inst_exec" where
  "owner_method X (CallUpdate metadata config mdl progress) s = inst_update metadata config mdl progress s"
| "owner_method X (CallSetFutureEpochRates earning slashing) s = inst_set_future_epoch_rates earning slashing s"
| "owner_method X (CallSetPaused clk paused) s = inst_set_paused X clk paused s"

fun user_method :: "externs \<Rightarrow> pubkey \<Rightarrow> user_call \<Rightarrow> instance_state \<Rightarrow> unit inst_exec" where
  "user_method X user (CallTick clk) s = inst_tick X clk s"
| "user_method X user (CallWitness clk w) s = inst_witness X clk user w s"
| "user_method X user (CallWarmupWitness clk w) s = inst_warmup_witness X clk user w s"
| "user_method X user (CallHealthCheck clk i proof) s = inst_health_check X clk user [(i, proof)] s"
| "user_method X user (CallCheckpoint clk repo) s = inst_checkpoint X clk user repo s"

definition owner_instruction ::
    "chain_env \<Rightarrow> pubkey \<Rightarrow> pubkey \<Rightarrow> pubkey \<Rightarrow> owner_call \<Rightarrow> 'z coord_chain_scheme \<Rightarrow> ('z, unit) coord_exec" where
  "owner_instruction E authority ikey account call ch =
     owner_accounts E authority ikey account ch (\<lambda>a.
       counted_instance account a (owner_method (ce_externs E) call) ch)"

definition user_instruction ::
    "chain_env \<Rightarrow> pubkey \<Rightarrow> pubkey \<Rightarrow> pubkey \<Rightarrow> user_call \<Rightarrow> 'z coord_chain_scheme \<Rightarrow> ('z, unit) coord_exec" where
  "user_instruction E user ikey account call ch =
     permissionless_accounts E ikey account ch (\<lambda>a.
       counted_instance account a (user_method (ce_externs E) user call) ch)"

text \<open>\<open>update_client_version\<close> does not count in the nonce and panics on a version of more than 96 bytes.\<close>

definition update_client_version ::
    "chain_env \<Rightarrow> pubkey \<Rightarrow> pubkey \<Rightarrow> pubkey \<Rightarrow> bytes \<Rightarrow> 'z coord_chain_scheme \<Rightarrow> ('z, unit) coord_exec" where
  "update_client_version E authority ikey account new_version ch =
     owner_accounts E authority ikey account ch (\<lambda>a.
     require (halted (in_coordinator (ca_state a))) (Custom UpdateConfigNotHalted) ch
       (case fs_try_from 96 new_version of
          Inl _ \<Rightarrow> Panic
        | Inr v \<Rightarrow> Done (ch\<lparr>ch_slots := (ch_slots ch)(account \<mapsto>
                     Coord (a\<lparr>ca_state := (ca_state a)\<lparr>in_client_version := v\<rparr>\<rparr>))\<rparr>) ()))"

text \<open>\<open>b"CoordinatorJoinRun"\<close>\<close>

definition JOIN_RUN_AUTHORIZATION_SCOPE :: bytes where
  "JOIN_RUN_AUTHORIZATION_SCOPE =
     [67, 111, 111, 114, 100, 105, 110, 97, 116, 111, 114, 74, 111, 105, 110, 82, 117, 110]"

definition join_run ::
    "chain_env \<Rightarrow> pubkey \<Rightarrow> pubkey \<Rightarrow> pubkey \<Rightarrow> pubkey \<Rightarrow> client_id \<Rightarrow> clock \<Rightarrow> 'z coord_chain_scheme \<Rightarrow> ('z, unit) coord_exec" where
  "join_run E user authorization ikey account i clk ch =
     with_account authorization (ch_auths ch) ch (\<lambda>au.
     with_instance E ikey ch (\<lambda>inst.
     require (is_valid_for (aa_data au) (ci_join_authority inst) user JOIN_RUN_AUTHORIZATION_SCOPE) ConstraintViolated ch
     (with_coordinator_account inst account ch (\<lambda>a.
     require (ca_version a = CA_VERSION) ConstraintViolated ch
     (require (ci_signer i = user) (Custom SignerMismatch) ch
       (counted_instance account a (inst_join_run (ce_externs E) clk i) ch))))))"

datatype coord_cmd =
    InitCoordinator pubkey pubkey pubkey bytes bytes
  | FreeCoordinator pubkey pubkey pubkey
  | OwnerCall pubkey pubkey pubkey owner_call
  | UserCall pubkey pubkey pubkey user_call
  | UpdateClientVersion pubkey pubkey pubkey bytes
  | JoinRun pubkey pubkey pubkey pubkey client_id clock

fun coord_program :: "chain_env \<Rightarrow> coord_cmd \<Rightarrow> 'z coord_chain_scheme \<Rightarrow> ('z, unit) coord_exec" where
  "coord_program E (InitCoordinator account main join run_id version) ch = init_coordinator E account main join run_id version ch"
| "coord_program E (FreeCoordinator authority ikey account) ch = free_coordinator E authority ikey account ch"
| "coord_program E (OwnerCall authority ikey account call) ch = owner_instruction E authority ikey account call ch"
| "coord_program E (UserCall user ikey account call) ch = user_instruction E user ikey account call ch"
| "coord_program E (UpdateClientVersion authority ikey account v) ch = update_client_version E authority ikey account v ch"
| "coord_program E (JoinRun user auth ikey account i clk) ch = join_run E user auth ikey account i clk ch"

end
