(* ===== verification/Coordinator_Guard.thy ===== *)
theory Coordinator_Guard
  imports Coordinator_Accounts
begin

text \<open>
  What the coordinator program guarantees to everyone who uses a run: the invariant of its accounts along
  every sequence of transactions, who can change what, and that the instructions open to everybody drive
  the coordinator only through its own commands.
\<close>

section \<open>Instructions as effects on one account\<close>

lemma with_instance_Done [simp]:
  "with_instance E ik ch k = Done t a \<longleftrightarrow> (\<exists>i. ch_instances ch ik = Some i \<and>
     ce_create_pda E COORDINATOR_ID (coordinator_seeds (ci_run_id i)) (ci_bump i) = Some ik \<and> k i = Done t a)"
  by (auto simp: with_instance_def)

lemma with_coordinator_account_Done [simp]:
  "with_coordinator_account i ak ch k = Done t u \<longleftrightarrow>
     (\<exists>a. ch_slots ch ak = Some (Coord a) \<and> ci_coordinator_account i = ak \<and> k a = Done t u)"
  by (cases "ch_slots ch ak"; cases "the (ch_slots ch ak)") (auto simp: with_coordinator_account_def)

lemma owner_accounts_Done [simp]:
  "owner_accounts E auth ik ak ch k = Done t u \<longleftrightarrow> (\<exists>i a. ch_instances ch ik = Some i \<and>
     ce_create_pda E COORDINATOR_ID (coordinator_seeds (ci_run_id i)) (ci_bump i) = Some ik \<and>
     ci_main_authority i = auth \<and> ch_slots ch ak = Some (Coord a) \<and> ci_coordinator_account i = ak \<and>
     ca_version a = CA_VERSION \<and> k a = Done t u)"
  by (auto simp: owner_accounts_def)

lemma permissionless_accounts_Done [simp]:
  "permissionless_accounts E ik ak ch k = Done t u \<longleftrightarrow> (\<exists>i a. ch_instances ch ik = Some i \<and>
     ce_create_pda E COORDINATOR_ID (coordinator_seeds (ci_run_id i)) (ci_bump i) = Some ik \<and>
     ch_slots ch ak = Some (Coord a) \<and> ci_coordinator_account i = ak \<and> ca_version a = CA_VERSION \<and> k a = Done t u)"
  by (auto simp: permissionless_accounts_def)

lemma counted_instance_Done:
  "counted_instance ak a f ch = Done t u \<longleftrightarrow> (\<exists>s n. checked_add (ca_nonce a) 1 = Some n \<and> f (ca_state a) = Done s u \<and>
     t = ch\<lparr>ch_slots := (ch_slots ch)(ak \<mapsto> Coord (a\<lparr>ca_nonce := n, ca_state := s\<rparr>))\<rparr>)"
  by (cases "checked_add (ca_nonce a) 1"; cases "f (ca_state a)")
    (auto simp: counted_instance_def increment_nonce_def run_instance_def)

lemma owner_method_keeps:
  assumes "inst_inv s" and "owner_method X call s = Done t u"
  shows "keeps_instance s t"
proof (cases call)
  case CallUpdate
  then show ?thesis using inst_update_keeps [OF assms(1)] assms(2) by auto
next
  case CallSetFutureEpochRates
  then show ?thesis using rates_keep [OF assms(1)] assms(2) by auto
next
  case CallSetPaused
  then show ?thesis using inst_set_paused_keeps [OF assms(1)] assms(2) by auto
qed

lemma user_method_keeps:
  assumes "inst_inv s" and "user_method X p call s = Done t u"
  shows "keeps_run s t"
proof (cases call)
  case CallTick
  then show ?thesis using inst_tick_keeps [OF assms(1)] assms(2) by auto
next
  case CallWitness
  then show ?thesis using inst_witness_keeps [OF assms(1)] assms(2) by auto
next
  case CallWarmupWitness
  then show ?thesis using inst_warmup_witness_keeps [OF assms(1)] assms(2) by auto
next
  case CallHealthCheck
  then show ?thesis using inst_health_check_keeps [OF assms(1)] assms(2) by auto
next
  case CallCheckpoint
  then show ?thesis using inst_checkpoint_keeps [OF assms(1)] assms(2) by auto
qed

section \<open>The invariant of the accounts\<close>

text \<open>
  Every initialised account holds a good instance; the instance accounts sit at the address derived from
  their run id and correspond one to one to the initialised coordinator accounts.
\<close>

definition coord_inv :: "chain_env \<Rightarrow> 'z coord_chain_scheme \<Rightarrow> bool" where
  "coord_inv E ch \<longleftrightarrow>
     (\<forall>k a. ch_slots ch k = Some (Coord a) \<longrightarrow> inst_inv (ca_state a) \<and> ca_version a = CA_VERSION \<and>
        (\<exists>ik i. ch_instances ch ik = Some i \<and> ci_coordinator_account i = k)) \<and>
     (\<forall>ik i. ch_instances ch ik = Some i \<longrightarrow>
        ce_find_pda E COORDINATOR_ID (coordinator_seeds (ci_run_id i)) = Some (ik, ci_bump i) \<and>
        (\<exists>a. ch_slots ch (ci_coordinator_account i) = Some (Coord a))) \<and>
     (\<forall>ik i jk j. ch_instances ch ik = Some i \<longrightarrow> ch_instances ch jk = Some j \<longrightarrow>
        ci_coordinator_account i = ci_coordinator_account j \<longrightarrow> ik = jk)"

text \<open>Progress of the accounts: an initialised account stays initialised and its points grow, until it is closed for good.\<close>

definition coord_mono :: "'y coord_chain_scheme \<Rightarrow> 'z coord_chain_scheme \<Rightarrow> bool" where
  "coord_mono ch ch' \<longleftrightarrow>
     (\<forall>k. ch_slots ch k = None \<longrightarrow> ch_slots ch' k = None) \<and>
     (\<forall>k a x. ch_slots ch k = Some (Coord a) \<longrightarrow> ch_slots ch' k = Some x \<longrightarrow>
        (\<exists>b. x = Coord b \<and> inst_mono (ca_state a) (ca_state b)))"

lemma coord_inv_slot:
  assumes "coord_inv E ch" and "ch_slots ch k = Some (Coord a)"
  obtains ik i where "ch_instances ch ik = Some i" and "ci_coordinator_account i = k"
    and "inst_inv (ca_state a)" and "ca_version a = CA_VERSION"
  using assms unfolding coord_inv_def by blast

lemma coord_mono_slot:
  assumes "coord_mono ch ch'" and "ch_slots ch k = Some (Coord a)" and "ch_slots ch' k = Some x"
  obtains b where "x = Coord b" and "inst_mono (ca_state a) (ca_state b)"
  using assms unfolding coord_mono_def by blast

lemma coord_mono_refl: "coord_mono ch ch"
  by (auto simp: coord_mono_def)

lemma coord_mono_trans:
  assumes "coord_mono p q" and "coord_mono q r"
  shows "coord_mono p r"
proof -
  have "\<exists>b. x = Coord b \<and> inst_mono (ca_state a) (ca_state b)"
    if pk: "ch_slots p k = Some (Coord a)" and rk: "ch_slots r k = Some x" for k a x
  proof -
    obtain y where y: "ch_slots q k = Some y" using assms(2) rk by (cases "ch_slots q k") (auto simp: coord_mono_def)
    then obtain b where "y = Coord b" "inst_mono (ca_state a) (ca_state b)"
      using coord_mono_slot [OF assms(1) pk] by blast
    then show ?thesis using assms(2) y rk inst_mono_trans unfolding coord_mono_def by metis
  qed
  then show ?thesis using assms by (auto simp: coord_mono_def)
qed

text \<open>One account rewritten by an instance method.\<close>

lemma rewrite_inv:
  assumes "coord_inv E ch" and "ch_slots ch ak = Some (Coord a)" and "keeps_instance (ca_state a) (ca_state b)"
    and "ca_version b = ca_version a"
  shows "coord_inv E (ch\<lparr>ch_slots := (ch_slots ch)(ak \<mapsto> Coord b)\<rparr>) \<and> coord_mono ch (ch\<lparr>ch_slots := (ch_slots ch)(ak \<mapsto> Coord b)\<rparr>)"
proof -
  have "coord_inv E (ch\<lparr>ch_slots := (ch_slots ch)(ak \<mapsto> Coord b)\<rparr>)"
    using assms unfolding coord_inv_def by (auto split: if_splits)
  moreover have "coord_mono ch (ch\<lparr>ch_slots := (ch_slots ch)(ak \<mapsto> Coord b)\<rparr>)"
    using assms by (auto simp: coord_mono_def)
  ultimately show ?thesis by blast
qed

lemma zero_instance_inv: "inst_inv (zero_instance\<lparr>in_client_version := v, in_coordinator := zero_coordinator\<lparr>co_run_id := i\<rparr>\<rparr>)"
  by (simp add: inst_inv_def roster_def co_base_def zero_instance_def zero_coordinator_def zero_epoch_state_def
      zero_round_def NUM_STORED_ROUNDS_def)

lemma init_coordinator_inv:
  assumes "coord_inv E ch" and "init_coordinator E ak m j run_id v ch = Done ch' u"
  shows "coord_inv E ch' \<and> coord_mono ch ch'"
proof -
  let ?st = "zero_instance\<lparr>in_client_version := fs_from_str_truncated 96 v,
     in_coordinator := zero_coordinator\<lparr>co_run_id := fs_from_str_truncated SOLANA_RUN_ID_MAX_LEN run_id\<rparr>\<rparr>"
  obtain ik b n where f: "ce_find_pda E COORDINATOR_ID (coordinator_seeds run_id) = Some (ik, b)"
    and new: "ch_instances ch ik = None" and sl: "ch_slots ch ak = Some (Uninit n)"
    and ch': "ch' = ch\<lparr>ch_instances := (ch_instances ch)(ik \<mapsto> \<lparr>ci_bump = b, ci_main_authority = m, ci_join_authority = j,
        ci_coordinator_account = ak, ci_run_id = run_id\<rparr>),
      ch_slots := (ch_slots ch)(ak \<mapsto> Coord \<lparr>ca_version = CA_VERSION, ca_state = ?st, ca_nonce = 0\<rparr>)\<rparr>"
    using assms(2) by (cases "ch_slots ch ak"; cases "the (ch_slots ch ak)")
      (auto simp: init_coordinator_def need_Done Let_def)
  have st: "inst_inv ?st" by (rule zero_instance_inv)
  have fresh: "ci_coordinator_account i \<noteq> ak" if "ch_instances ch jk = Some i" for jk i
    using assms(1) sl that unfolding coord_inv_def by fastforce
  have "coord_inv E ch'" unfolding coord_inv_def
  proof (intro conjI allI impI, goal_cases)
    case (1 k a)
    then show ?case using assms(1) st by (cases "k = ak") (auto simp: ch' coord_inv_def)
  next
    case (2 k a)
    then show ?case using assms(1) st by (cases "k = ak") (auto simp: ch' coord_inv_def)
  next
    case (3 k a)
    show ?case
    proof (cases "k = ak")
      case False
      then have "ch_slots ch k = Some (Coord a)" using 3 by (simp add: ch')
      then obtain jk i where "ch_instances ch jk = Some i" "ci_coordinator_account i = k"
        using coord_inv_slot [OF assms(1)] by blast
      then show ?thesis using new by (intro exI [of _ jk] exI [of _ i]) (auto simp: ch')
    qed (auto simp: ch')
  next
    case (4 jk i)
    then show ?case using assms(1) f by (auto simp: ch' coord_inv_def split: if_splits)
  next
    case (5 jk i)
    then show ?case using assms(1) by (auto simp: ch' coord_inv_def split: if_splits)
  next
    case (6 jk i lk l)
    then show ?case using assms(1) fresh [of jk i] fresh [of lk l] by (auto simp: ch' coord_inv_def split: if_splits)
  qed
  moreover have "coord_mono ch ch'"
    using sl by (auto simp: ch' coord_mono_def)
  ultimately show ?thesis by blast
qed

lemma free_coordinator_inv:
  assumes "coord_inv E ch" and "free_coordinator E auth ik ak ch = Done ch' u"
  shows "coord_inv E ch' \<and> coord_mono ch ch'"
proof -
  obtain i where i: "ch_instances ch ik = Some i" "ci_coordinator_account i = ak"
    and ch': "ch' = ch\<lparr>ch_instances := (ch_instances ch)(ik := None), ch_slots := (ch_slots ch)(ak := None)\<rparr>"
    using assms(2) by (auto simp: free_coordinator_def)
  have other: "ci_coordinator_account j \<noteq> ak" if "ch_instances ch jk = Some j" "jk \<noteq> ik" for jk j
    using assms(1) i that unfolding coord_inv_def by blast
  have "coord_inv E ch'"
    using assms(1) i other unfolding coord_inv_def ch' by (auto split: if_splits) (metis option.inject)+
  moreover have "coord_mono ch ch'" by (auto simp: ch' coord_mono_def)
  ultimately show ?thesis by blast
qed

lemma coord_program_inv:
  assumes "coord_inv E ch" and "coord_program E cmd ch = Done ch' u"
  shows "coord_inv E ch' \<and> coord_mono ch ch'"
proof -
  have ok: "inst_inv (ca_state a)" if "ch_slots ch ak = Some (Coord a)" for ak a
    using assms(1) that by (auto simp: coord_inv_def)
  show ?thesis
  proof (cases cmd)
    case (InitCoordinator ak m j r v)
    then show ?thesis using init_coordinator_inv [OF assms(1)] assms(2) by auto
  next
    case (FreeCoordinator auth ik ak)
    then show ?thesis using free_coordinator_inv [OF assms(1)] assms(2) by auto
  next
    case (OwnerCall auth ik ak call)
    then show ?thesis using assms(2) rewrite_inv [OF assms(1)] owner_method_keeps [OF ok]
      by (fastforce simp: owner_instruction_def counted_instance_Done)
  next
    case (UserCall p ik ak call)
    then show ?thesis using assms(2) rewrite_inv [OF assms(1)] user_method_keeps [OF ok]
      by (fastforce simp: user_instruction_def counted_instance_Done)
  next
    case (UpdateClientVersion auth ik ak v)
    then obtain a w where a: "ch_slots ch ak = Some (Coord a)"
      and ch': "ch' = ch\<lparr>ch_slots := (ch_slots ch)(ak \<mapsto> Coord (a\<lparr>ca_state := (ca_state a)\<lparr>in_client_version := w\<rparr>\<rparr>))\<rparr>"
      using assms(2) by (cases "fs_try_from 96 v") (auto simp: update_client_version_def)
    show ?thesis unfolding ch' using ok [OF a] by (intro rewrite_inv [OF assms(1) a]) simp_all
  next
    case (JoinRun p au ik ak i clk)
    then show ?thesis using assms(2) rewrite_inv [OF assms(1)] inst_join_run_keeps [OF ok]
      by (fastforce simp: join_run_def counted_instance_Done)
  qed
qed

interpretation coordinator_program: on_chain_program "coord_program E" "coord_inv E" coord_mono for E
  using coord_program_inv coord_mono_refl coord_mono_trans by unfold_locales blast+

section \<open>Refinement of the coordinator\<close>

text \<open>A method of the instance drives the coordinator by a list of its commands.\<close>

definition by_commands :: "externs \<Rightarrow> instance_state \<Rightarrow> instance_state \<Rightarrow> bool" where
  "by_commands X s t \<longleftrightarrow>
     (\<exists>cmds. in_coordinator t = run_cmds (co_exec (solana_node_env X)) cmds (in_coordinator s))"

lemma by_commands_refl: "in_coordinator t = in_coordinator s \<Longrightarrow> by_commands X s t"
  unfolding by_commands_def by (rule exI [of _ "[]"]) simp

lemma by_commands_trans: "by_commands X s t \<Longrightarrow> by_commands X t u \<Longrightarrow> by_commands X s u"
  unfolding by_commands_def by (metis run_cmds_append)

lemma by_command:
  "co_exec (solana_node_env X) cmd (in_coordinator s) = Done (in_coordinator t) a \<Longrightarrow> by_commands X s t"
  unfolding by_commands_def by (rule exI [of _ "[cmd]"]) simp

lemma inst_tick_commands:
  assumes "inst_tick X clk s = Done t u"
  shows "by_commands X s t"
proof -
  obtain c r where c: "tick (solana_node_env X) (offered_clients s) (ck_unix_timestamp clk) (get_random_seed X clk)
      (in_coordinator s) = Done c r"
    and k: "(case r of Ticked \<Rightarrow> after_ticked ((reset_flags s)\<lparr>in_coordinator := c\<rparr>)
       | EpochEnd success \<Rightarrow> after_epoch_end ((reset_flags s)\<lparr>in_coordinator := c\<rparr>)) = Done t u"
    using assms by (auto simp: inst_tick_def call_coordinator_Done)
  have "in_coordinator t = c"
    using k by (auto simp: after_ticked_def after_epoch_end_def need_Done split: tick_result.splits if_splits)
  then show ?thesis
    by (intro by_command [of X "CmdTick (offered_clients s) (ck_unix_timestamp clk) (get_random_seed X clk)" s t "AnsTick r"])
      (simp add: c)
qed

lemma call_commands:
  assumes "call_coordinator f s k = Done t a"
    and "\<And>c r. f (in_coordinator s) = Done c r \<Longrightarrow> \<exists>b. co_exec (solana_node_env X) cmd (in_coordinator s) = Done c b"
    and "\<And>s' r. k s' r = Done t a \<Longrightarrow> by_commands X s' t"
  shows "by_commands X s t"
proof -
  obtain c r where c: "f (in_coordinator s) = Done c r" and k: "k (s\<lparr>in_coordinator := c\<rparr>) r = Done t a"
    using assms(1) by (auto simp: call_coordinator_Done)
  obtain b where "co_exec (solana_node_env X) cmd (in_coordinator s) = Done c b" using assms(2) [OF c] by blast
  then have "by_commands X s (s\<lparr>in_coordinator := c\<rparr>)" by (intro by_command) simp
  then show ?thesis using assms(3) [OF k] by (rule by_commands_trans)
qed

lemma tick_unless_halted_commands:
  "(if \<not> halted (in_coordinator s) then inst_tick X clk s else Done s ()) = Done t a \<Longrightarrow> by_commands X s t"
  by (auto split: if_splits intro: inst_tick_commands by_commands_refl)

lemma user_method_commands:
  assumes "user_method X p call s = Done t u"
  shows "by_commands X s t"
proof (cases call)
  case (CallTick clk)
  then show ?thesis using assms inst_tick_commands by simp
next
  case (CallWitness clk w)
  then obtain i where "call_coordinator (witness (solana_node_env X) i w (ck_unix_timestamp clk)) s (\<lambda>s _. inst_tick X clk s) = Done t u"
    using assms by (auto simp: inst_witness_def with_signer_Done)
  then show ?thesis by (rule call_commands [where cmd = "CmdWitness i w (ck_unix_timestamp clk)"]) (auto intro: inst_tick_commands)
next
  case (CallWarmupWitness clk w)
  then obtain i where "call_coordinator (warmup_witness (solana_node_env X) i w (ck_unix_timestamp clk) (get_random_seed X clk)) s
      (\<lambda>s _. inst_tick X clk s) = Done t u"
    using assms by (auto simp: inst_warmup_witness_def with_signer_Done)
  then show ?thesis
    by (rule call_commands [where cmd = "CmdWarmupWitness i w (ck_unix_timestamp clk) (get_random_seed X clk)"])
      (auto intro: inst_tick_commands)
next
  case (CallHealthCheck clk j pf)
  then obtain i where "call_coordinator (health_check (solana_node_env X) i [(j, pf)]) s (\<lambda>s _. inst_tick X clk s) = Done t u"
    using assms by (auto simp: inst_health_check_def with_signer_Done)
  then show ?thesis by (rule call_commands [where cmd = "CmdHealthCheck i [(j, pf)]"]) (auto intro: inst_tick_commands)
next
  case (CallCheckpoint clk repo)
  then obtain i n where "call_coordinator (checkpoint (solana_node_env X) i (of_nat n) repo) s
      (\<lambda>s _. if \<not> halted (in_coordinator s) then inst_tick X clk s else Done s ()) = Done t u"
    using assms by (auto simp: inst_checkpoint_def with_signer_Done split: option.splits)
  then show ?thesis
    by (rule call_commands [where cmd = "CmdCheckpoint i (of_nat n) repo"]) (auto intro: tick_unless_halted_commands)
qed

lemma by_commands_inv:
  "by_commands X s t \<Longrightarrow> co_inv (solana_node_env X) (in_coordinator s) \<Longrightarrow> co_inv (solana_node_env X) (in_coordinator t)"
  by (auto simp: by_commands_def intro: coord.run_inv)

lemma inst_join_run_commands:
  assumes "inst_inv s" and "inst_join_run X clk i s = Done t a"
  shows "by_commands X s t"
proof -
  obtain s' where "registers i s s'"
    and k: "(if \<not> halted (in_coordinator s') then inst_tick X clk s' else Done s' ()) = Done t a"
    using inst_join_run_Done [OF assms] by metis
  then have "by_commands X s s'" by (intro by_commands_refl) (simp add: registers_def)
  then show ?thesis using tick_unless_halted_commands [OF k] by (rule by_commands_trans)
qed

lemma set_paused_commands:
  assumes "inst_set_paused X clk paused s = Done t a" and "co_run_state (in_coordinator s) \<noteq> Uninitialized"
  shows "by_commands X s t"
proof (cases paused)
  case True
  then have "call_coordinator (pause (ck_unix_timestamp clk)) s (\<lambda>s _. Done s ()) = Done t a"
    using assms(1) by (simp add: inst_set_paused_def)
  then show ?thesis
    by (rule call_commands [where cmd = "CmdPause (ck_unix_timestamp clk)"]) (auto intro: by_commands_refl)
next
  case False
  have "initialize_run (in_coordinator s) = in_coordinator s" using assms(2) by (simp add: initialize_run_def)
  then have "call_coordinator (resume (ck_unix_timestamp clk)) s (\<lambda>s _.
      need (bump_next_active s) (\<lambda>s. inst_tick X clk s)) = Done t a"
    using assms(1) False by (auto simp: inst_set_paused_def Let_def)
  then show ?thesis
  proof (rule call_commands [where cmd = "CmdResume (ck_unix_timestamp clk)"])
    fix s' r assume "need (bump_next_active s') (\<lambda>s. inst_tick X clk s) = Done t a"
    then obtain s'' where "bump_next_active s' = Some s''" "inst_tick X clk s'' = Done t a" by (auto simp: need_Done)
    moreover have "by_commands X s' s''"
      using \<open>bump_next_active s' = Some s''\<close> by (intro by_commands_refl) (auto simp: bump_next_active_def)
    ultimately show "by_commands X s' t" using inst_tick_commands by_commands_trans by blast
  qed auto
qed

section \<open>Starting a run\<close>

lemma initialize_run_inv:
  assumes "co_base c" and "config_check (co_config c)" and "co_run_state c = Uninitialized"
    and "pr_epoch_start_data_index (co_progress c) = 0"
  shows "co_inv E (initialize_run c)"
  using assms by (simp add: co_inv_def phase_ok_def at_rest_def initialize_run_def progress_check_def co_base_def)

lemma first_start_inv:
  assumes "inst_inv s" and "co_run_state (in_coordinator s) = Uninitialized"
    and "pr_epoch_start_data_index (co_progress (in_coordinator s)) = 0"
    and "inst_set_paused X clk False s = Done t u"
  shows "co_inv (solana_node_env X) (in_coordinator t)"
proof -
  let ?s = "s\<lparr>in_coordinator := initialize_run (in_coordinator s)\<rparr>"
  have cfg: "config_check (co_config (in_coordinator s))" using assms(4) by (simp add: inst_set_paused_def)
  have i: "co_inv (solana_node_env X) (in_coordinator ?s)"
    using initialize_run_inv [OF roster_base [OF inst_inv_roster [OF assms(1)]] cfg assms(2,3)] by simp
  have idem: "initialize_run (initialize_run c) = initialize_run c" for c by (simp add: initialize_run_def)
  have cm: "co_config (initialize_run c) = co_config c" "co_model (initialize_run c) = co_model c" for c
    by (simp_all add: initialize_run_def)
  have "inst_set_paused X clk False ?s = Done t u" using assms(4) by (simp add: inst_set_paused_def Let_def idem cm)
  then have "by_commands X ?s t" by (rule set_paused_commands) (simp add: initialize_run_def assms(2))
  then show ?thesis using i by (rule by_commands_inv)
qed

section \<open>Who may change what\<close>

definition settings_changed :: "instance_state \<Rightarrow> instance_state \<Rightarrow> bool" where
  "settings_changed s t \<longleftrightarrow> co_config (in_coordinator t) \<noteq> co_config (in_coordinator s) \<or>
     in_metadata t \<noteq> in_metadata s \<or> in_client_version t \<noteq> in_client_version s \<or>
     st_future_epoch_rates (in_clients_state t) \<noteq> st_future_epoch_rates (in_clients_state s)"

definition joined :: "instance_state \<Rightarrow> instance_state \<Rightarrow> pubkey \<Rightarrow> bool" where
  "joined s t p \<longleftrightarrow> p \<in> set (map sc_signer (in_clients t)) \<and> p \<notin> set (map sc_signer (in_clients s))"

lemma same_settings_unchanged: "same_settings s t \<Longrightarrow> \<not> settings_changed s t \<and> (\<forall>p. \<not> joined s t p)"
proof -
  assume a: "same_settings s t"
  then have "set (map sc_signer (in_clients t)) = set (map sc_signer (in_clients s))" by (simp only: same_settings_def)
  then show ?thesis using a by (auto simp: same_settings_def settings_changed_def joined_def)
qed

lemma owner_method_changes:
  assumes "inst_inv s" and "owner_method X call s = Done t u"
  shows "(\<forall>p. \<not> joined s t p) \<and> (co_config (in_coordinator t) \<noteq> co_config (in_coordinator s) \<longrightarrow> halted (in_coordinator s))"
proof (cases call)
  case (CallUpdate md cfg m pr)
  then show ?thesis using assms(2)
    by (auto simp: inst_update_def and_then_Done joined_def Let_def split: if_splits option.splits)
next
  case (CallSetFutureEpochRates e sl)
  then show ?thesis using assms(2) by (auto simp: inst_set_future_epoch_rates_def joined_def Let_def)
next
  case (CallSetPaused clk paused)
  then have "keeps_run s t" using inst_set_paused_keeps [OF assms(1)] assms(2) by auto
  then show ?thesis using same_settings_unchanged by (auto simp: same_settings_def)
qed

lemma join_run_changes:
  assumes "inst_inv s" and "inst_join_run X clk i s = Done t u"
  shows "\<not> settings_changed s t \<and> (\<forall>p. joined s t p \<longrightarrow> p = ci_signer i)"
proof -
  obtain s' where r: "registers i s s'" and k: "keeps_run s' t" using inst_join_run_Done [OF assms] by metis
  have "set (map sc_signer (in_clients t)) = set (map sc_signer (in_clients s'))" using k by (simp only: same_settings_def)
  then show ?thesis using r k
    by (auto simp: registers_def same_settings_def settings_changed_def joined_def)
qed

section \<open>Properties\<close>


definition sample_run_env :: chain_env where
  "sample_run_env = table_env [((COORDINATOR_ID, concat (coordinator_seeds [114])), 50)] 64"

definition empty_run_chain :: coord_chain where
  "empty_run_chain = \<lparr>ch_auths = Map.empty, ch_instances = Map.empty, ch_slots = [60 \<mapsto> Uninit 64]\<rparr>"

lemma empty_run_chain_inv: "coord_inv E empty_run_chain"
  by (simp add: coord_inv_def empty_run_chain_def)



text \<open>The sample run after its creation: owned by 1, joined through 2.\<close>

definition sample_run_instance :: coordinator_instance where
  "sample_run_instance = \<lparr>ci_bump = 255, ci_main_authority = 1, ci_join_authority = 2, ci_coordinator_account = 60, ci_run_id = [114]\<rparr>"

definition sample_run_account :: coordinator_account where
  "sample_run_account = \<lparr>ca_version = CA_VERSION, ca_state = sample_instance False, ca_nonce = 0\<rparr>"

definition sample_run_chain :: coord_chain where
  "sample_run_chain = \<lparr>ch_auths = Map.empty, ch_instances = [50 \<mapsto> sample_run_instance],
     ch_slots = [60 \<mapsto> Coord sample_run_account]\<rparr>"

lemmas sample_run_defs = sample_run_chain_def sample_run_instance_def sample_run_account_def sample_run_env_def table_env_def

lemma sample_run_chain_inv: "coord_inv sample_run_env sample_run_chain"
  using sample_instance_inv [of False] by (simp add: coord_inv_def sample_run_defs)



definition sample_unstarted :: instance_state where
  "sample_unstarted = (sample_instance False)\<lparr>in_coordinator := fresh Uninitialized sample_config sample_llm\<rparr>"


end
