(* ===== verification/Treasurer.thy ===== *)
theory Treasurer
  imports Coordinator_Guard
begin

text \<open>
  The treasurer program (\<open>src/architectures/decentralized/solana-treasurer\<close>): it owns the runs it creates in
  the coordinator program and pays out collateral for the points that the coordinator has recorded. Its
  instructions call the coordinator program, so its chain state extends that program's; a run's signature is
  the program's own (a derived address), checked through its seeds.
\<close>

section \<open>State\<close>

definition TREASURER_ID :: pubkey where
  "TREASURER_ID = 96962398711266557588494238435467613886091604330281843710049167774525014134220"

record treasurer_run =
  tr_bump :: u8
  tr_index :: u64
  tr_main_authority :: pubkey
  tr_join_authority :: pubkey
  tr_coordinator_account :: pubkey
  tr_coordinator_instance :: pubkey
  tr_collateral_mint :: pubkey
  tr_total_claimed_collateral_amount :: u64
  tr_total_claimed_earned_points :: u64

record participant =
  pa_bump :: u8
  pa_claimed_collateral_amount :: u64
  pa_claimed_earned_points :: u64

text \<open>\<open>b"Run"\<close> and \<open>b"Participant"\<close>\<close>

definition RUN_SEEDS_PREFIX :: bytes where "RUN_SEEDS_PREFIX = [82, 117, 110]"

definition PARTICIPANT_SEEDS_PREFIX :: bytes where
  "PARTICIPANT_SEEDS_PREFIX = [80, 97, 114, 116, 105, 99, 105, 112, 97, 110, 116]"

definition run_seeds :: "u64 \<Rightarrow> bytes list" where
  "run_seeds index = [RUN_SEEDS_PREFIX, u64_to_le_bytes index]"

definition participant_seeds :: "pubkey \<Rightarrow> pubkey \<Rightarrow> bytes list" where
  "participant_seeds run user = [PARTICIPANT_SEEDS_PREFIX, pubkey_bytes run, pubkey_bytes user]"

definition find_run :: "chain_env \<Rightarrow> u64 \<Rightarrow> pubkey option" where
  "find_run E index = map_option fst (ce_find_pda E TREASURER_ID (run_seeds index))"

definition find_participant :: "chain_env \<Rightarrow> pubkey \<Rightarrow> pubkey \<Rightarrow> pubkey option" where
  "find_participant E run user = map_option fst (ce_find_pda E TREASURER_ID (participant_seeds run user))"

record treas_chain = coord_chain +
  ch_tokens :: tokens
  ch_mints :: "pubkey \<Rightarrow> bool"
  ch_runs :: "pubkey \<rightharpoonup> treasurer_run"
  ch_participants :: "pubkey \<rightharpoonup> participant"

datatype treasurer_error = InvalidParameter | TreasurerRunIdInvalidLength

type_synonym 'z treas_exec =
  "('z treas_chain_scheme, (treasurer_error + program_error) tx_error, unit) exec"

text \<open>The error of a call into the coordinator program.\<close>

abbreviation coordinator_cpi ::
    "('z treas_chain_scheme, program_error tx_error, unit) exec \<Rightarrow> 'z treas_exec" where
  "coordinator_cpi \<equiv> cpi (map_tx_error Inr)"

section \<open>Runs\<close>

definition run_create ::
    "chain_env \<Rightarrow> u64 \<Rightarrow> bytes \<Rightarrow> bytes \<Rightarrow> pubkey \<Rightarrow> pubkey \<Rightarrow> pubkey \<Rightarrow> pubkey \<Rightarrow> pubkey \<Rightarrow>
     'z treas_chain_scheme \<Rightarrow> 'z treas_exec" where
  "run_create E index run_id client_version main_authority join_authority mint ikey account ch =
     need (ce_find_pda E TREASURER_ID (run_seeds index)) (\<lambda>(run, bump).
     require (ch_runs ch run = None) AlreadyInUse ch
     (require (ch_mints ch mint) AccountMissing ch
     (require (ch_tokens ch (ce_ata E run mint) = None) AlreadyInUse ch
     (require (length run_id \<le> SOLANA_RUN_ID_MAX_LEN) (Custom (Inl TreasurerRunIdInvalidLength)) ch
     (let ch = ch\<lparr>ch_tokens := (ch_tokens ch)(ce_ata E run mint \<mapsto> empty_token_account mint run),
                  ch_runs := (ch_runs ch)(run \<mapsto>
                    \<lparr>tr_bump = bump, tr_index = index, tr_main_authority = main_authority,
                     tr_join_authority = join_authority, tr_coordinator_account = account,
                     tr_coordinator_instance = ikey, tr_collateral_mint = mint,
                     tr_total_claimed_collateral_amount = 0, tr_total_claimed_earned_points = 0\<rparr>)\<rparr> in
      require (find_coordinator_instance E run_id = Some ikey) ConstraintViolated ch
        (coordinator_cpi (init_coordinator E account run join_authority run_id client_version ch)))))))"

text \<open>A call signed with the run's seeds.\<close>

definition run_signs :: "chain_env \<Rightarrow> pubkey \<Rightarrow> treasurer_run \<Rightarrow> bool" where
  "run_signs E run r \<longleftrightarrow> ce_create_pda E TREASURER_ID (run_seeds (tr_index r)) (tr_bump r) = Some run"

definition run_owner_call ::
    "chain_env \<Rightarrow> pubkey \<Rightarrow> treasurer_run \<Rightarrow> owner_call \<Rightarrow> 'z treas_chain_scheme \<Rightarrow> 'z treas_exec" where
  "run_owner_call E run r call ch =
     require (run_signs E run r) ConstraintViolated ch
       (coordinator_cpi (owner_instruction E run (tr_coordinator_instance r) (tr_coordinator_account r) call ch))"

record run_update_params =
  rp_metadata :: "run_metadata option"
  rp_config :: "coordinator_config option"
  rp_model :: "model option"
  rp_progress :: "coordinator_progress option"
  rp_epoch_earning_rate_total_shared :: "u64 option"
  rp_epoch_slashing_rate_per_client :: "u64 option"
  rp_paused :: "bool option"
  rp_client_version :: "bytes option"

text \<open>The four calls of \<open>run_update\<close>, each made only when one of its parameters is given.\<close>

definition update_settings ::
    "chain_env \<Rightarrow> pubkey \<Rightarrow> treasurer_run \<Rightarrow> run_update_params \<Rightarrow> 'z treas_chain_scheme \<Rightarrow> 'z treas_exec" where
  "update_settings E run r p ch =
     (if rp_metadata p \<noteq> None \<or> rp_config p \<noteq> None \<or> rp_model p \<noteq> None \<or> rp_progress p \<noteq> None
      then run_owner_call E run r (CallUpdate (rp_metadata p) (rp_config p) (rp_model p) (rp_progress p)) ch
      else Done ch ())"

definition update_rates ::
    "chain_env \<Rightarrow> pubkey \<Rightarrow> treasurer_run \<Rightarrow> run_update_params \<Rightarrow> 'z treas_chain_scheme \<Rightarrow> 'z treas_exec" where
  "update_rates E run r p ch =
     (if rp_epoch_earning_rate_total_shared p \<noteq> None \<or> rp_epoch_slashing_rate_per_client p \<noteq> None
      then run_owner_call E run r
             (CallSetFutureEpochRates (rp_epoch_earning_rate_total_shared p) (rp_epoch_slashing_rate_per_client p)) ch
      else Done ch ())"

definition update_paused ::
    "chain_env \<Rightarrow> clock \<Rightarrow> pubkey \<Rightarrow> treasurer_run \<Rightarrow> run_update_params \<Rightarrow> 'z treas_chain_scheme \<Rightarrow> 'z treas_exec" where
  "update_paused E clk run r p ch =
     (case rp_paused p of None \<Rightarrow> Done ch () | Some paused \<Rightarrow> run_owner_call E run r (CallSetPaused clk paused) ch)"

definition update_version ::
    "chain_env \<Rightarrow> pubkey \<Rightarrow> treasurer_run \<Rightarrow> run_update_params \<Rightarrow> 'z treas_chain_scheme \<Rightarrow> 'z treas_exec" where
  "update_version E run r p ch =
     (case rp_client_version p of None \<Rightarrow> Done ch ()
      | Some v \<Rightarrow> require (run_signs E run r) ConstraintViolated ch
          (coordinator_cpi (update_client_version E run (tr_coordinator_instance r) (tr_coordinator_account r) v ch)))"

definition run_update ::
    "chain_env \<Rightarrow> clock \<Rightarrow> pubkey \<Rightarrow> pubkey \<Rightarrow> pubkey \<Rightarrow> pubkey \<Rightarrow> run_update_params \<Rightarrow>
     'z treas_chain_scheme \<Rightarrow> 'z treas_exec" where
  "run_update E clk authority run ikey account p ch =
     with_account run (ch_runs ch) ch (\<lambda>r.
     require (tr_main_authority r = authority) ConstraintViolated ch
     (require (tr_coordinator_instance r = ikey) ConstraintViolated ch
     (require (tr_coordinator_account r = account) ConstraintViolated ch
     (and_then (update_settings E run r p ch) (\<lambda>ch _.
      and_then (update_rates E run r p ch) (\<lambda>ch _.
      and_then (update_paused E clk run r p ch) (\<lambda>ch _.
      update_version E run r p ch)))))))"

section \<open>Participants\<close>

definition participant_create ::
    "chain_env \<Rightarrow> pubkey \<Rightarrow> pubkey \<Rightarrow> 'z treas_chain_scheme \<Rightarrow> 'z treas_exec" where
  "participant_create E user run ch =
     with_account run (ch_runs ch) ch (\<lambda>r.
     need (ce_find_pda E TREASURER_ID (participant_seeds run user)) (\<lambda>(key, bump).
     require (ch_participants ch key = None) AlreadyInUse ch
       (Done (ch\<lparr>ch_participants := (ch_participants ch)(key \<mapsto>
          \<lparr>pa_bump = bump, pa_claimed_collateral_amount = 0, pa_claimed_earned_points = 0\<rparr>)\<rparr>) ())))"

text \<open>The bookkeeping of a claim and the transfer that follows it.\<close>

definition claim_points ::
    "chain_env \<Rightarrow> pubkey \<Rightarrow> treasurer_run \<Rightarrow> pubkey \<Rightarrow> participant \<Rightarrow> pubkey \<Rightarrow> u64 \<Rightarrow> u64 \<Rightarrow>
     'z treas_chain_scheme \<Rightarrow> 'z treas_exec" where
  "claim_points E run r key p user_collateral earned points ch =
     need (checked_sub earned (pa_claimed_earned_points p)) (\<lambda>unclaimed.
     require (points \<le> unclaimed) (Custom (Inl InvalidParameter)) ch
     (need (checked_add (pa_claimed_collateral_amount p) points) (\<lambda>pc.
      need (checked_add (pa_claimed_earned_points p) points) (\<lambda>pe.
      need (checked_add (tr_total_claimed_collateral_amount r) points) (\<lambda>rc.
      need (checked_add (tr_total_claimed_earned_points r) points) (\<lambda>re.
      require (run_signs E run r) ConstraintViolated ch
      (case ce_transfer E (ch_tokens ch) (ce_ata E run (tr_collateral_mint r)) user_collateral run points of
         None \<Rightarrow> Fail ch TransferFailed
       | Some ts \<Rightarrow> Done (ch\<lparr>ch_tokens := ts,
            ch_runs := (ch_runs ch)(run \<mapsto> r\<lparr>tr_total_claimed_collateral_amount := rc, tr_total_claimed_earned_points := re\<rparr>),
            ch_participants := (ch_participants ch)(key \<mapsto>
              p\<lparr>pa_claimed_collateral_amount := pc, pa_claimed_earned_points := pe\<rparr>)\<rparr>) ())))))))"

definition participant_claim ::
    "chain_env \<Rightarrow> pubkey \<Rightarrow> pubkey \<Rightarrow> pubkey \<Rightarrow> pubkey \<Rightarrow> pubkey \<Rightarrow> u64 \<Rightarrow> 'z treas_chain_scheme \<Rightarrow> 'z treas_exec" where
  "participant_claim E user user_collateral run account key points ch =
     with_account run (ch_runs ch) ch (\<lambda>r.
     with_user_token user_collateral (tr_collateral_mint r) user (ch_tokens ch) ch (\<lambda>_.
     require (tr_coordinator_account r = account) ConstraintViolated ch
     (with_associated_token E run (tr_collateral_mint r) (ch_tokens ch) ch (\<lambda>_.
     with_account account (ch_slots ch) ch (\<lambda>slot.
     case slot of
       Uninit _ \<Rightarrow> Fail ch AccountMissing
     | Coord a \<Rightarrow>
         require (ca_version a = CA_VERSION) ConstraintViolated ch
         (with_account key (ch_participants ch) ch (\<lambda>p.
          require (ce_create_pda E TREASURER_ID (participant_seeds run user) (pa_bump p) = Some key) ConstraintViolated ch
          (claim_points E run r key p user_collateral
             (earned_points user (st_clients (in_clients_state (ca_state a)))) points ch))))))))"

datatype treas_cmd =
    RunCreate u64 bytes bytes pubkey pubkey pubkey pubkey pubkey
  | RunUpdate clock pubkey pubkey pubkey pubkey run_update_params
  | ParticipantCreate pubkey pubkey
  | ParticipantClaim pubkey pubkey pubkey pubkey pubkey u64

fun treas_program :: "chain_env \<Rightarrow> treas_cmd \<Rightarrow> 'z treas_chain_scheme \<Rightarrow> 'z treas_exec" where
  "treas_program E (RunCreate index run_id version main join mint ikey account) ch =
     run_create E index run_id version main join mint ikey account ch"
| "treas_program E (RunUpdate clk authority run ikey account p) ch = run_update E clk authority run ikey account p ch"
| "treas_program E (ParticipantCreate user run) ch = participant_create E user run ch"
| "treas_program E (ParticipantClaim user uc run account key points) ch = participant_claim E user uc run account key points ch"

text \<open>Everything that can happen on the chain of the three programs.\<close>

datatype chain_cmd = OnAuthorizer auth_cmd | OnCoordinator coord_cmd | OnTreasurer treas_cmd

datatype chain_error = AuthorizerFailed "authorizer_error tx_error" | CoordinatorFailed "program_error tx_error"
  | TreasurerFailed "(treasurer_error + program_error) tx_error"

fun chain_program :: "chain_env \<Rightarrow> chain_cmd \<Rightarrow> 'z treas_chain_scheme \<Rightarrow> ('z treas_chain_scheme, chain_error, unit) exec" where
  "chain_program E (OnAuthorizer c) ch = cpi AuthorizerFailed (auth_exec E c ch)"
| "chain_program E (OnCoordinator c) ch = cpi CoordinatorFailed (coord_program E c ch)"
| "chain_program E (OnTreasurer c) ch = cpi TreasurerFailed (treas_program E c ch)"

end
