(* ===== verification/Account_Sums.thy ===== *)
theory Account_Sums
  imports Psyche_Prelude
begin

text \<open>
  Sums over the accounts of a program that belong together (the participants of a run, the lenders of a
  pool), and how creating or rewriting one account changes them.
\<close>

definition sum_over :: "('k \<Rightarrow> bool) \<Rightarrow> ('v \<Rightarrow> nat) \<Rightarrow> ('k \<rightharpoonup> 'v) \<Rightarrow> nat" where
  "sum_over P f m = (\<Sum>k \<in> {k \<in> dom m. P k}. f (the (m k)))"

definition value_at :: "('v \<Rightarrow> nat) \<Rightarrow> ('k \<rightharpoonup> 'v) \<Rightarrow> 'k \<Rightarrow> nat" where
  "value_at f m k = (case m k of None \<Rightarrow> 0 | Some v \<Rightarrow> f v)"

lemma value_at_simps [simp]:
  "m k = None \<Longrightarrow> value_at f m k = 0" "m k = Some v \<Longrightarrow> value_at f m k = f v"
  by (simp_all add: value_at_def)

lemma sum_over_other: "\<not> P k \<Longrightarrow> sum_over P f (m(k := x)) = sum_over P f m"
  unfolding sum_over_def by (intro sum.cong) (auto split: if_splits)

lemma sum_over_split:
  assumes "finite (dom m)" and "P k"
  shows "sum_over P f m = value_at f m k + (\<Sum>j \<in> {j \<in> dom m. P j} - {k}. f (the (m j)))"
proof (cases "m k")
  case None
  then have "{j \<in> dom m. P j} - {k} = {j \<in> dom m. P j}" by auto
  then show ?thesis using None by (simp add: sum_over_def)
next
  case (Some v)
  then have "k \<in> {j \<in> dom m. P j}" using assms(2) by auto
  then show ?thesis using Some assms(1) unfolding sum_over_def by (subst sum.remove [of _ k]) auto
qed

lemma sum_over_upd:
  assumes "finite (dom m)" and "P k"
  shows "sum_over P f (m(k \<mapsto> v)) + value_at f m k = sum_over P f m + f v"
proof -
  let ?m = "m(k \<mapsto> v)"
  have "(\<Sum>j \<in> {j \<in> dom ?m. P j} - {k}. f (the (?m j))) = (\<Sum>j \<in> {j \<in> dom m. P j} - {k}. f (the (m j)))"
    by (intro sum.cong) (auto split: if_splits)
  moreover have "finite (dom ?m)" using assms(1) by simp
  ultimately show ?thesis
    using sum_over_split [OF assms(1), of P k f] sum_over_split [of ?m P k f] assms(2) by simp
qed

lemma sum_over_new:
  assumes "finite (dom m)" and "m k = None" and "f v = 0"
  shows "sum_over P f (m(k \<mapsto> v)) = sum_over P f m"
proof (cases "P k")
  case True
  then show ?thesis using sum_over_upd [of m P k f v] True assms by simp
qed (simp add: sum_over_other)

lemma sum_over_empty: "(\<And>k v. m k = Some v \<Longrightarrow> \<not> P k) \<Longrightarrow> sum_over P f m = 0"
  unfolding sum_over_def by (intro sum.neutral) auto

text \<open>One value never exceeds the sum, and pointwise bounds add up.\<close>

lemma sum_over_ge:
  "finite (dom m) \<Longrightarrow> P k \<Longrightarrow> m k = Some v \<Longrightarrow> f v \<le> sum_over P f m"
  using sum_over_split [of m P k f] by simp

lemma sum_over_mono:
  "(\<And>k v. m k = Some v \<Longrightarrow> P k \<Longrightarrow> f v \<le> g v) \<Longrightarrow> sum_over P f m \<le> sum_over P g m"
  unfolding sum_over_def by (intro sum_mono) auto

text \<open>
  Pro-rata shares rounded down: all shares but one, plus that one, do not exceed the amount distributed.
\<close>

lemma prorata_rest:
  assumes "finite (dom m)" and "P k" and "m k = Some v" and "sum_over P d m = D" and "0 < D"
    and "\<And>j w. m j = Some w \<Longrightarrow> P j \<Longrightarrow> c w \<le> R * d w div D"
  shows "sum_over P c m + (R * d v div D - c v) \<le> R"
proof -
  let ?K = "{j \<in> dom m. P j} - {k}"
  have "(\<Sum>j \<in> ?K. c (the (m j))) \<le> (\<Sum>j \<in> ?K. R * d (the (m j)) div D)"
    using assms(6) by (intro sum_mono) auto
  also have "\<dots> * D \<le> R * (\<Sum>j \<in> ?K. d (the (m j)))"
    unfolding sum_distrib_right sum_distrib_left by (intro sum_mono) simp
  finally have rest: "(\<Sum>j \<in> ?K. c (the (m j))) * D \<le> R * (\<Sum>j \<in> ?K. d (the (m j)))"
    using assms(5) by (meson mult_le_mono1 order_trans)
  have D: "D = d v + (\<Sum>j \<in> ?K. d (the (m j)))"
    using sum_over_split [of m P k d] assms(1-4) by simp
  have "((\<Sum>j \<in> ?K. c (the (m j))) + R * d v div D) * D \<le> R * D"
  proof -
    have "R * d v div D * D \<le> R * d v" by (rule div_times_less_eq_dividend)
    then have "((\<Sum>j \<in> ?K. c (the (m j))) + R * d v div D) * D \<le> R * (\<Sum>j \<in> ?K. d (the (m j))) + R * d v"
      using rest unfolding add_mult_distrib by (rule add_mono [rotated])
    also have "\<dots> = R * D" using arg_cong [OF D, of "\<lambda>x. R * x"] by (simp add: add_mult_distrib2)
    finally show ?thesis .
  qed
  then have "(\<Sum>j \<in> ?K. c (the (m j))) + R * d v div D \<le> R" using assms(5) by simp
  moreover have "c v \<le> R * d v div D" using assms(2,3,6) by blast
  ultimately show ?thesis using sum_over_split [of m P k c] assms(1-3) by simp
qed

end
