(* ===== verification/Treasurer_Props.thy ===== *)
theory Treasurer_Props
  imports Treasurer Account_Sums
begin

text \<open>
  The treasurer pays every point at most once: what a participant has claimed never exceeds the points the
  coordinator has recorded for its wallet, and the totals of a run are the sums over its participants,
  whatever the three programs do in between.
\<close>

section \<open>Sums of claims\<close>

text \<open>The addresses of the participants of a run, and the points claimed through them.\<close>

definition participant_of :: "chain_env \<Rightarrow> pubkey \<Rightarrow> pubkey \<Rightarrow> bool" where
  "participant_of E run k \<longleftrightarrow> (\<exists>u b. ce_find_pda E TREASURER_ID (participant_seeds run u) = Some (k, b))"

definition claimed_points :: "chain_env \<Rightarrow> (pubkey \<rightharpoonup> participant) \<Rightarrow> pubkey \<Rightarrow> nat" where
  "claimed_points E parts run = sum_over (participant_of E run) (\<lambda>p. unat (pa_claimed_earned_points p)) parts"

section \<open>The invariant\<close>

abbreviation earned_in :: "coordinator_account \<Rightarrow> pubkey \<Rightarrow> u64" where
  "earned_in a user \<equiv> earned_points user (in_clients (ca_state a))"

definition run_ok :: "chain_env \<Rightarrow> 'z treas_chain_scheme \<Rightarrow> pubkey \<Rightarrow> treasurer_run \<Rightarrow> bool" where
  "run_ok E ch run r \<longleftrightarrow>
     ce_find_pda E TREASURER_ID (run_seeds (tr_index r)) = Some (run, tr_bump r) \<and>
     (\<forall>n. ch_slots ch (tr_coordinator_account r) \<noteq> Some (Uninit n)) \<and>
     unat (tr_total_claimed_earned_points r) = claimed_points E (ch_participants ch) run \<and>
     tr_total_claimed_collateral_amount r = tr_total_claimed_earned_points r"

definition participant_ok :: "chain_env \<Rightarrow> 'z treas_chain_scheme \<Rightarrow> pubkey \<Rightarrow> participant \<Rightarrow> bool" where
  "participant_ok E ch key p \<longleftrightarrow>
     pa_claimed_collateral_amount p = pa_claimed_earned_points p \<and>
     (\<exists>run user r. ce_find_pda E TREASURER_ID (participant_seeds run user) = Some (key, pa_bump p) \<and>
        ch_runs ch run = Some r \<and>
        (\<forall>a. ch_slots ch (tr_coordinator_account r) = Some (Coord a) \<longrightarrow>
           pa_claimed_earned_points p \<le> earned_in a user))"

definition treas_inv :: "chain_env \<Rightarrow> 'z treas_chain_scheme \<Rightarrow> bool" where
  "treas_inv E ch \<longleftrightarrow> coord_inv E ch \<and> finite (dom (ch_participants ch)) \<and>
     (\<forall>run r. ch_runs ch run = Some r \<longrightarrow> run_ok E ch run r) \<and>
     (\<forall>key p. ch_participants ch key = Some p \<longrightarrow> participant_ok E ch key p)"

lemma treas_inv_parts:
  assumes "treas_inv E ch"
  shows "coord_inv E ch" and "finite (dom (ch_participants ch))"
    and "ch_runs ch run = Some r \<Longrightarrow> run_ok E ch run r"
    and "ch_participants ch key = Some p \<Longrightarrow> participant_ok E ch key p"
  using assms by (simp_all add: treas_inv_def)

text \<open>The address of a participant determines its run and its wallet.\<close>

lemma participant_address_unique:
  assumes "pda_ok E" and "ce_find_pda E TREASURER_ID (participant_seeds run u) = Some (k, b)"
    and "ce_create_pda E TREASURER_ID (participant_seeds run' u') b' = Some k"
  shows "run = run' \<and> u = u' \<and> b = b'"
proof -
  have "concat (participant_seeds run u) = concat (participant_seeds run' u') \<and> b = b'"
    using create_inj [OF assms(1) find_create [OF assms(1,2)] assms(3)] .
  then show ?thesis unfolding participant_seeds_def seeds_two_keys by blast
qed

lemma find_address_unique:
  assumes "pda_ok E" and "ce_find_pda E TREASURER_ID (participant_seeds run u) = Some (k, b)"
    and "ce_find_pda E TREASURER_ID (participant_seeds run' u') = Some (k, b')"
  shows "run = run' \<and> u = u'"
  using participant_address_unique [OF assms(1,2) find_create [OF assms(1,3)]] by blast

section \<open>Frames\<close>

text \<open>Steps that leave runs and participants alone and only make points grow.\<close>

lemma participant_ok_frame:
  assumes "participant_ok E ch key p" and "coord_mono ch ch'" and "ch_runs ch' = ch_runs ch"
    and "\<And>run r. ch_runs ch run = Some r \<Longrightarrow> run_ok E ch run r"
  shows "participant_ok E ch' key p"
proof -
  obtain run user r where f: "ce_find_pda E TREASURER_ID (participant_seeds run user) = Some (key, pa_bump p)"
    and r: "ch_runs ch run = Some r"
    and e: "\<And>a. ch_slots ch (tr_coordinator_account r) = Some (Coord a) \<Longrightarrow> pa_claimed_earned_points p \<le> earned_in a user"
    using assms(1) by (auto simp: participant_ok_def)
  have ok: "ch_slots ch (tr_coordinator_account r) \<noteq> Some (Uninit n)" for n
    using assms(4) [OF r] by (simp add: run_ok_def)
  have "pa_claimed_earned_points p \<le> earned_in b user" if b: "ch_slots ch' (tr_coordinator_account r) = Some (Coord b)" for b
  proof -
    obtain x where x: "ch_slots ch (tr_coordinator_account r) = Some x"
      using assms(2) b by (cases "ch_slots ch (tr_coordinator_account r)") (auto simp: coord_mono_def)
    then obtain a where a: "ch_slots ch (tr_coordinator_account r) = Some (Coord a)" using ok by (cases x) auto
    then have "earned_in a user \<le> earned_in b user"
      using coord_mono_slot [OF assms(2) a b] by (auto simp: inst_mono_def points_grow_def)
    then show ?thesis using e [OF a] by simp
  qed
  then show ?thesis using assms(1,3) f r by (auto simp: participant_ok_def)
qed

lemma run_ok_frame:
  assumes "run_ok E ch run r" and "coord_mono ch ch'" and "ch_participants ch' = ch_participants ch"
  shows "run_ok E ch' run r"
proof -
  have "ch_slots ch' (tr_coordinator_account r) \<noteq> Some (Uninit n)" for n
  proof (cases "ch_slots ch (tr_coordinator_account r)")
    case None
    then show ?thesis using assms(2) by (simp add: coord_mono_def)
  next
    case (Some x)
    then obtain a where "ch_slots ch (tr_coordinator_account r) = Some (Coord a)"
      using assms(1) by (cases x) (auto simp: run_ok_def)
    then show ?thesis using coord_mono_slot [OF assms(2)] by blast
  qed
  then show ?thesis using assms(1,3) by (simp add: run_ok_def)
qed

lemma treas_inv_frame:
  assumes "treas_inv E ch" and "coord_inv E ch'" and "coord_mono ch ch'"
    and "ch_runs ch' = ch_runs ch" and "ch_participants ch' = ch_participants ch"
  shows "treas_inv E ch'"
proof -
  note p = treas_inv_parts [OF assms(1)]
  show ?thesis using assms(2,4,5) p(2) run_ok_frame [OF p(3) assms(3,5)] participant_ok_frame [OF p(4) assms(3,4) p(3)]
    by (simp add: treas_inv_def)
qed

section \<open>The other programs\<close>

lemma coord_program_frame:
  fixes ch ch' :: "'z treas_chain_scheme"
  assumes "coord_program E c ch = Done ch' u"
  shows "ch_runs ch' = ch_runs ch \<and> ch_participants ch' = ch_participants ch \<and> ch_tokens ch' = ch_tokens ch"
proof (cases c)
  case (InitCoordinator ak m j r v)
  then show ?thesis using assms by (cases "ch_slots ch ak"; cases "the (ch_slots ch ak)")
    (auto simp: init_coordinator_def need_Done Let_def)
next
  case (UpdateClientVersion auth ik ak v)
  then show ?thesis using assms by (cases "fs_try_from 96 v") (auto simp: update_client_version_def)
qed (use assms in \<open>auto simp: free_coordinator_def owner_instruction_def user_instruction_def join_run_def counted_instance_Done\<close>)

lemma coord_step:
  fixes ch ch' :: "'z treas_chain_scheme"
  assumes "treas_inv E ch" and "coord_program E c ch = Done ch' u"
  shows "treas_inv E ch' \<and> coord_mono ch ch'"
  using treas_inv_frame [OF assms(1)] coord_program_inv [OF treas_inv_parts(1) [OF assms(1)] assms(2)]
    coord_program_frame [OF assms(2)] by blast

lemma auth_exec_frame:
  fixes ch ch' :: "'z treas_chain_scheme"
  assumes "auth_exec E c ch = Done ch' u"
  shows "ch_slots ch' = ch_slots ch \<and> ch_instances ch' = ch_instances ch \<and> ch_runs ch' = ch_runs ch \<and>
    ch_participants ch' = ch_participants ch \<and> ch_tokens ch' = ch_tokens ch"
  using assms by (cases c) (auto simp: authorization_create_def authorization_grantor_update_def need_Done
      authorization_grantee_update_def authorization_close_def store_authorization_def Let_def)

lemma auth_step_treasurer:
  fixes ch ch' :: "'z treas_chain_scheme"
  assumes "treas_inv E ch" and "auth_exec E c ch = Done ch' u"
  shows "treas_inv E ch' \<and> coord_mono ch ch'"
proof -
  note f = auth_exec_frame [OF assms(2)]
  have "coord_inv E ch'" using treas_inv_parts(1) [OF assms(1)] f by (simp add: coord_inv_def)
  moreover have "coord_mono ch ch'" using f coord_mono_refl [of ch] by (simp add: coord_mono_def)
  ultimately show ?thesis using treas_inv_frame [OF assms(1)] f by blast
qed

section \<open>The treasurer's own instructions\<close>

lemma run_owner_call_step:
  "treas_inv E ch \<Longrightarrow> run_owner_call E run r call ch = Done ch' u \<Longrightarrow> treas_inv E ch' \<and> coord_mono ch ch'"
  using coord_step [of E ch "OwnerCall run (tr_coordinator_instance r) (tr_coordinator_account r) call" ch' u]
  by (auto simp: run_owner_call_def)

lemma update_version_step:
  "treas_inv E ch \<Longrightarrow> update_version E run r p ch = Done ch' u \<Longrightarrow> treas_inv E ch' \<and> coord_mono ch ch'"
  using coord_step [of E ch "UpdateClientVersion run (tr_coordinator_instance r) (tr_coordinator_account r) v" ch' u for v]
    coord_mono_refl by (auto simp: update_version_def split: option.splits)

lemma run_update_step:
  assumes "treas_inv E ch" and "run_update E clk auth run ik ak p ch = Done ch' u"
  shows "treas_inv E ch' \<and> coord_mono ch ch'"
proof -
  obtain r c1 c2 c3 where c: "update_settings E run r p ch = Done c1 ()" "update_rates E run r p c1 = Done c2 ()"
    "update_paused E clk run r p c2 = Done c3 ()" "update_version E run r p c3 = Done ch' u"
    using assms(2) by (auto simp: run_update_def and_then_Done)
  have "treas_inv E c1 \<and> coord_mono ch c1" using assms(1) c(1) run_owner_call_step coord_mono_refl
    by (metis update_settings_def exec.inject(2))
  moreover from this have "treas_inv E c2 \<and> coord_mono c1 c2" using c(2) run_owner_call_step coord_mono_refl
    by (metis update_rates_def exec.inject(2))
  moreover from this have "treas_inv E c3 \<and> coord_mono c2 c3" using c(3) run_owner_call_step [of E c2] coord_mono_refl
    by (cases "rp_paused p") (auto simp: update_paused_def)
  moreover from this have "treas_inv E ch' \<and> coord_mono c3 ch'" using c(4) update_version_step by blast
  ultimately show ?thesis using coord_mono_trans by blast
qed

text \<open>A new run has no participants: their runs exist.\<close>

lemma no_claims_before:
  assumes "pda_ok E" and "treas_inv E ch" and "ch_runs ch run = None"
  shows "claimed_points E (ch_participants ch) run = 0"
  unfolding claimed_points_def
proof (rule sum_over_empty)
  fix k p assume p: "ch_participants ch k = Some p"
  obtain run' u' r where f: "ce_find_pda E TREASURER_ID (participant_seeds run' u') = Some (k, pa_bump p)"
    and r: "ch_runs ch run' = Some r"
    using treas_inv_parts(4) [OF assms(2) p] by (auto simp: participant_ok_def)
  show "\<not> participant_of E run k"
    using find_address_unique [OF assms(1) f] r assms(3) by (auto simp: participant_of_def)
qed

lemma run_create_step:
  assumes "pda_ok E" and "treas_inv E ch" and "run_create E index rid v m j mint ik ak ch = Done ch' u"
  shows "treas_inv E ch' \<and> coord_mono ch ch'"
proof -
  define new where "new run bump = \<lparr>tr_bump = bump, tr_index = index, tr_main_authority = m, tr_join_authority = j,
     tr_coordinator_account = ak, tr_coordinator_instance = ik, tr_collateral_mint = mint,
     tr_total_claimed_collateral_amount = 0, tr_total_claimed_earned_points = 0\<rparr>" for run :: pubkey and bump
  obtain run bump c where f: "ce_find_pda E TREASURER_ID (run_seeds index) = Some (run, bump)"
    and nw: "ch_runs ch run = None"
    and c: "c = ch\<lparr>ch_tokens := (ch_tokens ch)(ce_ata E run mint \<mapsto> empty_token_account mint run),
       ch_runs := (ch_runs ch)(run \<mapsto> new run bump)\<rparr>"
    and i: "init_coordinator E ak run j rid v c = Done ch' u"
    using assms(3) by (auto simp: run_create_def need_Done Let_def new_def)
  have ci: "coord_inv E c" using treas_inv_parts(1) [OF assms(2)] by (simp add: coord_inv_def c)
  have "coord_inv E ch' \<and> coord_mono c ch'" by (rule init_coordinator_inv [OF ci i])
  then have inv: "coord_inv E ch'" and mono: "coord_mono ch ch'" by (simp_all add: coord_mono_def c)
  have fr: "ch_runs ch' = (ch_runs ch)(run \<mapsto> new run bump)" "ch_participants ch' = ch_participants ch"
    using coord_program_frame [of E "InitCoordinator ak run j rid v" c ch' u] i by (simp_all add: c)
  have slot: "ch_slots ch' ak \<noteq> Some (Uninit n)" for n
    using i by (cases "ch_slots c ak"; cases "the (ch_slots c ak)") (auto simp: init_coordinator_def need_Done Let_def)
  have "run_ok E ch' run' r" if "ch_runs ch' run' = Some r" for run' r
  proof (cases "run' = run")
    case True
    then show ?thesis using that f slot no_claims_before [OF assms(1,2) nw] by (auto simp: run_ok_def fr new_def)
  next
    case False
    then show ?thesis using that run_ok_frame [OF treas_inv_parts(3) [OF assms(2)] mono fr(2)] by (simp add: fr)
  qed
  moreover have "participant_ok E ch' key p" if p: "ch_participants ch' key = Some p" for key p
  proof -
    let ?d = "ch'\<lparr>ch_runs := ch_runs ch\<rparr>"
    have "coord_mono ch ?d" using mono by (simp add: coord_mono_def)
    then have "participant_ok E ?d key p"
      using participant_ok_frame [OF treas_inv_parts(4) [OF assms(2)] _ _ treas_inv_parts(3) [OF assms(2)], of key p ?d] p
      by (simp add: fr)
    then show ?thesis using nw unfolding participant_ok_def fr by (auto simp: fr) (metis option.distinct(1))
  qed
  ultimately show ?thesis using inv mono treas_inv_parts(2) [OF assms(2)] by (simp add: treas_inv_def fr)
qed

lemma participant_create_step:
  assumes "treas_inv E ch" and "participant_create E user run ch = Done ch' u"
  shows "treas_inv E ch' \<and> coord_mono ch ch'"
proof -
  define new where "new b = \<lparr>pa_bump = b, pa_claimed_collateral_amount = 0, pa_claimed_earned_points = 0\<rparr>" for b
  obtain r key b where r: "ch_runs ch run = Some r"
    and f: "ce_find_pda E TREASURER_ID (participant_seeds run user) = Some (key, b)"
    and none: "ch_participants ch key = None"
    and ch': "ch' = ch\<lparr>ch_participants := (ch_participants ch)(key \<mapsto> new b)\<rparr>"
    using assms(2) by (auto simp: participant_create_def need_Done new_def)
  have same: "claimed_points E ((ch_participants ch)(key \<mapsto> new b)) run' = claimed_points E (ch_participants ch) run'" for run'
    unfolding claimed_points_def
    by (rule sum_over_new [OF treas_inv_parts(2) [OF assms(1)] none]) (simp add: new_def)
  have "run_ok E ch' run' r'" if "ch_runs ch' run' = Some r'" for run' r'
    using that treas_inv_parts(3) [OF assms(1), of run' r'] by (simp add: run_ok_def ch' same)
  moreover have "participant_ok E ch' k p" if "ch_participants ch' k = Some p" for k p
  proof (cases "k = key")
    case True
    then have "p = new b" using that by (simp add: ch')
    then show ?thesis using True f r by (auto simp: participant_ok_def ch' new_def)
  next
    case False
    then show ?thesis using that treas_inv_parts(4) [OF assms(1), of k p] by (auto simp: participant_ok_def ch')
  qed
  moreover have "coord_inv E ch'" using treas_inv_parts(1) [OF assms(1)] by (simp add: coord_inv_def ch')
  moreover have "coord_mono ch ch'" using coord_mono_refl [of ch] by (simp add: coord_mono_def ch')
  ultimately show ?thesis using treas_inv_parts(2) [OF assms(1)] by (simp add: treas_inv_def ch')
qed

section \<open>Claims\<close>

text \<open>What a successful claim has checked and done.\<close>

lemma participant_claim_Done:
  assumes "participant_claim E user uc run ak key n ch = Done ch' u"
  obtains r p a ts where "ch_runs ch run = Some r" and "ch_participants ch key = Some p"
    and "ch_slots ch ak = Some (Coord a)" and "tr_coordinator_account r = ak"
    and "ce_create_pda E TREASURER_ID (participant_seeds run user) (pa_bump p) = Some key"
    and "unat (pa_claimed_earned_points p) + unat n \<le> unat (earned_in a user)"
    and "unat (tr_total_claimed_earned_points r) + unat n < 2 ^ 64"
    and "unat (pa_claimed_collateral_amount p) + unat n < 2 ^ 64"
    and "ce_transfer E (ch_tokens ch) (ce_ata E run (tr_collateral_mint r)) uc run n = Some ts"
    and "ch' = ch\<lparr>ch_tokens := ts,
        ch_runs := (ch_runs ch)(run \<mapsto> r\<lparr>tr_total_claimed_collateral_amount := tr_total_claimed_collateral_amount r + n,
           tr_total_claimed_earned_points := tr_total_claimed_earned_points r + n\<rparr>),
        ch_participants := (ch_participants ch)(key \<mapsto> p\<lparr>pa_claimed_collateral_amount := pa_claimed_collateral_amount p + n,
           pa_claimed_earned_points := pa_claimed_earned_points p + n\<rparr>)\<rparr>"
proof -
  obtain r p a where r: "ch_runs ch run = Some r" and p: "ch_participants ch key = Some p"
    and a: "ch_slots ch ak = Some (Coord a)" and ak: "tr_coordinator_account r = ak"
    and key: "ce_create_pda E TREASURER_ID (participant_seeds run user) (pa_bump p) = Some key"
    and c: "claim_points E run r key p uc (earned_in a user) n ch = Done ch' u"
    using assms by (cases "ch_slots ch ak"; cases "the (ch_slots ch ak)") (auto simp: participant_claim_def)
  obtain ts where sub: "pa_claimed_earned_points p \<le> earned_in a user" "n \<le> earned_in a user - pa_claimed_earned_points p"
    and adds: "unat (tr_total_claimed_earned_points r) + unat n < 2 ^ 64"
      "unat (pa_claimed_collateral_amount p) + unat n < 2 ^ 64"
    and ts: "ce_transfer E (ch_tokens ch) (ce_ata E run (tr_collateral_mint r)) uc run n = Some ts"
    and ch': "ch' = ch\<lparr>ch_tokens := ts,
        ch_runs := (ch_runs ch)(run \<mapsto> r\<lparr>tr_total_claimed_collateral_amount := tr_total_claimed_collateral_amount r + n,
           tr_total_claimed_earned_points := tr_total_claimed_earned_points r + n\<rparr>),
        ch_participants := (ch_participants ch)(key \<mapsto> p\<lparr>pa_claimed_collateral_amount := pa_claimed_collateral_amount p + n,
           pa_claimed_earned_points := pa_claimed_earned_points p + n\<rparr>)\<rparr>"
    using c by (auto simp: claim_points_def need_Done checked_sub_iff checked_add_iff split: option.splits)
  have "unat (pa_claimed_earned_points p) + unat n \<le> unat (earned_in a user)"
    using sub by (simp add: word_le_nat_alt unat_sub)
  then show thesis using that r p a ak key adds ts ch' by blast
qed

lemma participant_claim_step:
  assumes pda: "pda_ok E" and inv: "treas_inv E ch" and done_: "participant_claim E user uc run ak key n ch = Done ch' u"
  shows "treas_inv E ch' \<and> coord_mono ch ch'"
proof -
  obtain r p a ts where r: "ch_runs ch run = Some r" and p: "ch_participants ch key = Some p"
    and a: "ch_slots ch ak = Some (Coord a)" and ak: "tr_coordinator_account r = ak"
    and key: "ce_create_pda E TREASURER_ID (participant_seeds run user) (pa_bump p) = Some key"
    and pay: "unat (pa_claimed_earned_points p) + unat n \<le> unat (earned_in a user)"
    and rt: "unat (tr_total_claimed_earned_points r) + unat n < 2 ^ 64"
    and ch': "ch' = ch\<lparr>ch_tokens := ts,
        ch_runs := (ch_runs ch)(run \<mapsto> r\<lparr>tr_total_claimed_collateral_amount := tr_total_claimed_collateral_amount r + n,
           tr_total_claimed_earned_points := tr_total_claimed_earned_points r + n\<rparr>),
        ch_participants := (ch_participants ch)(key \<mapsto> p\<lparr>pa_claimed_collateral_amount := pa_claimed_collateral_amount p + n,
           pa_claimed_earned_points := pa_claimed_earned_points p + n\<rparr>)\<rparr>"
    using participant_claim_Done [OF done_] by metis
  let ?q = "p\<lparr>pa_claimed_collateral_amount := pa_claimed_collateral_amount p + n,
     pa_claimed_earned_points := pa_claimed_earned_points p + n\<rparr>"
  have pn: "unat (pa_claimed_earned_points ?q) = unat (pa_claimed_earned_points p) + unat n"
    using pay unat_less_pow [of "earned_in a user"] by (simp add: unat_word_ariths)
  note pok = treas_inv_parts(4) [OF inv p] and rok = treas_inv_parts(3) [OF inv]
  obtain run' user' r' where f: "ce_find_pda E TREASURER_ID (participant_seeds run' user') = Some (key, pa_bump p)"
    and r': "ch_runs ch run' = Some r'" and eq: "pa_claimed_collateral_amount p = pa_claimed_earned_points p"
    using pok by (auto simp: participant_ok_def)
  have "run' = run \<and> user' = user" using participant_address_unique [OF pda f key] by blast
  then have f: "ce_find_pda E TREASURER_ID (participant_seeds run user) = Some (key, pa_bump p)" using f by simp
  have mine: "participant_of E run key" using f by (auto simp: participant_of_def)
  have other: "\<not> participant_of E x key" if "x \<noteq> run" for x
    using that find_address_unique [OF pda f] by (auto simp: participant_of_def)
  have "run_ok E ch' x y" if xy: "ch_runs ch' x = Some y" for x y
  proof (cases "x = run")
    case True
    have "unat (tr_total_claimed_earned_points r + n) = unat (tr_total_claimed_earned_points r) + unat n"
      using rt by (simp add: unat_word_ariths)
    moreover have "claimed_points E ((ch_participants ch)(key \<mapsto> ?q)) run = claimed_points E (ch_participants ch) run + unat n"
      using sum_over_upd [of "ch_participants ch" "participant_of E run" key "\<lambda>p. unat (pa_claimed_earned_points p)" ?q]
        treas_inv_parts(2) [OF inv] mine p pn by (simp add: claimed_points_def)
    ultimately show ?thesis using True xy rok [OF r] by (auto simp: run_ok_def ch')
  next
    case False
    then show ?thesis using xy rok [of x y] by (simp add: run_ok_def ch' claimed_points_def sum_over_other other)
  qed
  moreover have "participant_ok E ch' k y" if ky: "ch_participants ch' k = Some y" for k y
  proof (cases "k = key")
    case True
    then have "y = ?q" using ky by (simp add: ch')
    moreover have "pa_claimed_earned_points ?q \<le> earned_in a user" using pn pay by (simp add: word_le_nat_alt)
    ultimately show ?thesis using True f eq a ak unfolding participant_ok_def
      by (intro conjI exI [of _ run] exI [of _ user]) (auto simp: ch')
  next
    case False
    then show ?thesis using ky treas_inv_parts(4) [OF inv, of k y] r unfolding participant_ok_def
      by (auto simp: ch' split: if_splits) (metis treasurer_run.select_convs(5) treasurer_run.surjective
          treasurer_run.update_convs(8,9) option.inject)+
  qed
  moreover have "coord_inv E ch'" using treas_inv_parts(1) [OF inv] by (simp add: coord_inv_def ch')
  moreover have "coord_mono ch ch'" using coord_mono_refl [of ch] by (simp add: coord_mono_def ch')
  ultimately show ?thesis using treas_inv_parts(2) [OF inv] by (simp add: treas_inv_def ch')
qed

section \<open>All three programs\<close>

lemma chain_program_step:
  assumes "pda_ok E" and "treas_inv E ch" and "chain_program E cmd ch = Done ch' u"
  shows "treas_inv E ch' \<and> coord_mono ch ch'"
proof (cases cmd)
  case (OnAuthorizer c)
  then show ?thesis using assms(3) auth_step_treasurer [OF assms(2)] by simp
next
  case (OnCoordinator c)
  then show ?thesis using assms(3) coord_step [OF assms(2)] by simp
next
  case (OnTreasurer c)
  then have "treas_program E c ch = Done ch' u" using assms(3) by simp
  then show ?thesis
    using run_create_step [OF assms(1,2)] run_update_step [OF assms(2)] participant_create_step [OF assms(2)]
      participant_claim_step [OF assms(1,2)]
    by (cases c) auto
qed

interpretation treasurer_chain: on_chain_program "chain_program E" "\<lambda>ch. pda_ok E \<and> treas_inv E ch" coord_mono for E
  using chain_program_step coord_mono_refl coord_mono_trans by unfold_locales blast+

lemma participant_claims_bounded:
  assumes "pda_ok E" and "treas_inv E ch" and "find_participant E run user = Some key"
    and "ch_participants ch key = Some p" and "ch_runs ch run = Some r"
    and "ch_slots ch (tr_coordinator_account r) = Some (Coord a)"
  shows "pa_claimed_earned_points p \<le> earned_in a user"
proof -
  obtain b where f: "ce_find_pda E TREASURER_ID (participant_seeds run user) = Some (key, b)"
    using assms(3) by (auto simp: find_participant_def)
  obtain run' user' r' where g: "ce_find_pda E TREASURER_ID (participant_seeds run' user') = Some (key, pa_bump p)"
    and r': "ch_runs ch run' = Some r'"
    and e: "\<And>a. ch_slots ch (tr_coordinator_account r') = Some (Coord a) \<Longrightarrow> pa_claimed_earned_points p \<le> earned_in a user'"
    using treas_inv_parts(4) [OF assms(2,4)] by (auto simp: participant_ok_def)
  have "run' = run \<and> user' = user" using find_address_unique [OF assms(1) g f] .
  then show ?thesis using e r' assms(5,6) by simp
qed

section \<open>Properties\<close>

text \<open>
  C11. No point is paid twice. Whatever sequence of transactions the authorizer, the coordinator and the
  treasurer execute, in every state they reach the totals of a run are the sum of what its participants
  have claimed, in points and in collateral, and no participant has claimed more than the points the run's
  coordinator account holds for its wallet.
\<close>

theorem claims_never_exceed_points:
  assumes "chain_env_ok E" and "treas_inv E ch0"
    and "ch = run_cmds (\<lambda>c. tx (chain_program E c)) cmds ch0"
  shows "(\<forall>run r. ch_runs ch run = Some r \<longrightarrow>
            unat (tr_total_claimed_earned_points r) = claimed_points E (ch_participants ch) run \<and>
            tr_total_claimed_collateral_amount r = tr_total_claimed_earned_points r) \<and>
         (\<forall>run user key p r a. find_participant E run user = Some key \<longrightarrow> ch_participants ch key = Some p \<longrightarrow>
            ch_runs ch run = Some r \<longrightarrow> ch_slots ch (tr_coordinator_account r) = Some (Coord a) \<longrightarrow>
            pa_claimed_collateral_amount p = pa_claimed_earned_points p \<and>
            pa_claimed_earned_points p \<le> earned_points user (in_clients (ca_state a)))"
proof -
  have pda: "pda_ok E" using chain_env_parts(2) [OF assms(1)] .
  have i: "treas_inv E ch" using treasurer_chain.run_mono [of E ch0 cmds] pda assms(2,3) by blast
  show ?thesis using treas_inv_parts(3) [OF i] participant_claims_bounded [OF pda i] treas_inv_parts(4) [OF i]
    by (auto simp: run_ok_def participant_ok_def)
qed

text \<open>A chain with a run, its coordinator account and a participant who has earned 10 points.\<close>

definition sample_treasury_env :: chain_env where
  "sample_treasury_env = table_env [((COORDINATOR_ID, concat (coordinator_seeds [114])), 50),
     ((TREASURER_ID, concat (run_seeds 0)), 70), ((TREASURER_ID, concat (participant_seeds 70 7)), 80)] 64"

definition sample_treasury_run :: treasurer_run where
  "sample_treasury_run = \<lparr>tr_bump = 255, tr_index = 0, tr_main_authority = 1, tr_join_authority = 2,
     tr_coordinator_account = 60, tr_coordinator_instance = 50, tr_collateral_mint = 5,
     tr_total_claimed_collateral_amount = 0, tr_total_claimed_earned_points = 0\<rparr>"

definition sample_treasury :: treas_chain where
  "sample_treasury = \<lparr>ch_auths = Map.empty, ch_instances = [50 \<mapsto> sample_run_instance\<lparr>ci_main_authority := 70\<rparr>],
     ch_slots = [60 \<mapsto> Coord sample_run_account],
     ch_tokens = [70005 \<mapsto> (empty_token_account 5 70)\<lparr>ta_amount := 1000\<rparr>, 90 \<mapsto> empty_token_account 5 7],
     ch_mints = (\<lambda>k. k = 5), ch_runs = [70 \<mapsto> sample_treasury_run],
     ch_participants = [80 \<mapsto> \<lparr>pa_bump = 255, pa_claimed_collateral_amount = 0, pa_claimed_earned_points = 0\<rparr>]\<rparr>"

lemmas sample_treasury_defs = sample_treasury_def sample_treasury_run_def sample_treasury_env_def table_env_def
  sample_run_instance_def sample_run_account_def find_participant_def find_coordinator_instance_def empty_token_account_def

lemma sample_treasury_env_ok: "chain_env_ok sample_treasury_env"
  unfolding sample_treasury_env_def by (rule table_env_ok) simp

lemma sample_seeds [simp]:
  "concat (participant_seeds 70 7) \<noteq> concat (run_seeds 0)"
  "concat (run_seeds 0) \<noteq> concat (participant_seeds 70 7)"
  "COORDINATOR_ID \<noteq> TREASURER_ID" "TREASURER_ID \<noteq> COORDINATOR_ID"
  by (simp_all add: participant_seeds_def run_seeds_def PARTICIPANT_SEEDS_PREFIX_def RUN_SEEDS_PREFIX_def
      COORDINATOR_ID_def TREASURER_ID_def)

lemma sample_treasury_inv: "treas_inv sample_treasury_env sample_treasury"
proof -
  have "coord_inv sample_treasury_env sample_treasury"
    using sample_instance_inv [of False] by (simp add: coord_inv_def sample_treasury_defs)
  moreover have "run_ok sample_treasury_env sample_treasury 70 sample_treasury_run"
    by (auto simp: run_ok_def sample_treasury_defs claimed_points_def sum_over_def split: if_splits)
  moreover have "participant_ok sample_treasury_env sample_treasury 80
      \<lparr>pa_bump = 255, pa_claimed_collateral_amount = 0, pa_claimed_earned_points = 0\<rparr>"
    unfolding participant_ok_def by (intro conjI exI [of _ 70] exI [of _ 7]) (simp_all add: sample_treasury_defs)
  ultimately show ?thesis by (simp add: treas_inv_def sample_treasury_def)
qed

theorem claims_never_exceed_points_witness:
  "let ch = run_cmds (\<lambda>c. tx (chain_program sample_treasury_env c))
       [OnTreasurer (ParticipantClaim 7 90 70 60 80 4), OnTreasurer (ParticipantClaim 7 90 70 60 80 7)] sample_treasury
   in \<forall>run r. ch_runs ch run = Some r \<longrightarrow>
        unat (tr_total_claimed_earned_points r) = claimed_points sample_treasury_env (ch_participants ch) run"
  using claims_never_exceed_points [OF sample_treasury_env_ok sample_treasury_inv refl] unfolding Let_def by blast

text \<open>
  C27. What a claim does. For a participant of a run with proper token accounts, a claim of more points than
  the participant has earned and not yet claimed is refused with \<open>InvalidParameter\<close>; a claim of at most that
  many points succeeds whenever the run's collateral account holds the amount, moves exactly one unit of
  collateral per point from that account to the user's, and records the points as claimed. The subtraction
  of the claimed from the earned points does not underflow, so the claim does not panic.
\<close>

theorem participant_claim_outcome:
  assumes env: "chain_env_ok E" and inv: "treas_inv E ch" and r: "ch_runs ch run = Some r"
    and key: "find_participant E run user = Some key" and p: "ch_participants ch key = Some p"
    and a: "ch_slots ch (tr_coordinator_account r) = Some (Coord a)"
    and src: "ch_tokens ch (ce_ata E run (tr_collateral_mint r)) = Some src" "ta_mint src = tr_collateral_mint r"
      "ta_owner src = run" "\<not> ta_frozen src"
    and dst: "ch_tokens ch uc = Some dst" "ta_mint dst = tr_collateral_mint r" "ta_owner dst = user"
      "ta_delegate dst = None" "\<not> ta_frozen dst" "unat (ta_amount dst) + unat n < 2 ^ 64"
    and room: "unat (tr_total_claimed_earned_points r) + unat n < 2 ^ 64"
  shows "(earned_points user (in_clients (ca_state a)) - pa_claimed_earned_points p < n \<longrightarrow>
            participant_claim E user uc run (tr_coordinator_account r) key n ch = Fail ch (Custom (Inl InvalidParameter))) \<and>
         (n \<le> earned_points user (in_clients (ca_state a)) - pa_claimed_earned_points p \<and> n \<le> ta_amount src \<longrightarrow>
            (\<exists>ch' q. participant_claim E user uc run (tr_coordinator_account r) key n ch = Done ch' () \<and>
               tok_amount (ch_tokens ch') =
                 moved (ce_ata E run (tr_collateral_mint r)) uc (unat n) (tok_amount (ch_tokens ch)) \<and>
               ch_participants ch' key = Some q \<and>
               unat (pa_claimed_earned_points q) = unat (pa_claimed_earned_points p) + unat n))"
proof -
  note pda = chain_env_parts(2) [OF env]
  have le: "pa_claimed_earned_points p \<le> earned_in a user" by (rule participant_claims_bounded [OF pda inv key p r a])
  have v: "ca_version a = CA_VERSION" using coord_inv_slot [OF treas_inv_parts(1) [OF inv] a] by blast
  have seeds: "ce_create_pda E TREASURER_ID (participant_seeds run user) (pa_bump p) = Some key"
  proof -
    obtain b where f: "ce_find_pda E TREASURER_ID (participant_seeds run user) = Some (key, b)"
      using key by (auto simp: find_participant_def)
    obtain run' user' where "ce_find_pda E TREASURER_ID (participant_seeds run' user') = Some (key, pa_bump p)"
      using treas_inv_parts(4) [OF inv p] by (auto simp: participant_ok_def)
    then show ?thesis using find_create [OF pda] find_address_unique [OF pda _ f] by metis
  qed
  have sign: "run_signs E run r"
    using treas_inv_parts(3) [OF inv r] find_create [OF pda] by (auto simp: run_ok_def run_signs_def)
  have eq: "pa_claimed_collateral_amount p = pa_claimed_earned_points p"
    "tr_total_claimed_collateral_amount r = tr_total_claimed_earned_points r"
    using treas_inv_parts(3,4) [OF inv] r p by (auto simp: run_ok_def participant_ok_def)
  have body: "participant_claim E user uc run (tr_coordinator_account r) key n ch =
      claim_points E run r key p uc (earned_in a user) n ch"
    using r src(1,3) dst a v p seeds
    by (simp add: participant_claim_def with_user_token_def with_associated_token_def)
  show ?thesis unfolding body
  proof (intro conjI impI, goal_cases)
    case 1
    then show ?case using le by (simp add: claim_points_def checked_sub_def not_le [symmetric])
  next
    case 2
    have nat: "unat (pa_claimed_earned_points p) + unat n \<le> unat (earned_in a user)"
      using conjunct1 [OF 2] le by (simp add: word_le_nat_alt unat_sub)
    then have "unat (pa_claimed_earned_points p) + unat n < 2 ^ 64"
      using unat_less_pow [of "earned_in a user"] by simp
    then have add: "checked_add (pa_claimed_earned_points p) n = Some (pa_claimed_earned_points p + n)"
      "unat (pa_claimed_earned_points p + n) = unat (pa_claimed_earned_points p) + unat n"
      by (simp_all add: checked_add_def unat_word_ariths)
    have tot: "checked_add (tr_total_claimed_earned_points r) n = Some (tr_total_claimed_earned_points r + n)"
      using room by (simp add: checked_add_def)
    obtain ts where ts: "ce_transfer E (ch_tokens ch) (ce_ata E run (tr_collateral_mint r)) uc run n = Some ts"
      using chain_env_parts(3) [OF env] src dst 2 unfolding transfer_ok_def by metis
    then have "transfer_effect (ch_tokens ch) (ce_ata E run (tr_collateral_mint r)) uc run n ts"
      by (rule transfer_Some [OF chain_env_parts(3) [OF env]])
    then show ?case using 2 le sign ts add tot eq by (simp add: claim_points_def checked_sub_def transfer_effect_def)
  qed
qed

theorem participant_claim_outcome_witness:
  "(\<exists>ch' q. participant_claim sample_treasury_env 7 90 70 60 80 4 sample_treasury = Done ch' () \<and>
     ch_participants ch' 80 = Some q \<and> unat (pa_claimed_earned_points q) = 4) \<and>
   participant_claim sample_treasury_env 7 90 70 60 80 11 sample_treasury = Fail sample_treasury (Custom (Inl InvalidParameter))"
proof -
  let ?p = "\<lparr>pa_bump = 255, pa_claimed_collateral_amount = 0, pa_claimed_earned_points = 0\<rparr>"
  have e: "earned_points 7 (in_clients (ca_state sample_run_account)) = 10"
    by (simp add: sample_run_account_def sample_instance_def sample_client_def sample_id_def)
  note inst = participant_claim_outcome [OF sample_treasury_env_ok sample_treasury_inv, of 70 sample_treasury_run 7 80 ?p
    sample_run_account "(empty_token_account 5 70)\<lparr>ta_amount := 1000\<rparr>" 90 "empty_token_account 5 7"]
  show ?thesis using inst [of 4] inst [of 11] e by (simp add: sample_treasury_defs) blast
qed

end
