(* ===== verification/Mining_Pool.thy ===== *)
theory Mining_Pool
  imports Solana_Base Account_Sums
begin

text \<open>
  The mining-pool program (\<open>src/architectures/decentralized/solana-mining-pool\<close>): lenders deposit collateral
  into a pool, its authority extracts it, and once claiming is enabled each lender may claim its share of
  the redeemable tokens that have been paid into the pool. The totals of a pool are sums over its lenders,
  a lender is never paid more than its share, and as long as deposits are not diluted every lender can
  always claim the rest of its share.
\<close>

section \<open>State\<close>

definition MINING_POOL_ID :: pubkey where
  "MINING_POOL_ID = 87885307107990343512274719224295448828254036337178866490182265588339744806057"

record pool_metadata =
  pm_length :: u16
  pm_bytes :: bytes

definition POOL_METADATA_BYTES :: nat where "POOL_METADATA_BYTES = 400"

record pool =
  po_bump :: u8
  po_index :: u64
  po_authority :: pubkey
  po_collateral_mint :: pubkey
  po_max_deposit_collateral_amount :: u64
  po_total_deposited_collateral_amount :: u64
  po_total_extracted_collateral_amount :: u64
  po_claiming_enabled :: bool
  po_redeemable_mint :: pubkey
  po_total_claimed_redeemable_amount :: u64
  po_freeze :: bool
  po_metadata :: pool_metadata

record lender =
  le_bump :: u8
  le_deposited_collateral_amount :: u64
  le_claimed_redeemable_amount :: u64

text \<open>\<open>b"Pool"\<close> and \<open>b"Lender"\<close>\<close>

definition POOL_SEEDS_PREFIX :: bytes where "POOL_SEEDS_PREFIX = [80, 111, 111, 108]"
definition LENDER_SEEDS_PREFIX :: bytes where "LENDER_SEEDS_PREFIX = [76, 101, 110, 100, 101, 114]"

definition pool_seeds :: "u64 \<Rightarrow> bytes list" where
  "pool_seeds index = [POOL_SEEDS_PREFIX, u64_to_le_bytes index]"

definition lender_seeds :: "pubkey \<Rightarrow> pubkey \<Rightarrow> bytes list" where
  "lender_seeds pool user = [LENDER_SEEDS_PREFIX, pubkey_bytes pool, pubkey_bytes user]"

definition find_pool :: "chain_env \<Rightarrow> u64 \<Rightarrow> pubkey option" where
  "find_pool E pool_index = map_option fst (ce_find_pda E MINING_POOL_ID (pool_seeds pool_index))"

definition find_lender :: "chain_env \<Rightarrow> pubkey \<Rightarrow> pubkey \<Rightarrow> pubkey option" where
  "find_lender E pool user = map_option fst (ce_find_pda E MINING_POOL_ID (lender_seeds pool user))"

record pool_chain =
  pl_tokens :: tokens
  pl_mints :: "pubkey \<Rightarrow> bool"
  pl_pools :: "pubkey \<rightharpoonup> pool"
  pl_lenders :: "pubkey \<rightharpoonup> lender"

datatype pool_error =
    ParamsCollateralAmountIsTooLarge | ParamsRedeemableAmountIsTooLarge | ParamsMetadataLengthIsTooLarge
  | PoolClaimingEnabledIsTrue | PoolClaimingEnabledIsFalse | PoolFreezeIsTrue
  | PoolTotalDepositedCollateralAmountIsZero

type_synonym pool_exec = "(pool_chain, pool_error tx_error, unit) exec"

definition pool_signs :: "chain_env \<Rightarrow> pubkey \<Rightarrow> pool \<Rightarrow> bool" where
  "pool_signs E key p \<longleftrightarrow> ce_create_pda E MINING_POOL_ID (pool_seeds (po_index p)) (po_bump p) = Some key"

section \<open>Instructions of the authority\<close>

definition pool_create :: "chain_env \<Rightarrow> pubkey \<Rightarrow> pubkey \<Rightarrow> u64 \<Rightarrow> pool_metadata \<Rightarrow> pool_chain \<Rightarrow> pool_exec" where
  "pool_create E authority mint index metadata ch =
     need (ce_find_pda E MINING_POOL_ID (pool_seeds index)) (\<lambda>(key, bump).
     require (pl_pools ch key = None) AlreadyInUse ch
     (require (pl_mints ch mint) AccountMissing ch
     (require (pl_tokens ch (ce_ata E key mint) = None) AlreadyInUse ch
     (require (unat (pm_length metadata) \<le> POOL_METADATA_BYTES) (Custom ParamsMetadataLengthIsTooLarge) ch
       (Done (ch\<lparr>pl_tokens := (pl_tokens ch)(ce_ata E key mint \<mapsto> empty_token_account mint key),
                pl_pools := (pl_pools ch)(key \<mapsto>
                  \<lparr>po_bump = bump, po_index = index, po_authority = authority, po_collateral_mint = mint,
                   po_max_deposit_collateral_amount = 0, po_total_deposited_collateral_amount = 0,
                   po_total_extracted_collateral_amount = 0, po_claiming_enabled = False,
                   po_redeemable_mint = pubkey_default, po_total_claimed_redeemable_amount = 0, po_freeze = False,
                   po_metadata = metadata\<rparr>)\<rparr>) ())))))"

definition with_pool :: "pubkey \<Rightarrow> pubkey \<Rightarrow> pool_chain \<Rightarrow> (pool \<Rightarrow> pool_exec) \<Rightarrow> pool_exec" where
  "with_pool authority key ch k =
     with_account key (pl_pools ch) ch (\<lambda>p. require (po_authority p = authority) ConstraintViolated ch (k p))"

definition pool_extract :: "chain_env \<Rightarrow> pubkey \<Rightarrow> pubkey \<Rightarrow> pubkey \<Rightarrow> u64 \<Rightarrow> pool_chain \<Rightarrow> pool_exec" where
  "pool_extract E authority authority_collateral key amount ch =
     with_pool authority key ch (\<lambda>p.
     with_user_token authority_collateral (po_collateral_mint p) authority (pl_tokens ch) ch (\<lambda>_.
     with_associated_token E key (po_collateral_mint p) (pl_tokens ch) ch (\<lambda>_.
     require (\<not> po_freeze p) (Custom PoolFreezeIsTrue) ch
     (need (checked_add (po_total_extracted_collateral_amount p) amount) (\<lambda>extracted.
      require (pool_signs E key p) ConstraintViolated ch
      (case ce_transfer E (pl_tokens ch) (ce_ata E key (po_collateral_mint p)) authority_collateral key amount of
         None \<Rightarrow> Fail ch TransferFailed
       | Some ts \<Rightarrow> Done (ch\<lparr>pl_tokens := ts,
            pl_pools := (pl_pools ch)(key \<mapsto> p\<lparr>po_total_extracted_collateral_amount := extracted\<rparr>)\<rparr>) ()))))))"

definition pool_update ::
    "pubkey \<Rightarrow> pubkey \<Rightarrow> u64 option \<Rightarrow> bool option \<Rightarrow> pool_metadata option \<Rightarrow> pool_chain \<Rightarrow> pool_exec" where
  "pool_update authority key max_deposit freeze metadata ch =
     with_pool authority key ch (\<lambda>p.
     let p = (case max_deposit of None \<Rightarrow> p | Some m \<Rightarrow> p\<lparr>po_max_deposit_collateral_amount := m\<rparr>);
         p = (case freeze of None \<Rightarrow> p | Some f \<Rightarrow> p\<lparr>po_freeze := f\<rparr>)
     in (case metadata of
           None \<Rightarrow> Done (ch\<lparr>pl_pools := (pl_pools ch)(key \<mapsto> p)\<rparr>) ()
         | Some md \<Rightarrow> require (unat (pm_length md) \<le> POOL_METADATA_BYTES) (Custom ParamsMetadataLengthIsTooLarge) ch
             (Done (ch\<lparr>pl_pools := (pl_pools ch)(key \<mapsto> p\<lparr>po_metadata := md\<rparr>)\<rparr>) ())))"

definition pool_claimable :: "pubkey \<Rightarrow> pubkey \<Rightarrow> pubkey \<Rightarrow> pool_chain \<Rightarrow> pool_exec" where
  "pool_claimable authority key redeemable_mint ch =
     with_pool authority key ch (\<lambda>p.
     require (pl_mints ch redeemable_mint) AccountMissing ch
     (require (\<not> po_freeze p) (Custom PoolFreezeIsTrue) ch
     (require (\<not> po_claiming_enabled p) (Custom PoolClaimingEnabledIsTrue) ch
       (Done (ch\<lparr>pl_pools := (pl_pools ch)(key \<mapsto> p\<lparr>po_claiming_enabled := True,
          po_redeemable_mint := redeemable_mint, po_total_claimed_redeemable_amount := 0\<rparr>)\<rparr>) ()))))"

section \<open>Instructions of the lenders\<close>

definition lender_create :: "chain_env \<Rightarrow> pubkey \<Rightarrow> pubkey \<Rightarrow> pool_chain \<Rightarrow> pool_exec" where
  "lender_create E user pool ch =
     with_account pool (pl_pools ch) ch (\<lambda>p.
     need (ce_find_pda E MINING_POOL_ID (lender_seeds pool user)) (\<lambda>(key, bump).
     require (pl_lenders ch key = None) AlreadyInUse ch
       (Done (ch\<lparr>pl_lenders := (pl_lenders ch)(key \<mapsto>
          \<lparr>le_bump = bump, le_deposited_collateral_amount = 0, le_claimed_redeemable_amount = 0\<rparr>)\<rparr>) ())))"

definition with_lender ::
    "chain_env \<Rightarrow> pubkey \<Rightarrow> pubkey \<Rightarrow> pubkey \<Rightarrow> pool_chain \<Rightarrow> (lender \<Rightarrow> pool_exec) \<Rightarrow> pool_exec" where
  "with_lender E pool user key ch k =
     with_account key (pl_lenders ch) ch (\<lambda>l.
     require (ce_create_pda E MINING_POOL_ID (lender_seeds pool user) (le_bump l) = Some key) ConstraintViolated ch (k l))"

definition lender_deposit :: "chain_env \<Rightarrow> pubkey \<Rightarrow> pubkey \<Rightarrow> pubkey \<Rightarrow> pubkey \<Rightarrow> u64 \<Rightarrow> pool_chain \<Rightarrow> pool_exec" where
  "lender_deposit E user user_collateral pool key amount ch =
     with_account pool (pl_pools ch) ch (\<lambda>p.
     with_user_token user_collateral (po_collateral_mint p) user (pl_tokens ch) ch (\<lambda>_.
     with_associated_token E pool (po_collateral_mint p) (pl_tokens ch) ch (\<lambda>_.
     with_lender E pool user key ch (\<lambda>l.
     require (\<not> po_freeze p) (Custom PoolFreezeIsTrue) ch
     (need (checked_add (po_total_deposited_collateral_amount p) amount) (\<lambda>total.
      require (total \<le> po_max_deposit_collateral_amount p) (Custom ParamsCollateralAmountIsTooLarge) ch
      (case ce_transfer E (pl_tokens ch) user_collateral (ce_ata E pool (po_collateral_mint p)) user amount of
         None \<Rightarrow> Fail ch TransferFailed
       | Some ts \<Rightarrow>
           need (checked_add (le_deposited_collateral_amount l) amount) (\<lambda>deposited.
           Done (ch\<lparr>pl_tokens := ts,
             pl_pools := (pl_pools ch)(pool \<mapsto> p\<lparr>po_total_deposited_collateral_amount := total\<rparr>),
             pl_lenders := (pl_lenders ch)(key \<mapsto> l\<lparr>le_deposited_collateral_amount := deposited\<rparr>)\<rparr>) ()))))))))"

type_synonym u128 = "128 word"

text \<open>\<open>u64::try_from(u128::from(a) * u128::from(b) / u128::from(c)).unwrap()\<close>\<close>

definition mul_div :: "u64 \<Rightarrow> u64 \<Rightarrow> u64 \<Rightarrow> u64 option" where
  "mul_div a b c =
     (case checked_mul (ucast a :: u128) (ucast b) of None \<Rightarrow> None
      | Some m \<Rightarrow> (case checked_div m (ucast c) of None \<Rightarrow> None
        | Some q \<Rightarrow> if unat q < 2 ^ 64 then Some (ucast q) else None))"

definition lender_claim :: "chain_env \<Rightarrow> pubkey \<Rightarrow> pubkey \<Rightarrow> pubkey \<Rightarrow> pubkey \<Rightarrow> pubkey \<Rightarrow> u64 \<Rightarrow> pool_chain \<Rightarrow> pool_exec" where
  "lender_claim E user user_redeemable pool redeemable_mint key amount ch =
     with_account pool (pl_pools ch) ch (\<lambda>p.
     with_user_token user_redeemable (po_redeemable_mint p) user (pl_tokens ch) ch (\<lambda>_.
     require (po_redeemable_mint p = redeemable_mint \<and> pl_mints ch redeemable_mint) ConstraintViolated ch
     (with_associated_token E pool (po_redeemable_mint p) (pl_tokens ch) ch (\<lambda>pool_redeemable.
     with_lender E pool user key ch (\<lambda>l.
     require (\<not> po_freeze p) (Custom PoolFreezeIsTrue) ch
     (require (po_claiming_enabled p) (Custom PoolClaimingEnabledIsFalse) ch
     (require (po_total_deposited_collateral_amount p \<noteq> 0) (Custom PoolTotalDepositedCollateralAmountIsZero) ch
     (need (checked_add (po_total_claimed_redeemable_amount p) (ta_amount pool_redeemable)) (\<lambda>total_repayed.
      need (mul_div total_repayed (le_deposited_collateral_amount l) (po_total_deposited_collateral_amount p)) (\<lambda>claimable.
      need (checked_add (le_claimed_redeemable_amount l) amount) (\<lambda>claimed.
      require (claimed \<le> claimable) (Custom ParamsRedeemableAmountIsTooLarge) ch
      (need (checked_add (po_total_claimed_redeemable_amount p) amount) (\<lambda>total_claimed.
       require (pool_signs E pool p) ConstraintViolated ch
       (case ce_transfer E (pl_tokens ch) (ce_ata E pool (po_redeemable_mint p)) user_redeemable pool amount of
          None \<Rightarrow> Fail ch TransferFailed
        | Some ts \<Rightarrow> Done (ch\<lparr>pl_tokens := ts,
            pl_pools := (pl_pools ch)(pool \<mapsto> p\<lparr>po_total_claimed_redeemable_amount := total_claimed\<rparr>),
            pl_lenders := (pl_lenders ch)(key \<mapsto> l\<lparr>le_claimed_redeemable_amount := claimed\<rparr>)\<rparr>) ()))))))))))))))"

datatype pool_cmd =
    PoolCreate pubkey pubkey u64 pool_metadata
  | PoolExtract pubkey pubkey pubkey u64
  | PoolUpdate pubkey pubkey "u64 option" "bool option" "pool_metadata option"
  | PoolClaimable pubkey pubkey pubkey
  | LenderCreate pubkey pubkey
  | LenderDeposit pubkey pubkey pubkey pubkey u64
  | LenderClaim pubkey pubkey pubkey pubkey pubkey u64
  | TokenTransfer pubkey pubkey pubkey u64

text \<open>The token program is open to everyone: \<open>TokenTransfer\<close> is a transfer outside the program, for instance a
  repayment into the pool.\<close>

fun pool_program :: "chain_env \<Rightarrow> pool_cmd \<Rightarrow> pool_chain \<Rightarrow> pool_exec" where
  "pool_program E (PoolCreate authority mint index md) ch = pool_create E authority mint index md ch"
| "pool_program E (PoolExtract authority ac key n) ch = pool_extract E authority ac key n ch"
| "pool_program E (PoolUpdate authority key m f md) ch = pool_update authority key m f md ch"
| "pool_program E (PoolClaimable authority key mint) ch = pool_claimable authority key mint ch"
| "pool_program E (LenderCreate user pool) ch = lender_create E user pool ch"
| "pool_program E (LenderDeposit user uc pool key n) ch = lender_deposit E user uc pool key n ch"
| "pool_program E (LenderClaim user ur pool mint key n) ch = lender_claim E user ur pool mint key n ch"
| "pool_program E (TokenTransfer from to auth n) ch =
     (case ce_transfer E (pl_tokens ch) from to auth n of
        None \<Rightarrow> Fail ch TransferFailed | Some ts \<Rightarrow> Done (ch\<lparr>pl_tokens := ts\<rparr>) ())"

end
