(* ===== verification/Mining_Pool_Props.thy ===== *)
theory Mining_Pool_Props
  imports Mining_Pool
begin

text \<open>
  The accounting of mining pools: totals are sums over lenders, deposits and claims only grow, a claim never
  exceeds the lender's share, and a pool whose claims are fair can always pay every lender the rest.
\<close>

section \<open>Shares\<close>

lemma mul_div_eq:
  assumes "c \<noteq> 0"
  shows "mul_div a b c = (if unat a * unat b div unat c < 2 ^ 64 then Some (of_nat (unat a * unat b div unat c)) else None)"
proof -
  have a: "unat (ucast a :: u128) = unat a" and b: "unat (ucast b :: u128) = unat b" and c: "unat (ucast c :: u128) = unat c"
    by (rule unat_ucast_up; simp)+
  have "unat a * unat b < 2 ^ 64 * 2 ^ 64"
    using unat_less_pow [of a] unat_less_pow [of b] by (intro mult_strict_mono) simp_all
  then have small: "unat a * unat b < 2 ^ 128" by simp
  then have m: "checked_mul (ucast a :: u128) (ucast b) = Some (ucast a * ucast b)"
    and mu: "unat ((ucast a :: u128) * ucast b) = unat a * unat b"
    by (simp_all add: checked_mul_def a b unat_word_ariths)
  have c0: "(ucast c :: u128) \<noteq> 0" using assms c by (metis unat_eq_zero unsigned_0)
  let ?q = "(ucast a :: u128) * ucast b div ucast c"
  have q: "unat ?q = unat a * unat b div unat c" by (simp add: unat_div mu c)
  have "(ucast ?q :: u64) = of_nat (unat ?q)" by (simp only: of_nat_unat)
  then show ?thesis using c0 by (simp add: mul_div_def m checked_div_def q del: of_nat_unat)
qed

lemma mul_div_Some:
  assumes "mul_div a b c = Some q" and "c \<noteq> 0"
  shows "unat q = unat a * unat b div unat c"
  using assms(1) unat_of_nat_small [of "unat a * unat b div unat c", where 'a = 64]
  by (auto simp: mul_div_eq [OF assms(2)] split: if_splits)

section \<open>The invariant\<close>

definition lender_of :: "chain_env \<Rightarrow> pubkey \<Rightarrow> pubkey \<Rightarrow> bool" where
  "lender_of E pool k \<longleftrightarrow> (\<exists>u b. ce_find_pda E MINING_POOL_ID (lender_seeds pool u) = Some (k, b))"

abbreviation deposits :: "chain_env \<Rightarrow> (pubkey \<rightharpoonup> lender) \<Rightarrow> pubkey \<Rightarrow> nat" where
  "deposits E ls pool \<equiv> sum_over (lender_of E pool) (\<lambda>l. unat (le_deposited_collateral_amount l)) ls"

abbreviation claims :: "chain_env \<Rightarrow> (pubkey \<rightharpoonup> lender) \<Rightarrow> pubkey \<Rightarrow> nat" where
  "claims E ls pool \<equiv> sum_over (lender_of E pool) (\<lambda>l. unat (le_claimed_redeemable_amount l)) ls"

definition pool_ok :: "chain_env \<Rightarrow> pool_chain \<Rightarrow> pubkey \<Rightarrow> pool \<Rightarrow> bool" where
  "pool_ok E ch key p \<longleftrightarrow>
     ce_find_pda E MINING_POOL_ID (pool_seeds (po_index p)) = Some (key, po_bump p) \<and>
     unat (po_total_deposited_collateral_amount p) = deposits E (pl_lenders ch) key \<and>
     unat (po_total_claimed_redeemable_amount p) = claims E (pl_lenders ch) key \<and>
     (\<not> po_claiming_enabled p \<longrightarrow> po_total_claimed_redeemable_amount p = 0)"

definition lender_ok :: "chain_env \<Rightarrow> pool_chain \<Rightarrow> pubkey \<Rightarrow> lender \<Rightarrow> bool" where
  "lender_ok E ch key l \<longleftrightarrow>
     (\<exists>pool user p. ce_find_pda E MINING_POOL_ID (lender_seeds pool user) = Some (key, le_bump l) \<and>
        pl_pools ch pool = Some p)"

definition pool_inv :: "chain_env \<Rightarrow> pool_chain \<Rightarrow> bool" where
  "pool_inv E ch \<longleftrightarrow> pda_ok E \<and> finite (dom (pl_lenders ch)) \<and>
     (\<forall>key p. pl_pools ch key = Some p \<longrightarrow> pool_ok E ch key p) \<and>
     (\<forall>key l. pl_lenders ch key = Some l \<longrightarrow> lender_ok E ch key l)"

text \<open>Deposits and claims only grow, and what lenders rely on stays: the mints and the enabled claims.\<close>

definition pool_mono :: "pool_chain \<Rightarrow> pool_chain \<Rightarrow> bool" where
  "pool_mono ch ch' \<longleftrightarrow>
     (\<forall>key l. pl_lenders ch key = Some l \<longrightarrow> (\<exists>l'. pl_lenders ch' key = Some l' \<and>
        le_deposited_collateral_amount l \<le> le_deposited_collateral_amount l' \<and>
        le_claimed_redeemable_amount l \<le> le_claimed_redeemable_amount l')) \<and>
     (\<forall>key p. pl_pools ch key = Some p \<longrightarrow> (\<exists>p'. pl_pools ch' key = Some p' \<and>
        po_authority p' = po_authority p \<and> po_collateral_mint p' = po_collateral_mint p \<and>
        (po_claiming_enabled p \<longrightarrow> po_claiming_enabled p' \<and> po_redeemable_mint p' = po_redeemable_mint p)))"

lemma pool_inv_parts:
  assumes "pool_inv E ch"
  shows "pda_ok E" and "finite (dom (pl_lenders ch))" and "pl_pools ch key = Some p \<Longrightarrow> pool_ok E ch key p"
    and "pl_lenders ch k = Some l \<Longrightarrow> lender_ok E ch k l"
  using assms by (simp_all add: pool_inv_def)

lemma pool_mono_refl: "pool_mono ch ch"
  by (simp add: pool_mono_def)

lemma pool_mono_trans:
  assumes "pool_mono a b" and "pool_mono b c"
  shows "pool_mono a c"
  unfolding pool_mono_def
proof (intro conjI allI impI, goal_cases)
  case (1 key l)
  then obtain m where m: "pl_lenders b key = Some m" "le_deposited_collateral_amount l \<le> le_deposited_collateral_amount m"
      "le_claimed_redeemable_amount l \<le> le_claimed_redeemable_amount m"
    using assms(1) unfolding pool_mono_def by blast
  then obtain l' where "pl_lenders c key = Some l'" "le_deposited_collateral_amount m \<le> le_deposited_collateral_amount l'"
      "le_claimed_redeemable_amount m \<le> le_claimed_redeemable_amount l'"
    using assms(2) unfolding pool_mono_def by blast
  then show ?case using m by auto
next
  case (2 key p)
  then obtain q where q: "pl_pools b key = Some q" "po_authority q = po_authority p" "po_collateral_mint q = po_collateral_mint p"
      "po_claiming_enabled p \<longrightarrow> po_claiming_enabled q \<and> po_redeemable_mint q = po_redeemable_mint p"
    using assms(1) unfolding pool_mono_def by blast
  then obtain p' where "pl_pools c key = Some p'" "po_authority p' = po_authority q" "po_collateral_mint p' = po_collateral_mint q"
      "po_claiming_enabled q \<longrightarrow> po_claiming_enabled p' \<and> po_redeemable_mint p' = po_redeemable_mint q"
    using assms(2) unfolding pool_mono_def by blast
  then show ?case using q by auto
qed

lemma lender_address_unique:
  assumes "pda_ok E" and "ce_find_pda E MINING_POOL_ID (lender_seeds pool u) = Some (k, b)"
    and "ce_create_pda E MINING_POOL_ID (lender_seeds pool' u') b' = Some k"
  shows "pool = pool' \<and> u = u' \<and> b = b'"
  using create_inj [OF assms(1) find_create [OF assms(1,2)] assms(3)] unfolding lender_seeds_def seeds_two_keys by blast

text \<open>The account a lender presents belongs to the pool it names, and to no other.\<close>

lemma presented_lender:
  assumes "pool_inv E ch" and "pl_lenders ch key = Some l"
    and "ce_create_pda E MINING_POOL_ID (lender_seeds pool user) (le_bump l) = Some key"
  shows "lender_of E pool key" and "x \<noteq> pool \<Longrightarrow> \<not> lender_of E x key"
proof -
  note pda = pool_inv_parts(1) [OF assms(1)]
  obtain pool' user' where f: "ce_find_pda E MINING_POOL_ID (lender_seeds pool' user') = Some (key, le_bump l)"
    using pool_inv_parts(4) [OF assms(1,2)] by (auto simp: lender_ok_def)
  have e: "pool' = pool" using lender_address_unique [OF pda f assms(3)] by blast
  then show "lender_of E pool key" using f by (auto simp: lender_of_def)
  show "\<not> lender_of E x key" if "x \<noteq> pool"
    using that e lender_address_unique [OF pda f find_create [OF pda]] by (auto simp: lender_of_def)
qed

section \<open>Preservation\<close>

text \<open>Rewriting a pool without touching its totals.\<close>

lemma pool_rewrite:
  assumes "pool_inv E ch" and "pl_pools ch key = Some p" and "po_bump q = po_bump p" and "po_index q = po_index p"
    and "po_total_deposited_collateral_amount q = po_total_deposited_collateral_amount p"
    and "po_total_claimed_redeemable_amount q = po_total_claimed_redeemable_amount p"
    and "po_authority q = po_authority p" and "po_collateral_mint q = po_collateral_mint p"
    and "po_claiming_enabled p \<longrightarrow> po_claiming_enabled q \<and> po_redeemable_mint q = po_redeemable_mint p"
  shows "pool_inv E (ch\<lparr>pl_tokens := ts, pl_pools := (pl_pools ch)(key \<mapsto> q)\<rparr>) \<and>
    pool_mono ch (ch\<lparr>pl_tokens := ts, pl_pools := (pl_pools ch)(key \<mapsto> q)\<rparr>)"
  using assms pool_inv_parts(3) [OF assms(1,2)]
  by (auto simp: pool_inv_def pool_mono_def pool_ok_def lender_ok_def split: if_splits) (metis option.inject)+

text \<open>Rewriting a lender and the totals of its pool together.\<close>

lemma lender_rewrite:
  assumes inv: "pool_inv E ch" and p: "pl_pools ch pool = Some p" and l: "pl_lenders ch key = Some l"
    and seeds: "ce_create_pda E MINING_POOL_ID (lender_seeds pool user) (le_bump l) = Some key"
    and m: "le_bump m = le_bump l" "le_deposited_collateral_amount l \<le> le_deposited_collateral_amount m"
      "le_claimed_redeemable_amount l \<le> le_claimed_redeemable_amount m"
    and q: "q = p\<lparr>po_total_deposited_collateral_amount := d, po_total_claimed_redeemable_amount := c\<rparr>"
    and d: "unat d + unat (le_deposited_collateral_amount l) =
      unat (po_total_deposited_collateral_amount p) + unat (le_deposited_collateral_amount m)"
    and c: "unat c + unat (le_claimed_redeemable_amount l) =
      unat (po_total_claimed_redeemable_amount p) + unat (le_claimed_redeemable_amount m)"
    and e: "\<not> po_claiming_enabled p \<longrightarrow> c = 0"
    and ch': "ch' = ch\<lparr>pl_tokens := ts, pl_pools := (pl_pools ch)(pool \<mapsto> q), pl_lenders := (pl_lenders ch)(key \<mapsto> m)\<rparr>"
  shows "pool_inv E ch' \<and> pool_mono ch ch'"
proof -
  note fin = pool_inv_parts(2) [OF inv] and mine = presented_lender [OF inv l seeds]
  note pok = pool_inv_parts(3) [OF inv]
  have sums: "sum_over (lender_of E pool) f ((pl_lenders ch)(key \<mapsto> m)) + f l = sum_over (lender_of E pool) f (pl_lenders ch) + f m" for f
    using sum_over_upd [of "pl_lenders ch" "lender_of E pool" key f m] fin mine(1) l by simp
  have "pool_ok E ch' pool q"
    using pok [OF p] sums [of "\<lambda>l. unat (le_deposited_collateral_amount l)"]
      sums [of "\<lambda>l. unat (le_claimed_redeemable_amount l)"] d c e by (simp add: pool_ok_def ch' q)
  moreover have "pool_ok E ch' x y" if "x \<noteq> pool" "pl_pools ch' x = Some y" for x y
    using that pok [of x y] by (simp add: pool_ok_def ch' sum_over_other mine(2))
  ultimately have pools: "pool_ok E ch' x y" if "pl_pools ch' x = Some y" for x y
    using that by (cases "x = pool") (auto simp: ch')
  have "lender_ok E ch' k y" if "pl_lenders ch' k = Some y" for k y
  proof (cases "k = key")
    case True
    then show ?thesis using that pool_inv_parts(4) [OF inv l] m(1) by (auto simp: lender_ok_def ch')
  next
    case False
    then show ?thesis using that pool_inv_parts(4) [OF inv, of k y] by (auto simp: lender_ok_def ch')
  qed
  then have "pool_inv E ch'" using inv pools by (simp add: pool_inv_def ch')
  moreover have "pool_mono ch ch'" using p l m(2,3) by (auto simp: pool_mono_def ch' q)
  ultimately show ?thesis by blast
qed

text \<open>A pool that is not there yet has no lenders.\<close>

lemma no_lenders_before:
  assumes "pool_inv E ch" and "pl_pools ch pool = None" and "pl_lenders ch k = Some l"
  shows "\<not> lender_of E pool k"
proof -
  note pda = pool_inv_parts(1) [OF assms(1)]
  obtain pool' user p where f: "ce_find_pda E MINING_POOL_ID (lender_seeds pool' user) = Some (k, le_bump l)"
    and p: "pl_pools ch pool' = Some p"
    using pool_inv_parts(4) [OF assms(1,3)] by (auto simp: lender_ok_def)
  show ?thesis using lender_address_unique [OF pda f find_create [OF pda]] p assms(2) by (auto simp: lender_of_def)
qed

lemma pool_create_step:
  assumes "pool_inv E ch" and "pool_create E authority mint index md ch = Done ch' u"
  shows "pool_inv E ch' \<and> pool_mono ch ch'"
proof -
  define new where "new b = \<lparr>po_bump = b, po_index = index, po_authority = authority, po_collateral_mint = mint,
     po_max_deposit_collateral_amount = 0, po_total_deposited_collateral_amount = 0,
     po_total_extracted_collateral_amount = 0, po_claiming_enabled = False, po_redeemable_mint = pubkey_default,
     po_total_claimed_redeemable_amount = 0, po_freeze = False, po_metadata = md\<rparr>" for b
  obtain key b ts where nw: "pl_pools ch key = None"
    and f: "ce_find_pda E MINING_POOL_ID (pool_seeds index) = Some (key, b)"
    and ch': "ch' = ch\<lparr>pl_tokens := ts, pl_pools := (pl_pools ch)(key \<mapsto> new b)\<rparr>"
    using assms(2) by (auto simp: pool_create_def need_Done new_def)
  have zero: "sum_over (lender_of E key) f (pl_lenders ch) = 0" for f
    using no_lenders_before [OF assms(1) nw] by (rule sum_over_empty)
  have "pool_ok E ch' x y" if "pl_pools ch' x = Some y" for x y
    using that f pool_inv_parts(3) [OF assms(1), of x y] by (auto simp: pool_ok_def ch' zero new_def split: if_splits)
  moreover have "lender_ok E ch' k l" if "pl_lenders ch' k = Some l" for k l
    using that nw pool_inv_parts(4) [OF assms(1), of k l] by (auto simp: lender_ok_def ch')
  ultimately have "pool_inv E ch'" using pool_inv_parts(1,2) [OF assms(1)] by (simp add: pool_inv_def ch')
  moreover have "pool_mono ch ch'" using nw by (auto simp: pool_mono_def ch')
  ultimately show ?thesis by blast
qed

lemma pool_extract_step:
  assumes "pool_inv E ch" and "pool_extract E authority ac key n ch = Done ch' u"
  shows "pool_inv E ch' \<and> pool_mono ch ch'"
proof -
  obtain p ts x where "pl_pools ch key = Some p"
    and "ch' = ch\<lparr>pl_tokens := ts, pl_pools := (pl_pools ch)(key \<mapsto> p\<lparr>po_total_extracted_collateral_amount := x\<rparr>)\<rparr>"
    using assms(2) by (auto simp: pool_extract_def with_pool_def need_Done split: option.splits)
  then show ?thesis using pool_rewrite [OF assms(1)] by simp
qed

text \<open>The rewrites that leave the token accounts alone.\<close>

lemma pool_rewrite_same_tokens:
  assumes "pool_inv E ch" and "pl_pools ch key = Some p" and "po_bump q = po_bump p" and "po_index q = po_index p"
    and "po_total_deposited_collateral_amount q = po_total_deposited_collateral_amount p"
    and "po_total_claimed_redeemable_amount q = po_total_claimed_redeemable_amount p"
    and "po_authority q = po_authority p" and "po_collateral_mint q = po_collateral_mint p"
    and "po_claiming_enabled p \<longrightarrow> po_claiming_enabled q \<and> po_redeemable_mint q = po_redeemable_mint p"
  shows "pool_inv E (ch\<lparr>pl_pools := (pl_pools ch)(key \<mapsto> q)\<rparr>) \<and> pool_mono ch (ch\<lparr>pl_pools := (pl_pools ch)(key \<mapsto> q)\<rparr>)"
  using pool_rewrite [OF assms, of "pl_tokens ch"] by (cases ch) simp

lemma pool_update_step:
  assumes "pool_inv E ch" and "pool_update authority key m f md ch = Done ch' u"
  shows "pool_inv E ch' \<and> pool_mono ch ch'"
proof -
  obtain p where p: "pl_pools ch key = Some p" using assms(2) by (auto simp: pool_update_def with_pool_def)
  show ?thesis using assms(2) p pool_rewrite_same_tokens [OF assms(1) p]
    by (auto simp: pool_update_def with_pool_def Let_def split: option.splits)
qed

lemma pool_claimable_step:
  assumes "pool_inv E ch" and "pool_claimable authority key mint ch = Done ch' u"
  shows "pool_inv E ch' \<and> pool_mono ch ch'"
proof -
  obtain p where p: "pl_pools ch key = Some p" and off: "\<not> po_claiming_enabled p"
    and ch': "ch' = ch\<lparr>pl_pools := (pl_pools ch)(key \<mapsto> p\<lparr>po_claiming_enabled := True,
          po_redeemable_mint := mint, po_total_claimed_redeemable_amount := 0\<rparr>)\<rparr>"
    using assms(2) by (auto simp: pool_claimable_def with_pool_def)
  have "po_total_claimed_redeemable_amount p = 0" using pool_inv_parts(3) [OF assms(1) p] off by (simp add: pool_ok_def)
  then show ?thesis unfolding ch' using off by (intro pool_rewrite_same_tokens [OF assms(1) p]) simp_all
qed

lemma lender_create_step:
  assumes "pool_inv E ch" and "lender_create E user pool ch = Done ch' u"
  shows "pool_inv E ch' \<and> pool_mono ch ch'"
proof -
  define new where "new b = \<lparr>le_bump = b, le_deposited_collateral_amount = 0, le_claimed_redeemable_amount = 0\<rparr>" for b
  obtain p key b where p: "pl_pools ch pool = Some p"
    and f: "ce_find_pda E MINING_POOL_ID (lender_seeds pool user) = Some (key, b)" and none: "pl_lenders ch key = None"
    and ch': "ch' = ch\<lparr>pl_lenders := (pl_lenders ch)(key \<mapsto> new b)\<rparr>"
    using assms(2) by (auto simp: lender_create_def need_Done new_def)
  have same: "deposits E ((pl_lenders ch)(key \<mapsto> new b)) x = deposits E (pl_lenders ch) x"
    "claims E ((pl_lenders ch)(key \<mapsto> new b)) x = claims E (pl_lenders ch) x" for x
    by (rule sum_over_new [OF pool_inv_parts(2) [OF assms(1)] none], simp add: new_def)+
  have "pool_ok E ch' x y" if "pl_pools ch' x = Some y" for x y
    using that pool_inv_parts(3) [OF assms(1), of x y] by (simp add: pool_ok_def ch' same)
  moreover have "lender_ok E ch' k l" if "pl_lenders ch' k = Some l" for k l
    using that p f pool_inv_parts(4) [OF assms(1), of k l] by (auto simp: lender_ok_def ch' new_def split: if_splits) blast
  ultimately have "pool_inv E ch'" using pool_inv_parts(1,2) [OF assms(1)] by (simp add: pool_inv_def ch')
  moreover have "pool_mono ch ch'" using none by (auto simp: pool_mono_def ch')
  ultimately show ?thesis by blast
qed

lemma checked_add_grows: "checked_add a b = Some c \<Longrightarrow> unat c = unat a + unat b \<and> a \<le> c" for a b c :: "'a::len word"
  by (auto simp: checked_add_def unat_word_ariths word_le_nat_alt split: if_splits)

lemma lender_deposit_step:
  assumes "pool_inv E ch" and "lender_deposit E user uc pool key n ch = Done ch' u"
  shows "pool_inv E ch' \<and> pool_mono ch ch'"
proof -
  obtain p l ts t d where p: "pl_pools ch pool = Some p" and l: "pl_lenders ch key = Some l"
    and s: "ce_create_pda E MINING_POOL_ID (lender_seeds pool user) (le_bump l) = Some key"
    and t: "checked_add (po_total_deposited_collateral_amount p) n = Some t"
    and d: "checked_add (le_deposited_collateral_amount l) n = Some d"
    and ch': "ch' = ch\<lparr>pl_tokens := ts, pl_pools := (pl_pools ch)(pool \<mapsto> p\<lparr>po_total_deposited_collateral_amount := t\<rparr>),
        pl_lenders := (pl_lenders ch)(key \<mapsto> l\<lparr>le_deposited_collateral_amount := d\<rparr>)\<rparr>"
    using assms(2) by (auto simp: lender_deposit_def with_lender_def need_Done split: option.splits)
  have "po_total_claimed_redeemable_amount p = 0" if "\<not> po_claiming_enabled p"
    using pool_inv_parts(3) [OF assms(1) p] that by (simp add: pool_ok_def)
  then show ?thesis using checked_add_grows [OF t] checked_add_grows [OF d]
    by (intro lender_rewrite [OF assms(1) p l s _ _ _ _ _ _ _ ch', where d = t and c = "po_total_claimed_redeemable_amount p"])
      simp_all
qed

text \<open>Everything a successful claim has checked, and what it leaves behind.\<close>

lemma lender_claim_Done:
  assumes "lender_claim E user ur pool mint key n ch = Done ch' u"
  obtains p l src ts r s c t where "pl_pools ch pool = Some p" and "pl_lenders ch key = Some l"
    and "ce_create_pda E MINING_POOL_ID (lender_seeds pool user) (le_bump l) = Some key"
    and "pl_tokens ch (ce_ata E pool (po_redeemable_mint p)) = Some src"
    and "po_claiming_enabled p" and "po_total_deposited_collateral_amount p \<noteq> 0"
    and "checked_add (po_total_claimed_redeemable_amount p) (ta_amount src) = Some r"
    and "mul_div r (le_deposited_collateral_amount l) (po_total_deposited_collateral_amount p) = Some s"
    and "checked_add (le_claimed_redeemable_amount l) n = Some c" and "c \<le> s"
    and "checked_add (po_total_claimed_redeemable_amount p) n = Some t"
    and "ce_transfer E (pl_tokens ch) (ce_ata E pool (po_redeemable_mint p)) ur pool n = Some ts"
    and "ch' = ch\<lparr>pl_tokens := ts, pl_pools := (pl_pools ch)(pool \<mapsto> p\<lparr>po_total_claimed_redeemable_amount := t\<rparr>),
        pl_lenders := (pl_lenders ch)(key \<mapsto> l\<lparr>le_claimed_redeemable_amount := c\<rparr>)\<rparr>"
  using assms by (auto simp: lender_claim_def with_lender_def need_Done split: option.splits)

lemma lender_claim_step:
  assumes "pool_inv E ch" and "lender_claim E user ur pool mint key n ch = Done ch' u"
  shows "pool_inv E ch' \<and> pool_mono ch ch'"
  using assms(2)
proof (rule lender_claim_Done)
  fix p l src ts r s c t
  assume p: "pl_pools ch pool = Some p" and l: "pl_lenders ch key = Some l"
    and sd: "ce_create_pda E MINING_POOL_ID (lender_seeds pool user) (le_bump l) = Some key"
    and on: "po_claiming_enabled p"
    and c: "checked_add (le_claimed_redeemable_amount l) n = Some c"
    and t: "checked_add (po_total_claimed_redeemable_amount p) n = Some t"
    and ch': "ch' = ch\<lparr>pl_tokens := ts, pl_pools := (pl_pools ch)(pool \<mapsto> p\<lparr>po_total_claimed_redeemable_amount := t\<rparr>),
        pl_lenders := (pl_lenders ch)(key \<mapsto> l\<lparr>le_claimed_redeemable_amount := c\<rparr>)\<rparr>"
  show ?thesis using checked_add_grows [OF t] checked_add_grows [OF c] on
    by (intro lender_rewrite [OF assms(1) p l sd _ _ _ _ _ _ _ ch', where d = "po_total_deposited_collateral_amount p" and c = t])
      simp_all
qed

lemma pool_program_step:
  assumes "pool_inv E ch" and "pool_program E cmd ch = Done ch' u"
  shows "pool_inv E ch' \<and> pool_mono ch ch'"
proof (cases cmd)
  case (TokenTransfer a b c d)
  then obtain ts where "ch' = ch\<lparr>pl_tokens := ts\<rparr>" using assms(2) by (auto split: option.splits)
  then show ?thesis using assms(1) by (auto simp: pool_inv_def pool_mono_def pool_ok_def lender_ok_def)
qed (use assms(2) pool_create_step [OF assms(1)] pool_extract_step [OF assms(1)] pool_update_step [OF assms(1)]
      pool_claimable_step [OF assms(1)] lender_create_step [OF assms(1)] lender_deposit_step [OF assms(1)]
      lender_claim_step [OF assms(1)] in simp_all)

interpretation mining_pool: on_chain_program "pool_program E" "pool_inv E" pool_mono for E
  using pool_program_step pool_mono_refl pool_mono_trans by unfold_locales blast+

section \<open>Shares of a pool\<close>

text \<open>Everything ever repaid to a pool that can be claimed, and a lender's share of it.\<close>

definition repayed :: "chain_env \<Rightarrow> pool_chain \<Rightarrow> pubkey \<Rightarrow> pool \<Rightarrow> nat" where
  "repayed E ch pool p =
     unat (po_total_claimed_redeemable_amount p) + tok_amount (pl_tokens ch) (ce_ata E pool (po_redeemable_mint p))"

definition share :: "chain_env \<Rightarrow> pool_chain \<Rightarrow> pubkey \<Rightarrow> pool \<Rightarrow> lender \<Rightarrow> nat" where
  "share E ch pool p l =
     repayed E ch pool p * unat (le_deposited_collateral_amount l) div unat (po_total_deposited_collateral_amount p)"

text \<open>No lender of the pool has claimed more than its share.\<close>

definition fair :: "chain_env \<Rightarrow> pool_chain \<Rightarrow> pubkey \<Rightarrow> pool \<Rightarrow> bool" where
  "fair E ch pool p \<longleftrightarrow>
     (\<forall>k l. pl_lenders ch k = Some l \<longrightarrow> lender_of E pool k \<longrightarrow> unat (le_claimed_redeemable_amount l) \<le> share E ch pool p l)"

lemma pool_invD:
  assumes "pool_inv E ch" and "pl_pools ch pool = Some p"
  shows "unat (po_total_deposited_collateral_amount p) = deposits E (pl_lenders ch) pool"
    and "unat (po_total_claimed_redeemable_amount p) = claims E (pl_lenders ch) pool"
    and "pool_signs E pool p"
  using pool_inv_parts(3) [OF assms] find_create [OF pool_inv_parts(1) [OF assms(1)]]
  by (auto simp: pool_ok_def pool_signs_def)

lemma found_lender:
  assumes "pool_inv E ch" and "pl_lenders ch key = Some l" and "find_lender E pool user = Some key"
  shows "ce_create_pda E MINING_POOL_ID (lender_seeds pool user) (le_bump l) = Some key"
proof -
  note pda = pool_inv_parts(1) [OF assms(1)]
  obtain b where f: "ce_find_pda E MINING_POOL_ID (lender_seeds pool user) = Some (key, b)"
    using assms(3) by (auto simp: find_lender_def)
  obtain pool' user' where "ce_find_pda E MINING_POOL_ID (lender_seeds pool' user') = Some (key, le_bump l)"
    using pool_inv_parts(4) [OF assms(1,2)] by (auto simp: lender_ok_def)
  then show ?thesis using lender_address_unique [OF pda _ find_create [OF pda f]] find_create [OF pda] by metis
qed

lemma share_le_repayed:
  assumes "pool_inv E ch" and "pl_pools ch pool = Some p" and "pl_lenders ch key = Some l" and "lender_of E pool key"
    and "po_total_deposited_collateral_amount p \<noteq> 0"
  shows "share E ch pool p l \<le> repayed E ch pool p"
proof -
  have d: "unat (le_deposited_collateral_amount l) \<le> unat (po_total_deposited_collateral_amount p)"
    using sum_over_ge [of "pl_lenders ch" "lender_of E pool" key l "\<lambda>l. unat (le_deposited_collateral_amount l)"]
      pool_inv_parts(2) [OF assms(1)] assms(3,4) pool_invD(1) [OF assms(1,2)] by simp
  have "share E ch pool p l \<le> repayed E ch pool p * unat (po_total_deposited_collateral_amount p)
      div unat (po_total_deposited_collateral_amount p)"
    unfolding share_def by (rule div_le_mono [OF mult_le_mono2 [OF d]])
  then show ?thesis using assms(5) by (simp add: unat_eq_zero)
qed

text \<open>In a fair pool the balance covers what is left of any lender's share.\<close>

lemma fair_balance:
  assumes inv: "pool_inv E ch" and p: "pl_pools ch pool = Some p" and l: "pl_lenders ch key = Some l"
    and mine: "lender_of E pool key" and D: "po_total_deposited_collateral_amount p \<noteq> 0" and "fair E ch pool p"
  shows "share E ch pool p l - unat (le_claimed_redeemable_amount l) \<le> tok_amount (pl_tokens ch) (ce_ata E pool (po_redeemable_mint p))"
proof -
  have "0 < unat (po_total_deposited_collateral_amount p)" using D by (simp add: unat_gt_0)
  then have "claims E (pl_lenders ch) pool + (share E ch pool p l - unat (le_claimed_redeemable_amount l)) \<le> repayed E ch pool p"
    unfolding share_def using assms(6) unfolding fair_def share_def
    by (intro prorata_rest [OF pool_inv_parts(2) [OF inv] mine l pool_invD(1) [OF inv p, symmetric]]) auto
  then show ?thesis using pool_invD(2) [OF inv p] by (simp add: repayed_def)
qed

section \<open>Properties\<close>

text \<open>
  The books of a pool balance. Whatever instructions of the mining pool and whatever token transfers are
  executed, in every state they reach the total deposited and the total claimed of each pool are the sums
  over its lenders; no lender's deposit or claim ever decreases, and a pool keeps its authority, its
  collateral mint and, once claiming is enabled, its redeemable mint.
\<close>

theorem pool_totals_are_sums:
  assumes "pool_inv E ch0" and "ch = run_cmds (\<lambda>c. tx (pool_program E c)) cmds ch0"
  shows "(\<forall>pool p. pl_pools ch pool = Some p \<longrightarrow>
            unat (po_total_deposited_collateral_amount p) =
              sum_over (lender_of E pool) (\<lambda>l. unat (le_deposited_collateral_amount l)) (pl_lenders ch) \<and>
            unat (po_total_claimed_redeemable_amount p) =
              sum_over (lender_of E pool) (\<lambda>l. unat (le_claimed_redeemable_amount l)) (pl_lenders ch)) \<and>
         pool_mono ch0 ch"
  using mining_pool.run_mono [OF assms(1), of cmds] pool_invD(1,2) unfolding assms(2) by blast

text \<open>
  A claim pays exactly the amount asked for and never more than the lender's share. A successful claim of
  a lender moves the amount from the pool's redeemable account to the lender's, adds it to the lender's and
  to the pool's claims, changes no deposit, and leaves the lender's claims at most its pro-rata share of
  everything repaid to the pool so far.
\<close>

theorem lender_claim_within_share:
  assumes env: "chain_env_ok E" and inv: "pool_inv E ch"
    and claim: "lender_claim E user ur pool mint key n ch = Done ch' u"
  shows "\<exists>p l t c. pl_pools ch pool = Some p \<and> pl_lenders ch key = Some l \<and>
           pl_pools ch' = (pl_pools ch)(pool \<mapsto> p\<lparr>po_total_claimed_redeemable_amount := t\<rparr>) \<and>
           pl_lenders ch' = (pl_lenders ch)(key \<mapsto> l\<lparr>le_claimed_redeemable_amount := c\<rparr>) \<and>
           unat c = unat (le_claimed_redeemable_amount l) + unat n \<and>
           unat t = unat (po_total_claimed_redeemable_amount p) + unat n \<and>
           unat c \<le> share E ch pool p l \<and>
           tok_amount (pl_tokens ch') =
             moved (ce_ata E pool (po_redeemable_mint p)) ur (unat n) (tok_amount (pl_tokens ch))"
  using claim
proof (rule lender_claim_Done)
  fix p l src ts r s c t
  assume p: "pl_pools ch pool = Some p" and l: "pl_lenders ch key = Some l"
    and src: "pl_tokens ch (ce_ata E pool (po_redeemable_mint p)) = Some src"
    and D: "po_total_deposited_collateral_amount p \<noteq> 0"
    and r: "checked_add (po_total_claimed_redeemable_amount p) (ta_amount src) = Some r"
    and s: "mul_div r (le_deposited_collateral_amount l) (po_total_deposited_collateral_amount p) = Some s"
    and c: "checked_add (le_claimed_redeemable_amount l) n = Some c" and cs: "c \<le> s"
    and t: "checked_add (po_total_claimed_redeemable_amount p) n = Some t"
    and ts: "ce_transfer E (pl_tokens ch) (ce_ata E pool (po_redeemable_mint p)) ur pool n = Some ts"
    and ch': "ch' = ch\<lparr>pl_tokens := ts, pl_pools := (pl_pools ch)(pool \<mapsto> p\<lparr>po_total_claimed_redeemable_amount := t\<rparr>),
        pl_lenders := (pl_lenders ch)(key \<mapsto> l\<lparr>le_claimed_redeemable_amount := c\<rparr>)\<rparr>"
  have "unat s = share E ch pool p l"
    using mul_div_Some [OF s D] checked_add_Some [OF r] src by (simp add: share_def repayed_def tok_amount_def)
  then show ?thesis
    using p l cs checked_add_Some [OF c] checked_add_Some [OF t] transfer_Some [OF chain_env_parts(3) [OF env] ts]
    by (intro exI [of _ p] exI [of _ l] exI [of _ t] exI [of _ c]) (simp add: ch' transfer_effect_def word_le_nat_alt)
qed

text \<open>A pool with two lenders: three units deposited, nine repaid, none claimed.\<close>

definition sample_pool_env :: chain_env where
  "sample_pool_env = table_env [((MINING_POOL_ID, concat (pool_seeds 0)), 70),
     ((MINING_POOL_ID, concat (lender_seeds 70 7)), 80), ((MINING_POOL_ID, concat (lender_seeds 70 8)), 81)] 64"

definition sample_pool :: pool where
  "sample_pool = \<lparr>po_bump = 255, po_index = 0, po_authority = 1, po_collateral_mint = 5,
     po_max_deposit_collateral_amount = 100, po_total_deposited_collateral_amount = 3,
     po_total_extracted_collateral_amount = 0, po_claiming_enabled = True, po_redeemable_mint = 6,
     po_total_claimed_redeemable_amount = 0, po_freeze = False, po_metadata = \<lparr>pm_length = 0, pm_bytes = []\<rparr>\<rparr>"

definition sample_lender :: "u64 \<Rightarrow> lender" where
  "sample_lender d = \<lparr>le_bump = 255, le_deposited_collateral_amount = d, le_claimed_redeemable_amount = 0\<rparr>"

definition sample_pool_chain :: pool_chain where
  "sample_pool_chain = \<lparr>pl_tokens = [70006 \<mapsto> (empty_token_account 6 70)\<lparr>ta_amount := 9\<rparr>, 90 \<mapsto> empty_token_account 6 7],
     pl_mints = (\<lambda>k. k = 5 \<or> k = 6), pl_pools = [70 \<mapsto> sample_pool],
     pl_lenders = [80 \<mapsto> sample_lender 1, 81 \<mapsto> sample_lender 2]\<rparr>"

lemmas sample_pool_defs = sample_pool_chain_def sample_pool_def sample_lender_def sample_pool_env_def table_env_def
  empty_token_account_def

lemma sample_pool_env_ok: "chain_env_ok sample_pool_env"
  unfolding sample_pool_env_def by (rule table_env_ok) simp

lemma sample_pool_seeds [simp]:
  "concat (lender_seeds 70 7) \<noteq> concat (pool_seeds 0)" "concat (lender_seeds 70 8) \<noteq> concat (pool_seeds 0)"
  "concat (lender_seeds 70 8) \<noteq> concat (lender_seeds 70 7)"
  by (simp_all add: lender_seeds_def pool_seeds_def LENDER_SEEDS_PREFIX_def POOL_SEEDS_PREFIX_def)

lemma sample_lender_of: "lender_of sample_pool_env 70 80" "lender_of sample_pool_env 70 81"
  unfolding lender_of_def by (rule exI [of _ 7], simp add: sample_pool_defs) (rule exI [of _ 8], simp add: sample_pool_defs)

lemma sample_pool_inv: "pool_inv sample_pool_env sample_pool_chain"
proof -
  have K: "{k \<in> dom (pl_lenders sample_pool_chain). lender_of sample_pool_env 70 k} = {80, 81}"
    using sample_lender_of by (auto simp: sample_pool_chain_def split: if_splits)
  have "pool_ok sample_pool_env sample_pool_chain 70 sample_pool"
    unfolding pool_ok_def sum_over_def K by (simp add: sample_pool_defs)
  moreover have "lender_ok sample_pool_env sample_pool_chain 80 (sample_lender 1)"
    unfolding lender_ok_def by (intro exI [of _ 70] exI [of _ 7]) (simp add: sample_pool_defs)
  moreover have "lender_ok sample_pool_env sample_pool_chain 81 (sample_lender 2)"
    unfolding lender_ok_def by (intro exI [of _ 70] exI [of _ 8]) (simp add: sample_pool_defs)
  ultimately show ?thesis using chain_env_parts(2) [OF sample_pool_env_ok]
    by (auto simp: pool_inv_def sample_pool_chain_def split: if_splits)
qed

theorem pool_totals_are_sums_witness:
  "let ch = run_cmds (\<lambda>c. tx (pool_program sample_pool_env c)) [LenderClaim 7 90 70 6 80 2, LenderClaim 7 90 70 6 80 2] sample_pool_chain
   in \<forall>p. pl_pools ch 70 = Some p \<longrightarrow> unat (po_total_claimed_redeemable_amount p) =
        sum_over (lender_of sample_pool_env 70) (\<lambda>l. unat (le_claimed_redeemable_amount l)) (pl_lenders ch)"
  using pool_totals_are_sums [OF sample_pool_inv refl] unfolding Let_def by blast

theorem lender_claim_within_share_witness:
  "\<exists>ch' l. lender_claim sample_pool_env 7 90 70 6 80 3 sample_pool_chain = Done ch' () \<and> pl_lenders ch' 80 = Some l \<and>
     unat (le_claimed_redeemable_amount l) = 3"
proof -
  have "\<exists>ch'. lender_claim sample_pool_env 7 90 70 6 80 3 sample_pool_chain = Done ch' ()"
    by (simp add: lender_claim_def with_lender_def with_user_token_def with_associated_token_def checked_add_def
        mul_div_def checked_mul_def checked_div_def pool_signs_def plain_transfer_def sample_pool_defs)
  then obtain ch' where "lender_claim sample_pool_env 7 90 70 6 80 3 sample_pool_chain = Done ch' ()" by blast
  then show ?thesis using lender_claim_within_share [OF sample_pool_env_ok sample_pool_inv, of 7 90 70 6 80 3 ch' "()"]
    by (auto simp: sample_pool_defs)
qed

text \<open>
  C25. Every lender can always claim the rest of its share. In a pool with claiming enabled, not frozen, in
  which no lender has claimed more than its share, a lender with a proper token account may claim any amount
  up to what is left of its share: the checked arithmetic does not overflow, the pool's account holds the
  amount, the claim succeeds, and afterwards still no lender has claimed more than its share. An amount
  beyond it is refused with \<open>ParamsRedeemableAmountIsTooLarge\<close>.
\<close>

theorem share_always_claimable:
  assumes env: "chain_env_ok E" and inv: "pool_inv E ch" and p: "pl_pools ch pool = Some p"
    and state: "po_claiming_enabled p" "\<not> po_freeze p" "po_total_deposited_collateral_amount p \<noteq> 0"
    and fair: "fair E ch pool p" and R: "repayed E ch pool p < 2 ^ 64"
    and key: "find_lender E pool user = Some key" and l: "pl_lenders ch key = Some l"
    and mint: "po_redeemable_mint p = mint" "pl_mints ch mint"
    and src: "pl_tokens ch (ce_ata E pool mint) = Some src" "ta_mint src = mint" "ta_owner src = pool" "\<not> ta_frozen src"
    and dst: "pl_tokens ch ur = Some dst" "ta_mint dst = mint" "ta_owner dst = user" "ta_delegate dst = None"
      "\<not> ta_frozen dst" "ur \<noteq> ce_ata E pool mint" "unat (ta_amount dst) + unat n < 2 ^ 64"
    and n: "unat (le_claimed_redeemable_amount l) + unat n < 2 ^ 64"
  shows "(unat (le_claimed_redeemable_amount l) + unat n \<le> share E ch pool p l \<longrightarrow>
            (\<exists>ch' p'. lender_claim E user ur pool mint key n ch = Done ch' () \<and> pl_pools ch' pool = Some p' \<and>
               fair E ch' pool p')) \<and>
         (share E ch pool p l < unat (le_claimed_redeemable_amount l) + unat n \<longrightarrow>
            lender_claim E user ur pool mint key n ch = Fail ch (Custom ParamsRedeemableAmountIsTooLarge))"
proof -
  note seeds = found_lender [OF inv l key]
  note mine = presented_lender(1) [OF inv l seeds]
  have amt: "tok_amount (pl_tokens ch) (ce_ata E pool mint) = unat (ta_amount src)" by (simp add: tok_amount_def src)
  then have r: "unat (po_total_claimed_redeemable_amount p) + unat (ta_amount src) = repayed E ch pool p"
    by (simp add: repayed_def mint)
  have add: "checked_add (po_total_claimed_redeemable_amount p) (ta_amount src) =
      Some (po_total_claimed_redeemable_amount p + ta_amount src)"
    "checked_add (le_claimed_redeemable_amount l) n = Some (le_claimed_redeemable_amount l + n)"
    using r R n by (simp_all add: checked_add_def)
  note ru = checked_add_Some [OF add(1)] and cu = checked_add_Some [OF add(2)]
  have sm: "share E ch pool p l < 2 ^ 64" using share_le_repayed [OF inv p l mine state(3)] R by simp
  then obtain s where s: "mul_div (po_total_claimed_redeemable_amount p + ta_amount src) (le_deposited_collateral_amount l)
      (po_total_deposited_collateral_amount p) = Some s" "unat s = share E ch pool p l"
    using ru r by (simp add: mul_div_eq [OF state(3)] share_def unat_of_nat_small del: unat_plus_if')
  show ?thesis
  proof (intro conjI impI, goal_cases)
    case 1
    have bal: "unat n \<le> unat (ta_amount src)" using fair_balance [OF inv p l mine state(3) fair] 1 amt mint by simp
    let ?t = "po_total_claimed_redeemable_amount p + n"
    have "unat (po_total_claimed_redeemable_amount p) + unat n < 2 ^ LENGTH(64)" using bal r R by simp
    then have t: "checked_add (po_total_claimed_redeemable_amount p) n = Some ?t" by (rule checked_add_fits)
    note tu = checked_add_Some [OF t]
    obtain ts where ts: "ce_transfer E (pl_tokens ch) (ce_ata E pool mint) ur pool n = Some ts"
      using chain_env_parts(3) [OF env] src dst bal unfolding transfer_ok_def word_le_nat_alt by metis
    let ?ch = "ch\<lparr>pl_tokens := ts, pl_pools := (pl_pools ch)(pool \<mapsto> p\<lparr>po_total_claimed_redeemable_amount := ?t\<rparr>),
        pl_lenders := (pl_lenders ch)(key \<mapsto> l\<lparr>le_claimed_redeemable_amount := le_claimed_redeemable_amount l + n\<rparr>)\<rparr>"
    let ?p = "p\<lparr>po_total_claimed_redeemable_amount := ?t\<rparr>"
    have "lender_claim E user ur pool mint key n ch = Done ?ch ()"
      using p l src dst mint state seeds add s t ts cu 1 pool_invD(3) [OF inv p]
      by (simp del: unat_plus_if' add: lender_claim_def with_lender_def with_user_token_def with_associated_token_def word_le_nat_alt)
    moreover have "repayed E ?ch pool ?p = repayed E ch pool p"
      using transfer_Some [OF chain_env_parts(3) [OF env] ts] bal amt tu dst(6) mint
      by (simp add: repayed_def transfer_effect_def moved_def del: unat_plus_if')
    then have "fair E ?ch pool ?p" using fair 1 cu l mine by (auto simp: fair_def share_def)
    ultimately show ?case by auto
  next
    case 2
    then have "\<not> le_claimed_redeemable_amount l + n \<le> s" using s cu by (simp add: word_le_nat_alt)
    then show ?case using p l src dst mint state seeds add s
      by (simp add: lender_claim_def with_lender_def with_user_token_def with_associated_token_def)
  qed
qed

theorem share_always_claimable_witness:
  "(\<exists>ch' p'. lender_claim sample_pool_env 7 90 70 6 80 3 sample_pool_chain = Done ch' () \<and>
      pl_pools ch' 70 = Some p' \<and> fair sample_pool_env ch' 70 p') \<and>
   lender_claim sample_pool_env 7 90 70 6 80 4 sample_pool_chain = Fail sample_pool_chain (Custom ParamsRedeemableAmountIsTooLarge)"
proof -
  have f: "fair sample_pool_env sample_pool_chain 70 sample_pool"
    by (auto simp: fair_def sample_pool_chain_def sample_lender_def split: if_splits)
  have s: "share sample_pool_env sample_pool_chain 70 sample_pool (sample_lender 1) = 3"
    "repayed sample_pool_env sample_pool_chain 70 sample_pool = 9"
    by (simp_all add: share_def repayed_def tok_amount_def sample_pool_defs)
  have k: "find_lender sample_pool_env 70 7 = Some 80" by (simp add: find_lender_def sample_pool_defs)
  note inst = share_always_claimable [OF sample_pool_env_ok sample_pool_inv, of 70 sample_pool 7 80 "sample_lender 1" 6
    "(empty_token_account 6 70)\<lparr>ta_amount := 9\<rparr>" 90 "empty_token_account 6 7"]
  show ?thesis using inst [of 3] inst [of 4] f s k by (simp add: sample_pool_defs)
qed

end
