(* ===== verification/Central_Server.thy ===== *)
theory Central_Server
  imports Coordinator_Props
begin

text \<open>
  The server of the centralized architecture (\<open>src/architectures/centralized/server/src/app.rs\<close>): it keeps the
  coordinator and the set of connected clients, and handles messages, disconnections, the periodic tick and
  the pause key, one event of \<open>poll_next\<close> at a time. Sockets, the training-data server, the dashboard and the
  file the state is written to are input and output; a handler returns what is broadcast or saved.

  The set of pending clients is a \<open>HashSet\<close>, whose iteration order is not specified: the tick takes the order
  as an argument, and the step relation allows every order. A panic of the coordinator is \<open>None\<close>.
\<close>

section \<open>State\<close>

text \<open>\<open>ClientId\<close> (\<open>shared/src/protocol.rs\<close>) wraps a public key of 32 bytes; its equality is derived.\<close>

type_synonym server_id = "256 word"

definition server_id_as_ref :: "server_id \<Rightarrow> bytes" where
  "server_id_as_ref k = map (\<lambda>i. ucast (drop_bit (8 * i) k)) [0..<32]"

interpretation server_id: node_identity "(=)" server_id_as_ref
  by unfold_locales simp_all

definition server_node_env :: "externs \<Rightarrow> server_id node_env" where
  "server_node_env X = externs.extend X \<lparr>ne_eq = (=), ne_as_ref = server_id_as_ref\<rparr>"

record app =
  ap_coordinator :: "server_id coordinator"
  ap_pending_clients :: "server_id set"
  ap_original_warmup_time :: u64
  ap_withdraw_on_disconnect :: bool
  ap_saves_state :: bool

datatype opportunistic_data = WitnessStep witness | WarmupStep witness

datatype client_to_server_message =
    MsgJoin bytes
  | MsgWitness opportunistic_data
  | MsgHealthCheck "(server_id \<times> committee_proof) list"
  | MsgCheckpoint hub_repo

abbreviation set_coordinator :: "server_id coordinator \<Rightarrow> app \<Rightarrow> app" where
  "set_coordinator c a \<equiv> a\<lparr>ap_coordinator := c\<rparr>"

abbreviation ap_state :: "app \<Rightarrow> run_state" where
  "ap_state a \<equiv> co_run_state (ap_coordinator a)"

section \<open>Handlers\<close>

fun position_of :: "server_id \<Rightarrow> server_id client list \<Rightarrow> nat option" where
  "position_of i [] = None"
| "position_of i (x # xs) = (if cl_id x = i then Some 0 else map_option Suc (position_of i xs))"

definition on_disconnect :: "server_id \<Rightarrow> app \<Rightarrow> app option" where
  "on_disconnect from a =
     (let a = a\<lparr>ap_pending_clients := ap_pending_clients a - {from}\<rparr>
      in if ap_withdraw_on_disconnect a
         then (case position_of from (co_clients (ap_coordinator a)) of
                 None \<Rightarrow> Some a
               | Some index \<Rightarrow>
                   map_option (\<lambda>c. set_coordinator c a) (exec_state (withdraw (of_nat index) (ap_coordinator a))))
         else Some a)"

text \<open>The first part of \<open>post_state_change\<close>; the broadcast itself is the flag the handlers return.\<close>

definition post_state_change :: "app \<Rightarrow> app" where
  "post_state_change a =
     (if active (ap_coordinator a)
      then set_coordinator ((ap_coordinator a)\<lparr>co_config :=
             (co_config (ap_coordinator a))\<lparr>warmup_time := ap_original_warmup_time a\<rparr>\<rparr>) a
      else a)"

fun handle_message ::
    "externs \<Rightarrow> server_id \<Rightarrow> client_to_server_message \<Rightarrow> u64 \<Rightarrow> u64 \<Rightarrow> app \<Rightarrow> (app \<times> bool) option" where
  "handle_message X from (MsgJoin run_id) now seed a =
     Some (if fs_string (co_run_id (ap_coordinator a)) = run_id
           then a\<lparr>ap_pending_clients := insert from (ap_pending_clients a)\<rparr> else a, False)"
| "handle_message X from (MsgWitness d) now seed a =
     (case exec_state (case d of
                WitnessStep w \<Rightarrow> witness (server_node_env X) from w now (ap_coordinator a)
              | WarmupStep w \<Rightarrow> warmup_witness (server_node_env X) from w now seed (ap_coordinator a)) of
        None \<Rightarrow> None
      | Some c \<Rightarrow> Some (set_coordinator c a, co_run_state c \<noteq> ap_state a))"
| "handle_message X from (MsgHealthCheck checks) now seed a =
     (case health_check (server_node_env X) from checks (ap_coordinator a) of
        Panic \<Rightarrow> None
      | Fail c e \<Rightarrow> Some (set_coordinator c a, False)
      | Done c dropped \<Rightarrow> Some (set_coordinator c a, 0 < dropped))"
| "handle_message X from (MsgCheckpoint repo) now seed a =
     (case position_of from (co_clients (ap_coordinator a)) of
        None \<Rightarrow> Some (a, True)
      | Some index \<Rightarrow>
          (case exec_state (checkpoint (server_node_env X) from (of_nat index) repo (ap_coordinator a)) of
             None \<Rightarrow> None
           | Some c \<Rightarrow> Some (set_coordinator c a, True)))"

definition on_client_message ::
    "externs \<Rightarrow> server_id \<Rightarrow> client_to_server_message \<Rightarrow> u64 \<Rightarrow> u64 \<Rightarrow> app \<Rightarrow> (app \<times> bool) option" where
  "on_client_message X from msg now seed a =
     map_option (\<lambda>(a, broadcast). (post_state_change a, broadcast)) (handle_message X from msg now seed a)"

definition kick_unhealthy_clients :: "app \<Rightarrow> app" where
  "kick_unhealthy_clients a = a\<lparr>ap_pending_clients :=
     foldl (\<lambda>ps client. if cl_state client \<noteq> Healthy then ps - {cl_id client} else ps)
       (ap_pending_clients a) (co_exited (ap_coordinator a))\<rparr>"

text \<open>\<open>Client::default()\<close> overwrites every client; the vectors keep their length.\<close>

definition reset_ephemeral :: "server_id coordinator \<Rightarrow> server_id coordinator" where
  "reset_ephemeral c = set_epoch (\<lambda>es. es\<lparr>es_clients := map (\<lambda>_. client_new 0) (es_clients es),
     es_exited_clients := map (\<lambda>_. client_new 0) (es_exited_clients es)\<rparr>) (c\<lparr>co_run_state := WaitingForMembers\<rparr>)"

text \<open>
  The tick, with the pending clients in the order the set yields them. At the end of a successful epoch a
  server with a \<open>save_state_dir\<close> writes a state with the step of its file name, which is returned.
\<close>

definition on_tick ::
    "externs \<Rightarrow> server_id list \<Rightarrow> u64 \<Rightarrow> u64 \<Rightarrow> app \<Rightarrow> (app \<times> (server_id coordinator \<times> u32) option) option" where
  "on_tick X order now seed a =
     (let a = kick_unhealthy_clients a
      in case tick (server_node_env X) (Some order) now seed (ap_coordinator a) of
           Panic \<Rightarrow> None
         | Fail c e \<Rightarrow> Some (post_state_change (set_coordinator c a), None)
         | Done c r \<Rightarrow>
             (if r = EpochEnd True \<and> ap_saves_state a
              then map_option (\<lambda>n. (post_state_change (set_coordinator c a), Some (reset_ephemeral c, n)))
                     (checked_sub (co_step c) 1)
              else Some (post_state_change (set_coordinator c a), None)))"

definition toggle_pause :: "u64 \<Rightarrow> app \<Rightarrow> app option" where
  "toggle_pause now a =
     map_option (\<lambda>c. set_coordinator c a)
       (exec_state (if ap_state a = Paused then resume now (ap_coordinator a) else pause now (ap_coordinator a)))"

text \<open>The part of \<open>App::new\<close> that decides about the coordinator; \<open>None\<close> is the failed sanity check.\<close>

definition app_new :: "server_id coordinator \<Rightarrow> bool \<Rightarrow> u64 option \<Rightarrow> bool \<Rightarrow> app option" where
  "app_new c saves_state init_warmup_time withdraw_on_disconnect =
     (if \<not> config_check (co_config c) then None
      else let c = reset_ephemeral c;
               original = warmup_time (co_config c);
               c = (case init_warmup_time of None \<Rightarrow> c
                    | Some t \<Rightarrow> c\<lparr>co_config := (co_config c)\<lparr>warmup_time := t\<rparr>\<rparr>)
           in Some \<lparr>ap_coordinator = c, ap_pending_clients = {}, ap_original_warmup_time = original,
                ap_withdraw_on_disconnect = withdraw_on_disconnect, ap_saves_state = saves_state\<rparr>)"

section \<open>Events\<close>

datatype server_event =
    Message server_id client_to_server_message u64 u64
  | Disconnected server_id
  | TickInterval "server_id list" u64 u64
  | PauseKey u64

text \<open>One round of \<open>poll_next\<close>. A tick iterates over the pending clients in some order, each once.\<close>

inductive server_step :: "externs \<Rightarrow> app \<Rightarrow> server_event \<Rightarrow> app \<Rightarrow> bool" for X :: externs where
  step_message: "on_client_message X from msg now seed a = Some (a', b) \<Longrightarrow> server_step X a (Message from msg now seed) a'"
| step_disconnect: "on_disconnect from a = Some a' \<Longrightarrow> server_step X a (Disconnected from) a'"
| step_tick: "distinct order \<Longrightarrow> set order = ap_pending_clients (kick_unhealthy_clients a) \<Longrightarrow>
    on_tick X order now seed a = Some (a', saved) \<Longrightarrow> server_step X a (TickInterval order now seed) a'"
| step_pause: "toggle_pause now a = Some a' \<Longrightarrow> server_step X a (PauseKey now) a'"

inductive_cases tick_stepE: "server_step X a (TickInterval order now seed) a'"

inductive server_run :: "externs \<Rightarrow> app \<Rightarrow> server_event list \<Rightarrow> app \<Rightarrow> bool" for X :: externs where
  run_nil: "server_run X a [] a"
| run_cons: "server_step X a e b \<Longrightarrow> server_run X b es c \<Longrightarrow> server_run X a (e # es) c"

section \<open>The invariant\<close>

text \<open>
  The coordinator's own invariant; the warm-up time that was set for the first epoch only is back to its
  original value once the coordinator has become active.
\<close>

definition app_inv :: "externs \<Rightarrow> app \<Rightarrow> bool" where
  "app_inv X a \<longleftrightarrow> co_inv (server_node_env X) (ap_coordinator a) \<and> finite (ap_pending_clients a) \<and>
     (active (ap_coordinator a) \<longrightarrow> warmup_time (co_config (ap_coordinator a)) = ap_original_warmup_time a)"

text \<open>The invariant of the coordinator does not depend on the warm-up time.\<close>

lemma data_index_at_cong:
  assumes "\<And>t. get_batch_size cfg t = get_batch_size cfg' t"
  shows "data_index_at cfg sl n = data_index_at cfg' sl n"
  by (induction n) (simp_all add: assms)

lemma co_inv_warmup_time: "co_inv E (c\<lparr>co_config := (co_config c)\<lparr>warmup_time := t\<rparr>\<rparr>) = co_inv E c"
proof -
  let ?c = "c\<lparr>co_config := (co_config c)\<lparr>warmup_time := t\<rparr>\<rparr>"
  have d: "data_after ?c n = data_after c n" for n
    by (simp add: get_sequence_length_def) (rule data_index_at_cong, simp add: get_batch_size_def)
  have r: "current_round ?c = current_round c" "previous_round ?c = previous_round c"
    "previous_previous_round ?c = previous_previous_round c"
    by (simp_all add: current_round_def previous_round_def previous_previous_round_def cong: option.case_cong if_cong)
  have f: "from_coordinator E ?c o' = from_coordinator E c o'" for o'
    by (simp add: from_coordinator_def r cong: option.case_cong if_cong)
  have w: "witness_ok E ?c w = witness_ok E c w" for w by (simp add: witness_ok_def f)
  have ro: "round_ok E ?c x = round_ok E c x" for x
    unfolding round_ok_def d w by (simp add: ring_ok_def ring_round_def)
  show ?thesis
    unfolding co_inv_def phase_ok_def train_ok_def cool_ok_def warm_ok_def at_rest_def r ro d
    by (simp add: config_check_def co_base_def cong: run_state.case_cong option.case_cong)
qed

lemma post_state_change_inv:
  assumes "co_inv (server_node_env X) (ap_coordinator a)" and "finite (ap_pending_clients a)"
  shows "app_inv X (post_state_change a)"
  using assms by (simp add: app_inv_def post_state_change_def co_inv_warmup_time)

lemma post_state_change_simps [simp]:
  "ap_pending_clients (post_state_change a) = ap_pending_clients a" "ap_state (post_state_change a) = ap_state a"
  "co_clients (ap_coordinator (post_state_change a)) = co_clients (ap_coordinator a)"
  by (simp_all add: post_state_change_def)

text \<open>Whatever a command leaves behind satisfies the invariant.\<close>

lemma exec_state_inv: "holds I r \<Longrightarrow> exec_state r = Some c \<Longrightarrow> I c"
  by (simp add: holds_exec_state)

lemma handle_message_inv:
  assumes "app_inv X a" and "handle_message X from msg now seed a = Some (a', b)"
  shows "co_inv (server_node_env X) (ap_coordinator a') \<and> finite (ap_pending_clients a')"
proof -
  have i: "co_inv (server_node_env X) (ap_coordinator a)" and f: "finite (ap_pending_clients a)"
    using assms(1) by (simp_all add: app_inv_def)
  show ?thesis
  proof (cases msg)
    case (MsgJoin r)
    then show ?thesis using assms(2) i f by auto
  next
    case (MsgWitness d)
    then show ?thesis using assms(2) f exec_state_inv [OF witness_inv [OF i]] exec_state_inv [OF warmup_witness_inv [OF i]]
      by (cases d) (auto split: option.splits)
  next
    case (MsgHealthCheck cs)
    then show ?thesis using assms(2) f health_check_inv [OF i, of "from" cs] by (auto split: exec.splits)
  next
    case (MsgCheckpoint repo)
    then show ?thesis using assms(2) i f exec_state_inv [OF checkpoint_inv [OF i]] by (auto split: option.splits)
  qed
qed

lemma set_coordinator_simps [simp]:
  "ap_coordinator (set_coordinator c a) = c" "ap_pending_clients (set_coordinator c a) = ap_pending_clients a"
  by simp_all

lemma on_client_message_inv:
  assumes "app_inv X a" and "on_client_message X from msg now seed a = Some (a', b)"
  shows "app_inv X a'"
proof -
  obtain a1 where "handle_message X from msg now seed a = Some (a1, b)" "a' = post_state_change a1"
    using assms(2) by (auto simp: on_client_message_def)
  then show ?thesis using handle_message_inv [OF assms(1)] post_state_change_inv by blast
qed

lemma withdraw_frame:
  assumes "exec_state (withdraw i c) = Some d"
  shows "co_config d = co_config c \<and> co_run_state d = co_run_state c"
  using assms by (auto simp: withdraw_def split: option.splits if_splits)

lemma on_disconnect_inv:
  assumes "app_inv X a" and "on_disconnect from a = Some a'"
  shows "app_inv X a'"
proof -
  let ?b = "a\<lparr>ap_pending_clients := ap_pending_clients a - {from}\<rparr>"
  have i: "co_inv (server_node_env X) (ap_coordinator a)" and b: "app_inv X ?b" using assms(1) by (simp_all add: app_inv_def)
  consider "a' = ?b" | c n where "exec_state (withdraw n (ap_coordinator a)) = Some c" "a' = set_coordinator c ?b"
    using assms(2) by (auto simp: on_disconnect_def Let_def split: if_splits option.splits)
  then show ?thesis
  proof cases
    case 2
    then show ?thesis using b exec_state_inv [OF withdraw_inv [OF i] 2(1)] withdraw_frame [OF 2(1)]
      by (simp add: app_inv_def active_def)
  qed (use b in simp)
qed

lemma kick_simps [simp]:
  "ap_coordinator (kick_unhealthy_clients a) = ap_coordinator a"
  "ap_original_warmup_time (kick_unhealthy_clients a) = ap_original_warmup_time a"
  "ap_saves_state (kick_unhealthy_clients a) = ap_saves_state a"
  by (simp_all add: kick_unhealthy_clients_def)

lemma kick_fold:
  "foldl (\<lambda>ps x. if cl_state x \<noteq> Healthy then ps - {cl_id x} else ps) ps xs = ps - cl_id ` {x \<in> set xs. cl_state x \<noteq> Healthy}"
  by (induction xs arbitrary: ps) auto

lemma kicked:
  "ap_pending_clients (kick_unhealthy_clients a) =
     ap_pending_clients a - cl_id ` {x \<in> set (co_exited (ap_coordinator a)). cl_state x \<noteq> Healthy}"
  by (simp add: kick_unhealthy_clients_def kick_fold)

lemma on_tick_eq:
  assumes "on_tick X order now seed a = Some (a', saved)"
  obtains c where "exec_state (tick (server_node_env X) (Some order) now seed (ap_coordinator a)) = Some c"
    and "a' = post_state_change (set_coordinator c (kick_unhealthy_clients a))"
  using assms by (auto simp: on_tick_def Let_def split: exec.splits if_splits)

lemma on_tick_inv:
  assumes "app_inv X a" and "on_tick X order now seed a = Some (a', saved)"
  shows "app_inv X a'"
  using assms(2)
proof (rule on_tick_eq)
  fix c assume c: "exec_state (tick (server_node_env X) (Some order) now seed (ap_coordinator a)) = Some c"
    and a': "a' = post_state_change (set_coordinator c (kick_unhealthy_clients a))"
  have "co_inv (server_node_env X) c" using assms(1) exec_state_inv [OF tick_inv c] by (simp add: app_inv_def)
  then show ?thesis unfolding a' using assms(1) by (intro post_state_change_inv) (simp_all add: kicked app_inv_def)
qed

text \<open>Pausing and resuming do not make the coordinator active.\<close>

lemma pause_frame:
  assumes "exec_state (pause t c) = Some d" and "active d"
  shows "active c \<and> co_config d = co_config c"
proof (cases "halted c \<or> active c")
  case True
  then show ?thesis using assms by (auto simp: pause_def active_def halted_def split: if_splits)
next
  case False
  have "\<not> active d"
  proof (cases "withdraw_all c")
    case (Fail d' e)
    then show ?thesis using False assms(1) withdraw_all_only_clients [of c]
      by (auto simp: pause_def only_clients_def active_def)
  qed (use False assms(1) in \<open>auto simp: pause_def change_state_def active_def split: if_splits\<close>)
  then show ?thesis using assms(2) by simp
qed

lemma resume_frame: "exec_state (resume t c) = Some d \<Longrightarrow> active d \<longrightarrow> active c \<and> co_config d = co_config c"
  by (auto simp: resume_def start_waiting_for_members_def change_state_def active_def split: if_splits)

lemma toggle_pause_inv:
  assumes "app_inv X a" and "toggle_pause now a = Some a'"
  shows "app_inv X a'"
proof -
  have i: "co_inv (server_node_env X) (ap_coordinator a)" using assms(1) by (simp add: app_inv_def)
  obtain c where c: "exec_state (if ap_state a = Paused then resume now (ap_coordinator a) else pause now (ap_coordinator a)) = Some c"
    and a': "a' = set_coordinator c a" using assms(2) by (auto simp: toggle_pause_def)
  have "co_inv (server_node_env X) c"
    using c exec_state_inv [OF resume_inv [OF i]] exec_state_inv [OF pause_inv [OF i]] by (auto split: if_splits)
  moreover have "active c \<longrightarrow> active (ap_coordinator a) \<and> co_config c = co_config (ap_coordinator a)"
    using c resume_frame [of now "ap_coordinator a" c] pause_frame [of now "ap_coordinator a" c] by (auto split: if_splits)
  ultimately show ?thesis using assms(1) by (auto simp: app_inv_def a')
qed

lemma server_step_inv: "server_step X a e b \<Longrightarrow> app_inv X a \<Longrightarrow> app_inv X b"
  by (induction rule: server_step.induct)
    (auto intro: on_client_message_inv on_disconnect_inv on_tick_inv toggle_pause_inv)

lemma server_run_inv: "server_run X a es b \<Longrightarrow> app_inv X a \<Longrightarrow> app_inv X b"
  by (induction rule: server_run.induct) (auto intro: server_step_inv)

text \<open>A server started on a coordinator without clients, between epochs.\<close>

lemma app_new_inv:
  assumes "app_new c saves t w = Some a" and "co_base c" and "co_exited c = []" and "at_rest c"
    and "progress_check (co_progress c)" and "co_step c < total_steps (co_config c)"
  shows "app_inv X a"
proof -
  have cfg: "config_check (co_config c)" using assms(1) by (auto simp: app_new_def split: if_splits)
  have "co_inv E (reset_ephemeral c)" for E :: "server_id node_env"
    using assms cfg
    by (simp add: co_inv_def co_base_def phase_ok_def at_rest_def reset_ephemeral_def get_sequence_length_def)
  moreover have "\<not> active (reset_ephemeral c)" "\<not> active ((reset_ephemeral c)\<lparr>co_config := x\<rparr>)" for x
    by (simp_all add: active_def reset_ephemeral_def)
  ultimately show ?thesis using assms(1)
    by (auto simp: app_new_def app_inv_def Let_def co_inv_warmup_time split: if_splits option.splits)
qed

text \<open>A message whose handling is not broadcast leaves the run state alone.\<close>

lemma check_unhealthy_same: "holds (\<lambda>d. d = c) (check_unhealthy E checks c)"
  by (induction E checks c rule: check_unhealthy.induct) (auto intro!: holds_need split: sum.split)

lemma silent_message:
  assumes "on_client_message X from msg now seed a = Some (a', False)"
  shows "ap_state a' = ap_state a"
proof -
  obtain a1 where h: "handle_message X from msg now seed a = Some (a1, False)" and a': "a' = post_state_change a1"
    using assms by (auto simp: on_client_message_def)
  have "ap_state a1 = ap_state a"
  proof (cases msg)
    case (MsgHealthCheck cs)
    then show ?thesis using h check_unhealthy_same [of "ap_coordinator a" "server_node_env X" cs]
      by (auto simp: health_check_def exec_iffs split: exec.splits option.splits if_splits)
  qed (use h in \<open>auto split: option.splits if_splits\<close>)
  then show ?thesis by (simp add: a')
qed

section \<open>Property\<close>

lemma tick_waiting_starts:
  assumes "co_run_state c = WaitingForMembers"
  shows "holds (\<lambda>d. co_run_state d = Warmup \<longrightarrow> co_clients d = map client_new (take SOLANA_MAX_NUM_CLIENTS order))
    (tick_waiting_for_members E (Some order) now c)"
  using assms unfolding tick_waiting_for_members_def
  by (auto simp: new_epoch_eq start_warmup_def change_state_def Let_def intro!: holds_need) (auto split: if_splits)

lemma tick_starts_epoch:
  assumes "exec_state (tick E (Some order) now seed c) = Some d" and "co_run_state c = WaitingForMembers"
    and "co_run_state d = Warmup"
  shows "co_clients d = map client_new (take SOLANA_MAX_NUM_CLIENTS order)"
  using exec_state_inv [OF tick_waiting_starts [OF assms(2), of order E now]] assms by (simp add: tick_def)


text \<open>A server whose coordinator waits for members: two clients join, then a tick starts the epoch.\<close>

definition sample_app :: "server_id set \<Rightarrow> app" where
  "sample_app ps = \<lparr>ap_coordinator = fresh WaitingForMembers sample_config sample_llm, ap_pending_clients = ps,
     ap_original_warmup_time = 30, ap_withdraw_on_disconnect = True, ap_saves_state = False\<rparr>"

lemma sample_join:
  "server_step sample_externs (sample_app ps) (Message i (MsgJoin []) t s) (sample_app (insert i ps))"
proof (rule step_message)
  show "on_client_message sample_externs i (MsgJoin []) t s (sample_app ps) = Some (sample_app (insert i ps), False)"
    by (simp add: on_client_message_def sample_app_def fresh_def fs_string_def post_state_change_def active_def)
qed

lemma sample_tick:
  fixes E :: "server_id node_env"
  shows "\<exists>c. tick E (Some [9, 7]) 10 5 (fresh WaitingForMembers sample_config sample_llm) = Done c Ticked \<and> co_run_state c = Warmup"
  by (simp add: tick_def tick_waiting_for_members_def fresh_def sample_config_def check_timeout_def checked_add_def
      current_round_unchecked_def move_clients_to_exited_def new_epoch_eq start_warmup_def change_state_def
      default_epoch_state_def zero_epoch_state_def NUM_STORED_ROUNDS_def Let_def nth_opt_def)


end
