(* ===== verification/Merkle.thy ===== *)
theory Merkle
  imports Shuffling "HOL-Library.Monad_Syntax"
begin

text \<open>
  Merkle trees (\<open>src/shared/core/src/merkle_tree.rs\<close>): the tree is one vector of hashes, level after level
  from the leaves to the root; a proof is the list of the nodes above a leaf, each with the sibling that was
  hashed into it. The theory relates the index arithmetic of construction and path search to the sequence
  of levels, and proves that paths verify and that only items of the tree have verifying paths.

  A \<open>HashWrapper\<close> is its 32 bytes. The hasher is the parameter \<open>sha\<close>. Indices are lengths of vectors in
  memory, which do not overflow; indexing out of range and failed assertions are the outer \<open>None\<close>.
\<close>

section \<open>Definitions\<close>

type_synonym hash_wrapper = bytes

definition LEAF_PREFIX :: bytes where "LEAF_PREFIX = [0]"
definition INTERMEDIATE_PREFIX :: bytes where "INTERMEDIATE_PREFIX = [1]"

definition hash_leaf :: "sha \<Rightarrow> bytes \<Rightarrow> hash_wrapper" where
  "hash_leaf sha d = sha256v sha [LEAF_PREFIX, d]"

definition hash_intermediate :: "sha \<Rightarrow> hash_wrapper \<Rightarrow> hash_wrapper \<Rightarrow> hash_wrapper" where
  "hash_intermediate sha l r = sha256v sha [INTERMEDIATE_PREFIX, l, r]"

record merkle_tree =
  mt_leaf_count :: nat
  mt_nodes :: "hash_wrapper list"

record proof_entry =
  pe_target :: hash_wrapper
  pe_left_sibling :: "hash_wrapper option"
  pe_right_sibling :: "hash_wrapper option"

definition proof_entry_new ::
    "hash_wrapper \<Rightarrow> hash_wrapper option \<Rightarrow> hash_wrapper option \<Rightarrow> proof_entry option" where
  "proof_entry_new target left_sibling right_sibling =
     (if (left_sibling = None) \<noteq> (right_sibling = None)
      then Some \<lparr>pe_target = target, pe_left_sibling = left_sibling, pe_right_sibling = right_sibling\<rparr>
      else None)"

definition unwrap_or :: "'a option \<Rightarrow> 'a \<Rightarrow> 'a" where
  "unwrap_or x d = (case x of None \<Rightarrow> d | Some v \<Rightarrow> v)"

text \<open>\<open>Proof::verify\<close>: the \<open>try_fold\<close> over the entries.\<close>

fun verify_loop :: "sha \<Rightarrow> hash_wrapper \<Rightarrow> proof_entry list \<Rightarrow> hash_wrapper option" where
  "verify_loop sha candidate [] = Some candidate"
| "verify_loop sha candidate (pe # pes) =
     (let lsib = unwrap_or (pe_left_sibling pe) candidate;
          rsib = unwrap_or (pe_right_sibling pe) candidate;
          hash = hash_intermediate sha lsib rsib
      in if hash = pe_target pe then verify_loop sha hash pes else None)"

definition proof_verify :: "sha \<Rightarrow> proof_entry list \<Rightarrow> hash_wrapper \<Rightarrow> bool" where
  "proof_verify sha pf candidate \<longleftrightarrow> verify_loop sha candidate pf \<noteq> None"

definition verify_item :: "sha \<Rightarrow> proof_entry list \<Rightarrow> bytes \<Rightarrow> bool" where
  "verify_item sha pf item = proof_verify sha pf (hash_leaf sha item)"

definition proof_root :: "proof_entry list \<Rightarrow> hash_wrapper option" where
  "proof_root pf = (if pf = [] then None else Some (pe_target (last pf)))"

text \<open>\<open>OwnedProof::verify\<close> takes the siblings the other way round.\<close>

fun owned_verify_loop :: "sha \<Rightarrow> hash_wrapper \<Rightarrow> proof_entry list \<Rightarrow> hash_wrapper option" where
  "owned_verify_loop sha candidate [] = Some candidate"
| "owned_verify_loop sha candidate (pe # pes) =
     (let lsib = unwrap_or (pe_right_sibling pe) candidate;
          rsib = unwrap_or (pe_left_sibling pe) candidate;
          hash = hash_intermediate sha lsib rsib
      in if hash = pe_target pe then owned_verify_loop sha hash pes else None)"

definition owned_verify_item :: "sha \<Rightarrow> proof_entry list \<Rightarrow> bytes \<Rightarrow> bool" where
  "owned_verify_item sha pf item \<longleftrightarrow> owned_verify_loop sha (hash_leaf sha item) pf \<noteq> None"

definition next_level_len :: "nat \<Rightarrow> nat" where
  "next_level_len level_len = (if level_len = 1 then 0 else (level_len + 1) div 2)"

text \<open>The inner loop of \<open>MerkleTree::new\<close>, over the nodes of a level.\<close>

fun level_loop :: "sha \<Rightarrow> nat \<Rightarrow> nat \<Rightarrow> nat list \<Rightarrow> hash_wrapper list \<Rightarrow> hash_wrapper list option" where
  "level_loop sha prev_level_start prev_level_len [] nodes = Some nodes"
| "level_loop sha prev_level_start prev_level_len (i # js) nodes =
     do {
       let prev_level_idx = 2 * i;
       lsib \<leftarrow> nth_opt nodes (prev_level_start + prev_level_idx);
       rsib \<leftarrow> (if prev_level_idx + 1 < prev_level_len
                then nth_opt nodes (prev_level_start + prev_level_idx + 1)
                else nth_opt nodes (prev_level_start + prev_level_idx));
       level_loop sha prev_level_start prev_level_len js (nodes @ [hash_intermediate sha lsib rsib])
     }"

text \<open>The outer loop: the length of a level shrinks until it is zero.\<close>

function build_loop ::
    "sha \<Rightarrow> nat \<Rightarrow> nat \<Rightarrow> nat \<Rightarrow> nat \<Rightarrow> hash_wrapper list \<Rightarrow> hash_wrapper list option" where
  "build_loop sha level_len level_start prev_level_len prev_level_start nodes =
     (if 0 < level_len
      then do {
        nodes \<leftarrow> level_loop sha prev_level_start prev_level_len [0..<level_len] nodes;
        build_loop sha (next_level_len level_len) (level_start + level_len) level_len level_start nodes
      }
      else Some nodes)"
  by pat_completeness auto
termination
  by (relation "measure (\<lambda>(_, level_len, _). level_len)") (auto simp: next_level_len_def)

definition merkle_new :: "sha \<Rightarrow> bytes list \<Rightarrow> merkle_tree option" where
  "merkle_new sha items =
     do {
       nodes \<leftarrow> build_loop sha (next_level_len (length items)) (length items) (length items) 0
                 (map (hash_leaf sha) items);
       Some \<lparr>mt_leaf_count = length items, mt_nodes = nodes\<rparr>
     }"

definition get_root :: "merkle_tree \<Rightarrow> hash_wrapper option" where
  "get_root t = (if mt_nodes t = [] then None else Some (last (mt_nodes t)))"

text \<open>\<open>&xs[a..a + n]\<close>\<close>

definition slice_opt :: "'a list \<Rightarrow> nat \<Rightarrow> nat \<Rightarrow> 'a list option" where
  "slice_opt xs a n = (if a + n \<le> length xs then Some (take n (drop a xs)) else None)"

function path_loop ::
    "hash_wrapper list \<Rightarrow> nat \<Rightarrow> nat \<Rightarrow> nat \<Rightarrow> hash_wrapper option \<Rightarrow> hash_wrapper option \<Rightarrow> proof_entry list \<Rightarrow>
     proof_entry list option" where
  "path_loop nodes level_len level_start node_index lsib rsib path =
     (if 0 < level_len
      then do {
        level \<leftarrow> slice_opt nodes level_start level_len;
        target \<leftarrow> nth_opt level node_index;
        path \<leftarrow> (if lsib \<noteq> None \<or> rsib \<noteq> None
                 then do { e \<leftarrow> proof_entry_new target lsib rsib; Some (path @ [e]) }
                 else Some path);
        (lsib, rsib) \<leftarrow>
          (if node_index mod 2 = 0
           then do {
             r \<leftarrow> (if node_index + 1 < length level then nth_opt level (node_index + 1) else nth_opt level node_index);
             Some (None, Some r)
           }
           else do { l \<leftarrow> nth_opt level (node_index - 1); Some (Some l, None) });
        path_loop nodes (next_level_len level_len) (level_start + level_len) (node_index div 2) lsib rsib path
      }
      else Some path)"
  by pat_completeness auto
termination
  by (relation "measure (\<lambda>(_, level_len, _). level_len)") (auto simp: next_level_len_def)

definition find_path :: "merkle_tree \<Rightarrow> nat \<Rightarrow> proof_entry list option option" where
  "find_path t index =
     (if mt_leaf_count t \<le> index then Some None
      else map_option Some (path_loop (mt_nodes t) (mt_leaf_count t) 0 index None None []))"

declare build_loop.simps [simp del] path_loop.simps [simp del]

section \<open>Levels\<close>

text \<open>The parent of the nodes \<open>2i\<close> and \<open>2i + 1\<close> of a level; the last node of an odd level is its own sibling.\<close>

definition sibling :: "nat \<Rightarrow> nat \<Rightarrow> nat" where
  "sibling n i = (if i mod 2 = 0 then (if i + 1 < n then i + 1 else i) else i - 1)"

definition parent :: "sha \<Rightarrow> hash_wrapper list \<Rightarrow> nat \<Rightarrow> hash_wrapper" where
  "parent sha lvl i = hash_intermediate sha (lvl ! (2 * i)) (lvl ! sibling (length lvl) (2 * i))"

definition next_level :: "sha \<Rightarrow> hash_wrapper list \<Rightarrow> hash_wrapper list" where
  "next_level sha lvl = map (parent sha lvl) [0..<(length lvl + 1) div 2]"

lemma length_next_level [simp]: "length (next_level sha lvl) = (length lvl + 1) div 2"
  by (simp add: next_level_def)

function levels :: "sha \<Rightarrow> hash_wrapper list \<Rightarrow> hash_wrapper list list" where
  "levels sha lvl = (if length lvl \<le> 1 then [lvl] else lvl # levels sha (next_level sha lvl))"
  by pat_completeness auto
termination
  by (relation "measure (\<lambda>(_, lvl). length lvl)") auto

declare levels.simps [simp del]

text \<open>The path of a node: its parent with the sibling, then the path of the parent.\<close>

definition entry_above :: "sha \<Rightarrow> hash_wrapper list \<Rightarrow> nat \<Rightarrow> proof_entry" where
  "entry_above sha lvl i = \<lparr>pe_target = parent sha lvl (i div 2),
     pe_left_sibling = (if i mod 2 = 0 then None else Some (lvl ! sibling (length lvl) i)),
     pe_right_sibling = (if i mod 2 = 0 then Some (lvl ! sibling (length lvl) i) else None)\<rparr>"

function path_of :: "sha \<Rightarrow> hash_wrapper list \<Rightarrow> nat \<Rightarrow> proof_entry list" where
  "path_of sha lvl i =
     (if length lvl \<le> 1 then [] else entry_above sha lvl i # path_of sha (next_level sha lvl) (i div 2))"
  by pat_completeness auto
termination
  by (relation "measure (\<lambda>(_, lvl, _). length lvl)") auto

declare path_of.simps [simp del]

definition root_of :: "sha \<Rightarrow> hash_wrapper list \<Rightarrow> hash_wrapper" where
  "root_of sha lvl = last (concat (levels sha lvl))"

lemma levels_nonempty: "lvl \<noteq> [] \<Longrightarrow> concat (levels sha lvl) \<noteq> []"
  by (subst levels.simps) auto

lemma root_of_simps:
  "root_of sha [h] = h" "1 < length lvl \<Longrightarrow> root_of sha lvl = root_of sha (next_level sha lvl)"
proof -
  show "root_of sha [h] = h" by (simp add: root_of_def levels.simps)
  assume l: "1 < length lvl"
  then have "next_level sha lvl \<noteq> []" by (auto simp: next_level_def)
  then show "root_of sha lvl = root_of sha (next_level sha lvl)"
    using levels_nonempty [of "next_level sha lvl" sha] l by (simp add: root_of_def levels.simps [of sha lvl])
qed

section \<open>Construction\<close>

lemma level_loop_eq:
  assumes "nodes = pre @ lvl @ post" and "\<forall>i \<in> set js. 2 * i < length lvl"
  shows "level_loop sha (length pre) (length lvl) js nodes = Some (nodes @ map (parent sha lvl) js)"
  using assms
proof (induction js arbitrary: nodes post)
  case (Cons i js)
  have at: "nth_opt nodes (length pre + j) = Some (lvl ! j)" if "j < length lvl" for j
    using that Cons.prems(1) by (simp add: nth_opt_def nth_append)
  have l: "2 * i < length lvl" using Cons.prems(2) by simp
  then have r: "(if 2 * i + 1 < length lvl then nth_opt nodes (length pre + 2 * i + 1) else nth_opt nodes (length pre + 2 * i)) =
      Some (lvl ! sibling (length lvl) (2 * i))"
    using at [of "2 * i"] at [of "2 * i + 1"] by (simp add: sibling_def)
  have "level_loop sha (length pre) (length lvl) (i # js) nodes =
      level_loop sha (length pre) (length lvl) js (nodes @ [parent sha lvl i])"
    unfolding level_loop.simps Let_def r unfolding at [OF l] by (simp add: parent_def)
  then show ?case
    using Cons.prems Cons.IH [of "nodes @ [parent sha lvl i]" "post @ [parent sha lvl i]"] by simp
qed simp

lemma build_loop_eq:
  assumes "lvl \<noteq> []"
  shows "build_loop sha (next_level_len (length lvl)) (length (pre @ lvl)) (length lvl) (length pre) (pre @ lvl) =
    Some (pre @ concat (levels sha lvl))"
  using assms
proof (induction sha lvl arbitrary: pre rule: levels.induct)
  case (1 sha lvl)
  show ?case
  proof (cases "length lvl \<le> 1")
    case True
    then have "length lvl = 1" using "1.prems" by (cases lvl) auto
    then show ?thesis by (simp add: next_level_len_def build_loop.simps levels.simps)
  next
    case False
    let ?n = "(length lvl + 1) div 2" and ?up = "next_level sha lvl"
    have n: "next_level_len (length lvl) = ?n" "0 < ?n" using False by (auto simp: next_level_len_def)
    have half: "\<forall>i \<in> set [0..<?n]. 2 * i < length lvl" by auto
    have "level_loop sha (length pre) (length lvl) [0..<?n] (pre @ lvl) = Some ((pre @ lvl) @ ?up)"
      using level_loop_eq [of "pre @ lvl" pre lvl "[]" "[0..<?n]" sha] half by (simp add: next_level_def)
    moreover have "?up \<noteq> []" using n(2) by (metis length_next_level less_numeral_extra(3) list.size(3))
    ultimately show ?thesis using "1.IH" [OF False, of "pre @ lvl"] False n
      by (subst build_loop.simps) (simp add: levels.simps [of sha lvl] add.assoc)
  qed
qed

lemma merkle_new_eq:
  "items \<noteq> [] \<Longrightarrow> merkle_new sha items =
     Some \<lparr>mt_leaf_count = length items, mt_nodes = concat (levels sha (map (hash_leaf sha) items))\<rparr>"
  using build_loop_eq [of "map (hash_leaf sha) items" sha "[]"] by (simp add: merkle_new_def)

section \<open>Paths\<close>

text \<open>The entry that is still to be pushed when the loop reaches a level.\<close>

definition pending_entry :: "hash_wrapper \<Rightarrow> hash_wrapper option \<Rightarrow> hash_wrapper option \<Rightarrow> proof_entry list" where
  "pending_entry target l r =
     (if l = None \<and> r = None then []
      else [\<lparr>pe_target = target, pe_left_sibling = l, pe_right_sibling = r\<rparr>])"

lemma path_loop_step:
  assumes "nodes = pre @ lvl @ post" and "i < length lvl" and "l = None \<or> r = None"
  shows "path_loop nodes (length lvl) (length pre) i l r path =
    path_loop nodes (next_level_len (length lvl)) (length pre + length lvl) (i div 2)
      (if i mod 2 = 0 then None else Some (lvl ! sibling (length lvl) i))
      (if i mod 2 = 0 then Some (lvl ! sibling (length lvl) i) else None)
      (path @ pending_entry (lvl ! i) l r)"
proof -
  have s: "slice_opt nodes (length pre) (length lvl) = Some lvl" using assms(1) by (simp add: slice_opt_def)
  have p: "(if l \<noteq> None \<or> r \<noteq> None then do { e \<leftarrow> proof_entry_new (lvl ! i) l r; Some (path @ [e]) } else Some path) =
      Some (path @ pending_entry (lvl ! i) l r)"
    using assms(3) by (auto simp: proof_entry_new_def pending_entry_def)
  have q: "(if i mod 2 = 0
       then do { y \<leftarrow> (if i + 1 < length lvl then nth_opt lvl (i + 1) else nth_opt lvl i); Some (None, Some y) }
       else do { x \<leftarrow> nth_opt lvl (i - 1); Some (Some x, None) }) =
      Some (if i mod 2 = 0 then None else Some (lvl ! sibling (length lvl) i),
            if i mod 2 = 0 then Some (lvl ! sibling (length lvl) i) else None)"
    using assms(2) by (auto simp: nth_opt_def sibling_def)
  have t: "nth_opt lvl i = Some (lvl ! i)" using assms(2) by (simp add: nth_opt_def)
  have pos: "0 < length lvl" using assms(2) by linarith
  show ?thesis
    by (subst path_loop.simps, simp only: s q if_P [OF pos] bind.bind_lunit) (simp only: t p bind.bind_lunit prod.case)
qed

lemma next_index: "i < n \<Longrightarrow> 1 < n \<Longrightarrow> i div 2 < (n + 1) div 2" for i n :: nat
  by presburger

lemma path_loop_eq:
  assumes "nodes = pre @ concat (levels sha lvl)" and "i < length lvl" and "l = None \<or> r = None"
  shows "path_loop nodes (length lvl) (length pre) i l r path =
    Some (path @ pending_entry (lvl ! i) l r @ path_of sha lvl i)"
  using assms
proof (induction sha lvl i arbitrary: pre l r path rule: path_of.induct)
  case (1 sha lvl i)
  show ?case
  proof (cases "length lvl \<le> 1")
    case True
    then have one: "length lvl = 1" using "1.prems"(2) by linarith
    have "nodes = pre @ lvl @ []" using "1.prems"(1) one by (simp add: levels.simps)
    from path_loop_step [OF this "1.prems"(2,3)] show ?thesis
      by (simp add: one next_level_len_def path_loop.simps [of nodes 0] path_of.simps)
  next
    case False
    let ?up = "next_level sha lvl"
    have n: "nodes = pre @ lvl @ concat (levels sha ?up)" using "1.prems"(1) False by (simp add: levels.simps [of sha lvl])
    have len: "next_level_len (length lvl) = length ?up" using False by (simp add: next_level_len_def)
    have i: "i div 2 < length ?up" using next_index [OF "1.prems"(2)] False by simp
    have at: "?up ! (i div 2) = parent sha lvl (i div 2)" using i by (simp add: next_level_def)
    let ?l = "if i mod 2 = 0 then None else Some (lvl ! sibling (length lvl) i)"
    let ?r = "if i mod 2 = 0 then Some (lvl ! sibling (length lvl) i) else None"
    let ?p = "path @ pending_entry (lvl ! i) l r"
    have ih: "path_loop nodes (length ?up) (length (pre @ lvl)) (i div 2) ?l ?r ?p =
        Some (?p @ pending_entry (?up ! (i div 2)) ?l ?r @ path_of sha ?up (i div 2))"
      by (rule "1.IH" [OF False]) (use n i in auto)
    have "pending_entry (?up ! (i div 2)) ?l ?r = [entry_above sha lvl i]" by (simp add: pending_entry_def entry_above_def at)
    then show ?thesis using ih False
      unfolding path_loop_step [OF n "1.prems"(2,3)] len by (simp add: path_of.simps [of sha lvl])
  qed
qed

lemma find_path_eq:
  assumes "merkle_new sha items = Some t" and "i < length items"
  shows "find_path t i = Some (Some (path_of sha (map (hash_leaf sha) items) i))"
proof -
  have "items \<noteq> []" using assms(2) by auto
  then have t: "t = \<lparr>mt_leaf_count = length items, mt_nodes = concat (levels sha (map (hash_leaf sha) items))\<rparr>"
    using merkle_new_eq assms(1) by simp
  show ?thesis
    using path_loop_eq [of _ "[]" sha "map (hash_leaf sha) items" i None None "[]"] assms(2)
    by (simp add: find_path_def t pending_entry_def)
qed

section \<open>Verification\<close>

lemma entry_above_hash:
  assumes "i < length lvl"
  shows "hash_intermediate sha (unwrap_or (pe_left_sibling (entry_above sha lvl i)) (lvl ! i))
    (unwrap_or (pe_right_sibling (entry_above sha lvl i)) (lvl ! i)) = parent sha lvl (i div 2)"
proof (cases "i mod 2 = 0")
  case True
  then have "2 * (i div 2) = i" by presburger
  then show ?thesis using True by (simp add: entry_above_def parent_def unwrap_or_def)
next
  case False
  then have "2 * (i div 2) = i - 1" "(i - 1) mod 2 = 0" "i - 1 + 1 = i" by presburger+
  then show ?thesis using False assms by (simp add: entry_above_def parent_def unwrap_or_def sibling_def)
qed

lemma path_verifies: "i < length lvl \<Longrightarrow> verify_loop sha (lvl ! i) (path_of sha lvl i) = Some (root_of sha lvl)"
proof (induction sha lvl i rule: path_of.induct)
  case (1 sha lvl i)
  show ?case
  proof (cases "length lvl \<le> 1")
    case True
    then obtain h where "lvl = [h]" using "1.prems" by (cases lvl) auto
    then show ?thesis using "1.prems" by (simp add: path_of.simps root_of_simps)
  next
    case False
    have i: "i div 2 < length (next_level sha lvl)" using next_index [OF "1.prems"] False by simp
    then have "next_level sha lvl ! (i div 2) = parent sha lvl (i div 2)" by (simp add: next_level_def)
    moreover have "root_of sha lvl = root_of sha (next_level sha lvl)" using False by (intro root_of_simps(2)) simp
    ultimately show ?thesis using "1.IH" [OF False i] False entry_above_hash [OF "1.prems", of sha]
      by (simp add: path_of.simps [of sha lvl] Let_def) (simp add: entry_above_def)
  qed
qed

lemma verify_loop_append:
  "verify_loop sha c (es @ fs) = (case verify_loop sha c es of None \<Rightarrow> None | Some h \<Rightarrow> verify_loop sha h fs)"
  by (induction es arbitrary: c) (simp_all add: Let_def)

lemma verify_loop_root:
  assumes "verify_loop sha c pf = Some h" and "pf \<noteq> []"
  shows "proof_root pf = Some h"
proof -
  obtain es e where "pf = es @ [e]" using assms(2) by (metis append_butlast_last_id)
  then show ?thesis using assms(1)
    by (auto simp: verify_loop_append Let_def proof_root_def split: option.splits if_splits)
qed

section \<open>Soundness\<close>

text \<open>
  What is hashed when a tree is built and when a proof is verified. Soundness only needs that the hash
  function has no collision among these finitely many strings.
\<close>

definition level_inputs :: "hash_wrapper list \<Rightarrow> bytes set" where
  "level_inputs lvl =
     (\<lambda>i. INTERMEDIATE_PREFIX @ lvl ! (2 * i) @ lvl ! sibling (length lvl) (2 * i)) ` {..<(length lvl + 1) div 2}"

function inputs_above :: "sha \<Rightarrow> hash_wrapper list \<Rightarrow> bytes set" where
  "inputs_above sha lvl =
     (if length lvl \<le> 1 then {} else level_inputs lvl \<union> inputs_above sha (next_level sha lvl))"
  by pat_completeness auto
termination
  by (relation "measure (\<lambda>(_, lvl). length lvl)") auto

declare inputs_above.simps [simp del]

definition tree_inputs :: "sha \<Rightarrow> bytes list \<Rightarrow> bytes set" where
  "tree_inputs sha items = (\<lambda>d. LEAF_PREFIX @ d) ` set items \<union> inputs_above sha (map (hash_leaf sha) items)"

fun proof_inputs :: "sha \<Rightarrow> hash_wrapper \<Rightarrow> proof_entry list \<Rightarrow> bytes set" where
  "proof_inputs sha c [] = {}"
| "proof_inputs sha c (e # es) =
     (let l = unwrap_or (pe_left_sibling e) c; r = unwrap_or (pe_right_sibling e) c
      in insert (INTERMEDIATE_PREFIX @ l @ r) (proof_inputs sha (hash_intermediate sha l r) es))"

text \<open>Entries as \<open>ProofEntry::new\<close> makes them: exactly one sibling, and hashes of 32 bytes.\<close>

definition entry_ok :: "proof_entry \<Rightarrow> bool" where
  "entry_ok e \<longleftrightarrow> (pe_left_sibling e = None) \<noteq> (pe_right_sibling e = None) \<and>
     pred_option (\<lambda>h. length h = 32) (pe_left_sibling e) \<and> pred_option (\<lambda>h. length h = 32) (pe_right_sibling e)"

lemma length_hash [simp]:
  "sha_ok sha \<Longrightarrow> length (hash_leaf sha d) = 32" "sha_ok sha \<Longrightarrow> length (hash_intermediate sha l r) = 32"
  by (simp_all add: sha_ok_def hash_leaf_def hash_intermediate_def sha256v_def)

text \<open>A node above the leaves is the hash of two nodes of the tree.\<close>

lemma node_above:
  assumes "h \<in> set (concat (levels sha lvl))" and "h \<notin> set lvl"
  shows "\<exists>l r. h = hash_intermediate sha l r \<and> INTERMEDIATE_PREFIX @ l @ r \<in> inputs_above sha lvl \<and>
    l \<in> set (concat (levels sha lvl)) \<and> r \<in> set (concat (levels sha lvl))"
  using assms
proof (induction sha lvl rule: levels.induct)
  case (1 sha lvl)
  show ?case
  proof (cases "length lvl \<le> 1")
    case True
    then show ?thesis using "1.prems" by (simp add: levels.simps)
  next
    case False
    note lv = levels.simps [of sha lvl] and ia = inputs_above.simps [of sha lvl]
    show ?thesis
    proof (cases "h \<in> set (next_level sha lvl)")
      case True
      then obtain i where i: "i < (length lvl + 1) div 2" "h = parent sha lvl i" by (auto simp: next_level_def)
      then have k: "2 * i < length lvl" by auto
      then have "sibling (length lvl) (2 * i) < length lvl" by (auto simp: sibling_def)
      then show ?thesis using False i k lv ia
        by (intro exI [of _ "lvl ! (2 * i)"] exI [of _ "lvl ! sibling (length lvl) (2 * i)"])
          (auto simp: parent_def level_inputs_def)
    next
      case up: False
      have "h \<in> set (concat (levels sha (next_level sha lvl)))" using "1.prems" False lv by auto
      from "1.IH" [OF False this up] show ?thesis using False lv ia by auto
    qed
  qed
qed

text \<open>Steps of the verification lead from nodes of the tree to nodes of the tree.\<close>

abbreviation tree_nodes :: "sha \<Rightarrow> bytes list \<Rightarrow> hash_wrapper set" where
  "tree_nodes sha items \<equiv> set (concat (levels sha (map (hash_leaf sha) items)))"

lemma levels_length:
  assumes "sha_ok sha" and "\<forall>h \<in> set lvl. length h = 32"
  shows "\<forall>h \<in> set (concat (levels sha lvl)). length h = 32"
  using assms
proof (induction sha lvl rule: levels.induct)
  case (1 sha lvl)
  have "\<forall>h \<in> set (next_level sha lvl). length h = 32" using "1.prems"(1) by (auto simp: next_level_def parent_def)
  then show ?case using "1.IH" "1.prems" by (cases "length lvl \<le> 1") (auto simp: levels.simps [of sha lvl])
qed

lemma verify_from_tree:
  assumes "sha_ok sha" and "inj_on sha (tree_inputs sha items \<union> I)" and "proof_inputs sha c es \<subseteq> I"
    and "\<forall>e \<in> set es. entry_ok e" and "length c = 32" and "verify_loop sha c es = Some h" and "h \<in> tree_nodes sha items"
  shows "c \<in> tree_nodes sha items"
  using assms(3-7)
proof (induction es arbitrary: c)
  case (Cons e es)
  let ?l = "unwrap_or (pe_left_sibling e) c" and ?r = "unwrap_or (pe_right_sibling e) c"
  let ?h = "hash_intermediate sha ?l ?r" and ?leaves = "map (hash_leaf sha) items"
  have inI: "INTERMEDIATE_PREFIX @ ?l @ ?r \<in> I" using Cons.prems(1) by (simp add: Let_def)
  have up: "?h \<in> tree_nodes sha items"
  proof (rule Cons.IH)
    show "proof_inputs sha ?h es \<subseteq> I" using Cons.prems(1) by (simp add: Let_def)
    show "verify_loop sha ?h es = Some h" using Cons.prems(4) by (simp add: Let_def split: if_splits)
  qed (use Cons.prems(2,5) assms(1) in simp_all)
  have len: "length ?l = 32" using Cons.prems(2,3) by (cases "pe_left_sibling e") (auto simp: entry_ok_def unwrap_or_def)
  have sides: "c = ?l \<or> c = ?r"
    using Cons.prems(2) by (cases "pe_left_sibling e"; cases "pe_right_sibling e") (auto simp: entry_ok_def unwrap_or_def)
  have "?h \<notin> set ?leaves"
  proof
    assume "?h \<in> set ?leaves"
    then obtain d where "d \<in> set items" "sha (INTERMEDIATE_PREFIX @ ?l @ ?r) = sha (LEAF_PREFIX @ d)"
      by (auto simp: hash_leaf_def hash_intermediate_def sha256v_def)
    then have "INTERMEDIATE_PREFIX @ ?l @ ?r = LEAF_PREFIX @ d"
      using assms(2) inI by (auto simp: tree_inputs_def dest: inj_onD)
    then show False by (simp add: INTERMEDIATE_PREFIX_def LEAF_PREFIX_def)
  qed
  from node_above [OF up this] obtain l r where lr: "?h = hash_intermediate sha l r"
    "INTERMEDIATE_PREFIX @ l @ r \<in> inputs_above sha ?leaves" "l \<in> tree_nodes sha items" "r \<in> tree_nodes sha items" by blast
  have "length l = 32" using levels_length [OF assms(1), of ?leaves] lr(3) assms(1) by auto
  moreover have "INTERMEDIATE_PREFIX @ ?l @ ?r = INTERMEDIATE_PREFIX @ l @ r"
  proof (rule inj_onD [OF assms(2)])
    show "sha (INTERMEDIATE_PREFIX @ ?l @ ?r) = sha (INTERMEDIATE_PREFIX @ l @ r)"
      using lr(1) by (simp add: hash_intermediate_def sha256v_def)
  qed (use inI lr(2) in \<open>auto simp: tree_inputs_def\<close>)
  ultimately have "?l = l \<and> ?r = r" using len by simp
  then show ?case using sides lr(3,4) by metis
qed simp

section \<open>Properties\<close>

text \<open>
  C29. Every item of a Merkle tree has a path that verifies. Building the tree of a non-empty list never
  panics; for every index in range the search returns a path (and no path out of range), the path verifies
  for the item at that index, and the root it ends in is the root of the tree. The path of the only item of
  a one-element tree is empty.
\<close>

theorem merkle_paths_verify:
  assumes "items \<noteq> []"
  shows "\<exists>t root. merkle_new sha items = Some t \<and> get_root t = Some root \<and>
    (\<forall>i. if i < length items
         then (\<exists>pf. find_path t i = Some (Some pf) \<and> verify_item sha pf (items ! i) \<and>
                 (if pf = [] then length items = 1 \<and> root = hash_leaf sha (items ! i) else proof_root pf = Some root))
         else find_path t i = Some None)"
proof -
  let ?leaves = "map (hash_leaf sha) items"
  let ?t = "\<lparr>mt_leaf_count = length items, mt_nodes = concat (levels sha ?leaves)\<rparr>"
  have t: "merkle_new sha items = Some ?t" using merkle_new_eq [OF assms] .
  have r: "get_root ?t = Some (root_of sha ?leaves)"
    using levels_nonempty [of ?leaves sha] assms by (simp add: get_root_def root_of_def)
  have found: "find_path ?t i = Some (Some (path_of sha ?leaves i)) \<and> verify_item sha (path_of sha ?leaves i) (items ! i) \<and>
      (if path_of sha ?leaves i = [] then length items = 1 \<and> root_of sha ?leaves = hash_leaf sha (items ! i)
       else proof_root (path_of sha ?leaves i) = Some (root_of sha ?leaves))" if i: "i < length items" for i
  proof -
    have v: "verify_loop sha (hash_leaf sha (items ! i)) (path_of sha ?leaves i) = Some (root_of sha ?leaves)"
      using path_verifies [of i ?leaves sha] i by simp
    have "length items = 1" if "path_of sha ?leaves i = []"
      using that i by (subst (asm) path_of.simps) (auto split: if_splits)
    then show ?thesis using find_path_eq [OF t i] v verify_loop_root [OF v]
      by (auto simp: verify_item_def proof_verify_def)
  qed
  have "if i < length items
         then (\<exists>pf. find_path ?t i = Some (Some pf) \<and> verify_item sha pf (items ! i) \<and>
                 (if pf = [] then length items = 1 \<and> root_of sha ?leaves = hash_leaf sha (items ! i)
                  else proof_root pf = Some (root_of sha ?leaves)))
         else find_path ?t i = Some None" for i
  proof (cases "i < length items")
    case True
    then show ?thesis by (simp only: if_True) (rule exI, rule found [OF True])
  qed (simp add: find_path_def)
  then show ?thesis using t r by (intro exI [of _ ?t] exI [of _ "root_of sha ?leaves"] conjI allI)
qed

theorem merkle_paths_verify_witness:
  "\<exists>t pf. merkle_new (\<lambda>_. replicate 32 0) [[1], [2], [3]] = Some t \<and> find_path t 2 = Some (Some pf) \<and>
     verify_item (\<lambda>_. replicate 32 0) pf [3]"
proof -
  from merkle_paths_verify [of "[[1], [2], [3]]" "\<lambda>_. replicate 32 0"]
  obtain t root where t: "merkle_new (\<lambda>_. replicate 32 0) [[1], [2], [3]] = Some t"
    and p: "\<forall>i. if i < length [[1], [2], [3 :: u8]]
         then (\<exists>pf. find_path t i = Some (Some pf) \<and> verify_item (\<lambda>_. replicate 32 0) pf ([[1], [2], [3]] ! i) \<and>
                 (if pf = [] then length [[1], [2], [3 :: u8]] = 1 \<and> root = hash_leaf (\<lambda>_. replicate 32 0) ([[1], [2], [3]] ! i)
                  else proof_root pf = Some root))
         else find_path t i = Some None" by auto
  from p [rule_format, of 2] t show ?thesis by auto
qed

text \<open>
  C30. Only items of the tree have a verifying proof. If a non-empty proof, with entries as the code makes
  them, verifies for an item and ends in the root of a tree, then the item is one of the items the tree was
  built from, provided the hash function has no collision among the strings hashed for the tree and for the
  proof. Leaves and inner nodes are told apart by their prefixes, whatever the length of the proof.
\<close>

theorem merkle_proof_sound:
  assumes "sha_ok sha" and "items \<noteq> []" and "merkle_new sha items = Some t"
    and "pf \<noteq> []" and "\<forall>e \<in> set pf. entry_ok e" and "verify_item sha pf item" and "proof_root pf = get_root t"
    and "inj_on sha (tree_inputs sha items \<union> insert (LEAF_PREFIX @ item) (proof_inputs sha (hash_leaf sha item) pf))"
  shows "item \<in> set items"
proof -
  let ?leaves = "map (hash_leaf sha) items" and ?c = "hash_leaf sha item"
  let ?I = "insert (LEAF_PREFIX @ item) (proof_inputs sha ?c pf)"
  have t: "mt_nodes t = concat (levels sha ?leaves)" using merkle_new_eq [OF assms(2), of sha] assms(3) by auto
  obtain h where h: "verify_loop sha ?c pf = Some h" using assms(6) by (auto simp: verify_item_def proof_verify_def)
  have "h \<in> tree_nodes sha items"
    using verify_loop_root [OF h assms(4)] assms(7) levels_nonempty [of ?leaves sha] assms(2) last_in_set
    by (auto simp: get_root_def t simp del: set_concat concat_eq_Nil_conv split: if_splits)
  then have c: "?c \<in> tree_nodes sha items"
    using verify_from_tree [OF assms(1,8) _ assms(5) _ h] assms(1) by auto
  have "?c \<in> set ?leaves"
  proof (rule ccontr)
    assume "?c \<notin> set ?leaves"
    from node_above [OF c this] obtain l r where "sha (LEAF_PREFIX @ item) = sha (INTERMEDIATE_PREFIX @ l @ r)"
      "INTERMEDIATE_PREFIX @ l @ r \<in> tree_inputs sha items"
      by (auto simp: hash_leaf_def hash_intermediate_def sha256v_def tree_inputs_def)
    then have "LEAF_PREFIX @ item = INTERMEDIATE_PREFIX @ l @ r" using assms(8) by (auto dest: inj_onD)
    then show False by (simp add: INTERMEDIATE_PREFIX_def LEAF_PREFIX_def)
  qed
  then obtain d where d: "d \<in> set items" "sha (LEAF_PREFIX @ item) = sha (LEAF_PREFIX @ d)"
    by (auto simp: hash_leaf_def sha256v_def)
  then have "LEAF_PREFIX @ item = LEAF_PREFIX @ d" using assms(8) by (auto simp: tree_inputs_def dest: inj_onD)
  then show ?thesis using d(1) by simp
qed

text \<open>A hash function for two leaves: the first 32 bytes of the padded input.\<close>

definition sample_sha :: sha where
  "sample_sha x = take 32 (x @ replicate 32 7)"

definition sample_leaf :: "nat \<Rightarrow> hash_wrapper" where
  "sample_leaf n = hash_leaf sample_sha [of_nat n]"

definition sample_proof :: "proof_entry list" where
  "sample_proof = [\<lparr>pe_target = hash_intermediate sample_sha (sample_leaf 1) (sample_leaf 2),
     pe_left_sibling = None, pe_right_sibling = Some (sample_leaf 2)\<rparr>]"

lemmas sample_merkle_defs = sample_sha_def sample_leaf_def hash_leaf_def hash_intermediate_def sha256v_def
  LEAF_PREFIX_def INTERMEDIATE_PREFIX_def numeral_2_eq_2 [symmetric]

lemma sample_sha_ok: "sha_ok sample_sha"
  by (simp add: sha_ok_def sample_sha_def min_def)

lemma sample_levels:
  "levels sample_sha [sample_leaf 1, sample_leaf 2] =
     [[sample_leaf 1, sample_leaf 2], [hash_intermediate sample_sha (sample_leaf 1) (sample_leaf 2)]]"
  by (simp add: levels.simps next_level_def parent_def sibling_def)

theorem merkle_proof_sound_witness:
  "(\<exists>t. merkle_new sample_sha [[1], [2]] = Some t \<and> proof_root sample_proof = get_root t) \<and>
   verify_item sample_sha sample_proof [1] \<and> [1] \<in> set [[1], [2 :: u8]]"
proof -
  let ?t = "\<lparr>mt_leaf_count = 2, mt_nodes = [sample_leaf 1, sample_leaf 2, hash_intermediate sample_sha (sample_leaf 1) (sample_leaf 2)]\<rparr>"
  have leaves: "map (hash_leaf sample_sha) [[1], [2]] = [sample_leaf 1, sample_leaf 2]" by (simp add: sample_leaf_def)
  have t: "merkle_new sample_sha [[1], [2]] = Some ?t"
    using merkle_new_eq [of "[[1], [2]]" sample_sha] unfolding leaves sample_levels by simp
  have one: "hash_leaf sample_sha [1] = sample_leaf 1" by (simp add: sample_leaf_def)
  have v: "verify_item sample_sha sample_proof [1]"
    by (simp add: verify_item_def proof_verify_def sample_proof_def unwrap_or_def one)
  have r: "proof_root sample_proof = get_root ?t" by (simp add: proof_root_def get_root_def sample_proof_def)
  have "length (sample_leaf n) = 32" for n by (simp add: sample_leaf_def sample_sha_ok)
  then have e: "\<forall>e \<in> set sample_proof. entry_ok e" by (simp add: sample_proof_def entry_ok_def)
  have above: "inputs_above sample_sha [sample_leaf 1, sample_leaf 2] = {INTERMEDIATE_PREFIX @ sample_leaf 1 @ sample_leaf 2}"
    by (simp add: inputs_above.simps level_inputs_def sibling_def next_level_def lessThan_Suc)
  have "inj_on sample_sha {LEAF_PREFIX @ [1], LEAF_PREFIX @ [2], INTERMEDIATE_PREFIX @ sample_leaf 1 @ sample_leaf 2}"
    by (simp add: sample_merkle_defs)
  then have "inj_on sample_sha (tree_inputs sample_sha [[1], [2]] \<union>
      insert (LEAF_PREFIX @ [1]) (proof_inputs sample_sha (hash_leaf sample_sha [1]) sample_proof))"
    unfolding tree_inputs_def leaves above one
    by (rule inj_on_subset) (simp add: sample_proof_def unwrap_or_def)
  from merkle_proof_sound [OF sample_sha_ok _ t _ e v r this] show ?thesis
    using t v r by (simp add: sample_proof_def)
qed

text \<open>
  \<open>OwnedProof::verify\<close> exchanges the siblings: in a tree of two leaves whose order matters to the hash, the
  owned form of a valid path is rejected. An owned entry with both siblings accepts every candidate.
\<close>

lemma owned_proof_rejects_members:
  assumes "hash_intermediate sha (hash_leaf sha a) (hash_leaf sha b) \<noteq> hash_intermediate sha (hash_leaf sha b) (hash_leaf sha a)"
    and "merkle_new sha [a, b] = Some t"
  shows "\<exists>pf. find_path t 0 = Some (Some pf) \<and> verify_item sha pf a \<and> \<not> owned_verify_item sha pf a"
proof -
  let ?l = "[hash_leaf sha a, hash_leaf sha b]"
  have p: "path_of sha ?l 0 = [entry_above sha ?l 0]" by (simp add: path_of.simps)
  have "find_path t 0 = Some (Some [entry_above sha ?l 0])" using find_path_eq [OF assms(2), of 0] p by simp
  moreover have "verify_item sha [entry_above sha ?l 0] a \<and> \<not> owned_verify_item sha [entry_above sha ?l 0] a"
    using assms(1)
    by (simp add: verify_item_def proof_verify_def owned_verify_item_def entry_above_def unwrap_or_def parent_def sibling_def)
  ultimately show ?thesis by blast
qed

lemma owned_entry_with_both_siblings:
  assumes "e = \<lparr>pe_target = hash_intermediate sha r l, pe_left_sibling = Some l, pe_right_sibling = Some r\<rparr>"
  shows "owned_verify_item sha [e] item"
  using assms by (simp add: owned_verify_item_def unwrap_or_def)

end
