(* ===== verification/Client_Types.thy ===== *)
theory Client_Types
  imports Data_Selection Merkle "HOL-Library.AList"
begin

text \<open>
  The data a client of a run keeps (\<open>src/shared/client/src/protocol.rs\<close>, \<open>state/types.rs\<close>,
  \<open>state/round_state.rs\<close>, the types of \<open>state/steps.rs\<close>, \<open>state/train.rs\<close> and \<open>state/witness.rs\<close>, and the
  payload of \<open>src/shared/network/src/serialized_distro.rs\<close>).

  A client answers broadcasts, downloads and coordinator states on one task, while tasks it spawned verify
  and deserialize payloads and apply the results of a round. They share \<open>Arc<Mutex<..>>\<close> cells, which move
  from the current to the previous round, are taken out by the applying task and outlive the round that made
  them, so the cells live in an explicit store and a round holds their addresses. What is spawned is a value
  of the state (a task with a program counter, a handle, an apply job), run by events of its own. No mutex is
  ever poisoned: the code a task runs under a lock does not panic, which is proved of it.

  \<open>BlobTicket\<close> and its hash belong to the \<open>iroh\<close> crates and \<open>DistroResult\<close> holds tensors of \<open>tch\<close>: they are
  type parameters \<open>'t\<close> and \<open>'r\<close>, with the operations the client uses in its environment.
\<close>

section \<open>Payloads\<close>

datatype serializable_tensor_data = Full bytes | OneBit bytes

text \<open>\<open>kind\<close> is the byte \<open>SerializableKind\<close> is serialized as.\<close>

record serializable_tensor =
  te_dims :: "int list"
  te_kind :: u8
  te_requires_grad :: bool
  te_data :: serializable_tensor_data

fun tensor_bytes :: "serializable_tensor_data \<Rightarrow> bytes" where
  "tensor_bytes (Full items) = items"
| "tensor_bytes (OneBit items) = items"

definition raw_tensor_data :: "serializable_tensor \<Rightarrow> bytes" where
  "raw_tensor_data t = tensor_bytes (te_data t)"

record serialized_distro_result =
  sd_sparse_idx :: serializable_tensor
  sd_sparse_val :: serializable_tensor
  sd_xshape :: "u16 list"
  sd_totalk :: u32

record transmittable_distro_result =
  td_step :: u32
  td_trainer_nonce :: u32
  td_batch_id :: batch_id
  td_distro_results :: "serialized_distro_result list"

definition u64_to_be_bytes :: "u64 \<Rightarrow> bytes" where
  "u64_to_be_bytes v = rev (u64_to_le_bytes v)"

definition u32_to_be_bytes :: "u32 \<Rightarrow> bytes" where
  "u32_to_be_bytes v = map (\<lambda>i. ucast (drop_bit (8 * i) v)) [3, 2, 1, 0]"

text \<open>\<open>comptue_hash\<close>: the hasher is fed the parts one after the other.\<close>

definition comptue_hash :: "sha \<Rightarrow> transmittable_distro_result \<Rightarrow> bytes" where
  "comptue_hash sha p =
     sha (u32_to_be_bytes (td_step p)
          @ u64_to_be_bytes (ci_start (batch_interval (td_batch_id p)))
          @ u64_to_be_bytes (ci_end (batch_interval (td_batch_id p)))
          @ concat (map (\<lambda>result. raw_tensor_data (sd_sparse_idx result) @ raw_tensor_data (sd_sparse_val result))
                        (td_distro_results p)))"

text \<open>What the client calls of code outside: the hash of a ticket, and \<open>DistroResult::try_from\<close>.\<close>

record ('id, 't, 'r) client_env =
  ce_node :: "'id node_env"
  ce_ticket_hash :: "'t \<Rightarrow> bytes"
  ce_deserialize :: "serialized_distro_result \<Rightarrow> 'r option"

abbreviation ce_sha :: "('id, 't, 'r) client_env \<Rightarrow> sha" where
  "ce_sha V \<equiv> x_sha256 (ce_node V)"

abbreviation ce_eq :: "('id, 't, 'r) client_env \<Rightarrow> 'id \<Rightarrow> 'id \<Rightarrow> bool" where
  "ce_eq V \<equiv> ne_eq (ce_node V)"

section \<open>Broadcasts\<close>

record 't training_result =
  tr_batch_id :: batch_id
  tr_ticket :: 't

record finished_msg =
  fi_broadcast_merkle :: bytes
  fi_warmup :: bool

datatype 't broadcast_type = TrainingResult "'t training_result" | FinishedMsg finished_msg

record 't broadcast =
  bc_step :: u32
  bc_proof :: committee_proof
  bc_commitment :: commitment
  bc_nonce :: u32
  bc_data :: "'t broadcast_type"

record finished_broadcast =
  fb_step :: u32
  fb_merkle :: bytes
  fb_commitment_data_hash :: bytes
  fb_proof :: committee_proof
  fb_warmup :: bool

section \<open>The shared cells\<close>

datatype ('id, 't) payload_state = Downloading 'id batch_id 't | Deserializing nat

datatype deserialize_error = DeserializeThreadCrashed | DeserializeTch

type_synonym 'r deserialized = "deserialize_error + 'r list \<times> u32"

text \<open>A spawned deserialization: still running on its payload, or finished with a value.\<close>

datatype 'r deserialize_task = Running transmittable_distro_result | Completed "'r deserialized"

record ('id, 't, 'r) cells =
  hp_next :: nat
  hp_downloads :: "nat \<Rightarrow> (bytes \<times> ('id, 't) payload_state) list"
  hp_blooms :: "nat \<Rightarrow> (bloom \<times> bloom) option"
  hp_batches :: "nat \<Rightarrow> batch_id set option"
  hp_handles :: "nat \<Rightarrow> 'r deserialize_task"

text \<open>\<open>HashMap::len\<close> and lookups by \<open>T\<close>'s own equality need no more of a map than its entries.\<close>

record ('id, 't, 'r) round_state =
  rs_height :: u32
  rs_step :: u32
  rs_sent_witness :: bool
  rs_sent_finished :: bool
  rs_downloads :: nat
  rs_results :: "batch_id \<Rightarrow> ('id \<times> commitment \<times> 't training_result) list option"
  rs_clients_finished :: "('id \<times> finished_msg) list"
  rs_data_assignments :: "(batch_id \<times> 'id) list"
  rs_blooms :: nat
  rs_broadcasts :: "bytes list"
  rs_committee_info :: "(committee_proof \<times> witness_proof \<times> committee_selection) option"
  rs_batches :: nat
  rs_self_distro_results :: "'r list list"

text \<open>Three fresh cells may share one address, since each kind of cell has its own part of the store.\<close>

definition alloc_cells ::
    "(bloom \<times> bloom) option \<Rightarrow> batch_id set option \<Rightarrow> ('id, 't, 'r) cells \<Rightarrow> nat \<times> ('id, 't, 'r) cells" where
  "alloc_cells bl ba h =
     (hp_next h, h\<lparr>hp_next := Suc (hp_next h), hp_downloads := (hp_downloads h)(hp_next h := []),
                   hp_blooms := (hp_blooms h)(hp_next h := bl), hp_batches := (hp_batches h)(hp_next h := ba)\<rparr>)"

definition round_state_new :: "('id, 't, 'r) cells \<Rightarrow> ('id, 't, 'r) round_state \<times> ('id, 't, 'r) cells" where
  "round_state_new h =
     (let (a, h) = alloc_cells None None h
      in (\<lparr>rs_height = 0, rs_step = 0, rs_sent_witness = False, rs_sent_finished = False, rs_downloads = a,
           rs_results = Map.empty, rs_clients_finished = [], rs_data_assignments = [], rs_blooms = a,
           rs_broadcasts = [], rs_committee_info = None, rs_batches = a, rs_self_distro_results = []\<rparr>, h))"

definition distro_result_blob_downloaded ::
    "('id, 't, 'r) cells \<Rightarrow> bytes \<Rightarrow> ('id, 't, 'r) round_state \<Rightarrow> bool" where
  "distro_result_blob_downloaded h hash rs \<longleftrightarrow> map_of (hp_downloads h (rs_downloads rs)) hash \<noteq> None"

section \<open>Tasks\<close>

text \<open>
  The task that verifies a payload runs in three pieces, between which other tasks may run: it checks the hash
  and updates filters and remaining batches under their locks, it clears the remaining batches when they have
  become empty, and it spawns the deserialization and stores its handle.
\<close>

datatype task_stage = Verifying | Marking | Storing

record 'id verify_task =
  vt_hash :: bytes
  vt_from :: 'id
  vt_batch :: batch_id
  vt_commitment :: commitment
  vt_payload :: transmittable_distro_result
  vt_downloads :: nat
  vt_blooms :: nat
  vt_batches :: nat
  vt_stage :: task_stage

datatype apply_error =
    ApNoActiveRound
  | DidNotFinishDeserializingCommitment commitment batch_id
  | DidNotBeginDownloadingCommitment commitment batch_id bytes
  | UnknownCommitment commitment batch_id

text \<open>The task \<open>apply_results\<close> spawns, with what it captured and the results it has collected so far.\<close>

record ('id, 't, 'r) applying =
  ap_commitments :: "batch_id \<Rightarrow> ('id \<times> commitment \<times> 't training_result) list option"
  ap_witnesses :: "witness list"
  ap_quorum :: u16
  ap_payloads :: nat
  ap_batch_ids :: "batch_id list"
  ap_cold_start_warmup_steps :: u32
  ap_epoch :: u16
  ap_warmup_lr_between :: "(u32 \<times> u32) option"
  ap_distro_results :: "'r list list"

datatype ('id, 't, 'r) apply_job =
    ApplySkipped
  | Applying "('id, 't, 'r) applying"
  | ApplyFailed apply_error
  | ApplyPanicked
  | ApplyReady "'r list list"

datatype train_error =
    NoTrainers | TeNoActiveRound | NoCommitteeInfo | ApplyCrashed | ApplyErr apply_error
  | TrainCrashed | SendHealthChecks | HealthCheckCrashed | CoordinatorErr coordinator_error | TrainOther

datatype witnessing_error = WitnessNoTrainers | WitnessSend

record ('id, 't, 'r) training_step =
  ts_sending_health_checks :: "(train_error + unit) option"
  ts_apply :: "('id, 't, 'r) apply_job"
  ts_have_training :: bool
  ts_finished :: bool

record witness_step =
  ws_sending_witness :: "(witnessing_error + unit) option"

datatype ('id, 't, 'r) active_step =
    Intermediate
  | WarmupActive
  | TrainingActive "('id, 't, 'r) training_step"
  | WitnessActive witness_step
  | CooldownActive

section \<open>The state machine\<close>

datatype opportunistic = OppWitness witness | OppWarmup witness

text \<open>
  What the client hands to the loop that owns the network and the backend: a download with the sender and the
  step its tag is made of, a witness, a broadcast that a phase is finished, a list of health checks.
\<close>

datatype ('id, 't) client_output =
    RequestDownload 't 'id u32
  | SendOpportunistic opportunistic
  | BroadcastFinished finished_broadcast
  | SendHealthChecksOut "('id \<times> committee_proof) list"

datatype channel = ChDownload | ChWitness | ChFinished | ChHealth

record ('id, 't, 'r) step_state_machine =
  sm_identity :: 'id
  sm_active_step :: "('id, 't, 'r) active_step"
  sm_current :: "('id, 't, 'r) round_state"
  sm_previous :: "('id, 't, 'r) round_state"
  sm_sent_warmup_finished :: bool
  sm_sent_warmup_witness :: bool
  sm_coordinator_state :: "'id coordinator"
  sm_cells :: "('id, 't, 'r) cells"
  sm_tasks :: "'id verify_task list"
  sm_outbox :: "('id, 't) client_output list"
  sm_open :: "channel \<Rightarrow> bool"

abbreviation emit :: "('id, 't) client_output \<Rightarrow> ('id, 't, 'r) step_state_machine \<Rightarrow> ('id, 't, 'r) step_state_machine" where
  "emit msg sm \<equiv> sm\<lparr>sm_outbox := sm_outbox sm @ [msg]\<rparr>"

abbreviation sm_clients :: "('id, 't, 'r) step_state_machine \<Rightarrow> 'id client list" where
  "sm_clients sm \<equiv> co_clients (sm_coordinator_state sm)"

end
