(* ===== verification/Client_Round.thy ===== *)
theory Client_Round
  imports Client_Types
begin

text \<open>
  What a client does between two coordinator states: it takes in broadcasts and payloads, verifies them on
  spawned tasks, and builds the witness of the round (\<open>src/shared/client/src/state/steps.rs\<close>,
  \<open>apply_message\<close> and \<open>apply_distro_result\<close>; \<open>state/witness.rs\<close>, \<open>get_witness_to_send\<close>).
\<close>

section \<open>Witnesses\<close>

definition DEFAULT_MERKLE_ROOT :: bytes where
  "DEFAULT_MERKLE_ROOT = replicate 32 0"

text \<open>\<open>MerkleTree::new(..).get_root().cloned().unwrap_or(MerkleRoot::default())\<close>\<close>

definition broadcasts_root :: "sha \<Rightarrow> bytes list \<Rightarrow> bytes option" where
  "broadcasts_root sha bs = map_option (\<lambda>t. unwrap_or (get_root t) DEFAULT_MERKLE_ROOT) (merkle_new sha bs)"

text \<open>\<open>WitnessBloom\<close> is \<open>Bloom<16, 8>\<close>.\<close>

definition DEFAULT_WITNESS_BLOOM :: bloom where
  "DEFAULT_WITNESS_BLOOM = bloom_default 16 8"

text \<open>The witness to send, if any, and the previous round marked as witnessed.\<close>

definition get_witness_to_send ::
    "('id, 't, 'r) client_env \<Rightarrow> ('id, 't, 'r) cells \<Rightarrow> ('id, 't, 'r) round_state \<Rightarrow> ('id, 't, 'r) round_state \<Rightarrow>
      (witness option \<times> ('id, 't, 'r) round_state) option" where
  "get_witness_to_send V h prev cur =
     (if rs_sent_witness prev then Some (None, prev)
      else case rs_committee_info cur of
        None \<Rightarrow> Some (None, prev)
      | Some (_, proof, _) \<Rightarrow>
          (if sb_is_false (wp_witness proof) then Some (None, prev)
           else do {
             broadcast_merkle \<leftarrow> broadcasts_root (ce_sha V) (rs_broadcasts prev);
             let (participant_bloom, broadcast_bloom) =
               unwrap_or (hp_blooms h (rs_blooms prev)) (DEFAULT_WITNESS_BLOOM, DEFAULT_WITNESS_BLOOM);
             Some (Some \<lparr>w_proof = proof, w_participant_bloom = participant_bloom,
                         w_broadcast_bloom = broadcast_bloom, w_broadcast_merkle = broadcast_merkle\<rparr>,
                   prev\<lparr>rs_sent_witness := True\<rparr>)
           }))"

section \<open>Broadcasts\<close>

datatype apply_message_outcome = Applied | Ignored | Invalid

datatype apply_message_error = StartDownloadBlob

fun is_warmup_broadcast :: "'t broadcast_type \<Rightarrow> bool" where
  "is_warmup_broadcast (TrainingResult _) = False"
| "is_warmup_broadcast (FinishedMsg finished) = fi_warmup finished"

text \<open>The mutable reference to one of the two rounds.\<close>

definition the_round :: "bool \<Rightarrow> ('id, 't, 'r) step_state_machine \<Rightarrow> ('id, 't, 'r) round_state" where
  "the_round current sm = (if current then sm_current sm else sm_previous sm)"

definition put_round ::
    "bool \<Rightarrow> ('id, 't, 'r) round_state \<Rightarrow> ('id, 't, 'r) step_state_machine \<Rightarrow> ('id, 't, 'r) step_state_machine" where
  "put_round current rs sm = (if current then sm\<lparr>sm_current := rs\<rparr> else sm\<lparr>sm_previous := rs\<rparr>)"

text \<open>The first checks of \<open>apply_message\<close>: the outcome to return at once, or \<open>None\<close> to go on.\<close>

definition refuse_sender ::
    "('id, 't, 'r) client_env \<Rightarrow> 'id \<Rightarrow> 't broadcast \<Rightarrow> ('id, 't, 'r) round_state \<Rightarrow>
      ('id, 't, 'r) step_state_machine \<Rightarrow> apply_message_outcome option option" where
  "refuse_sender V from bc rs sm =
     (let is_warmup = is_warmup_broadcast (bc_data bc)
      in if \<not> is_warmup \<and> \<not> ce_eq V from (sm_identity sm)
         then (case rs_committee_info rs of
                 Some (_, _, selection) \<Rightarrow> do {
                   ok \<leftarrow> verify_committee_for_client (ce_node V) selection from (bc_proof bc) (sm_clients sm);
                   Some (if \<not> ok then Some Invalid
                         else if cp_committee (bc_proof bc) \<noteq> Trainer then Some Invalid else None)
                 }
               | None \<Rightarrow> Some (Some Ignored))
         else if \<not> (\<exists>x \<in> set (sm_clients sm). ce_eq V (cl_id x) from) then Some (Some Invalid)
         else if \<not> is_warmup \<and> cp_committee (bc_proof bc) \<noteq> Trainer then Some (Some Invalid)
         else Some None)"

definition push_broadcast ::
    "bool \<Rightarrow> bytes \<Rightarrow> ('id, 't, 'r) step_state_machine \<Rightarrow> ('id, 't, 'r) step_state_machine" where
  "push_broadcast current data_hash sm =
     (let rs = the_round current sm in put_round current (rs\<lparr>rs_broadcasts := rs_broadcasts rs @ [data_hash]\<rparr>) sm)"

text \<open>The two arms of the match on \<open>broadcast.data\<close>.\<close>

definition apply_training_result ::
    "('id, 't, 'r) client_env \<Rightarrow> 'id \<Rightarrow> 't broadcast \<Rightarrow> 't training_result \<Rightarrow> bool \<Rightarrow> ('id, 't, 'r) step_state_machine \<Rightarrow>
      (('id, 't, 'r) step_state_machine, apply_message_error, apply_message_outcome) exec" where
  "apply_training_result V from bc tr current sm =
     (let rs = the_round current sm; h = sm_cells sm; b = tr_batch_id tr; hash = ce_ticket_hash V (tr_ticket tr)
      in case map_of (rs_data_assignments rs) b of
           None \<Rightarrow> Done sm Invalid
         | Some assignee \<Rightarrow>
             (if distro_result_blob_downloaded h hash rs then Done sm Ignored
              else if \<not> ce_eq V from assignee then Done sm Invalid
              else let entry = (from, bc_commitment bc, tr);
                       rs = rs\<lparr>rs_results := (rs_results rs)(b \<mapsto> unwrap_or (rs_results rs b) [] @ [entry])\<rparr>;
                       d = rs_downloads rs;
                       h = h\<lparr>hp_downloads := (hp_downloads h)(d :=
                              AList.update hash (Downloading from b (tr_ticket tr)) (hp_downloads h d))\<rparr>;
                       sm = (put_round current rs sm)\<lparr>sm_cells := h\<rparr>
                   in if ce_eq V from (sm_identity sm)
                      then Done (push_broadcast current (cm_data_hash (bc_commitment bc)) sm) Applied
                      else if sm_open sm ChDownload
                      then Done (push_broadcast current (cm_data_hash (bc_commitment bc))
                                  (emit (RequestDownload (tr_ticket tr) from (bc_step bc)) sm)) Applied
                      else Fail sm StartDownloadBlob))"

definition apply_finished ::
    "('id, 't, 'r) client_env \<Rightarrow> 'id \<Rightarrow> 't broadcast \<Rightarrow> finished_msg \<Rightarrow> bool \<Rightarrow> ('id, 't, 'r) step_state_machine \<Rightarrow>
      (('id, 't, 'r) step_state_machine, apply_message_error, apply_message_outcome) exec" where
  "apply_finished V from bc finished current sm =
     (let rs = the_round current sm
      in if \<exists>e \<in> set (rs_clients_finished rs). ce_eq V (fst e) from then Done sm Ignored
         else Done (push_broadcast current (cm_data_hash (bc_commitment bc))
                (put_round current (rs\<lparr>rs_clients_finished := rs_clients_finished rs @ [(from, finished)]\<rparr>) sm))
                Applied)"

definition apply_to_round ::
    "('id, 't, 'r) client_env \<Rightarrow> 'id \<Rightarrow> 't broadcast \<Rightarrow> bool \<Rightarrow> ('id, 't, 'r) step_state_machine \<Rightarrow>
      (('id, 't, 'r) step_state_machine, apply_message_error, apply_message_outcome) exec" where
  "apply_to_round V from bc current sm =
     need (refuse_sender V from bc (the_round current sm) sm) (\<lambda>refused.
       case refused of
         Some outcome \<Rightarrow> Done sm outcome
       | None \<Rightarrow> (case bc_data bc of
                   TrainingResult tr \<Rightarrow> apply_training_result V from bc tr current sm
                 | FinishedMsg finished \<Rightarrow> apply_finished V from bc finished current sm))"

definition apply_message ::
    "('id, 't, 'r) client_env \<Rightarrow> 'id \<Rightarrow> 't broadcast \<Rightarrow> ('id, 't, 'r) step_state_machine \<Rightarrow>
      (('id, 't, 'r) step_state_machine, apply_message_error, apply_message_outcome) exec" where
  "apply_message V from bc sm =
     (if rs_step (sm_current sm) = bc_step bc then apply_to_round V from bc True sm
      else if rs_step (sm_previous sm) = bc_step bc then apply_to_round V from bc False sm
      else Done sm Invalid)"

section \<open>Payloads\<close>

definition commitment_of ::
    "('id, 't, 'r) client_env \<Rightarrow> 'id \<Rightarrow> bytes \<Rightarrow> ('id \<times> commitment \<times> 't training_result) list \<Rightarrow> commitment option" where
  "commitment_of V from hash entries =
     map_option (\<lambda>e. fst (snd e))
       (find (\<lambda>e. ce_eq V (fst e) from \<and> ce_ticket_hash V (tr_ticket (snd (snd e))) = hash) entries)"

text \<open>The task captures the payload and clones the three cells of the round.\<close>

definition spawn_verify ::
    "('id, 't, 'r) client_env \<Rightarrow> bytes \<Rightarrow> transmittable_distro_result \<Rightarrow> ('id, 't, 'r) round_state \<Rightarrow>
      ('id, 't, 'r) step_state_machine \<Rightarrow> ('id, 't, 'r) step_state_machine" where
  "spawn_verify V hash payload rs sm =
     (case map_of (hp_downloads (sm_cells sm) (rs_downloads rs)) hash of
        Some (Downloading from b ticket) \<Rightarrow>
          (case rs_results rs b of
             None \<Rightarrow> sm
           | Some entries \<Rightarrow>
               (case commitment_of V from hash entries of
                  None \<Rightarrow> sm
                | Some commitment \<Rightarrow>
                    sm\<lparr>sm_tasks := sm_tasks sm @
                         [\<lparr>vt_hash = hash, vt_from = from, vt_batch = b, vt_commitment = commitment,
                           vt_payload = payload, vt_downloads = rs_downloads rs, vt_blooms = rs_blooms rs,
                           vt_batches = rs_batches rs, vt_stage = Verifying\<rparr>]\<rparr>))
      | _ \<Rightarrow> sm)"

definition apply_distro_result ::
    "('id, 't, 'r) client_env \<Rightarrow> bytes \<Rightarrow> transmittable_distro_result \<Rightarrow> 'r list option \<Rightarrow>
      ('id, 't, 'r) step_state_machine \<Rightarrow> ('id, 't, 'r) step_state_machine" where
  "apply_distro_result V hash payload self_result sm =
     (let on_round = (\<lambda>current.
            let rs = the_round current sm;
                rs = (case self_result of
                        Some r \<Rightarrow> rs\<lparr>rs_self_distro_results := rs_self_distro_results rs @ [r]\<rparr>
                      | None \<Rightarrow> rs)
            in spawn_verify V hash payload rs (put_round current rs sm))
      in if distro_result_blob_downloaded (sm_cells sm) hash (sm_current sm) then on_round True
         else if distro_result_blob_downloaded (sm_cells sm) hash (sm_previous sm) then on_round False
         else sm)"

section \<open>Tasks\<close>

text \<open>The first piece, under the locks of the remaining batches and of the filters.\<close>

definition vote_for ::
    "('id, 't, 'r) client_env \<Rightarrow> 'id verify_task \<Rightarrow> ('id, 't, 'r) cells \<Rightarrow> (bool \<times> ('id, 't, 'r) cells) option" where
  "vote_for V t h =
     (case hp_batches h (vt_batches t) of
        None \<Rightarrow> Some (False, h)
      | Some remaining \<Rightarrow> do {
          blooms \<leftarrow> (case hp_blooms h (vt_blooms t) of
                       None \<Rightarrow> Some None
                     | Some (participant_bloom, broadcast_bloom) \<Rightarrow> do {
                         p \<leftarrow> bloom_add (ce_node V) (ce_sha V (ne_as_ref (ce_node V) (vt_from t))) participant_bloom;
                         q \<leftarrow> (if vt_batch t \<in> remaining
                               then bloom_add (ce_node V) (cm_data_hash (vt_commitment t)) broadcast_bloom
                               else Some broadcast_bloom);
                         Some (Some (p, q))
                       });
          let left = remaining - {vt_batch t};
          Some (left = {}, h\<lparr>hp_blooms := (hp_blooms h)(vt_blooms t := blooms),
                             hp_batches := (hp_batches h)(vt_batches t := Some left)\<rparr>)
        })"

definition store_handle :: "'id verify_task \<Rightarrow> ('id, 't, 'r) cells \<Rightarrow> ('id, 't, 'r) cells" where
  "store_handle t h =
     (let n = hp_next h; d = vt_downloads t
      in h\<lparr>hp_next := Suc n, hp_handles := (hp_handles h)(n := Running (vt_payload t)),
           hp_downloads := (hp_downloads h)(d := AList.update (vt_hash t) (Deserializing n) (hp_downloads h d))\<rparr>)"

text \<open>One piece of a task: the task that is left, if any, and the cells after it. \<open>None\<close> is a panic.\<close>

definition task_step ::
    "('id, 't, 'r) client_env \<Rightarrow> 'id verify_task \<Rightarrow> ('id, 't, 'r) cells \<Rightarrow>
      ('id verify_task option \<times> ('id, 't, 'r) cells) option" where
  "task_step V t h =
     (case vt_stage t of
        Verifying \<Rightarrow>
          (if comptue_hash (ce_sha V) (vt_payload t) \<noteq> cm_data_hash (vt_commitment t) then Some (None, h)
           else do {
             (just_finished, h) \<leftarrow> vote_for V t h;
             Some (Some (t\<lparr>vt_stage := if just_finished then Marking else Storing\<rparr>), h)
           })
      | Marking \<Rightarrow> Some (Some (t\<lparr>vt_stage := Storing\<rparr>),
                         h\<lparr>hp_batches := (hp_batches h)(vt_batches t := None)\<rparr>)
      | Storing \<Rightarrow> Some (None, store_handle t h))"

definition run_task ::
    "('id, 't, 'r) client_env \<Rightarrow> nat \<Rightarrow> ('id, 't, 'r) step_state_machine \<Rightarrow> ('id, 't, 'r) step_state_machine option" where
  "run_task V i sm =
     do {
       t \<leftarrow> nth_opt (sm_tasks sm) i;
       (left, h) \<leftarrow> task_step V t (sm_cells sm);
       Some (sm\<lparr>sm_cells := h,
                sm_tasks := (case left of
                               Some t \<Rightarrow> (sm_tasks sm)[i := t]
                             | None \<Rightarrow> take i (sm_tasks sm) @ drop (Suc i) (sm_tasks sm))\<rparr>)
     }"

text \<open>\<open>collect::<Result<Vec<DistroResult>, TchError>>()\<close>\<close>

fun deserialize_all :: "('id, 't, 'r) client_env \<Rightarrow> serialized_distro_result list \<Rightarrow> 'r list option" where
  "deserialize_all V [] = Some []"
| "deserialize_all V (x # xs) =
     do {
       y \<leftarrow> ce_deserialize V x;
       ys \<leftarrow> deserialize_all V xs;
       Some (y # ys)
     }"

definition deserialize_payload ::
    "('id, 't, 'r) client_env \<Rightarrow> bool \<Rightarrow> transmittable_distro_result \<Rightarrow> 'r deserialized" where
  "deserialize_payload V crashed p =
     (if crashed then Inl DeserializeThreadCrashed
      else case deserialize_all V (td_distro_results p) of
             None \<Rightarrow> Inl DeserializeTch
           | Some rs \<Rightarrow> Inr (rs, td_trainer_nonce p))"

definition finish_deserialize ::
    "('id, 't, 'r) client_env \<Rightarrow> nat \<Rightarrow> bool \<Rightarrow> ('id, 't, 'r) step_state_machine \<Rightarrow> ('id, 't, 'r) step_state_machine" where
  "finish_deserialize V n crashed sm =
     (case hp_handles (sm_cells sm) n of
        Completed _ \<Rightarrow> sm
      | Running p \<Rightarrow>
          sm\<lparr>sm_cells := (sm_cells sm)\<lparr>hp_handles :=
               (hp_handles (sm_cells sm))(n := Completed (deserialize_payload V crashed p))\<rparr>\<rparr>)"

end
