(* ===== verification/Client_Training.thy ===== *)
theory Client_Training
  imports Client_Round
begin

text \<open>
  The training step of a client (\<open>src/shared/client/src/state/train.rs\<close>): entering a round applies the results
  of the round before last, reports unhealthy trainers, moves the round state on, and selects the committees
  and the data of the new round. The forward and backward passes, the optimizer and the data fetcher belong to
  the trainers and are outside; the applying task is followed up to the results it hands to the optimizer.
\<close>

fun map_err :: "('e \<Rightarrow> 'f) \<Rightarrow> ('s, 'e, 'a) exec \<Rightarrow> ('s, 'f, 'a) exec" where
  "map_err f Panic = Panic"
| "map_err f (Fail s e) = Fail s (f e)"
| "map_err f (Done s a) = Done s a"

section \<open>Applying the results of a round\<close>

text \<open>
  \<open>apply_results\<close>: takes the downloads and the results out of the previous round and captures them with the
  witnesses of the coordinator's previous round.
\<close>

definition apply_results ::
    "'id coordinator \<Rightarrow> ('id, 't, 'r) step_state_machine \<Rightarrow>
      (('id, 't, 'r) step_state_machine, apply_error, ('id, 't, 'r) apply_job) exec" where
  "apply_results c sm =
     (if rs_height (sm_current sm) = 0 then Done sm ApplySkipped
      else case Coordinator_Types.previous_round c of
        None \<Rightarrow> Fail sm ApNoActiveRound
      | Some pr \<Rightarrow>
          need (witness_quorum (of_nat (length (r_witnesses pr))) c) (\<lambda>quorum.
          need (get_cold_start_warmup_bounds c) (\<lambda>warmup_lr_between.
            let prev = sm_previous sm;
                (a, h) = alloc_cells None None (sm_cells sm);
                sm = sm\<lparr>sm_cells := h, sm_previous := prev\<lparr>rs_downloads := a, rs_results := Map.empty\<rparr>\<rparr>
            in case previous_previous_round c of
                 None \<Rightarrow> Fail sm ApNoActiveRound
               | Some ppr \<Rightarrow>
                   (case rs_committee_info prev of
                      None \<Rightarrow> Fail sm ApNoActiveRound
                    | Some (_, _, selection) \<Rightarrow>
                        need (get_num_trainer_nodes selection) (\<lambda>n.
                        need (get_batch_ids_for_round ppr c n) (\<lambda>batch_ids.
                          Done sm (Applying \<lparr>ap_commitments = rs_results prev, ap_witnesses = r_witnesses pr,
                            ap_quorum = quorum, ap_payloads = rs_downloads prev, ap_batch_ids = batch_ids,
                            ap_cold_start_warmup_steps = cold_start_warmup_steps (the_llm (co_model c)),
                            ap_epoch = pr_epoch (co_progress c), ap_warmup_lr_between = warmup_lr_between,
                            ap_distro_results = []\<rparr>)))))))"

text \<open>Results of a trainer in its first steps are not applied, except in a cold start or the first epoch.\<close>

definition still_warming_up :: "('id, 't, 'r) applying \<Rightarrow> u32 \<Rightarrow> bool" where
  "still_warming_up a trainer_nonce \<longleftrightarrow>
     trainer_nonce < ap_cold_start_warmup_steps a \<and> ap_epoch a \<noteq> 0 \<and> ap_warmup_lr_between a = None"

text \<open>What the loop makes of the payload of a consensus commitment.\<close>

definition take_payload ::
    "('id, 't, 'r) client_env \<Rightarrow> commitment \<Rightarrow> batch_id \<Rightarrow> bytes \<Rightarrow> ('id, 't, 'r) applying \<Rightarrow> ('id, 't, 'r) cells \<Rightarrow>
      ('id, 't, 'r) apply_job \<times> ('id, 't, 'r) cells" where
  "take_payload V commitment b hash a h =
     (let d = ap_payloads a; h' = h\<lparr>hp_downloads := (hp_downloads h)(d := AList.delete hash (hp_downloads h d))\<rparr>
      in case map_of (hp_downloads h d) hash of
           None \<Rightarrow> (ApplyFailed (UnknownCommitment commitment b), h)
         | Some (Downloading _ _ ticket) \<Rightarrow>
             (ApplyFailed (DidNotBeginDownloadingCommitment commitment b (ce_ticket_hash V ticket)), h')
         | Some (Deserializing n) \<Rightarrow>
             (case hp_handles h n of
                Running _ \<Rightarrow> (ApplyFailed (DidNotFinishDeserializingCommitment commitment b), h')
              | Completed (Inl err) \<Rightarrow> (Applying a, h')
              | Completed (Inr (results, trainer_nonce)) \<Rightarrow>
                  (Applying (if still_warming_up a trainer_nonce then a
                             else a\<lparr>ap_distro_results := ap_distro_results a @ [results]\<rparr>), h')))"

text \<open>One iteration of the loop over the batch ids, and the end of the loop.\<close>

definition apply_one ::
    "('id, 't, 'r) client_env \<Rightarrow> ('id, 't, 'r) applying \<Rightarrow> ('id, 't, 'r) cells \<Rightarrow>
      ('id, 't, 'r) apply_job \<times> ('id, 't, 'r) cells" where
  "apply_one V a h =
     (case ap_batch_ids a of
        [] \<Rightarrow> (ApplyReady (ap_distro_results a), h)
      | b # bs \<Rightarrow>
          (let a = a\<lparr>ap_batch_ids := bs\<rparr>
           in case ap_commitments a b of
                None \<Rightarrow> (Applying a, h)
              | Some batch_commitments \<Rightarrow>
                  (case select_consensus_commitment_by_witnesses (ce_node V) (map (\<lambda>e. fst (snd e)) batch_commitments)
                          (ap_witnesses a) (ap_quorum a) of
                     None \<Rightarrow> (ApplyPanicked, h)
                   | Some None \<Rightarrow> (Applying a, h)
                   | Some (Some consensus) \<Rightarrow>
                       (case nth_opt batch_commitments consensus of
                          None \<Rightarrow> (ApplyPanicked, h)
                        | Some (_, commitment, result) \<Rightarrow>
                            take_payload V commitment b (ce_ticket_hash V (tr_ticket result)) a h))))"

definition apply_job_step ::
    "('id, 't, 'r) client_env \<Rightarrow> ('id, 't, 'r) apply_job \<Rightarrow> ('id, 't, 'r) cells \<Rightarrow>
      ('id, 't, 'r) apply_job \<times> ('id, 't, 'r) cells" where
  "apply_job_step V job h = (case job of Applying a \<Rightarrow> apply_one V a h | _ \<Rightarrow> (job, h))"

fun batches_left :: "('id, 't, 'r) apply_job \<Rightarrow> nat" where
  "batches_left (Applying a) = Suc (length (ap_batch_ids a))"
| "batches_left _ = 0"

lemma take_payload_ids:
  "take_payload V cm b hash a h = (Applying a', h') \<Longrightarrow> ap_batch_ids a' = ap_batch_ids a"
  by (auto simp: take_payload_def Let_def split: option.splits payload_state.splits deserialize_task.splits
      sum.splits prod.splits if_splits)

lemma batches_left_step:
  assumes "apply_one V a h = (job, h')"
  shows "batches_left job < batches_left (Applying a)"
proof (cases job)
  case (Applying a')
  then show ?thesis using assms take_payload_ids
    by (fastforce simp: apply_one_def Let_def split: list.splits option.splits prod.splits)
qed simp_all

text \<open>Awaiting the task: it runs to its end, whatever the other tasks do meanwhile.\<close>

function apply_run ::
    "('id, 't, 'r) client_env \<Rightarrow> ('id, 't, 'r) apply_job \<Rightarrow> ('id, 't, 'r) cells \<Rightarrow>
      ('id, 't, 'r) apply_job \<times> ('id, 't, 'r) cells" where
  "apply_run V job h =
     (case job of
        Applying a \<Rightarrow> (case apply_one V a h of (job', h') \<Rightarrow> apply_run V job' h')
      | _ \<Rightarrow> (job, h))"
  by pat_completeness auto
termination
  by (relation "measure (\<lambda>(_, job, _). batches_left job)")
     (simp, metis batches_left_step in_measure split_conv)

declare apply_run.simps [simp del]

section \<open>Health checks\<close>

fun health_loop ::
    "('id, 't, 'r) client_env \<Rightarrow> 'id coordinator \<Rightarrow> committee_selection \<Rightarrow> nat \<Rightarrow> 'id client list \<Rightarrow>
      ('id \<times> committee_proof) list option" where
  "health_loop V c s i [] = Some []"
| "health_loop V c s i (client # clients) =
     do {
       proof \<leftarrow> get_committee (ce_node V) s (of_nat i);
       is_healthy \<leftarrow> healthy (ce_node V) (cl_id client) proof c;
       checks \<leftarrow> health_loop V c s (Suc i) clients;
       Some (if is_healthy = Inr True then checks else (cl_id client, proof) # checks)
     }"

text \<open>
  The spawned task works on copies, so it is run where it is spawned; what \<open>TrainingStep::finish\<close> learns when
  it awaits it is returned.
\<close>

definition start_sending_health_checks ::
    "('id, 't, 'r) client_env \<Rightarrow> 'id coordinator \<Rightarrow> ('id, 't, 'r) step_state_machine \<Rightarrow>
      (('id, 't, 'r) step_state_machine, train_error, (train_error + unit) option) exec" where
  "start_sending_health_checks V c sm =
     (if rs_height (sm_current sm) = 0 then Done sm None
      else case rs_committee_info (sm_current sm) of
        None \<Rightarrow> Fail sm NoCommitteeInfo
      | Some (_, witness_proof, selection) \<Rightarrow>
          (if sb_is_false (es_first_round (co_epoch_state c)) \<and> sb_is_true (wp_witness witness_proof)
           then (case health_loop V c selection 0 (co_clients c) of
                   None \<Rightarrow> Done sm (Some (Inl HealthCheckCrashed))
                 | Some checks \<Rightarrow>
                     (if checks = [] then Done sm (Some (Inr ()))
                      else if sm_open sm ChHealth
                      then Done (emit (SendHealthChecksOut checks) sm) (Some (Inr ()))
                      else Done sm (Some (Inl SendHealthChecks))))
           else Done sm None))"

section \<open>Entering a round\<close>

text \<open>\<open>Bloom::random\<close>, with the size its floating-point formula gives and the keys it draws.\<close>

definition bloom_random :: "nat \<Rightarrow> nat \<Rightarrow> nat \<Rightarrow> u64 list \<Rightarrow> bloom option" where
  "bloom_random U K m keys = bloom_new U K (max 1 (min m (bloom_max_bits U))) keys"

text \<open>
  What the rest of the client answers during one operation: whether there are trainers, how the awaited
  trainer, evaluation and checkpoint tasks end, and the sizes and keys of the two filters.
\<close>

record outside =
  ou_trainers :: bool
  ou_train :: "train_error option"
  ou_evals :: bool
  ou_cooldown :: bool
  ou_participant :: "nat \<times> u64 list"
  ou_broadcast :: "nat \<times> u64 list"

definition new_blooms :: "outside \<Rightarrow> (bloom \<times> bloom) option" where
  "new_blooms ou =
     do {
       p \<leftarrow> bloom_random 16 8 (fst (ou_participant ou)) (snd (ou_participant ou));
       q \<leftarrow> bloom_random 16 8 (fst (ou_broadcast ou)) (snd (ou_broadcast ou));
       Some (p, q)
     }"

text \<open>The data of the round: nothing to train on once the last step of the epoch is set.\<close>

definition round_data ::
    "('id, 't, 'r) client_env \<Rightarrow> 'id coordinator \<Rightarrow> round \<Rightarrow> committee_selection \<Rightarrow>
      ((batch_id \<times> 'id) list \<times> batch_id set option) option" where
  "round_data V c rnd s =
     (if \<not> last_step_set (co_epoch_state c)
      then do {
        data_assignments \<leftarrow> assign_data_for_state (ce_node V) c s;
        n \<leftarrow> get_num_trainer_nodes s;
        all_batch_ids \<leftarrow> get_batch_ids_for_round rnd c n;
        Some (data_assignments, Some (set all_batch_ids))
      }
      else Some ([], None))"

definition enter_round ::
    "('id, 't, 'r) client_env \<Rightarrow> u64 \<Rightarrow> 'id coordinator \<Rightarrow> outside \<Rightarrow> round \<Rightarrow> ('id, 't, 'r) step_state_machine \<Rightarrow>
      (('id, 't, 'r) step_state_machine, train_error, unit) exec" where
  "enter_round V client_index c ou rnd sm =
     (let (blank, h) = round_state_new (sm_cells sm);
          sm = sm\<lparr>sm_cells := h, sm_previous := sm_current sm, sm_current := blank\<rparr>
      in need (committee_selection_new (ce_node V) (ucast (r_tie_breaker_tasks rnd))
                 (ucast (witness_nodes (co_config c))) (verification_percent (co_config c))
                 (of_nat (length (co_clients c))) (r_random_seed rnd)) (\<lambda>selected.
         case selected of
           Inl e \<Rightarrow> Fail sm (CoordinatorErr e)
         | Inr selection \<Rightarrow>
             need (round_data V c rnd selection) (\<lambda>(data_assignments, batch_ids_not_yet_trained_on).
             need (get_committee (ce_node V) selection client_index) (\<lambda>committee_proof.
             need (get_witness (ce_node V) selection client_index) (\<lambda>witness_proof.
             need (new_blooms ou) (\<lambda>blooms.
               let (a, h) = alloc_cells (Some blooms) batch_ids_not_yet_trained_on (sm_cells sm)
               in Done (sm\<lparr>sm_cells := h, sm_current :=
                    \<lparr>rs_height = r_height rnd, rs_step = co_step c, rs_sent_witness = False,
                     rs_sent_finished = False, rs_downloads = a, rs_results = Map.empty,
                     rs_clients_finished = [], rs_data_assignments = data_assignments, rs_blooms = a,
                     rs_broadcasts = [], rs_committee_info = Some (committee_proof, witness_proof, selection),
                     rs_batches = a, rs_self_distro_results = []\<rparr>\<rparr>) ()))))))"

definition training_start ::
    "('id, 't, 'r) client_env \<Rightarrow> u64 \<Rightarrow> 'id coordinator \<Rightarrow> outside \<Rightarrow> ('id, 't, 'r) step_state_machine \<Rightarrow>
      (('id, 't, 'r) step_state_machine, train_error, ('id, 't, 'r) training_step) exec" where
  "training_start V client_index c ou sm =
     (if \<not> ou_trainers ou then Fail sm NoTrainers
      else and_then (map_err ApplyErr (apply_results c sm)) (\<lambda>sm applying.
           and_then (start_sending_health_checks V c sm) (\<lambda>sm sending_health_checks.
             case Coordinator_Types.current_round c of
               None \<Rightarrow> Fail sm TeNoActiveRound
             | Some rnd \<Rightarrow>
                 and_then (enter_round V client_index c ou rnd sm) (\<lambda>sm _.
                 need (get_cold_start_warmup_bounds c) (\<lambda>_.
                   Done sm \<lparr>ts_sending_health_checks = sending_health_checks, ts_apply = applying,
                            ts_have_training = \<not> last_step_set (co_epoch_state c), ts_finished = False\<rparr>)))))"

text \<open>
  \<open>TrainingStep::finish\<close>: awaits the health checks and then the task that applies and trains. How training
  itself ends is an answer from outside; a crashed or failed application is not.
\<close>

definition training_finish ::
    "('id, 't, 'r) client_env \<Rightarrow> outside \<Rightarrow> ('id, 't, 'r) training_step \<Rightarrow> ('id, 't, 'r) step_state_machine \<Rightarrow>
      (('id, 't, 'r) step_state_machine, train_error, unit) exec" where
  "training_finish V ou ts sm =
     (case ts_sending_health_checks ts of
        Some (Inl e) \<Rightarrow> Fail sm e
      | _ \<Rightarrow>
          (case apply_run V (ts_apply ts) (sm_cells sm) of (job, h) \<Rightarrow>
             let sm = sm\<lparr>sm_cells := h\<rparr>
             in case job of
                  ApplyFailed e \<Rightarrow> Fail sm (ApplyErr e)
                | ApplyPanicked \<Rightarrow> Fail sm ApplyCrashed
                | _ \<Rightarrow> (case ou_train ou of Some e \<Rightarrow> Fail sm e | None \<Rightarrow> Done sm ())))"

end
