(* ===== verification/Client_Machine.thy ===== *)
theory Client_Machine
  imports Client_Training
begin

text \<open>
  The state machine of a client (\<open>src/shared/client/src/state/steps.rs\<close>): how it follows the coordinator from
  phase to phase, when it reports that it has finished and when it sends its witness early, and the manager
  that initializes it. Evaluations, checkpoints and statistics are outside: whether an awaited task of theirs
  succeeds is an answer of the record \<open>outside\<close>.
\<close>

section \<open>Early witnesses\<close>

datatype opportunistic_witness_error = OwSend | OwFinished

fun position_where :: "('a \<Rightarrow> bool) \<Rightarrow> 'a list \<Rightarrow> nat option" where
  "position_where P [] = None"
| "position_where P (x # xs) = (if P x then Some 0 else map_option Suc (position_where P xs))"

definition my_position :: "('id, 't, 'r) client_env \<Rightarrow> 'id \<Rightarrow> 'id client list \<Rightarrow> nat option" where
  "my_position V i clients = position_where (\<lambda>x. ce_eq V (cl_id x) i) clients"

text \<open>Every payload of the round has been deserialized.\<close>

definition all_deserialized :: "('id, 't, 'r) cells \<Rightarrow> ('id, 't, 'r) round_state \<Rightarrow> bool" where
  "all_deserialized h rs \<longleftrightarrow>
     (\<forall>e \<in> set (hp_downloads h (rs_downloads rs)).
        case snd e of
          Deserializing n \<Rightarrow> (case hp_handles h n of Completed _ \<Rightarrow> True | Running _ \<Rightarrow> False)
        | Downloading _ _ _ \<Rightarrow> False)"

definition unfinished_clients ::
    "('id, 't, 'r) client_env \<Rightarrow> ('id, 't, 'r) step_state_machine \<Rightarrow> 'id client list" where
  "unfinished_clients V sm =
     filter (\<lambda>client. \<not> (\<exists>e \<in> set (rs_clients_finished (sm_current sm)). ce_eq V (fst e) (cl_id client))) (sm_clients sm)"

definition default_committee_proof :: committee_proof where
  "default_committee_proof = \<lparr>cp_committee = TieBreaker, cp_position = 0, cp_index = 0\<rparr>"

definition send_finished ::
    "('id, 't, 'r) client_env \<Rightarrow> u32 \<Rightarrow> bytes list \<Rightarrow> committee_proof \<Rightarrow> bool \<Rightarrow>
      (('id, 't, 'r) step_state_machine \<Rightarrow> ('id, 't, 'r) step_state_machine) \<Rightarrow> ('id, 't, 'r) step_state_machine \<Rightarrow>
      (('id, 't, 'r) step_state_machine, opportunistic_witness_error, unit) exec" where
  "send_finished V step broadcasts proof warmup mark sm =
     need (broadcasts_root (ce_sha V) broadcasts) (\<lambda>merkle.
       if sm_open sm ChFinished
       then Done (mark (emit (BroadcastFinished \<lparr>fb_step = step, fb_merkle = merkle,
                    fb_commitment_data_hash = ce_sha V merkle, fb_proof = proof, fb_warmup = warmup\<rparr>) sm)) ()
       else Fail sm OwFinished)"

definition witness_early ::
    "('id, 't, 'r) client_env \<Rightarrow> committee_proof \<Rightarrow> ('id, 't, 'r) step_state_machine \<Rightarrow>
      (('id, 't, 'r) step_state_machine, opportunistic_witness_error, unit) exec" where
  "witness_early V proof sm =
     (if \<not> all_deserialized (sm_cells sm) (sm_previous sm) then Done sm ()
      else if \<not> rs_sent_finished (sm_current sm)
      then send_finished V (rs_step (sm_current sm)) (rs_broadcasts (sm_previous sm)) proof False
             (\<lambda>sm. sm\<lparr>sm_current := (sm_current sm)\<lparr>rs_sent_finished := True\<rparr>\<rparr>) sm
      else if unfinished_clients V sm \<noteq> [] then Done sm ()
      else need (get_witness_to_send V (sm_cells sm) (sm_previous sm) (sm_current sm)) (\<lambda>(to_send, prev).
             let sm = sm\<lparr>sm_previous := prev\<rparr>
             in case to_send of
                  None \<Rightarrow> Done sm ()
                | Some w \<Rightarrow> (if sm_open sm ChWitness then Done (emit (SendOpportunistic (OppWitness w)) sm) ()
                              else Fail sm OwSend)))"

definition warmup_early ::
    "('id, 't, 'r) client_env \<Rightarrow> ('id, 't, 'r) step_state_machine \<Rightarrow>
      (('id, 't, 'r) step_state_machine, opportunistic_witness_error, unit) exec" where
  "warmup_early V sm =
     (if \<not> sm_sent_warmup_finished sm
      then send_finished V 0 (rs_broadcasts (sm_current sm)) default_committee_proof True
             (\<lambda>sm. sm\<lparr>sm_sent_warmup_finished := True\<rparr>) sm
      else if unfinished_clients V sm \<noteq> [] then Done sm ()
      else if \<not> sm_sent_warmup_witness sm
      then need (broadcasts_root (ce_sha V) (rs_broadcasts (sm_current sm))) (\<lambda>merkle.
             case my_position V (sm_identity sm) (sm_clients sm) of
               None \<Rightarrow> Done (sm\<lparr>sm_sent_warmup_witness := True\<rparr>) ()
             | Some i \<Rightarrow>
                 let index = of_nat i;
                     w = \<lparr>w_proof = \<lparr>wp_position = index, wp_index = index, wp_witness = SB_FALSE\<rparr>,
                          w_participant_bloom = DEFAULT_WITNESS_BLOOM, w_broadcast_bloom = DEFAULT_WITNESS_BLOOM,
                          w_broadcast_merkle = merkle\<rparr>
                 in if sm_open sm ChWitness
                    then Done ((emit (SendOpportunistic (OppWarmup w)) sm)\<lparr>sm_sent_warmup_witness := True\<rparr>) ()
                    else Fail sm OwSend)
      else Done sm ())"

definition try_send_opportunistic_witness ::
    "('id, 't, 'r) client_env \<Rightarrow> ('id, 't, 'r) step_state_machine \<Rightarrow>
      (('id, 't, 'r) step_state_machine, opportunistic_witness_error, unit) exec" where
  "try_send_opportunistic_witness V sm =
     (case rs_committee_info (sm_current sm) of
        Some (proof, _, _) \<Rightarrow>
          (case sm_active_step sm of
             TrainingActive ts \<Rightarrow>
               (if ts_finished ts \<and> hp_batches (sm_cells sm) (rs_batches (sm_previous sm)) = None
                then witness_early V proof sm else Done sm ())
           | _ \<Rightarrow> Done sm ())
      | None \<Rightarrow>
          (if co_run_state (sm_coordinator_state sm) = Warmup then warmup_early V sm else Done sm ()))"

section \<open>Following the coordinator\<close>

datatype step_error =
    Desync string run_state
  | WitnessErr witnessing_error
  | CooldownErr
  | TrainErr train_error
  | EvalsErr

fun active_step_name :: "('id, 't, 'r) active_step \<Rightarrow> string" where
  "active_step_name Intermediate = ''Intermediate''"
| "active_step_name WarmupActive = ''Warmup''"
| "active_step_name (TrainingActive _) = ''Training''"
| "active_step_name (WitnessActive _) = ''Witness''"
| "active_step_name CooldownActive = ''Cooldown''"

text \<open>\<open>None\<close> is the \<open>unreachable!\<close> of a step that was taken out and not put back.\<close>

fun allowed_in_run_state :: "('id, 't, 'r) active_step \<Rightarrow> run_state \<Rightarrow> bool option" where
  "allowed_in_run_state Intermediate s = None"
| "allowed_in_run_state WarmupActive s = Some (s \<in> {Warmup, WaitingForMembers, Paused})"
| "allowed_in_run_state CooldownActive s = Some (s = Cooldown)"
| "allowed_in_run_state (TrainingActive _) s = Some (s = RoundTrain)"
| "allowed_in_run_state (WitnessActive _) s = Some (s = RoundWitness)"

type_synonym ('id, 't, 'r, 'a) sm_exec = "(('id, 't, 'r) step_state_machine, step_error, 'a) exec"

definition warmup_start :: "('id, 't, 'r) step_state_machine \<Rightarrow> ('id, 't, 'r) step_state_machine" where
  "warmup_start sm =
     (let (prev, h) = round_state_new (sm_cells sm); (cur, h) = round_state_new h
      in sm\<lparr>sm_cells := h, sm_previous := prev, sm_current := cur\<rparr>)"

definition witness_finish ::
    "witness_step \<Rightarrow> ('id, 't, 'r) step_state_machine \<Rightarrow> ('id, 't, 'r, unit) sm_exec" where
  "witness_finish ws sm =
     (case ws_sending_witness ws of Some (Inl e) \<Rightarrow> Fail sm (WitnessErr e) | _ \<Rightarrow> Done sm ())"

definition witness_start ::
    "('id, 't, 'r) client_env \<Rightarrow> outside \<Rightarrow> ('id, 't, 'r) step_state_machine \<Rightarrow> ('id, 't, 'r, witness_step) sm_exec" where
  "witness_start V ou sm =
     (if \<not> ou_trainers ou then Fail sm (WitnessErr WitnessNoTrainers)
      else need (get_witness_to_send V (sm_cells sm) (sm_previous sm) (sm_current sm)) (\<lambda>(to_send, prev).
             let sm = sm\<lparr>sm_previous := prev\<rparr>
             in case to_send of
                  None \<Rightarrow> Done sm \<lparr>ws_sending_witness = None\<rparr>
                | Some w \<Rightarrow>
                    (if sm_open sm ChWitness
                     then Done (emit (SendOpportunistic (OppWitness w)) sm) \<lparr>ws_sending_witness = Some (Inr ())\<rparr>
                     else Done sm \<lparr>ws_sending_witness = Some (Inl WitnessSend)\<rparr>)))"

definition stop_evals :: "outside \<Rightarrow> ('id, 't, 'r) step_state_machine \<Rightarrow> ('id, 't, 'r, unit) sm_exec" where
  "stop_evals ou sm = (if ou_evals ou then Done sm () else Fail sm EvalsErr)"

definition cooldown_start ::
    "'id coordinator \<Rightarrow> outside \<Rightarrow> ('id, 't, 'r) step_state_machine \<Rightarrow> ('id, 't, 'r, unit) sm_exec" where
  "cooldown_start c ou sm =
     (if \<not> ou_trainers ou then Fail sm CooldownErr else need (checked_sub (co_step c) 1) (\<lambda>_. Done sm ()))"

definition cooldown_finish :: "outside \<Rightarrow> ('id, 't, 'r) step_state_machine \<Rightarrow> ('id, 't, 'r, unit) sm_exec" where
  "cooldown_finish ou sm = (if ou_cooldown ou then Done sm () else Fail sm CooldownErr)"

abbreviation set_step :: "('id, 't, 'r) active_step \<Rightarrow> ('id, 't, 'r) step_state_machine \<Rightarrow> ('id, 't, 'r) step_state_machine" where
  "set_step s sm \<equiv> sm\<lparr>sm_active_step := s\<rparr>"

definition start_training ::
    "('id, 't, 'r) client_env \<Rightarrow> nat \<Rightarrow> 'id coordinator \<Rightarrow> outside \<Rightarrow> ('id, 't, 'r) step_state_machine \<Rightarrow>
      ('id, 't, 'r, ('id, 't, 'r) active_step) sm_exec" where
  "start_training V index c ou sm =
     and_then (map_err TrainErr (training_start V (of_nat index) c ou sm)) (\<lambda>sm ts. Done sm (TrainingActive ts))"

text \<open>The new step of a client that is a member, with the old one taken out.\<close>

definition next_step ::
    "('id, 't, 'r) client_env \<Rightarrow> nat \<Rightarrow> 'id coordinator \<Rightarrow> outside \<Rightarrow> ('id, 't, 'r) active_step \<Rightarrow>
      ('id, 't, 'r) step_state_machine \<Rightarrow> ('id, 't, 'r, ('id, 't, 'r) active_step) sm_exec" where
  "next_step V index c ou step sm =
     (case (step, co_run_state c) of
        (WarmupActive, RoundTrain) \<Rightarrow>
          and_then (stop_evals ou sm) (\<lambda>sm _.
            start_training V index c ou (sm\<lparr>sm_sent_warmup_finished := False, sm_sent_warmup_witness := False\<rparr>))
      | (TrainingActive ts, RoundWitness) \<Rightarrow>
          and_then (map_err TrainErr (training_finish V ou ts sm)) (\<lambda>sm _.
          and_then (witness_start V ou sm) (\<lambda>sm ws. Done sm (WitnessActive ws)))
      | (WitnessActive ws, RoundTrain) \<Rightarrow>
          and_then (witness_finish ws sm) (\<lambda>sm _.
          and_then (stop_evals ou sm) (\<lambda>sm _. start_training V index c ou sm))
      | (WitnessActive ws, Cooldown) \<Rightarrow>
          and_then (witness_finish ws sm) (\<lambda>sm _.
          and_then (stop_evals ou sm) (\<lambda>sm _.
          and_then (cooldown_start c ou sm) (\<lambda>sm _. Done sm CooldownActive)))
      | (CooldownActive, WaitingForMembers) \<Rightarrow>
          and_then (cooldown_finish ou sm) (\<lambda>sm _. Done (warmup_start sm) WarmupActive)
      | (CooldownActive, Warmup) \<Rightarrow>
          and_then (cooldown_finish ou sm) (\<lambda>sm _. Done (warmup_start sm) WarmupActive)
      | (CooldownActive, Paused) \<Rightarrow>
          and_then (cooldown_finish ou sm) (\<lambda>sm _. Done (warmup_start sm) WarmupActive)
      | (step, s) \<Rightarrow>
          need (allowed_in_run_state step s) (\<lambda>allowed.
            if allowed then Done sm step else Fail sm (Desync (active_step_name step) s)))"

text \<open>The new step of a client that is not a member: it waits in warmup.\<close>

definition leave_step ::
    "('id, 't, 'r) client_env \<Rightarrow> outside \<Rightarrow> ('id, 't, 'r) active_step \<Rightarrow> ('id, 't, 'r) step_state_machine \<Rightarrow>
      ('id, 't, 'r, ('id, 't, 'r) active_step) sm_exec" where
  "leave_step V ou step sm =
     (case step of
        Intermediate \<Rightarrow> Panic
      | WarmupActive \<Rightarrow> Done sm WarmupActive
      | CooldownActive \<Rightarrow> and_then (cooldown_finish ou sm) (\<lambda>sm _. Done (warmup_start sm) WarmupActive)
      | TrainingActive ts \<Rightarrow>
          and_then (map_err TrainErr (training_finish V ou ts sm)) (\<lambda>sm _. Done (warmup_start sm) WarmupActive)
      | WitnessActive ws \<Rightarrow> and_then (witness_finish ws sm) (\<lambda>sm _. Done (warmup_start sm) WarmupActive))"

definition apply_state ::
    "('id, 't, 'r) client_env \<Rightarrow> 'id coordinator \<Rightarrow> outside \<Rightarrow> ('id, 't, 'r) step_state_machine \<Rightarrow>
      ('id, 't, 'r, unit) sm_exec" where
  "apply_state V c ou sm =
     (let step = sm_active_step sm; taken = set_step Intermediate sm
      in case my_position V (sm_identity sm) (co_clients c) of
           None \<Rightarrow> and_then (leave_step V ou step taken) (\<lambda>sm step. Done (set_step step sm) ())
         | Some index \<Rightarrow>
             and_then (next_step V index c ou step taken) (\<lambda>sm step.
               Done ((set_step step sm)\<lparr>sm_coordinator_state := c\<rparr>) ()))"

definition empty_cells :: "('id, 't, 'r) cells" where
  "empty_cells = \<lparr>hp_next = 0, hp_downloads = (\<lambda>_. []), hp_blooms = (\<lambda>_. None), hp_batches = (\<lambda>_. None),
     hp_handles = (\<lambda>_. Completed (Inl DeserializeThreadCrashed))\<rparr>"

text \<open>\<open>StepStateMachine::new\<close>; the two default rounds it makes first are replaced by \<open>warmup.start\<close>.\<close>

definition step_state_machine_new ::
    "'id \<Rightarrow> 'id coordinator \<Rightarrow> (channel \<Rightarrow> bool) \<Rightarrow> ('id, 't, 'r) step_state_machine" where
  "step_state_machine_new identity c opened =
     (let (prev, h) = round_state_new empty_cells; (cur, h) = round_state_new h
      in warmup_start \<lparr>sm_identity = identity, sm_active_step = WarmupActive, sm_current = cur, sm_previous = prev,
           sm_sent_warmup_finished = False, sm_sent_warmup_witness = False, sm_coordinator_state = c,
           sm_cells = h, sm_tasks = [], sm_outbox = [], sm_open = opened\<rparr>)"

section \<open>The manager of a run\<close>

datatype ('id, 't, 'r) init_stage =
    NotYetInitialized "('id \<times> (channel \<Rightarrow> bool)) option"
  | Initializing 'id "channel \<Rightarrow> bool" "'id coordinator"
  | RunningStage "('id, 't, 'r) step_state_machine"

datatype apply_state_error = InitErr | StepErr step_error

text \<open>
  \<open>RunManager::apply_state\<close>. The answer of the initialization is \<open>None\<close> while it runs, an error, or success,
  when \<open>init_run\<close> returns a new machine on the state it was given.
\<close>

definition rm_run ::
    "('id, 't, 'r) client_env \<Rightarrow> 'id coordinator \<Rightarrow> outside \<Rightarrow> ('id, 't, 'r) step_state_machine \<Rightarrow>
      (('id, 't, 'r) init_stage, apply_state_error, unit) exec" where
  "rm_run V c ou sm =
     (case apply_state V c ou sm of
        Panic \<Rightarrow> Panic
      | Fail sm e \<Rightarrow> Fail (RunningStage sm) (StepErr e)
      | Done sm u \<Rightarrow> Done (RunningStage sm) u)"

definition rm_apply_state ::
    "('id, 't, 'r) client_env \<Rightarrow> 'id coordinator \<Rightarrow> outside \<Rightarrow> (unit + unit) option \<Rightarrow> ('id, 't, 'r) init_stage \<Rightarrow>
      (('id, 't, 'r) init_stage, apply_state_error, unit) exec" where
  "rm_apply_state V c ou init rm =
     (case rm of
        NotYetInitialized None \<Rightarrow> Panic
      | NotYetInitialized (Some (identity, opened)) \<Rightarrow>
          (if co_run_state c = Warmup \<and> (\<exists>x \<in> set (co_clients c). ce_eq V (cl_id x) identity)
           then Done (Initializing identity opened c) () else Done rm ())
      | Initializing identity opened c0 \<Rightarrow>
          (if co_run_state c \<in> {WaitingForMembers, Paused} then Done rm ()
           else case init of
                  None \<Rightarrow> Done rm ()
                | Some (Inl _) \<Rightarrow> Fail rm InitErr
                | Some (Inr _) \<Rightarrow> rm_run V c ou (step_state_machine_new identity c0 opened))
      | RunningStage sm \<Rightarrow> rm_run V c ou sm)"

definition rm_coordinator_state :: "('id, 't, 'r) init_stage \<Rightarrow> 'id coordinator option" where
  "rm_coordinator_state rm =
     (case rm of
        NotYetInitialized _ \<Rightarrow> None
      | Initializing _ _ c \<Rightarrow> Some c
      | RunningStage sm \<Rightarrow> Some (sm_coordinator_state sm))"

text \<open>The other calls reach the machine once it runs; before, broadcasts and payloads are ignored.\<close>

definition rm_apply_message ::
    "('id, 't, 'r) client_env \<Rightarrow> 'id \<Rightarrow> 't broadcast \<Rightarrow> ('id, 't, 'r) init_stage \<Rightarrow>
      (('id, 't, 'r) init_stage, apply_message_error, apply_message_outcome) exec" where
  "rm_apply_message V from bc rm =
     (case rm of
        RunningStage sm \<Rightarrow>
          (case apply_message V from bc sm of
             Panic \<Rightarrow> Panic
           | Fail sm e \<Rightarrow> Fail (RunningStage sm) e
           | Done sm out \<Rightarrow> Done (RunningStage sm) out)
      | _ \<Rightarrow> Done rm Ignored)"

definition rm_apply_distro_result ::
    "('id, 't, 'r) client_env \<Rightarrow> bytes \<Rightarrow> transmittable_distro_result \<Rightarrow> 'r list option \<Rightarrow>
      ('id, 't, 'r) init_stage \<Rightarrow> ('id, 't, 'r) init_stage" where
  "rm_apply_distro_result V hash payload self_result rm =
     (case rm of
        RunningStage sm \<Rightarrow> RunningStage (apply_distro_result V hash payload self_result sm)
      | _ \<Rightarrow> rm)"

datatype rm_witness_error = RmOpportunistic opportunistic_witness_error | RmApplyState apply_state_error

definition rm_try_send_opportunistic_witness ::
    "('id, 't, 'r) client_env \<Rightarrow> outside \<Rightarrow> (unit + unit) option \<Rightarrow> ('id, 't, 'r) init_stage \<Rightarrow>
      (('id, 't, 'r) init_stage, rm_witness_error, unit) exec" where
  "rm_try_send_opportunistic_witness V ou init rm =
     and_then (case rm of
                 Initializing _ _ c \<Rightarrow> map_err RmApplyState (rm_apply_state V c ou init rm)
               | _ \<Rightarrow> Done rm ()) (\<lambda>rm _.
       case rm of
         RunningStage sm \<Rightarrow>
           (case try_send_opportunistic_witness V sm of
              Panic \<Rightarrow> Panic
            | Fail sm e \<Rightarrow> Fail (RunningStage sm) (RmOpportunistic e)
            | Done sm u \<Rightarrow> Done (RunningStage sm) u)
       | _ \<Rightarrow> Done rm ())"

end
