(* ===== verification/Client_Inv.thy ===== *)
theory Client_Inv
  imports Client_Machine
begin

text \<open>
  The events of a client as steps, and the invariant of its shared cells. A cell belongs to a round or to the
  applying task; the invariant says what its owner recorded about every entry, task and filter bit, and every
  event, in whatever order the tasks run, keeps it.
\<close>

section \<open>Events\<close>

text \<open>
  An operation that returns an error ends the client, whose loop hands the error on, so a run goes on only
  after \<open>Done\<close>. \<open>ApplyStep\<close> is one iteration of the applying task and \<open>Trained\<close> the end of the training task:
  with nothing to train on it does not wait for the application.
\<close>

datatype ('id, 't, 'r) client_event =
    BroadcastSeen 'id "'t broadcast"
  | PayloadSeen bytes transmittable_distro_result "'r list option"
  | StateSeen "'id coordinator" outside
  | WitnessInterval
  | RunTask nat
  | Deserialized nat bool
  | ApplyStep
  | Trained

fun applied :: "('id, 't, 'r) apply_job \<Rightarrow> bool" where
  "applied ApplySkipped = True"
| "applied (ApplyReady _) = True"
| "applied _ = False"

inductive client_step ::
    "('id, 't, 'r) client_env \<Rightarrow> ('id, 't, 'r) step_state_machine \<Rightarrow> ('id, 't, 'r) client_event \<Rightarrow>
      ('id, 't, 'r) step_state_machine \<Rightarrow> bool" for V where
  broadcast: "apply_message V from bc sm = Done sm' out \<Longrightarrow> client_step V sm (BroadcastSeen from bc) sm'"
| payload: "client_step V sm (PayloadSeen hash p self) (apply_distro_result V hash p self sm)"
| state: "apply_state V c ou sm = Done sm' () \<Longrightarrow> client_step V sm (StateSeen c ou) sm'"
| interval: "try_send_opportunistic_witness V sm = Done sm' () \<Longrightarrow> client_step V sm WitnessInterval sm'"
| task: "run_task V i sm = Some sm' \<Longrightarrow> client_step V sm (RunTask i) sm'"
| deserialized: "client_step V sm (Deserialized n crashed) (finish_deserialize V n crashed sm)"
| applying: "sm_active_step sm = TrainingActive ts \<Longrightarrow> apply_job_step V (ts_apply ts) (sm_cells sm) = (job, h) \<Longrightarrow>
    client_step V sm ApplyStep (sm\<lparr>sm_active_step := TrainingActive (ts\<lparr>ts_apply := job\<rparr>), sm_cells := h\<rparr>)"
| trained: "sm_active_step sm = TrainingActive ts \<Longrightarrow> \<not> ts_have_training ts \<or> applied (ts_apply ts) \<Longrightarrow>
    client_step V sm Trained (sm\<lparr>sm_active_step := TrainingActive (ts\<lparr>ts_finished := True\<rparr>)\<rparr>)"

inductive_cases client_stepE: "client_step V sm ev sm'"

fun is_training :: "('id, 't, 'r) active_step \<Rightarrow> bool" where
  "is_training (TrainingActive _) = True"
| "is_training _ = False"

text \<open>The event makes the client enter a round.\<close>

fun enters_round ::
    "('id, 't, 'r) client_env \<Rightarrow> ('id, 't, 'r) step_state_machine \<Rightarrow> ('id, 't, 'r) client_event \<Rightarrow> bool" where
  "enters_round V sm (StateSeen c ou) =
     (co_run_state c = RoundTrain \<and> my_position V (sm_identity sm) (co_clients c) \<noteq> None \<and> \<not> is_training (sm_active_step sm))"
| "enters_round V sm _ = False"

text \<open>A run with the events it took and the number of rounds it entered.\<close>

inductive client_run ::
    "('id, 't, 'r) client_env \<Rightarrow> ('id, 't, 'r) step_state_machine \<Rightarrow> ('id, 't, 'r) client_event list \<Rightarrow> nat \<Rightarrow>
      ('id, 't, 'r) step_state_machine \<Rightarrow> bool" for V and sm where
  start: "client_run V sm [] 0 sm"
| more: "client_run V sm evs n sm' \<Longrightarrow> client_step V sm' ev sm'' \<Longrightarrow>
    client_run V sm (evs @ [ev]) (n + (if enters_round V sm' ev then 1 else 0)) sm''"

text \<open>Coordinator states a client may see: the invariant of the coordinator, no verifiers, no overflow at hand.\<close>

definition state_ok :: "('id, 't, 'r) client_env \<Rightarrow> 'id coordinator \<Rightarrow> bool" where
  "state_ok V c \<longleftrightarrow> co_inv (ce_node V) c \<and> verification_percent (co_config c) = 0 \<and>
     (\<forall>r. Coordinator_Types.current_round c = Some r \<longrightarrow>
        unat (r_data_index r) * unat (get_sequence_length c) < 2 ^ 64 \<and> unat (r_data_index r) + 2 ^ 16 \<le> 2 ^ 64)"

fun event_ok :: "('id, 't, 'r) client_env \<Rightarrow> ('id, 't, 'r) client_event \<Rightarrow> bool" where
  "event_ok V (StateSeen c ou) = state_ok V c"
| "event_ok V _ = True"

section \<open>What the owner of a cell has recorded\<close>

type_synonym ('id, 't) results = "batch_id \<Rightarrow> ('id \<times> commitment \<times> 't training_result) list option"

abbreviation entry_hash :: "('id, 't, 'r) client_env \<Rightarrow> 'id \<times> commitment \<times> 't training_result \<Rightarrow> bytes" where
  "entry_hash V e \<equiv> ce_ticket_hash V (tr_ticket (snd (snd e)))"

definition recorded ::
    "('id, 't, 'r) client_env \<Rightarrow> ('id, 't) results \<Rightarrow> bytes \<Rightarrow> 'id \<Rightarrow> batch_id \<Rightarrow> commitment \<Rightarrow> bool" where
  "recorded V res hash from b cm \<longleftrightarrow>
     (\<exists>es f tr. res b = Some es \<and> (f, cm, tr) \<in> set es \<and> ce_eq V f from \<and> ce_ticket_hash V (tr_ticket tr) = hash)"

text \<open>Every result is of its batch and from its assignee, and no two results have the same payload.\<close>

definition results_ok :: "('id, 't, 'r) client_env \<Rightarrow> (batch_id \<times> 'id) list \<Rightarrow> ('id, 't) results \<Rightarrow> bool" where
  "results_ok V asg res \<longleftrightarrow>
     (\<forall>b es. res b = Some es \<longrightarrow>
        (\<forall>(f, cm, tr) \<in> set es. tr_batch_id tr = b \<and> (\<exists>a. map_of asg b = Some a \<and> ce_eq V f a))) \<and>
     (\<forall>b b' es es' e e'. res b = Some es \<longrightarrow> res b' = Some es' \<longrightarrow> e \<in> set es \<longrightarrow> e' \<in> set es' \<longrightarrow>
        entry_hash V e = entry_hash V e' \<longrightarrow> b = b' \<and> e = e')"

definition handle_ok :: "('id, 't, 'r) client_env \<Rightarrow> ('id, 't, 'r) cells \<Rightarrow> nat \<Rightarrow> commitment \<Rightarrow> bool" where
  "handle_ok V h n cm \<longleftrightarrow>
     (\<exists>p. comptue_hash (ce_sha V) p = cm_data_hash cm \<and>
        (hp_handles h n = Running p \<or> (\<exists>crashed. hp_handles h n = Completed (deserialize_payload V crashed p))))"

fun download_ok ::
    "('id, 't, 'r) client_env \<Rightarrow> ('id, 't, 'r) cells \<Rightarrow> ('id, 't) results \<Rightarrow> bytes \<Rightarrow> ('id, 't) payload_state \<Rightarrow> bool" where
  "download_ok V h res hash (Downloading from b t) \<longleftrightarrow> ce_ticket_hash V t = hash \<and> (\<exists>cm. recorded V res hash from b cm)"
| "download_ok V h res hash (Deserializing n) \<longleftrightarrow>
     n < hp_next h \<and> (\<exists>from b cm. recorded V res hash from b cm \<and> handle_ok V h n cm)"

definition ledger ::
    "('id, 't, 'r) client_env \<Rightarrow> ('id, 't, 'r) cells \<Rightarrow> 'id verify_task list \<Rightarrow> nat \<Rightarrow> ('id, 't) results \<Rightarrow>
      (batch_id \<times> 'id) list \<Rightarrow> bool" where
  "ledger V h ts a res asg \<longleftrightarrow>
     a < hp_next h \<and> results_ok V asg res \<and>
     (\<forall>hash st. map_of (hp_downloads h a) hash = Some st \<longrightarrow> download_ok V h res hash st) \<and>
     (\<forall>t \<in> set ts. vt_downloads t = a \<longrightarrow> recorded V res (vt_hash t) (vt_from t) (vt_batch t) (vt_commitment t))"

definition task_ok :: "('id, 't, 'r) client_env \<Rightarrow> ('id, 't, 'r) cells \<Rightarrow> 'id verify_task \<Rightarrow> bool" where
  "task_ok V h t \<longleftrightarrow>
     vt_downloads t < hp_next h \<and> vt_blooms t = vt_downloads t \<and> vt_batches t = vt_downloads t \<and>
     (vt_stage t \<noteq> Verifying \<longrightarrow> comptue_hash (ce_sha V) (vt_payload t) = cm_data_hash (vt_commitment t)) \<and>
     (vt_stage t = Marking \<longrightarrow> hp_batches h (vt_batches t) \<in> {None, Some {}})"

definition batch_pending :: "('id, 't, 'r) cells \<Rightarrow> nat \<Rightarrow> batch_id \<Rightarrow> bool" where
  "batch_pending h a b \<longleftrightarrow> (case hp_batches h a of None \<Rightarrow> False | Some remaining \<Rightarrow> b \<in> remaining)"

text \<open>
  The filters of a round vouch for the assignee of a batch, and for one of the commitments recorded for it.
\<close>

definition vouched ::
    "('id, 't, 'r) client_env \<Rightarrow> bloom \<Rightarrow> bloom \<Rightarrow> ('id, 't) results \<Rightarrow> batch_id \<Rightarrow> 'id \<Rightarrow> bool" where
  "vouched V p q res b x \<longleftrightarrow>
     bloom_contains (ce_node V) p (ce_sha V (ne_as_ref (ce_node V) x)) = Some True \<and>
     (\<exists>hash from cm. recorded V res hash from b cm \<and> bloom_contains (ce_node V) q (cm_data_hash cm) = Some True)"

definition filters_ok ::
    "('id, 't, 'r) client_env \<Rightarrow> ('id, 't, 'r) cells \<Rightarrow> nat \<Rightarrow> ('id, 't) results \<Rightarrow> (batch_id \<times> 'id) list \<Rightarrow> bool" where
  "filters_ok V h a res asg \<longleftrightarrow>
     (\<forall>p q. hp_blooms h a = Some (p, q) \<longrightarrow> bloom_ok p \<and> bloom_ok q) \<and>
     (\<forall>b x. map_of asg b = Some x \<longrightarrow>
        (\<exists>p q. hp_blooms h a = Some (p, q) \<and> (batch_pending h a b \<or> vouched V p q res b x)))"

definition round_inv ::
    "('id, 't, 'r) client_env \<Rightarrow> ('id, 't, 'r) cells \<Rightarrow> 'id verify_task list \<Rightarrow> ('id, 't, 'r) round_state \<Rightarrow> bool" where
  "round_inv V h ts rs \<longleftrightarrow>
     rs_blooms rs = rs_downloads rs \<and> rs_batches rs = rs_downloads rs \<and>
     ledger V h ts (rs_downloads rs) (rs_results rs) (rs_data_assignments rs) \<and>
     (\<forall>hash from b cm. recorded V (rs_results rs) hash from b cm \<longrightarrow> map_of (hp_downloads h (rs_downloads rs)) hash \<noteq> None) \<and>
     filters_ok V h (rs_downloads rs) (rs_results rs) (rs_data_assignments rs)"

text \<open>A result that was applied: its payload hashed to the commitment the witnesses agreed on for a batch.\<close>

definition from_consensus :: "('id, 't, 'r) client_env \<Rightarrow> ('id, 't, 'r) applying \<Rightarrow> 'r list \<Rightarrow> bool" where
  "from_consensus V a rs \<longleftrightarrow>
     (\<exists>b es k f cm tr p. ap_commitments a b = Some es \<and>
        select_consensus_commitment_by_witnesses (ce_node V) (map (\<lambda>e. fst (snd e)) es) (ap_witnesses a) (ap_quorum a) =
          Some (Some k) \<and>
        nth_opt es k = Some (f, cm, tr) \<and> comptue_hash (ce_sha V) p = cm_data_hash cm \<and>
        deserialize_payload V False p = Inr (rs, td_trainer_nonce p) \<and> \<not> still_warming_up a (td_trainer_nonce p))"

fun job_inv ::
    "('id, 't, 'r) client_env \<Rightarrow> ('id, 't, 'r) cells \<Rightarrow> 'id verify_task list \<Rightarrow> ('id, 't, 'r) apply_job \<Rightarrow> bool" where
  "job_inv V h ts (Applying a) \<longleftrightarrow>
     (\<exists>asg. ledger V h ts (ap_payloads a) (ap_commitments a) asg) \<and> (\<forall>rs \<in> set (ap_distro_results a). from_consensus V a rs)"
| "job_inv V h ts _ \<longleftrightarrow> True"

fun job_apart :: "nat \<Rightarrow> ('id, 't, 'r) apply_job \<Rightarrow> bool" where
  "job_apart d (Applying a) \<longleftrightarrow> ap_payloads a \<noteq> d"
| "job_apart d _ \<longleftrightarrow> True"

fun step_job :: "('id, 't, 'r) active_step \<Rightarrow> ('id, 't, 'r) apply_job" where
  "step_job (TrainingActive ts) = ts_apply ts"
| "step_job _ = ApplySkipped"

definition client_inv :: "('id, 't, 'r) client_env \<Rightarrow> ('id, 't, 'r) step_state_machine \<Rightarrow> bool" where
  "client_inv V sm \<longleftrightarrow>
     round_inv V (sm_cells sm) (sm_tasks sm) (sm_current sm) \<and> round_inv V (sm_cells sm) (sm_tasks sm) (sm_previous sm) \<and>
     rs_downloads (sm_current sm) \<noteq> rs_downloads (sm_previous sm) \<and>
     (\<forall>t \<in> set (sm_tasks sm). task_ok V (sm_cells sm) t) \<and>
     job_inv V (sm_cells sm) (sm_tasks sm) (step_job (sm_active_step sm)) \<and>
     job_apart (rs_downloads (sm_current sm)) (step_job (sm_active_step sm)) \<and>
     job_apart (rs_downloads (sm_previous sm)) (step_job (sm_active_step sm))"

section \<open>Frames\<close>

text \<open>Cells only grow, and a handle only goes from running to completed on its own payload.\<close>

definition cells_grow :: "('id, 't, 'r) client_env \<Rightarrow> ('id, 't, 'r) cells \<Rightarrow> ('id, 't, 'r) cells \<Rightarrow> bool" where
  "cells_grow V h h' \<longleftrightarrow> hp_next h \<le> hp_next h' \<and>
     (\<forall>n < hp_next h. hp_handles h' n = hp_handles h n \<or>
        (\<exists>p crashed. hp_handles h n = Running p \<and> hp_handles h' n = Completed (deserialize_payload V crashed p)))"

definition tasks_from :: "'id verify_task list \<Rightarrow> 'id verify_task list \<Rightarrow> bool" where
  "tasks_from ts ts' \<longleftrightarrow> (\<forall>t' \<in> set ts'. \<exists>t \<in> set ts. \<exists>s. t' = t\<lparr>vt_stage := s\<rparr>)"

definition same_cells :: "nat \<Rightarrow> ('id, 't, 'r) cells \<Rightarrow> ('id, 't, 'r) cells \<Rightarrow> bool" where
  "same_cells a h h' \<longleftrightarrow> hp_downloads h' a = hp_downloads h a \<and> hp_blooms h' a = hp_blooms h a \<and> hp_batches h' a = hp_batches h a"

lemma cells_grow_refl [simp, intro]: "cells_grow V h h"
  by (simp add: cells_grow_def)

lemma cells_grow_same: "hp_next h' = hp_next h \<Longrightarrow> hp_handles h' = hp_handles h \<Longrightarrow> cells_grow V h h'"
  by (simp add: cells_grow_def)

lemma tasks_from_refl [simp, intro]: "tasks_from ts ts"
  unfolding tasks_from_def by (metis verify_task.surjective verify_task.update_convs(9))

lemma same_cells_refl [simp, intro]: "same_cells a h h"
  by (simp add: same_cells_def)

lemma handle_ok_grow: "handle_ok V h n cm \<Longrightarrow> cells_grow V h h' \<Longrightarrow> n < hp_next h \<Longrightarrow> handle_ok V h' n cm"
  unfolding handle_ok_def cells_grow_def by (metis deserialize_task.distinct(1) deserialize_task.inject(1))

lemma download_ok_mono:
  assumes "download_ok V h res hash st" and "cells_grow V h h'"
    and "\<And>hash from b cm. recorded V res hash from b cm \<Longrightarrow> recorded V res' hash from b cm"
  shows "download_ok V h' res' hash st"
proof (cases st)
  case (Deserializing n)
  then obtain "from" b cm where "recorded V res hash from b cm" "handle_ok V h n cm" "n < hp_next h"
    using assms(1) by auto
  then have "recorded V res' hash from b cm" "handle_ok V h' n cm" "n < hp_next h'"
    using assms(2,3) handle_ok_grow [of V h n cm h'] by (auto simp: cells_grow_def)
  then show ?thesis using Deserializing by auto
next
  case (Downloading x b t)
  then obtain cm where "recorded V res hash x b cm" using assms(1) by auto
  then have "recorded V res' hash x b cm" by (rule assms(3))
  then show ?thesis using Downloading assms(1) by auto
qed

lemma ledger_frame:
  assumes "ledger V h ts a res asg" and g: "cells_grow V h h'" and d: "hp_downloads h' a = hp_downloads h a"
    and t: "tasks_from ts ts'"
  shows "ledger V h' ts' a res asg"
  unfolding ledger_def
proof (intro conjI ballI allI impI)
  show "a < hp_next h'" using assms by (auto simp: ledger_def cells_grow_def)
  show "results_ok V asg res" using assms by (simp add: ledger_def)
  show "download_ok V h' res hash st" if "map_of (hp_downloads h' a) hash = Some st" for hash st
    using that assms download_ok_mono [OF _ g, of res hash st res] by (simp add: ledger_def)
  show "recorded V res (vt_hash t') (vt_from t') (vt_batch t') (vt_commitment t')"
    if "t' \<in> set ts'" "vt_downloads t' = a" for t'
    using that assms(1) t unfolding ledger_def tasks_from_def by fastforce
qed

lemma filters_frame: "filters_ok V h a res asg \<Longrightarrow> same_cells a h h' \<Longrightarrow> filters_ok V h' a res asg"
  by (simp add: filters_ok_def same_cells_def batch_pending_def)

lemma round_frame:
  "round_inv V h ts rs \<Longrightarrow> cells_grow V h h' \<Longrightarrow> same_cells (rs_downloads rs) h h' \<Longrightarrow> tasks_from ts ts' \<Longrightarrow>
    round_inv V h' ts' rs"
  unfolding round_inv_def by (auto intro: ledger_frame filters_frame simp: same_cells_def)

lemma job_frame:
  assumes "job_inv V h ts job" and "cells_grow V h h'" and "tasks_from ts ts'"
    and "\<And>a. job = Applying a \<Longrightarrow> hp_downloads h' (ap_payloads a) = hp_downloads h (ap_payloads a)"
  shows "job_inv V h' ts' job"
  using assms by (cases job) (auto intro: ledger_frame)

lemma task_ok_frame:
  "task_ok V h t \<Longrightarrow> cells_grow V h h' \<Longrightarrow>
    hp_batches h' (vt_batches t) = hp_batches h (vt_batches t) \<or> vt_stage t \<noteq> Marking \<Longrightarrow> task_ok V h' t"
  by (auto simp: task_ok_def cells_grow_def)

text \<open>An operation that leaves the cells, the tasks and the step alone, and the two rounds up to their flags.\<close>

definition same_books :: "('id, 't, 'r) round_state \<Rightarrow> ('id, 't, 'r) round_state \<Rightarrow> bool" where
  "same_books rs rs' \<longleftrightarrow> rs_downloads rs' = rs_downloads rs \<and> rs_blooms rs' = rs_blooms rs \<and> rs_batches rs' = rs_batches rs \<and>
     rs_results rs' = rs_results rs \<and> rs_data_assignments rs' = rs_data_assignments rs"

lemma same_books_refl [simp, intro]: "same_books rs rs"
  by (simp add: same_books_def)

lemma round_inv_books: "same_books rs rs' \<Longrightarrow> round_inv V h ts rs' = round_inv V h ts rs"
  by (simp add: round_inv_def same_books_def)

lemma client_inv_books:
  assumes "client_inv V sm" and "same_books (sm_current sm) (sm_current sm')" and "same_books (sm_previous sm) (sm_previous sm')"
    and "sm_cells sm' = sm_cells sm" and "sm_tasks sm' = sm_tasks sm" and "step_job (sm_active_step sm') = step_job (sm_active_step sm)"
  shows "client_inv V sm'"
  using assms round_inv_books [OF assms(2)] round_inv_books [OF assms(3)] by (simp add: client_inv_def same_books_def)

text \<open>An operation on cells and tasks that touches the cells of one address only.\<close>

lemma client_inv_cells:
  assumes inv: "client_inv V sm" and g: "cells_grow V (sm_cells sm) h'" and t: "tasks_from (sm_tasks sm) ts'"
    and others: "\<And>a. a \<noteq> d \<Longrightarrow> same_cells a (sm_cells sm) h'"
    and tasks: "\<forall>t \<in> set ts'. task_ok V h' t"
    and rounds: "\<And>rs. round_inv V (sm_cells sm) (sm_tasks sm) rs \<Longrightarrow> rs_downloads rs = d \<Longrightarrow> round_inv V h' ts' rs"
    and job: "\<And>a. job_inv V (sm_cells sm) (sm_tasks sm) (Applying a) \<Longrightarrow> ap_payloads a = d \<Longrightarrow> job_inv V h' ts' (Applying a)"
  shows "client_inv V (sm\<lparr>sm_cells := h', sm_tasks := ts'\<rparr>)"
proof -
  have r: "round_inv V h' ts' rs" if "round_inv V (sm_cells sm) (sm_tasks sm) rs" for rs
    using that rounds round_frame [OF that g _ t] others by (cases "rs_downloads rs = d") auto
  have "job_inv V h' ts' (step_job (sm_active_step sm))"
  proof (cases "step_job (sm_active_step sm)")
    case (Applying a)
    then show ?thesis
      using inv job job_frame [OF _ g t, of "Applying a"] others [of "ap_payloads a"]
      by (cases "ap_payloads a = d") (auto simp: client_inv_def same_cells_def)
  qed auto
  then show ?thesis using inv r tasks by (simp add: client_inv_def)
qed

end
