(* ===== verification/Client_Keeps.thy ===== *)
theory Client_Keeps
  imports Client_Inv
begin

text \<open>
  Every event of a client keeps the invariant of its cells: tasks first, then broadcasts and payloads, the
  applying task, and the phases.
\<close>

section \<open>Tasks\<close>

lemma env_parts:
  assumes "env_ok E"
  shows "externs_ok E" and "node_identity (ne_eq E) (ne_as_ref E)"
  using assms by (simp_all add: env_ok_def)

lemma vote_for_frame:
  assumes "vote_for V t h = Some (just_finished, h')" and "vt_blooms t = d" and "vt_batches t = d"
  shows "hp_next h' = hp_next h" and "hp_handles h' = hp_handles h" and "hp_downloads h' = hp_downloads h"
    and "a \<noteq> d \<Longrightarrow> hp_blooms h' a = hp_blooms h a \<and> hp_batches h' a = hp_batches h a"
    and "hp_batches h d \<in> {None, Some {}} \<Longrightarrow> hp_batches h' d = hp_batches h d"
    and "just_finished \<Longrightarrow> hp_batches h' d = Some {}"
  using assms by (auto simp: vote_for_def Let_def bind_eq_Some_conv split: option.splits)

text \<open>Filters only gain elements, and the sender of a recorded payload is the assignee of its batch.\<close>

lemma recorded_assignee:
  assumes "env_ok (ce_node V)" and "results_ok V asg res" and "recorded V res hash from b cm" and "map_of asg b = Some x"
  shows "ne_as_ref (ce_node V) from = ne_as_ref (ce_node V) x"
proof -
  obtain es f tr where "res b = Some es" "(f, cm, tr) \<in> set es" and f: "ce_eq V f from"
    using assms(3) by (auto simp: recorded_def)
  then have "ce_eq V f x" using assms(2,4) by (fastforce simp: results_ok_def)
  then show ?thesis using f node_identity.as_ref_cong [OF env_parts(2) [OF assms(1)]] by metis
qed

lemma vote_for_filters:
  assumes E: "env_ok (ce_node V)" and ok: "filters_ok V h d res asg" and res: "results_ok V asg res"
    and rec: "recorded V res (vt_hash t) (vt_from t) (vt_batch t) (vt_commitment t)"
    and v: "vote_for V t h = Some (just_finished, h')" and d: "vt_blooms t = d" "vt_batches t = d"
  shows "filters_ok V h' d res asg"
proof (cases "hp_batches h d")
  case None
  then show ?thesis using v ok d by (simp add: vote_for_def)
next
  case (Some remaining)
  note X = env_parts(1) [OF E]
  show ?thesis
  proof (cases "hp_blooms h d")
    case None
    then show ?thesis using ok v Some d by (auto simp: vote_for_def filters_ok_def)
  next
    case (Some pq)
    obtain p q where pq: "hp_blooms h d = Some (p, q)" using Some by (cases pq) auto
    then have bo: "bloom_ok p" "bloom_ok q" using ok by (auto simp: filters_ok_def)
    let ?pk = "ce_sha V (ne_as_ref (ce_node V) (vt_from t))" and ?ck = "cm_data_hash (vt_commitment t)"
    obtain p' where p': "bloom_add (ce_node V) ?pk p = Some p'" "bloom_le (ce_node V) p p'"
      "bloom_contains (ce_node V) p' ?pk = Some True" using bloom_add_ok [OF X bo(1)] by blast
    obtain q' where q': "(if vt_batch t \<in> remaining then bloom_add (ce_node V) ?ck q else Some q) = Some q'"
      "bloom_le (ce_node V) q q'" "vt_batch t \<in> remaining \<Longrightarrow> bloom_contains (ce_node V) q' ?ck = Some True"
      using bloom_add_ok [OF X bo(2), of ?ck] by (cases "vt_batch t \<in> remaining") auto
    have h': "h' = h\<lparr>hp_blooms := (hp_blooms h)(d := Some (p', q')),
        hp_batches := (hp_batches h)(d := Some (remaining - {vt_batch t}))\<rparr>"
      using v \<open>hp_batches h d = Some remaining\<close> pq p'(1) q'(1) d by (simp add: vote_for_def)
    have keep: "vouched V p' q' res b x" if "vouched V p q res b x" for b x
      using that bloom_contains_mono [OF X p'(2)] bloom_contains_mono [OF X q'(2)] unfolding vouched_def by blast
    have new: "vouched V p' q' res (vt_batch t) x" if "map_of asg (vt_batch t) = Some x" "vt_batch t \<in> remaining" for x
      using that rec recorded_assignee [OF E res rec that(1)] p'(3) q'(3) unfolding vouched_def by metis
    have "b \<in> remaining - {vt_batch t} \<or> vouched V p' q' res b x" if m: "map_of asg b = Some x" for b x
    proof (cases "b = vt_batch t \<and> b \<in> remaining")
      case False
      have "b \<in> remaining \<or> vouched V p q res b x"
        using ok m pq \<open>hp_batches h d = Some remaining\<close> by (auto simp: filters_ok_def batch_pending_def)
      then show ?thesis using False keep by auto
    qed (use new m in auto)
    then show ?thesis using bo bloom_le_ok [OF p'(2)] bloom_le_ok [OF q'(2)]
      by (simp add: h' filters_ok_def batch_pending_def)
  qed
qed


text \<open>The cells of a round after one piece of a task on them.\<close>

lemma alist_update_map: "map_of (AList.update k v xs) = (map_of xs)(k \<mapsto> v)"
  by (rule update_conv')

lemma store_handle_ledger:
  assumes L: "ledger V h ts a res asg" and ok: "task_ok V h t" and t: "t \<in> set ts" and st: "vt_stage t = Storing"
    and d: "vt_downloads t = a" and tf: "tasks_from ts ts'"
  shows "ledger V (store_handle t h) ts' a res asg"
proof -
  let ?h = "store_handle t h"
  have g: "cells_grow V h ?h" by (simp add: cells_grow_def store_handle_def Let_def)
  have rec: "recorded V res (vt_hash t) (vt_from t) (vt_batch t) (vt_commitment t)"
    using L t d by (auto simp: ledger_def)
  have hd: "handle_ok V ?h (hp_next h) (vt_commitment t)"
    using ok st unfolding handle_ok_def task_ok_def store_handle_def by (auto simp: Let_def)
  have dl: "map_of (hp_downloads ?h a) = (map_of (hp_downloads h a))(vt_hash t \<mapsto> Deserializing (hp_next h))"
    using d by (simp add: store_handle_def Let_def alist_update_map)
  have "download_ok V ?h res hash s" if "map_of (hp_downloads ?h a) hash = Some s" for hash s
  proof (cases "hash = vt_hash t")
    case True
    then have "s = Deserializing (hp_next h)" using that dl by simp
    moreover have "hp_next h < hp_next ?h" by (simp add: store_handle_def Let_def)
    ultimately show ?thesis using True rec hd by auto
  next
    case False
    then have "download_ok V h res hash s" using that dl L by (simp add: ledger_def)
    then show ?thesis by (rule download_ok_mono [OF _ g])
  qed
  moreover have "a < hp_next ?h" "results_ok V asg res" using L g by (auto simp: ledger_def cells_grow_def)
  moreover have "\<forall>t \<in> set ts'. vt_downloads t = a \<longrightarrow> recorded V res (vt_hash t) (vt_from t) (vt_batch t) (vt_commitment t)"
    using L tf unfolding ledger_def tasks_from_def by fastforce
  ultimately show ?thesis by (simp add: ledger_def)
qed

lemma task_step_keeps:
  assumes E: "env_ok (ce_node V)" and inv: "client_inv V sm" and t: "t \<in> set (sm_tasks sm)"
    and step: "task_step V t (sm_cells sm) = Some (left, h')"
    and ts: "tasks_from (sm_tasks sm) ts'" "set ts' \<subseteq> set (sm_tasks sm) \<union> set_option left"
  shows "client_inv V (sm\<lparr>sm_cells := h', sm_tasks := ts'\<rparr>)"
proof -
  let ?h = "sm_cells sm" and ?d = "vt_downloads t"
  have ok: "task_ok V ?h t" using inv t by (simp add: client_inv_def)
  then have d: "vt_blooms t = ?d" "vt_batches t = ?d" by (simp_all add: task_ok_def)
  have tasks: "\<forall>t \<in> set (sm_tasks sm). task_ok V ?h t" using inv by (simp add: client_inv_def)
  have rec: "recorded V res (vt_hash t) (vt_from t) (vt_batch t) (vt_commitment t)"
    if "ledger V ?h (sm_tasks sm) ?d res asg" for res asg using that t by (simp add: ledger_def)
  show ?thesis
  proof (cases "vt_stage t")
    case Verifying
    show ?thesis
    proof (cases "comptue_hash (ce_sha V) (vt_payload t) = cm_data_hash (vt_commitment t)")
      case False
      then have "h' = ?h" "left = None" using step Verifying by (auto simp: task_step_def)
      then show ?thesis using tasks ts
        by (intro client_inv_cells [OF inv, where d = ?d]) (auto intro: round_frame job_frame simp del: job_inv.simps)
    next
      case True
      then obtain j where v: "vote_for V t ?h = Some (j, h')"
        and l: "left = Some (t\<lparr>vt_stage := if j then Marking else Storing\<rparr>)"
        using step Verifying by (auto simp: task_step_def bind_eq_Some_conv)
      note fr = vote_for_frame [OF v d]
      have g: "cells_grow V ?h h'" using fr(1,2) by (rule cells_grow_same)
      have old: "task_ok V h' s" if "s \<in> set (sm_tasks sm)" for s
      proof -
        have "task_ok V ?h s" using that tasks by blast
        then show ?thesis using fr(1,4,5) by (cases "vt_downloads s = ?d") (auto simp: task_ok_def)
      qed
      have "task_ok V h' (t\<lparr>vt_stage := if j then Marking else Storing\<rparr>)"
        using ok True fr(1,6) d by (auto simp: task_ok_def)
      then have new: "\<forall>s \<in> set ts'. task_ok V h' s" using old ts(2) l by auto
      show ?thesis
      proof (rule client_inv_cells [OF inv g ts(1) _ new, where d = ?d])
        show "same_cells a ?h h'" if "a \<noteq> ?d" for a using fr(3,4) that by (simp add: same_cells_def)
        show "round_inv V h' ts' rs" if "round_inv V ?h (sm_tasks sm) rs" "rs_downloads rs = ?d" for rs
          using that vote_for_filters [OF E _ _ rec v d] ledger_frame [OF _ g _ ts(1)] fr(3)
          by (auto simp: round_inv_def ledger_def)
        show "job_inv V h' ts' (Applying a)" if "job_inv V ?h (sm_tasks sm) (Applying a)" for a
          using that fr(3) by (intro job_frame [OF that g ts(1)]) simp_all
      qed
    qed
  next
    case Marking
    then have h': "h' = ?h\<lparr>hp_batches := (hp_batches ?h)(?d := None)\<rparr>" and l: "left = Some (t\<lparr>vt_stage := Storing\<rparr>)"
      using step d by (auto simp: task_step_def)
    have e: "hp_batches ?h ?d \<in> {None, Some {}}" using ok Marking d by (simp add: task_ok_def)
    have g: "cells_grow V ?h h'" by (simp add: h' cells_grow_def)
    have new: "\<forall>s \<in> set ts'. task_ok V h' s" using tasks ok ts(2) l Marking by (auto simp: task_ok_def h')
    show ?thesis
    proof (rule client_inv_cells [OF inv g ts(1) _ new, where d = ?d])
      show "same_cells a ?h h'" if "a \<noteq> ?d" for a using that by (simp add: same_cells_def h')
      show "round_inv V h' ts' rs" if r: "round_inv V ?h (sm_tasks sm) rs" "rs_downloads rs = ?d" for rs
        using r e ledger_frame [OF _ g _ ts(1)]
        by (auto simp: round_inv_def filters_ok_def batch_pending_def h')
      show "job_inv V h' ts' (Applying a)" if "job_inv V ?h (sm_tasks sm) (Applying a)" for a
        by (rule job_frame [OF that g ts(1)]) (simp add: h')
    qed
  next
    case Storing
    then have h': "h' = store_handle t ?h" and l: "left = None" using step by (auto simp: task_step_def)
    have g: "cells_grow V ?h h'" by (simp add: h' cells_grow_def store_handle_def Let_def)
    have b: "hp_batches h' = hp_batches ?h" "hp_blooms h' = hp_blooms ?h" by (simp_all add: h' store_handle_def Let_def)
    have new: "\<forall>s \<in> set ts'. task_ok V h' s"
      using tasks ts(2) l task_ok_frame [OF _ g] b by (metis Un_empty_right set_empty_eq subsetD option.set(1))
    note led = store_handle_ledger [OF _ ok t Storing _ ts(1)]
    show ?thesis
    proof (rule client_inv_cells [OF inv g ts(1) _ new, where d = ?d])
      show "same_cells a ?h h'" if "a \<noteq> ?d" for a using that by (simp add: same_cells_def h' store_handle_def Let_def)
      show "round_inv V h' ts' rs" if r: "round_inv V ?h (sm_tasks sm) rs" "rs_downloads rs = ?d" for rs
      proof -
        have "map_of (hp_downloads h' ?d) hash \<noteq> None" if "map_of (hp_downloads ?h ?d) hash \<noteq> None" for hash
          using that by (simp add: h' store_handle_def Let_def alist_update_map)
        then show ?thesis using r led b by (auto simp: round_inv_def filters_ok_def batch_pending_def h')
      qed
      show "job_inv V h' ts' (Applying a)" if "job_inv V ?h (sm_tasks sm) (Applying a)" "ap_payloads a = ?d" for a
        using that led unfolding h' by auto
    qed
  qed
qed

lemma tasks_from_take_drop: "tasks_from ts (take i ts @ drop (Suc i) ts)"
  unfolding tasks_from_def
  by (metis Un_iff in_set_dropD in_set_takeD set_append tasks_from_def tasks_from_refl)

lemma tasks_from_update: "i < length ts \<Longrightarrow> tasks_from ts (ts[i := (ts ! i)\<lparr>vt_stage := s\<rparr>])"
  unfolding tasks_from_def
  by (metis insert_iff nth_mem set_update_subset_insert subsetD tasks_from_def tasks_from_refl)

lemma task_step_left: "task_step V t h = Some (Some t', h') \<Longrightarrow> \<exists>s. t' = t\<lparr>vt_stage := s\<rparr>"
  by (auto simp: task_step_def bind_eq_Some_conv split: task_stage.splits if_splits)

lemma run_task_keeps [keeps]:
  assumes "env_ok (ce_node V)" and "client_inv V sm" and "run_task V i sm = Some sm'"
  shows "client_inv V sm'"
proof -
  let ?ts = "sm_tasks sm"
  obtain left h' where i: "i < length ?ts" and st: "task_step V (?ts ! i) (sm_cells sm) = Some (left, h')"
    and sm': "sm' = sm\<lparr>sm_cells := h', sm_tasks := (case left of Some t \<Rightarrow> ?ts[i := t]
      | None \<Rightarrow> take i ?ts @ drop (Suc i) ?ts)\<rparr>"
    using assms(3) by (auto simp: run_task_def bind_eq_Some_conv nth_opt_iff)
  note k = task_step_keeps [OF assms(1,2) nth_mem [OF i] st]
  show ?thesis
  proof (cases left)
    case None
    then show ?thesis unfolding sm'
      using k [OF tasks_from_take_drop] by (auto dest: in_set_takeD in_set_dropD)
  next
    case (Some t)
    then obtain s where "t = (?ts ! i)\<lparr>vt_stage := s\<rparr>" using task_step_left st by blast
    then show ?thesis unfolding sm'
      using k [of "?ts[i := t]"] tasks_from_update [OF i] set_update_subset_insert [of ?ts i t] Some by auto
  qed
qed

lemma finish_deserialize_keeps [keeps]:
  assumes "client_inv V sm"
  shows "client_inv V (finish_deserialize V n crashed sm)"
proof (cases "hp_handles (sm_cells sm) n")
  case (Running p)
  let ?h = "(sm_cells sm)\<lparr>hp_handles := (hp_handles (sm_cells sm))(n := Completed (deserialize_payload V crashed p))\<rparr>"
  have g: "cells_grow V (sm_cells sm) ?h" using Running by (auto simp: cells_grow_def)
  have same: "same_cells a (sm_cells sm) ?h" for a by (simp add: same_cells_def)
  have "client_inv V (sm\<lparr>sm_cells := ?h, sm_tasks := sm_tasks sm\<rparr>)"
    using assms same task_ok_frame [OF _ g]
    by (intro client_inv_cells [OF assms g tasks_from_refl, where d = 0])
       (auto simp: client_inv_def intro: round_frame [OF _ g] job_frame [OF _ g] simp del: job_inv.simps)
  then show ?thesis using Running by (simp add: finish_deserialize_def)
qed (use assms in \<open>simp add: finish_deserialize_def\<close>)

section \<open>Broadcasts and payloads\<close>

text \<open>Replacing one of the two rounds.\<close>

lemma client_inv_round:
  assumes inv: "client_inv V sm" and "cells_grow V (sm_cells sm) h'"
    and "\<And>a. a \<noteq> rs_downloads (the_round cur sm) \<Longrightarrow> same_cells a (sm_cells sm) h'"
    and "hp_batches h' = hp_batches (sm_cells sm)"
    and "rs_downloads rs = rs_downloads (the_round cur sm)" and "round_inv V h' (sm_tasks sm) rs"
  shows "client_inv V ((put_round cur rs sm)\<lparr>sm_cells := h'\<rparr>)"
proof -
  have o: "round_inv V (sm_cells sm) (sm_tasks sm) (the_round (\<not> cur) sm)"
    "rs_downloads (the_round (\<not> cur) sm) \<noteq> rs_downloads (the_round cur sm)"
    using inv by (cases cur; simp add: client_inv_def the_round_def)+
  have other: "round_inv V h' (sm_tasks sm) (the_round (\<not> cur) sm)"
    by (rule round_frame [OF o(1) assms(2) assms(3) [OF o(2)] tasks_from_refl])
  have "job_inv V h' (sm_tasks sm) (step_job (sm_active_step sm))"
  proof (rule job_frame [OF _ assms(2) tasks_from_refl])
    show "hp_downloads h' (ap_payloads a) = hp_downloads (sm_cells sm) (ap_payloads a)"
      if "step_job (sm_active_step sm) = Applying a" for a
    proof -
      have "ap_payloads a \<noteq> rs_downloads (the_round cur sm)" using inv that by (simp add: client_inv_def the_round_def)
      from assms(3) [OF this] show ?thesis by (simp add: same_cells_def)
    qed
  qed (use inv in \<open>simp add: client_inv_def\<close>)
  moreover have "\<forall>t \<in> set (sm_tasks sm). task_ok V h' t"
    using inv task_ok_frame [OF _ assms(2)] assms(4) by (auto simp: client_inv_def)
  ultimately show ?thesis
    using inv assms(5,6) other by (cases cur) (auto simp: client_inv_def put_round_def the_round_def)
qed

lemma unwrap_or_simps [simp]: "unwrap_or None d = d" "unwrap_or (Some x) d = x"
  by (simp_all add: unwrap_or_def)

lemma recorded_add:
  assumes "res' = res(b \<mapsto> unwrap_or (res b) [] @ [(f, cm, tr)])"
  shows "recorded V res' hash x b' cm' \<longleftrightarrow>
    recorded V res hash x b' cm' \<or> b' = b \<and> cm' = cm \<and> ce_eq V f x \<and> ce_ticket_hash V (tr_ticket tr) = hash"
  unfolding recorded_def assms by (cases "res b") auto

lemma results_okD:
  assumes "results_ok V asg res"
  shows "res b = Some es \<Longrightarrow> (f, cm, tr) \<in> set es \<Longrightarrow>
      tr_batch_id tr = b \<and> (\<exists>a. map_of asg b = Some a \<and> ce_eq V f a)"
    and "res b = Some es \<Longrightarrow> res b' = Some es' \<Longrightarrow> e \<in> set es \<Longrightarrow> e' \<in> set es' \<Longrightarrow>
      entry_hash V e = entry_hash V e' \<Longrightarrow> b = b' \<and> e = e'"
proof -
  show "tr_batch_id tr = b \<and> (\<exists>a. map_of asg b = Some a \<and> ce_eq V f a)" if "res b = Some es" "(f, cm, tr) \<in> set es"
    using assms [unfolded results_ok_def, THEN conjunct1, rule_format, OF that(1)] that(2) by auto
  show "b = b' \<and> e = e'" if "res b = Some es" "res b' = Some es'" "e \<in> set es" "e' \<in> set es'"
      "entry_hash V e = entry_hash V e'"
    by (rule assms [unfolded results_ok_def, THEN conjunct2, rule_format, OF that])
qed

lemma results_ok_add:
  assumes E: "env_ok (ce_node V)" and ok: "results_ok V asg res" and a: "map_of asg b = Some x" "ce_eq V f x" "tr_batch_id tr = b"
    and new: "\<And>y b' cm'. \<not> recorded V res (ce_ticket_hash V (tr_ticket tr)) y b' cm'"
  shows "results_ok V asg (res(b \<mapsto> unwrap_or (res b) [] @ [(f, cm, tr)]))"
proof -
  let ?e = "(f, cm, tr)" and ?r = "res(b \<mapsto> unwrap_or (res b) [] @ [(f, cm, tr)])"
  have mem: "e \<in> set es \<longleftrightarrow> (\<exists>es0. res b' = Some es0 \<and> e \<in> set es0) \<or> b' = b \<and> e = ?e" if "?r b' = Some es" for e es b'
    using that by (cases "b' = b"; cases "res b") auto
  have fresh: "entry_hash V e \<noteq> entry_hash V ?e" if "res b' = Some es0" "e \<in> set es0" for e es0 b'
    using new [of "fst e" b' "fst (snd e)"] that node_identity.eq_refl [OF env_parts(2) [OF E]]
    unfolding recorded_def by (metis prod.collapse snd_conv)
  show ?thesis unfolding results_ok_def
  proof (rule conjI; intro allI impI)
    fix b' es assume es: "?r b' = Some es"
    have "tr_batch_id tr' = b' \<and> (\<exists>a. map_of asg b' = Some a \<and> ce_eq V f' a)" if m: "(f', cm', tr') \<in> set es" for f' cm' tr'
      using mem [OF es] m a results_okD(1) [OF ok, of b' _ f' cm' tr'] by blast
    then show "\<forall>(f, cm, tr) \<in> set es. tr_batch_id tr = b' \<and> (\<exists>a. map_of asg b' = Some a \<and> ce_eq V f a)" by blast
  next
    fix b1 b2 es1 es2 e1 e2
    assume r: "?r b1 = Some es1" "?r b2 = Some es2" and e: "e1 \<in> set es1" "e2 \<in> set es2"
      and h: "entry_hash V e1 = entry_hash V e2"
    from mem [OF r(1)] e(1) consider (old) es where "res b1 = Some es" "e1 \<in> set es" | (new) "b1 = b" "e1 = ?e" by blast
    then show "b1 = b2 \<and> e1 = e2"
    proof cases
      case old
      then obtain es' where "res b2 = Some es'" "e2 \<in> set es'" using mem [OF r(2)] e(2) fresh [OF old] h by auto
      then show ?thesis using results_okD(2) [OF ok] old h by blast
    next
      case new
      then show ?thesis using mem [OF r(2)] e(2) fresh [of b2 _ e2] h by auto
    qed
  qed
qed

lemma add_result_inv:
  assumes E: "env_ok (ce_node V)" and inv: "round_inv V h ts rs"
    and a: "map_of (rs_data_assignments rs) b = Some x" "ce_eq V f x" "tr_batch_id tr = b"
    and new: "map_of (hp_downloads h (rs_downloads rs)) (ce_ticket_hash V (tr_ticket tr)) = None"
    and h': "h' = h\<lparr>hp_downloads := (hp_downloads h)(rs_downloads rs :=
      AList.update (ce_ticket_hash V (tr_ticket tr)) (Downloading f b (tr_ticket tr)) (hp_downloads h (rs_downloads rs)))\<rparr>"
  shows "round_inv V h' ts (rs\<lparr>rs_results := (rs_results rs)(b \<mapsto> unwrap_or (rs_results rs b) [] @ [(f, cm, tr)])\<rparr>)"
proof -
  let ?res = "rs_results rs" and ?d = "rs_downloads rs" and ?hash = "ce_ticket_hash V (tr_ticket tr)"
  let ?res' = "?res(b \<mapsto> unwrap_or (?res b) [] @ [(f, cm, tr)])"
  note rec = recorded_add [of ?res' ?res b f cm tr V, OF refl]
  have cov: "map_of (hp_downloads h ?d) hash \<noteq> None" if "recorded V ?res hash y b' c" for hash y b' c
    using inv that unfolding round_inv_def by blast
  have fresh: "\<not> recorded V ?res ?hash y b' c" for y b' c using cov new by blast
  have L: "ledger V h ts ?d ?res (rs_data_assignments rs)" and F: "filters_ok V h ?d ?res (rs_data_assignments rs)"
    using inv by (simp_all add: round_inv_def)
  have res': "results_ok V (rs_data_assignments rs) ?res'"
    by (rule results_ok_add [OF E _ a fresh]) (use L in \<open>simp add: ledger_def\<close>)
  have dl: "map_of (hp_downloads h' ?d) = (map_of (hp_downloads h ?d))(?hash \<mapsto> Downloading f b (tr_ticket tr))"
    by (simp add: h' alist_update_map)
  have g: "cells_grow V h h'" by (simp add: h' cells_grow_def)
  have me: "recorded V ?res' ?hash f b cm"
    using rec node_identity.eq_refl [OF env_parts(2) [OF E]] by blast
  have dok: "download_ok V h' ?res' hash st" if m: "map_of (hp_downloads h' ?d) hash = Some st" for hash st
  proof (cases "hash = ?hash")
    case True
    then show ?thesis using m dl me by auto
  next
    case False
    then have "download_ok V h ?res hash st" using m dl L by (simp add: ledger_def)
    then show ?thesis by (rule download_ok_mono [OF _ g]) (use rec in blast)
  qed
  have "ledger V h' ts ?d ?res' (rs_data_assignments rs)"
    using L res' dok rec g by (auto simp: ledger_def cells_grow_def)
  moreover have "map_of (hp_downloads h' ?d) hash \<noteq> None" if "recorded V ?res' hash y b' c" for hash y b' c
    using that rec cov [of hash y b' c] dl by auto
  moreover have v: "vouched V p q ?res' b' y" if "vouched V p q ?res b' y" for p q b' y
    using that rec unfolding vouched_def by blast
  have "filters_ok V h' ?d ?res' (rs_data_assignments rs)"
    unfolding filters_ok_def
  proof (rule conjI; intro allI impI)
    show "bloom_ok p \<and> bloom_ok q" if "hp_blooms h' ?d = Some (p, q)" for p q
      using that F by (simp add: filters_ok_def h')
    show "\<exists>p q. hp_blooms h' ?d = Some (p, q) \<and> (batch_pending h' ?d b' \<or> vouched V p q ?res' b' y)"
      if m: "map_of (rs_data_assignments rs) b' = Some y" for b' y
    proof -
      obtain p q where "hp_blooms h ?d = Some (p, q)" "batch_pending h ?d b' \<or> vouched V p q ?res b' y"
        using F m unfolding filters_ok_def by blast
      then show ?thesis using v by (auto simp: h' batch_pending_def)
    qed
  qed
  ultimately show ?thesis using inv by (simp add: round_inv_def)
qed

lemma push_broadcast_keeps: "client_inv V sm \<Longrightarrow> client_inv V (push_broadcast cur x sm)"
  by (rule client_inv_books [where sm = sm]) (auto simp: push_broadcast_def put_round_def the_round_def same_books_def Let_def)

lemma emit_keeps: "client_inv V sm \<Longrightarrow> client_inv V (emit msg sm)"
  by (rule client_inv_books [where sm = sm]) auto

lemma round_of_inv: "client_inv V sm \<Longrightarrow> round_inv V (sm_cells sm) (sm_tasks sm) (the_round cur sm)"
  by (simp add: client_inv_def the_round_def)

lemma apply_training_result_keeps:
  assumes E: "env_ok (ce_node V)" and inv: "client_inv V sm"
  shows "holds (client_inv V) (apply_training_result V from bc tr cur sm)"
proof (cases "map_of (rs_data_assignments (the_round cur sm)) (tr_batch_id tr)")
  case None
  then show ?thesis using inv by (simp add: apply_training_result_def Let_def)
next
  case (Some x)
  let ?rs = "the_round cur sm" and ?h = "sm_cells sm" and ?hash = "ce_ticket_hash V (tr_ticket tr)"
  show ?thesis
  proof (cases "distro_result_blob_downloaded ?h ?hash ?rs \<or> \<not> ce_eq V from x")
    case True
    then show ?thesis using inv Some by (auto simp: apply_training_result_def Let_def)
  next
    case False
    let ?d = "rs_downloads ?rs"
    define h' where "h' = ?h\<lparr>hp_downloads := (hp_downloads ?h)(?d :=
      AList.update ?hash (Downloading from (tr_batch_id tr) (tr_ticket tr)) (hp_downloads ?h ?d))\<rparr>"
    define rs' where "rs' = ?rs\<lparr>rs_results := (rs_results ?rs)(tr_batch_id tr \<mapsto>
      unwrap_or (rs_results ?rs (tr_batch_id tr)) [] @ [(from, bc_commitment bc, tr)])\<rparr>"
    have "round_inv V h' (sm_tasks sm) rs'" unfolding rs'_def
      using False Some by (intro add_result_inv [OF E round_of_inv [OF inv] Some _ refl _ h'_def])
        (auto simp: distro_result_blob_downloaded_def)
    then have k: "client_inv V ((put_round cur rs' sm)\<lparr>sm_cells := h'\<rparr>)"
      by (intro client_inv_round [OF inv]) (auto simp: h'_def rs'_def same_cells_def cells_grow_def)
    note e = emit_keeps [OF k, of "RequestDownload (tr_ticket tr) from (bc_step bc)"]
    let ?sm = "(put_round cur rs' sm)\<lparr>sm_cells := h'\<rparr>" and ?x = "cm_data_hash (bc_commitment bc)"
    have "apply_training_result V from bc tr cur sm =
        (if ce_eq V from (sm_identity ?sm) then Done (push_broadcast cur ?x ?sm) Applied
         else if sm_open ?sm ChDownload
         then Done (push_broadcast cur ?x (emit (RequestDownload (tr_ticket tr) from (bc_step bc)) ?sm)) Applied
         else Fail ?sm StartDownloadBlob)"
      using False Some by (simp add: apply_training_result_def Let_def h'_def rs'_def)
    then show ?thesis using k push_broadcast_keeps [OF k] push_broadcast_keeps [OF e] by simp
  qed
qed

lemma apply_finished_keeps: "client_inv V sm \<Longrightarrow> holds (client_inv V) (apply_finished V from bc fin cur sm)"
  by (auto simp: apply_finished_def Let_def put_round_def the_round_def same_books_def
      intro!: push_broadcast_keeps client_inv_books [where sm = sm])

lemma apply_message_keeps [keeps]:
  assumes "env_ok (ce_node V)" and "client_inv V sm"
  shows "holds (client_inv V) (apply_message V from bc sm)"
proof -
  have "holds (client_inv V) (apply_to_round V from bc cur sm)" for cur
    unfolding apply_to_round_def
    by (rule holds_need) (use assms apply_training_result_keeps apply_finished_keeps in
      \<open>auto split: option.splits broadcast_type.splits\<close>)
  then show ?thesis using assms(2) by (simp add: apply_message_def)
qed

lemma spawn_verify_keeps:
  assumes inv: "client_inv V sm" and rs: "rs = the_round cur sm"
  shows "client_inv V (spawn_verify V hash payload rs sm)"
proof (cases "spawn_verify V hash payload rs sm = sm")
  case False
  then obtain f b t es e where m: "map_of (hp_downloads (sm_cells sm) (rs_downloads rs)) hash = Some (Downloading f b t)"
    and es: "rs_results rs b = Some es"
    and find: "find (\<lambda>e. ce_eq V (fst e) f \<and> entry_hash V e = hash) es = Some e"
    and sv: "spawn_verify V hash payload rs sm = sm\<lparr>sm_tasks := sm_tasks sm @
      [\<lparr>vt_hash = hash, vt_from = f, vt_batch = b, vt_commitment = fst (snd e), vt_payload = payload,
        vt_downloads = rs_downloads rs, vt_blooms = rs_blooms rs, vt_batches = rs_batches rs, vt_stage = Verifying\<rparr>]\<rparr>"
    (is "_ = sm\<lparr>sm_tasks := sm_tasks sm @ [?t]\<rparr>")
    by (auto simp: spawn_verify_def commitment_of_def split: option.splits payload_state.splits)
  have R: "round_inv V (sm_cells sm) (sm_tasks sm) rs" using round_of_inv [OF inv] rs by simp
  have rec: "recorded V (rs_results rs) hash f b (fst (snd e))"
    using find es unfolding recorded_def by (auto simp: find_Some_iff) (metis nth_mem prod.collapse)
  have tok: "task_ok V (sm_cells sm) ?t" using R by (auto simp: task_ok_def round_inv_def ledger_def)
  have other: "ledger V (sm_cells sm) (sm_tasks sm @ [?t]) a res asg"
    if "ledger V (sm_cells sm) (sm_tasks sm) a res asg" "a \<noteq> rs_downloads rs" for a res asg
    using that by (auto simp: ledger_def)
  have mine: "ledger V (sm_cells sm) (sm_tasks sm @ [?t]) (rs_downloads rs) (rs_results rs) (rs_data_assignments rs)"
    using R rec by (auto simp: round_inv_def ledger_def)
  have r: "round_inv V (sm_cells sm) (sm_tasks sm @ [?t]) (the_round k sm)" for k
    using round_of_inv [OF inv, of k] mine other inv rs
    by (cases "k = cur") (auto simp: round_inv_def client_inv_def the_round_def split: if_splits)
  have "job_inv V (sm_cells sm) (sm_tasks sm @ [?t]) (step_job (sm_active_step sm))"
    using inv other rs by (cases "step_job (sm_active_step sm)")
      (auto simp: client_inv_def the_round_def split: if_splits)
  then show ?thesis using inv r [of True] r [of False] tok unfolding sv by (auto simp: client_inv_def the_round_def)
qed (use inv in simp)

lemma apply_distro_result_keeps [keeps]:
  assumes "client_inv V sm"
  shows "client_inv V (apply_distro_result V hash p self sm)"
proof -
  let ?rs = "\<lambda>cur. case self of Some r \<Rightarrow> (the_round cur sm)\<lparr>rs_self_distro_results := rs_self_distro_results (the_round cur sm) @ [r]\<rparr>
    | None \<Rightarrow> the_round cur sm"
  have "client_inv V (put_round cur (?rs cur) sm)" for cur
    by (rule client_inv_books [OF assms]) (auto simp: put_round_def the_round_def same_books_def split: option.splits)
  then have "client_inv V (spawn_verify V hash p (?rs cur) (put_round cur (?rs cur) sm))" for cur
    by (rule spawn_verify_keeps [where cur = cur]) (simp add: the_round_def put_round_def)
  then show ?thesis using assms by (simp add: apply_distro_result_def Let_def)
qed

end
