(* ===== verification/Client_Phases.thy ===== *)
theory Client_Phases
  imports Client_Keeps
begin

text \<open>
  The second half of the invariant's proof: the applying task, entering a round, and following the coordinator
  from phase to phase.
\<close>

section \<open>The applying task\<close>

text \<open>The invariant of a machine whose active step has been taken out, with the apply job on the side.\<close>

definition inv_with :: "('id, 't, 'r) client_env \<Rightarrow> ('id, 't, 'r) apply_job \<Rightarrow> ('id, 't, 'r) step_state_machine \<Rightarrow> bool" where
  "inv_with V job sm \<longleftrightarrow>
     round_inv V (sm_cells sm) (sm_tasks sm) (sm_current sm) \<and> round_inv V (sm_cells sm) (sm_tasks sm) (sm_previous sm) \<and>
     rs_downloads (sm_current sm) \<noteq> rs_downloads (sm_previous sm) \<and>
     (\<forall>t \<in> set (sm_tasks sm). task_ok V (sm_cells sm) t) \<and> job_inv V (sm_cells sm) (sm_tasks sm) job \<and>
     job_apart (rs_downloads (sm_current sm)) job \<and> job_apart (rs_downloads (sm_previous sm)) job"

lemma client_inv_with: "client_inv V sm \<longleftrightarrow> inv_with V (step_job (sm_active_step sm)) sm"
  by (simp add: client_inv_def inv_with_def)

lemma inv_with_step [simp]: "inv_with V job (sm\<lparr>sm_active_step := s\<rparr>) = inv_with V job sm"
  by (simp add: inv_with_def)

lemma inv_with_skip: "inv_with V job sm \<Longrightarrow> inv_with V ApplySkipped sm"
  by (simp add: inv_with_def)

lemma inv_with_books:
  assumes "inv_with V job sm" and "same_books (sm_current sm) (sm_current sm')" and "same_books (sm_previous sm) (sm_previous sm')"
    and "sm_cells sm' = sm_cells sm" and "sm_tasks sm' = sm_tasks sm"
  shows "inv_with V job sm'"
  using assms round_inv_books [OF assms(2)] round_inv_books [OF assms(3)] by (simp add: inv_with_def same_books_def)

lemma from_consensus_cong:
  assumes "ap_commitments a' = ap_commitments a" and "ap_witnesses a' = ap_witnesses a" and "ap_quorum a' = ap_quorum a"
    and "still_warming_up a' = still_warming_up a"
  shows "from_consensus V a' = from_consensus V a"
  using assms by (intro ext) (simp add: from_consensus_def)

lemma deserialize_payload_Inr:
  "deserialize_payload V crashed p = Inr (rs, nonce) \<longleftrightarrow>
    \<not> crashed \<and> nonce = td_trainer_nonce p \<and> deserialize_payload V False p = Inr (rs, nonce)"
  by (auto simp: deserialize_payload_def split: option.splits)

lemma ledger_delete:
  assumes "ledger V h ts d res asg"
  shows "ledger V (h\<lparr>hp_downloads := (hp_downloads h)(d := AList.delete hash (hp_downloads h d))\<rparr>) ts d res asg"
proof -
  let ?h = "h\<lparr>hp_downloads := (hp_downloads h)(d := AList.delete hash (hp_downloads h d))\<rparr>"
  have g: "cells_grow V h ?h" by (simp add: cells_grow_def)
  have "download_ok V ?h res x st" if "map_of (hp_downloads ?h d) x = Some st" for x st
    using that assms download_ok_mono [OF _ g, of res x st res]
    by (auto simp: ledger_def delete_conv' split: if_splits)
  then show ?thesis using assms by (simp add: ledger_def)
qed

text \<open>A payload that is found complete was verified against the commitment it is applied for.\<close>

lemma payload_verified:
  assumes L: "ledger V h ts d res asg" and m: "map_of (hp_downloads h d) (ce_ticket_hash V (tr_ticket tr)) = Some (Deserializing n)"
    and e: "res b = Some es" "(f, cm, tr) \<in> set es" and c: "hp_handles h n = Completed (Inr (rs, nonce))"
  shows "\<exists>p. comptue_hash (ce_sha V) p = cm_data_hash cm \<and> nonce = td_trainer_nonce p \<and>
    deserialize_payload V False p = Inr (rs, nonce)"
proof -
  let ?hash = "ce_ticket_hash V (tr_ticket tr)"
  obtain x b' cm' where rec: "recorded V res ?hash x b' cm'" and hd: "handle_ok V h n cm'"
    using L m unfolding ledger_def by fastforce
  obtain es' f' tr' where "res b' = Some es'" "(f', cm', tr') \<in> set es'" "ce_ticket_hash V (tr_ticket tr') = ?hash"
    using rec by (auto simp: recorded_def)
  moreover have "results_ok V asg res" using L by (simp add: ledger_def)
  ultimately have "cm' = cm" using results_okD(2) [of V asg res b es b' es' "(f, cm, tr)" "(f', cm', tr')"] e by simp
  then obtain p crashed where "comptue_hash (ce_sha V) p = cm_data_hash cm" "deserialize_payload V crashed p = Inr (rs, nonce)"
    using hd c by (auto simp: handle_ok_def)
  then show ?thesis using deserialize_payload_Inr by blast
qed

lemma take_payload_Applying:
  assumes tp: "take_payload V cm b hash a h = (Applying a', h')"
  obtains n where "map_of (hp_downloads h (ap_payloads a)) hash = Some (Deserializing n)"
    and "h' = h\<lparr>hp_downloads := (hp_downloads h)(ap_payloads a := AList.delete hash (hp_downloads h (ap_payloads a)))\<rparr>"
    and "a' = a \<or> (\<exists>rs nonce. hp_handles h n = Completed (Inr (rs, nonce)) \<and> \<not> still_warming_up a nonce \<and>
      a' = a\<lparr>ap_distro_results := ap_distro_results a @ [rs]\<rparr>)"
proof (cases "map_of (hp_downloads h (ap_payloads a)) hash")
  case None
  then show ?thesis using tp by (simp add: take_payload_def Let_def)
next
  case (Some st)
  show ?thesis
  proof (cases st)
    case Downloading
    then show ?thesis using tp Some by (simp add: take_payload_def Let_def)
  next
    case (Deserializing n)
    note st = Some [unfolded Deserializing]
    show ?thesis
    proof (cases "hp_handles h n")
      case Running
      then show ?thesis using tp st by (simp add: take_payload_def Let_def)
    next
      case (Completed r)
      show ?thesis
      proof (cases r)
        case (Inl err)
        then show ?thesis using tp st Completed by (intro that [OF st]) (auto simp: take_payload_def Let_def)
      next
        case (Inr x)
        obtain rs nonce where x: "x = (rs, nonce)" by (cases x)
        show ?thesis using tp st Completed Inr x
          by (intro that [OF st]) (auto simp: take_payload_def Let_def)
      qed
    qed
  qed
qed

lemma take_payload_job:
  assumes L: "ledger V h ts (ap_payloads a) (ap_commitments a) asg" and old: "\<forall>rs \<in> set (ap_distro_results a). from_consensus V a rs"
    and e: "ap_commitments a b = Some es" and sel: "select_consensus_commitment_by_witnesses (ce_node V)
      (map (\<lambda>e. fst (snd e)) es) (ap_witnesses a) (ap_quorum a) = Some (Some k)" and k: "nth_opt es k = Some (f, cm, tr)"
    and tp: "take_payload V cm b (ce_ticket_hash V (tr_ticket tr)) a h = (job, h')"
  shows "job_inv V h' ts job" and "\<And>a'. job = Applying a' \<Longrightarrow> ap_payloads a' = ap_payloads a"
    and "h' = h \<or> h' = h\<lparr>hp_downloads := (hp_downloads h)(ap_payloads a :=
      AList.delete (ce_ticket_hash V (tr_ticket tr)) (hp_downloads h (ap_payloads a)))\<rparr>"
proof -
  let ?hash = "ce_ticket_hash V (tr_ticket tr)" and ?d = "ap_payloads a"
  let ?h = "h\<lparr>hp_downloads := (hp_downloads h)(?d := AList.delete ?hash (hp_downloads h ?d))\<rparr>"
  show "h' = h \<or> h' = ?h" and "\<And>a'. job = Applying a' \<Longrightarrow> ap_payloads a' = ap_payloads a"
    using tp by (auto simp: take_payload_def Let_def split: option.splits payload_state.splits deserialize_task.splits
        sum.splits prod.splits if_splits)
  note L' = ledger_delete [OF L, of ?hash]
  show "job_inv V h' ts job"
  proof (cases job)
    case (Applying a')
    then obtain n where n: "map_of (hp_downloads h ?d) ?hash = Some (Deserializing n)" and h': "h' = ?h"
      and cases: "a' = a \<or> (\<exists>rs nonce. hp_handles h n = Completed (Inr (rs, nonce)) \<and> \<not> still_warming_up a nonce \<and>
        a' = a\<lparr>ap_distro_results := ap_distro_results a @ [rs]\<rparr>)"
      using tp take_payload_Applying [of V cm b ?hash a h a' h'] by blast
    show ?thesis
    proof (cases "a' = a")
      case True
      then show ?thesis using Applying L' old unfolding h' by auto
    next
      case False
      then obtain rs nonce where c: "hp_handles h n = Completed (Inr (rs, nonce))" and w: "\<not> still_warming_up a nonce"
        and a': "a' = a\<lparr>ap_distro_results := ap_distro_results a @ [rs]\<rparr>" using cases by blast
      have m: "(f, cm, tr) \<in> set es" using k by (auto simp: nth_opt_iff)
      obtain p where p: "comptue_hash (ce_sha V) p = cm_data_hash cm" "nonce = td_trainer_nonce p"
        "deserialize_payload V False p = Inr (rs, nonce)" using payload_verified [OF L n e m c] by blast
      have "from_consensus V a rs" unfolding from_consensus_def
        by (intro exI [of _ b] exI [of _ es] exI [of _ k] exI [of _ f] exI [of _ cm] exI [of _ tr] exI [of _ p])
           (use e sel k p w in simp)
      moreover have "from_consensus V a' = from_consensus V a"
        by (rule from_consensus_cong) (auto simp: a' still_warming_up_def)
      ultimately show ?thesis using Applying L' old unfolding h' by (auto simp: a')
    qed
  qed simp_all
qed

lemma apply_one_job:
  assumes L: "ledger V h ts (ap_payloads a) (ap_commitments a) asg" and old: "\<forall>rs \<in> set (ap_distro_results a). from_consensus V a rs"
    and one: "apply_one V a h = (job, h')"
  shows "job_inv V h' ts job \<and> (\<forall>a'. job = Applying a' \<longrightarrow> ap_payloads a' = ap_payloads a) \<and>
    (h' = h \<or> (\<exists>hash. h' = h\<lparr>hp_downloads := (hp_downloads h)(ap_payloads a := AList.delete hash (hp_downloads h (ap_payloads a)))\<rparr>))"
proof (cases "ap_batch_ids a")
  case Nil
  then show ?thesis using one by (auto simp: apply_one_def)
next
  case (Cons b bs)
  let ?a = "a\<lparr>ap_batch_ids := bs\<rparr>"
  have fc: "from_consensus V ?a = from_consensus V a" by (rule from_consensus_cong) (auto simp: still_warming_up_def)
  have L': "ledger V h ts (ap_payloads ?a) (ap_commitments ?a) asg" and old': "\<forall>rs \<in> set (ap_distro_results ?a). from_consensus V ?a rs"
    using L old fc by simp_all
  show ?thesis
  proof (cases "\<exists>es k f cm tr. ap_commitments ?a b = Some es \<and> select_consensus_commitment_by_witnesses (ce_node V)
      (map (\<lambda>e. fst (snd e)) es) (ap_witnesses ?a) (ap_quorum ?a) = Some (Some k) \<and> nth_opt es k = Some (f, cm, tr)")
    case True
    then obtain es k f cm tr where c: "ap_commitments ?a b = Some es" "select_consensus_commitment_by_witnesses (ce_node V)
      (map (\<lambda>e. fst (snd e)) es) (ap_witnesses ?a) (ap_quorum ?a) = Some (Some k)" "nth_opt es k = Some (f, cm, tr)" by blast
    have "take_payload V cm b (ce_ticket_hash V (tr_ticket tr)) ?a h = (job, h')"
      using one Cons c by (simp add: apply_one_def Let_def)
    note tp = take_payload_job [OF L' old' c this]
    show ?thesis using tp by auto
  next
    case False
    then have "h' = h" "job = Applying ?a \<or> job = ApplyPanicked"
      using one Cons by (auto simp: apply_one_def Let_def split: option.splits)
    then show ?thesis using L' old' by auto
  qed
qed

lemma apply_one_with:
  assumes inv: "inv_with V (Applying a) sm" and one: "apply_one V a (sm_cells sm) = (job, h')"
  shows "inv_with V job (sm\<lparr>sm_cells := h'\<rparr>)"
proof -
  let ?h = "sm_cells sm" and ?d = "ap_payloads a"
  obtain asg where L: "ledger V ?h (sm_tasks sm) ?d (ap_commitments a) asg" and old: "\<forall>rs \<in> set (ap_distro_results a). from_consensus V a rs"
    using inv by (auto simp: inv_with_def)
  note j = apply_one_job [OF L old one]
  have g: "cells_grow V ?h h'" and same: "\<And>x. x \<noteq> ?d \<Longrightarrow> same_cells x ?h h'" and b: "hp_batches h' = hp_batches ?h"
    using j by (auto simp: cells_grow_def same_cells_def)
  have apart: "rs_downloads (sm_current sm) \<noteq> ?d" "rs_downloads (sm_previous sm) \<noteq> ?d"
    using inv by (auto simp: inv_with_def)
  have "round_inv V h' (sm_tasks sm) (sm_current sm)" "round_inv V h' (sm_tasks sm) (sm_previous sm)"
    using inv apart by (auto simp: inv_with_def intro!: round_frame [OF _ g] same)
  moreover have "\<forall>t \<in> set (sm_tasks sm). task_ok V h' t"
    using inv task_ok_frame [OF _ g] b by (auto simp: inv_with_def)
  moreover have "job_apart x job" if "?d \<noteq> x" for x using j that by (cases job) auto
  ultimately show ?thesis using inv j by (auto simp: inv_with_def)
qed

lemma apply_run_with:
  "inv_with V job sm \<Longrightarrow> apply_run V job (sm_cells sm) = (job', h') \<Longrightarrow> inv_with V job' (sm\<lparr>sm_cells := h'\<rparr>)"
proof (induction V job "sm_cells sm" arbitrary: sm rule: apply_run.induct)
  case (1 V job)
  show ?case
  proof (cases job)
    case (Applying a)
    obtain job1 h1 where one: "apply_one V a (sm_cells sm) = (job1, h1)" by (cases "apply_one V a (sm_cells sm)")
    have "inv_with V job1 (sm\<lparr>sm_cells := h1\<rparr>)" using apply_one_with 1(2) Applying one by blast
    moreover have "apply_run V job1 h1 = (job', h')" using 1(3) Applying one by (simp add: apply_run.simps [of V "Applying a"])
    ultimately show ?thesis using 1(1) [OF Applying, of job1 "sm\<lparr>sm_cells := h1\<rparr>"] one by simp
  qed (use 1 in \<open>auto simp: apply_run.simps\<close>)
qed

section \<open>Fresh cells\<close>

lemma alloc_cells_frame:
  assumes "alloc_cells bl ba h = (a, h')"
  shows "a = hp_next h" and "cells_grow V h h'" and "x \<noteq> a \<Longrightarrow> same_cells x h h'"
    and "hp_downloads h' a = []" and "hp_blooms h' a = bl" and "hp_batches h' a = ba" and "hp_next h' = Suc a"
  using assms by (auto simp: alloc_cells_def cells_grow_def same_cells_def)

lemma round_inv_below: "round_inv V h ts rs \<Longrightarrow> rs_downloads rs < hp_next h"
  by (simp add: round_inv_def ledger_def)

lemma job_inv_below: "job_inv V h ts (Applying a) \<Longrightarrow> ap_payloads a < hp_next h"
  by (auto simp: ledger_def)

lemma alloc_keeps:
  assumes al: "alloc_cells bl ba h = (a, h')" and tasks: "\<forall>t \<in> set ts. task_ok V h t"
  shows "\<forall>t \<in> set ts. task_ok V h' t" and "round_inv V h ts rs \<Longrightarrow> round_inv V h' ts rs"
    and "job_inv V h ts job \<Longrightarrow> job_inv V h' ts job" and "ledger V h' ts a Map.empty asg"
proof -
  note fr = alloc_cells_frame [OF al] and g = alloc_cells_frame(2) [OF al, of V]
  show "\<forall>t \<in> set ts. task_ok V h' t"
  proof
    fix t assume "t \<in> set ts"
    then have t: "task_ok V h t" using tasks by blast
    then have "vt_batches t \<noteq> a" using fr(1) by (auto simp: task_ok_def)
    then show "task_ok V h' t" using task_ok_frame [OF t g] fr(3) by (auto simp: same_cells_def)
  qed
  show "round_inv V h' ts rs" if "round_inv V h ts rs"
    using round_inv_below [OF that] fr(1,3) by (intro round_frame [OF that g]) auto
  show "job_inv V h' ts job" if j: "job_inv V h ts job"
  proof (rule job_frame [OF j g tasks_from_refl])
    fix x assume "job = Applying x"
    then have "ap_payloads x \<noteq> a" using job_inv_below [of V h ts x] j fr(1) by (metis less_irrefl)
    then show "hp_downloads h' (ap_payloads x) = hp_downloads h (ap_payloads x)" using fr(3) by (simp add: same_cells_def)
  qed
  have "vt_downloads t \<noteq> a" if "t \<in> set ts" for t using tasks that fr(1) by (auto simp: task_ok_def)
  then show "ledger V h' ts a Map.empty asg" using fr by (auto simp: ledger_def results_ok_def)
qed

lemma round_state_new_fields:
  assumes "round_state_new h = (rs, h')"
  shows "alloc_cells None None h = (rs_downloads rs, h')" and "rs_blooms rs = rs_downloads rs" and "rs_batches rs = rs_downloads rs"
    and "rs_results rs = Map.empty" and "rs_data_assignments rs = []" and "rs_committee_info rs = None"
    and "rs_broadcasts rs = []" and "rs_sent_witness rs = False" and "rs_sent_finished rs = False" and "rs_height rs = 0"
  using assms by (auto simp: round_state_new_def split: prod.splits)

lemma fresh_round_inv:
  assumes "round_state_new h = (rs, h')" and "\<forall>t \<in> set ts. task_ok V h t"
  shows "round_inv V h' ts rs"
  using alloc_keeps(4) [OF round_state_new_fields(1) [OF assms(1)] assms(2)]
    alloc_cells_frame(5) [OF round_state_new_fields(1) [OF assms(1)]] round_state_new_fields [OF assms(1)]
  by (auto simp: round_inv_def recorded_def filters_ok_def)

lemma warmup_start_with:
  assumes "\<forall>t \<in> set (sm_tasks sm). task_ok V (sm_cells sm) t"
  shows "inv_with V ApplySkipped (warmup_start sm)"
proof -
  obtain prev h where p: "round_state_new (sm_cells sm) = (prev, h)" by (cases "round_state_new (sm_cells sm)")
  obtain cur h' where c: "round_state_new h = (cur, h')" by (cases "round_state_new h")
  note pf = round_state_new_fields [OF p] and cf = round_state_new_fields [OF c]
  note t = alloc_keeps(1) [OF pf(1) assms]
  have "rs_downloads cur \<noteq> rs_downloads prev"
    using alloc_cells_frame(1,7) [OF pf(1)] alloc_cells_frame(1) [OF cf(1)] by simp
  then show ?thesis
    using fresh_round_inv [OF p assms] fresh_round_inv [OF c t] alloc_keeps(1,2) [OF cf(1) t] p c
    by (simp add: inv_with_def warmup_start_def)
qed

section \<open>Entering a round\<close>

text \<open>What is left of the invariant while the previous round is being taken apart.\<close>

definition core_inv :: "('id, 't, 'r) client_env \<Rightarrow> ('id, 't, 'r) apply_job \<Rightarrow> ('id, 't, 'r) step_state_machine \<Rightarrow> bool" where
  "core_inv V job sm \<longleftrightarrow>
     round_inv V (sm_cells sm) (sm_tasks sm) (sm_current sm) \<and> (\<forall>t \<in> set (sm_tasks sm). task_ok V (sm_cells sm) t) \<and>
     job_inv V (sm_cells sm) (sm_tasks sm) job \<and> job_apart (rs_downloads (sm_current sm)) job"

lemma apply_results_Done:
  assumes r: "apply_results c sm = Done sm' job" and "rs_height (sm_current sm) \<noteq> 0"
    and al: "alloc_cells None None (sm_cells sm) = (a, h)"
  obtains j pr where "job = Applying j" and "Coordinator_Types.previous_round c = Some pr"
    and "ap_commitments j = rs_results (sm_previous sm)" and "ap_payloads j = rs_downloads (sm_previous sm)"
    and "ap_distro_results j = []" and "ap_witnesses j = r_witnesses pr"
    and "witness_quorum (of_nat (length (r_witnesses pr))) c = Some (ap_quorum j)"
    and "sm' = sm\<lparr>sm_cells := h, sm_previous := (sm_previous sm)\<lparr>rs_downloads := a, rs_results := Map.empty\<rparr>\<rparr>"
proof (cases "Coordinator_Types.previous_round c")
  case (Some pr)
  show ?thesis
  proof (cases "rs_committee_info (sm_previous sm)")
    case None
    then show ?thesis using assms Some
      by (cases "previous_previous_round c") (simp_all add: apply_results_def need_Done Let_def)
  next
    case (Some info)
    obtain x y sel where info: "info = (x, y, sel)" by (cases info)
    show ?thesis
      using assms \<open>Coordinator_Types.previous_round c = Some pr\<close> Some info
      by (cases "previous_previous_round c") (auto simp: apply_results_def need_Done Let_def intro: that)
  qed
qed (use assms in \<open>simp add: apply_results_def\<close>)

lemma apply_results_core:
  assumes inv: "inv_with V ApplySkipped sm" and r: "apply_results c sm = Done sm' job"
  shows "core_inv V job sm' \<and> sm_current sm' = sm_current sm \<and> sm_identity sm' = sm_identity sm"
proof (cases "rs_height (sm_current sm) = 0")
  case True
  then show ?thesis using inv r by (auto simp: apply_results_def core_inv_def inv_with_def)
next
  case False
  obtain a h where al: "alloc_cells None None (sm_cells sm) = (a, h)" by (cases "alloc_cells None None (sm_cells sm)")
  let ?prev = "sm_previous sm"
  obtain j where job: "job = Applying j" "ap_commitments j = rs_results ?prev" "ap_payloads j = rs_downloads ?prev"
      "ap_distro_results j = []"
    and sm': "sm' = sm\<lparr>sm_cells := h, sm_previous := ?prev\<lparr>rs_downloads := a, rs_results := Map.empty\<rparr>\<rparr>"
    using apply_results_Done [OF r False al] by metis
  have tasks: "\<forall>t \<in> set (sm_tasks sm). task_ok V (sm_cells sm) t" using inv by (simp add: inv_with_def)
  have "job_inv V (sm_cells sm) (sm_tasks sm) job" using inv job by (auto simp: inv_with_def round_inv_def)
  then show ?thesis
    using alloc_keeps(1-3) [OF al tasks] inv job unfolding sm' by (auto simp: core_inv_def inv_with_def simp del: job_inv.simps)
qed

lemma health_checks_core:
  assumes "core_inv V job sm" and "start_sending_health_checks V c sm = Done sm' r"
  shows "core_inv V job sm' \<and> sm_current sm' = sm_current sm \<and> sm_identity sm' = sm_identity sm"
  using assms by (auto simp: start_sending_health_checks_def core_inv_def split: if_splits option.splits)

lemma bloom_random_ok: "bloom_random U K m keys = Some b \<Longrightarrow> 0 < U \<Longrightarrow> U < 2 ^ 58 \<Longrightarrow> bloom_ok b"
  by (auto simp: bloom_random_def bloom_new_def bloom_ok_def split: if_splits)

lemma new_blooms_ok: "new_blooms ou = Some (p, q) \<Longrightarrow> bloom_ok p \<and> bloom_ok q"
  by (auto simp: new_blooms_def bind_eq_Some_conv dest!: bloom_random_ok)

text \<open>The committees a member selects are those the coordinator verifies witnesses against.\<close>

lemma round_selection:
  assumes "state_ok V c" and "co_run_state c \<in> {RoundTrain, RoundWitness}" and "Coordinator_Types.current_round c = Some r"
  shows "committee_selection_new (ce_node V) (ucast (r_tie_breaker_tasks r)) (ucast (witness_nodes (co_config c)))
      (verification_percent (co_config c)) (of_nat (length (co_clients c))) (r_random_seed r) =
    from_coordinator (ce_node V) c 0"
proof -
  have "round_ok (ce_node V) c r" using training_round [of "ce_node V" c] assms by (auto simp: state_ok_def)
  then have n: "length (co_clients c) = unat (r_clients_len r)" by (simp add: round_ok_def)
  have "unat (of_nat (unat (r_clients_len r)) :: u64) = unat (r_clients_len r)"
    using unat_less_pow [of "r_clients_len r"] by (intro unat_of_nat_small) simp
  then have "(of_nat (length (co_clients c)) :: u64) = ucast (r_clients_len r)"
    by (simp add: n word_unat_eq_iff unat_ucast_up)
  then show ?thesis using assms(3) by (simp add: from_coordinator_def)
qed

lemma round_num_trainers:
  assumes c: "state_ok V c" "co_run_state c \<in> {RoundTrain, RoundWitness}"
    and r: "Coordinator_Types.current_round c = Some r" and s: "from_coordinator (ce_node V) c 0 = Some (Inr s)"
  shows "get_num_trainer_nodes s = Some (of_nat (length (co_clients c)))"
proof -
  have p: "co_inv (ce_node V) c" "verification_percent (co_config c) = 0" using c(1) by (auto simp: state_ok_def)
  have "round_ok (ce_node V) c r" using training_round [OF p(1) c(2)] r by auto
  then have cs: "committee_selection_new (ce_node V) 0 (ucast (witness_nodes (co_config c))) 0
      (of_nat (length (co_clients c))) (r_random_seed r) = Some (Inr s)"
    using round_selection [OF c r] s p(2) by (simp add: round_ok_def)
  have "cs_tie_breaker_nodes s = 0 \<and> cs_verifier_nodes s = 0 \<and> cs_total_nodes s = of_nat (length (co_clients c))"
    using committee_selection_new_ok(2,4,6) [OF cs] by (simp add: word_unat_eq_iff)
  then show ?thesis by (simp add: get_num_trainer_nodes_def checked_sub_def)
qed

lemma round_data_eq:
  assumes E: "env_ok (ce_node V)" and c: "state_ok V c" "co_run_state c \<in> {RoundTrain, RoundWitness}"
    and r: "Coordinator_Types.current_round c = Some r" and s: "from_coordinator (ce_node V) c 0 = Some (Inr s)"
  obtains asg where "round_data V c r s =
    Some (if last_step_set (co_epoch_state c) then ([], None) else (asg, Some (fst ` set asg)))"
proof -
  have p: "co_inv (ce_node V) c" "verification_percent (co_config c) = 0"
    "unat (r_data_index r) * unat (get_sequence_length c) < 2 ^ 64" "unat (r_data_index r) + 2 ^ 16 \<le> 2 ^ 64"
    using c(1) r by (auto simp: state_ok_def)
  from assignment_spec [OF env_parts(1) [OF E] p(1) c(2) p(2) s r p(3,4)] obtain m where
    "assign_data_for_state (ce_node V) c s = Some m"
    "get_batch_ids_for_round r c (of_nat (length (co_clients c))) = Some (map fst m)" by blast
  then have "round_data V c r s = Some (if last_step_set (co_epoch_state c) then ([], None) else (m, Some (fst ` set m)))"
    using round_num_trainers [OF c r s] by (simp add: round_data_def)
  then show ?thesis by (rule that)
qed

lemma round_data_pending:
  assumes E: "env_ok (ce_node V)" and c: "state_ok V c" "co_run_state c = RoundTrain"
    and r: "Coordinator_Types.current_round c = Some r" and s: "from_coordinator (ce_node V) c 0 = Some (Inr s)"
    and d: "round_data V c r s = Some (asg, ids)" and m: "map_of asg b = Some x"
  shows "\<exists>remaining. ids = Some remaining \<and> b \<in> remaining"
proof -
  have "co_run_state c \<in> {RoundTrain, RoundWitness}" using c(2) by simp
  from round_data_eq [OF E c(1) this r s] obtain asg' where "round_data V c r s =
    Some (if last_step_set (co_epoch_state c) then ([], None) else (asg', Some (fst ` set asg')))" .
  then show ?thesis using d m by (auto dest!: map_of_SomeD intro: rev_image_eqI split: if_splits)
qed

text \<open>The fields of a round that has been entered.\<close>

definition entered ::
    "('id, 't, 'r) client_env \<Rightarrow> u64 \<Rightarrow> 'id coordinator \<Rightarrow> round \<Rightarrow> committee_selection \<Rightarrow> ('id, 't, 'r) round_state \<Rightarrow> bool" where
  "entered V i c r s rs \<longleftrightarrow>
     (\<exists>cp wp. rs_committee_info rs = Some (cp, wp, s) \<and> get_committee (ce_node V) s i = Some cp \<and>
        get_witness (ce_node V) s i = Some wp) \<and>
     rs_height rs = r_height r \<and> rs_step rs = co_step c \<and> \<not> rs_sent_witness rs \<and> \<not> rs_sent_finished rs"

lemma enter_round_Done:
  assumes en: "enter_round V i c ou r sm = Done sm' ()"
    and sel: "committee_selection_new (ce_node V) (ucast (r_tie_breaker_tasks r)) (ucast (witness_nodes (co_config c)))
      (verification_percent (co_config c)) (of_nat (length (co_clients c))) (r_random_seed r) = Some (Inr s)"
    and f: "round_state_new (sm_cells sm) = (blank, h)"
  obtains asg ids p q a h' rs where "round_data V c r s = Some (asg, ids)" and "new_blooms ou = Some (p, q)"
    and "alloc_cells (Some (p, q)) ids h = (a, h')" and "entered V i c r s rs"
    and "sm' = sm\<lparr>sm_cells := h', sm_previous := sm_current sm, sm_current := rs\<rparr>"
    and "rs_downloads rs = a" "rs_blooms rs = a" "rs_batches rs = a" "rs_results rs = Map.empty" "rs_data_assignments rs = asg"
proof -
  from en sel f obtain asg ids cp wp bl where d: "round_data V c r s = Some (asg, ids)"
    and w: "get_committee (ce_node V) s i = Some cp" "get_witness (ce_node V) s i = Some wp" "new_blooms ou = Some bl"
    by (auto simp: enter_round_def need_Done split: sum.splits)
  obtain p q where bl: "bl = (p, q)" by (cases bl)
  obtain a h' where al: "alloc_cells (Some (p, q)) ids h = (a, h')" by (cases "alloc_cells (Some (p, q)) ids h")
  show ?thesis using en sel f d w bl al
    by (intro that [OF d _ al, where rs = "sm_current sm'"]) (auto simp: enter_round_def entered_def)
qed

lemma enter_round_with:
  assumes E: "env_ok (ce_node V)" and c: "state_ok V c" "co_run_state c = RoundTrain"
    and r: "Coordinator_Types.current_round c = Some r" and inv: "core_inv V job sm"
    and en: "enter_round V i c ou r sm = Done sm' ()"
  shows "inv_with V job sm'"
    and "\<exists>s. from_coordinator (ce_node V) c 0 = Some (Inr s) \<and> entered V i c r s (sm_current sm')"
    and "sm_previous sm' = sm_current sm"
proof -
  have t: "co_run_state c \<in> {RoundTrain, RoundWitness}" using c(2) by simp
  note sel = round_selection [OF c(1) t r]
  obtain s where s: "from_coordinator (ce_node V) c 0 = Some (Inr s)"
    using training_selection [of "ce_node V" c] c t by (auto simp: state_ok_def)
  obtain blank h where f: "round_state_new (sm_cells sm) = (blank, h)" by (cases "round_state_new (sm_cells sm)")
  obtain asg ids p q a h' rs where d: "round_data V c r s = Some (asg, ids)" and b: "new_blooms ou = Some (p, q)"
    and al: "alloc_cells (Some (p, q)) ids h = (a, h')" and rs: "entered V i c r s rs"
    and sm': "sm' = sm\<lparr>sm_cells := h', sm_previous := sm_current sm, sm_current := rs\<rparr>"
    and ad: "rs_downloads rs = a" "rs_blooms rs = a" "rs_batches rs = a" "rs_results rs = Map.empty" "rs_data_assignments rs = asg"
    using enter_round_Done [OF en _ f, of s] sel s by metis
  have tasks: "\<forall>t \<in> set (sm_tasks sm). task_ok V (sm_cells sm) t" using inv by (simp add: core_inv_def)
  note f1 = round_state_new_fields(1) [OF f] and k1 = alloc_keeps [OF round_state_new_fields(1) [OF f] tasks]
  note k2 = alloc_keeps [OF al k1(1)] and fr = alloc_cells_frame [OF al]
  have old: "round_inv V h' (sm_tasks sm) (sm_current sm)" "job_inv V h' (sm_tasks sm) job"
    using inv k1(2,3) k2(2,3) by (auto simp: core_inv_def simp del: job_inv.simps)
  have "batch_pending h' a x" if "map_of asg x = Some y" for x y
    using round_data_pending [OF E c r s d that] fr(6) by (auto simp: batch_pending_def)
  then have "filters_ok V h' a Map.empty asg"
    using new_blooms_ok [OF b] fr(5) by (auto simp: filters_ok_def)
  then have new: "round_inv V h' (sm_tasks sm) rs"
    using k2(4) ad by (simp add: round_inv_def recorded_def)
  have lt: "rs_downloads (sm_current sm) < hp_next h" "\<And>j. job = Applying j \<Longrightarrow> ap_payloads j < hp_next h"
    using inv k1(2,3) round_inv_below [of V h "sm_tasks sm" "sm_current sm"] job_inv_below [of V h "sm_tasks sm"]
    by (auto simp: core_inv_def simp del: job_inv.simps)
  have "job_apart a job" using lt(2) fr(1) by (cases job) auto
  then show "inv_with V job sm'" unfolding sm'
    using old new k2(1) inv lt(1) fr(1) ad by (auto simp: inv_with_def core_inv_def simp del: job_inv.simps)
  show "\<exists>s. from_coordinator (ce_node V) c 0 = Some (Inr s) \<and> entered V i c r s (sm_current sm')"
    using s rs unfolding sm' by auto
  show "sm_previous sm' = sm_current sm" by (simp add: sm')
qed

lemma map_err_Done [simp]: "map_err f r = Done s a \<longleftrightarrow> r = Done s a"
  by (cases r) auto

lemma training_start_Done:
  assumes "training_start V i c ou sm = Done sm' ts"
  obtains sm1 sm2 hc r where "apply_results c sm = Done sm1 (ts_apply ts)" and "start_sending_health_checks V c sm1 = Done sm2 hc"
    and "Coordinator_Types.current_round c = Some r" and "enter_round V i c ou r sm2 = Done sm' ()"
    and "ts = \<lparr>ts_sending_health_checks = hc, ts_apply = ts_apply ts,
      ts_have_training = \<not> last_step_set (co_epoch_state c), ts_finished = False\<rparr>"
  using assms by (auto simp: training_start_def and_then_Done need_Done split: if_splits option.splits)

lemma training_start_with:
  assumes E: "env_ok (ce_node V)" and c: "state_ok V c" "co_run_state c = RoundTrain" and inv: "inv_with V ApplySkipped sm"
    and st: "training_start V i c ou sm = Done sm' ts"
  shows "inv_with V (ts_apply ts) sm'"
    and "\<exists>r s. Coordinator_Types.current_round c = Some r \<and> from_coordinator (ce_node V) c 0 = Some (Inr s) \<and>
      entered V i c r s (sm_current sm') \<and> sm_previous sm' = sm_current sm"
proof -
  obtain sm1 sm2 hc r where a: "apply_results c sm = Done sm1 (ts_apply ts)" and h: "start_sending_health_checks V c sm1 = Done sm2 hc"
    and r: "Coordinator_Types.current_round c = Some r" and en: "enter_round V i c ou r sm2 = Done sm' ()"
    by (rule training_start_Done [OF st])
  note a' = apply_results_core [OF inv a]
  note h' = health_checks_core [OF conjunct1 [OF a'] h]
  note en' = enter_round_with [OF E c r conjunct1 [OF h'] en]
  show "inv_with V (ts_apply ts) sm'" by (rule en'(1))
  show "\<exists>r s. Coordinator_Types.current_round c = Some r \<and> from_coordinator (ce_node V) c 0 = Some (Inr s) \<and>
      entered V i c r s (sm_current sm') \<and> sm_previous sm' = sm_current sm"
    using en'(2,3) a' h' r by auto
qed

section \<open>Following the coordinator\<close>

lemma training_finish_with:
  assumes "inv_with V (ts_apply ts) sm" and "training_finish V ou ts sm = Done sm' ()"
  shows "inv_with V ApplySkipped sm'" and "\<exists>h. sm' = sm\<lparr>sm_cells := h\<rparr>"
proof -
  obtain job h where run: "apply_run V (ts_apply ts) (sm_cells sm) = (job, h)"
    by (cases "apply_run V (ts_apply ts) (sm_cells sm)")
  have sm': "sm' = sm\<lparr>sm_cells := h\<rparr>"
    using assms(2) run by (auto simp: training_finish_def Let_def split: option.splits sum.splits apply_job.splits)
  show "inv_with V ApplySkipped sm'" unfolding sm' by (rule inv_with_skip [OF apply_run_with [OF assms(1) run]])
  show "\<exists>h. sm' = sm\<lparr>sm_cells := h\<rparr>" using sm' by blast
qed

lemma get_witness_to_send_cases:
  assumes "get_witness_to_send V h prev cur = Some (w, prev')"
  obtains (nothing) "w = None" "prev' = prev"
  | (witness) x pf sel m where "\<not> rs_sent_witness prev" "rs_committee_info cur = Some (x, pf, sel)" "\<not> sb_is_false (wp_witness pf)"
      "broadcasts_root (ce_sha V) (rs_broadcasts prev) = Some m" "prev' = prev\<lparr>rs_sent_witness := True\<rparr>"
      "w = Some \<lparr>w_proof = pf,
         w_participant_bloom = fst (unwrap_or (hp_blooms h (rs_blooms prev)) (DEFAULT_WITNESS_BLOOM, DEFAULT_WITNESS_BLOOM)),
         w_broadcast_bloom = snd (unwrap_or (hp_blooms h (rs_blooms prev)) (DEFAULT_WITNESS_BLOOM, DEFAULT_WITNESS_BLOOM)),
         w_broadcast_merkle = m\<rparr>"
proof -
  obtain p q where b: "unwrap_or (hp_blooms h (rs_blooms prev)) (DEFAULT_WITNESS_BLOOM, DEFAULT_WITNESS_BLOOM) = (p, q)"
    by (metis surj_pair)
  show ?thesis
  proof (cases "rs_sent_witness prev \<or> rs_committee_info cur = None")
    case True
    then have "get_witness_to_send V h prev cur = Some (None, prev)" by (auto simp: get_witness_to_send_def)
    then have "w = None" "prev' = prev" using assms by simp_all
    then show ?thesis by (rule nothing)
  next
    case False
    then obtain x pf sel where i: "rs_committee_info cur = Some (x, pf, sel)" by auto
    show ?thesis
    proof (cases "sb_is_false (wp_witness pf)")
      case True
      then have "get_witness_to_send V h prev cur = Some (None, prev)" using i by (simp add: get_witness_to_send_def)
      then have "w = None" "prev' = prev" using assms by simp_all
      then show ?thesis by (rule nothing)
    next
      case f: False
      obtain m where "broadcasts_root (ce_sha V) (rs_broadcasts prev) = Some m"
        using assms False i f by (auto simp: get_witness_to_send_def bind_eq_Some_conv)
      then show ?thesis using assms False i f b by (intro witness [OF _ i f]) (auto simp: get_witness_to_send_def)
    qed
  qed
qed

lemma get_witness_to_send_books:
  "get_witness_to_send V h prev cur = Some (w, prev') \<Longrightarrow> same_books prev prev'"
  by (erule get_witness_to_send_cases) (auto simp: same_books_def)

lemma witness_start_with:
  assumes "inv_with V job sm" and "witness_start V ou sm = Done sm' ws"
  shows "inv_with V job sm'"
  using assms(2) by (auto simp: witness_start_def need_Done Let_def split: if_splits option.splits
    intro!: inv_with_books [OF assms(1)] dest!: get_witness_to_send_books)

lemma quiet_steps:
  "stop_evals ou sm = Done sm' u \<Longrightarrow> sm' = sm" "witness_finish ws sm = Done sm' u \<Longrightarrow> sm' = sm"
  "cooldown_finish ou sm = Done sm' u \<Longrightarrow> sm' = sm" "cooldown_start c ou sm = Done sm' u \<Longrightarrow> sm' = sm"
  by (auto simp: stop_evals_def witness_finish_def cooldown_finish_def cooldown_start_def need_Done
      split: if_splits option.splits sum.splits)

lemma inv_with_tasks: "inv_with V job sm \<Longrightarrow> \<forall>t \<in> set (sm_tasks sm). task_ok V (sm_cells sm) t"
  by (simp add: inv_with_def)

lemma start_training_with:
  assumes E: "env_ok (ce_node V)" and c: "state_ok V c" "co_run_state c = RoundTrain" and inv: "inv_with V job sm"
    and st: "start_training V i c ou sm = Done sm' step"
  shows "inv_with V (step_job step) sm'"
  using st training_start_with(1) [OF E c inv_with_skip [OF inv]] by (auto simp: start_training_def and_then_Done)

lemma next_step_cases:
  assumes "next_step V i c ou step sm = Done sm' step'"
  obtains (first) "step = WarmupActive" "co_run_state c = RoundTrain"
      "start_training V i c ou (sm\<lparr>sm_sent_warmup_finished := False, sm_sent_warmup_witness := False\<rparr>) = Done sm' step'"
  | (witness) ts sm1 ws where "step = TrainingActive ts" "co_run_state c = RoundWitness"
      "training_finish V ou ts sm = Done sm1 ()" "witness_start V ou sm1 = Done sm' ws" "step' = WitnessActive ws"
  | (again) ws where "step = WitnessActive ws" "co_run_state c = RoundTrain" "start_training V i c ou sm = Done sm' step'"
  | (cooldown) ws where "step = WitnessActive ws" "co_run_state c = Cooldown" "sm' = sm" "step' = CooldownActive"
  | (rest) "step = CooldownActive" "co_run_state c \<in> {WaitingForMembers, Warmup, Paused}" "sm' = warmup_start sm" "step' = WarmupActive"
  | (stay) "sm' = sm" "step' = step" "allowed_in_run_state step (co_run_state c) = Some True"
      "\<not> (step = WarmupActive \<and> co_run_state c = RoundTrain)"
proof (cases step)
  case Intermediate
  then show ?thesis using assms by (simp add: next_step_def)
next
  case WarmupActive
  then show ?thesis using assms first stay
    by (cases "co_run_state c") (auto simp: next_step_def and_then_Done need_Done dest!: quiet_steps)
next
  case (TrainingActive ts)
  then show ?thesis using assms witness stay
    by (cases "co_run_state c") (auto simp: next_step_def and_then_Done need_Done split: if_splits)
next
  case (WitnessActive ws)
  then show ?thesis using assms again cooldown stay
    by (cases "co_run_state c") (auto simp: next_step_def and_then_Done need_Done dest!: quiet_steps split: if_splits)
next
  case CooldownActive
  then show ?thesis using assms rest stay
    by (cases "co_run_state c") (auto simp: next_step_def and_then_Done need_Done dest!: quiet_steps split: if_splits)
qed

lemma leave_step_cases:
  assumes "leave_step V ou step sm = Done sm' step'"
  obtains (stay) "step = WarmupActive" "sm' = sm" "step' = WarmupActive"
  | (leave) sm1 where "step' = WarmupActive" "sm' = warmup_start sm1" "sm1 = sm \<or> (\<exists>ts. step = TrainingActive ts \<and> training_finish V ou ts sm = Done sm1 ())"
  using assms by (cases step) (auto simp: leave_step_def and_then_Done dest!: quiet_steps)

lemma next_step_with:
  assumes E: "env_ok (ce_node V)" and c: "state_ok V c" and inv: "inv_with V (step_job step) sm"
    and st: "next_step V i c ou step sm = Done sm' step'"
  shows "inv_with V (step_job step') sm'"
  using st
proof (cases rule: next_step_cases)
  case first
  have "inv_with V (step_job step) (sm\<lparr>sm_sent_warmup_finished := False, sm_sent_warmup_witness := False\<rparr>)"
    by (rule inv_with_books [OF inv]) auto
  then show ?thesis using start_training_with [OF E c _ _ first(3)] first(2) by blast
next
  case (witness ts sm1 ws)
  then have "inv_with V ApplySkipped sm1" using training_finish_with(1) inv by fastforce
  then show ?thesis using witness_start_with witness by fastforce
next
  case (again ws)
  then show ?thesis using start_training_with [OF E c again(2) inv] by blast
next
  case rest
  then show ?thesis using warmup_start_with [OF inv_with_tasks [OF inv]] by simp
qed (use inv in auto)

lemma leave_step_with:
  assumes inv: "inv_with V (step_job step) sm" and st: "leave_step V ou step sm = Done sm' step'"
  shows "inv_with V (step_job step') sm'"
  using st
proof (cases rule: leave_step_cases)
  case (leave sm1)
  then have "\<forall>t \<in> set (sm_tasks sm1). task_ok V (sm_cells sm1) t"
    using inv training_finish_with(1) inv_with_tasks by fastforce
  then show ?thesis using warmup_start_with leave by simp
qed (use inv in auto)

lemma apply_state_keeps:
  assumes E: "env_ok (ce_node V)" and c: "state_ok V c" and inv: "client_inv V sm" and st: "apply_state V c ou sm = Done sm' ()"
  shows "client_inv V sm'"
proof -
  have i: "inv_with V (step_job (sm_active_step sm)) (set_step Intermediate sm)" using inv by (simp add: client_inv_with)
  have co: "inv_with V job (x\<lparr>sm_coordinator_state := c\<rparr>) = inv_with V job x" for job x by (simp add: inv_with_def)
  show ?thesis
    using st next_step_with [OF E c i] leave_step_with [OF i]
    by (auto simp: apply_state_def Let_def and_then_Done client_inv_with co split: option.splits)
qed

lemma send_finished_Done:
  "send_finished V st bs proof w mark sm = Done sm' () \<Longrightarrow> \<exists>fb. sm' = mark (emit (BroadcastFinished fb) sm) \<and>
    fb_step fb = st \<and> fb_warmup fb = w"
  by (auto simp: send_finished_def need_Done split: if_splits)

lemma try_send_keeps:
  assumes inv: "client_inv V sm" and st: "try_send_opportunistic_witness V sm = Done sm' ()"
  shows "client_inv V sm'"
proof -
  have w: "client_inv V sm'" if "witness_early V pf sm = Done sm' ()" for pf
    using that by (auto simp: witness_early_def need_Done Let_def same_books_def dest!: send_finished_Done
      get_witness_to_send_books split: if_splits option.splits intro!: client_inv_books [OF inv])
  have u: "client_inv V sm'" if "warmup_early V sm = Done sm' ()"
    using that by (auto simp: warmup_early_def need_Done Let_def dest!: send_finished_Done
      split: if_splits option.splits intro!: client_inv_books [OF inv])
  show ?thesis using st w u inv
    by (auto simp: try_send_opportunistic_witness_def split: option.splits active_step.splits if_splits)
qed

section \<open>The invariant of a run\<close>

lemma apply_step_keeps:
  assumes inv: "client_inv V sm" and a: "sm_active_step sm = TrainingActive ts"
    and st: "apply_job_step V (ts_apply ts) (sm_cells sm) = (job, h)"
  shows "client_inv V (sm\<lparr>sm_active_step := TrainingActive (ts\<lparr>ts_apply := job\<rparr>), sm_cells := h\<rparr>)"
proof -
  have i: "inv_with V (ts_apply ts) sm" using inv a by (simp add: client_inv_with)
  have "inv_with V job (sm\<lparr>sm_cells := h\<rparr>)"
    using i st apply_one_with by (auto simp: apply_job_step_def split: apply_job.splits)
  then show ?thesis by (simp add: client_inv_with inv_with_def)
qed

theorem client_step_keeps:
  assumes "env_ok (ce_node V)" and "event_ok V ev" and "client_inv V sm" and "client_step V sm ev sm'"
  shows "client_inv V sm'"
  using assms(4)
proof cases
  case (broadcast "from" bc out)
  then show ?thesis using apply_message_keeps [OF assms(1,3), of "from" bc] by simp
next
  case (state c ou)
  then show ?thesis using apply_state_keeps [OF assms(1) _ assms(3)] assms(2) by simp
next
  case (trained ts)
  then show ?thesis using assms(3) by (simp add: client_inv_with inv_with_def)
qed (use assms apply_step_keeps try_send_keeps in \<open>auto intro: keeps\<close>)

lemma warmup_start_fields [simp]:
  "sm_active_step (warmup_start sm) = sm_active_step sm" "sm_tasks (warmup_start sm) = sm_tasks sm"
  "sm_identity (warmup_start sm) = sm_identity sm" "sm_outbox (warmup_start sm) = sm_outbox sm"
  "rs_committee_info (sm_current (warmup_start sm)) = None" "rs_sent_finished (sm_current (warmup_start sm)) = False"
  by (simp_all add: warmup_start_def round_state_new_def Let_def split: prod.splits)

lemma new_machine_inv: "client_inv V (step_state_machine_new i c opened)"
  by (simp add: step_state_machine_new_def Let_def client_inv_with warmup_start_with split: prod.splits)

lemma client_run_keeps:
  assumes "client_run V sm evs n sm'" and "env_ok (ce_node V)" and "\<forall>ev \<in> set evs. event_ok V ev" and "client_inv V sm"
  shows "client_inv V sm'"
  using assms by (induction rule: client_run.induct) (auto intro: client_step_keeps)

end
