(* ===== verification/Client_Props.thy ===== *)
theory Client_Props
  imports Client_Phases
begin

text \<open>
  A client enters the rounds of its coordinator, and two sample clients: one that has just been initialized and
  one in the middle of a round.
\<close>

section \<open>A sample client\<close>

definition sample_client :: "(nat, bytes, unit) client_env" where
  "sample_client = \<lparr>ce_node = sample_env, ce_ticket_hash = (\<lambda>t. t), ce_deserialize = (\<lambda>_. Some ())\<rparr>"

definition sample_outside :: outside where
  "sample_outside = \<lparr>ou_trainers = True, ou_train = None, ou_evals = True, ou_cooldown = True,
     ou_participant = (100, replicate 8 1), ou_broadcast = (100, replicate 8 2)\<rparr>"

lemma sample_env_ok: "env_ok (ce_node sample_client)"
proof -
  have "node_identity (ne_eq sample_env) (ne_as_ref sample_env)"
    by unfold_locales (simp_all add: sample_env_def externs.defs)
  then show ?thesis by (simp add: env_ok_def sample_client_def sample_env_externs)
qed

lemma sample_round: "Coordinator_Types.current_round sample_training = Some (zero_round\<lparr>r_clients_len := 2, r_random_seed := 5\<rparr>)"
  by (simp add: current_round_def nth_opt_def sample_training_def default_epoch_state_def zero_epoch_state_def)

lemma sample_state_ok: "state_ok sample_client sample_training"
  using sample_training_inv sample_round
  by (auto simp: state_ok_def sample_client_def sample_training_def fresh_def sample_config_def zero_round_def)

section \<open>Entering a round\<close>

lemma committee_total:
  assumes "externs_ok X" and "unat (cs_total_nodes s) \<le> 2 ^ 63" and "selection_ok s" and "i < cs_total_nodes s"
  shows "\<exists>cp. get_committee X s i = Some cp" and "\<exists>wp. get_witness X s i = Some wp"
proof -
  show "\<exists>cp. get_committee X s i = Some cp" using get_committee_position [OF assms] by auto
  obtain k where "cs_shuffled_index X s i WITNESS_SALT = Some k" using cs_shuffled_index_inj(3) [OF assms(1,2,4)] by blast
  then show "\<exists>wp. get_witness X s i = Some wp" by (simp add: get_witness_def)
qed

lemma position_where_Some: "position_where P xs = Some i \<Longrightarrow> i < length xs \<and> P (xs ! i)"
  by (induction xs arbitrary: i) (auto split: if_splits)

lemma enter_round_total:
  assumes E: "env_ok (ce_node V)" and c: "state_ok V c" "co_run_state c = RoundTrain"
    and r: "Coordinator_Types.current_round c = Some r" and i: "i < length (co_clients c)"
    and k: "length (snd (ou_participant ou)) = 8" "length (snd (ou_broadcast ou)) = 8"
  shows "\<exists>sm'. enter_round V (of_nat i) c ou r sm = Done sm' ()"
proof -
  have t: "co_run_state c \<in> {RoundTrain, RoundWitness}" using c(2) by simp
  note X = env_parts(1) [OF E] and sel = round_selection [OF c(1) t r]
  have p: "co_inv (ce_node V) c" "verification_percent (co_config c) = 0"
    "unat (r_data_index r) * unat (get_sequence_length c) < 2 ^ 64" "unat (r_data_index r) + 2 ^ 16 \<le> 2 ^ 64"
    using c(1) r by (auto simp: state_ok_def)
  obtain s where s: "from_coordinator (ce_node V) c 0 = Some (Inr s)" using training_selection [OF p(1) t] p(2) by auto
  have few: "length (co_clients c) \<le> 256" using clients_small [OF co_inv_parts(3) [OF p(1)]] .
  obtain r' where r': "Coordinator_Types.current_round c = Some r'" "round_ok (ce_node V) c r'" by (rule training_round [OF p(1) t])
  have so: "selection_ok s" "unat (cs_total_nodes s) = length (co_clients c)"
    using from_coordinator_ok [OF s] r' by (auto simp: round_ok_def)
  have "\<exists>q. round_data V c r s = Some q" using round_data_eq [OF E c(1) t r s] by blast
  moreover have "(of_nat i :: u64) < cs_total_nodes s"
    using i so(2) few unat_of_nat_small [where 'a = 64, of i] by (simp add: word_less_nat_alt)
  then have "\<exists>cp wp. get_committee (ce_node V) s (of_nat i) = Some cp \<and> get_witness (ce_node V) s (of_nat i) = Some wp"
    using committee_total [OF X _ so(1)] so(2) few by simp
  moreover have "\<exists>bl. new_blooms ou = Some bl"
    using k by (simp add: new_blooms_def bloom_random_def bloom_new_def bloom_max_bits_def)
  ultimately show ?thesis using sel s by (auto simp: enter_round_def split: prod.splits)
qed

lemma member_enters_round:
  assumes "env_ok (ce_node V)" and "state_ok V c" and "co_run_state c = RoundTrain"
    and "get_cold_start_warmup_bounds c \<noteq> None"
    and "sm_active_step sm = WarmupActive" and "rs_height (sm_current sm) = 0"
    and "my_position V (sm_identity sm) (co_clients c) = Some i"
    and "ou_trainers ou" and "ou_evals ou" and "length (snd (ou_participant ou)) = 8" and "length (snd (ou_broadcast ou)) = 8"
  shows "\<exists>sm' ts r s cp wp. apply_state V c ou sm = Done sm' () \<and> sm_active_step sm' = TrainingActive ts \<and>
    Coordinator_Types.current_round c = Some r \<and> from_coordinator (ce_node V) c 0 = Some (Inr s) \<and>
    rs_height (sm_current sm') = r_height r \<and> rs_step (sm_current sm') = co_step c \<and>
    rs_committee_info (sm_current sm') = Some (cp, wp, s) \<and> get_committee (ce_node V) s (of_nat i) = Some cp \<and>
    get_witness (ce_node V) s (of_nat i) = Some wp \<and> sm_coordinator_state sm' = c"
proof -
  let ?sm = "(set_step Intermediate sm)\<lparr>sm_sent_warmup_finished := False, sm_sent_warmup_witness := False\<rparr>"
  have t: "co_run_state c \<in> {RoundTrain, RoundWitness}" using assms(3) by simp
  obtain r where r: "Coordinator_Types.current_round c = Some r"
    using training_round [of "ce_node V" c] t assms(2) by (auto simp: state_ok_def)
  obtain s where s: "from_coordinator (ce_node V) c 0 = Some (Inr s)"
    using training_selection [of "ce_node V" c] t assms(2) by (auto simp: state_ok_def)
  have i: "i < length (co_clients c)" using assms(7) position_where_Some by (auto simp: my_position_def)
  obtain sm' where en: "enter_round V (of_nat i) c ou r ?sm = Done sm' ()"
    using enter_round_total [OF assms(1-3) r i assms(10,11)] by blast
  obtain ts where st: "training_start V (of_nat i) c ou ?sm = Done sm' ts"
    using en r assms(4,6,8) by (auto simp: training_start_def apply_results_def start_sending_health_checks_def)
  obtain blank h where f: "round_state_new (sm_cells ?sm) = (blank, h)" by (cases "round_state_new (sm_cells ?sm)")
  have "entered V (of_nat i) c r s (sm_current sm')"
    using enter_round_Done [OF en _ f, of s] round_selection [OF assms(2) t r] s by force
  then show ?thesis using st assms(3,5,7,9) r s
    by (auto simp: apply_state_def next_step_def stop_evals_def start_training_def entered_def)
qed

text \<open>
  C32. A member that has warmed up enters the first round. When the coordinator goes to \<open>RoundTrain\<close> with a
  client in its list, in a state its invariant allows, and the client's trainers are ready, the client
  takes up training without an error or a panic: it adopts the coordinator's height and step, selects the very
  committees the coordinator will verify its witness against, and knows its own place in them.
\<close>

theorem client_enters_first_round:
  assumes "env_ok (ce_node V)" and "state_ok V c" and "co_run_state c = RoundTrain"
    and "get_cold_start_warmup_bounds c \<noteq> None"
    and "sm_active_step sm = WarmupActive" and "rs_height (sm_current sm) = 0"
    and "my_position V (sm_identity sm) (co_clients c) = Some i"
    and "ou_trainers ou" and "ou_evals ou" and "length (snd (ou_participant ou)) = 8" and "length (snd (ou_broadcast ou)) = 8"
  shows "\<exists>sm' ts r s cp wp. apply_state V c ou sm = Done sm' () \<and> sm_active_step sm' = TrainingActive ts \<and>
    Coordinator_Types.current_round c = Some r \<and> from_coordinator (ce_node V) c 0 = Some (Inr s) \<and>
    rs_height (sm_current sm') = r_height r \<and> rs_step (sm_current sm') = co_step c \<and>
    rs_committee_info (sm_current sm') = Some (cp, wp, s) \<and> get_committee (ce_node V) s (of_nat i) = Some cp \<and>
    get_witness (ce_node V) s (of_nat i) = Some wp \<and> sm_coordinator_state sm' = c"
  using assms by (rule member_enters_round)

lemma new_machine_fields [simp]:
  "sm_active_step (step_state_machine_new i c op) = WarmupActive" "sm_identity (step_state_machine_new i c op) = i"
  "rs_height (sm_current (step_state_machine_new i c op)) = 0" "sm_outbox (step_state_machine_new i c op) = []"
  "rs_committee_info (sm_current (step_state_machine_new i c op)) = None" "sm_tasks (step_state_machine_new i c op) = []"
  by (simp_all add: step_state_machine_new_def warmup_start_def round_state_new_def Let_def split: prod.splits)

abbreviation sample_start :: "(nat, bytes, unit) step_state_machine" where
  "sample_start \<equiv> step_state_machine_new 7 sample_training (\<lambda>_. True)"

lemma sample_start_facts:
  "co_run_state sample_training = RoundTrain" "get_cold_start_warmup_bounds sample_training \<noteq> None"
  "my_position sample_client 7 (co_clients sample_training) = Some 0"
  "ou_trainers sample_outside" "ou_evals sample_outside"
  "length (snd (ou_participant sample_outside)) = 8" "length (snd (ou_broadcast sample_outside)) = 8"
  by (simp_all add: sample_training_def fresh_def get_cold_start_warmup_bounds_def sample_llm_def my_position_def
      sample_client_def sample_env_def externs.defs client_new_def sample_outside_def)

theorem client_enters_first_round_witness:
  "\<exists>sm ts. apply_state sample_client sample_training sample_outside sample_start = Done sm () \<and>
     sm_active_step sm = TrainingActive ts \<and> rs_step (sm_current sm) = co_step sample_training"
  using client_enters_first_round [OF sample_env_ok sample_state_ok sample_start_facts(1,2) _ _ _ sample_start_facts(4-7),
      of sample_start 0] sample_start_facts(3) by auto

section \<open>A sample client at work\<close>

text \<open>
  Client 7 in a round it has finished training: the previous round has one batch, whose payload is verified
  and deserialized, everybody has reported to be finished, and the payload of another round is being applied.
\<close>

definition sample_batch :: batch_id where
  "sample_batch = BatchId (ClosedInterval 0 3)"

definition sample_payload :: transmittable_distro_result where
  "sample_payload = \<lparr>td_step = 1, td_trainer_nonce = 0, td_batch_id = sample_batch, td_distro_results = []\<rparr>"

definition sample_commitment :: commitment where
  "sample_commitment = \<lparr>cm_data_hash = replicate 32 0, cm_signature = []\<rparr>"

definition sample_results :: "batch_id \<Rightarrow> (nat \<times> commitment \<times> bytes training_result) list option" where
  "sample_results = [sample_batch \<mapsto> [(7, sample_commitment, \<lparr>tr_batch_id = sample_batch, tr_ticket = [1]\<rparr>)]]"

definition full_bloom :: bloom where
  "full_bloom = \<lparr>bl_keys = [0], bl_bits = [- 1]\<rparr>"

definition busy_cells :: "(nat, bytes, unit) cells" where
  "busy_cells = \<lparr>hp_next = 4, hp_downloads = (\<lambda>a. if a = 0 then [] else [([1], Deserializing 3)]),
     hp_blooms = (\<lambda>a. Some (full_bloom, full_bloom)), hp_batches = (\<lambda>_. None),
     hp_handles = (\<lambda>_. Completed (Inr ([], 0)))\<rparr>"

definition busy_round ::
    "nat \<Rightarrow> (batch_id \<Rightarrow> (nat \<times> commitment \<times> bytes training_result) list option) \<Rightarrow> (nat, bytes, unit) round_state" where
  "busy_round a res = \<lparr>rs_height = 0, rs_step = (if a = 0 then 1 else 0), rs_sent_witness = False, rs_sent_finished = True, rs_downloads = a,
     rs_results = res, rs_clients_finished = [(7, \<lparr>fi_broadcast_merkle = [], fi_warmup = False\<rparr>),
       (9, \<lparr>fi_broadcast_merkle = [], fi_warmup = False\<rparr>)],
     rs_data_assignments = (if res = Map.empty then [] else [(sample_batch, 7)]), rs_blooms = a, rs_broadcasts = [],
     rs_committee_info = Some (default_committee_proof, w_proof sample_witness,
       \<lparr>cs_tie_breaker_nodes = 0, cs_verifier_nodes = 0, cs_total_nodes = 2, cs_witness_nodes = 2, cs_seed = []\<rparr>),
     rs_batches = a, rs_self_distro_results = []\<rparr>"

definition busy_witness :: Coordinator_Types.witness where
  "busy_witness = \<lparr>w_proof = w_proof sample_witness, w_participant_bloom = full_bloom, w_broadcast_bloom = full_bloom,
     w_broadcast_merkle = DEFAULT_MERKLE_ROOT\<rparr>"

definition busy_applying :: "(nat, bytes, unit) applying" where
  "busy_applying = \<lparr>ap_commitments = sample_results, ap_witnesses = [busy_witness], ap_quorum = 1, ap_payloads = 2,
     ap_batch_ids = [sample_batch], ap_cold_start_warmup_steps = 0, ap_epoch = 0, ap_warmup_lr_between = None,
     ap_distro_results = []\<rparr>"

definition busy :: "(nat, bytes, unit) step_state_machine" where
  "busy = \<lparr>sm_identity = 7, sm_active_step = TrainingActive \<lparr>ts_sending_health_checks = None,
       ts_apply = Applying busy_applying, ts_have_training = False, ts_finished = True\<rparr>,
     sm_current = busy_round 0 Map.empty, sm_previous = busy_round 1 sample_results,
     sm_sent_warmup_finished = False, sm_sent_warmup_witness = False, sm_coordinator_state = sample_training,
     sm_cells = busy_cells, sm_tasks = [], sm_outbox = [], sm_open = (\<lambda>_. True)\<rparr>"

lemma full_bloom_contains: "bloom_contains (ce_node sample_client) full_bloom key = Some True"
proof -
  have "unat (w mod 64 :: u64) < 64" for w :: u64 by (simp add: unat_mod)
  then show ?thesis
    by (simp add: bloom_contains_def full_bloom_def bloom_pos_def slice_hash_def checked_rem_def sample_client_def
        sample_env_def sample_externs_def externs.defs lsb0_get_def nth_opt_def)
qed

lemma full_bloom_ok: "bloom_ok full_bloom"
  by (simp add: bloom_ok_def full_bloom_def)

lemma sample_recorded: "recorded sample_client sample_results [1] 7 sample_batch sample_commitment"
  by (simp add: recorded_def sample_results_def sample_client_def sample_env_def externs.defs)

lemma sample_recorded_hash: "recorded sample_client sample_results hash x b cm \<Longrightarrow> hash = [1]"
  by (auto simp: recorded_def sample_results_def sample_client_def split: if_splits)

lemma sample_results_some [simp]: "sample_results \<noteq> Map.empty"
  by (simp add: sample_results_def)

lemma sample_results_ok: "results_ok sample_client [(sample_batch, 7)] sample_results"
  by (auto simp: results_ok_def sample_results_def sample_client_def sample_env_def externs.defs split: if_splits)

lemma sample_handle: "handle_ok sample_client busy_cells 3 sample_commitment"
  unfolding handle_ok_def
  by (intro exI [of _ sample_payload] conjI disjI2 exI [of _ False])
     (simp_all add: comptue_hash_def sample_client_def sample_env_def sample_externs_def externs.defs sample_commitment_def
      busy_cells_def deserialize_payload_def sample_payload_def)

lemma sample_ledger: "0 < a \<Longrightarrow> a < 4 \<Longrightarrow> ledger sample_client busy_cells [] a sample_results [(sample_batch, 7)]"
  using sample_results_ok sample_recorded sample_handle
  by (auto simp: ledger_def busy_cells_def split: if_splits)

lemma busy_blooms: "hp_blooms busy_cells a = Some (full_bloom, full_bloom)"
  and busy_downloads: "hp_downloads busy_cells a = (if a = 0 then [] else [([1], Deserializing 3)])"
  by (simp_all add: busy_cells_def)

lemma busy_inv: "client_inv sample_client busy"
proof -
  have "round_inv sample_client busy_cells [] (busy_round 0 Map.empty)"
    by (simp add: round_inv_def busy_round_def ledger_def results_ok_def busy_cells_def recorded_def filters_ok_def
        bloom_ok_def full_bloom_def)
  moreover have "round_inv sample_client busy_cells [] (busy_round 1 sample_results)"
    using sample_ledger [of 1] sample_recorded full_bloom_contains full_bloom_ok sample_recorded_hash
    by (auto simp: round_inv_def busy_round_def filters_ok_def vouched_def busy_blooms busy_downloads)
  moreover have "job_inv sample_client busy_cells [] (Applying busy_applying)"
    using sample_ledger [of 2] by (auto simp: busy_applying_def)
  ultimately show ?thesis
    by (simp add: client_inv_def busy_def busy_applying_def busy_round_def)
qed

end
