(* ===== verification/Client_Safety.thy ===== *)
theory Client_Safety
  imports Client_Props
begin

text \<open>
  What the invariant of a client gives: which broadcasts it records, what its witness vouches for and what it
  applies to the model, in every order of events.
\<close>

section \<open>What is recorded\<close>

lemma client_run_one: "client_step V sm ev sm' \<Longrightarrow> \<not> enters_round V sm ev \<Longrightarrow> client_run V sm [ev] 0 sm'"
  using client_run.more [OF client_run.start, of V sm ev sm'] by simp

lemma recorded_entry:
  assumes "round_inv V h ts rs" and "rs_results rs b = Some es" and "(f, cm, tr) \<in> set es" and E: "env_ok (ce_node V)"
  shows "tr_batch_id tr = b" and "\<exists>a. map_of (rs_data_assignments rs) b = Some a \<and> ce_eq V f a"
    and "\<And>b' es' e. rs_results rs b' = Some es' \<Longrightarrow> e \<in> set es' \<Longrightarrow> entry_hash V e = ce_ticket_hash V (tr_ticket tr) \<Longrightarrow>
      b' = b \<and> e = (f, cm, tr)"
    and "map_of (hp_downloads h (rs_downloads rs)) (ce_ticket_hash V (tr_ticket tr)) \<noteq> None"
proof -
  have ok: "results_ok V (rs_data_assignments rs) (rs_results rs)" using assms(1) by (simp add: round_inv_def ledger_def)
  show "tr_batch_id tr = b" "\<exists>a. map_of (rs_data_assignments rs) b = Some a \<and> ce_eq V f a"
    using results_okD(1) [OF ok assms(2,3)] by auto
  show "b' = b \<and> e = (f, cm, tr)"
    if "rs_results rs b' = Some es'" "e \<in> set es'" "entry_hash V e = ce_ticket_hash V (tr_ticket tr)" for b' es' e
    using results_okD(2) [OF ok that(1) assms(2) that(2) assms(3)] that(3) by simp
  have "recorded V (rs_results rs) (ce_ticket_hash V (tr_ticket tr)) f b cm"
    using assms(2,3) node_identity.eq_refl [OF env_parts(2) [OF E]] by (auto simp: recorded_def)
  then show "map_of (hp_downloads h (rs_downloads rs)) (ce_ticket_hash V (tr_ticket tr)) \<noteq> None"
    using assms(1) unfolding round_inv_def by blast
qed

section \<open>The early witness\<close>

lemma early_witness_vouches:
  assumes inv: "client_inv V sm" and st: "try_send_opportunistic_witness V sm = Done sm' ()"
    and out: "sm_outbox sm' = sm_outbox sm @ [SendOpportunistic (OppWitness w)]"
  shows "\<exists>ts cp s. sm_active_step sm = TrainingActive ts \<and> ts_finished ts \<and>
      rs_committee_info (sm_current sm) = Some (cp, w_proof w, s) \<and> \<not> sb_is_false (wp_witness (w_proof w))"
    and "unfinished_clients V sm = []" and "all_deserialized (sm_cells sm) (sm_previous sm)"
    and "\<not> rs_sent_witness (sm_previous sm)" and "rs_sent_witness (sm_previous sm')"
    and "broadcasts_root (ce_sha V) (rs_broadcasts (sm_previous sm)) = Some (w_broadcast_merkle w)"
    and "map_of (rs_data_assignments (sm_previous sm)) b = Some x \<Longrightarrow>
      vouched V (w_participant_bloom w) (w_broadcast_bloom w) (rs_results (sm_previous sm)) b x"
proof -
  have nw: "warmup_early V sm \<noteq> Done sm' ()"
    using out by (auto simp: warmup_early_def need_Done Let_def dest!: send_finished_Done split: if_splits option.splits)
  then obtain cp pf s ts where i: "rs_committee_info (sm_current sm) = Some (cp, pf, s)"
    and t: "sm_active_step sm = TrainingActive ts" "ts_finished ts"
    and b: "hp_batches (sm_cells sm) (rs_batches (sm_previous sm)) = None" and e: "witness_early V cp sm = Done sm' ()"
    using st out by (auto simp: try_send_opportunistic_witness_def split: option.splits active_step.splits if_splits)
  obtain prev where g: "get_witness_to_send V (sm_cells sm) (sm_previous sm) (sm_current sm) = Some (Some w, prev)"
    and p: "sm_previous sm' = prev" and d: "all_deserialized (sm_cells sm) (sm_previous sm)" and u: "unfinished_clients V sm = []"
    using e out by (auto simp: witness_early_def need_Done Let_def dest!: send_finished_Done split: if_splits option.splits)
  from g show "\<exists>ts cp s. sm_active_step sm = TrainingActive ts \<and> ts_finished ts \<and>
      rs_committee_info (sm_current sm) = Some (cp, w_proof w, s) \<and> \<not> sb_is_false (wp_witness (w_proof w))"
    by (cases rule: get_witness_to_send_cases) (use t i in auto)
  from g show "\<not> rs_sent_witness (sm_previous sm)" and "rs_sent_witness (sm_previous sm')"
    and "broadcasts_root (ce_sha V) (rs_broadcasts (sm_previous sm)) = Some (w_broadcast_merkle w)"
    by (cases rule: get_witness_to_send_cases; use p in simp)+
  show "unfinished_clients V sm = []" "all_deserialized (sm_cells sm) (sm_previous sm)" by (fact u, fact d)
  show "vouched V (w_participant_bloom w) (w_broadcast_bloom w) (rs_results (sm_previous sm)) b x"
    if m: "map_of (rs_data_assignments (sm_previous sm)) b = Some x"
  proof -
    let ?h = "sm_cells sm" and ?rs = "sm_previous sm"
    have r: "round_inv V ?h (sm_tasks sm) ?rs" using inv by (simp add: client_inv_def)
    then have same: "rs_blooms ?rs = rs_downloads ?rs" "rs_batches ?rs = rs_downloads ?rs" by (simp_all add: round_inv_def)
    obtain p q where "hp_blooms ?h (rs_downloads ?rs) = Some (p, q)" "batch_pending ?h (rs_downloads ?rs) b \<or> vouched V p q (rs_results ?rs) b x"
      using r m unfolding round_inv_def filters_ok_def by blast
    then have "vouched V p q (rs_results ?rs) b x" "hp_blooms ?h (rs_blooms ?rs) = Some (p, q)"
      using b same by (auto simp: batch_pending_def)
    then show ?thesis using g by (auto elim: get_witness_to_send_cases)
  qed
qed

section \<open>What is applied\<close>

lemma apply_one_Applying:
  assumes "apply_one V a h = (Applying a', h')"
  shows "from_consensus V a' = from_consensus V a"
    and "length (ap_distro_results a') + length (ap_batch_ids a') \<le> length (ap_distro_results a) + length (ap_batch_ids a)"
proof -
  have tp: "ap_commitments a'' = ap_commitments x \<and> ap_witnesses a'' = ap_witnesses x \<and> ap_quorum a'' = ap_quorum x \<and>
      still_warming_up a'' = still_warming_up x \<and> ap_batch_ids a'' = ap_batch_ids x \<and>
      length (ap_distro_results a'') \<le> Suc (length (ap_distro_results x))"
    if "take_payload V cm b hash x h = (Applying a'', h'')" for cm b hash x a'' h''
    using that by (auto simp: take_payload_def Let_def still_warming_up_def fun_eq_iff
        split: option.splits payload_state.splits deserialize_task.splits sum.splits prod.splits if_splits)
  obtain b bs where ids: "ap_batch_ids a = b # bs" using assms by (cases "ap_batch_ids a") (auto simp: apply_one_def)
  have k: "a' = a\<lparr>ap_batch_ids := bs\<rparr> \<or> (\<exists>cm hash. take_payload V cm b hash (a\<lparr>ap_batch_ids := bs\<rparr>) h = (Applying a', h'))"
    using assms ids by (auto simp: apply_one_def Let_def split: option.splits)
  have w: "still_warming_up (a\<lparr>ap_batch_ids := bs\<rparr>) = still_warming_up a" by (simp add: still_warming_up_def fun_eq_iff)
  show "from_consensus V a' = from_consensus V a" using k tp w by (intro from_consensus_cong) auto
  show "length (ap_distro_results a') + length (ap_batch_ids a') \<le> length (ap_distro_results a) + length (ap_batch_ids a)"
    using k ids by (auto dest!: tp)
qed

lemma apply_run_Applying:
  "apply_run V (Applying a) h = (case apply_one V a h of (job, h') \<Rightarrow> apply_run V job h')"
  by (simp add: apply_run.simps [of V "Applying a"])

lemma apply_run_Ready:
  assumes "apply_run V (Applying a) h = (ApplyReady rss, h')" and "job_inv V h ts (Applying a)"
  shows "(\<forall>rs \<in> set rss. from_consensus V a rs) \<and> length rss \<le> length (ap_distro_results a) + length (ap_batch_ids a)"
  using assms
proof (induction "length (ap_batch_ids a)" arbitrary: a h)
  case (0 a h)
  then show ?case by (auto simp: apply_run_Applying apply_one_def apply_run.simps [of V "ApplyReady _"])
next
  case (Suc n a h)
  obtain job h1 where one: "apply_one V a h = (job, h1)" by (cases "apply_one V a h")
  have run: "apply_run V job h1 = (ApplyReady rss, h')" using Suc.prems(1) one by (simp add: apply_run_Applying)
  obtain asg where "ledger V h ts (ap_payloads a) (ap_commitments a) asg" "\<forall>rs \<in> set (ap_distro_results a). from_consensus V a rs"
    using Suc.prems(2) by auto
  note inv = conjunct1 [OF apply_one_job [OF this one]]
  show ?case
  proof (cases job)
    case (Applying a')
    note ap = apply_one_Applying [OF one [unfolded Applying]]
    have "n = length (ap_batch_ids a')"
      using one Suc.hyps(2) Applying by (cases "ap_batch_ids a")
        (auto simp: apply_one_def Let_def dest!: take_payload_ids split: option.splits)
    then show ?thesis using Suc.hyps(1) [of a' h1] run inv Applying ap by fastforce
  next
    case (ApplyReady x)
    then show ?thesis using one Suc.hyps(2)
      by (cases "ap_batch_ids a") (auto simp: apply_one_def Let_def take_payload_def split: option.splits payload_state.splits
          deserialize_task.splits sum.splits prod.splits)
  qed (use run in \<open>auto simp: apply_run.simps\<close>)
qed

lemma apply_run_end: "apply_run V job h \<noteq> (Applying a, h')"
proof (induction V job h rule: apply_run.induct)
  case (1 V job h)
  then show ?case by (subst apply_run.simps) (auto split: apply_job.split prod.split)
qed

section \<open>Properties\<close>

text \<open>
  C8. What a client records of a round, in whatever order broadcasts, payloads, tasks and coordinator states
  arrive: a result is kept under the batch it names, its sender is the trainer the batch is assigned to, no
  payload is recorded for two results, and its download was requested. A new client starts in the invariant.
\<close>

theorem client_records_assigned_results:
  assumes "env_ok (ce_node V)" and "sm\<^sub>0 = step_state_machine_new i c op \<or> client_inv V sm\<^sub>0"
    and "client_run V sm\<^sub>0 evs n sm" and "\<forall>ev \<in> set evs. event_ok V ev"
    and "rs \<in> {sm_current sm, sm_previous sm}" and "rs_results rs b = Some es" and "(f, cm, tr) \<in> set es"
  shows "tr_batch_id tr = b \<and> (\<exists>a. map_of (rs_data_assignments rs) b = Some a \<and> ce_eq V f a) \<and>
    (\<forall>b' es' e. rs_results rs b' = Some es' \<and> e \<in> set es' \<and> entry_hash V e = ce_ticket_hash V (tr_ticket tr) \<longrightarrow>
       b' = b \<and> e = (f, cm, tr)) \<and>
    map_of (hp_downloads (sm_cells sm) (rs_downloads rs)) (ce_ticket_hash V (tr_ticket tr)) \<noteq> None"
proof -
  have "client_inv V sm" using client_run_keeps [OF assms(3,1,4)] assms(2) new_machine_inv by metis
  then have "round_inv V (sm_cells sm) (sm_tasks sm) rs" using assms(5) by (auto simp: client_inv_def)
  note r = recorded_entry [OF this assms(6,7,1)]
  show ?thesis using r(1,2,4) r(3) by blast
qed

definition busy_after :: "(nat, bytes, unit) step_state_machine" where
  "busy_after = busy\<lparr>sm_previous := (sm_previous busy)\<lparr>rs_sent_witness := True\<rparr>,
     sm_outbox := [SendOpportunistic (OppWitness busy_witness)]\<rparr>"

lemma busy_root: "broadcasts_root (ce_sha sample_client) [] = Some DEFAULT_MERKLE_ROOT"
  by (simp add: broadcasts_root_def merkle_new_def get_root_def next_level_len_def build_loop.simps)

lemma busy_sends: "try_send_opportunistic_witness sample_client busy = Done busy_after ()"
proof -
  have f: "unfinished_clients sample_client busy = []"
    by (simp add: unfinished_clients_def busy_def busy_round_def sample_training_def fresh_def sample_client_def
        sample_env_def externs.defs client_new_def default_epoch_state_def zero_epoch_state_def)
  have d: "all_deserialized (sm_cells busy) (sm_previous busy)"
    by (simp add: all_deserialized_def busy_def busy_round_def busy_cells_def)
  have w: "get_witness_to_send sample_client (sm_cells busy) (sm_previous busy) (sm_current busy) =
      Some (Some busy_witness, (sm_previous busy)\<lparr>rs_sent_witness := True\<rparr>)"
    using busy_root by (simp add: get_witness_to_send_def busy_def busy_round_def busy_blooms busy_witness_def sample_witness_def)
  have "witness_early sample_client default_committee_proof busy = Done busy_after ()"
    unfolding witness_early_def w
    by (simp add: f d) (simp add: busy_after_def busy_def busy_round_def)
  then show ?thesis
    by (simp add: try_send_opportunistic_witness_def) (simp add: busy_def busy_round_def busy_cells_def)
qed

lemma busy_run: "client_run sample_client busy [WitnessInterval] 0 busy_after"
  using client_step.interval [OF busy_sends] by (auto intro: client_run_one)

lemma busy_after_previous:
  "sm_previous busy_after \<in> {sm_current busy_after, sm_previous busy_after}"
  "rs_results (sm_previous busy_after) sample_batch =
     Some [(7, sample_commitment, \<lparr>tr_batch_id = sample_batch, tr_ticket = [1]\<rparr>)]"
  by (simp_all add: busy_after_def busy_def busy_round_def sample_results_def)

theorem client_records_assigned_results_witness:
  "\<exists>a. map_of (rs_data_assignments (sm_previous busy_after)) sample_batch = Some a \<and> ce_eq sample_client 7 a"
  using client_records_assigned_results [OF sample_env_ok disjI2 [OF busy_inv] busy_run _ busy_after_previous,
      of 7 sample_commitment "\<lparr>tr_batch_id = sample_batch, tr_ticket = [1]\<rparr>"] by auto

text \<open>
  C9. The witness a client sends early is complete. It goes out only when the client has finished training, is
  elected, has not witnessed the round yet, every member has reported to be finished, and every payload of the
  round has been deserialized; then its filters contain the assignee of every batch of the round and, for every
  batch, a commitment recorded for it, and its root is that of the broadcasts the client has seen.
\<close>

theorem early_witness_covers_round:
  assumes "client_inv V sm" and "try_send_opportunistic_witness V sm = Done sm' ()"
    and "sm_outbox sm' = sm_outbox sm @ [SendOpportunistic (OppWitness w)]"
  shows "(\<exists>ts cp s. sm_active_step sm = TrainingActive ts \<and> ts_finished ts \<and>
      rs_committee_info (sm_current sm) = Some (cp, w_proof w, s)) \<and> \<not> sb_is_false (wp_witness (w_proof w)) \<and>
    unfinished_clients V sm = [] \<and> all_deserialized (sm_cells sm) (sm_previous sm) \<and>
    \<not> rs_sent_witness (sm_previous sm) \<and> rs_sent_witness (sm_previous sm') \<and>
    broadcasts_root (ce_sha V) (rs_broadcasts (sm_previous sm)) = Some (w_broadcast_merkle w) \<and>
    (\<forall>b x. map_of (rs_data_assignments (sm_previous sm)) b = Some x \<longrightarrow>
      vouched V (w_participant_bloom w) (w_broadcast_bloom w) (rs_results (sm_previous sm)) b x)"
  using early_witness_vouches [OF assms] by blast

theorem early_witness_covers_round_witness:
  "vouched sample_client full_bloom full_bloom sample_results sample_batch 7"
  using early_witness_covers_round [OF busy_inv busy_sends, of busy_witness]
  by (simp add: busy_after_def busy_def busy_round_def busy_witness_def)


lemma busy_consensus:
  "select_consensus_commitment_by_witnesses (ce_node sample_client) [sample_commitment] [busy_witness] 1 = Some (Some 0)"
  using full_bloom_contains
  by (simp add: select_consensus_commitment_by_witnesses_def busy_witness_def nth_opt_def checked_add_def)

lemma sample_hash: "ce_ticket_hash sample_client t = t"
  and busy_handles: "hp_handles busy_cells n = Completed (Inr ([], 0))"
  by (simp_all add: sample_client_def busy_cells_def)

lemma busy_applies:
  "apply_run sample_client (Applying busy_applying) busy_cells =
     (ApplyReady [[]], busy_cells\<lparr>hp_downloads := (hp_downloads busy_cells)(2 := [])\<rparr>)"
proof -
  have "apply_one sample_client busy_applying busy_cells =
      (Applying (busy_applying\<lparr>ap_batch_ids := [], ap_distro_results := [[]]\<rparr>),
       busy_cells\<lparr>hp_downloads := (hp_downloads busy_cells)(2 := [])\<rparr>)"
    using busy_consensus by (simp add: apply_one_def busy_applying_def Let_def sample_results_def take_payload_def
        busy_downloads nth_opt_def still_warming_up_def sample_hash busy_handles)
  then show ?thesis by (simp add: apply_run_Applying apply_one_def apply_run.simps [of _ "ApplyReady _"])
qed


text \<open>
  The task that applies a round ends after one iteration per batch: awaiting it always returns, with the
  results, a named error or the report of a crash, whatever the witnesses and the payloads are.
\<close>

theorem apply_run_terminates:
  "\<exists>job' h'. apply_run V job h = (job', h') \<and> (\<forall>a. job' \<noteq> Applying a) \<and> batches_left job' = 0 \<and>
     (\<forall>a job1 h1. job = Applying a \<and> apply_one V a h = (job1, h1) \<longrightarrow>
        batches_left job1 < batches_left job \<and> apply_run V job1 h1 = (job', h'))"
proof -
  obtain job' h' where r: "apply_run V job h = (job', h')" by (cases "apply_run V job h")
  then have "\<forall>a. job' \<noteq> Applying a" using apply_run_end [of V job h] by auto
  moreover from this have "batches_left job' = 0" by (cases job') auto
  moreover have "batches_left job1 < batches_left job \<and> apply_run V job1 h1 = (job', h')"
    if "job = Applying a" "apply_one V a h = (job1, h1)" for a job1 h1
    using that r batches_left_step [OF that(2)] by (simp add: apply_run_Applying)
  ultimately show ?thesis using r by auto
qed

theorem apply_run_terminates_witness:
  "\<exists>job h. apply_run sample_client (Applying busy_applying) busy_cells = (job, h) \<and> batches_left job = 0"
  using apply_run_terminates [of sample_client "Applying busy_applying" busy_cells] by auto

section \<open>Accepting broadcasts\<close>

lemma verified_sender_is_client:
  "verify_committee_for_client E s x p cs = Some True \<Longrightarrow> \<exists>y \<in> set cs. ne_eq E (cl_id y) x"
  by (auto simp: verify_committee_for_client_def verify_client_def nth_opt_iff split: if_splits option.splits)

lemma refuse_sender_pass:
  assumes "refuse_sender V x bc rs sm = Some None"
  shows "\<exists>y \<in> set (sm_clients sm). ce_eq V (cl_id y) x"
    and "\<not> is_warmup_broadcast (bc_data bc) \<Longrightarrow> cp_committee (bc_proof bc) = Trainer \<and> (ce_eq V x (sm_identity sm) \<or>
      (\<exists>cp wp s. rs_committee_info rs = Some (cp, wp, s) \<and>
        verify_committee_for_client (ce_node V) s x (bc_proof bc) (sm_clients sm) = Some True))"
  using assms verified_sender_is_client [of "ce_node V"]
  by (auto simp: refuse_sender_def Let_def bind_eq_Some_conv split: if_splits option.splits)

lemma the_round_simps [simp]:
  "the_round b (put_round b rs sm) = rs" "the_round (\<not> b) (put_round b rs sm) = the_round (\<not> b) sm"
  "the_round b (sm\<lparr>sm_cells := h\<rparr>) = the_round b sm" "the_round b (sm\<lparr>sm_outbox := out\<rparr>) = the_round b sm"
  "sm_cells (put_round b rs sm) = sm_cells sm" "sm_outbox (put_round b rs sm) = sm_outbox sm"
  "sm_identity (put_round b rs sm) = sm_identity sm" "sm_open (put_round b rs sm) = sm_open sm"
  by (simp_all add: the_round_def put_round_def)

text \<open>A broadcast of the right step from an admitted sender.\<close>

definition admitted :: "('id, 't, 'r) client_env \<Rightarrow> 'id \<Rightarrow> 't broadcast \<Rightarrow> bool \<Rightarrow> ('id, 't, 'r) step_state_machine \<Rightarrow> bool" where
  "admitted V x bc current sm \<longleftrightarrow>
     rs_step (the_round current sm) = bc_step bc \<and> (\<exists>y \<in> set (sm_clients sm). ce_eq V (cl_id y) x) \<and>
     (is_warmup_broadcast (bc_data bc) \<or> cp_committee (bc_proof bc) = Trainer \<and> (ce_eq V x (sm_identity sm) \<or>
        (\<exists>cp wp s. rs_committee_info (the_round current sm) = Some (cp, wp, s) \<and>
          verify_committee_for_client (ce_node V) s x (bc_proof bc) (sm_clients sm) = Some True)))"

definition noted ::
    "('id, 't, 'r) client_env \<Rightarrow> 'id \<Rightarrow> 't broadcast \<Rightarrow> bool \<Rightarrow> ('id, 't, 'r) step_state_machine \<Rightarrow>
      ('id, 't, 'r) step_state_machine \<Rightarrow> bool" where
  "noted V x bc current sm sm' \<longleftrightarrow>
     (let rs = the_round current sm; rs' = the_round current sm'
      in the_round (\<not> current) sm' = the_round (\<not> current) sm \<and>
         rs_broadcasts rs' = rs_broadcasts rs @ [cm_data_hash (bc_commitment bc)] \<and>
         (case bc_data bc of
            TrainingResult tr \<Rightarrow>
              let b = tr_batch_id tr; hash = ce_ticket_hash V (tr_ticket tr)
              in (\<exists>a. map_of (rs_data_assignments rs) b = Some a \<and> ce_eq V x a) \<and>
                 \<not> distro_result_blob_downloaded (sm_cells sm) hash rs \<and>
                 distro_result_blob_downloaded (sm_cells sm') hash rs' \<and>
                 rs_results rs' = (rs_results rs)(b \<mapsto> unwrap_or (rs_results rs b) [] @ [(x, bc_commitment bc, tr)]) \<and>
                 sm_outbox sm' = sm_outbox sm @
                   (if ce_eq V x (sm_identity sm) then [] else [RequestDownload (tr_ticket tr) x (bc_step bc)])
          | FinishedMsg f \<Rightarrow>
              (\<forall>e \<in> set (rs_clients_finished rs). \<not> ce_eq V (fst e) x) \<and>
              rs_clients_finished rs' = rs_clients_finished rs @ [(x, f)] \<and>
              sm_cells sm' = sm_cells sm \<and> sm_outbox sm' = sm_outbox sm))"

lemma training_result_noted:
  assumes "apply_training_result V x bc tr current sm = Done sm' out" and "bc_data bc = TrainingResult tr"
  shows "if out = Applied then noted V x bc current sm sm' else sm' = sm"
  using assms by (auto simp: apply_training_result_def noted_def push_broadcast_def Let_def
      distro_result_blob_downloaded_def update_conv' split: option.splits if_splits)

lemma finished_noted:
  assumes "apply_finished V x bc f current sm = Done sm' out" and "bc_data bc = FinishedMsg f"
  shows "if out = Applied then noted V x bc current sm sm' else sm' = sm"
  using assms by (auto simp: apply_finished_def noted_def push_broadcast_def Let_def split: if_splits)

text \<open>
  C33. How a broadcast is answered. It is applied only to the round of its step and only when its sender is a
  client of the run that proves to be a trainer of that round; a result must also be of a batch assigned
  to its sender and of a payload not seen before, and is then recorded and its download requested once, and a
  report to be finished must be the first of its sender. Every other broadcast leaves the client as it
  was, and the only error is a closed download channel.
\<close>

theorem broadcast_outcome:
  "case apply_message V x bc sm of
     Panic \<Rightarrow> True
   | Fail sm' e \<Rightarrow> \<not> sm_open sm ChDownload
   | Done sm' out \<Rightarrow> if out = Applied then \<exists>current. admitted V x bc current sm \<and> noted V x bc current sm sm' else sm' = sm"
proof -
  have d: "if out = Applied then \<exists>current. admitted V x bc current sm \<and> noted V x bc current sm sm' else sm' = sm"
    if r: "apply_to_round V x bc current sm = Done sm' out" and st: "rs_step (the_round current sm) = bc_step bc" for current sm' out
  proof (cases "refuse_sender V x bc (the_round current sm) sm = Some None")
    case True
    then have "if out = Applied then noted V x bc current sm sm' else sm' = sm"
      using r training_result_noted [of V x bc _ current sm sm' out] finished_noted [of V x bc _ current sm sm' out]
      by (auto simp: apply_to_round_def split: broadcast_type.splits)
    moreover have "admitted V x bc current sm" using refuse_sender_pass [OF True] st by (auto simp: admitted_def)
    ultimately show ?thesis by auto
  next
    case False
    then have "sm' = sm \<and> out \<noteq> Applied" using r
      by (auto simp: apply_to_round_def need_Done refuse_sender_def Let_def bind_eq_Some_conv split: option.splits if_splits)
    then show ?thesis by simp
  qed
  have f: "\<not> sm_open sm ChDownload" if "apply_to_round V x bc current sm = Fail sm' e" for current sm' e
    using that by (auto simp: apply_to_round_def need_Fail apply_training_result_def apply_finished_def Let_def
        split: option.splits broadcast_type.splits if_splits)
  show ?thesis using d f by (auto simp: apply_message_def the_round_def split: exec.splits if_splits)
qed

definition sample_broadcast :: "bytes broadcast" where
  "sample_broadcast = \<lparr>bc_step = 0, bc_proof = \<lparr>cp_committee = Trainer, cp_position = 0, cp_index = 0\<rparr>,
     bc_commitment = sample_commitment, bc_nonce = 0,
     bc_data = TrainingResult \<lparr>tr_batch_id = sample_batch, tr_ticket = [2]\<rparr>\<rparr>"

theorem broadcast_outcome_witness:
  "\<exists>sm'. apply_message sample_client 7 sample_broadcast busy = Done sm' Applied \<and>
     (\<exists>current. noted sample_client 7 sample_broadcast current busy sm')"
proof -
  have "\<exists>sm'. apply_message sample_client 7 sample_broadcast busy = Done sm' Applied"
    by (simp add: apply_message_def apply_to_round_def refuse_sender_def apply_training_result_def Let_def the_round_def
        busy_def busy_round_def sample_broadcast_def busy_downloads sample_hash distro_result_blob_downloaded_def put_round_def
        sample_training_def fresh_def client_new_def) (simp add: sample_client_def sample_env_def externs.defs)
  then show ?thesis using broadcast_outcome [where V = sample_client and x = 7 and bc = sample_broadcast and sm = busy] by auto
qed

end
