(* ===== verification/Client_Reports.thy ===== *)
theory Client_Reports
  imports Client_Safety
begin

text \<open>
  What a client sends: how many witnesses and reports a run of it holds, who sends them, and how they fare with
  the coordinator of the round.
\<close>

section \<open>Counting reports\<close>

fun is_round_witness :: "('id, 't) client_output \<Rightarrow> bool" where
  "is_round_witness (SendOpportunistic (OppWitness w)) = True"
| "is_round_witness _ = False"

fun is_round_finish :: "('id, 't) client_output \<Rightarrow> bool" where
  "is_round_finish (BroadcastFinished fb) = (\<not> fb_warmup fb)"
| "is_round_finish _ = False"

definition witnesses_sent :: "('id, 't, 'r) step_state_machine \<Rightarrow> nat" where
  "witnesses_sent sm = length (filter is_round_witness (sm_outbox sm))"

definition finishes_sent :: "('id, 't, 'r) step_state_machine \<Rightarrow> nat" where
  "finishes_sent sm = length (filter is_round_finish (sm_outbox sm))"

text \<open>
  A witness or a report still to come counts as sent, every witness sent after the first \<open>z\<close> messages is of an
  elected client, and \<open>P\<close> holds of its proof and of the proof the client holds.
\<close>

definition budget :: "(witness_proof \<Rightarrow> bool) \<Rightarrow> nat \<Rightarrow> nat \<Rightarrow> ('id, 't, 'r) step_state_machine \<Rightarrow> bool" where
  "budget P z n sm \<longleftrightarrow>
     witnesses_sent sm + (if rs_committee_info (sm_current sm) \<noteq> None \<and> \<not> rs_sent_witness (sm_previous sm) then 1 else 0) \<le> n \<and>
     finishes_sent sm + (if rs_committee_info (sm_current sm) \<noteq> None \<and> \<not> rs_sent_finished (sm_current sm) then 1 else 0) \<le> n \<and>
     (\<forall>w. SendOpportunistic (OppWitness w) \<in> set (drop z (sm_outbox sm)) \<longrightarrow>
        \<not> sb_is_false (wp_witness (w_proof w)) \<and> P (w_proof w)) \<and>
     (\<forall>cp wp s. rs_committee_info (sm_current sm) = Some (cp, wp, s) \<longrightarrow> P wp)"

lemma budget_mono: "budget P z n sm \<Longrightarrow> n \<le> m \<Longrightarrow> budget P z m sm"
  by (auto simp: budget_def)

lemma budget_fields [simp]:
  "budget P z n (sm\<lparr>sm_active_step := x\<rparr>) = budget P z n sm" "budget P z n (sm\<lparr>sm_coordinator_state := c\<rparr>) = budget P z n sm"
  by (simp_all add: budget_def witnesses_sent_def finishes_sent_def)

text \<open>An operation that reports nothing and leaves the flags of the two rounds alone.\<close>

definition quiet :: "('id, 't, 'r) step_state_machine \<Rightarrow> ('id, 't, 'r) step_state_machine \<Rightarrow> bool" where
  "quiet sm sm' \<longleftrightarrow>
     (\<exists>ms. sm_outbox sm' = sm_outbox sm @ ms \<and> (\<forall>m \<in> set ms. \<not> is_round_witness m \<and> \<not> is_round_finish m)) \<and>
     rs_committee_info (sm_current sm') = rs_committee_info (sm_current sm) \<and>
     rs_sent_witness (sm_previous sm') = rs_sent_witness (sm_previous sm) \<and>
     rs_sent_finished (sm_current sm') = rs_sent_finished (sm_current sm)"

lemma quiet_same [simp, intro]:
  "sm_outbox sm' = sm_outbox sm \<Longrightarrow> sm_current sm' = sm_current sm \<Longrightarrow> rs_sent_witness (sm_previous sm') = rs_sent_witness (sm_previous sm) \<Longrightarrow>
    quiet sm sm'"
  by (simp add: quiet_def)

lemma quiet_budget:
  assumes "quiet sm sm'" and "budget P z n sm"
  shows "budget P z n sm'"
proof -
  obtain ms where ms: "sm_outbox sm' = sm_outbox sm @ ms" "\<forall>m \<in> set ms. \<not> is_round_witness m \<and> \<not> is_round_finish m"
    using assms(1) by (auto simp: quiet_def)
  then have "filter is_round_witness ms = []" "filter is_round_finish ms = []" by (auto simp: filter_empty_conv)
  moreover have "SendOpportunistic (OppWitness w) \<notin> set ms" for w using ms(2) by force
  ultimately show ?thesis using assms ms(1) by (auto simp: budget_def quiet_def witnesses_sent_def finishes_sent_def dest!: in_set_dropD [of _ _ ms])
qed

lemma put_round_quiet:
  "rs_committee_info rs = rs_committee_info (the_round b sm) \<Longrightarrow> rs_sent_witness rs = rs_sent_witness (the_round b sm) \<Longrightarrow>
    rs_sent_finished rs = rs_sent_finished (the_round b sm) \<Longrightarrow> quiet sm (put_round b rs sm)"
  by (auto simp: quiet_def put_round_def the_round_def)

lemma push_broadcast_quiet: "quiet sm (push_broadcast b x sm)"
  unfolding push_broadcast_def Let_def by (rule put_round_quiet) simp_all

lemma apply_message_quiet:
  assumes "apply_message V x bc sm = Done sm' out"
  shows "quiet sm sm'"
proof -
  have t: "quiet sm sm'" if "apply_training_result V x bc tr b sm = Done sm' out" for tr b
    using that by (auto simp: apply_training_result_def push_broadcast_def quiet_def put_round_def the_round_def Let_def
        split: option.splits if_splits)
  have f: "quiet sm sm'" if "apply_finished V x bc fi b sm = Done sm' out" for fi b
    using that by (auto simp: apply_finished_def push_broadcast_def quiet_def put_round_def the_round_def Let_def split: if_splits)
  show ?thesis using assms t f
    by (auto simp: apply_message_def apply_to_round_def need_Done split: if_splits option.splits broadcast_type.splits)
qed

lemma apply_distro_result_quiet: "quiet sm (apply_distro_result V hash p self sm)"
  by (auto simp: apply_distro_result_def spawn_verify_def Let_def quiet_def put_round_def the_round_def
      split: option.splits payload_state.splits)

lemma witness_budget:
  assumes b: "budget P z n sm" and g: "get_witness_to_send V h (sm_previous sm) (sm_current sm) = Some (w, prev)"
  shows "budget P z n (sm\<lparr>sm_previous := prev\<rparr>)"
    and "w = Some x \<Longrightarrow> budget P z n (emit (SendOpportunistic (OppWitness x)) (sm\<lparr>sm_previous := prev\<rparr>))"
proof -
  show "budget P z n (sm\<lparr>sm_previous := prev\<rparr>)" using g
  proof (cases rule: get_witness_to_send_cases)
    case nothing
    then show ?thesis using b by simp
  next
    case (witness y pf sel m)
    then show ?thesis using b by (simp add: budget_def witnesses_sent_def finishes_sent_def)
  qed
  show "budget P z n (emit (SendOpportunistic (OppWitness x)) (sm\<lparr>sm_previous := prev\<rparr>))" if "w = Some x" using g
  proof (cases rule: get_witness_to_send_cases)
    case nothing
    then show ?thesis using that by simp
  next
    case (witness y pf sel m)
    then have "w_proof x = pf" using that by simp
    then show ?thesis using b witness(1-3,5) by (auto simp: budget_def witnesses_sent_def finishes_sent_def drop_Cons' split: if_splits)
  qed
qed

lemma witness_start_budget:
  assumes b: "budget P z n sm" and st: "witness_start V ou sm = Done sm' ws"
  shows "budget P z n sm'"
proof -
  obtain w prev where g: "get_witness_to_send V (sm_cells sm) (sm_previous sm) (sm_current sm) = Some (w, prev)"
    using st by (auto simp: witness_start_def need_Done split: if_splits)
  show ?thesis using st g witness_budget [OF b g]
    by (cases w) (auto simp: witness_start_def Let_def split: if_splits)
qed

lemma try_send_budget:
  assumes b: "budget P z n sm" and st: "try_send_opportunistic_witness V sm = Done sm' ()"
  shows "budget P z n sm'"
proof -
  have w: "budget P z n sm'" if "witness_early V pf sm = Done sm' ()" "rs_committee_info (sm_current sm) \<noteq> None" for pf
  proof -
    have f: "budget P z n (emit (BroadcastFinished fb) sm\<lparr>sm_current := (sm_current sm)\<lparr>rs_sent_finished := True\<rparr>\<rparr>)"
      if "\<not> rs_sent_finished (sm_current sm)" for fb
      using that b \<open>rs_committee_info (sm_current sm) \<noteq> None\<close> by (auto simp: budget_def witnesses_sent_def finishes_sent_def drop_Cons' split: if_splits)
    have w: "budget P z n sm'" if "get_witness_to_send V (sm_cells sm) (sm_previous sm) (sm_current sm) = Some (w, prev)"
      "(case w of None \<Rightarrow> Done (sm\<lparr>sm_previous := prev\<rparr>) () | Some w \<Rightarrow>
         if sm_open (sm\<lparr>sm_previous := prev\<rparr>) ChWitness then Done (emit (SendOpportunistic (OppWitness w)) (sm\<lparr>sm_previous := prev\<rparr>)) ()
         else Fail (sm\<lparr>sm_previous := prev\<rparr>) OwSend) = Done sm' ()" for w prev
      using that(2) witness_budget [OF b that(1)] by (cases w) (auto split: if_splits)
    show ?thesis using that(1) b f w
      by (simp add: witness_early_def need_Done Let_def split: if_splits prod.splits) (auto dest!: send_finished_Done)
  qed
  have u: "quiet sm sm'" if "warmup_early V sm = Done sm' ()"
    using that by (auto simp: warmup_early_def need_Done Let_def quiet_def dest!: send_finished_Done split: if_splits option.splits)
  show ?thesis using st b w quiet_budget [OF u b]
    by (auto simp: try_send_opportunistic_witness_def split: option.splits active_step.splits if_splits)
qed

lemma apply_results_quiet:
  assumes "apply_results c sm = Done sm' job"
  shows "quiet sm sm'"
proof (cases "rs_height (sm_current sm) = 0")
  case True
  then show ?thesis using assms by (simp add: apply_results_def)
next
  case False
  obtain a h where "alloc_cells None None (sm_cells sm) = (a, h)" by (cases "alloc_cells None None (sm_cells sm)")
  then show ?thesis by (rule apply_results_Done [OF assms False]) simp
qed

lemma health_checks_quiet: "start_sending_health_checks V c sm = Done sm' r \<Longrightarrow> quiet sm sm'"
  by (auto simp: start_sending_health_checks_def quiet_def split: if_splits option.splits)

lemma enter_round_fields:
  assumes "enter_round V i c ou r sm = Done sm' ()"
  shows "\<exists>h rs. sm' = sm\<lparr>sm_cells := h, sm_previous := sm_current sm, sm_current := rs\<rparr>"
proof -
  obtain blank h where f: "round_state_new (sm_cells sm) = (blank, h)" by (cases "round_state_new (sm_cells sm)")
  let ?sel = "committee_selection_new (ce_node V) (ucast (r_tie_breaker_tasks r)) (ucast (witness_nodes (co_config c)))
      (verification_percent (co_config c)) (of_nat (length (co_clients c))) (r_random_seed r)"
  obtain v where v: "?sel = Some v" using assms f by (auto simp: enter_round_def need_Done)
  then obtain s where "?sel = Some (Inr s)" using assms f by (cases v) (auto simp: enter_round_def)
  then show ?thesis by (rule enter_round_Done [OF assms _ f]) blast
qed

lemma training_start_budget:
  assumes b: "budget P z n sm" and st: "training_start V i c ou sm = Done sm' ts" and P: "\<And>p. P p"
  shows "budget P z (Suc n) sm'"
proof -
  obtain sm1 sm2 hc r where a: "apply_results c sm = Done sm1 (ts_apply ts)" and h: "start_sending_health_checks V c sm1 = Done sm2 hc"
    and en: "enter_round V i c ou r sm2 = Done sm' ()" by (rule training_start_Done [OF st])
  have "budget P z n sm2" using quiet_budget [OF health_checks_quiet [OF h] quiet_budget [OF apply_results_quiet [OF a] b]] .
  then show ?thesis using enter_round_fields [OF en] P by (auto simp: budget_def witnesses_sent_def finishes_sent_def)
qed

lemma training_finish_cells: "training_finish V ou ts sm = Done sm' () \<Longrightarrow> \<exists>h. sm' = sm\<lparr>sm_cells := h\<rparr>"
  by (cases "apply_run V (ts_apply ts) (sm_cells sm)")
     (auto simp: training_finish_def Let_def split: option.splits sum.splits apply_job.splits)

lemma warmup_start_budget: "budget P z n sm \<Longrightarrow> budget P z n (warmup_start sm)"
  by (auto simp: budget_def witnesses_sent_def finishes_sent_def)

lemma apply_state_budget:
  assumes b: "budget P z n sm" and st: "apply_state V c ou sm = Done sm' ()"
    and P: "\<And>p. enters_round V sm (StateSeen c ou) \<Longrightarrow> P p"
  shows "budget P z (n + (if enters_round V sm (StateSeen c ou) then 1 else 0)) sm'"
proof -
  have any: "budget P z n (sm\<lparr>sm_active_step := x\<rparr>)" for x using b by simp
  have fin: "budget P z n y" if "training_finish V ou ts (set_step Intermediate sm) = Done y ()" for ts y
    using training_finish_cells [OF that] quiet_budget [OF _ any, of Intermediate y] by auto
  have start: "budget P z (Suc n) y" if "start_training V i c ou x = Done y step" "budget P z n x" "\<And>p. P p" for i x y step
    using that training_start_budget [of P z] by (auto simp: start_training_def and_then_Done)
  show ?thesis
  proof (cases "my_position V (sm_identity sm) (co_clients c)")
    case None
    then obtain y step where l: "leave_step V ou (sm_active_step sm) (set_step Intermediate sm) = Done y step" "sm' = set_step step y"
      using st by (auto simp: apply_state_def Let_def and_then_Done)
    have "budget P z n y" using l(1) by (cases rule: leave_step_cases) (auto intro: b fin warmup_start_budget warmup_start_budget [OF any])
    then show ?thesis using l(2) None by simp
  next
    case (Some i)
    then obtain y step where l: "next_step V i c ou (sm_active_step sm) (set_step Intermediate sm) = Done y step"
      "sm' = (set_step step y)\<lparr>sm_coordinator_state := c\<rparr>"
      using st by (auto simp: apply_state_def Let_def and_then_Done)
    have "budget P z (n + (if enters_round V sm (StateSeen c ou) then 1 else 0)) y" using l(1)
    proof (cases rule: next_step_cases)
      case first
      have "budget P z n ((set_step Intermediate sm)\<lparr>sm_sent_warmup_finished := False, sm_sent_warmup_witness := False\<rparr>)"
        using b by (simp add: budget_def witnesses_sent_def finishes_sent_def)
      then show ?thesis using start [OF first(3) _ P] first Some by simp
    next
      case (witness ts sm1 ws)
      then show ?thesis using witness_start_budget [OF fin] budget_mono by fastforce
    next
      case (again ws)
      then show ?thesis using start [OF again(3) any P] again Some by simp
    next
      case rest
      then show ?thesis using warmup_start_budget [OF any] by auto
    qed (use b budget_mono [OF b, of "Suc n"] in auto)
    then show ?thesis using l(2) by simp
  qed
qed

lemma client_step_budget:
  assumes "client_step V sm ev sm'" and b: "budget P z n sm" and P: "\<And>p. enters_round V sm ev \<Longrightarrow> P p"
  shows "budget P z (n + (if enters_round V sm ev then 1 else 0)) sm'"
  using assms(1)
proof cases
  case (broadcast x bc out)
  then show ?thesis using quiet_budget [OF apply_message_quiet b] by simp
next
  case (payload hash p self)
  then show ?thesis using quiet_budget [OF apply_distro_result_quiet b] by simp
next
  case (state c ou)
  then show ?thesis using apply_state_budget [OF b, of V c ou sm'] P by simp
next
  case interval
  then show ?thesis using try_send_budget [OF b] by simp
next
  case (task i)
  then have "quiet sm sm'" by (auto simp: run_task_def bind_eq_Some_conv)
  then show ?thesis using quiet_budget [OF _ b] task by simp
next
  case (deserialized k crashed)
  then have "quiet sm sm'" by (auto simp: finish_deserialize_def split: deserialize_task.splits)
  then show ?thesis using quiet_budget [OF _ b] deserialized by simp
next
  case (applying ts job h)
  then have "quiet sm sm'" by simp
  then show ?thesis using quiet_budget [OF _ b] applying by simp
next
  case (trained ts)
  then have "quiet sm sm'" by simp
  then show ?thesis using quiet_budget [OF _ b] trained by simp
qed

lemma client_run_budget:
  "client_run V sm evs n sm' \<Longrightarrow> budget P z k sm \<Longrightarrow> n = 0 \<or> (\<forall>p. P p) \<Longrightarrow> budget P z (k + n) sm'"
proof (induction rule: client_run.induct)
  case (more evs n sm' ev sm'')
  then have "budget P z (k + n) sm'" by auto
  moreover have "P p" if "enters_round V sm' ev" for p using more.prems(2) that by simp
  ultimately show ?case using client_step_budget [OF more(2)] by (metis (no_types, lifting) add.assoc)
qed simp

section \<open>Reports and the coordinator\<close>

lemma apply_state_enters:
  assumes c: "state_ok V c" and st: "apply_state V c ou sm = Done sm' ()" and e: "enters_round V sm (StateSeen c ou)"
  shows "\<exists>i r s. my_position V (sm_identity sm) (co_clients c) = Some i \<and> from_coordinator (ce_node V) c 0 = Some (Inr s) \<and>
    entered V (of_nat i) c r s (sm_current sm')"
proof -
  have t: "co_run_state c = RoundTrain" and nt: "\<not> is_training (sm_active_step sm)" using e by auto
  obtain i where i: "my_position V (sm_identity sm) (co_clients c) = Some i" using e by auto
  then obtain y step where n: "next_step V i c ou (sm_active_step sm) (set_step Intermediate sm) = Done y step"
    and sm': "sm' = (set_step step y)\<lparr>sm_coordinator_state := c\<rparr>"
    using st by (auto simp: apply_state_def Let_def and_then_Done)
  have "\<exists>x. start_training V i c ou x = Done y step" using n
  proof (cases rule: next_step_cases)
    case stay
    then show ?thesis using t nt by (cases "sm_active_step sm") auto
  qed (use t in auto)
  then obtain x ts where ts: "training_start V (of_nat i) c ou x = Done y ts" by (auto simp: start_training_def and_then_Done)
  obtain sm1 sm2 hc r where r: "Coordinator_Types.current_round c = Some r" and en: "enter_round V (of_nat i) c ou r sm2 = Done y ()"
    by (rule training_start_Done [OF ts])
  obtain s where s: "from_coordinator (ce_node V) c 0 = Some (Inr s)"
    using training_selection [of "ce_node V" c] t c by (auto simp: state_ok_def)
  obtain blank h where f: "round_state_new (sm_cells sm2) = (blank, h)" by (cases "round_state_new (sm_cells sm2)")
  have "entered V (of_nat i) c r s (sm_current y)"
    by (rule enter_round_Done [OF en _ f]) (use round_selection [OF c _ r] t s in auto)
  then show ?thesis using i s sm' by auto
qed

text \<open>The proof a member computed is the one the coordinator verifies.\<close>

lemma entered_proof_verifies:
  assumes "entered V (of_nat i) c r s rs" and "rs_committee_info rs = Some (cp, wp, s')"
    and "my_position V x (co_clients c) = Some i" and "length (co_clients c) \<le> 2 ^ 16"
  shows "verify_witness_for_client (ce_node V) s x wp (co_clients c) = Some True"
proof -
  have wp: "get_witness (ce_node V) s (of_nat i) = Some wp" using assms(1,2) by (auto simp: entered_def)
  have p: "i < length (co_clients c)" "ce_eq V (cl_id (co_clients c ! i)) x"
    using assms(3) position_where_Some by (auto simp: my_position_def)
  have "unat (of_nat i :: u64) = i" using p(1) assms(4) by (intro unat_of_nat_small) simp
  then have "verify_client (ce_node V) x (of_nat i) (co_clients c)" using p by (simp add: verify_client_def nth_opt_def)
  then show ?thesis using wp by (auto simp: verify_witness_for_client_def verify_witness_def get_witness_def bind_eq_Some_conv)
qed

lemma entered_witness_proof:
  assumes run: "client_run V sm evs 0 sm'" and "rs_committee_info (sm_current sm) = Some (cp, wp, s)"
    and "SendOpportunistic (OppWitness w) \<in> set (drop (length (sm_outbox sm)) (sm_outbox sm'))"
  shows "w_proof w = wp" and "\<not> sb_is_false (wp_witness wp)"
proof -
  let ?n = "witnesses_sent sm + finishes_sent sm + 1"
  have "budget (\<lambda>p. p = wp) (length (sm_outbox sm)) ?n sm" using assms(2) by (auto simp: budget_def)
  from client_run_budget [OF run this] have "budget (\<lambda>p. p = wp) (length (sm_outbox sm)) (?n + 0) sm'" by simp
  then show "w_proof w = wp" "\<not> sb_is_false (wp_witness wp)" using assms(3) by (auto simp: budget_def)
qed

section \<open>Properties\<close>

text \<open>
  A client reports at most once per round. However its events are ordered and repeated, a client that has
  entered \<open>n\<close> rounds has sent at most \<open>n\<close> witnesses, early or at the end of a round, and at most \<open>n\<close> reports
  to have finished a round, and it sends a witness only when it is elected.
\<close>

theorem reports_once_per_round:
  assumes "client_run V (step_state_machine_new i c op) evs n sm"
  shows "witnesses_sent sm \<le> n \<and> finishes_sent sm \<le> n \<and>
    (\<forall>w. SendOpportunistic (OppWitness w) \<in> set (sm_outbox sm) \<longrightarrow> \<not> sb_is_false (wp_witness (w_proof w)))"
proof -
  have "budget (\<lambda>_. True) 0 0 (step_state_machine_new i c op)" by (simp add: budget_def witnesses_sent_def finishes_sent_def)
  from client_run_budget [OF assms this] show ?thesis by (auto simp: budget_def)
qed

lemma sample_enters:
  obtains sm where "apply_state sample_client sample_training sample_outside sample_start = Done sm ()"
    and "client_run sample_client sample_start [StateSeen sample_training sample_outside] 1 sm"
proof -
  obtain sm where sm: "apply_state sample_client sample_training sample_outside sample_start = Done sm ()"
    using member_enters_round [OF sample_env_ok sample_state_ok sample_start_facts(1,2) _ _ _ sample_start_facts(4-7),
        of sample_start 0] sample_start_facts(3) by auto
  have "enters_round sample_client sample_start (StateSeen sample_training sample_outside)"
    using sample_start_facts(1,3) by simp
  then show ?thesis using that [OF sm] client_run.more [OF client_run.start client_step.state [OF sm]] by simp
qed

theorem reports_once_per_round_witness:
  "\<exists>sm. client_run sample_client sample_start [StateSeen sample_training sample_outside] 1 sm \<and> witnesses_sent sm \<le> 1"
proof -
  obtain sm where "client_run sample_client sample_start [StateSeen sample_training sample_outside] 1 sm" by (rule sample_enters)
  then show ?thesis using reports_once_per_round [of sample_client 7 sample_training "\<lambda>_. True" _ 1 sm] by auto
qed

text \<open>
  C10. Client and coordinator agree on who witnesses. A witness that a client sends, early or at the end of the
  round, after it entered a round and before it enters another, is never refused as invalid by the coordinator of
  that round: as long as the members and the selection are those the client entered on, the coordinator
  records it as sent, or has recorded one of this client before.
\<close>

theorem witness_of_client_accepted:
  assumes "env_ok (ce_node V)" and "state_ok V c" and "apply_state V c ou sm = Done sm\<^sub>0 ()"
    and "enters_round V sm (StateSeen c ou)" and "client_run V sm\<^sub>0 evs 0 sm'"
    and "SendOpportunistic (OppWitness w) \<in> set (drop (length (sm_outbox sm\<^sub>0)) (sm_outbox sm'))"
    and "state_ok V c'" and "co_run_state c' \<in> {RoundTrain, RoundWitness}" and "co_clients c' = co_clients c"
    and "from_coordinator (ce_node V) c' 0 = from_coordinator (ce_node V) c 0"
  shows "witness (ce_node V) (sm_identity sm) w t c' = Fail c' DuplicateWitness \<or>
    (\<exists>r c''. Coordinator_Types.current_round c' = Some r \<and> witness (ce_node V) (sm_identity sm) w t c' = Done c'' () \<and>
       Coordinator_Types.current_round c'' = Some (r\<lparr>r_witnesses := r_witnesses r @ [w]\<rparr>))"
proof -
  obtain i r s where i: "my_position V (sm_identity sm) (co_clients c) = Some i"
    and s: "from_coordinator (ce_node V) c 0 = Some (Inr s)" and en: "entered V (of_nat i) c r s (sm_current sm\<^sub>0)"
    using apply_state_enters [OF assms(2-4)] by blast
  obtain cp wp where ci: "rs_committee_info (sm_current sm\<^sub>0) = Some (cp, wp, s)" using en by (auto simp: entered_def)
  note w = entered_witness_proof [OF assms(5) ci assms(6)]
  have p: "co_inv (ce_node V) c'" "verification_percent (co_config c') \<le> 100" using assms(7) by (auto simp: state_ok_def)
  have "length (co_clients c) \<le> 2 ^ 16" using clients_small [OF co_inv_parts(3) [OF p(1)]] assms(9) by simp
  note v = entered_proof_verifies [OF en ci i this]
  have "witness (ce_node V) (sm_identity sm) w t c' \<noteq> Fail c' InvalidWitness"
  proof
    assume "witness (ce_node V) (sm_identity sm) w t c' = Fail c' InvalidWitness"
    then show False using assms(8-10) s v w
      by (auto simp: witness_def halted_def need_Fail push_witness_def and_then_Fail split: if_splits option.splits)
  qed
  then show ?thesis using witness_returns [OF env_parts(1) [OF assms(1)] p(1) assms(8) p(2), of "sm_identity sm" w t] by auto
qed

lemma first_round_step:
  assumes st: "apply_state V c ou sm = Done sm' ()" and w: "sm_active_step sm = WarmupActive" "rs_height (sm_current sm) = 0"
    and c: "co_run_state c = RoundTrain" "my_position V (sm_identity sm) (co_clients c) = Some i"
  shows "\<exists>ts. sm_active_step sm' = TrainingActive ts \<and> ts_apply ts = ApplySkipped \<and> ts_sending_health_checks ts = None \<and>
    sm_identity sm' = sm_identity sm \<and> sm_open sm' = sm_open sm \<and> sm_previous sm' = sm_current sm"
proof -
  obtain y step where n: "next_step V i c ou WarmupActive (set_step Intermediate sm) = Done y step"
    and sm': "sm' = (set_step step y)\<lparr>sm_coordinator_state := c\<rparr>"
    using st w(1) c(2) by (auto simp: apply_state_def Let_def and_then_Done)
  from n obtain x ts where ts: "training_start V (of_nat i) c ou x = Done y ts" "step = TrainingActive ts"
    and x: "sm_current x = sm_current sm" "sm_identity x = sm_identity sm" "sm_open x = sm_open sm"
    by (cases rule: next_step_cases) (use c(1) in \<open>auto simp: start_training_def and_then_Done\<close>)
  obtain sm1 sm2 hc r where "apply_results c x = Done sm1 (ts_apply ts)" "start_sending_health_checks V c sm1 = Done sm2 hc"
    "enter_round V (of_nat i) c ou r sm2 = Done y ()" "ts_sending_health_checks ts = hc"
    by (rule training_start_Done [OF ts(1)]) (metis training_step.select_convs(1))
  moreover from this have "ts_apply ts = ApplySkipped" "sm1 = x" "hc = None" "sm2 = x" using x w(2)
    by (auto simp: apply_results_def start_sending_health_checks_def)
  ultimately show ?thesis using ts(2) sm' x enter_round_fields by fastforce
qed

lemma sample_elected:
  assumes "entered sample_client (of_nat 0) sample_training r s rs" and "from_coordinator (ce_node sample_client) sample_training 0 = Some (Inr s)"
  obtains cp wp where "rs_committee_info rs = Some (cp, wp, s)" and "\<not> sb_is_false (wp_witness wp)"
proof -
  obtain cp wp where ci: "rs_committee_info rs = Some (cp, wp, s)" "get_witness (ce_node sample_client) s 0 = Some wp"
    using assms(1) by (auto simp: entered_def)
  have n: "unat (cs_total_nodes s) = 2" "unat (cs_witness_nodes s) = 2"
    using from_coordinator_ok [OF assms(2)] sample_round by (auto simp: sample_training_def fresh_def sample_config_def)
  then have "\<exists>k. cs_shuffled_index (ce_node sample_client) s 0 WITNESS_SALT = Some k \<and> k < cs_total_nodes s"
    using cs_shuffled_index_inj(3) [OF env_parts(1) [OF sample_env_ok], of s 0] by (simp add: word_less_nat_alt)
  then have "\<not> sb_is_false (wp_witness wp)" using ci(2) n
    by (auto simp: get_witness_def get_witness_from_position_def word_less_nat_alt unat_eq_zero [symmetric])
  then show ?thesis using ci(1) by (intro that)
qed

abbreviation sample_witnessing :: "nat coordinator" where
  "sample_witnessing \<equiv> sample_training\<lparr>co_run_state := RoundWitness\<rparr>"

lemma sample_sends:
  assumes st: "apply_state sample_client sample_training sample_outside sample_start = Done sm ()"
  obtains sm' w where "client_run sample_client sm [StateSeen sample_witnessing sample_outside] 0 sm'"
    and "sm_outbox sm' = sm_outbox sm @ [SendOpportunistic (OppWitness w)]"
proof -
  have m: "my_position sample_client (sm_identity sample_start) (co_clients sample_training) = Some 0"
    using sample_start_facts(3) by simp
  have op: "sm_open sample_start = (\<lambda>_. True)" "\<not> rs_sent_witness (sm_current sample_start)" "rs_broadcasts (sm_current sample_start) = []"
    by (simp_all add: step_state_machine_new_def warmup_start_def round_state_new_def Let_def split: prod.splits)
  obtain ts where a: "sm_active_step sm = TrainingActive ts" "ts_apply ts = ApplySkipped" "ts_sending_health_checks ts = None"
    and f: "sm_identity sm = 7" "sm_open sm = (\<lambda>_. True)" "sm_previous sm = sm_current sample_start"
    using first_round_step [OF st new_machine_fields(1,3) sample_start_facts(1) m] op(1) by auto
  obtain r s where "from_coordinator (ce_node sample_client) sample_training 0 = Some (Inr s)"
    "entered sample_client (of_nat 0) sample_training r s (sm_current sm)"
    using apply_state_enters [OF sample_state_ok st] sample_start_facts(1,3) by auto
  then obtain cp wp where ci: "rs_committee_info (sm_current sm) = Some (cp, wp, s)" "\<not> sb_is_false (wp_witness wp)"
    using sample_elected by blast
  have p: "\<not> rs_sent_witness (sm_previous sm)" "rs_broadcasts (sm_previous sm) = []" using f(3) op by simp_all
  obtain w where w: "get_witness_to_send sample_client (sm_cells sm) (sm_previous sm) (sm_current sm) =
      Some (Some w, (sm_previous sm)\<lparr>rs_sent_witness := True\<rparr>)"
    using ci p busy_root
    by (cases "unwrap_or (hp_blooms (sm_cells sm) (rs_blooms (sm_previous sm))) (DEFAULT_WITNESS_BLOOM, DEFAULT_WITNESS_BLOOM)")
       (simp add: get_witness_to_send_def)
  let ?sm = "(set_step (WitnessActive \<lparr>ws_sending_witness = Some (Inr ())\<rparr>) (emit (SendOpportunistic (OppWitness w))
    (sm\<lparr>sm_previous := (sm_previous sm)\<lparr>rs_sent_witness := True\<rparr>\<rparr>)))\<lparr>sm_coordinator_state := sample_witnessing\<rparr>"
  have "co_clients sample_witnessing = co_clients sample_training" by simp
  then have "apply_state sample_client sample_witnessing sample_outside sm = Done ?sm ()"
    using a f(1,2) w sample_start_facts(3)
    by (simp add: apply_state_def next_step_def training_finish_def apply_run.simps witness_start_def sample_outside_def)
  then have "client_run sample_client sm [StateSeen sample_witnessing sample_outside] 0 ?sm"
    by (intro client_run_one client_step.state) simp_all
  then show ?thesis by (rule that) simp
qed

theorem witness_of_client_accepted_witness:
  "\<exists>w c. witness (ce_node sample_client) 7 w 40 sample_training = Fail sample_training DuplicateWitness \<or>
     witness (ce_node sample_client) 7 w 40 sample_training = Done c ()"
proof -
  obtain sm where st: "apply_state sample_client sample_training sample_outside sample_start = Done sm ()" by (rule sample_enters)
  obtain sm' w where r: "client_run sample_client sm [StateSeen sample_witnessing sample_outside] 0 sm'"
    and o: "sm_outbox sm' = sm_outbox sm @ [SendOpportunistic (OppWitness w)]" by (rule sample_sends [OF st])
  have e: "enters_round sample_client sample_start (StateSeen sample_training sample_outside)"
    using sample_start_facts(1,3) by simp
  show ?thesis
    using witness_of_client_accepted [OF sample_env_ok sample_state_ok st e r _ sample_state_ok _ refl refl, of w 40] o
      sample_start_facts(1) by auto
qed

end
