(* ===== verification/Barrier.thy ===== *)
theory Barrier
  imports Psyche_Prelude
begin

text \<open>
  The barrier the trainers of a client meet at (\<open>src/shared/core/src/cancellable_barrier.rs\<close>). A thread runs
  alone while it holds the mutex, so \<open>wait\<close> is cut where it releases it: at \<open>condvar.wait\<close>. A blocked thread
  goes on only after it was notified or woke up without a reason, and then checks the condition of its loop
  again. \<open>usize\<close> has 64 bits; the generation wraps around.
\<close>

section \<open>State\<close>

record barrier_state =
  bs_count :: u64
  bs_total :: u64
  bs_generation :: u64
  bs_cancelled :: bool

text \<open>Where a thread is, with the generation it saw on entering \<open>wait\<close>.\<close>

datatype wait_status = Elsewhere | Parked u64 | Awake u64

text \<open>What has happened: an arrival, a return with \<open>Ok\<close>, a return with \<open>CancelledBarrier\<close>.\<close>

datatype barrier_log = Arrived nat u64 | Passed nat u64 | Refused nat

record barrier_world =
  bw_state :: barrier_state
  bw_threads :: "nat \<Rightarrow> wait_status"
  bw_log :: "barrier_log list"

section \<open>Operations\<close>

text \<open>\<open>None\<close> is the failed assertion.\<close>

definition barrier_new :: "u64 \<Rightarrow> barrier_state option" where
  "barrier_new n =
     (if n = 0 then None
      else Some \<lparr>bs_count = 0, bs_total = n, bs_generation = 0, bs_cancelled = False\<rparr>)"

definition wake :: "wait_status \<Rightarrow> wait_status" where
  "wake s = (case s of Parked g \<Rightarrow> Awake g | _ \<Rightarrow> s)"

definition notify_all :: "barrier_world \<Rightarrow> barrier_world" where
  "notify_all w = w\<lparr>bw_threads := (\<lambda>t. wake (bw_threads w t))\<rparr>"

definition keep_waiting :: "u64 \<Rightarrow> barrier_state \<Rightarrow> bool" where
  "keep_waiting generation st \<longleftrightarrow>
     bs_count st < bs_total st \<and> bs_generation st = generation \<and> \<not> bs_cancelled st"

definition return_from :: "nat \<Rightarrow> barrier_log \<Rightarrow> barrier_world \<Rightarrow> barrier_world" where
  "return_from t l w = w\<lparr>bw_threads := (bw_threads w)(t := Elsewhere), bw_log := bw_log w @ [l]\<rparr>"

text \<open>The loop condition, at its first check and after every wake-up.\<close>

definition wait_loop :: "nat \<Rightarrow> u64 \<Rightarrow> barrier_world \<Rightarrow> barrier_world" where
  "wait_loop t generation w =
     (if keep_waiting generation (bw_state w) then w\<lparr>bw_threads := (bw_threads w)(t := Parked generation)\<rparr>
      else if bs_cancelled (bw_state w) then return_from t (Refused t) w
      else return_from t (Passed t generation) w)"

definition barrier_wait :: "nat \<Rightarrow> barrier_world \<Rightarrow> barrier_world" where
  "barrier_wait t w =
     (let st = bw_state w
      in if bs_cancelled st then return_from t (Refused t) w
         else let generation = bs_generation st;
                  st = st\<lparr>bs_count := bs_count st + 1\<rparr>;
                  w = w\<lparr>bw_state := st, bw_log := bw_log w @ [Arrived t generation]\<rparr>
              in if bs_count st < bs_total st then wait_loop t generation w
                 else return_from t (Passed t generation)
                        (notify_all (w\<lparr>bw_state := st\<lparr>bs_count := 0, bs_generation := bs_generation st + 1\<rparr>\<rparr>)))"

definition barrier_cancel :: "barrier_world \<Rightarrow> barrier_world" where
  "barrier_cancel w = notify_all (w\<lparr>bw_state := (bw_state w)\<lparr>bs_cancelled := True\<rparr>\<rparr>)"

definition barrier_reset :: "barrier_world \<Rightarrow> barrier_world" where
  "barrier_reset w =
     (let st = bw_state w
      in w\<lparr>bw_state := st\<lparr>bs_cancelled := False, bs_count := 0, bs_generation := bs_generation st + 1\<rparr>\<rparr>)"

definition is_cancelled :: "barrier_world \<Rightarrow> bool" where
  "is_cancelled w = bs_cancelled (bw_state w)"

section \<open>Interleavings\<close>

datatype barrier_event = Enter nat | Resume nat | Spurious nat | Cancel | Reset

inductive barrier_step :: "barrier_world \<Rightarrow> barrier_event \<Rightarrow> barrier_world \<Rightarrow> bool" where
  enter: "bw_threads w t = Elsewhere \<Longrightarrow> barrier_step w (Enter t) (barrier_wait t w)"
| resume: "bw_threads w t = Awake g \<Longrightarrow> barrier_step w (Resume t) (wait_loop t g w)"
| spurious: "bw_threads w t = Parked g \<Longrightarrow>
    barrier_step w (Spurious t) (w\<lparr>bw_threads := (bw_threads w)(t := Awake g)\<rparr>)"
| cancel: "barrier_step w Cancel (barrier_cancel w)"
| reset: "barrier_step w Reset (barrier_reset w)"

inductive_cases barrier_stepE: "barrier_step w ev w'"

inductive barrier_run :: "barrier_world \<Rightarrow> barrier_event list \<Rightarrow> barrier_world \<Rightarrow> bool" for w where
  start: "barrier_run w [] w"
| more: "barrier_run w evs w' \<Longrightarrow> barrier_step w' ev w'' \<Longrightarrow> barrier_run w (evs @ [ev]) w''"

definition barrier_start :: "barrier_state \<Rightarrow> barrier_world" where
  "barrier_start st = \<lparr>bw_state = st, bw_threads = (\<lambda>_. Elsewhere), bw_log = []\<rparr>"

definition arrivals :: "u64 \<Rightarrow> barrier_log list \<Rightarrow> nat set" where
  "arrivals g log = {t. Arrived t g \<in> set log}"

section \<open>The invariant of a barrier that is not reset\<close>

text \<open>
  Arrivals are counted per generation: those of a finished one are complete, those of the current one are the
  count. A thread that arrived in the current generation is still inside, and a blocked thread has a reason to be.
\<close>

definition barrier_books :: "u64 \<Rightarrow> barrier_state \<Rightarrow> barrier_log list \<Rightarrow> bool" where
  "barrier_books n st log \<longleftrightarrow>
     bs_total st = n \<and> bs_count st < n \<and>
     (\<forall>g. finite (arrivals g log) \<and> (g < bs_generation st \<longrightarrow> card (arrivals g log) = unat n) \<and>
        (bs_generation st < g \<longrightarrow> arrivals g log = {})) \<and>
     card (arrivals (bs_generation st) log) = unat (bs_count st) \<and>
     (\<forall>t g. Passed t g \<in> set log \<longrightarrow> g < bs_generation st)"

definition barrier_threads :: "barrier_state \<Rightarrow> (nat \<Rightarrow> wait_status) \<Rightarrow> barrier_log list \<Rightarrow> bool" where
  "barrier_threads st th log \<longleftrightarrow>
     (\<forall>t \<in> arrivals (bs_generation st) log. \<not> bs_cancelled st \<longrightarrow> th t \<in> {Parked (bs_generation st), Awake (bs_generation st)}) \<and>
     (\<forall>t g. th t = Parked g \<or> th t = Awake g \<longrightarrow> g \<le> bs_generation st) \<and>
     (\<forall>t g. th t = Parked g \<longrightarrow> keep_waiting g st)"

definition barrier_inv :: "u64 \<Rightarrow> barrier_world \<Rightarrow> bool" where
  "barrier_inv n w \<longleftrightarrow> barrier_books n (bw_state w) (bw_log w) \<and> barrier_threads (bw_state w) (bw_threads w) (bw_log w)"

lemma wake_simps [simp]: "wake Elsewhere = Elsewhere" "wake (Parked g) = Awake g" "wake (Awake g) = Awake g"
  by (simp_all add: wake_def)

lemma wake_cases [simp]: "wake s \<noteq> Parked g" "wake s = Awake g \<longleftrightarrow> s = Parked g \<or> s = Awake g"
  by (cases s; simp)+

lemma world_fields [simp]:
  "bw_state (notify_all w) = bw_state w" "bw_log (notify_all w) = bw_log w" "bw_state (return_from t l w) = bw_state w"
  "bw_log (return_from t l w) = bw_log w @ [l]" "bw_threads (notify_all w) = wake \<circ> bw_threads w"
  "bw_threads (return_from t l w) = (bw_threads w)(t := Elsewhere)"
  by (simp_all add: notify_all_def return_from_def fun_eq_iff)

lemma arrivals_simps [simp]:
  "arrivals g [] = {}" "arrivals g (xs @ ys) = arrivals g xs \<union> arrivals g ys" "arrivals g (Passed t h # xs) = arrivals g xs"
  "arrivals g (Refused t # xs) = arrivals g xs"
  "arrivals g (Arrived t h # xs) = (if g = h then insert t (arrivals g xs) else arrivals g xs)"
  by (auto simp: arrivals_def)

lemma books_returned:
  "barrier_books n st log \<Longrightarrow> barrier_books n st (log @ [Refused t])"
  "barrier_books n st log \<Longrightarrow> g < bs_generation st \<Longrightarrow> barrier_books n st (log @ [Passed t g])"
  by (auto simp: barrier_books_def)

lemma books_cancelled: "barrier_books n st log \<Longrightarrow> barrier_books n (st\<lparr>bs_cancelled := c\<rparr>) log"
  by (simp add: barrier_books_def)

lemma cancel_inv: "barrier_inv n w \<Longrightarrow> barrier_inv n (barrier_cancel w)"
  by (auto simp: barrier_inv_def barrier_cancel_def books_cancelled barrier_threads_def)

lemma spurious_inv:
  assumes "barrier_inv n w" and "bw_threads w t = Parked g"
  shows "barrier_inv n (w\<lparr>bw_threads := (bw_threads w)(t := Awake g)\<rparr>)"
  using assms by (auto simp: barrier_inv_def barrier_threads_def)

lemma resume_barrier_inv:
  assumes inv: "barrier_inv n w" and t: "bw_threads w t = Awake g"
  shows "barrier_inv n (wait_loop t g w)"
proof -
  let ?st = "bw_state w"
  have th: "barrier_threads ?st (bw_threads w) (bw_log w)" and bo: "barrier_books n ?st (bw_log w)"
    using inv by (simp_all add: barrier_inv_def)
  consider (keep) "keep_waiting g ?st" | (refused) "bs_cancelled ?st" | (passed) "\<not> bs_cancelled ?st" "g < bs_generation ?st"
    using th bo t by (fastforce simp: keep_waiting_def barrier_threads_def barrier_books_def)
  then show ?thesis
  proof cases
    case keep
    then show ?thesis using th bo t by (auto simp: wait_loop_def barrier_inv_def barrier_threads_def)
  next
    case refused
    then show ?thesis using th bo books_returned(1) [OF bo]
      by (auto simp: wait_loop_def keep_waiting_def barrier_inv_def barrier_threads_def)
  next
    case passed
    then have "t \<notin> arrivals (bs_generation ?st) (bw_log w)" using th t by (auto simp: barrier_threads_def)
    then show ?thesis using passed th books_returned(2) [OF bo passed(2), of t]
      by (auto simp: wait_loop_def keep_waiting_def barrier_inv_def barrier_threads_def)
  qed
qed

lemma unat_suc: "x < y \<Longrightarrow> unat (x + 1 :: u64) = Suc (unat x)"
proof -
  assume "x < y"
  then have "Suc (unat x) < 2 ^ 64" using unat_less_pow [of y] by (simp add: word_less_nat_alt)
  then show ?thesis by (simp add: unat_word_ariths)
qed

lemma enter_inv:
  assumes inv: "barrier_inv n w" and t: "bw_threads w t = Elsewhere" and few: "bs_generation (bw_state w) \<noteq> - 1"
  shows "barrier_inv n (barrier_wait t w)"
proof (cases "bs_cancelled (bw_state w)")
  case True
  then show ?thesis using inv books_returned(1)
    by (auto simp: barrier_wait_def Let_def barrier_inv_def barrier_threads_def)
next
  case False
  let ?st = "bw_state w" and ?log = "bw_log w" and ?g = "bs_generation (bw_state w)"
  have th: "barrier_threads ?st (bw_threads w) ?log" and bo: "barrier_books n ?st ?log"
    using inv by (simp_all add: barrier_inv_def)
  have new: "t \<notin> arrivals ?g ?log" using th t False by (auto simp: barrier_threads_def)
  have c: "unat (bs_count ?st + 1) = Suc (unat (bs_count ?st))" "bs_total ?st = n" "bs_count ?st < n"
    using bo by (auto simp: barrier_books_def intro: unat_suc)
  have card: "card (insert t (arrivals ?g ?log)) = Suc (unat (bs_count ?st))"
    using bo new by (simp add: barrier_books_def)
  show ?thesis
  proof (cases "bs_count ?st + 1 < n")
    case True
    then have k: "keep_waiting ?g (?st\<lparr>bs_count := bs_count ?st + 1\<rparr>)" using False c by (simp add: keep_waiting_def)
    have "barrier_books n (?st\<lparr>bs_count := bs_count ?st + 1\<rparr>) (?log @ [Arrived t ?g])"
      using bo True card c(1) by (auto simp: barrier_books_def)
    moreover have "barrier_threads (?st\<lparr>bs_count := bs_count ?st + 1\<rparr>) ((bw_threads w)(t := Parked ?g)) (?log @ [Arrived t ?g])"
      using th k False by (auto simp: barrier_threads_def keep_waiting_def split: if_splits)
    ultimately show ?thesis using True False k c(2) by (simp add: barrier_wait_def Let_def wait_loop_def barrier_inv_def)
  next
    case last: False
    then have n: "Suc (unat (bs_count ?st)) = unat n" using c by (simp add: word_less_nat_alt)
    have up: "unat (?g + 1) = Suc (unat ?g)"
      using few by (intro unat_suc [of _ "- 1"]) (simp add: order_less_le)
    let ?st' = "?st\<lparr>bs_count := 0, bs_generation := ?g + 1\<rparr>" and ?log' = "?log @ [Arrived t ?g]"
    have none: "arrivals (?g + 1) ?log' = {}" using bo up by (auto simp: barrier_books_def word_less_nat_alt)
    have "barrier_books n ?st' (?log' @ [Passed t ?g])"
      unfolding barrier_books_def
    proof (intro conjI allI impI)
      fix g
      show "finite (arrivals g (?log' @ [Passed t ?g]))" using bo by (simp add: barrier_books_def)
      show "card (arrivals g (?log' @ [Passed t ?g])) = unat n" if "g < bs_generation ?st'"
      proof (cases "g = ?g")
        case True
        then show ?thesis using card n by simp
      next
        case False
        then have "g < ?g" using that up by (auto simp: word_less_nat_alt less_Suc_eq word_unat_eq_iff)
        then show ?thesis using bo False by (simp add: barrier_books_def)
      qed
      show "arrivals g (?log' @ [Passed t ?g]) = {}" if "bs_generation ?st' < g"
        using that bo up by (auto simp: barrier_books_def word_less_nat_alt)
    next
      fix u g assume "Passed u g \<in> set (?log' @ [Passed t ?g])"
      then have "g = ?g \<or> g < ?g" using bo by (auto simp: barrier_books_def)
      then show "g < bs_generation ?st'" using up by (auto simp: word_less_nat_alt)
    qed (use none c in \<open>auto simp: word_gt_0\<close>)
    moreover have "g \<le> ?g \<Longrightarrow> g \<le> ?g + 1" for g using up by (simp add: word_le_nat_alt)
    then have "barrier_threads ?st' ((wake \<circ> (bw_threads w))(t := Elsewhere)) (?log' @ [Passed t ?g])"
      using th none by (auto simp: barrier_threads_def)
    ultimately show ?thesis using last False c(2) by (simp add: barrier_wait_def Let_def barrier_inv_def)
  qed
qed

lemma generation_steps:
  "barrier_step w ev w' \<Longrightarrow> unat (bs_generation (bw_state w')) \<le> Suc (unat (bs_generation (bw_state w)))"
proof -
  have s: "unat (g + 1 :: u64) \<le> Suc (unat g)" for g by (simp add: unat_word_ariths)
  show "barrier_step w ev w' \<Longrightarrow> unat (bs_generation (bw_state w')) \<le> Suc (unat (bs_generation (bw_state w)))"
    by (erule barrier_stepE) (auto simp: barrier_wait_def wait_loop_def barrier_cancel_def barrier_reset_def Let_def s)
qed

lemma barrier_step_inv:
  assumes "barrier_step w ev w'" and "barrier_inv n w" and "ev \<noteq> Reset" and "bs_generation (bw_state w) \<noteq> - 1"
  shows "barrier_inv n w'"
  using assms(1)
proof cases
  case (resume t g)
  then show ?thesis using resume_barrier_inv assms(2) by simp
next
  case (spurious t g)
  then show ?thesis using spurious_inv assms(2) by simp
qed (use assms enter_inv cancel_inv in auto)

lemma start_inv: "barrier_new n = Some st \<Longrightarrow> barrier_inv n (barrier_start st)"
  by (auto simp: barrier_new_def barrier_start_def barrier_inv_def barrier_books_def barrier_threads_def word_gt_0 split: if_splits)

lemma barrier_run_inv:
  assumes "barrier_run (barrier_start st) evs w" and "barrier_new n = Some st"
  shows "unat (bs_generation (bw_state w)) \<le> length evs" and "length evs < 2 ^ 64 \<Longrightarrow> Reset \<notin> set evs \<Longrightarrow> barrier_inv n w"
proof -
  have g: "unat (bs_generation (bw_state w)) \<le> length evs"
    if "barrier_run (barrier_start st) evs w" for evs w
    using that
  proof (induction rule: barrier_run.induct)
    case start
    then show ?case using assms(2) by (auto simp: barrier_start_def barrier_new_def split: if_splits)
  next
    case (more evs w' ev w'')
    then show ?case using generation_steps [OF more(2)] by simp
  qed
  show "unat (bs_generation (bw_state w)) \<le> length evs" using g assms(1) .
  show "barrier_inv n w" if "length evs < 2 ^ 64" "Reset \<notin> set evs"
    using assms(1) that
  proof (induction rule: barrier_run.induct)
    case start
    then show ?case using start_inv assms(2) by blast
  next
    case (more evs w' ev w'')
    have "unat (bs_generation (bw_state w')) \<noteq> unat (- 1 :: u64)" using g [OF more(1)] more.prems(1)
      by (simp add: unsigned_minus_1_eq_mask mask_eq_exp_minus_1)
    then have "bs_generation (bw_state w') \<noteq> - 1" by auto
    then show ?case using barrier_step_inv [OF more(2)] more.IH more.prems by auto
  qed
qed

lemma run_snoc:
  "barrier_run w evs w' \<Longrightarrow> barrier_step w' ev w'' \<Longrightarrow> evs' = evs @ [ev] \<Longrightarrow> barrier_run w evs' w''"
  by (simp add: barrier_run.more)

section \<open>Properties\<close>

text \<open>
  C40. A barrier that is not reset lets a thread pass only once all threads of its generation have arrived, and
  loses no wake-up. However arrivals, wake-ups, spurious wake-ups and a cancellation interleave, a return with
  \<open>Ok\<close> in a generation means that exactly as many different threads as the barrier's size arrived in it, and a
  thread stays blocked only while its generation is incomplete and the barrier is not cancelled.
\<close>

theorem barrier_releases_together:
  assumes "barrier_new n = Some st" and "barrier_run (barrier_start st) evs w" and "Reset \<notin> set evs" and "length evs < 2 ^ 64"
  shows "(\<forall>t g. Passed t g \<in> set (bw_log w) \<longrightarrow> card (arrivals g (bw_log w)) = unat n) \<and>
    (\<forall>t g. bw_threads w t = Parked g \<longrightarrow> g = bs_generation (bw_state w) \<and> \<not> is_cancelled w \<and>
       card (arrivals g (bw_log w)) < unat n)"
proof -
  have "barrier_inv n w" using barrier_run_inv(2) [OF assms(2,1,4,3)] .
  then show ?thesis
    by (auto simp: barrier_inv_def barrier_books_def barrier_threads_def keep_waiting_def is_cancelled_def word_less_nat_alt)
qed

theorem barrier_releases_together_witness:
  "\<exists>w. barrier_run (barrier_start \<lparr>bs_count = 0, bs_total = 2, bs_generation = 0, bs_cancelled = False\<rparr>)
       [Enter 1, Enter 2, Resume 1] w \<and> Passed 1 0 \<in> set (bw_log w) \<and> card (arrivals 0 (bw_log w)) = 2"
proof -
  let ?s = "barrier_start \<lparr>bs_count = 0, bs_total = 2, bs_generation = 0, bs_cancelled = False\<rparr>"
  let ?w = "wait_loop 1 0 (barrier_wait 2 (barrier_wait 1 ?s))"
  note d = barrier_start_def barrier_wait_def wait_loop_def keep_waiting_def Let_def
  have "barrier_run ?s [Enter 1] (barrier_wait 1 ?s)" by (rule run_snoc [OF barrier_run.start barrier_step.enter]) (simp_all add: d)
  then have "barrier_run ?s [Enter 1, Enter 2] (barrier_wait 2 (barrier_wait 1 ?s))"
    by (rule run_snoc [OF _ barrier_step.enter]) (simp_all add: d)
  then have r: "barrier_run ?s [Enter 1, Enter 2, Resume 1] ?w" by (rule run_snoc [OF _ barrier_step.resume]) (simp_all add: d)
  have p: "Passed 1 0 \<in> set (bw_log ?w)" by (simp add: d)
  show ?thesis using r p barrier_releases_together [OF _ r, of 2] by (auto simp: barrier_new_def)
qed

section \<open>What \<open>reset\<close> breaks\<close>

abbreviation pair_barrier :: barrier_world where
  "pair_barrier \<equiv> barrier_start \<lparr>bs_count = 0, bs_total = 2, bs_generation = 0, bs_cancelled = False\<rparr>"

text \<open>
  A thread that was woken by \<open>cancel\<close> and gets the mutex only after \<open>reset\<close> sees a new generation and no
  cancellation: it returns \<open>Ok\<close> alone.
\<close>

lemma reset_lets_one_pass:
  "\<exists>w. barrier_run pair_barrier [Enter 1, Cancel, Reset, Resume 1] w \<and> Passed 1 0 \<in> set (bw_log w) \<and>
     arrivals 0 (bw_log w) = {1}"
proof -
  let ?a = "barrier_wait 1 pair_barrier"
  let ?w = "wait_loop 1 0 (barrier_reset (barrier_cancel ?a))"
  note d = barrier_start_def barrier_wait_def wait_loop_def keep_waiting_def barrier_reset_def barrier_cancel_def Let_def
  have "barrier_run pair_barrier [Enter 1] ?a"
    by (rule run_snoc [OF barrier_run.start barrier_step.enter]) (simp_all add: d)
  then have "barrier_run pair_barrier [Enter 1, Cancel] (barrier_cancel ?a)" by (rule run_snoc [OF _ barrier_step.cancel]) simp
  then have "barrier_run pair_barrier [Enter 1, Cancel, Reset] (barrier_reset (barrier_cancel ?a))"
    by (rule run_snoc [OF _ barrier_step.reset]) simp
  then have "barrier_run pair_barrier [Enter 1, Cancel, Reset, Resume 1] ?w"
    by (rule run_snoc [OF _ barrier_step.resume]) (simp_all add: d)
  moreover have "Passed 1 0 \<in> set (bw_log ?w) \<and> arrivals 0 (bw_log ?w) = {1}" by (simp add: d)
  ultimately show ?thesis by blast
qed

text \<open>Without a cancellation before it, \<open>reset\<close> leaves a waiting thread blocked although its generation is over.\<close>

lemma reset_loses_wakeup:
  "\<exists>w. barrier_run pair_barrier [Enter 1, Reset] w \<and> bw_threads w 1 = Parked 0 \<and> \<not> keep_waiting 0 (bw_state w)"
proof -
  let ?a = "barrier_wait 1 pair_barrier"
  note d = barrier_start_def barrier_wait_def wait_loop_def keep_waiting_def barrier_reset_def Let_def
  have "barrier_run pair_barrier [Enter 1] ?a"
    by (rule run_snoc [OF barrier_run.start barrier_step.enter]) (simp_all add: d)
  then have "barrier_run pair_barrier [Enter 1, Reset] (barrier_reset ?a)" by (rule run_snoc [OF _ barrier_step.reset]) simp
  moreover have "bw_threads (barrier_reset ?a) 1 = Parked 0 \<and> \<not> keep_waiting 0 (bw_state (barrier_reset ?a))" by (simp add: d)
  ultimately show ?thesis by blast
qed

end
