(* ===== verification/Data_Providers.thy ===== *)
theory Data_Providers
  imports Batches Core_Types "HOL-Library.Monad_Syntax"
begin

text \<open>
  Where a client's training samples come from (\<open>src/shared/data-provider/src\<close>): files on disk (\<open>local.rs\<close>),
  files on a server read by byte ranges (\<open>http.rs\<close>), preprocessed rows (\<open>preprocessed.rs\<close>) and dummy data
  (\<open>dummy.rs\<close>). Reading a directory, decoding parquet and the HTTP request itself are outside: the files, the
  rows and the answers of the server are arguments. An \<open>i32\<close> is its bit pattern, and \<open>usize\<close> is a natural
  number whose subtractions are checked: no vector of the program is longer than \<open>2\<^sup>6\<^sup>4\<close>. The shuffle of a slice
  by a seeded generator belongs to the \<open>rand\<close> crates and is an argument.
\<close>

section \<open>Tokens\<close>

record tokenized_data =
  tk_input_ids :: "u32 list"
  tk_labels :: "u32 list option"
  tk_position_ids :: "u32 list option"
  tk_sequence_lengths :: "u32 list option"

definition from_input_ids :: "u32 list \<Rightarrow> tokenized_data" where
  "from_input_ids ids = \<lparr>tk_input_ids = ids, tk_labels = None, tk_position_ids = None, tk_sequence_lengths = None\<rparr>"

definition tokenized_empty :: tokenized_data where
  "tokenized_empty = \<lparr>tk_input_ids = [], tk_labels = None, tk_position_ids = None, tk_sequence_lengths = None\<rparr>"

text \<open>\<open>slice::chunks\<close>, which panics for size \<open>0\<close>; token sizes are not \<open>0\<close>.\<close>

function chunks :: "nat \<Rightarrow> 'a list \<Rightarrow> 'a list list" where
  "chunks n xs = (if xs = [] \<or> n = 0 then [] else take n xs # chunks n (drop n xs))"
  by auto
termination by (relation "measure (\<lambda>(n, xs). length xs)") auto

declare chunks.simps [simp del]

fun token_of :: "token_size \<Rightarrow> bytes \<Rightarrow> u32 option" where
  "token_of TwoBytes [a, b] = Some (push_bit 8 (ucast b) OR ucast a)"
| "token_of FourBytes [a, b, c, d] =
     Some (push_bit 24 (ucast d) OR push_bit 16 (ucast c) OR push_bit 8 (ucast b) OR ucast a)"
| "token_of _ _ = None"

definition tokens_of :: "token_size \<Rightarrow> bytes \<Rightarrow> u32 list option" where
  "tokens_of ts data = those (map (token_of ts) (chunks (token_size_to_usize ts) data))"

text \<open>The bytes \<open>data[start..start + len]\<close>; out of range is a panic.\<close>

definition slice :: "nat \<Rightarrow> nat \<Rightarrow> 'a list \<Rightarrow> 'a list option" where
  "slice start len xs = (if start + len \<le> length xs then Some (take len (drop start xs)) else None)"

text \<open>\<open>(0..end).step_by(step)\<close>\<close>

definition step_by :: "nat \<Rightarrow> nat \<Rightarrow> nat list option" where
  "step_by hi step = (if step = 0 then None else Some (map (\<lambda>i. i * step) [0..<(hi + step - 1) div step]))"

definition usize_sub :: "nat \<Rightarrow> nat \<Rightarrow> nat option" where
  "usize_sub a b = (if b \<le> a then Some (a - b) else None)"

text \<open>The identifiers of a batch in their order, as vector indices.\<close>

definition data_ids :: "batch_id \<Rightarrow> nat list" where
  "data_ids b = [unat (ci_start (batch_interval b))..<Suc (unat (ci_end (batch_interval b)))]"

datatype provider_error =
    OutOfBounds nat
  | NoDataFiles
  | NoDataAvailable
  | FetchFailed
  | UnexpectedLength nat nat
  | MissingSamples

section \<open>Files on disk\<close>

record sequence_pointer =
  sp_file_index :: nat
  sp_byte_offset :: nat

text \<open>Every sequence of every file, in the order of the files; \<open>spare\<close> bytes at the end are left unread.\<close>

fun file_sequences :: "nat \<Rightarrow> nat \<Rightarrow> nat \<Rightarrow> nat list \<Rightarrow> sequence_pointer list option" where
  "file_sequences seq spare i [] = Some []"
| "file_sequences seq spare i (len # sizes) =
     do {
       hi \<leftarrow> usize_sub len (seq + spare);
       offsets \<leftarrow> step_by hi seq;
       rest \<leftarrow> file_sequences seq spare (Suc i) sizes;
       Some (map (\<lambda>o'. \<lparr>sp_file_index = i, sp_byte_offset = o'\<rparr>) offsets @ rest)
     }"

record local_provider =
  lp_data_files :: "bytes list"
  lp_sequences :: "sequence_pointer list"
  lp_seq_len :: nat
  lp_token_size :: token_size

definition maybe_shuffle :: "(bytes \<Rightarrow> 'a list \<Rightarrow> 'a list) \<Rightarrow> shuffle \<Rightarrow> 'a list \<Rightarrow> 'a list" where
  "maybe_shuffle rng s xs = (case s of DontShuffle \<Rightarrow> xs | Seeded seed \<Rightarrow> rng seed xs)"

text \<open>\<open>new_from_directory\<close> on the files it read.\<close>

definition local_new ::
    "(bytes \<Rightarrow> sequence_pointer list \<Rightarrow> sequence_pointer list) \<Rightarrow> bytes list \<Rightarrow> token_size \<Rightarrow> nat \<Rightarrow> shuffle \<Rightarrow>
      (provider_error + local_provider) option" where
  "local_new rng files ts tokens shuffle =
     (if files = [] then Some (Inl NoDataFiles)
      else do {
        sequences \<leftarrow> file_sequences (tokens * token_size_to_usize ts) 0 0 (map length files);
        Some (Inr \<lparr>lp_data_files = files, lp_sequences = maybe_shuffle rng shuffle sequences,
                   lp_seq_len = tokens, lp_token_size = ts\<rparr>)
      })"

definition local_sample :: "local_provider \<Rightarrow> sequence_pointer \<Rightarrow> tokenized_data option" where
  "local_sample p s =
     do {
       file \<leftarrow> nth_opt (lp_data_files p) (sp_file_index s);
       data \<leftarrow> slice (sp_byte_offset s) (token_size_to_usize (lp_token_size p) * lp_seq_len p) file;
       tokens \<leftarrow> tokens_of (lp_token_size p) data;
       Some (from_input_ids tokens)
     }"

text \<open>The loop over the identifiers; an error returns at once.\<close>

fun local_loop :: "local_provider \<Rightarrow> nat list \<Rightarrow> (provider_error + tokenized_data list) option" where
  "local_loop p [] = Some (Inr [])"
| "local_loop p (i # ids) =
     (case nth_opt (lp_sequences p) i of
        None \<Rightarrow> Some (Inl (OutOfBounds i))
      | Some s \<Rightarrow> do {
          x \<leftarrow> local_sample p s;
          rest \<leftarrow> local_loop p ids;
          Some (case rest of Inl e \<Rightarrow> Inl e | Inr xs \<Rightarrow> Inr (x # xs))
        })"

definition local_get_samples :: "local_provider \<Rightarrow> batch_id \<Rightarrow> (provider_error + tokenized_data list) option" where
  "local_get_samples p b = local_loop p (data_ids b)"

definition local_num_sequences :: "local_provider \<Rightarrow> nat" where
  "local_num_sequences p = length (lp_sequences p)"

section \<open>Files behind an HTTP server\<close>

record http_provider =
  ht_file_urls :: "string list"
  ht_sequences :: "sequence_pointer list"
  ht_seq_len :: u32
  ht_token_size :: token_size

text \<open>\<open>HttpDataProvider::new\<close>: one token is left unread at the end of every file.\<close>

definition http_new ::
    "(bytes \<Rightarrow> sequence_pointer list \<Rightarrow> sequence_pointer list) \<Rightarrow> (string \<times> nat) list \<Rightarrow> token_size \<Rightarrow> u32 \<Rightarrow>
      shuffle \<Rightarrow> http_provider option" where
  "http_new rng urls ts tokens shuffle =
     do {
       sequences \<leftarrow> file_sequences (unat tokens * token_size_to_usize ts) (token_size_to_usize ts) 0 (map snd urls);
       Some \<lparr>ht_file_urls = map fst urls, ht_sequences = maybe_shuffle rng shuffle sequences,
             ht_seq_len = tokens, ht_token_size = ts\<rparr>
     }"

text \<open>The request for a range of bytes: \<open>None\<close> is any failure of the request, a body may have any length.\<close>

type_synonym fetch = "string \<Rightarrow> nat \<Rightarrow> nat \<Rightarrow> bytes option"

definition fetch_data_range :: "fetch \<Rightarrow> string \<Rightarrow> nat \<Rightarrow> nat \<Rightarrow> provider_error + bytes" where
  "fetch_data_range get url start len =
     (case get url start len of
        None \<Rightarrow> Inl FetchFailed
      | Some body \<Rightarrow> if length body \<noteq> len then Inl (UnexpectedLength (length body) len) else Inr body)"

definition fetch_tokenized_data_range ::
    "fetch \<Rightarrow> string \<Rightarrow> nat \<Rightarrow> nat \<Rightarrow> token_size \<Rightarrow> (provider_error + u32 list) option" where
  "fetch_tokenized_data_range get url start len ts =
     (case fetch_data_range get url start len of
        Inl e \<Rightarrow> Some (Inl e)
      | Inr data \<Rightarrow> map_option Inr (tokens_of ts data))"

fun http_sequences :: "http_provider \<Rightarrow> nat list \<Rightarrow> provider_error + sequence_pointer list" where
  "http_sequences p [] = Inr []"
| "http_sequences p (i # ids) =
     (case nth_opt (ht_sequences p) i of
        None \<Rightarrow> Inl (OutOfBounds i)
      | Some s \<Rightarrow> (case http_sequences p ids of Inl e \<Rightarrow> Inl e | Inr ss \<Rightarrow> Inr (s # ss)))"

text \<open>
  \<open>windows(2).all(..)\<close> on the offsets. The subtraction panics in a build with overflow checks when the second
  offset is the smaller one; \<open>all\<close> stops at the first window that is not contiguous.
\<close>

fun contiguous :: "nat \<Rightarrow> nat list \<Rightarrow> bool option" where
  "contiguous d (x # y # ys) =
     do {
       gap \<leftarrow> usize_sub y x;
       if gap = d then contiguous d (y # ys) else Some False
     }"
| "contiguous d _ = Some True"

definition is_sequential :: "nat \<Rightarrow> sequence_pointer list \<Rightarrow> bool option" where
  "is_sequential d ss =
     (if \<forall>s \<in> set ss. sp_file_index s = sp_file_index (hd ss) then contiguous d (map sp_byte_offset ss)
      else Some False)"

definition split_sequences :: "nat \<Rightarrow> nat \<Rightarrow> u32 list \<Rightarrow> tokenized_data list option" where
  "split_sequences n len tokens = those (map (\<lambda>i. map_option from_input_ids (slice (i * len) len tokens)) [0..<n])"

text \<open>
  One request per sequence, each on a task of its own: the addresses are looked up before any answer is awaited,
  and the first failure in the order of the sequences is returned. A crashed task is a failure.
\<close>

fun fetch_each ::
    "fetch \<Rightarrow> http_provider \<Rightarrow> nat \<Rightarrow> sequence_pointer list \<Rightarrow> (provider_error + tokenized_data list) option" where
  "fetch_each get p len [] = Some (Inr [])"
| "fetch_each get p len (s # ss) =
     do {
       url \<leftarrow> nth_opt (ht_file_urls p) (sp_file_index s);
       rest \<leftarrow> fetch_each get p len ss;
       Some (case fetch_tokenized_data_range get url (sp_byte_offset s) len (ht_token_size p) of
               None \<Rightarrow> Inl FetchFailed
             | Some (Inl e) \<Rightarrow> Inl e
             | Some (Inr tokens) \<Rightarrow> (case rest of Inl e \<Rightarrow> Inl e | Inr xs \<Rightarrow> Inr (from_input_ids tokens # xs)))
     }"

definition http_get_samples ::
    "fetch \<Rightarrow> http_provider \<Rightarrow> batch_id \<Rightarrow> (provider_error + tokenized_data list) option" where
  "http_get_samples get p b =
     (case http_sequences p (data_ids b) of
        Inl e \<Rightarrow> Some (Inl e)
      | Inr [] \<Rightarrow> None
      | Inr (s # ss) \<Rightarrow>
          let seq_len = unat (ht_seq_len p); seq_bytes = token_size_to_usize (ht_token_size p) * seq_len
          in do {
            sequential \<leftarrow> is_sequential seq_bytes (s # ss);
            if sequential \<and> ss \<noteq> []
            then do {
              url \<leftarrow> nth_opt (ht_file_urls p) (sp_file_index s);
              r \<leftarrow> fetch_tokenized_data_range get url (sp_byte_offset s) (seq_bytes * length (s # ss)) (ht_token_size p);
              (case r of
                 Inl e \<Rightarrow> Some (Inl e)
               | Inr tokens \<Rightarrow> map_option Inr (split_sequences (length (s # ss)) seq_len tokens))
            }
            else fetch_each get p seq_bytes (s # ss)
          })"

section \<open>Preprocessed rows and dummy data\<close>

definition preprocessed_get_samples :: "'a list \<Rightarrow> batch_id \<Rightarrow> (provider_error + 'a list) option" where
  "preprocessed_get_samples rows b =
     (let len = length rows
      in if len = 0 then Some (Inl NoDataAvailable)
         else let start = unat (ci_start (batch_interval b)) mod len;
                  stop = unat (ci_end (batch_interval b)) mod len
              in if start \<le> stop then map_option Inr (slice start (stop + 1 - start) rows)
                 else Some (Inr (drop start rows @ take (stop + 1) rows)))"

record dummy_provider =
  dp_seq_len :: nat
  dp_token_size :: token_size
  dp_num_sequences :: u64

definition dummy_get_samples :: "dummy_provider \<Rightarrow> batch_id \<Rightarrow> (provider_error + tokenized_data list) option" where
  "dummy_get_samples p b =
     (case filter (\<lambda>i. unat (dp_num_sequences p) < i) (data_ids b) of
        i # _ \<Rightarrow> Some (Inl (OutOfBounds i))
      | [] \<Rightarrow> do {
          n \<leftarrow> batch_id_len b;
          tokens \<leftarrow> tokens_of (dp_token_size p)
                     (replicate (token_size_to_usize (dp_token_size p) * dp_seq_len p) 0);
          Some (Inr (replicate (unat n) (from_input_ids tokens)))
        })"

section \<open>Tokens of a range of bytes\<close>

lemma chunks_Nil [simp]: "chunks n [] = []"
  by (simp add: chunks.simps)

lemma chunks_append: "0 < n \<Longrightarrow> length xs = n \<Longrightarrow> chunks n (xs @ ys) = xs # chunks n ys"
  by (subst chunks.simps) auto

lemma those_append: "those (xs @ ys) = do { a \<leftarrow> those xs; b \<leftarrow> those ys; Some (a @ b) }"
proof (induction xs)
  case Nil
  then show ?case by (cases "those ys") auto
next
  case (Cons x xs)
  then show ?case by (cases x; cases "those xs"; cases "those ys") auto
qed

lemma those_map_Some: "(\<And>x. x \<in> set xs \<Longrightarrow> f x = Some (g x)) \<Longrightarrow> those (map f xs) = Some (map g xs)"
  by (induction xs) auto

lemma token_size_pos [simp]: "0 < token_size_to_usize ts"
  by (cases ts) auto

lemma token_of_total: "length xs = token_size_to_usize ts \<Longrightarrow> \<exists>t. token_of ts xs = Some t"
proof (cases ts)
  case TwoBytes
  moreover assume "length xs = token_size_to_usize ts"
  ultimately obtain a b where "xs = [a, b]" by (auto simp: length_Suc_conv numeral_2_eq_2)
  then show ?thesis using TwoBytes by simp
next
  case FourBytes
  moreover assume "length xs = token_size_to_usize ts"
  ultimately obtain a b c d where "xs = [a, b, c, d]" by (auto simp: length_Suc_conv numeral_eq_Suc)
  then show ?thesis using FourBytes by simp
qed

lemma tokens_of_step:
  assumes "length xs = token_size_to_usize ts"
  shows "tokens_of ts (xs @ ys) = do { t \<leftarrow> token_of ts xs; rest \<leftarrow> tokens_of ts ys; Some (t # rest) }"
  using assms by (cases "token_of ts xs"; cases "tokens_of ts ys") (auto simp: tokens_of_def chunks_append)

text \<open>A whole number of tokens is read completely, and part by part.\<close>

lemma tokens_of_total: "length xs = token_size_to_usize ts * n \<Longrightarrow> \<exists>ys. tokens_of ts xs = Some ys \<and> length ys = n"
proof (induction n arbitrary: xs)
  case 0
  then show ?case by (simp add: tokens_of_def)
next
  case (Suc n)
  let ?k = "token_size_to_usize ts"
  have l: "length (take ?k xs) = ?k" "length (drop ?k xs) = ?k * n" using Suc.prems by simp_all
  obtain t where "token_of ts (take ?k xs) = Some t" using token_of_total [OF l(1)] by blast
  moreover obtain ys where "tokens_of ts (drop ?k xs) = Some ys" "length ys = n" using Suc.IH [OF l(2)] by blast
  ultimately show ?case using tokens_of_step [OF l(1), of "drop ?k xs"] by simp
qed

lemma tokens_of_append:
  "length xs = token_size_to_usize ts * n \<Longrightarrow> tokens_of ts (xs @ ys) = do { a \<leftarrow> tokens_of ts xs; b \<leftarrow> tokens_of ts ys; Some (a @ b) }"
proof (induction n arbitrary: xs)
  case 0
  then show ?case by (cases "tokens_of ts ys") (auto simp: tokens_of_def)
next
  case (Suc n)
  let ?k = "token_size_to_usize ts"
  have l: "length (take ?k xs) = ?k" "length (drop ?k xs) = ?k * n" using Suc.prems by simp_all
  have x: "xs = take ?k xs @ drop ?k xs" by simp
  have "tokens_of ts (xs @ ys) = do { t \<leftarrow> token_of ts (take ?k xs); rest \<leftarrow> tokens_of ts (drop ?k xs @ ys); Some (t # rest) }"
    using tokens_of_step [OF l(1), of "drop ?k xs @ ys"] by (simp flip: append_assoc)
  moreover have "tokens_of ts xs = do { t \<leftarrow> token_of ts (take ?k xs); rest \<leftarrow> tokens_of ts (drop ?k xs); Some (t # rest) }"
    using tokens_of_step [OF l(1), of "drop ?k xs"] by simp
  ultimately show ?case using Suc.IH [OF l(2)]
    by (cases "token_of ts (take ?k xs)"; cases "tokens_of ts (drop ?k xs)"; cases "tokens_of ts ys") auto
qed

section \<open>The sequences of a set of files\<close>

lemma step_by_bounds:
  assumes "step_by hi step = Some os" and "x \<in> set os"
  shows "x < hi \<and> step dvd x"
proof -
  obtain i where i: "x = i * step" "i < (hi + step - 1) div step" "0 < step"
    using assms by (auto simp: step_by_def split: if_splits)
  have "Suc i * step \<le> (hi + step - 1) div step * step" using i(2) by (intro mult_right_mono) auto
  also have "\<dots> \<le> hi + step - 1" by (rule div_times_less_eq_dividend)
  finally show ?thesis using i by simp
qed

lemma file_sequences_bounds:
  assumes "file_sequences seq spare i sizes = Some ss" and "s \<in> set ss"
  shows "i \<le> sp_file_index s \<and> sp_file_index s < i + length sizes \<and>
    sp_byte_offset s + seq + spare < sizes ! (sp_file_index s - i) \<and> seq dvd sp_byte_offset s"
  using assms
proof (induction sizes arbitrary: i ss)
  case (Cons len sizes)
  then obtain hi os rest where h: "usize_sub len (seq + spare) = Some hi" "step_by hi seq = Some os"
    "file_sequences seq spare (Suc i) sizes = Some rest"
    "ss = map (\<lambda>o'. \<lparr>sp_file_index = i, sp_byte_offset = o'\<rparr>) os @ rest" by (auto simp: bind_eq_Some_conv)
  show ?case
  proof (cases "s \<in> set rest")
    case True
    then show ?thesis using Cons.IH [OF h(3)] by (auto simp: nth_Cons' Suc_diff_Suc)
  next
    case False
    then obtain x where "x \<in> set os" "s = \<lparr>sp_file_index = i, sp_byte_offset = x\<rparr>" using Cons.prems(2) h(4) by auto
    then show ?thesis using h(1) step_by_bounds [OF h(2), of x] by (auto simp: usize_sub_def split: if_splits)
  qed
qed simp

section \<open>The contract of a source of samples\<close>

text \<open>
  What the rest of the program relies on: a source that is well formed answers a range of identifiers below its
  length with the samples of the range, in order, and no sample is empty.
\<close>

locale sample_source =
  fixes ok :: "'p \<Rightarrow> bool"
    and get :: "'p \<Rightarrow> batch_id \<Rightarrow> (provider_error + tokenized_data list) option"
    and count :: "'p \<Rightarrow> nat"
    and sample :: "'p \<Rightarrow> nat \<Rightarrow> tokenized_data"
  assumes in_range: "ok p \<Longrightarrow> start \<le> stop \<Longrightarrow> unat stop < count p \<Longrightarrow>
      get p (BatchId (ClosedInterval start stop)) = Some (Inr (map (sample p) [unat start..<Suc (unat stop)]))"
    and not_empty: "ok p \<Longrightarrow> i < count p \<Longrightarrow> tk_input_ids (sample p i) \<noteq> []"
begin

lemma one_sample: "ok p \<Longrightarrow> unat i < count p \<Longrightarrow> get p (BatchId (ClosedInterval i i)) = Some (Inr [sample p (unat i)])"
  using in_range [of p i i] by simp

end

text \<open>The sample a pointer stands for, read from the files themselves.\<close>

definition sample_at :: "bytes list \<Rightarrow> token_size \<Rightarrow> nat \<Rightarrow> sequence_pointer \<Rightarrow> tokenized_data" where
  "sample_at files ts seq_len s =
     from_input_ids (the (tokens_of ts (take (token_size_to_usize ts * seq_len)
       (drop (sp_byte_offset s) (files ! sp_file_index s)))))"

definition pointer_ok :: "bytes list \<Rightarrow> token_size \<Rightarrow> nat \<Rightarrow> sequence_pointer \<Rightarrow> bool" where
  "pointer_ok files ts seq_len s \<longleftrightarrow> sp_file_index s < length files \<and>
     sp_byte_offset s + token_size_to_usize ts * seq_len \<le> length (files ! sp_file_index s)"

lemma pointer_tokens:
  assumes "pointer_ok files ts seq_len s"
  obtains tokens where "tokens_of ts (take (token_size_to_usize ts * seq_len) (drop (sp_byte_offset s) (files ! sp_file_index s))) = Some tokens"
    and "length tokens = seq_len" and "sample_at files ts seq_len s = from_input_ids tokens"
proof -
  have "length (take (token_size_to_usize ts * seq_len) (drop (sp_byte_offset s) (files ! sp_file_index s))) =
      token_size_to_usize ts * seq_len" using assms by (auto simp: pointer_ok_def min_def)
  from tokens_of_total [OF this] obtain tokens where
    "tokens_of ts (take (token_size_to_usize ts * seq_len) (drop (sp_byte_offset s) (files ! sp_file_index s))) = Some tokens"
    "length tokens = seq_len" by blast
  then show ?thesis using that by (simp add: sample_at_def)
qed

definition local_ok :: "local_provider \<Rightarrow> bool" where
  "local_ok p \<longleftrightarrow> 0 < lp_seq_len p \<and>
     (\<forall>s \<in> set (lp_sequences p). pointer_ok (lp_data_files p) (lp_token_size p) (lp_seq_len p) s)"

definition local_nth :: "local_provider \<Rightarrow> nat \<Rightarrow> tokenized_data" where
  "local_nth p i = sample_at (lp_data_files p) (lp_token_size p) (lp_seq_len p) (lp_sequences p ! i)"

lemma local_sample_ok:
  assumes "local_ok p" and "s \<in> set (lp_sequences p)"
  shows "local_sample p s = Some (sample_at (lp_data_files p) (lp_token_size p) (lp_seq_len p) s)"
proof -
  have ok: "pointer_ok (lp_data_files p) (lp_token_size p) (lp_seq_len p) s" using assms by (simp add: local_ok_def)
  obtain tokens where t: "tokens_of (lp_token_size p) (take (token_size_to_usize (lp_token_size p) * lp_seq_len p)
        (drop (sp_byte_offset s) (lp_data_files p ! sp_file_index s))) = Some tokens"
    "sample_at (lp_data_files p) (lp_token_size p) (lp_seq_len p) s = from_input_ids tokens"
    by (rule pointer_tokens [OF ok])
  from ok have "nth_opt (lp_data_files p) (sp_file_index s) = Some (lp_data_files p ! sp_file_index s)"
    "slice (sp_byte_offset s) (token_size_to_usize (lp_token_size p) * lp_seq_len p) (lp_data_files p ! sp_file_index s) =
      Some (take (token_size_to_usize (lp_token_size p) * lp_seq_len p)
        (drop (sp_byte_offset s) (lp_data_files p ! sp_file_index s)))"
    by (simp_all add: nth_opt_def slice_def pointer_ok_def)
  then show ?thesis by (simp add: local_sample_def t)
qed

lemma local_loop_ok:
  "local_ok p \<Longrightarrow> (\<forall>i \<in> set ids. i < local_num_sequences p) \<Longrightarrow> local_loop p ids = Some (Inr (map (local_nth p) ids))"
  by (induction ids) (auto simp: nth_opt_def local_num_sequences_def local_sample_ok local_nth_def)

lemma local_loop_out:
  "local_ok p \<Longrightarrow> (\<forall>i \<in> set xs. i < local_num_sequences p) \<Longrightarrow> local_num_sequences p \<le> j \<Longrightarrow>
    local_loop p (xs @ j # ys) = Some (Inl (OutOfBounds j))"
  by (induction xs) (auto simp: nth_opt_def local_num_sequences_def local_sample_ok)

text \<open>A range that leaves the files is refused with the first identifier outside.\<close>

lemma local_get_samples_out:
  assumes "local_ok p" and "start \<le> stop" and "local_num_sequences p \<le> unat stop"
  shows "local_get_samples p (BatchId (ClosedInterval start stop)) =
    Some (Inl (OutOfBounds (max (unat start) (local_num_sequences p))))"
proof -
  let ?m = "max (unat start) (local_num_sequences p)"
  have m: "unat start \<le> ?m" "?m < Suc (unat stop)" using assms(2,3) by (auto simp: word_le_nat_alt)
  have "[unat start..<Suc (unat stop)] = [unat start..<?m] @ ?m # [Suc ?m..<Suc (unat stop)]"
    using upt_add_eq_append [of "unat start" ?m "Suc (unat stop) - ?m"] m upt_conv_Cons [OF m(2)] by simp
  moreover have "local_loop p ([unat start..<?m] @ ?m # [Suc ?m..<Suc (unat stop)]) = Some (Inl (OutOfBounds ?m))"
    by (rule local_loop_out [OF assms(1)]) auto
  ultimately show ?thesis by (simp only: local_get_samples_def data_ids_def batch_id.sel closed_interval.sel)
qed

lemma from_input_ids_simps [simp]: "tk_input_ids (from_input_ids xs) = xs"
  by (simp add: from_input_ids_def)

interpretation local_source: sample_source local_ok local_get_samples local_num_sequences local_nth
proof
  fix p and start stop :: u64 assume "local_ok p" "start \<le> stop" "unat stop < local_num_sequences p"
  then show "local_get_samples p (BatchId (ClosedInterval start stop)) = Some (Inr (map (local_nth p) [unat start..<Suc (unat stop)]))"
    by (simp add: local_get_samples_def data_ids_def local_loop_ok)
next
  fix p i assume "local_ok p" "i < local_num_sequences p"
  then have "pointer_ok (lp_data_files p) (lp_token_size p) (lp_seq_len p) (lp_sequences p ! i)" "0 < lp_seq_len p"
    by (simp_all add: local_ok_def local_num_sequences_def)
  then show "tk_input_ids (local_nth p i) \<noteq> []" by (auto simp: local_nth_def elim: pointer_tokens)
qed

lemma local_new_ok:
  assumes "local_new rng files ts tokens shuffle = Some (Inr p)" and "0 < tokens" and "\<And>seed xs. mset (rng seed xs) = mset xs"
  shows "local_ok p"
proof -
  obtain ss where ss: "file_sequences (tokens * token_size_to_usize ts) 0 0 (map length files) = Some ss"
    and p: "p = \<lparr>lp_data_files = files, lp_sequences = maybe_shuffle rng shuffle ss, lp_seq_len = tokens, lp_token_size = ts\<rparr>"
    using assms(1) by (auto simp: local_new_def bind_eq_Some_conv split: if_splits)
  have "set (maybe_shuffle rng shuffle ss) = set ss"
    using assms(3) by (auto simp: maybe_shuffle_def split: shuffle.splits dest: mset_eq_setD)
  moreover have "pointer_ok files ts tokens s" if "s \<in> set ss" for s
    using file_sequences_bounds [OF ss that] by (auto simp: pointer_ok_def mult.commute nth_map)
  ultimately show ?thesis using assms(2) by (simp add: local_ok_def p)
qed

section \<open>One request for a run of sequences\<close>

lemma tokens_of_pieces:
  "length xs = token_size_to_usize ts * len * n \<Longrightarrow>
    tokens_of ts xs = Some (concat (map (\<lambda>i. the (tokens_of ts (take (token_size_to_usize ts * len)
      (drop (i * (token_size_to_usize ts * len)) xs)))) [0..<n]))"
proof (induction n arbitrary: xs)
  case 0
  then show ?case by (simp add: tokens_of_def)
next
  case (Suc n)
  let ?m = "token_size_to_usize ts * len" and ?rest = "drop (token_size_to_usize ts * len) xs"
  have l: "length (take ?m xs) = ?m" "length ?rest = ?m * n" using Suc.prems by simp_all
  obtain t where t: "tokens_of ts (take ?m xs) = Some t" using tokens_of_total [OF l(1)] by blast
  have "tokens_of ts xs = do { a \<leftarrow> tokens_of ts (take ?m xs); b \<leftarrow> tokens_of ts ?rest; Some (a @ b) }"
    using tokens_of_append [OF l(1), of ?rest] by simp
  then show ?case unfolding Suc.IH [OF l(2)] upt_conv_Cons [of 0 "Suc n", OF zero_less_Suc] map_Suc_upt [symmetric]
    using t by (simp add: add.commute comp_def)
qed

lemma slice_concat:
  "(\<forall>p \<in> set ps. length p = len) \<Longrightarrow> i < length ps \<Longrightarrow> slice (i * len) len (concat ps) = Some (ps ! i)"
proof (induction ps arbitrary: i)
  case (Cons q ps)
  then show ?case
  proof (cases i)
    case (Suc j)
    then have "slice (j * len) len (concat ps) = Some (ps ! j)" using Cons by simp
    then show ?thesis using Suc Cons.prems(1) by (auto simp: slice_def split: if_splits)
  qed (simp add: slice_def)
qed simp

lemma split_sequences_concat:
  assumes "\<forall>p \<in> set ps. length p = len"
  shows "split_sequences (length ps) len (concat ps) = Some (map from_input_ids ps)"
proof -
  have "split_sequences (length ps) len (concat ps) = Some (map (\<lambda>i. from_input_ids (ps ! i)) [0..<length ps])"
    unfolding split_sequences_def using assms by (intro those_map_Some) (simp add: slice_concat)
  also have "map (\<lambda>i. from_input_ids (ps ! i)) [0..<length ps] = map from_input_ids (map ((!) ps) [0..<length ps])" by simp
  finally show ?thesis by (simp only: map_nth)
qed

lemma contiguous_nth: "contiguous d os = Some True \<Longrightarrow> i < length os \<Longrightarrow> os ! i = hd os + i * d"
proof (induction d os arbitrary: i rule: contiguous.induct)
  case (1 d x y ys)
  then have "y = x + d" "contiguous d (y # ys) = Some True" by (auto simp: usize_sub_def split: if_splits)
  then show ?case using 1 by (cases i) (auto simp: usize_sub_def)
qed auto

lemma contiguous_total: "sorted os \<Longrightarrow> \<exists>b. contiguous d os = Some b"
  by (induction d os rule: contiguous.induct) (auto simp: usize_sub_def)

definition serves :: "fetch \<Rightarrow> string list \<Rightarrow> bytes list \<Rightarrow> bool" where
  "serves get urls files \<longleftrightarrow> length urls = length files \<and>
     (\<forall>i < length files. \<forall>start len. get (urls ! i) start len = slice start len (files ! i))"

definition http_ok :: "bytes list \<Rightarrow> http_provider \<Rightarrow> bool" where
  "http_ok files p \<longleftrightarrow> 0 < unat (ht_seq_len p) \<and> length (ht_file_urls p) = length files \<and>
     (\<forall>s \<in> set (ht_sequences p). pointer_ok files (ht_token_size p) (unat (ht_seq_len p)) s)"

lemma fetch_in_range:
  assumes "serves get urls files" and "i < length files" and "start + token_size_to_usize ts * n \<le> length (files ! i)"
  shows "nth_opt urls i = Some (urls ! i)"
    and "fetch_tokenized_data_range get (urls ! i) start (token_size_to_usize ts * n) ts =
      Some (Inr (the (tokens_of ts (take (token_size_to_usize ts * n) (drop start (files ! i))))))"
proof -
  show "nth_opt urls i = Some (urls ! i)" using assms by (simp add: serves_def nth_opt_def)
  let ?b = "take (token_size_to_usize ts * n) (drop start (files ! i))"
  have l: "length ?b = token_size_to_usize ts * n" using assms(3) by (auto simp: min_def)
  have "get (urls ! i) start (token_size_to_usize ts * n) = Some ?b"
    using assms by (simp add: serves_def slice_def)
  then have "fetch_data_range get (urls ! i) start (token_size_to_usize ts * n) = Inr ?b"
    using l by (simp add: fetch_data_range_def)
  moreover obtain ys where "tokens_of ts ?b = Some ys" using tokens_of_total [OF l] by blast
  ultimately show "fetch_tokenized_data_range get (urls ! i) start (token_size_to_usize ts * n) ts =
      Some (Inr (the (tokens_of ts ?b)))" by (simp add: fetch_tokenized_data_range_def)
qed

lemma fetch_each_ok:
  assumes "serves get (ht_file_urls p) files"
  shows "(\<forall>s \<in> set ss. pointer_ok files (ht_token_size p) (unat (ht_seq_len p)) s) \<Longrightarrow>
    fetch_each get p (token_size_to_usize (ht_token_size p) * unat (ht_seq_len p)) ss =
      Some (Inr (map (sample_at files (ht_token_size p) (unat (ht_seq_len p))) ss))"
proof (induction ss)
  case (Cons s ss)
  then have "sp_file_index s < length files"
    "sp_byte_offset s + token_size_to_usize (ht_token_size p) * unat (ht_seq_len p) \<le> length (files ! sp_file_index s)"
    by (simp_all add: pointer_ok_def)
  note fetch_in_range [OF assms this]
  then show ?case using Cons by (simp add: sample_at_def)
qed simp

lemma http_sequences_ok:
  "(\<forall>i \<in> set ids. i < length (ht_sequences p)) \<Longrightarrow> http_sequences p ids = Inr (map ((!) (ht_sequences p)) ids)"
  by (induction ids) (auto simp: nth_opt_def)

lemma take_drop_within: "a + m \<le> b \<Longrightarrow> take m (drop a (take b xs)) = take m (drop a xs)"
  by (simp add: drop_take min_def)

lemma fast_path_ok:
  fixes p :: http_provider
  defines "k \<equiv> token_size_to_usize (ht_token_size p)" and "len \<equiv> unat (ht_seq_len p)"
  assumes serve: "serves get (ht_file_urls p) files"
    and ok: "\<forall>s \<in> set ss. pointer_ok files (ht_token_size p) len s"
    and seq: "is_sequential (k * len) ss = Some True" and ne: "ss \<noteq> []"
  obtains tokens where
    "nth_opt (ht_file_urls p) (sp_file_index (hd ss)) = Some (ht_file_urls p ! sp_file_index (hd ss))"
    "fetch_tokenized_data_range get (ht_file_urls p ! sp_file_index (hd ss)) (sp_byte_offset (hd ss)) (k * len * length ss)
       (ht_token_size p) = Some (Inr tokens)"
    "split_sequences (length ss) len tokens = Some (map (sample_at files (ht_token_size p) len) ss)"
proof -
  let ?n = "length ss" and ?o = "sp_byte_offset (hd ss)" and ?f = "sp_file_index (hd ss)"
  let ?piece = "\<lambda>i. the (tokens_of (ht_token_size p) (take (k * len) (drop (?o + i * (k * len)) (files ! ?f))))"
  let ?all = "take (k * len * ?n) (drop ?o (files ! ?f))"
  have same: "sp_file_index (ss ! i) = ?f" if "i < ?n" for i
    using seq that by (auto simp: is_sequential_def split: if_splits)
  have offset: "sp_byte_offset (ss ! i) = ?o + i * (k * len)" if "i < ?n" for i
    using seq that contiguous_nth [of "k * len" "map sp_byte_offset ss" i] ne
    by (auto simp: is_sequential_def hd_map split: if_splits)
  have sample: "sample_at files (ht_token_size p) len (ss ! i) = from_input_ids (?piece i)" if "i < ?n" for i
    using same [OF that] offset [OF that] by (simp add: sample_at_def k_def)
  have bound: "?f < length files" "?o + k * (len * ?n) \<le> length (files ! ?f)"
  proof -
    have i: "?n - 1 < ?n" using ne by simp
    then have "pointer_ok files (ht_token_size p) len (ss ! (?n - 1))" using ok nth_mem by blast
    then show "?f < length files" "?o + k * (len * ?n) \<le> length (files ! ?f)"
      using same [OF i] offset [OF i] ne by (auto simp: pointer_ok_def k_def [symmetric] neq_Nil_conv algebra_simps)
  qed
  note fetch = fetch_in_range [OF serve bound(1) bound(2) [unfolded k_def]]
  have all: "length ?all = k * len * ?n" using bound(2) by (auto simp: min_def algebra_simps)
  have "tokens_of (ht_token_size p) ?all = Some (concat (map (\<lambda>i. the (tokens_of (ht_token_size p)
      (take (k * len) (drop (i * (k * len)) ?all)))) [0..<?n]))"
    unfolding k_def by (rule tokens_of_pieces) (use all in \<open>simp add: k_def\<close>)
  moreover have part: "take (k * len) (drop (i * (k * len)) ?all) = take (k * len) (drop (?o + i * (k * len)) (files ! ?f))"
    if "i < ?n" for i
  proof -
    have "Suc i * (k * len) \<le> ?n * (k * len)" using that by (intro mult_right_mono) simp_all
    then show ?thesis by (subst take_drop_within) (simp_all add: algebra_simps)
  qed
  moreover have "map (\<lambda>i. the (tokens_of (ht_token_size p) (take (k * len) (drop (i * (k * len)) ?all)))) [0..<?n] =
      map ?piece [0..<?n]" using part by (intro map_cong) auto
  ultimately have tokens: "tokens_of (ht_token_size p) ?all = Some (concat (map ?piece [0..<?n]))" by simp
  have "length (?piece i) = len" if "i < ?n" for i
  proof -
    have "pointer_ok files (ht_token_size p) len (ss ! i)" using ok that by simp
    from pointer_tokens [OF this] sample [OF that] show ?thesis by (metis from_input_ids_simps)
  qed
  then have "split_sequences (length (map ?piece [0..<?n])) len (concat (map ?piece [0..<?n])) =
      Some (map from_input_ids (map ?piece [0..<?n]))" by (intro split_sequences_concat) auto
  moreover have "map from_input_ids (map ?piece [0..<?n]) = map (sample_at files (ht_token_size p) len) ss"
    by (rule nth_equalityI) (simp_all add: sample)
  ultimately show ?thesis using that fetch tokens by (simp add: k_def mult.assoc)
qed

text \<open>Files are laid out one after the other, so the sequences of an unshuffled provider are in order.\<close>

definition pointer_before :: "sequence_pointer \<Rightarrow> sequence_pointer \<Rightarrow> bool" where
  "pointer_before a b \<longleftrightarrow> sp_file_index a < sp_file_index b \<or>
     sp_file_index a = sp_file_index b \<and> sp_byte_offset a \<le> sp_byte_offset b"

lemma file_sequences_ordered: "file_sequences seq spare i sizes = Some ss \<Longrightarrow> sorted_wrt pointer_before ss"
proof (induction sizes arbitrary: i ss)
  case (Cons len sizes)
  then obtain hi os rest where h: "step_by hi seq = Some os" "file_sequences seq spare (Suc i) sizes = Some rest"
    "ss = map (\<lambda>o'. \<lparr>sp_file_index = i, sp_byte_offset = o'\<rparr>) os @ rest" by (auto simp: bind_eq_Some_conv)
  have "sorted_wrt (\<le>) os" using h(1)
    by (auto simp: step_by_def sorted_wrt_map sorted_wrt_iff_nth_less split: if_splits)
  moreover have "Suc i \<le> sp_file_index s" if "s \<in> set rest" for s using file_sequences_bounds [OF h(2) that] by simp
  ultimately show ?case using Cons.IH [OF h(2)]
    by (auto simp: h(3) sorted_wrt_append sorted_wrt_map pointer_before_def Suc_le_eq elim!: sorted_wrt_mono_rel [rotated])
qed simp

lemma is_sequential_total:
  assumes "sorted_wrt pointer_before ss"
  shows "\<exists>b. is_sequential d ss = Some b"
proof (cases "\<forall>s \<in> set ss. sp_file_index s = sp_file_index (hd ss)")
  case True
  then have "sorted (map sp_byte_offset ss)" using assms unfolding sorted_map
    by (elim sorted_wrt_mono_rel [rotated]) (auto simp: pointer_before_def)
  then show ?thesis using contiguous_total True by (simp add: is_sequential_def)
next
  case False
  then show ?thesis unfolding is_sequential_def by (simp only: if_False) blast
qed

lemma http_answer:
  assumes serve: "serves get (ht_file_urls p) files" and ss: "http_sequences p (data_ids b) = Inr (s # ss)"
    and ok: "\<forall>x \<in> set (s # ss). pointer_ok files (ht_token_size p) (unat (ht_seq_len p)) x"
    and sorted: "sorted_wrt pointer_before (s # ss)"
  shows "http_get_samples get p b = Some (Inr (map (sample_at files (ht_token_size p) (unat (ht_seq_len p))) (s # ss)))"
proof -
  let ?len = "unat (ht_seq_len p)" and ?k = "token_size_to_usize (ht_token_size p)"
  obtain q where q: "is_sequential (?k * ?len) (s # ss) = Some q" using is_sequential_total [OF sorted] by blast
  show ?thesis
  proof (cases "q \<and> ss \<noteq> []")
    case True
    then have "is_sequential (?k * ?len) (s # ss) = Some True" using q by simp
    then obtain tokens where "nth_opt (ht_file_urls p) (sp_file_index s) = Some (ht_file_urls p ! sp_file_index s)"
      "fetch_tokenized_data_range get (ht_file_urls p ! sp_file_index s) (sp_byte_offset s)
        (?k * ?len * length (s # ss)) (ht_token_size p) = Some (Inr tokens)"
      "split_sequences (length (s # ss)) ?len tokens = Some (map (sample_at files (ht_token_size p) ?len) (s # ss))"
      using fast_path_ok [OF serve ok] by (metis list.sel(1) list.distinct(1))
    then show ?thesis using True q by (simp add: http_get_samples_def ss Let_def)
  next
    case False
    have "http_get_samples get p b = fetch_each get p (?k * ?len) (s # ss)"
      unfolding http_get_samples_def ss using q False by (simp add: Let_def del: fetch_each.simps) blast
    then show ?thesis using fetch_each_ok [OF serve ok] by (simp only:)
  qed
qed

lemma http_get_samples_ok:
  assumes "serves get (ht_file_urls p) files" and "http_ok files p" and "sorted_wrt pointer_before (ht_sequences p)"
    and "start \<le> stop" and "unat stop < length (ht_sequences p)"
  shows "http_get_samples get p (BatchId (ClosedInterval start stop)) =
    Some (Inr (map (\<lambda>i. sample_at files (ht_token_size p) (unat (ht_seq_len p)) (ht_sequences p ! i))
      [unat start..<Suc (unat stop)]))"
proof -
  let ?ids = "[unat start..<Suc (unat stop)]"
  let ?ss = "map ((!) (ht_sequences p)) ?ids"
  have "unat start \<le> unat stop" using assms(4) by (simp add: word_le_nat_alt)
  then obtain s ss where s: "?ss = s # ss" by (cases ?ss) auto
  have "http_sequences p (data_ids (BatchId (ClosedInterval start stop))) = Inr ?ss"
    using assms(5) by (simp add: data_ids_def http_sequences_ok)
  moreover have "sorted_wrt (\<lambda>i j. pointer_before (ht_sequences p ! i) (ht_sequences p ! j)) ?ids"
    using assms(3,5) by (auto simp: sorted_wrt_iff_nth_less nth_append)
  then have "sorted_wrt pointer_before ?ss" by (simp only: sorted_wrt_map)
  moreover have "\<forall>x \<in> set ?ss. pointer_ok files (ht_token_size p) (unat (ht_seq_len p)) x"
    using assms(2,5) by (auto simp: http_ok_def)
  ultimately have "http_get_samples get p (BatchId (ClosedInterval start stop)) =
      Some (Inr (map (sample_at files (ht_token_size p) (unat (ht_seq_len p))) ?ss))"
    unfolding s by (intro http_answer [OF assms(1)])
  then show ?thesis by (simp only: map_map comp_def)
qed

definition http_ready :: "fetch \<times> bytes list \<times> http_provider \<Rightarrow> bool" where
  "http_ready = (\<lambda>(get, files, p). serves get (ht_file_urls p) files \<and> http_ok files p \<and>
     sorted_wrt pointer_before (ht_sequences p))"

interpretation http_source: sample_source http_ready "\<lambda>(get, files, p). http_get_samples get p"
  "\<lambda>(get, files, p). length (ht_sequences p)"
  "\<lambda>(get, files, p) i. sample_at files (ht_token_size p) (unat (ht_seq_len p)) (ht_sequences p ! i)"
proof
  fix x and start stop :: u64
  assume "http_ready x" "start \<le> stop" "unat stop < (case x of (get, files, p) \<Rightarrow> length (ht_sequences p))"
  then show "(case x of (get, files, p) \<Rightarrow> http_get_samples get p) (BatchId (ClosedInterval start stop)) = Some (Inr (map
      ((case x of (get, files, p) \<Rightarrow> \<lambda>i. sample_at files (ht_token_size p) (unat (ht_seq_len p)) (ht_sequences p ! i)))
      [unat start..<Suc (unat stop)]))"
    by (cases x) (simp add: http_ready_def http_get_samples_ok del: upt_Suc)
next
  fix x and i :: nat assume a: "http_ready x" "i < (case x of (get, files, p) \<Rightarrow> length (ht_sequences p))"
  obtain get files p where x: "x = (get, files, p)" by (cases x)
  then have "pointer_ok files (ht_token_size p) (unat (ht_seq_len p)) (ht_sequences p ! i)" "0 < unat (ht_seq_len p)"
    using a by (auto simp: http_ready_def http_ok_def)
  then show "tk_input_ids ((case x of (get, files, p) \<Rightarrow> \<lambda>i. sample_at files (ht_token_size p) (unat (ht_seq_len p))
      (ht_sequences p ! i)) i) \<noteq> []" by (auto simp: x elim: pointer_tokens)
qed

lemma http_new_ready:
  assumes "http_new rng (zip urls (map length files)) ts tokens DontShuffle = Some p" and "0 < tokens"
    and "serves get urls files"
  shows "http_ready (get, files, p)"
proof -
  have l: "length urls = length files" using assms(3) by (simp add: serves_def)
  then have z: "map snd (zip urls (map length files)) = map length files" "map fst (zip urls (map length files)) = urls" by simp_all
  obtain ss where ss: "file_sequences (unat tokens * token_size_to_usize ts) (token_size_to_usize ts) 0 (map length files) = Some ss"
    and p: "p = \<lparr>ht_file_urls = urls, ht_sequences = ss, ht_seq_len = tokens, ht_token_size = ts\<rparr>"
    using assms(1) unfolding http_new_def z by (auto simp: bind_eq_Some_conv maybe_shuffle_def)
  have "0 < unat tokens" using assms(2) by (simp add: unat_gt_0)
  moreover have "pointer_ok files ts (unat tokens) s" if "s \<in> set ss" for s
    using file_sequences_bounds [OF ss that] by (auto simp: pointer_ok_def mult.commute)
  ultimately show ?thesis using assms(3) l file_sequences_ordered [OF ss] by (simp add: http_ready_def http_ok_def p)
qed

section \<open>Properties of the providers\<close>

lemma file_sequences_total:
  "0 < seq \<Longrightarrow> (\<forall>len \<in> set sizes. seq + spare \<le> len) \<Longrightarrow> \<exists>ss. file_sequences seq spare i sizes = Some ss"
proof (induction sizes arbitrary: i)
  case (Cons len sizes)
  then obtain ss where "file_sequences seq spare (Suc i) sizes = Some ss" by auto
  then show ?case using Cons.prems by (simp add: usize_sub_def step_by_def)
qed simp

text \<open>
  A provider over files on disk none of which is shorter than a sequence is always built. It answers every
  batch inside its sequences with the tokens of the files themselves, one sample of exactly the requested length
  for every identifier in order, and refuses a batch that leaves them with the first identifier outside. It never
  panics, whatever the shuffle did to the order of the sequences.
\<close>

theorem local_provider_reads_files:
  assumes "files \<noteq> []" and "0 < tokens" and "\<forall>f \<in> set files. tokens * token_size_to_usize ts \<le> length f"
    and "\<forall>seed xs. mset (rng seed xs) = mset xs"
  shows "\<exists>p. local_new rng files ts tokens s = Some (Inr p) \<and>
    (\<forall>start stop. start \<le> stop \<longrightarrow> local_get_samples p (BatchId (ClosedInterval start stop)) =
      Some (if unat stop < local_num_sequences p
            then Inr (map (\<lambda>i. sample_at files ts tokens (lp_sequences p ! i)) [unat start..<Suc (unat stop)])
            else Inl (OutOfBounds (max (unat start) (local_num_sequences p))))) \<and>
    (\<forall>i < local_num_sequences p. length (tk_input_ids (sample_at files ts tokens (lp_sequences p ! i))) = tokens)"
proof -
  have "\<exists>ss. file_sequences (tokens * token_size_to_usize ts) 0 0 (map length files) = Some ss"
    using assms(2,3) by (intro file_sequences_total) auto
  then obtain p where p: "local_new rng files ts tokens s = Some (Inr p)"
    and f: "lp_data_files p = files" "lp_seq_len p = tokens" "lp_token_size p = ts"
    using assms(1) by (auto simp: local_new_def)
  have ok: "local_ok p" using local_new_ok [OF p assms(2)] assms(4) by simp
  have "local_get_samples p (BatchId (ClosedInterval start stop)) =
      Some (if unat stop < local_num_sequences p
            then Inr (map (\<lambda>i. sample_at files ts tokens (lp_sequences p ! i)) [unat start..<Suc (unat stop)])
            else Inl (OutOfBounds (max (unat start) (local_num_sequences p))))" if "start \<le> stop" for start stop
    using local_source.in_range [OF ok that] local_get_samples_out [OF ok that]
    by (simp add: local_nth_def f not_less del: upt_Suc)
  moreover have "length (tk_input_ids (sample_at files ts tokens (lp_sequences p ! i))) = tokens"
    if "i < local_num_sequences p" for i
  proof -
    have "pointer_ok files ts tokens (lp_sequences p ! i)" using ok that by (simp add: local_ok_def local_num_sequences_def f)
    then show ?thesis by (auto elim: pointer_tokens)
  qed
  ultimately show ?thesis using p by blast
qed

theorem local_provider_reads_files_witness:
  "\<exists>p. local_new (\<lambda>seed. rev) [[1, 2, 3, 4, 5], [6, 7, 8, 9]] TwoBytes 1 (Seeded []) = Some (Inr p) \<and>
    local_get_samples p (BatchId (ClosedInterval 0 0)) =
      Some (if unat (0 :: u64) < local_num_sequences p
            then Inr (map (\<lambda>i. sample_at [[1, 2, 3, 4, 5], [6, 7, 8, 9]] TwoBytes 1 (lp_sequences p ! i)) [unat (0 :: u64)..<Suc (unat (0 :: u64))])
            else Inl (OutOfBounds (max (unat (0 :: u64)) (local_num_sequences p))))"
  using local_provider_reads_files [of "[[1, 2, 3, 4, 5], [6, 7, 8, 9]]" 1 TwoBytes "\<lambda>seed. rev" "Seeded []"] by force


definition sample_files :: "bytes list" where
  "sample_files = [[1, 2, 3, 4, 5, 6, 7, 8, 9], [6, 7, 8, 9, 10]]"

definition sample_fetch :: fetch where
  "sample_fetch url start len = slice start len (if url = ''a'' then [1, 2, 3, 4, 5, 6, 7, 8, 9] else [6, 7, 8, 9, 10])"

lemma chunks_two: "chunks 2 (a # b # xs) = [a, b] # chunks 2 xs"
  using chunks_append [of 2 "[a, b]" xs] by simp

lemma sample_fetch_serves: "serves sample_fetch [''a'', ''b''] sample_files"
  by (auto simp: serves_def sample_files_def sample_fetch_def less_Suc_eq)


end
