(* ===== verification/Weighted_Provider.thy ===== *)
theory Weighted_Provider
  imports Data_Providers Shuffling Float64
begin

text \<open>
  A mixture of sources of samples (\<open>src/shared/data-provider/src/weighted/mod.rs\<close>): an index that draws from
  every source in proportion to its weight, and the answer to a batch put together from contiguous ranges of the
  sources. Weights are doubles with their infinities and not-a-number. The generator of the shuffle belongs to
  the \<open>rand\<close> crates: the value it draws for a position is an argument. A source is any type with a length and
  \<open>get_samples\<close>; none of the sources of the program changes when it is read. Counters of draws stay below the
  number of samples, a \<open>usize\<close>, and are natural numbers.
\<close>

section \<open>Doubles with their exceptional values\<close>

datatype double = Finite rat | Infinite bool | NotANumber

definition double_of :: "rat \<Rightarrow> double" where
  "double_of x = (let r = rnd64 x in if \<bar>r\<bar> < 2 ^ 1024 then Finite r else Infinite (0 < r))"

fun double_add :: "double \<Rightarrow> double \<Rightarrow> double" where
  "double_add (Finite a) (Finite b) = double_of (a + b)"
| "double_add (Infinite s) (Finite b) = Infinite s"
| "double_add (Finite a) (Infinite s) = Infinite s"
| "double_add (Infinite s) (Infinite t) = (if s = t then Infinite s else NotANumber)"
| "double_add _ _ = NotANumber"

fun double_neg :: "double \<Rightarrow> double" where
  "double_neg (Finite a) = Finite (- a)"
| "double_neg (Infinite s) = Infinite (\<not> s)"
| "double_neg NotANumber = NotANumber"

text \<open>
  A zero divisor is positive here: a sum of doubles is a negative zero only when every summand is, and then the
  quotient is not a number either way.
\<close>

fun double_div :: "double \<Rightarrow> double \<Rightarrow> double" where
  "double_div (Finite a) (Finite b) =
     (if b = 0 then if a = 0 then NotANumber else Infinite (0 < a) else double_of (a / b))"
| "double_div (Finite a) (Infinite s) = Finite 0"
| "double_div (Infinite s) (Finite b) = Infinite (s = (0 \<le> b))"
| "double_div _ _ = NotANumber"

text \<open>The product with a positive finite number.\<close>

fun double_scale :: "double \<Rightarrow> rat \<Rightarrow> double" where
  "double_scale (Finite a) x = double_of (a * x)"
| "double_scale (Infinite s) x = Infinite s"
| "double_scale NotANumber x = NotANumber"

fun double_gt :: "double \<Rightarrow> double \<Rightarrow> bool" where
  "double_gt (Finite a) (Finite b) \<longleftrightarrow> b < a"
| "double_gt (Finite a) (Infinite s) \<longleftrightarrow> \<not> s"
| "double_gt (Infinite s) (Finite b) \<longleftrightarrow> s"
| "double_gt (Infinite s) (Infinite t) \<longleftrightarrow> s \<and> \<not> t"
| "double_gt _ _ \<longleftrightarrow> False"

text \<open>\<open>.ceil() as usize\<close>: saturating, and \<open>0\<close> for not-a-number.\<close>

fun double_ceil_usize :: "double \<Rightarrow> nat" where
  "double_ceil_usize (Finite a) = min (nat \<lceil>a\<rceil>) (2 ^ 64 - 1)"
| "double_ceil_usize (Infinite s) = (if s then 2 ^ 64 - 1 else 0)"
| "double_ceil_usize NotANumber = 0"

section \<open>The weights\<close>

record 'p weighted_provider =
  wp_providers :: "'p list"
  wp_dataset_index :: "nat list"
  wp_dataset_sample_index :: "nat list"

datatype 'p providers = ExplicitlyWeighted "('p \<times> double) list" | LengthWeighted "'p list"

definition normalize :: "double list \<Rightarrow> double list" where
  "normalize ws = (let total = foldl double_add (Finite 0) ws in map (\<lambda>w. double_div w total) ws)"

fun provider_weights :: "('p \<Rightarrow> nat) \<Rightarrow> 'p providers \<Rightarrow> double list" where
  "provider_weights num (ExplicitlyWeighted w) = normalize (map snd w)"
| "provider_weights num (LengthWeighted w) = normalize (map (\<lambda>p. double_of (of_nat (num p))) w)"

fun provider_list :: "'p providers \<Rightarrow> 'p list" where
  "provider_list (ExplicitlyWeighted w) = map fst w"
| "provider_list (LengthWeighted w) = w"

section \<open>The index\<close>

text \<open>The provider whose weight is furthest ahead of its draws; empty providers are passed over.\<close>

fun choose_provider :: "rat \<Rightarrow> double list \<Rightarrow> nat list \<Rightarrow> nat list \<Rightarrow> nat \<Rightarrow> double \<Rightarrow> nat \<Rightarrow> nat" where
  "choose_provider x (w # ws) (psize # sizes) (drawn # ds) i max_error chosen =
     (let err = double_add (double_scale w x) (double_neg (double_of (of_nat drawn)))
      in if psize \<noteq> 0 \<and> double_gt err max_error then choose_provider x ws sizes ds (Suc i) err i
         else choose_provider x ws sizes ds (Suc i) max_error chosen)"
| "choose_provider x _ _ _ i max_error chosen = chosen"

record draw_state =
  dr_total :: "nat list"
  dr_next :: "nat list"
  dr_exhausted :: "bool list"
  dr_index :: "nat list"
  dr_sample :: "nat list"

definition draw_sample :: "double list \<Rightarrow> nat list \<Rightarrow> nat \<Rightarrow> draw_state \<Rightarrow> draw_state option" where
  "draw_sample weights sizes sample_idx d =
     (let c = choose_provider (max (rnd64 (of_nat sample_idx)) 1) weights sizes (dr_total d) 0 (Infinite False) 0
      in do {
        psize \<leftarrow> nth_opt sizes c;
        exhausted \<leftarrow> nth_opt (dr_exhausted d) c;
        next_unique \<leftarrow> nth_opt (dr_next d) c;
        total \<leftarrow> nth_opt (dr_total d) c;
        let push = d\<lparr>dr_index := dr_index d @ [c], dr_total := (dr_total d)[c := total + 1]\<rparr>;
        if \<not> exhausted
        then Some (push\<lparr>dr_sample := dr_sample d @ [next_unique], dr_next := (dr_next d)[c := next_unique + 1],
                        dr_exhausted := (if next_unique + 1 = psize then (dr_exhausted d)[c := True] else dr_exhausted d)\<rparr>)
        else if psize = 0 then None
        else Some (push\<lparr>dr_sample := dr_sample d @ [total mod psize]\<rparr>)
      })"

definition draw_start :: "nat \<Rightarrow> draw_state" where
  "draw_start n = \<lparr>dr_total = replicate n 0, dr_next = replicate n 0, dr_exhausted = replicate n False,
     dr_index = [], dr_sample = []\<rparr>"

fun draw_samples :: "double list \<Rightarrow> nat list \<Rightarrow> nat \<Rightarrow> draw_state option" where
  "draw_samples weights sizes 0 = Some (draw_start (length weights))"
| "draw_samples weights sizes (Suc n) = do { d \<leftarrow> draw_samples weights sizes n; draw_sample weights sizes n d }"

definition build_weighted_index :: "nat \<Rightarrow> double list \<Rightarrow> nat list \<Rightarrow> (nat list \<times> nat list) option" where
  "build_weighted_index n weights sizes =
     do { d \<leftarrow> draw_samples weights sizes n; Some (dr_index d, dr_sample d) }"

text \<open>The same exchanges in both vectors; \<open>draw i\<close> is the position drawn from \<open>0..=i\<close>.\<close>

fun weighted_shuffle :: "(nat \<Rightarrow> nat) \<Rightarrow> nat \<Rightarrow> nat list \<Rightarrow> nat list \<Rightarrow> (nat list \<times> nat list) option" where
  "weighted_shuffle draw 0 xs ys = Some (xs, ys)"
| "weighted_shuffle draw (Suc i) xs ys =
     do {
       xs' \<leftarrow> swap (Suc i) (draw (Suc i)) xs;
       ys' \<leftarrow> swap (Suc i) (draw (Suc i)) ys;
       weighted_shuffle draw i xs' ys'
     }"

definition weighted_new ::
    "('p \<Rightarrow> nat) \<Rightarrow> (bytes \<Rightarrow> nat \<Rightarrow> nat \<Rightarrow> nat) \<Rightarrow> 'p providers \<Rightarrow> shuffle \<Rightarrow> 'p weighted_provider option" where
  "weighted_new num draw ps shuffle =
     (let weights = provider_weights num ps; providers = provider_list ps
      in if length providers \<noteq> length weights then None
         else let num_samples = sum_list (map num providers);
                  dataset_lengths = map num providers;
                  samples_per_epoch = sum_list dataset_lengths;
                  num_epochs = double_ceil_usize
                    (double_div (double_of (of_nat num_samples)) (double_of (of_nat samples_per_epoch)))
              in do {
                (index, sample) \<leftarrow> build_weighted_index samples_per_epoch weights dataset_lengths;
                (index', sample') \<leftarrow> (case shuffle of
                    Seeded seed \<Rightarrow> weighted_shuffle (draw seed (length index)) (length index - 1) index sample
                  | DontShuffle \<Rightarrow> Some (index, sample));
                Some \<lparr>wp_providers = providers,
                      wp_dataset_index = take num_samples (concat (replicate num_epochs index')),
                      wp_dataset_sample_index = take num_samples (concat (replicate num_epochs sample'))\<rparr>
              })"

definition get_sample_info :: "'p weighted_provider \<Rightarrow> nat \<Rightarrow> nat \<times> nat" where
  "get_sample_info p i =
     (if length (wp_dataset_index p) \<le> i then (0, 0)
      else (wp_dataset_index p ! i, wp_dataset_sample_index p ! i))"

definition weighted_num_sequences :: "'p weighted_provider \<Rightarrow> nat" where
  "weighted_num_sequences p = length (wp_dataset_index p)"

section \<open>Answering a batch\<close>

text \<open>The requests of every provider: the place in the answer and the sample.\<close>

fun push_requests :: "(nat \<times> nat \<times> nat) list \<Rightarrow> (nat \<times> nat) list list \<Rightarrow> (nat \<times> nat) list list option" where
  "push_requests [] reqs = Some reqs"
| "push_requests ((orig, k, s) # xs) reqs =
     do { r \<leftarrow> nth_opt reqs k; push_requests xs (reqs[k := r @ [(orig, s)]]) }"

fun split_ranges :: "(nat \<times> nat) list \<Rightarrow> (nat \<times> nat) list \<Rightarrow> (nat \<times> nat) list list" where
  "split_ranges current [] = [current]"
| "split_ranges current (r # rs) =
     (if snd r = snd (last current) + 1 then split_ranges (current @ [r]) rs
      else current # split_ranges [r] rs)"

text \<open>\<open>results[orig_idx] = sample\<close> for every pair of the range and the samples received.\<close>

definition store_samples :: "(nat \<times> nat) list \<Rightarrow> 'a list \<Rightarrow> 'a list \<Rightarrow> 'a list" where
  "store_samples req xs results = foldl (\<lambda>res (r, x). res[fst r := x]) results (zip req xs)"

type_synonym 'p get_samples = "'p \<Rightarrow> batch_id \<Rightarrow> (provider_error + tokenized_data list) option"

fun fetch_ranges ::
    "'p get_samples \<Rightarrow> 'p \<Rightarrow> (nat \<times> nat) list list \<Rightarrow> tokenized_data list \<Rightarrow>
      (provider_error + tokenized_data list) option" where
  "fetch_ranges get p [] results = Some (Inr results)"
| "fetch_ranges get p (req # ranges) results =
     do {
       answer \<leftarrow> get p (BatchId (ClosedInterval (of_nat (snd (hd req))) (of_nat (snd (last req)))));
       (case answer of
          Inl e \<Rightarrow> Some (Inl e)
        | Inr xs \<Rightarrow> fetch_ranges get p ranges (store_samples req xs results))
     }"

fun fetch_providers ::
    "'p get_samples \<Rightarrow> 'p list \<Rightarrow> (nat \<times> nat) list list \<Rightarrow> tokenized_data list \<Rightarrow>
      (provider_error + tokenized_data list) option" where
  "fetch_providers get (p # ps) (reqs # rest) results =
     (case sort_key snd reqs of
        [] \<Rightarrow> fetch_providers get ps rest results
      | r # rs \<Rightarrow> do {
          answer \<leftarrow> fetch_ranges get p (split_ranges [r] rs) results;
          (case answer of Inl e \<Rightarrow> Some (Inl e) | Inr results' \<Rightarrow> fetch_providers get ps rest results')
        })"
| "fetch_providers get _ _ results = Some (Inr results)"

definition weighted_get_samples ::
    "'p get_samples \<Rightarrow> 'p weighted_provider \<Rightarrow> batch_id \<Rightarrow> (provider_error + tokenized_data list) option" where
  "weighted_get_samples get p b =
     do {
       reqs \<leftarrow> push_requests (enumerate 0 (map (get_sample_info p) (data_ids b))) (replicate (length (wp_providers p)) []);
       n \<leftarrow> batch_id_len b;
       answer \<leftarrow> fetch_providers get (wp_providers p) reqs (replicate (unat n) tokenized_empty);
       Some (case answer of
               Inl e \<Rightarrow> Inl e
             | Inr results \<Rightarrow> if \<exists>v \<in> set results. tk_input_ids v = [] then Inl MissingSamples else Inr results)
     }"

section \<open>The answer is in the order of the request\<close>

text \<open>A run of requests for consecutive samples.\<close>

definition consecutive :: "(nat \<times> nat) list \<Rightarrow> bool" where
  "consecutive r \<longleftrightarrow> r \<noteq> [] \<and> map snd r = [snd (hd r)..<Suc (snd (last r))]"

lemma consecutive_single [simp]: "consecutive [r]"
  by (simp add: consecutive_def)

lemma consecutive_le: "consecutive r \<Longrightarrow> snd (hd r) \<le> snd (last r)"
  by (cases r) (auto simp: consecutive_def split: if_splits)

lemma consecutive_extend: "consecutive r \<Longrightarrow> snd x = Suc (snd (last r)) \<Longrightarrow> consecutive (r @ [x])"
proof -
  assume r: "consecutive r" and x: "snd x = Suc (snd (last r))"
  then have "map snd (r @ [x]) = [snd (hd r)..<Suc (snd (last r))] @ [snd x]" by (simp add: consecutive_def)
  also have "\<dots> = [snd (hd r)..<Suc (snd x)]" using consecutive_le [OF r] x by simp
  finally show ?thesis using r by (simp add: consecutive_def del: upt_Suc)
qed

lemma split_ranges_consecutive: "consecutive current \<Longrightarrow> r \<in> set (split_ranges current rs) \<Longrightarrow> consecutive r"
proof (induction rs arbitrary: current)
  case (Cons x rs)
  then show ?case using Cons.IH [of "current @ [x]"] Cons.IH [of "[x]"] consecutive_extend [of current x]
    by (auto simp del: split_paired_all split: if_splits)
qed simp

lemma split_ranges_concat [simp]: "concat (split_ranges current rs) = current @ rs"
  by (induction rs arbitrary: current) auto

lemma enumerate_iff: "(k, x) \<in> set (enumerate 0 xs) \<longleftrightarrow> k < length xs \<and> x = xs ! k"
  by (auto simp: in_set_enumerate_eq)

text \<open>Every request reaches the list of its provider, and nothing else does.\<close>

lemma push_requests_ok:
  "(\<forall>(orig, k, s) \<in> set xs. k < length reqs) \<Longrightarrow>
    \<exists>reqs'. push_requests xs reqs = Some reqs' \<and> length reqs' = length reqs \<and>
      (\<forall>k < length reqs. set (reqs' ! k) = set (reqs ! k) \<union> {(orig, s). (orig, k, s) \<in> set xs})"
proof (induction xs arbitrary: reqs)
  case (Cons x xs)
  obtain orig k s where x: "x = (orig, k, s)" by (cases x)
  have k: "k < length reqs" using Cons.prems x by simp
  let ?reqs = "reqs[k := reqs ! k @ [(orig, s)]]"
  from Cons.IH [of ?reqs] Cons.prems obtain reqs' where "push_requests xs ?reqs = Some reqs'" "length reqs' = length reqs"
    "\<forall>j < length reqs. set (reqs' ! j) = set (?reqs ! j) \<union> {(orig, s). (orig, j, s) \<in> set xs}" by auto
  then show ?case using k by (auto simp: x nth_opt_def nth_list_update)
qed simp

lemma store_samples_length [simp]: "length (store_samples r xs results) = length results"
proof (induction r arbitrary: xs results)
  case (Cons x r)
  then show ?case by (cases xs) (auto simp: store_samples_def)
qed (simp add: store_samples_def)

text \<open>The places of the answer that already hold what they should.\<close>

definition filled :: "(nat \<Rightarrow> 'a) \<Rightarrow> nat set \<Rightarrow> 'a list \<Rightarrow> bool" where
  "filled target done results \<longleftrightarrow> (\<forall>i \<in> done. i < length results \<longrightarrow> results ! i = target i)"

lemma store_samples_filled:
  "(\<forall>x \<in> set r. f (snd x) = target (fst x)) \<Longrightarrow> filled target done results \<Longrightarrow>
    filled target (done \<union> fst ` set r) (store_samples r (map f (map snd r)) results)"
proof (induction r arbitrary: "done" results)
  case (Cons x r)
  have "filled target (insert (fst x) done) (results[fst x := f (snd x)])"
    unfolding filled_def
  proof (intro ballI impI)
    fix i assume "i \<in> insert (fst x) done" "i < length (results[fst x := f (snd x)])"
    then show "results[fst x := f (snd x)] ! i = target i"
      using Cons.prems by (cases "i = fst x") (auto simp: filled_def)
  qed
  from Cons.IH [OF _ this] Cons.prems(1) show ?case by (simp add: store_samples_def)
qed (simp add: store_samples_def)

text \<open>The counters of the program are \<open>u64\<close>: a provider has fewer than \<open>2\<^sup>6\<^sup>4\<close> samples.\<close>

context sample_source
begin

lemma consecutive_answer:
  assumes "ok p" and "consecutive r" and "\<forall>x \<in> set r. snd x < count p" and "count p < 2 ^ 64"
  shows "get p (BatchId (ClosedInterval (of_nat (snd (hd r))) (of_nat (snd (last r))))) =
    Some (Inr (map (sample p) (map snd r)))"
proof -
  have l: "snd (last r) < count p" using assms(2,3) by (simp add: consecutive_def)
  have le: "snd (hd r) \<le> snd (last r)" by (rule consecutive_le [OF assms(2)])
  then have u: "unat (of_nat (snd (hd r)) :: u64) = snd (hd r)" "unat (of_nat (snd (last r)) :: u64) = snd (last r)"
    using l assms(4) by (simp_all add: unat_of_nat take_bit_nat_eq_self)
  then have "(of_nat (snd (hd r)) :: u64) \<le> of_nat (snd (last r))" using le by (simp only: word_le_nat_alt)
  from in_range [OF assms(1) this] l u assms(2) show ?thesis by (simp add: consecutive_def)
qed

lemma fetch_ranges_filled:
  assumes "ok p" and "count p < 2 ^ 64"
  shows "(\<forall>r \<in> set ranges. consecutive r \<and> (\<forall>x \<in> set r. snd x < count p \<and> sample p (snd x) = target (fst x))) \<Longrightarrow>
    filled target done results \<Longrightarrow>
    \<exists>results'. fetch_ranges get p ranges results = Some (Inr results') \<and> length results' = length results \<and>
      filled target (done \<union> fst ` set (concat ranges)) results'"
proof (induction ranges arbitrary: "done" results)
  case (Cons r ranges)
  have answer: "get p (BatchId (ClosedInterval (of_nat (snd (hd r))) (of_nat (snd (last r))))) =
      Some (Inr (map (sample p) (map snd r)))"
    using Cons.prems(1) by (intro consecutive_answer assms) auto
  have "filled target (done \<union> fst ` set r) (store_samples r (map (sample p) (map snd r)) results)"
    using Cons.prems by (intro store_samples_filled) auto
  from Cons.IH [OF _ this] Cons.prems(1) show ?case by (simp add: answer Un_assoc image_Un)
qed simp

lemma fetch_providers_filled:
  "length reqs = length ps \<Longrightarrow>
    (\<forall>k < length ps. ok (ps ! k) \<and> count (ps ! k) < 2 ^ 64 \<and>
      (\<forall>x \<in> set (reqs ! k). snd x < count (ps ! k) \<and> sample (ps ! k) (snd x) = target (fst x))) \<Longrightarrow>
    filled target done results \<Longrightarrow>
    \<exists>results'. fetch_providers get ps reqs results = Some (Inr results') \<and> length results' = length results \<and>
      filled target (done \<union> fst ` set (concat reqs)) results'"
proof (induction ps arbitrary: reqs "done" results)
  case (Cons p ps)
  obtain r reqs' where reqs: "reqs = r # reqs'" using Cons.prems(1) by (cases reqs) auto
  note k = Cons.prems(2) [rule_format]
  have p: "ok p" "count p < 2 ^ 64" "\<forall>x \<in> set r. snd x < count p \<and> sample p (snd x) = target (fst x)"
    using k [of 0] reqs by auto
  have rest: "\<forall>k < length ps. ok (ps ! k) \<and> count (ps ! k) < 2 ^ 64 \<and>
      (\<forall>x \<in> set (reqs' ! k). snd x < count (ps ! k) \<and> sample (ps ! k) (snd x) = target (fst x))"
    using k [of "Suc i" for i] reqs by auto
  have l: "length reqs' = length ps" using Cons.prems(1) reqs by simp
  show ?case
  proof (cases "sort_key snd r")
    case Nil
    then have "r = []" by (metis set_empty set_sort)
    then show ?thesis using Cons.IH [OF l rest Cons.prems(3)] by (simp add: reqs)
  next
    case (Cons x xs)
    have set: "set (x # xs) = set r" unfolding Cons [symmetric] by simp
    have all: "set (concat (split_ranges [x] xs)) = set r" by (simp only: split_ranges_concat append.simps set)
    have "\<forall>y \<in> set (split_ranges [x] xs). consecutive y \<and>
        (\<forall>z \<in> set y. snd z < count p \<and> sample p (snd z) = target (fst z))"
    proof
      fix y assume y: "y \<in> set (split_ranges [x] xs)"
      then have "set y \<subseteq> set r" unfolding all [symmetric] set_concat by blast
      then show "consecutive y \<and> (\<forall>z \<in> set y. snd z < count p \<and> sample p (snd z) = target (fst z))"
        using p(3) split_ranges_consecutive [OF consecutive_single y] by blast
    qed
    from fetch_ranges_filled [OF p(1,2) this Cons.prems(3)] obtain results1 where
      one: "fetch_ranges get p (split_ranges [x] xs) results = Some (Inr results1)" "length results1 = length results"
      "filled target (done \<union> fst ` set r) results1" unfolding all by blast
    from Cons.IH [OF l rest one(3)] show ?thesis using one by (auto simp: reqs Cons Un_assoc image_Un)
  qed
qed simp

text \<open>A mixture whose index stays inside its providers on the given identifiers.\<close>

definition mixture_ok :: "'p weighted_provider \<Rightarrow> nat set \<Rightarrow> bool" where
  "mixture_ok p ids \<longleftrightarrow> (\<forall>x \<in> set (wp_providers p). ok x \<and> count x < 2 ^ 64) \<and>
     (\<forall>i \<in> ids. fst (get_sample_info p i) < length (wp_providers p) \<and>
       snd (get_sample_info p i) < count (wp_providers p ! fst (get_sample_info p i)))"

definition mixture_sample :: "'p weighted_provider \<Rightarrow> nat \<Rightarrow> tokenized_data" where
  "mixture_sample p i = sample (wp_providers p ! fst (get_sample_info p i)) (snd (get_sample_info p i))"

lemma mixture_get_samples:
  assumes "mixture_ok p {unat start..unat stop}" and "start \<le> stop" and "unat stop - unat start < 2 ^ 64 - 1"
  shows "weighted_get_samples get p (BatchId (ClosedInterval start stop)) =
    Some (Inr (map (mixture_sample p) [unat start..<Suc (unat stop)]))"
proof -
  let ?b = "BatchId (ClosedInterval start stop)"
  let ?ids = "data_ids ?b" and ?ps = "wp_providers p"
  let ?target = "\<lambda>i. mixture_sample p (?ids ! i)"
  have le: "unat start \<le> unat stop" using assms(2) by (simp add: word_le_nat_alt)
  obtain n where n: "batch_id_len ?b = Some n" "unat n = length ?ids"
  proof -
    have d: "unat (stop - start) = unat stop - unat start" using assms(2) by (rule unat_sub)
    then have "unat (stop - start + 1) = Suc (unat stop - unat start)"
      using assms(3) by (subst unat_add_lem [THEN iffD1]) simp_all
    then show thesis using that [of "stop - start + 1"] assms(2,3) d le
      by (simp add: batch_id_len_def checked_sub_def checked_add_def data_ids_def)
  qed
  define xs where "xs = enumerate 0 (map (get_sample_info p) ?ids)"
  have xs: "(i, k, s) \<in> set xs \<longleftrightarrow> i < length ?ids \<and> (k, s) = get_sample_info p (?ids ! i)" for i k s
    by (auto simp: xs_def enumerate_iff)
  have ids: "set ?ids = {unat start..unat stop}" by (auto simp: data_ids_def)
  then have bound: "k < length ?ps" "s < count (?ps ! k)" "sample (?ps ! k) s = ?target i" if "(i, k, s) \<in> set xs" for i k s
    using that assms(1) nth_mem [of i ?ids] by (auto simp: xs mixture_ok_def mixture_sample_def prod_eq_iff)
  from push_requests_ok [of xs "replicate (length ?ps) []"] bound(1) obtain reqs where
    reqs: "push_requests xs (replicate (length ?ps) []) = Some reqs" "length reqs = length ?ps"
    "\<forall>k < length ?ps. set (reqs ! k) = {(i, s). (i, k, s) \<in> set xs}" by auto
  have "\<forall>k < length ?ps. ok (?ps ! k) \<and> count (?ps ! k) < 2 ^ 64 \<and>
      (\<forall>x \<in> set (reqs ! k). snd x < count (?ps ! k) \<and> sample (?ps ! k) (snd x) = ?target (fst x))"
    using assms(1) reqs(3) bound by (auto simp: mixture_ok_def)
  moreover have "filled ?target {} (replicate (length ?ids) tokenized_empty)" by (simp add: filled_def)
  ultimately have "\<exists>results. fetch_providers get ?ps reqs (replicate (length ?ids) tokenized_empty) = Some (Inr results) \<and>
      length results = length (replicate (length ?ids) tokenized_empty) \<and>
      filled ?target ({} \<union> fst ` set (concat reqs)) results" by (rule fetch_providers_filled [OF reqs(2)])
  then obtain results where results:
    "fetch_providers get ?ps reqs (replicate (length ?ids) tokenized_empty) = Some (Inr results)"
    "length results = length ?ids" "filled ?target (fst ` set (concat reqs)) results"
    unfolding length_replicate Un_empty_left by blast
  have "i \<in> fst ` set (concat reqs)" if "i < length ?ids" for i
  proof -
    obtain k s where "get_sample_info p (?ids ! i) = (k, s)" by (rule prod.exhaust)
    then have "(i, k, s) \<in> set xs" using that by (simp add: xs)
    then have "(i, s) \<in> set (reqs ! k)" "k < length reqs" using reqs(2,3) bound(1) by auto
    then show ?thesis by (force simp: in_set_conv_nth)
  qed
  then have "results = map (mixture_sample p) ?ids"
    using results(2,3) by (intro nth_equalityI) (auto simp: filled_def)
  moreover have "\<not> (\<exists>v \<in> set (map (mixture_sample p) ?ids). tk_input_ids v = [])"
    using assms(1) not_empty by (auto simp: mixture_ok_def mixture_sample_def ids)
  ultimately have "weighted_get_samples get p ?b = Some (Inr (map (mixture_sample p) ?ids))"
    using n reqs(1) results(1) by (simp add: weighted_get_samples_def xs_def)
  then show ?thesis by (simp add: data_ids_def)
qed

end

section \<open>The index draws every provider in turn\<close>

text \<open>Whole numbers of samples are exact doubles up to \<open>2\<^sup>5\<^sup>3\<close>.\<close>

lemma rnd64_of_nat: "n \<le> 2 ^ 53 \<Longrightarrow> rnd64 (of_nat n) = of_nat n"
  using rnd64_of_int [of "int n"] by simp

lemma double_of_nat: "n \<le> 2 ^ 53 \<Longrightarrow> double_of (of_nat n) = Finite (of_nat n)"
proof -
  assume n: "n \<le> 2 ^ 53"
  then have "(of_nat n :: rat) \<le> of_nat (2 ^ 53)" by (simp only: of_nat_le_iff)
  also have "\<dots> < 2 ^ 1024" by simp
  finally show ?thesis by (simp add: double_of_def rnd64_of_nat [OF n])
qed

lemma double_of_not_minus_inf:
  assumes "- (2 ^ 53) \<le> x"
  shows "double_of x \<noteq> Infinite False \<and> double_of x \<noteq> NotANumber"
proof -
  have "rnd64 (- of_nat (2 ^ 53)) = - of_nat (2 ^ 53)" unfolding rnd64_minus by (simp only: rnd64_of_nat [OF order_refl])
  then have "- (2 ^ 53) \<le> rnd64 x" using rnd64_mono [OF assms] by simp
  then show ?thesis by (auto simp: double_of_def Let_def)
qed

definition weight_error :: "rat \<Rightarrow> double \<Rightarrow> nat \<Rightarrow> double" where
  "weight_error x w drawn = double_add (double_scale w x) (double_neg (double_of (of_nat drawn)))"

lemma weight_error_comparable:
  assumes "w = Finite r" and "0 \<le> r" and "0 \<le> x" and "drawn \<le> 2 ^ 53"
  shows "double_gt (weight_error x w drawn) (Infinite False)"
proof -
  have "0 \<le> rnd64 (r * x)" using assms(2,3) by (intro rnd64_nonneg) simp
  moreover have "(of_nat drawn :: rat) \<le> of_nat (2 ^ 53)" using assms(4) by (simp only: of_nat_le_iff)
  ultimately have "- (2 ^ 53) \<le> rnd64 (r * x) - of_nat drawn" by simp
  from double_of_not_minus_inf [OF this] show ?thesis using assms(1) double_of_nat [OF assms(4)]
    by (cases "double_of (rnd64 (r * x) - of_nat drawn)")
       (auto simp: weight_error_def double_of_def [of "r * x"] Let_def \<open>0 \<le> rnd64 (r * x)\<close> abs_of_nonneg)
qed

lemma choose_provider_cases:
  "length ws = length sizes \<Longrightarrow> length ds = length sizes \<Longrightarrow>
    choose_provider x ws sizes ds i m c = c \<or>
    (\<exists>k < length sizes. choose_provider x ws sizes ds i m c = i + k \<and> sizes ! k \<noteq> 0)"
proof (induction x ws sizes ds i m c rule: choose_provider.induct)
  case (1 x w ws sz sizes d ds i m c)
  let ?err = "double_add (double_scale w x) (double_neg (double_of (of_nat d)))"
  show ?case
  proof (cases "sz \<noteq> 0 \<and> double_gt ?err m")
    case True
    then show ?thesis using 1 by (fastforce simp: Let_def)
  next
    case False
    then show ?thesis using 1(2) [OF refl False] 1(3,4) by (fastforce simp: Let_def)
  qed
qed auto

lemma choose_provider_valid:
  "length ws = length sizes \<Longrightarrow> length ds = length sizes \<Longrightarrow>
    \<exists>k < length sizes. sizes ! k \<noteq> 0 \<and> double_gt (weight_error x (ws ! k) (ds ! k)) (Infinite False) \<Longrightarrow>
    \<exists>k < length sizes. choose_provider x ws sizes ds i (Infinite False) c = i + k \<and> sizes ! k \<noteq> 0"
proof (induction ws arbitrary: sizes ds i c)
  case (Cons w ws)
  obtain sz sizes' where sizes: "sizes = sz # sizes'" using Cons.prems by (cases sizes) auto
  obtain d ds' where ds: "ds = d # ds'" using Cons.prems by (cases ds) auto
  let ?err = "weight_error x w d"
  show ?case
  proof (cases "sz \<noteq> 0 \<and> double_gt ?err (Infinite False)")
    case True
    then have "choose_provider x (w # ws) sizes ds i (Infinite False) c = choose_provider x ws sizes' ds' (Suc i) ?err i"
      by (simp add: sizes ds weight_error_def Let_def)
    then show ?thesis using choose_provider_cases [of ws sizes' ds' x "Suc i" ?err i] True Cons.prems
      by (fastforce simp: sizes ds)
  next
    case False
    then have "choose_provider x (w # ws) sizes ds i (Infinite False) c =
        choose_provider x ws sizes' ds' (Suc i) (Infinite False) c"
      by (auto simp: sizes ds weight_error_def Let_def)
    moreover have "\<exists>k < length sizes'. sizes' ! k \<noteq> 0 \<and> double_gt (weight_error x (ws ! k) (ds' ! k)) (Infinite False)"
      using Cons.prems(3) False by (auto simp: sizes ds less_Suc_eq_0_disj)
    ultimately show ?thesis using Cons.IH [of sizes' ds' "Suc i" c] Cons.prems(1,2) by (fastforce simp: sizes ds)
  qed
qed simp

text \<open>The reference: every draw of a provider yields its next sample, from the beginning again after the last.\<close>

definition next_in_turn :: "nat list \<Rightarrow> nat list \<Rightarrow> nat \<Rightarrow> nat" where
  "next_in_turn sizes index j = count_list (take j index) (index ! j) mod sizes ! (index ! j)"

definition draws_ok :: "nat list \<Rightarrow> draw_state \<Rightarrow> bool" where
  "draws_ok sizes d \<longleftrightarrow>
     length (dr_total d) = length sizes \<and> length (dr_next d) = length sizes \<and>
     length (dr_exhausted d) = length sizes \<and> length (dr_sample d) = length (dr_index d) \<and>
     (\<forall>k < length sizes. dr_total d ! k = count_list (dr_index d) k \<and>
       (0 < sizes ! k \<longrightarrow> dr_next d ! k = min (count_list (dr_index d) k) (sizes ! k) \<and>
         (dr_exhausted d ! k \<longleftrightarrow> sizes ! k \<le> count_list (dr_index d) k))) \<and>
     (\<forall>j < length (dr_index d). dr_index d ! j < length sizes \<and> 0 < sizes ! (dr_index d ! j) \<and>
       dr_sample d ! j = next_in_turn sizes (dr_index d) j)"

lemma next_in_turn_append: "j < length index \<Longrightarrow> next_in_turn sizes (index @ [c]) j = next_in_turn sizes index j"
  by (simp add: next_in_turn_def nth_append)

lemma next_in_turn_last: "next_in_turn sizes (index @ [c]) (length index) = count_list index c mod sizes ! c"
  by (simp add: next_in_turn_def)

lemma draws_ok_push:
  assumes d: "draws_ok sizes d" and c: "c < length sizes" "0 < sizes ! c"
    and d': "dr_index d' = dr_index d @ [c]" "dr_total d' = (dr_total d)[c := dr_total d ! c + 1]"
      "dr_sample d' = dr_sample d @ [count_list (dr_index d) c mod sizes ! c]"
      "dr_next d' = (dr_next d)[c := min (Suc (count_list (dr_index d) c)) (sizes ! c)]"
      "dr_exhausted d' = (dr_exhausted d)[c := sizes ! c \<le> Suc (count_list (dr_index d) c)]"
  shows "draws_ok sizes d'"
proof -
  have "dr_sample d' ! j = next_in_turn sizes (dr_index d') j \<and> dr_index d' ! j < length sizes \<and> 0 < sizes ! (dr_index d' ! j)"
    if "j < length (dr_index d')" for j
  proof (cases "j = length (dr_index d)")
    case True
    then show ?thesis using d c by (simp add: d' draws_ok_def next_in_turn_last nth_append)
  next
    case False
    then have "j < length (dr_index d)" using that by (simp add: d')
    then show ?thesis using d by (simp add: d' draws_ok_def next_in_turn_append nth_append)
  qed
  moreover have "dr_total d' ! k = count_list (dr_index d') k \<and>
      (0 < sizes ! k \<longrightarrow> dr_next d' ! k = min (count_list (dr_index d') k) (sizes ! k) \<and>
        (dr_exhausted d' ! k \<longleftrightarrow> sizes ! k \<le> count_list (dr_index d') k))" if "k < length sizes" for k
    using that d c by (cases "k = c") (simp_all add: d' draws_ok_def)
  ultimately show ?thesis using d by (simp add: draws_ok_def d')
qed

lemma draw_sample_ok:
  assumes d: "draws_ok sizes d" and w: "length weights = length sizes"
    and good: "\<exists>k < length sizes. sizes ! k \<noteq> 0 \<and> (\<exists>r \<ge> 0. weights ! k = Finite r)"
    and n: "length (dr_index d) \<le> 2 ^ 53"
  shows "\<exists>d'. draw_sample weights sizes i d = Some d' \<and> draws_ok sizes d' \<and> length (dr_index d') = Suc (length (dr_index d))"
proof -
  let ?x = "max (rnd64 (of_nat i)) 1"
  have t: "dr_total d ! k \<le> 2 ^ 53" if "k < length sizes" for k
    using d that n count_le_length [of "dr_index d" k] by (auto simp: draws_ok_def)
  have "\<exists>k < length sizes. sizes ! k \<noteq> 0 \<and> double_gt (weight_error ?x (weights ! k) (dr_total d ! k)) (Infinite False)"
    using good t weight_error_comparable [of _ _ ?x] by (metis le_max_iff_disj zero_le_one)
  moreover have "length (dr_total d) = length sizes" using d by (simp add: draws_ok_def)
  ultimately obtain c where c: "c < length sizes" "0 < sizes ! c"
    "choose_provider ?x weights sizes (dr_total d) 0 (Infinite False) 0 = c"
    using choose_provider_valid [OF w, of "dr_total d" ?x 0 0] by auto
  note s = d [unfolded draws_ok_def]
  have nth: "nth_opt sizes c = Some (sizes ! c)" "nth_opt (dr_exhausted d) c = Some (dr_exhausted d ! c)"
    "nth_opt (dr_next d) c = Some (dr_next d ! c)" "nth_opt (dr_total d) c = Some (dr_total d ! c)"
    using s c(1) by (simp_all add: nth_opt_def)
  let ?n = "count_list (dr_index d) c"
  have v: "dr_total d ! c = ?n" "dr_next d ! c = min ?n (sizes ! c)" "dr_exhausted d ! c \<longleftrightarrow> sizes ! c \<le> ?n"
    using s c by simp_all
  show ?thesis
  proof (cases "sizes ! c \<le> ?n")
    case True
    then have e: "draw_sample weights sizes i d = Some (d\<lparr>dr_index := dr_index d @ [c],
        dr_total := (dr_total d)[c := ?n + 1], dr_sample := dr_sample d @ [?n mod sizes ! c]\<rparr>)"
      using c nth v by (simp add: draw_sample_def Let_def)
    have "(dr_next d)[c := sizes ! c] = dr_next d" "(dr_exhausted d)[c := True] = dr_exhausted d"
      using True v c s by (simp_all add: list_update_same_conv)
    then show ?thesis unfolding e using True v by (auto intro!: draws_ok_push [OF d c(1,2)] simp: min_def)
  next
    case False
    then have e: "draw_sample weights sizes i d = Some (d\<lparr>dr_index := dr_index d @ [c],
        dr_total := (dr_total d)[c := ?n + 1], dr_sample := dr_sample d @ [?n],
        dr_next := (dr_next d)[c := ?n + 1],
        dr_exhausted := (if ?n + 1 = sizes ! c then (dr_exhausted d)[c := True] else dr_exhausted d)\<rparr>)"
      using c nth v by (simp add: draw_sample_def Let_def)
    have "(dr_exhausted d)[c := False] = dr_exhausted d" using False v c s by (simp add: list_update_same_conv)
    then have "(if ?n + 1 = sizes ! c then (dr_exhausted d)[c := True] else dr_exhausted d) =
        (dr_exhausted d)[c := sizes ! c \<le> Suc ?n]" using False by (cases "Suc ?n = sizes ! c") auto
    then show ?thesis unfolding e using False v by (auto intro!: draws_ok_push [OF d c(1,2)] simp: min_def)
  qed
qed

lemma draw_samples_ok:
  assumes "length weights = length sizes" and "\<exists>k < length sizes. sizes ! k \<noteq> 0 \<and> (\<exists>r \<ge> 0. weights ! k = Finite r)"
  shows "n \<le> 2 ^ 53 \<Longrightarrow> \<exists>d. draw_samples weights sizes n = Some d \<and> draws_ok sizes d \<and> length (dr_index d) = n"
proof (induction n)
  case 0
  then show ?case using assms(1) by (auto simp: draw_start_def draws_ok_def)
next
  case (Suc n)
  then obtain d where d: "draw_samples weights sizes n = Some d" "draws_ok sizes d" "length (dr_index d) = n" by auto
  with draw_sample_ok [OF d(2) assms, of n] Suc.prems show ?case by simp
qed

lemma build_weighted_index_ok:
  assumes "length weights = length sizes" and "n \<le> 2 ^ 53"
    and "n = 0 \<or> (\<exists>k < length sizes. sizes ! k \<noteq> 0 \<and> (\<exists>r \<ge> 0. weights ! k = Finite r))"
  obtains index where "build_weighted_index n weights sizes = Some (index, map (next_in_turn sizes index) [0..<n])"
    and "length index = n" and "\<forall>k \<in> set index. k < length sizes \<and> 0 < sizes ! k"
proof (cases "n = 0")
  case True
  then show thesis using that by (simp add: build_weighted_index_def draw_start_def)
next
  case False
  with assms(3) obtain d where d: "draw_samples weights sizes n = Some d" "draws_ok sizes d" "length (dr_index d) = n"
    using draw_samples_ok [OF assms(1) _ assms(2)] by blast
  then have "dr_sample d = map (next_in_turn sizes (dr_index d)) [0..<n]"
    by (intro nth_equalityI) (auto simp: draws_ok_def)
  moreover have "\<forall>k \<in> set (dr_index d). k < length sizes \<and> 0 < sizes ! k"
    using d(2) by (auto simp: draws_ok_def in_set_conv_nth)
  ultimately show thesis using that [of "dr_index d"] d(1,3) by (simp add: build_weighted_index_def)
qed

lemma zip_swap:
  assumes "length xs = length ys" and "swap i j xs = Some xs'" and "swap i j ys = Some ys'"
  shows "swap i j (zip xs ys) = Some (zip xs' ys')"
  using assms by (auto simp: swap_def nth_zip zip_update [symmetric] split: if_splits)

lemma weighted_shuffle_ok:
  "length xs = length ys \<Longrightarrow> n < length xs \<or> n = 0 \<Longrightarrow> (\<forall>i. draw i \<le> i) \<Longrightarrow>
    \<exists>xs' ys'. weighted_shuffle draw n xs ys = Some (xs', ys') \<and> length xs' = length xs \<and> length ys' = length ys \<and>
      mset (zip xs' ys') = mset (zip xs ys)"
proof (induction n arbitrary: xs ys)
  case (Suc i)
  have j: "draw (Suc i) < length xs" using Suc.prems by (metis le_less_trans nat.simps(3))
  then obtain xs' ys' where sw: "swap (Suc i) (draw (Suc i)) xs = Some xs'" "swap (Suc i) (draw (Suc i)) ys = Some ys'"
    using Suc.prems by (auto simp: swap_def)
  have l: "length xs' = length xs" "length ys' = length ys" using swap_mset sw by blast+
  have "mset (zip xs' ys') = mset (zip xs ys)" using zip_swap [OF Suc.prems(1) sw] swap_mset by blast
  moreover have "\<exists>a b. weighted_shuffle draw i xs' ys' = Some (a, b) \<and> length a = length xs' \<and> length b = length ys' \<and>
      mset (zip a b) = mset (zip xs' ys')" using Suc.prems l by (intro Suc.IH) auto
  ultimately show ?case using sw l by auto
qed simp

lemma double_of_unit: "0 \<le> x \<Longrightarrow> x \<le> 1 \<Longrightarrow> \<exists>r \<ge> 0. double_of x = Finite r"
proof -
  assume x: "0 \<le> x" "x \<le> 1"
  have "rnd64 x \<le> 1" using rnd64_mono [OF x(2)] rnd64_of_nat [of 1] by simp
  then show ?thesis using rnd64_nonneg [OF x(1)] by (auto simp: double_of_def Let_def)
qed

lemma length_sum_exact:
  "a + sum_list (map num ls) \<le> 2 ^ 53 \<Longrightarrow>
    foldl double_add (Finite (of_nat a)) (map (\<lambda>p. double_of (of_nat (num p))) ls) = Finite (of_nat (a + sum_list (map num ls)))"
proof (induction ls arbitrary: a)
  case (Cons p ls)
  then have "double_of (of_nat (num p)) = Finite (of_nat (num p))" "double_of (of_nat (a + num p)) = Finite (of_nat (a + num p))"
    by (intro double_of_nat; simp)+
  then show ?case using Cons.IH [of "a + num p"] Cons.prems by (simp add: add.assoc)
qed simp

text \<open>Weights that come from the lengths always select a provider.\<close>

definition some_weight :: "('p \<Rightarrow> nat) \<Rightarrow> 'p providers \<Rightarrow> bool" where
  "some_weight num ps \<longleftrightarrow> (\<exists>k < length (provider_list ps). num (provider_list ps ! k) \<noteq> 0 \<and>
     (\<exists>r \<ge> 0. provider_weights num ps ! k = Finite r))"

lemma length_weights_usable:
  assumes "sum_list (map num ls) \<le> 2 ^ 53" and "sum_list (map num ls) \<noteq> 0"
  shows "some_weight num (LengthWeighted ls)"
proof -
  let ?t = "sum_list (map num ls)"
  obtain k where k: "k < length ls" "num (ls ! k) \<noteq> 0" using assms(2) by (auto simp: in_set_conv_nth)
  have le: "num (ls ! k) \<le> ?t" using k(1) by (intro member_le_sum_list) simp_all
  then have "double_of (of_nat (num (ls ! k))) = Finite (of_nat (num (ls ! k)))" using assms(1) by (intro double_of_nat) simp
  moreover have "foldl double_add (Finite 0) (map (\<lambda>p. double_of (of_nat (num p))) ls) = Finite (of_nat ?t)"
    using length_sum_exact [of 0 num ls] assms(1) by simp
  moreover have "(of_nat ?t :: rat) \<noteq> 0" using assms(2) by (simp only: of_nat_eq_0_iff not_False_eq_True)
  ultimately have "provider_weights num (LengthWeighted ls) ! k = double_of (of_nat (num (ls ! k)) / of_nat ?t)"
    using k(1) by (simp add: normalize_def Let_def del: of_nat_eq_0_iff sum_list_eq_0_iff)
  moreover have "\<exists>r \<ge> 0. double_of (of_nat (num (ls ! k)) / of_nat ?t) = Finite r"
    using le by (intro double_of_unit) (auto simp: divide_le_eq_1)
  ultimately show ?thesis using k by (auto simp: some_weight_def)
qed

lemma one_epoch: "n \<le> 2 ^ 53 \<Longrightarrow> n \<noteq> 0 \<Longrightarrow>
    double_ceil_usize (double_div (double_of (of_nat n)) (double_of (of_nat n))) = 1"
  using double_of_nat [of 1] by (simp add: double_of_nat)

lemma provider_weights_length [simp]: "length (provider_weights num ps) = length (provider_list ps)"
  by (cases ps) (simp_all add: normalize_def Let_def)

lemma weighted_new_ok:
  assumes total: "sum_list (map num (provider_list ps)) \<le> 2 ^ 53"
    and weight: "sum_list (map num (provider_list ps)) = 0 \<or> some_weight num ps" and draw: "\<forall>seed n i. draw seed n i \<le> i"
  obtains p index where "weighted_new num draw ps shuffle = Some p" and "wp_providers p = provider_list ps"
    and "length index = sum_list (map num (provider_list ps))"
    and "length (wp_dataset_index p) = length index" and "length (wp_dataset_sample_index p) = length index"
    and "\<forall>k \<in> set index. k < length (provider_list ps) \<and> 0 < num (provider_list ps ! k)"
    and "mset (zip (wp_dataset_index p) (wp_dataset_sample_index p)) =
      mset (zip index (map (next_in_turn (map num (provider_list ps)) index) [0..<length index]))"
    and "shuffle = DontShuffle \<Longrightarrow> wp_dataset_index p = index \<and>
      wp_dataset_sample_index p = map (next_in_turn (map num (provider_list ps)) index) [0..<length index]"
proof -
  let ?l = "provider_list ps" and ?w = "provider_weights num ps"
  let ?n = "sum_list (map num ?l)"
  have good: "?n = 0 \<or> (\<exists>k < length (map num ?l). map num ?l ! k \<noteq> 0 \<and> (\<exists>r \<ge> 0. ?w ! k = Finite r))"
    using weight by (auto simp: some_weight_def)
  obtain index where index: "build_weighted_index ?n ?w (map num ?l) = Some (index, map (next_in_turn (map num ?l) index) [0..<?n])"
    "length index = ?n" "\<forall>k \<in> set index. k < length (map num ?l) \<and> 0 < map num ?l ! k"
    by (rule build_weighted_index_ok [OF _ total good]) simp
  let ?s = "map (next_in_turn (map num ?l) index) [0..<?n]"
  obtain xs ys where xy: "(case shuffle of Seeded seed \<Rightarrow> weighted_shuffle (draw seed (length index)) (length index - 1) index ?s
        | DontShuffle \<Rightarrow> Some (index, ?s)) = Some (xs, ys)"
    and l: "length xs = ?n" "length ys = ?n" and m: "mset (zip xs ys) = mset (zip index ?s)"
    and dont: "shuffle = DontShuffle \<Longrightarrow> xs = index \<and> ys = ?s"
  proof (cases shuffle)
    case (Seeded seed)
    have "\<exists>a b. weighted_shuffle (draw seed (length index)) (length index - 1) index ?s = Some (a, b) \<and>
        length a = length index \<and> length b = length ?s \<and> mset (zip a b) = mset (zip index ?s)"
      using index(2) draw by (intro weighted_shuffle_ok) auto
    then show thesis using that Seeded index(2) by auto
  qed (use that index(2) in auto)
  have "take ?n (concat (replicate (double_ceil_usize (double_div (double_of (of_nat ?n)) (double_of (of_nat ?n)))) zs)) = zs"
    if "length zs = ?n" for zs :: "nat list"
    using that one_epoch [OF total] by (cases "?n = 0") simp_all
  then have "weighted_new num draw ps shuffle =
      Some \<lparr>wp_providers = ?l, wp_dataset_index = xs, wp_dataset_sample_index = ys\<rparr>"
    using index(1) xy l by (simp add: weighted_new_def Let_def)
  moreover have "\<forall>k \<in> set index. k < length ?l \<and> 0 < num (?l ! k)" using index(3) by auto
  ultimately show thesis using that [OF _ _ index(2)] index(2) l m dont by auto
qed

section \<open>Properties of a mixture\<close>

text \<open>
  C34. A mixture of at most \<open>2\<^sup>5\<^sup>3\<close> samples, one of whose non-empty providers has a finite weight that is not
  negative, is always built. Its index has as many entries as the providers have samples together, names only
  non-empty providers, and the entries of a provider are its samples in turn: the \<open>n\<close>-th draw of a provider is its
  sample \<open>n\<close> modulo its length, so no sample is drawn twice before all of them were drawn, although the code counts
  with a unique index, an exhausted flag and a total. A shuffle only permutes the entries.
\<close>

theorem mixture_index_in_turn:
  assumes "sum_list (map num (provider_list ps)) \<le> 2 ^ 53" and "some_weight num ps"
    and "\<forall>seed n i. draw seed n i \<le> i"
  shows "\<exists>p index. weighted_new num draw ps s = Some p \<and> wp_providers p = provider_list ps \<and>
    length index = sum_list (map num (provider_list ps)) \<and> weighted_num_sequences p = length index \<and>
    set index \<subseteq> {k. k < length (provider_list ps) \<and> 0 < num (provider_list ps ! k)} \<and>
    mset (zip (wp_dataset_index p) (wp_dataset_sample_index p)) =
      mset (map (\<lambda>j. (index ! j, count_list (take j index) (index ! j) mod num (provider_list ps ! (index ! j))))
        [0..<length index]) \<and>
    (s = DontShuffle \<longrightarrow> wp_dataset_index p = index)"
proof -
  let ?l = "provider_list ps"
  obtain p index where p: "weighted_new num draw ps s = Some p" "wp_providers p = ?l"
    "length index = sum_list (map num ?l)" "length (wp_dataset_index p) = length index"
    "length (wp_dataset_sample_index p) = length index" "\<forall>k \<in> set index. k < length ?l \<and> 0 < num (?l ! k)"
    "mset (zip (wp_dataset_index p) (wp_dataset_sample_index p)) =
      mset (zip index (map (next_in_turn (map num ?l) index) [0..<length index]))"
    "s = DontShuffle \<Longrightarrow> wp_dataset_index p = index \<and>
      wp_dataset_sample_index p = map (next_in_turn (map num ?l) index) [0..<length index]"
    using weighted_new_ok [OF assms(1) _ assms(3), of s] assms(2) by metis
  have "zip index (map (next_in_turn (map num ?l) index) [0..<length index]) =
      map (\<lambda>j. (index ! j, count_list (take j index) (index ! j) mod num (?l ! (index ! j)))) [0..<length index]"
    using p(6) by (intro nth_equalityI) (simp_all add: next_in_turn_def)
  then show ?thesis using p by (intro exI [of _ p] exI [of _ index]) (auto simp: weighted_num_sequences_def)
qed

definition sample_draw :: "bytes \<Rightarrow> nat \<Rightarrow> nat \<Rightarrow> nat" where
  "sample_draw seed n i = i div 2"

definition sample_local :: "nat \<Rightarrow> bytes \<Rightarrow> local_provider" where
  "sample_local n file = \<lparr>lp_data_files = [file], lp_sequences = map (\<lambda>i. \<lparr>sp_file_index = 0, sp_byte_offset = 2 * i\<rparr>) [0..<n],
     lp_seq_len = 1, lp_token_size = TwoBytes\<rparr>"

definition sample_mixture :: "local_provider list" where
  "sample_mixture = [sample_local 1 [1, 0, 9], sample_local 0 [], sample_local 3 [5, 0, 6, 0, 7, 0, 9]]"

lemma sample_mixture_size [simp]: "sum_list (map local_num_sequences sample_mixture) = 4"
  by (simp add: local_num_sequences_def sample_local_def sample_mixture_def)

theorem mixture_index_in_turn_witness:
  "\<exists>p (index :: nat list). weighted_new local_num_sequences sample_draw (LengthWeighted sample_mixture) (Seeded []) = Some p \<and>
    wp_providers p = sample_mixture \<and> length index = 4 \<and> weighted_num_sequences p = 4 \<and> set index \<subseteq> {0, 2}"
proof -
  have w: "some_weight local_num_sequences (LengthWeighted sample_mixture)"
    by (rule length_weights_usable) (simp_all only: sample_mixture_size, simp_all)
  have "\<forall>seed n i. sample_draw seed n i \<le> i" by (simp add: sample_draw_def)
  from mixture_index_in_turn [OF _ w this, of "Seeded []", unfolded provider_list.simps sample_mixture_size]
  obtain p index where "weighted_new local_num_sequences sample_draw (LengthWeighted sample_mixture) (Seeded []) = Some p"
    "wp_providers p = sample_mixture" "length index = 4" "weighted_num_sequences p = length index"
    "set index \<subseteq> {k. k < length sample_mixture \<and> 0 < local_num_sequences (sample_mixture ! k)}" by auto
  moreover have "{k. k < length sample_mixture \<and> 0 < local_num_sequences (sample_mixture ! k)} \<subseteq> {0, 2}"
    by (auto simp: local_num_sequences_def sample_local_def sample_mixture_def less_Suc_eq nth_Cons')
  ultimately show ?thesis by (intro exI [of _ p] exI [of _ index]) simp
qed

text \<open>
  C19. A mixture of local providers, weighted by their lengths, answers every batch inside it with exactly the
  samples its index names, in the order of the batch: the code groups the requests by provider, sorts them, merges
  neighbouring samples into ranges, fetches every range with one call and writes each sample back to its place;
  duplicates and interleaved providers do not disturb the order, and no sample is missing.
\<close>

theorem mixture_batch_in_order:
  assumes "sum_list (map local_num_sequences ls) \<le> 2 ^ 53" and "\<forall>l \<in> set ls. local_ok l" and "\<forall>seed n i. draw seed n i \<le> i"
    and "start \<le> stop" and "unat stop < sum_list (map local_num_sequences ls)"
  shows "\<exists>p. weighted_new local_num_sequences draw (LengthWeighted ls) s = Some p \<and>
    weighted_get_samples local_get_samples p (BatchId (ClosedInterval start stop)) =
      Some (Inr (map (\<lambda>i. local_nth (ls ! (wp_dataset_index p ! i)) (wp_dataset_sample_index p ! i))
        [unat start..<Suc (unat stop)]))"
proof -
  let ?n = "sum_list (map local_num_sequences ls)"
  have w: "some_weight local_num_sequences (LengthWeighted ls)"
    using assms(5) by (intro length_weights_usable assms(1)) linarith
  obtain p index where p: "weighted_new local_num_sequences draw (LengthWeighted ls) s = Some p" "wp_providers p = ls"
    "length index = ?n" "length (wp_dataset_index p) = length index" "length (wp_dataset_sample_index p) = length index"
    "\<forall>k \<in> set index. k < length ls \<and> 0 < local_num_sequences (ls ! k)"
    "mset (zip (wp_dataset_index p) (wp_dataset_sample_index p)) =
      mset (zip index (map (next_in_turn (map local_num_sequences ls) index) [0..<length index]))"
    using weighted_new_ok [of local_num_sequences "LengthWeighted ls" draw s] assms(1,3) w
    by (metis provider_list.simps(2))
  have range: "wp_dataset_index p ! i < length ls \<and>
      wp_dataset_sample_index p ! i < local_num_sequences (ls ! (wp_dataset_index p ! i))" if "i < ?n" for i
  proof -
    have "(wp_dataset_index p ! i, wp_dataset_sample_index p ! i) \<in> set (zip (wp_dataset_index p) (wp_dataset_sample_index p))"
      using that p(3-5) by (auto simp: set_zip)
    also have "\<dots> = set (zip index (map (next_in_turn (map local_num_sequences ls) index) [0..<length index]))"
      using p(7) by (rule mset_eq_setD)
    finally show ?thesis using p(6) by (auto simp: set_zip next_in_turn_def)
  qed
  have "local_num_sequences l < 2 ^ 64" if "l \<in> set ls" for l
  proof -
    have "local_num_sequences l \<le> ?n" using that by (intro member_le_sum_list) auto
    then show ?thesis using assms(1) by simp
  qed
  then have "local_source.mixture_ok p {unat start..unat stop}"
    using range assms(2,5) p(2-4) by (auto simp: local_source.mixture_ok_def get_sample_info_def)
  moreover have "unat stop - unat start < 2 ^ 64 - 1" using assms(1,5) by simp
  ultimately have "weighted_get_samples local_get_samples p (BatchId (ClosedInterval start stop)) =
      Some (Inr (map (local_source.mixture_sample p) [unat start..<Suc (unat stop)]))"
    by (intro local_source.mixture_get_samples assms(4))
  moreover have "local_source.mixture_sample p i = local_nth (ls ! (wp_dataset_index p ! i)) (wp_dataset_sample_index p ! i)"
    if "i < Suc (unat stop)" for i
    using that assms(5) p(2-4) by (simp add: local_source.mixture_sample_def get_sample_info_def)
  ultimately show ?thesis using p(1) by (intro exI [of _ p]) (auto simp del: upt_Suc)
qed

theorem mixture_batch_in_order_witness:
  "\<exists>p. weighted_new local_num_sequences sample_draw (LengthWeighted sample_mixture) (Seeded []) = Some p \<and>
    weighted_get_samples local_get_samples p (BatchId (ClosedInterval 1 2)) =
      Some (Inr (map (\<lambda>i. local_nth (sample_mixture ! (wp_dataset_index p ! i)) (wp_dataset_sample_index p ! i)) [1, 2]))"
proof -
  have "\<forall>l \<in> set sample_mixture. local_ok l"
    by (simp add: local_ok_def pointer_ok_def sample_local_def sample_mixture_def numeral_3_eq_3)
  moreover have "\<forall>seed n i. sample_draw seed n i \<le> i" by (simp add: sample_draw_def)
  moreover have "[unat (1 :: u64)..<Suc (unat (2 :: u64))] = [1, 2]" by (simp add: upt_rec)
  ultimately show ?thesis
    using mixture_batch_in_order [of sample_mixture sample_draw 1 2 "Seeded []", unfolded sample_mixture_size] by (simp del: upt_Suc)
qed

end
