(* ===== verification/Tcp_Server.thy ===== *)
theory Tcp_Server
  imports Psyche_Prelude "HOL-Library.Monad_Syntax"
begin

text \<open>
  Authenticated TCP (\<open>src/shared/network/src/tcp.rs\<close>, \<open>signed_message.rs\<close>) and the identity of the centralized
  programs (\<open>ClientId\<close> in \<open>src/architectures/centralized/shared/src/protocol.rs\<close>). Signatures and the postcard
  encoding belong to other crates and are arguments. A frame is what decoding made of it. Every connection is a
  task of its own: the steps of the tasks, of the dispatcher of outgoing messages and of the owner of the server
  interleave in any order.
\<close>

section \<open>Signed messages\<close>

record signed_message =
  sm_from :: bytes
  sm_data :: bytes
  sm_signature :: bytes

record ('k, 'm) signing =
  sg_public :: "'k \<Rightarrow> bytes"
  sg_sign :: "'k \<Rightarrow> bytes \<Rightarrow> bytes"
  sg_verify :: "bytes \<Rightarrow> bytes \<Rightarrow> bytes \<Rightarrow> bool"
  sg_encode :: "signed_message \<Rightarrow> bytes"
  sg_decode :: "bytes \<Rightarrow> signed_message option"
  sg_encode_data :: "'m \<Rightarrow> bytes"
  sg_decode_data :: "bytes \<Rightarrow> 'm option"

definition verify_and_decode :: "('k, 'm) signing \<Rightarrow> bytes \<Rightarrow> (bytes \<times> 'm) option" where
  "verify_and_decode G bs =
     do {
       m \<leftarrow> sg_decode G bs;
       if sg_verify G (sm_from m) (sm_data m) (sm_signature m)
       then do { x \<leftarrow> sg_decode_data G (sm_data m); Some (sm_from m, x) }
       else None
     }"

definition sign_and_encode :: "('k, 'm) signing \<Rightarrow> 'k \<Rightarrow> 'm \<Rightarrow> bytes" where
  "sign_and_encode G k m =
     (let payload = sg_encode_data G m
      in sg_encode G \<lparr>sm_from = sg_public G k, sm_data = payload, sm_signature = sg_sign G k payload\<rparr>)"

datatype from_signed_bytes_error = Deserialize | MismatchedChallenge bytes bytes

definition from_signed_challenge_bytes ::
    "('k, bytes) signing \<Rightarrow> bytes \<Rightarrow> bytes \<Rightarrow> from_signed_bytes_error + bytes" where
  "from_signed_challenge_bytes G bs challenge =
     (case verify_and_decode G bs of
        None \<Rightarrow> Inl Deserialize
      | Some (key, decoded) \<Rightarrow> if decoded \<noteq> challenge then Inl (MismatchedChallenge challenge decoded) else Inr key)"

text \<open>The assertion that the key belongs to the identity is a panic.\<close>

definition to_signed_challenge_bytes :: "('k, bytes) signing \<Rightarrow> bytes \<Rightarrow> 'k \<Rightarrow> bytes \<Rightarrow> bytes option" where
  "to_signed_challenge_bytes G identity k challenge =
     (if sg_public G k \<noteq> identity then None else Some (sign_and_encode G k challenge))"

section \<open>The server\<close>

datatype 'm received = ChallengeResponse bytes | Else 'm | Undecodable | ReadError | EndOfStream

datatype ('i, 'o) connection =
    AwaitResponse bytes
  | Joined 'i "'o list"

text \<open>
  \<open>ts_clients\<close> holds the sending end of a connection's queue, \<open>ts_written\<close> what was written to the sockets.
  Connections that ended are in \<open>ts_used\<close> and no longer in \<open>ts_conns\<close>.
\<close>

record ('i, 'm, 'o) tcp_server =
  ts_clients :: "'i \<Rightarrow> nat option"
  ts_conns :: "nat \<Rightarrow> ('i, 'o) connection option"
  ts_used :: "nat set"
  ts_incoming :: "('i \<times> 'm) list"
  ts_outgoing :: "('i \<times> 'o) list"
  ts_disconnected :: "'i list"
  ts_written :: "(nat \<times> 'o) list"

definition tcp_start :: "('i, 'm, 'o) tcp_server" where
  "tcp_start = \<lparr>ts_clients = Map.empty, ts_conns = Map.empty, ts_used = {}, ts_incoming = [], ts_outgoing = [],
     ts_disconnected = [], ts_written = []\<rparr>"

text \<open>A connection that ends by an error of \<open>?\<close> or \<open>bail!\<close> leaves without the clean-up after the loop.\<close>

definition conn_abort :: "nat \<Rightarrow> ('i, 'm, 'o) tcp_server \<Rightarrow> ('i, 'm, 'o) tcp_server" where
  "conn_abort c s = s\<lparr>ts_conns := (ts_conns s)(c := None)\<rparr>"

definition conn_close :: "nat \<Rightarrow> 'i \<Rightarrow> ('i, 'm, 'o) tcp_server \<Rightarrow> ('i, 'm, 'o) tcp_server" where
  "conn_close c i s = s\<lparr>ts_conns := (ts_conns s)(c := None), ts_clients := (ts_clients s)(i := None),
     ts_disconnected := ts_disconnected s @ [i]\<rparr>"

text \<open>\<open>handle_connection\<close> up to the challenge, and on every frame it reads.\<close>

definition conn_accept :: "nat \<Rightarrow> bytes \<Rightarrow> ('i, 'm, 'o) tcp_server \<Rightarrow> ('i, 'm, 'o) tcp_server" where
  "conn_accept c challenge s =
     (if c \<in> ts_used s then s
      else s\<lparr>ts_conns := (ts_conns s)(c \<mapsto> AwaitResponse challenge), ts_used := insert c (ts_used s)\<rparr>)"

definition conn_receive ::
    "(bytes \<Rightarrow> bytes \<Rightarrow> 'i option) \<Rightarrow> nat \<Rightarrow> 'm received \<Rightarrow> ('i, 'm, 'o) tcp_server \<Rightarrow> ('i, 'm, 'o) tcp_server" where
  "conn_receive auth c f s =
     (case ts_conns s c of
        None \<Rightarrow> s
      | Some (AwaitResponse challenge) \<Rightarrow>
          (case f of
             ChallengeResponse res \<Rightarrow>
               (case auth res challenge of
                  None \<Rightarrow> conn_abort c s
                | Some i \<Rightarrow> s\<lparr>ts_conns := (ts_conns s)(c \<mapsto> Joined i []), ts_clients := (ts_clients s)(i \<mapsto> c)\<rparr>)
           | _ \<Rightarrow> conn_abort c s)
      | Some (Joined i queue) \<Rightarrow>
          (case f of
             Else m \<Rightarrow> s\<lparr>ts_incoming := ts_incoming s @ [(i, m)]\<rparr>
           | ChallengeResponse _ \<Rightarrow> conn_abort c s
           | Undecodable \<Rightarrow> conn_abort c s
           | ReadError \<Rightarrow> conn_close c i s
           | EndOfStream \<Rightarrow> conn_close c i s))"

text \<open>One message of a connection's queue is written; a failed write ends the connection.\<close>

definition conn_write :: "nat \<Rightarrow> bool \<Rightarrow> ('i, 'm, 'o) tcp_server \<Rightarrow> ('i, 'm, 'o) tcp_server" where
  "conn_write c success s =
     (case ts_conns s c of
        Some (Joined i (out # queue)) \<Rightarrow>
          if success then s\<lparr>ts_conns := (ts_conns s)(c \<mapsto> Joined i queue), ts_written := ts_written s @ [(c, out)]\<rparr>
          else conn_abort c s
      | _ \<Rightarrow> s)"

text \<open>The dispatcher of outgoing messages; a message for an unknown or ended connection is dropped.\<close>

definition tcp_dispatch :: "('i, 'm, 'o) tcp_server \<Rightarrow> ('i, 'm, 'o) tcp_server" where
  "tcp_dispatch s =
     (case ts_outgoing s of
        [] \<Rightarrow> s
      | (i, out) # rest \<Rightarrow>
          let s = s\<lparr>ts_outgoing := rest\<rparr>
          in (case ts_clients s i of
                None \<Rightarrow> s
              | Some c \<Rightarrow>
                  (case ts_conns s c of
                     Some (Joined j queue) \<Rightarrow> s\<lparr>ts_conns := (ts_conns s)(c \<mapsto> Joined j (queue @ [out]))\<rparr>
                   | _ \<Rightarrow> s)))"

definition send_to :: "'i \<Rightarrow> 'o \<Rightarrow> ('i, 'm, 'o) tcp_server \<Rightarrow> ('i, 'm, 'o) tcp_server" where
  "send_to i out s = s\<lparr>ts_outgoing := ts_outgoing s @ [(i, out)]\<rparr>"

text \<open>\<open>broadcast\<close> on the connected clients, in the order the table lists them.\<close>

definition tcp_broadcast :: "'i list \<Rightarrow> 'o \<Rightarrow> ('i, 'm, 'o) tcp_server \<Rightarrow> ('i, 'm, 'o) tcp_server" where
  "tcp_broadcast connected out s = foldl (\<lambda>s i. send_to i out s) s (filter (\<lambda>i. ts_clients s i \<noteq> None) connected)"

text \<open>\<open>next\<close>: the oldest message; a notice of disconnection is taken by \<open>tcp_next_disconnect\<close>.\<close>

definition tcp_next_message :: "('i, 'm, 'o) tcp_server \<Rightarrow> (('i \<times> 'm) \<times> ('i, 'm, 'o) tcp_server) option" where
  "tcp_next_message s =
     (case ts_incoming s of [] \<Rightarrow> None | x # rest \<Rightarrow> Some (x, s\<lparr>ts_incoming := rest\<rparr>))"

definition tcp_next_disconnect :: "('i, 'm, 'o) tcp_server \<Rightarrow> ('i \<times> ('i, 'm, 'o) tcp_server) option" where
  "tcp_next_disconnect s =
     (case ts_disconnected s of [] \<Rightarrow> None | x # rest \<Rightarrow> Some (x, s\<lparr>ts_disconnected := rest\<rparr>))"

section \<open>The client's side\<close>

datatype 'o server_frame = Challenge bytes | ServerElse 'o

definition client_handshake ::
    "('k, bytes) signing \<Rightarrow> bytes \<Rightarrow> 'k \<Rightarrow> 'o server_frame option \<Rightarrow> (string + bytes) option" where
  "client_handshake G identity k f =
     (case f of
        None \<Rightarrow> Some (Inl ''Connection closed'')
      | Some (Challenge c) \<Rightarrow> map_option Inr (to_signed_challenge_bytes G identity k c)
      | Some (ServerElse _) \<Rightarrow> Some (Inl ''Expected challenge, got something else''))"

definition client_receive :: "'o server_frame option \<Rightarrow> string + 'o" where
  "client_receive f =
     (case f of
        None \<Rightarrow> Inl ''Connection closed''
      | Some (ServerElse m) \<Rightarrow> Inr m
      | Some (Challenge _) \<Rightarrow> Inl ''Unexpected challenge message'')"

section \<open>Runs of the server\<close>

datatype ('i, 'm, 'o) tcp_event =
    Accept nat bytes
  | Receive nat "'m received"
  | Write nat bool
  | Dispatch
  | SendTo 'i 'o
  | TakeMessage
  | TakeDisconnect

definition tcp_step ::
    "(bytes \<Rightarrow> bytes \<Rightarrow> 'i option) \<Rightarrow> ('i, 'm, 'o) tcp_event \<Rightarrow> ('i, 'm, 'o) tcp_server \<Rightarrow> ('i, 'm, 'o) tcp_server" where
  "tcp_step auth e s =
     (case e of
        Accept c challenge \<Rightarrow> conn_accept c challenge s
      | Receive c f \<Rightarrow> conn_receive auth c f s
      | Write c success \<Rightarrow> conn_write c success s
      | Dispatch \<Rightarrow> tcp_dispatch s
      | SendTo i out \<Rightarrow> send_to i out s
      | TakeMessage \<Rightarrow> (case tcp_next_message s of None \<Rightarrow> s | Some (_, s') \<Rightarrow> s')
      | TakeDisconnect \<Rightarrow> (case tcp_next_disconnect s of None \<Rightarrow> s | Some (_, s') \<Rightarrow> s'))"

definition tcp_run ::
    "(bytes \<Rightarrow> bytes \<Rightarrow> 'i option) \<Rightarrow> ('i, 'm, 'o) tcp_event list \<Rightarrow> ('i, 'm, 'o) tcp_server" where
  "tcp_run auth es = foldl (\<lambda>s e. tcp_step auth e s) tcp_start es"

text \<open>A connection has proved an identity: its own challenge came back signed by it.\<close>

definition proved ::
    "(bytes \<Rightarrow> bytes \<Rightarrow> 'i option) \<Rightarrow> ('i, 'm, 'o) tcp_event list \<Rightarrow> nat \<Rightarrow> 'i \<Rightarrow> bool" where
  "proved auth es c i \<longleftrightarrow> (\<exists>xs ys zs challenge res.
     es = xs @ Accept c challenge # ys @ Receive c (ChallengeResponse res) # zs \<and> auth res challenge = Some i)"

lemma proved_snoc: "proved auth es c i \<Longrightarrow> proved auth (es @ [e]) c i"
  unfolding proved_def by (elim exE conjE) (rule exI, rule exI, rule_tac x = "_ @ [e]" in exI, force)

lemma proved_now:
  "Accept c challenge \<in> set es \<Longrightarrow> auth res challenge = Some i \<Longrightarrow> proved auth (es @ [Receive c (ChallengeResponse res)]) c i"
  unfolding proved_def by (auto dest!: split_list) blast

definition said ::
    "(bytes \<Rightarrow> bytes \<Rightarrow> 'i option) \<Rightarrow> ('i, 'm, 'o) tcp_event list \<Rightarrow> 'i \<Rightarrow> 'm \<Rightarrow> bool" where
  "said auth es i m \<longleftrightarrow> (\<exists>xs c zs. es = xs @ Receive c (Else m) # zs \<and> proved auth xs c i)"

lemma said_snoc: "said auth es i m \<Longrightarrow> said auth (es @ [e]) i m"
  unfolding said_def by force

lemma said_now: "proved auth es c i \<Longrightarrow> said auth (es @ [Receive c (Else m)]) i m"
  unfolding said_def by blast

definition tcp_inv ::
    "(bytes \<Rightarrow> bytes \<Rightarrow> 'i option) \<Rightarrow> ('i, 'm, 'o) tcp_event list \<Rightarrow> ('i, 'm, 'o) tcp_server \<Rightarrow> bool" where
  "tcp_inv auth es s \<longleftrightarrow>
     (\<forall>c. ts_conns s c \<noteq> None \<longrightarrow> c \<in> ts_used s) \<and>
     (\<forall>c challenge. ts_conns s c = Some (AwaitResponse challenge) \<longrightarrow> Accept c challenge \<in> set es) \<and>
     (\<forall>c i q. ts_conns s c = Some (Joined i q) \<longrightarrow> proved auth es c i \<and> (\<forall>out \<in> set q. SendTo i out \<in> set es)) \<and>
     (\<forall>i c. ts_clients s i = Some c \<longrightarrow> c \<in> ts_used s \<and> (\<forall>x. ts_conns s c = Some x \<longrightarrow> (\<exists>q. x = Joined i q))) \<and>
     (\<forall>(i, m) \<in> set (ts_incoming s). said auth es i m) \<and>
     (\<forall>(i, out) \<in> set (ts_outgoing s). SendTo i out \<in> set es) \<and>
     (\<forall>(c, out) \<in> set (ts_written s). \<exists>i. proved auth es c i \<and> SendTo i out \<in> set es)"

lemma tcp_inv_start: "tcp_inv auth [] tcp_start"
  by (simp add: tcp_inv_def tcp_start_def)

lemma tcp_inv_owner: "tcp_inv auth es s \<Longrightarrow> ts_clients s i = Some c \<Longrightarrow> ts_conns s c = Some (Joined j q) \<Longrightarrow> j = i"
  unfolding tcp_inv_def by blast

lemma tcp_inv_snoc: "tcp_inv auth es s \<Longrightarrow> tcp_inv auth (es @ [e]) s"
  unfolding tcp_inv_def by (fastforce intro: proved_snoc said_snoc)

lemma tcp_inv_abort: "tcp_inv auth es s \<Longrightarrow> tcp_inv auth es (conn_abort c s)"
  unfolding tcp_inv_def conn_abort_def by (simp; blast)

lemma tcp_inv_close: "tcp_inv auth es s \<Longrightarrow> tcp_inv auth es (conn_close c i s)"
  unfolding tcp_inv_def conn_close_def by (simp; blast)

lemma tcp_inv_accept: "tcp_inv auth es s \<Longrightarrow> tcp_inv auth (es @ [Accept c ch]) (conn_accept c ch s)"
proof (cases "c \<in> ts_used s")
  case True
  moreover assume "tcp_inv auth es s"
  ultimately show ?thesis by (simp add: conn_accept_def tcp_inv_snoc)
next
  case False
  assume "tcp_inv auth es s"
  from tcp_inv_snoc [OF this, of "Accept c ch"] False show ?thesis
    by (auto simp: tcp_inv_def conn_accept_def)
qed

lemma tcp_inv_receive:
  assumes "tcp_inv auth es s"
  shows "tcp_inv auth (es @ [Receive c f]) (conn_receive auth c f s)"
proof (cases "ts_conns s c")
  case None
  then show ?thesis using assms by (simp add: conn_receive_def tcp_inv_snoc)
next
  case (Some conn)
  note inv = tcp_inv_snoc [OF assms, of "Receive c f"]
  show ?thesis
  proof (cases conn)
    case (AwaitResponse ch)
    show ?thesis
    proof (cases "\<exists>res i. f = ChallengeResponse res \<and> auth res ch = Some i")
      case True
      then obtain res i where f: "f = ChallengeResponse res" "auth res ch = Some i" by blast
      have "Accept c ch \<in> set es" using assms Some AwaitResponse by (simp add: tcp_inv_def)
      then have "proved auth (es @ [Receive c f]) c i" using f by (simp add: proved_now)
      moreover have "conn_receive auth c f s = s\<lparr>ts_conns := (ts_conns s)(c \<mapsto> Joined i []), ts_clients := (ts_clients s)(i \<mapsto> c)\<rparr>"
        using Some AwaitResponse f by (simp add: conn_receive_def)
      moreover have "ts_clients s j \<noteq> Some c" for j using assms Some AwaitResponse by (fastforce simp: tcp_inv_def)
      ultimately show ?thesis using inv Some unfolding tcp_inv_def by (simp; blast)
    next
      case False
      then have "conn_receive auth c f s = conn_abort c s" using Some AwaitResponse
        by (auto simp: conn_receive_def split: received.split option.split)
      then show ?thesis using tcp_inv_abort [OF inv] by simp
    qed
  next
    case (Joined i q)
    then have p: "proved auth es c i" using assms Some by (simp add: tcp_inv_def)
    show ?thesis
    proof (cases f)
      case (Else m)
      then have "conn_receive auth c f s = s\<lparr>ts_incoming := ts_incoming s @ [(i, m)]\<rparr>"
        using Some Joined by (simp add: conn_receive_def)
      then show ?thesis using inv said_now [OF p, of m] Else unfolding tcp_inv_def by simp
    qed (use Some Joined tcp_inv_abort [OF inv] tcp_inv_close [OF inv] in \<open>simp_all add: conn_receive_def\<close>)
  qed
qed

lemma tcp_inv_write:
  assumes "tcp_inv auth es s"
  shows "tcp_inv auth es (conn_write c ok s)"
proof (cases "\<exists>i out q. ts_conns s c = Some (Joined i (out # q))")
  case True
  then obtain i out q where c: "ts_conns s c = Some (Joined i (out # q))" by blast
  then have "proved auth es c i" "SendTo i out \<in> set es" "\<forall>x \<in> set q. SendTo i x \<in> set es"
    using assms by (auto simp: tcp_inv_def)
  then have "tcp_inv auth es (s\<lparr>ts_conns := (ts_conns s)(c \<mapsto> Joined i q), ts_written := ts_written s @ [(c, out)]\<rparr>)"
    using assms c by (auto simp: tcp_inv_def) fastforce+
  then show ?thesis using c tcp_inv_abort [OF assms] by (simp add: conn_write_def)
next
  case False
  then have "conn_write c ok s = s"
    by (auto simp: conn_write_def split: option.split connection.split list.split)
  then show ?thesis using assms by simp
qed

lemma tcp_inv_dispatch:
  assumes "tcp_inv auth es s"
  shows "tcp_inv auth es (tcp_dispatch s)"
proof (cases "ts_outgoing s")
  case Nil
  then show ?thesis using assms by (simp add: tcp_dispatch_def)
next
  case (Cons x rest)
  obtain i out where x: "x = (i, out)" by (cases x)
  let ?s = "s\<lparr>ts_outgoing := rest\<rparr>"
  have inv: "tcp_inv auth es ?s" and sent: "SendTo i out \<in> set es"
    using assms Cons x by (simp_all add: tcp_inv_def)
  show ?thesis
  proof (cases "\<exists>c j q. ts_clients s i = Some c \<and> ts_conns s c = Some (Joined j q)")
    case True
    then obtain c j q where c: "ts_clients s i = Some c" "ts_conns s c = Some (Joined j q)" by blast
    then have "j = i" by (rule tcp_inv_owner [OF assms])
    then have "tcp_inv auth es (?s\<lparr>ts_conns := (ts_conns s)(c \<mapsto> Joined j (q @ [out]))\<rparr>)"
      using inv c sent by (auto simp: tcp_inv_def dest!: tcp_inv_owner [OF assms _ c(2)])
    then show ?thesis using c Cons x by (simp add: tcp_dispatch_def Let_def)
  next
    case False
    then have "tcp_dispatch s = ?s" using Cons x
      by (auto simp: tcp_dispatch_def Let_def split: option.split connection.split)
    then show ?thesis using inv by simp
  qed
qed

lemma tcp_inv_step:
  assumes "tcp_inv auth es s"
  shows "tcp_inv auth (es @ [e]) (tcp_step auth e s)"
proof (cases e)
  case (SendTo i out)
  then show ?thesis using tcp_inv_snoc [OF assms, of e] by (simp add: tcp_step_def send_to_def tcp_inv_def)
next
  case TakeMessage
  then show ?thesis using tcp_inv_snoc [OF assms, of e]
    by (simp add: tcp_step_def tcp_next_message_def tcp_inv_def split: list.split; blast)
next
  case TakeDisconnect
  then show ?thesis using tcp_inv_snoc [OF assms, of e]
    by (simp add: tcp_step_def tcp_next_disconnect_def tcp_inv_def split: list.split)
qed (use assms in \<open>simp_all add: tcp_step_def tcp_inv_accept tcp_inv_receive tcp_inv_write tcp_inv_dispatch tcp_inv_snoc\<close>)

lemma tcp_run_snoc: "tcp_run auth (es @ [e]) = tcp_step auth e (tcp_run auth es)"
  by (simp add: tcp_run_def)

lemma tcp_run_inv: "tcp_inv auth es (tcp_run auth es)"
proof (induction es rule: rev_induct)
  case Nil
  then show ?case using tcp_inv_start by (simp add: tcp_run_def)
next
  case (snoc e es)
  then show ?case by (simp add: tcp_run_snoc tcp_inv_step)
qed

section \<open>Properties of the connections\<close>

text \<open>
  C18. Whatever the connections, the dispatcher and the owner of the server do in whatever order, every message the
  server hands on as coming from an identity was read from a connection whose own challenge had come back signed by
  that identity before, and everything written to a connection was sent to an identity which that connection had
  proved. Connections that never answer, answer wrongly, answer twice or reconnect do not change this.
\<close>

theorem tcp_messages_authentic:
  "(\<forall>(i, m) \<in> set (ts_incoming (tcp_run auth es)). \<exists>xs c ys.
      es = xs @ Receive c (Else m) # ys \<and> proved auth xs c i) \<and>
   (\<forall>(c, out) \<in> set (ts_written (tcp_run auth es)). \<exists>i. proved auth es c i \<and> SendTo i out \<in> set es)"
  using tcp_run_inv [of auth es] by (auto simp: tcp_inv_def said_def)

definition sample_auth :: "bytes \<Rightarrow> bytes \<Rightarrow> nat option" where
  "sample_auth res challenge = (if tl res = challenge then Some (unat (hd res)) else None)"

definition sample_tcp :: "(nat, nat, nat) tcp_event list" where
  "sample_tcp = [Accept 0 [7], Accept 1 [8], Receive 1 (ChallengeResponse [5, 7]), Receive 0 (ChallengeResponse [5, 7]),
     Receive 1 (Else 30), Receive 0 (Else 31), SendTo 5 90, Dispatch, Write 0 True]"

theorem tcp_messages_authentic_witness:
  "ts_incoming (tcp_run sample_auth sample_tcp) = [(5, 31)] \<and> ts_written (tcp_run sample_auth sample_tcp) = [(0, 90)] \<and>
    (\<exists>xs c ys. sample_tcp = xs @ Receive c (Else 31) # ys \<and> proved sample_auth xs c 5)"
proof -
  have "ts_incoming (tcp_run sample_auth sample_tcp) = [(5, 31)] \<and> ts_written (tcp_run sample_auth sample_tcp) = [(0, 90)]"
    by (simp add: tcp_run_def sample_tcp_def tcp_step_def tcp_start_def conn_accept_def conn_receive_def sample_auth_def
        conn_abort_def send_to_def tcp_dispatch_def conn_write_def Let_def)
  then show ?thesis using tcp_messages_authentic [of sample_auth sample_tcp] by simp
qed

text \<open>
  Signing is inverted by verification: a client that signs the challenge it received with the key of its
  identity is recognized as that identity, and no response made for one challenge is accepted for another.
\<close>

theorem challenge_round_trip:
  assumes "\<forall>k bs. sg_verify G (sg_public G k) bs (sg_sign G k bs)"
    and "\<forall>m. sg_decode G (sg_encode G m) = Some m" and "\<forall>c. sg_decode_data G (sg_encode_data G c) = Some c"
  shows "\<exists>res. to_signed_challenge_bytes G (sg_public G k) k challenge = Some res \<and>
    (\<forall>c. from_signed_challenge_bytes G res c =
      (if c = challenge then Inr (sg_public G k) else Inl (MismatchedChallenge c challenge)))"
  using assms by (simp add: to_signed_challenge_bytes_def from_signed_challenge_bytes_def sign_and_encode_def
      verify_and_decode_def Let_def)

text \<open>A concrete encoding of byte strings that can be read back.\<close>

fun put_bytes :: "bytes \<Rightarrow> bytes \<Rightarrow> bytes" where
  "put_bytes [] rest = 0 # rest"
| "put_bytes (x # xs) rest = 1 # x # put_bytes xs rest"

fun get_bytes :: "bytes \<Rightarrow> (bytes \<times> bytes) option" where
  "get_bytes (t # x # rest) = (if t = 0 then Some ([], x # rest) else map_option (apfst ((#) x)) (get_bytes rest))"
| "get_bytes (t # []) = (if t = 0 then Some ([], []) else None)"
| "get_bytes [] = None"

lemma get_put_bytes [simp]: "get_bytes (put_bytes xs rest) = Some (xs, rest)"
  by (induction xs) (cases rest, auto)

definition sample_signing :: "(u8, bytes) signing" where
  "sample_signing = \<lparr>sg_public = (\<lambda>k. [k + 1]), sg_sign = (\<lambda>k bs. k # bs), sg_verify = (\<lambda>p bs sig. sig = (hd p - 1) # bs),
     sg_encode = (\<lambda>m. put_bytes (sm_from m) (put_bytes (sm_data m) (sm_signature m))),
     sg_decode = (\<lambda>bs. do { (f, bs) \<leftarrow> get_bytes bs; (d, sig) \<leftarrow> get_bytes bs;
       Some \<lparr>sm_from = f, sm_data = d, sm_signature = sig\<rparr> }),
     sg_encode_data = (\<lambda>c. c), sg_decode_data = Some\<rparr>"

theorem challenge_round_trip_witness:
  "\<exists>res. to_signed_challenge_bytes sample_signing [5] 4 [1, 2] = Some res \<and>
    from_signed_challenge_bytes sample_signing res [1, 2] = Inr [5] \<and>
    from_signed_challenge_bytes sample_signing res [9] = Inl (MismatchedChallenge [9] [1, 2])"
proof -
  have "\<exists>res. to_signed_challenge_bytes sample_signing (sg_public sample_signing 4) 4 [1, 2] = Some res \<and>
      (\<forall>c. from_signed_challenge_bytes sample_signing res c =
        (if c = [1, 2] then Inr (sg_public sample_signing 4) else Inl (MismatchedChallenge c [1, 2])))"
    by (rule challenge_round_trip) (simp_all add: sample_signing_def)
  then show ?thesis by (auto simp: sample_signing_def)
qed

end
