(* ===== verification/Data_Server.thy ===== *)
theory Data_Server
  imports Tcp_Server Data_Providers Data_Selection Coordinator_Props
begin

text \<open>
  The server that hands training data to the clients of a round (\<open>src/shared/data-provider/src/remote/server.rs\<close>),
  the provider that asks it (\<open>remote/client.rs\<close>), and the task of a client that fetches the batches assigned to it
  (\<open>src/shared/client/src/fetch_data.rs\<close>). The source behind the server and the authentication of its connections
  are arguments. Waiting between two attempts is not a step.
\<close>

section \<open>The server\<close>

datatype rejection_reason = NotInThisRound | WrongDataIdForStep

datatype data_request = RequestTrainingData batch_id

datatype data_reply =
    TrainingData batch_id "tokenized_data list"
  | RequestRejected batch_id rejection_reason

record ('i, 'id, 'p) data_server =
  ds_provider :: 'p
  ds_state :: "'id coordinator option"
  ds_in_round :: "bytes set"
  ds_provided :: "'i \<Rightarrow> nat option"

definition data_server_start :: "'p \<Rightarrow> ('i, 'id, 'p) data_server" where
  "data_server_start p = \<lparr>ds_provider = p, ds_state = None, ds_in_round = {}, ds_provided = Map.empty\<rparr>"

text \<open>A source that fails is a panic of the server: \<open>expect\<close>.\<close>

definition try_send_data ::
    "('p \<Rightarrow> batch_id \<Rightarrow> (provider_error + tokenized_data list) option) \<Rightarrow> ('i \<Rightarrow> bytes) \<Rightarrow> ('i, 'id, 'p) data_server \<Rightarrow> 'i \<Rightarrow>
      batch_id \<Rightarrow> (rejection_reason + tokenized_data list) option" where
  "try_send_data get key s i b =
     (if key i \<notin> ds_in_round s then Some (Inl NotInThisRound)
      else (case get (ds_provider s) b of
              Some (Inr xs) \<Rightarrow> Some (Inr xs)
            | _ \<Rightarrow> None))"

definition handle_data_message ::
    "('p \<Rightarrow> batch_id \<Rightarrow> (provider_error + tokenized_data list) option) \<Rightarrow> ('i \<Rightarrow> bytes) \<Rightarrow> 'i \<Rightarrow> data_request \<Rightarrow>
      ('i, 'id, 'p) data_server \<Rightarrow> (('i, 'id, 'p) data_server \<times> 'i \<times> data_reply) option" where
  "handle_data_message get key i m s =
     (case m of RequestTrainingData b \<Rightarrow>
        (case try_send_data get key s i b of
           None \<Rightarrow> None
         | Some (Inl reason) \<Rightarrow> Some (s, i, RequestRejected b reason)
         | Some (Inr xs) \<Rightarrow> do {
             n \<leftarrow> batch_id_len b;
             let old_count = (case ds_provided s i of None \<Rightarrow> 0 | Some c \<Rightarrow> c);
             Some (s\<lparr>ds_provided := (ds_provided s)(i \<mapsto> old_count + unat n)\<rparr>, i, TrainingData b xs)
           }))"

definition handle_new_data_state ::
    "('id \<Rightarrow> bytes) \<Rightarrow> 'id coordinator \<Rightarrow> ('i, 'id, 'p) data_server \<Rightarrow> ('i, 'id, 'p) data_server" where
  "handle_new_data_state node_key st s =
     s\<lparr>ds_state := Some st, ds_in_round := (\<lambda>c. node_key (cl_id c)) ` set (co_clients st)\<rparr>"

text \<open>\<open>poll\<close> and the tasks of the TCP server; \<open>dw_trace\<close> is what happened to the TCP server so far.\<close>

record ('i, 'id, 'p) data_world =
  dw_server :: "('i, 'id, 'p) data_server"
  dw_trace :: "('i, data_request, data_reply) tcp_event list"

datatype ('i, 'id) data_event =
    Network "('i, data_request, data_reply) tcp_event"
  | NewState "'id coordinator"
  | PollMessage
  | PollDisconnect

text \<open>Only the server itself sends and takes messages.\<close>

fun network_step :: "('i, 'm, 'o) tcp_event \<Rightarrow> bool" where
  "network_step (SendTo i out) \<longleftrightarrow> False"
| "network_step TakeMessage \<longleftrightarrow> False"
| "network_step TakeDisconnect \<longleftrightarrow> False"
| "network_step _ \<longleftrightarrow> True"

definition data_world_step ::
    "('p \<Rightarrow> batch_id \<Rightarrow> (provider_error + tokenized_data list) option) \<Rightarrow> (bytes \<Rightarrow> bytes \<Rightarrow> 'i option) \<Rightarrow> ('i \<Rightarrow> bytes) \<Rightarrow>
      ('id \<Rightarrow> bytes) \<Rightarrow> ('i, 'id) data_event \<Rightarrow> ('i, 'id, 'p) data_world \<Rightarrow> ('i, 'id, 'p) data_world option" where
  "data_world_step get auth key node_key e w =
     (case e of
        Network n \<Rightarrow> Some (if network_step n then w\<lparr>dw_trace := dw_trace w @ [n]\<rparr> else w)
      | NewState st \<Rightarrow> Some (w\<lparr>dw_server := handle_new_data_state node_key st (dw_server w)\<rparr>)
      | PollDisconnect \<Rightarrow> Some (w\<lparr>dw_trace := dw_trace w @ [TakeDisconnect]\<rparr>)
      | PollMessage \<Rightarrow>
          (case tcp_next_message (tcp_run auth (dw_trace w)) of
             None \<Rightarrow> Some w
           | Some ((i, m), _) \<Rightarrow> do {
               (s, to, reply) \<leftarrow> handle_data_message get key i m (dw_server w);
               Some (w\<lparr>dw_server := s, dw_trace := dw_trace w @ [TakeMessage, SendTo to reply]\<rparr>)
             }))"

fun data_run ::
    "('p \<Rightarrow> batch_id \<Rightarrow> (provider_error + tokenized_data list) option) \<Rightarrow> (bytes \<Rightarrow> bytes \<Rightarrow> 'i option) \<Rightarrow> ('i \<Rightarrow> bytes) \<Rightarrow>
      ('id \<Rightarrow> bytes) \<Rightarrow> ('i, 'id) data_event list \<Rightarrow> ('i, 'id, 'p) data_world \<Rightarrow> ('i, 'id, 'p) data_world option" where
  "data_run get auth key node_key [] w = Some w"
| "data_run get auth key node_key (e # es) w =
     do { w' \<leftarrow> data_world_step get auth key node_key e w; data_run get auth key node_key es w' }"

definition data_world_start :: "'p \<Rightarrow> ('i, 'id, 'p) data_world" where
  "data_world_start p = \<lparr>dw_server = data_server_start p, dw_trace = []\<rparr>"

section \<open>The client of the server\<close>

datatype remote_error = MismatchedDataId | UnexpectedMessage | ConnectionError

definition receive_training_data :: "batch_id \<Rightarrow> data_reply option \<Rightarrow> remote_error + tokenized_data list" where
  "receive_training_data b reply =
     (case reply of
        None \<Rightarrow> Inl ConnectionError
      | Some (TrainingData b' xs) \<Rightarrow> if b' = b then Inr xs else Inl MismatchedDataId
      | Some (RequestRejected _ _) \<Rightarrow> Inl UnexpectedMessage)"

section \<open>Fetching the batches of a step\<close>

definition MAX_RETRIES :: nat where "MAX_RETRIES = 7"

text \<open>The answer of the provider may differ from attempt to attempt; attempts are numbered across the task.\<close>

function fetch_batch ::
    "(nat \<Rightarrow> batch_id \<Rightarrow> provider_error + 'a) \<Rightarrow> nat \<Rightarrow> nat \<Rightarrow> batch_id \<Rightarrow> ('a option) \<times> nat" where
  "fetch_batch get t retry b =
     (case get t b of
        Inr x \<Rightarrow> (Some x, Suc t)
      | Inl _ \<Rightarrow> if retry < MAX_RETRIES then fetch_batch get (Suc t) (Suc retry) b else (None, Suc t))"
  by auto
termination by (relation "measure (\<lambda>(get, t, retry, b). MAX_RETRIES - retry)") auto

declare fetch_batch.simps [simp del]

text \<open>
  The task: the last assigned batch first. \<open>room\<close> is how many batches are taken before the receiver is dropped or the
  task is aborted by the one of the next step.
\<close>

fun fetch_task ::
    "(nat \<Rightarrow> batch_id \<Rightarrow> provider_error + 'a) \<Rightarrow> nat \<Rightarrow> nat \<Rightarrow> batch_id list \<Rightarrow> (batch_id \<times> 'a) list" where
  "fetch_task get t room [] = []"
| "fetch_task get t room (b # bs) =
     (case fetch_batch get t 0 b of
        (None, _) \<Rightarrow> []
      | (Some x, t') \<Rightarrow> (case room of 0 \<Rightarrow> [] | Suc r \<Rightarrow> (b, x) # fetch_task get t' r bs))"

definition fetch_data ::
    "('id \<Rightarrow> 'id \<Rightarrow> bool) \<Rightarrow> (nat \<Rightarrow> batch_id \<Rightarrow> provider_error + 'a) \<Rightarrow> nat \<Rightarrow> (batch_id \<times> 'id) list \<Rightarrow> 'id \<Rightarrow>
      (batch_id \<times> 'a) list" where
  "fetch_data eq get room assignments i = fetch_task get 0 room (rev (get_batch_ids_for_node eq assignments i))"

section \<open>Training data stays in the round\<close>

definition member_of :: "('i \<Rightarrow> bytes) \<Rightarrow> ('id \<Rightarrow> bytes) \<Rightarrow> 'i \<Rightarrow> 'id coordinator \<Rightarrow> bool" where
  "member_of key node_key i st \<longleftrightarrow> (\<exists>c \<in> set (co_clients st). node_key (cl_id c) = key i)"

definition data_inv ::
    "('i \<Rightarrow> bytes) \<Rightarrow> ('id \<Rightarrow> bytes) \<Rightarrow> 'id coordinator set \<Rightarrow> ('i, 'id, 'p) data_world \<Rightarrow> bool" where
  "data_inv key node_key seen w \<longleftrightarrow>
     (\<forall>i. key i \<in> ds_in_round (dw_server w) \<longrightarrow> (\<exists>st \<in> seen. member_of key node_key i st)) \<and>
     (\<forall>i b xs. SendTo i (TrainingData b xs) \<in> set (dw_trace w) \<longrightarrow> (\<exists>st \<in> seen. member_of key node_key i st))"

lemma handle_data_message_cases:
  assumes "handle_data_message get key i m s = Some (s', to, reply)"
  obtains b reason where "m = RequestTrainingData b" "key i \<notin> ds_in_round s" "s' = s" "to = i" "reply = RequestRejected b NotInThisRound"
  | b xs n where "m = RequestTrainingData b" "key i \<in> ds_in_round s" "to = i" "reply = TrainingData b xs"
    "get (ds_provider s) b = Some (Inr xs)" "batch_id_len b = Some n" "ds_in_round s' = ds_in_round s"
    "ds_provided s' = (ds_provided s)(i \<mapsto> (case ds_provided s i of None \<Rightarrow> 0 | Some c \<Rightarrow> c) + unat n)"
  using assms by (cases m)
    (auto simp: handle_data_message_def try_send_data_def bind_eq_Some_conv Let_def split: if_splits option.splits sum.splits)

lemma data_inv_step:
  assumes "data_inv key node_key seen w" and "data_world_step get auth key node_key e w = Some w'"
  shows "data_inv key node_key (seen \<union> {st. e = NewState st}) w'"
proof (cases e)
  case (Network n)
  then show ?thesis using assms by (cases n; auto simp: data_world_step_def data_inv_def split: if_splits; blast)
next
  case (NewState st)
  then show ?thesis using assms
    by (auto simp: data_world_step_def data_inv_def handle_new_data_state_def member_of_def image_iff; blast)
next
  case PollMessage
  show ?thesis
  proof (cases "tcp_next_message (tcp_run auth (dw_trace w))")
    case None
    then show ?thesis using assms PollMessage by (simp add: data_world_step_def)
  next
    case (Some x)
    then obtain i m t s to reply where x: "x = ((i, m), t)"
      and h: "handle_data_message get key i m (dw_server w) = Some (s, to, reply)"
      and w: "w' = w\<lparr>dw_server := s, dw_trace := dw_trace w @ [TakeMessage, SendTo to reply]\<rparr>"
      using assms(2) PollMessage by (cases x) (auto simp: data_world_step_def bind_eq_Some_conv)
    from h show ?thesis by (rule handle_data_message_cases) (use assms(1) w PollMessage in \<open>auto simp: data_inv_def\<close>)
  qed
next
  case PollDisconnect
  then show ?thesis using assms by (auto simp: data_world_step_def data_inv_def; blast)
qed

lemma data_inv_run:
  "data_inv key node_key seen w \<Longrightarrow> data_run get auth key node_key es w = Some w' \<Longrightarrow>
    data_inv key node_key (seen \<union> {st. NewState st \<in> set es}) w'"
proof (induction es arbitrary: seen w)
  case (Cons e es)
  then obtain w1 where w1: "data_world_step get auth key node_key e w = Some w1" "data_run get auth key node_key es w1 = Some w'"
    by (auto simp: bind_eq_Some_conv)
  have "seen \<union> {st. e = NewState st} \<union> {st. NewState st \<in> set es} = seen \<union> {st. NewState st \<in> set (e # es)}" by auto
  then show ?case using Cons.IH [OF data_inv_step [OF Cons.prems(1) w1(1)] w1(2)] by simp
qed simp

lemma batch_len_Some:
  assumes "start \<le> stop" and "unat stop - unat start < 2 ^ 64 - 1"
  shows "\<exists>n. batch_id_len (BatchId (ClosedInterval start stop)) = Some n \<and> unat n = Suc (unat stop - unat start)"
proof -
  have d: "unat (stop - start) = unat stop - unat start" using assms(1) by (rule unat_sub)
  then have "unat (stop - start + 1) = Suc (unat stop - unat start)"
    using assms(2) by (subst unat_add_lem [THEN iffD1]) simp_all
  then show ?thesis using assms d by (simp add: batch_id_len_def checked_sub_def checked_add_def)
qed

text \<open>A source of samples that is asked through the server answers like the source itself.\<close>

context sample_source
begin

lemma served:
  assumes "ok (ds_provider s)" and "key i \<in> ds_in_round s" and "start \<le> stop" and "unat stop < count (ds_provider s)"
    and "unat stop - unat start < 2 ^ 64 - 1"
  shows "\<exists>s' reply. handle_data_message get key i (RequestTrainingData (BatchId (ClosedInterval start stop))) s = Some (s', i, reply) \<and>
    receive_training_data (BatchId (ClosedInterval start stop)) (Some reply) =
      Inr (map (sample (ds_provider s)) [unat start..<Suc (unat stop)]) \<and>
    s' = s\<lparr>ds_provided := (ds_provided s)(i \<mapsto> (case ds_provided s i of None \<Rightarrow> 0 | Some c \<Rightarrow> c) + Suc (unat stop - unat start))\<rparr>"
  using batch_len_Some [OF assms(3,5)] in_range [OF assms(1,3,4)] assms(2)
  by (auto simp: handle_data_message_def try_send_data_def receive_training_data_def Let_def simp del: upt_Suc)

end

section \<open>Properties of the data server\<close>


definition sample_data_server :: "(nat, nat, local_provider) data_server" where
  "sample_data_server = \<lparr>ds_provider = \<lparr>lp_data_files = [[1, 0, 2, 0, 3, 0]],
     lp_sequences = [\<lparr>sp_file_index = 0, sp_byte_offset = 2\<rparr>, \<lparr>sp_file_index = 0, sp_byte_offset = 0\<rparr>],
     lp_seq_len = 1, lp_token_size = TwoBytes\<rparr>, ds_state = None, ds_in_round = {[1]}, ds_provided = [7 \<mapsto> 3]\<rparr>"


text \<open>
  C17. Training data never leaves the round: in every run of the server, with any number of connections and any
  interleaving of their frames, of new coordinator states and of the server's own polling, training data is written
  only to a connection that has proved, by its own challenge, an identity that was a client of a coordinator state the
  server had received.
\<close>

theorem training_data_stays_in_round:
  assumes "data_run get auth key node_key es (data_world_start p) = Some w"
    and "(c, TrainingData b xs) \<in> set (ts_written (tcp_run auth (dw_trace w)))"
  shows "\<exists>i st. proved auth (dw_trace w) c i \<and> NewState st \<in> set es \<and> member_of key node_key i st"
proof -
  have "data_inv key node_key {} (data_world_start p :: (_, _, _) data_world)"
    by (simp add: data_inv_def data_world_start_def data_server_start_def)
  from data_inv_run [OF this assms(1)] have inv: "data_inv key node_key {st. NewState st \<in> set es} w" by simp
  obtain i where "proved auth (dw_trace w) c i" "SendTo i (TrainingData b xs) \<in> set (dw_trace w)"
    using tcp_run_inv [of auth "dw_trace w"] assms(2) unfolding tcp_inv_def by blast
  then show ?thesis using inv unfolding data_inv_def by blast
qed

definition sample_data_events :: "nat coordinator \<Rightarrow> (nat, nat) data_event list" where
  "sample_data_events st = [NewState st, Network (Accept 0 [7]), Network (Receive 0 (ChallengeResponse [7, 7])),
     Network (Receive 0 (Else (RequestTrainingData (BatchId (ClosedInterval 1 1))))), PollMessage, Network Dispatch, Network (Write 0 True)]"

theorem training_data_stays_in_round_witness:
  "\<exists>w. data_run local_get_samples sample_auth (\<lambda>i. [of_nat i]) (\<lambda>i. [of_nat i]) (sample_data_events sample_training)
      (data_world_start (ds_provider sample_data_server)) = Some w \<and>
    ts_written (tcp_run sample_auth (dw_trace w)) = [(0, TrainingData (BatchId (ClosedInterval 1 1)) [from_input_ids [1]])] \<and>
    (\<exists>i st. proved sample_auth (dw_trace w) 0 i \<and> NewState st \<in> set (sample_data_events sample_training) \<and>
      member_of (\<lambda>i. [of_nat i]) (\<lambda>i. [of_nat i]) i st)"
proof -
  have get: "local_get_samples (ds_provider sample_data_server) (BatchId (ClosedInterval 1 1)) = Some (Inr [from_input_ids [1]])"
    by (simp add: sample_data_server_def local_get_samples_def data_ids_def local_sample_def nth_opt_def slice_def tokens_of_def
        chunks_two)
  have len: "batch_id_len (BatchId (ClosedInterval 1 1)) = Some 1"
    by (simp add: batch_id_len_def checked_sub_def checked_add_def)
  define es where "es = [Accept 0 [7], Receive 0 (ChallengeResponse [7, 7]),
    Receive 0 (Else (RequestTrainingData (BatchId (ClosedInterval 1 1)))), TakeMessage,
    SendTo (7 :: nat) (TrainingData (BatchId (ClosedInterval 1 1)) [from_input_ids [1]]), Dispatch, Write 0 True]"
  obtain w where w: "data_run local_get_samples sample_auth (\<lambda>i. [of_nat i]) (\<lambda>i. [of_nat i]) (sample_data_events sample_training)
      (data_world_start (ds_provider sample_data_server)) = Some w" "dw_trace w = es"
    by (simp add: sample_data_events_def data_world_step_def data_world_start_def data_server_start_def handle_new_data_state_def
        sample_training_def client_new_def tcp_run_def tcp_step_def tcp_start_def conn_accept_def conn_receive_def sample_auth_def
        tcp_next_message_def handle_data_message_def try_send_data_def get len es_def Let_def)
  have written: "ts_written (tcp_run sample_auth es) = [(0, TrainingData (BatchId (ClosedInterval 1 1)) [from_input_ids [1]])]"
    by (simp add: es_def tcp_run_def tcp_step_def tcp_start_def conn_accept_def conn_receive_def sample_auth_def
        tcp_next_message_def send_to_def tcp_dispatch_def conn_write_def Let_def)
  with training_data_stays_in_round [OF w(1), of 0] w show ?thesis by simp
qed

lemma fetch_batch_genuine: "fetch_batch get t retry b = (Some x, t') \<Longrightarrow> \<exists>j. get j b = Inr x"
proof (induction get t retry b arbitrary: t' rule: fetch_batch.induct)
  case (1 get t retry b)
  show ?case
  proof (cases "get t b")
    case (Inl e)
    then show ?thesis using 1(1) [OF Inl] 1(2) fetch_batch.simps [of get t retry b] by (auto split: if_splits)
  next
    case (Inr y)
    then show ?thesis using 1(2) by (subst (asm) fetch_batch.simps) auto
  qed
qed

lemma fetch_batch_succeeds:
  "retry + j \<le> MAX_RETRIES \<Longrightarrow> get (t + j) b = Inr x \<Longrightarrow> \<exists>y t'. fetch_batch get t retry b = (Some y, t')"
proof (induction j arbitrary: t retry)
  case 0
  then show ?case by (subst fetch_batch.simps) simp
next
  case (Suc j)
  then have "\<exists>y t'. fetch_batch get (Suc t) (Suc retry) b = (Some y, t')" by simp
  then show ?case using Suc.prems(1) by (subst fetch_batch.simps) (auto split: sum.splits)
qed

lemma fetch_task_genuine: "(b, x) \<in> set (fetch_task get t room bs) \<Longrightarrow> \<exists>j. get j b = Inr x"
  by (induction bs arbitrary: t room)
    (auto dest!: fetch_batch_genuine [OF sym] split: option.splits nat.splits prod.splits)

lemma fetch_task_prefix: "\<exists>n. map fst (fetch_task get t room bs) = take n bs"
proof (induction bs arbitrary: t room)
  case (Cons b bs)
  obtain r t' where f: "fetch_batch get t 0 b = (r, t')" by (cases "fetch_batch get t 0 b")
  show ?case
  proof (cases "r = None \<or> room = 0")
    case True
    then have "map fst (fetch_task get t room (b # bs)) = take 0 (b # bs)" using f by (auto split: option.split)
    then show ?thesis by blast
  next
    case False
    then obtain x k where "r = Some x" "room = Suc k" by (cases room) auto
    moreover obtain n where "map fst (fetch_task get t' k bs) = take n bs" using Cons.IH by blast
    ultimately have "map fst (fetch_task get t room (b # bs)) = take (Suc n) (b # bs)" using f by simp
    then show ?thesis by blast
  qed
qed simp

lemma fetch_task_complete:
  assumes "\<forall>t. \<forall>b \<in> set bs. \<exists>j \<le> MAX_RETRIES. \<exists>x. get (t + j) b = Inr x" and "length bs \<le> room"
  shows "map fst (fetch_task get t room bs) = bs"
  using assms
proof (induction bs arbitrary: t room)
  case (Cons b bs)
  obtain j x where "j \<le> MAX_RETRIES" "get (t + j) b = Inr x" using Cons.prems(1) by (metis list.set_intros(1))
  then obtain y t' where "fetch_batch get t 0 b = (Some y, t')" using fetch_batch_succeeds [of 0 j get t b x] by auto
  moreover obtain k where "room = Suc k" using Cons.prems(2) by (cases room) auto
  ultimately show ?case using Cons by simp
qed simp

text \<open>
  C37. The task that fetches a client's data always ends. It hands over batches assigned to the client only, the last
  assigned one first and each at most once, every one with an answer the provider really gave for it. If the provider
  fails at most seven times in a row and the trainer keeps taking batches, every assigned batch is handed over.
\<close>

theorem fetch_data_delivers:
  "(\<exists>n. map fst (fetch_data eq get room assignments i) = take n (rev (get_batch_ids_for_node eq assignments i))) \<and>
   (\<forall>b x. (b, x) \<in> set (fetch_data eq get room assignments i) \<longrightarrow> (\<exists>t. get t b = Inr x)) \<and>
   ((\<forall>t b. \<exists>j \<le> 7. \<exists>x. get (t + j) b = Inr x) \<and> length (get_batch_ids_for_node eq assignments i) \<le> room \<longrightarrow>
     map fst (fetch_data eq get room assignments i) = rev (get_batch_ids_for_node eq assignments i))"
proof (intro conjI impI allI)
  assume "(\<forall>t b. \<exists>j \<le> 7. \<exists>x. get (t + j) b = Inr x) \<and> length (get_batch_ids_for_node eq assignments i) \<le> room"
  then show "map fst (fetch_data eq get room assignments i) = rev (get_batch_ids_for_node eq assignments i)"
    unfolding fetch_data_def by (intro fetch_task_complete) (auto simp: MAX_RETRIES_def)
qed (auto simp: fetch_data_def fetch_task_prefix dest: fetch_task_genuine)

definition sample_flaky :: "nat \<Rightarrow> batch_id \<Rightarrow> provider_error + nat" where
  "sample_flaky t b = (if even t then Inr t else Inl FetchFailed)"

theorem fetch_data_delivers_witness:
  "map fst (fetch_data (=) sample_flaky 2 [(BatchId (ClosedInterval 0 1), 5), (BatchId (ClosedInterval 2 3), 6),
      (BatchId (ClosedInterval 4 5), 5 :: nat)] 5) = [BatchId (ClosedInterval 4 5), BatchId (ClosedInterval 0 1)]"
proof -
  have "\<exists>j \<le> 7. \<exists>x. sample_flaky (t + j) b = Inr x" for t b
    by (rule exI [of _ "if even t then 0 else 1"]) (simp add: sample_flaky_def)
  then show ?thesis
    using fetch_data_delivers [of "(=)" sample_flaky 2 "[(BatchId (ClosedInterval 0 1), 5), (BatchId (ClosedInterval 2 3), 6),
      (BatchId (ClosedInterval 4 5), 5 :: nat)]" 5] by (simp add: get_batch_ids_for_node_def)
qed

end
