(* ===== verification/Model_Sharing.thy ===== *)
theory Model_Sharing
  imports Psyche_Prelude "HOL-Library.AList" "HOL-Library.Monad_Syntax"
begin

text \<open>
  How a client that joins a run gets the model from its peers (\<open>src/shared/network/src/p2p_model_sharing.rs\<close>, the
  request task of \<open>src/shared/network/src/lib.rs\<close>, and the handlers of \<open>src/shared/client/src/client.rs\<close> that use
  them): the manager of the peers to ask, the task that asks for a blob ticket, and the store of the parameters on
  both sides. Tensors, the tokenizer, the blob store and the answers of the peers are arguments. Rust's \<open>String\<close> is
  its bytes; \<open>HashMap\<close> is an association list with distinct keys.
\<close>

section \<open>The manager of the peers\<close>

record 'n peer_manager =
  pm_available :: "'n list"
  pm_errors :: "('n \<times> u8) list"
  pm_max :: u8
  pm_cancelled :: bool

datatype 'n peer_command =
    SetPeers "'n list"
  | GetPeer
  | ReportSuccess 'n
  | ReportModelDownloadError 'n

definition peer_manager_new :: "u8 \<Rightarrow> 'n peer_manager" where
  "peer_manager_new m = \<lparr>pm_available = [], pm_errors = [], pm_max = m, pm_cancelled = False\<rparr>"

text \<open>\<open>handle_message\<close> with the reply to \<open>GetPeer\<close>; the counter of errors is a checked \<open>u8\<close>.\<close>

definition peer_handle :: "'n peer_command \<Rightarrow> 'n peer_manager \<Rightarrow> ('n peer_manager \<times> 'n option) option" where
  "peer_handle cmd pm =
     (case cmd of
        SetPeers peers \<Rightarrow>
          Some (pm\<lparr>pm_available := peers, pm_errors := foldl (\<lambda>m p. AList.update p 0 m) [] peers\<rparr>, None)
      | GetPeer \<Rightarrow>
          (case pm_available pm of
             [] \<Rightarrow> Some (pm, None)
           | p # rest \<Rightarrow> Some (pm\<lparr>pm_available := rest\<rparr>, Some p))
      | ReportSuccess p \<Rightarrow>
          Some (if p \<notin> set (pm_available pm) then pm\<lparr>pm_available := pm_available pm @ [p]\<rparr> else pm, None)
      | ReportModelDownloadError p \<Rightarrow> do {
          count \<leftarrow> checked_add (case map_of (pm_errors pm) p of None \<Rightarrow> 0 | Some e \<Rightarrow> e) 1;
          let errors = AList.update p count (pm_errors pm);
          Some (if pm_max pm \<le> count
                then let available = filter (\<lambda>x. x \<noteq> p) (pm_available pm)
                     in pm\<lparr>pm_available := available, pm_errors := errors,
                           pm_cancelled := pm_cancelled pm \<or> available = [] \<and> (\<forall>(_, e) \<in> set errors. pm_max pm \<le> e)\<rparr>
                else if p \<notin> set (pm_available pm)
                then pm\<lparr>pm_available := pm_available pm @ [p], pm_errors := errors\<rparr>
                else pm\<lparr>pm_errors := errors\<rparr>, None)
        })"

fun peer_handle_all :: "'n peer_command list \<Rightarrow> 'n peer_manager \<Rightarrow> 'n peer_manager option" where
  "peer_handle_all [] pm = Some pm"
| "peer_handle_all (c # cs) pm = do { (pm', _) \<leftarrow> peer_handle c pm; peer_handle_all cs pm' }"

section \<open>Asking for a blob ticket\<close>

definition MAX_ATTEMPTS :: nat where "MAX_ATTEMPTS = 500"

text \<open>
  \<open>blob_ticket_param_request_task\<close> against the manager: \<open>others k\<close> are the commands of other tasks that reach the
  manager before attempt \<open>k\<close>, \<open>ask k p\<close> the answer of peer \<open>p\<close>, where a timeout is no answer. An attempt that
  succeeds ends the task; giving up cancels the token.
\<close>

fun request_task ::
    "(nat \<Rightarrow> 'n peer_command list) \<Rightarrow> (nat \<Rightarrow> 'n \<Rightarrow> 't option) \<Rightarrow> nat \<Rightarrow> nat \<Rightarrow> 'n peer_manager \<Rightarrow>
      ('n peer_manager \<times> 't option) option" where
  "request_task others ask 0 k pm = Some (pm\<lparr>pm_cancelled := True\<rparr>, None)"
| "request_task others ask (Suc left) k pm =
     do {
       pm \<leftarrow> peer_handle_all (others k) pm;
       (pm, peer) \<leftarrow> peer_handle GetPeer pm;
       (case peer of
          None \<Rightarrow> request_task others ask left (Suc k) pm
        | Some p \<Rightarrow>
            (case ask k p of
               Some ticket \<Rightarrow> do { (pm, _) \<leftarrow> peer_handle (ReportSuccess p) pm; Some (pm, Some ticket) }
             | None \<Rightarrow> do { (pm, _) \<leftarrow> peer_handle (ReportModelDownloadError p) pm;
                            request_task others ask left (Suc k) pm }))
     }"

definition blob_ticket_param_request_task ::
    "(nat \<Rightarrow> 'n peer_command list) \<Rightarrow> (nat \<Rightarrow> 'n \<Rightarrow> 't option) \<Rightarrow> 'n peer_manager \<Rightarrow> ('n peer_manager \<times> 't option) option" where
  "blob_ticket_param_request_task others ask pm = request_task others ask MAX_ATTEMPTS 0 pm"

section \<open>The parameters on both sides\<close>

datatype sharable_model_error =
    TchSerializeError
  | InvalidUpdate
  | ParameterUnknown bytes
  | ParameterAlreadyAdded
  | SerializationError
  | ParametersNotInitialized
  | ParameterNotInitialized bytes
  | ResponseChannelNotInitialized
  | ConnectionIOError
  | DecodeParameterNameError
  | ModelConfigNotInitialized
  | TokenizerConfigNotInitialized
  | ParseConfig
  | SendConfig
  | LoadThreadCrashed
  | P2PAddDownloadError

record transmittable_model_parameter =
  tp_name :: bytes
  tp_value :: bytes

record transmittable_model_config =
  tc_config :: bytes
  tc_tokenizer :: bytes

datatype model_download = ModelParameter transmittable_model_parameter | ModelConfig transmittable_model_config

text \<open>
  The other crates: saving and loading a tensor, possibly crashing the thread, printing and parsing a tokenizer, and
  adding a blob under a tag.
\<close>

record ('v, 'k, 't) sharing_env =
  se_save :: "'v \<Rightarrow> sharable_model_error + bytes"
  se_load :: "bytes \<Rightarrow> sharable_model_error + 'v"
  se_print :: "'k \<Rightarrow> bytes option"
  se_parse :: "bytes \<Rightarrow> 'k option"
  se_add :: "model_download \<Rightarrow> bytes \<Rightarrow> 't option"

text \<open>\<open>String::from_utf8\<close>\<close>

definition continuation :: "u8 \<Rightarrow> bool" where
  "continuation b \<longleftrightarrow> 0x80 \<le> b \<and> b \<le> 0xBF"

function utf8_valid :: "bytes \<Rightarrow> bool" where
  "utf8_valid bs =
     (case bs of
        [] \<Rightarrow> True
      | b # rest \<Rightarrow>
          if b < 0x80 then utf8_valid rest
          else if 0xC2 \<le> b \<and> b \<le> 0xDF
          then 1 \<le> length rest \<and> continuation (rest ! 0) \<and> utf8_valid (drop 1 rest)
          else if 0xE0 \<le> b \<and> b \<le> 0xEF
          then 2 \<le> length rest \<and> continuation (rest ! 0) \<and> (b = 0xE0 \<longrightarrow> 0xA0 \<le> rest ! 0) \<and> (b = 0xED \<longrightarrow> rest ! 0 \<le> 0x9F) \<and>
               continuation (rest ! 1) \<and> utf8_valid (drop 2 rest)
          else if 0xF0 \<le> b \<and> b \<le> 0xF4
          then 3 \<le> length rest \<and> continuation (rest ! 0) \<and> (b = 0xF0 \<longrightarrow> 0x90 \<le> rest ! 0) \<and> (b = 0xF4 \<longrightarrow> rest ! 0 \<le> 0x8F) \<and>
               continuation (rest ! 1) \<and> continuation (rest ! 2) \<and> utf8_valid (drop 3 rest)
          else False)"
  by auto
termination by (relation "measure length") auto

declare utf8_valid.simps [simp del]

definition parameter_name :: "transmittable_model_parameter \<Rightarrow> sharable_model_error + bytes" where
  "parameter_name p = (if utf8_valid (tp_name p) then Inr (tp_name p) else Inl DecodeParameterNameError)"

text \<open>
  A parameter that is being serialized is the value its thread works on: the thread's result is read when it is
  awaited. The two response channels are present or taken; \<open>sh_sent_parameters\<close> is what was sent over one of them.
\<close>

record ('v, 'k, 't) sharable_model =
  sh_parameters :: "(bytes \<times> 'v option) list option"
  sh_serializing :: "(bytes \<times> 'v) list option"
  sh_serialized :: "(bytes \<times> 't) list option"
  sh_model_config :: "bytes option"
  sh_tokenizer :: "'k option"
  sh_config_ticket :: "'t option"
  sh_tx_config :: bool
  sh_tx_params :: bool
  sh_sent_parameters :: "(bytes \<times> 'v) list option"
  sh_sent_config :: "(bytes \<times> 'k) option"

definition sharable_empty :: "('v, 'k, 't) sharable_model" where
  "sharable_empty = \<lparr>sh_parameters = None, sh_serializing = None, sh_serialized = None, sh_model_config = None,
     sh_tokenizer = None, sh_config_ticket = None, sh_tx_config = False, sh_tx_params = False,
     sh_sent_parameters = None, sh_sent_config = None\<rparr>"

definition update_parameters ::
    "(bytes \<times> 'v) list \<Rightarrow> ('v, 'k, 't) sharable_model \<Rightarrow> sharable_model_error + ('v, 'k, 't) sharable_model" where
  "update_parameters new m =
     (if (case sh_parameters m of None \<Rightarrow> False | Some ps \<Rightarrow> fst ` set new \<noteq> fst ` set ps)
      then Inl InvalidUpdate
      else Inr (m\<lparr>sh_parameters := Some (map (\<lambda>(n, v). (n, Some v)) new), sh_serialized := Some [], sh_serializing := Some new\<rparr>))"

definition update_config :: "bytes \<Rightarrow> 'k \<Rightarrow> ('v, 'k, 't) sharable_model \<Rightarrow> ('v, 'k, 't) sharable_model" where
  "update_config cfg tok m = m\<lparr>sh_model_config := Some cfg, sh_tokenizer := Some tok, sh_config_ticket := None\<rparr>"

text \<open>The second component is the state the call leaves behind, also when it fails.\<close>

definition get_transmittable_parameter ::
    "('v, 'k, 't) sharing_env \<Rightarrow> bytes \<Rightarrow> bytes \<Rightarrow> ('v, 'k, 't) sharable_model \<Rightarrow>
      (sharable_model_error + 't) \<times> ('v, 'k, 't) sharable_model" where
  "get_transmittable_parameter E name tag m =
     (case (sh_serializing m, sh_serialized m) of
        (Some loading, Some loaded) \<Rightarrow>
          (case map_of loaded name of
             Some ticket \<Rightarrow> (Inr ticket, m)
           | None \<Rightarrow>
               (case map_of loading name of
                  None \<Rightarrow> (Inl (ParameterUnknown name), m)
                | Some v \<Rightarrow>
                    let m = m\<lparr>sh_serializing := Some (AList.delete name loading)\<rparr>
                    in (case se_save E v of
                          Inl e \<Rightarrow> (Inl e, m)
                        | Inr value_bytes \<Rightarrow>
                            (case se_add E (ModelParameter \<lparr>tp_name = name, tp_value = value_bytes\<rparr>) tag of
                               None \<Rightarrow> (Inl P2PAddDownloadError, m)
                             | Some ticket \<Rightarrow> (Inr ticket, m\<lparr>sh_serialized := Some (AList.update name ticket loaded)\<rparr>)))))
      | _ \<Rightarrow> (Inl ParametersNotInitialized, m))"

definition get_transmittable_config ::
    "('v, 'k, 't) sharing_env \<Rightarrow> bytes \<Rightarrow> ('v, 'k, 't) sharable_model \<Rightarrow>
      (sharable_model_error + 't) \<times> ('v, 'k, 't) sharable_model" where
  "get_transmittable_config E tag m =
     (case sh_config_ticket m of
        Some ticket \<Rightarrow> (Inr ticket, m)
      | None \<Rightarrow>
          (case sh_model_config m of
             None \<Rightarrow> (Inl ModelConfigNotInitialized, m)
           | Some cfg \<Rightarrow>
               (case sh_tokenizer m of
                  None \<Rightarrow> (Inl TokenizerConfigNotInitialized, m)
                | Some tok \<Rightarrow>
                    (case se_print E tok of
                       None \<Rightarrow> (Inl ParseConfig, m)
                     | Some raw \<Rightarrow>
                         (case se_add E (ModelConfig \<lparr>tc_config = cfg, tc_tokenizer = raw\<rparr>) tag of
                            None \<Rightarrow> (Inl P2PAddDownloadError, m)
                          | Some ticket \<Rightarrow> (Inr ticket, m\<lparr>sh_config_ticket := Some ticket\<rparr>))))))"

definition clear_cache :: "('v, 'k, 't) sharable_model \<Rightarrow> ('v, 'k, 't) sharable_model" where
  "clear_cache m = m\<lparr>sh_config_ticket := None, sh_serialized := None\<rparr>"

definition initialize_parameters :: "bytes list \<Rightarrow> ('v, 'k, 't) sharable_model \<Rightarrow> ('v, 'k, 't) sharable_model" where
  "initialize_parameters names m =
     m\<lparr>sh_parameters := Some (foldl (\<lambda>ps n. AList.update n None ps) [] names), sh_tx_params := True\<rparr>"

definition add_parameter ::
    "('v, 'k, 't) sharing_env \<Rightarrow> transmittable_model_parameter \<Rightarrow> ('v, 'k, 't) sharable_model \<Rightarrow>
      sharable_model_error + ('v, 'k, 't) sharable_model" where
  "add_parameter E p m =
     (case sh_parameters m of
        None \<Rightarrow> Inl ParametersNotInitialized
      | Some ps \<Rightarrow>
          (case parameter_name p of
             Inl e \<Rightarrow> Inl e
           | Inr name \<Rightarrow>
               (case se_load E (tp_value p) of
                  Inl e \<Rightarrow> Inl e
                | Inr v \<Rightarrow>
                    (case map_of ps name of
                       None \<Rightarrow> Inl (ParameterUnknown name)
                     | Some _ \<Rightarrow> Inr (m\<lparr>sh_parameters := Some (AList.update name (Some v) ps)\<rparr>)))))"

definition add_config ::
    "('v, 'k, 't) sharing_env \<Rightarrow> transmittable_model_config \<Rightarrow> ('v, 'k, 't) sharable_model \<Rightarrow>
      sharable_model_error + ('v, 'k, 't) sharable_model" where
  "add_config E c m =
     (case se_parse E (tc_tokenizer c) of
        None \<Rightarrow> Inl ParseConfig
      | Some tok \<Rightarrow> Inr (m\<lparr>sh_model_config := Some (tc_config c), sh_tokenizer := Some tok\<rparr>))"

definition is_download_complete :: "('v, 'k, 't) sharable_model \<Rightarrow> bool" where
  "is_download_complete m = (case sh_parameters m of None \<Rightarrow> False | Some ps \<Rightarrow> \<forall>(_, v) \<in> set ps. v \<noteq> None)"

text \<open>\<open>rx_open\<close>: the task that waits for the parameters is still there.\<close>

fun parameters_to_send :: "(bytes \<times> 'v option) list \<Rightarrow> sharable_model_error + (bytes \<times> 'v) list" where
  "parameters_to_send [] = Inr []"
| "parameters_to_send ((n, v) # ps) =
     (case v of
        None \<Rightarrow> Inl (ParameterNotInitialized n)
      | Some x \<Rightarrow> (case parameters_to_send ps of Inl e \<Rightarrow> Inl e | Inr rest \<Rightarrow> Inr ((n, x) # rest)))"

definition send_init_parameters ::
    "bool \<Rightarrow> ('v, 'k, 't) sharable_model \<Rightarrow> sharable_model_error option \<times> ('v, 'k, 't) sharable_model" where
  "send_init_parameters rx_open m =
     (if \<not> sh_tx_params m then (Some ResponseChannelNotInitialized, m)
      else let m = m\<lparr>sh_tx_params := False\<rparr>
           in (case sh_parameters m of
                 None \<Rightarrow> (Some ParametersNotInitialized, m)
               | Some ps \<Rightarrow>
                   let m = m\<lparr>sh_parameters := None\<rparr>
                   in (case parameters_to_send ps of
                         Inl e \<Rightarrow> (Some e, m)
                       | Inr xs \<Rightarrow> if rx_open then (None, m\<lparr>sh_sent_parameters := Some xs\<rparr>)
                                  else (Some ResponseChannelNotInitialized, m))))"

definition send_config ::
    "bool \<Rightarrow> ('v, 'k, 't) sharable_model \<Rightarrow> sharable_model_error option \<times> ('v, 'k, 't) sharable_model" where
  "send_config rx_open m =
     (if \<not> sh_tx_config m then (Some ResponseChannelNotInitialized, m)
      else let m = m\<lparr>sh_tx_config := False\<rparr>
           in (case (sh_model_config m, sh_tokenizer m) of
                 (None, _) \<Rightarrow> (Some ModelConfigNotInitialized, m)
               | (Some _, None) \<Rightarrow> (Some TokenizerConfigNotInitialized, m)
               | (Some cfg, Some tok) \<Rightarrow> if rx_open then (None, m\<lparr>sh_sent_config := Some (cfg, tok)\<rparr>)
                                       else (Some SendConfig, m)))"

text \<open>What the main loop of the client does with a finished download; an error ends the client.\<close>

definition parameter_downloaded ::
    "('v, 'k, 't) sharing_env \<Rightarrow> bool \<Rightarrow> transmittable_model_parameter \<Rightarrow> ('v, 'k, 't) sharable_model \<Rightarrow>
      sharable_model_error + ('v, 'k, 't) sharable_model" where
  "parameter_downloaded E rx_open p m =
     (case parameter_name p of
        Inl e \<Rightarrow> Inl e
      | Inr _ \<Rightarrow>
          (case add_parameter E p m of
             Inl e \<Rightarrow> Inl e
           | Inr m \<Rightarrow>
               if is_download_complete m
               then (case send_init_parameters rx_open m of (Some e, _) \<Rightarrow> Inl e | (None, m) \<Rightarrow> Inr m)
               else Inr m))"

definition config_downloaded ::
    "('v, 'k, 't) sharing_env \<Rightarrow> bool \<Rightarrow> transmittable_model_config \<Rightarrow> ('v, 'k, 't) sharable_model \<Rightarrow>
      sharable_model_error + ('v, 'k, 't) sharable_model" where
  "config_downloaded E rx_open c m =
     (case add_config E c m of
        Inl e \<Rightarrow> Inl e
      | Inr m \<Rightarrow> (case send_config rx_open m of (Some e, _) \<Rightarrow> Inl e | (None, m) \<Rightarrow> Inr m))"

section \<open>Peers that fail\<close>

definition error_count :: "'n peer_manager \<Rightarrow> 'n \<Rightarrow> u8" where
  "error_count pm p = (case map_of (pm_errors pm) p of None \<Rightarrow> 0 | Some e \<Rightarrow> e)"

text \<open>A task that has every request refused: it takes a peer and reports its failure.\<close>

definition fail_round :: "'n peer_manager \<Rightarrow> 'n peer_manager option" where
  "fail_round pm =
     do {
       (pm, peer) \<leftarrow> peer_handle GetPeer pm;
       (case peer of
          None \<Rightarrow> Some pm
        | Some p \<Rightarrow> do { (pm, _) \<leftarrow> peer_handle (ReportModelDownloadError p) pm; Some pm })
     }"

fun fail_rounds :: "nat \<Rightarrow> 'n peer_manager \<Rightarrow> 'n peer_manager option" where
  "fail_rounds 0 pm = Some pm"
| "fail_rounds (Suc k) pm = do { pm \<leftarrow> fail_round pm; fail_rounds k pm }"

definition patience :: "'n peer_manager \<Rightarrow> nat" where
  "patience pm = (\<Sum>p\<leftarrow>pm_available pm. unat (pm_max pm) - unat (error_count pm p))"

definition failing_ok :: "'n peer_manager \<Rightarrow> bool" where
  "failing_ok pm \<longleftrightarrow> distinct (pm_available pm) \<and> distinct (map fst (pm_errors pm)) \<and>
     (\<forall>p \<in> set (pm_available pm). error_count pm p < pm_max pm) \<and>
     (\<forall>(p, e) \<in> set (pm_errors pm). p \<notin> set (pm_available pm) \<longrightarrow> pm_max pm \<le> e) \<and>
     (pm_cancelled pm \<longleftrightarrow> pm_available pm = [])"

lemma error_count_update [simp]:
  "error_count (pm\<lparr>pm_errors := AList.update p e (pm_errors pm)\<rparr>) q = (if q = p then e else error_count pm q)"
  by (simp add: error_count_def update_conv')

lemma error_count_irrelevant [simp]:
  "error_count (pm\<lparr>pm_available := av\<rparr>) = error_count pm" "error_count (pm\<lparr>pm_cancelled := c\<rparr>) = error_count pm"
  by (simp_all add: error_count_def fun_eq_iff)

lemma u8_Suc: "(e :: u8) < m \<Longrightarrow> checked_add e 1 = Some (e + 1) \<and> unat (e + 1) = Suc (unat e)"
proof -
  assume "e < m"
  then have "unat e + 1 < 2 ^ LENGTH(8)" using unat_less_pow [of m] by (simp add: word_less_nat_alt)
  then show ?thesis by (simp add: checked_add_def unat_word_ariths)
qed

lemma AList_update_set:
  "distinct (map fst xs) \<Longrightarrow> (k, v) \<in> set (AList.update p e xs) \<Longrightarrow> k = p \<and> v = e \<or> k \<noteq> p \<and> (k, v) \<in> set xs"
  by (metis distinct_update map_of_eq_Some_iff update_conv' fun_upd_apply option.inject)

lemma fail_round_step:
  assumes ok: "failing_ok pm" and av: "pm_available pm = p # rest"
  shows "\<exists>pm'. fail_round pm = Some pm' \<and> failing_ok pm' \<and> patience pm = Suc (patience pm') \<and> pm_max pm' = pm_max pm"
proof -
  let ?e = "error_count pm p" and ?m = "pm_max pm"
  let ?pm = "pm\<lparr>pm_available := rest\<rparr>"
  let ?errors = "AList.update p (?e + 1) (pm_errors pm)"
  have e: "?e < ?m" and p: "p \<notin> set rest" "distinct rest" and cancelled: "\<not> pm_cancelled pm"
    and others: "\<forall>q \<in> set rest. error_count pm q < ?m" using ok av by (auto simp: failing_ok_def)
  note c = u8_Suc [OF e]
  have rest: "filter (\<lambda>x. x \<noteq> p) rest = rest" using p by (auto intro: filter_True)
  have d: "distinct (map fst ?errors)" using ok by (simp add: failing_ok_def distinct_update)
  have keys: "k = p \<and> v = ?e + 1 \<or> k \<noteq> p \<and> (k \<notin> set rest \<longrightarrow> ?m \<le> v)" if "(k, v) \<in> set ?errors" for k v
    using AList_update_set [OF _ that] ok by (auto simp: failing_ok_def av)
  have same: "(\<Sum>q\<leftarrow>rest. unat ?m - unat (if q = p then x else error_count pm q)) = (\<Sum>q\<leftarrow>rest. unat ?m - unat (error_count pm q))" for x
    using p by (intro arg_cong [where f = sum_list] map_cong) auto
  show ?thesis
  proof (cases "?m \<le> ?e + 1")
    case True
    let ?pm' = "?pm\<lparr>pm_errors := ?errors, pm_cancelled := rest = []\<rparr>"
    have "rest = [] \<Longrightarrow> (\<forall>(_, v) \<in> set ?errors. ?m \<le> v)" using keys True by fastforce
    then have all: "(rest = [] \<and> (\<forall>(_, v) \<in> set ?errors. ?m \<le> v)) \<longleftrightarrow> rest = []" by blast
    have "fail_round pm = Some ?pm'" using c True rest cancelled all
      by (simp add: fail_round_def peer_handle_def av Let_def error_count_def)
    moreover have "failing_ok ?pm'" using p d others keys True by (auto simp: failing_ok_def error_count_def update_conv')
    moreover have "unat ?m - unat ?e = 1" using e c True by (simp add: word_le_nat_alt word_less_nat_alt)
    then have "patience pm = Suc (patience ?pm')"
      using same by (simp add: patience_def av error_count_def update_conv' if_distrib [where f = "case_option _ _"] cong: if_cong)
    ultimately show ?thesis by auto
  next
    case False
    let ?pm' = "?pm\<lparr>pm_available := rest @ [p], pm_errors := ?errors\<rparr>"
    have "fail_round pm = Some ?pm'" using c False p
      by (auto simp: fail_round_def peer_handle_def av Let_def error_count_def)
    moreover have "failing_ok ?pm'" using p d others keys False cancelled
      by (auto simp: failing_ok_def error_count_def update_conv')
    moreover have "unat ?m - unat ?e = Suc (unat ?m - unat (?e + 1))" using e c by (simp add: word_less_nat_alt)
    then have "patience pm = Suc (patience ?pm')"
      using same by (simp add: patience_def av error_count_def update_conv' if_distrib [where f = "case_option _ _"] cong: if_cong)
    ultimately show ?thesis by auto
  qed
qed

lemma failing_ok_cancelled: "failing_ok pm \<Longrightarrow> pm_cancelled pm \<longleftrightarrow> patience pm = 0"
  by (cases "pm_available pm") (auto simp: failing_ok_def patience_def word_less_nat_alt)

lemma fail_rounds_patience:
  "failing_ok pm \<Longrightarrow> \<exists>pm'. fail_rounds k pm = Some pm' \<and> failing_ok pm' \<and> patience pm' = patience pm - k"
proof (induction k arbitrary: pm)
  case (Suc k)
  show ?case
  proof (cases "pm_available pm")
    case Nil
    then have "fail_round pm = Some pm" by (simp add: fail_round_def peer_handle_def)
    moreover have "patience pm = 0" using Nil by (simp add: patience_def)
    ultimately show ?thesis using Suc.IH [OF Suc.prems] by simp
  next
    case (Cons p rest)
    then obtain pm' where "fail_round pm = Some pm'" "failing_ok pm'" "patience pm = Suc (patience pm')"
      using fail_round_step [OF Suc.prems] by blast
    then show ?thesis using Suc.IH by simp
  qed
qed auto

lemma set_peers_errors:
  "map_of (foldl (\<lambda>m p. AList.update p c m) xs peers) q = (if q \<in> set peers then Some c else map_of xs q)"
  by (induction peers arbitrary: xs) (auto simp: update_conv')

lemma set_peers_distinct:
  "distinct (map fst xs) \<Longrightarrow> distinct (map fst (foldl (\<lambda>m p. AList.update p c m) xs peers))"
  by (induction peers arbitrary: xs) (auto simp: distinct_update)

lemma set_peers_keys:
  "fst ` set (foldl (\<lambda>m p. AList.update p c m) xs peers) = set peers \<union> fst ` set xs"
  by (auto simp: dom_map_of_conv_image_fst [symmetric] set_peers_errors split: if_splits)

lemma banned_step:
  assumes "peer_handle c pm = Some (pm', r)" and "p \<notin> set (pm_available pm)" and "pm_max pm \<le> error_count pm p"
    and "\<forall>ps. c \<noteq> SetPeers ps" and "c \<noteq> ReportSuccess p"
  shows "p \<notin> set (pm_available pm') \<and> pm_max pm' \<le> error_count pm' p"
proof (cases c)
  case (ReportModelDownloadError q)
  then obtain n where n: "checked_add (error_count pm q) 1 = Some n"
    and h: "peer_handle c pm = Some (pm', r)" using assms(1) by (auto simp: peer_handle_def error_count_def bind_eq_Some_conv)
  then have n: "checked_add (error_count pm q) 1 = Some n"
    "pm_max pm' = pm_max pm" "set (pm_available pm') \<subseteq> insert q (set (pm_available pm))"
    "pm_max pm \<le> n \<Longrightarrow> set (pm_available pm') \<subseteq> set (pm_available pm)" "pm_errors pm' = AList.update q n (pm_errors pm)"
    using ReportModelDownloadError by (auto simp: peer_handle_def error_count_def Let_def split: if_splits)
  have "error_count pm' p = (if p = q then n else error_count pm p)" by (simp add: error_count_def n(5) update_conv')
  moreover have "error_count pm q \<le> n" using checked_add_Some [OF n(1)] by (simp add: word_le_nat_alt)
  ultimately show ?thesis using n assms(2,3) order_trans [of "pm_max pm" "error_count pm q" n] by (cases "p = q") auto
qed (use assms in \<open>auto simp: peer_handle_def split: list.splits if_splits\<close>)

lemma banned_stays:
  "peer_handle_all cs pm = Some pm' \<Longrightarrow> p \<notin> set (pm_available pm) \<Longrightarrow> pm_max pm \<le> error_count pm p \<Longrightarrow>
    (\<forall>c \<in> set cs. (\<forall>ps. c \<noteq> SetPeers ps) \<and> c \<noteq> ReportSuccess p) \<Longrightarrow> p \<notin> set (pm_available pm')"
proof (induction cs arbitrary: pm)
  case (Cons c cs)
  then obtain pm1 r where h: "peer_handle c pm = Some (pm1, r)" "peer_handle_all cs pm1 = Some pm'"
    by (auto simp: bind_eq_Some_conv)
  from banned_step [OF h(1) Cons.prems(2,3)] Cons.prems(4) have "p \<notin> set (pm_available pm1)" "pm_max pm1 \<le> error_count pm1 p"
    by auto
  then show ?case using Cons.IH [OF h(2)] Cons.prems(4) by simp
qed simp

text \<open>
  If every peer refuses every request, the client gives up at a definite moment: with \<open>n\<close> peers and a limit of
  \<open>m\<close> errors, it is cancelled after exactly \<open>n \<cdot> m\<close> refused requests and not before, and the counters never overflow.
  In general a peer that reached the limit is not handed out again unless it is reported successful or the list of
  peers is set anew.
\<close>

theorem unreachable_peers_cancel:
  assumes "distinct peers" and "peers \<noteq> []" and "0 < m"
  shows "\<exists>pm. peer_handle (SetPeers peers) (peer_manager_new m) = Some (pm, None) \<and>
    (\<exists>pm'. fail_rounds k pm = Some pm' \<and> (pm_cancelled pm' \<longleftrightarrow> length peers * unat m \<le> k)) \<and>
    (\<forall>cs pm1 pm2 p. peer_handle_all cs pm1 = Some pm2 \<and> p \<notin> set (pm_available pm1) \<and> m \<le> error_count pm1 p \<and> pm_max pm1 = m \<and>
      (\<forall>c \<in> set cs. (\<forall>ps. c \<noteq> SetPeers ps) \<and> c \<noteq> ReportSuccess p) \<longrightarrow>
      (\<forall>pm3. peer_handle GetPeer pm2 \<noteq> Some (pm3, Some p)))"
proof -
  let ?errors = "foldl (\<lambda>m p. AList.update p 0 m) [] peers :: (_ \<times> u8) list"
  let ?pm = "\<lparr>pm_available = peers, pm_errors = ?errors, pm_max = m, pm_cancelled = False\<rparr>"
  have set: "peer_handle (SetPeers peers) (peer_manager_new m) = Some (?pm, None)"
    by (simp add: peer_handle_def peer_manager_new_def)
  have count: "error_count ?pm p = 0" for p by (simp add: error_count_def set_peers_errors)
  have "p \<in> set peers" if "(p, e) \<in> set ?errors" for p e
    using set_peers_keys [of 0 "[]" peers] that by force
  then have ok: "failing_ok ?pm" using assms set_peers_distinct [of "[]" 0 peers] by (auto simp: failing_ok_def count)
  have patience: "patience ?pm = length peers * unat m" by (simp add: patience_def count sum_list_triv)
  obtain pm' where pm': "fail_rounds k ?pm = Some pm'" "failing_ok pm'" "patience pm' = patience ?pm - k"
    using fail_rounds_patience [OF ok] by blast
  then have rounds: "\<exists>pm'. fail_rounds k ?pm = Some pm' \<and> (pm_cancelled pm' \<longleftrightarrow> length peers * unat m \<le> k)"
    using failing_ok_cancelled [OF pm'(2)] patience by simp
  have banned: "peer_handle GetPeer pm2 \<noteq> Some (pm3, Some p)"
    if "peer_handle_all cs pm1 = Some pm2 \<and> p \<notin> set (pm_available pm1) \<and> m \<le> error_count pm1 p \<and> pm_max pm1 = m \<and>
      (\<forall>c \<in> set cs. (\<forall>ps. c \<noteq> SetPeers ps) \<and> c \<noteq> ReportSuccess p)" for cs pm1 pm2 pm3 p
    using banned_stays [of cs pm1 pm2 p] that by (auto simp: peer_handle_def split: list.splits)
  show ?thesis by (intro exI [of _ ?pm] conjI set rounds allI impI) (rule banned)
qed

theorem unreachable_peers_cancel_witness:
  "\<exists>pm pm'. peer_handle (SetPeers [1 :: nat, 2, 3]) (peer_manager_new 5) = Some (pm, None) \<and>
    fail_rounds 15 pm = Some pm' \<and> pm_cancelled pm'"
proof -
  have "(0 :: u8) < 5" "length [1 :: nat, 2, 3] * unat (5 :: u8) \<le> 15" by simp_all
  then show ?thesis using unreachable_peers_cancel [of "[1 :: nat, 2, 3]" 5 15] by auto
qed

section \<open>The parameters arrive unchanged\<close>

text \<open>
  A sharing and a joining client: for every name, the joining client is given the ticket of the parameter, downloads
  the blob behind it and hands it to its main loop.
\<close>

fun transfer ::
    "('v, 'k, 't) sharing_env \<Rightarrow> ('t \<Rightarrow> model_download option) \<Rightarrow> bytes list \<Rightarrow> ('v, 'k, 't) sharable_model \<Rightarrow>
      ('v, 'k, 't) sharable_model \<Rightarrow> (('v, 'k, 't) sharable_model \<times> ('v, 'k, 't) sharable_model) option" where
  "transfer E fetch [] s r = Some (s, r)"
| "transfer E fetch (n # ns) s r =
     (case get_transmittable_parameter E n (map (\<lambda>c. of_char c) ''model-'' @ n) s of
        (Inr ticket, s) \<Rightarrow>
          (case fetch ticket of
             Some (ModelParameter p) \<Rightarrow>
               (case parameter_downloaded E True p r of
                  Inr r \<Rightarrow> transfer E fetch ns s r
                | Inl _ \<Rightarrow> None)
           | _ \<Rightarrow> None)
      | _ \<Rightarrow> None)"

text \<open>What the other crates promise: a saved tensor loads again, and a ticket leads to the blob it was made for.\<close>

definition sharing_ok :: "('v, 'k, 't) sharing_env \<Rightarrow> ('t \<Rightarrow> model_download option) \<Rightarrow> bool" where
  "sharing_ok E fetch \<longleftrightarrow>
     (\<forall>v. \<exists>bs. se_save E v = Inr bs \<and> se_load E bs = Inr v) \<and>
     (\<forall>d tag. \<exists>t. se_add E d tag = Some t \<and> fetch t = Some d)"

definition sharer_inv :: "(bytes \<times> 'v) list \<Rightarrow> bytes set \<Rightarrow> ('v, 'k, 't) sharable_model \<Rightarrow> bool" where
  "sharer_inv ps shared s \<longleftrightarrow> (\<exists>loading loaded. sh_serializing s = Some loading \<and> sh_serialized s = Some loaded \<and>
     (\<forall>n. n \<notin> shared \<longrightarrow> map_of loading n = map_of ps n \<and> map_of loaded n = None))"

definition joiner_inv :: "(bytes \<times> 'v) list \<Rightarrow> bytes set \<Rightarrow> ('v, 'k, 't) sharable_model \<Rightarrow> bool" where
  "joiner_inv ps shared r \<longleftrightarrow> sh_tx_params r \<and> (\<exists>qs. sh_parameters r = Some qs \<and> distinct (map fst qs) \<and>
     (\<forall>n. map_of qs n = map_option (\<lambda>v. if n \<in> shared then Some v else None) (map_of ps n)))"

lemma sharer_serves:
  assumes ok: "sharing_ok E fetch" and s: "sharer_inv ps shared s" and n: "n \<notin> shared" "map_of ps n = Some v"
  obtains t bs s' where "get_transmittable_parameter E n tag s = (Inr t, s')" "fetch t = Some (ModelParameter \<lparr>tp_name = n, tp_value = bs\<rparr>)"
    "se_load E bs = Inr v" "sharer_inv ps (insert n shared) s'"
proof -
  obtain loading loaded where l: "sh_serializing s = Some loading" "sh_serialized s = Some loaded"
    "\<forall>n. n \<notin> shared \<longrightarrow> map_of loading n = map_of ps n \<and> map_of loaded n = None" using s by (auto simp: sharer_inv_def)
  obtain bs where bs: "se_save E v = Inr bs" "se_load E bs = Inr v" using ok unfolding sharing_ok_def by blast
  obtain t where t: "se_add E (ModelParameter \<lparr>tp_name = n, tp_value = bs\<rparr>) tag = Some t"
    "fetch t = Some (ModelParameter \<lparr>tp_name = n, tp_value = bs\<rparr>)" using ok unfolding sharing_ok_def by blast
  let ?s = "s\<lparr>sh_serializing := Some (AList.delete n loading), sh_serialized := Some (AList.update n t loaded)\<rparr>"
  have "get_transmittable_parameter E n tag s = (Inr t, ?s)"
    using l n bs t by (simp add: get_transmittable_parameter_def Let_def)
  moreover have "sharer_inv ps (insert n shared) ?s" using l(3) by (auto simp: sharer_inv_def update_conv' delete_conv')
  ultimately show thesis using that t(2) bs(2) by blast
qed

lemma complete_iff:
  assumes "distinct (map fst qs)"
  shows "(\<forall>(_, v) \<in> set qs. v \<noteq> None) \<longleftrightarrow> (\<forall>n v. map_of qs n = Some v \<longrightarrow> v \<noteq> None)"
  using assms by (auto simp: map_of_eq_Some_iff)

lemma parameters_to_send_all:
  "(\<forall>(_, v) \<in> set qs. v \<noteq> None) \<Longrightarrow> \<exists>xs. parameters_to_send qs = Inr xs \<and> (\<forall>n. map_of xs n = map_option the (map_of qs n))"
proof (induction qs)
  case (Cons q qs)
  obtain n v where q: "q = (n, Some v)" using Cons.prems by (cases q) auto
  then show ?case using Cons by auto
qed simp

lemma joiner_receives:
  assumes r: "joiner_inv ps shared r" and n: "map_of ps n = Some v" "utf8_valid n" and load: "se_load E bs = Inr v"
  shows "\<exists>r'. parameter_downloaded E True \<lparr>tp_name = n, tp_value = bs\<rparr> r = Inr r' \<and>
    (if \<forall>k v. map_of ps k = Some v \<longrightarrow> k \<in> insert n shared
     then \<exists>xs. sh_sent_parameters r' = Some xs \<and> map_of xs = map_of ps
     else joiner_inv ps (insert n shared) r' \<and> sh_sent_parameters r' = sh_sent_parameters r)"
proof -
  obtain qs where qs: "sh_parameters r = Some qs" "distinct (map fst qs)" "sh_tx_params r"
    "\<forall>k. map_of qs k = map_option (\<lambda>v. if k \<in> shared then Some v else None) (map_of ps k)"
    using r by (auto simp: joiner_inv_def)
  let ?qs = "AList.update n (Some v) qs" and ?r = "r\<lparr>sh_parameters := Some (AList.update n (Some v) qs)\<rparr>"
  have d: "distinct (map fst ?qs)" using qs(2) by (simp add: distinct_update)
  have m: "map_of ?qs k = map_option (\<lambda>v. if k \<in> insert n shared then Some v else None) (map_of ps k)" for k
    using qs(4) n(1) by (auto simp: update_conv')
  have add: "add_parameter E \<lparr>tp_name = n, tp_value = bs\<rparr> r = Inr ?r"
    using qs n load by (simp add: add_parameter_def parameter_name_def)
  have "is_download_complete ?r \<longleftrightarrow> (\<forall>(_, v) \<in> set ?qs. v \<noteq> None)" by (simp add: is_download_complete_def)
  also have "\<dots> \<longleftrightarrow> (\<forall>k v. map_of ?qs k = Some v \<longrightarrow> v \<noteq> None)" by (rule complete_iff [OF d])
  also have "\<dots> \<longleftrightarrow> (\<forall>k v. map_of ps k = Some v \<longrightarrow> k \<in> insert n shared)"
    unfolding m by (auto simp: map_option_case split: option.splits if_splits)
  finally have all: "is_download_complete ?r \<longleftrightarrow> (\<forall>k v. map_of ps k = Some v \<longrightarrow> k \<in> insert n shared)" .
  show ?thesis
  proof (cases "is_download_complete ?r")
    case True
    then obtain xs where xs: "parameters_to_send ?qs = Inr xs" "\<forall>k. map_of xs k = map_option the (map_of ?qs k)"
      using parameters_to_send_all [of ?qs] by (auto simp: is_download_complete_def)
    have "map_of xs k = map_of ps k" for k using xs(2) m [of k] True [unfolded all] by (cases "map_of ps k") auto
    then have "map_of xs = map_of ps" by (rule ext)
    then show ?thesis using True [unfolded all] True add xs(1) qs(3) n(2)
      by (auto simp: parameter_downloaded_def parameter_name_def send_init_parameters_def Let_def)
  next
    case False
    then have "parameter_downloaded E True \<lparr>tp_name = n, tp_value = bs\<rparr> r = Inr ?r"
      using add n(2) by (simp add: parameter_downloaded_def parameter_name_def)
    moreover have "joiner_inv ps (insert n shared) ?r" using qs(3) d m by (simp add: joiner_inv_def)
    ultimately show ?thesis using False [unfolded all] by auto
  qed
qed

lemma transfer_all:
  assumes ok: "sharing_ok E fetch" and utf8: "\<forall>n v. map_of ps n = Some v \<longrightarrow> utf8_valid n"
  shows "sharer_inv ps shared s \<Longrightarrow> joiner_inv ps shared r \<Longrightarrow> distinct ns \<Longrightarrow> set ns \<inter> shared = {} \<Longrightarrow>
    set ns \<subseteq> dom (map_of ps) \<Longrightarrow> shared \<subset> dom (map_of ps) \<Longrightarrow>
    \<exists>s' r'. transfer E fetch ns s r = Some (s', r') \<and>
      (if shared \<union> set ns = dom (map_of ps) then \<exists>xs. sh_sent_parameters r' = Some xs \<and> map_of xs = map_of ps
       else sh_sent_parameters r' = sh_sent_parameters r)"
proof (induction ns arbitrary: shared s r)
  case Nil
  then show ?case by auto
next
  case (Cons n ns)
  obtain v where v: "map_of ps n = Some v" using Cons.prems(5) by auto
  obtain t bs s1 where t: "get_transmittable_parameter E n (map (\<lambda>c. of_char c) ''model-'' @ n) s = (Inr t, s1)"
    "fetch t = Some (ModelParameter \<lparr>tp_name = n, tp_value = bs\<rparr>)" "se_load E bs = Inr v" "sharer_inv ps (insert n shared) s1"
    by (rule sharer_serves [OF ok Cons.prems(1) _ v]) (use Cons.prems(4) in auto)
  obtain r1 where r1: "parameter_downloaded E True \<lparr>tp_name = n, tp_value = bs\<rparr> r = Inr r1"
    "if \<forall>k v. map_of ps k = Some v \<longrightarrow> k \<in> insert n shared then \<exists>xs. sh_sent_parameters r1 = Some xs \<and> map_of xs = map_of ps
     else joiner_inv ps (insert n shared) r1 \<and> sh_sent_parameters r1 = sh_sent_parameters r"
    using joiner_receives [OF Cons.prems(2) v _ t(3)] utf8 v by blast
  show ?case
  proof (cases "\<forall>k v. map_of ps k = Some v \<longrightarrow> k \<in> insert n shared")
    case True
    then have "dom (map_of ps) = insert n shared" using v Cons.prems(6) by auto
    moreover have "ns = []" using Cons.prems(3,4,5) calculation by (cases ns) auto
    ultimately show ?thesis using t(1,2) r1 True by simp
  next
    case False
    then have j: "joiner_inv ps (insert n shared) r1" "sh_sent_parameters r1 = sh_sent_parameters r" using r1(2) by auto
    have "insert n shared \<subset> dom (map_of ps)" using False v Cons.prems(6) by auto
    from Cons.IH [OF t(4) j(1) _ _ _ this] Cons.prems(3-5) obtain s' r' where
      "transfer E fetch ns s1 r1 = Some (s', r')"
      "if insert n shared \<union> set ns = dom (map_of ps) then \<exists>xs. sh_sent_parameters r' = Some xs \<and> map_of xs = map_of ps
       else sh_sent_parameters r' = sh_sent_parameters r1" by auto
    then show ?thesis using t(1,2) r1(1) j(2) by simp
  qed
qed

text \<open>
  C20. A joining client receives the model its peer shares, unchanged: whatever the order in which the parameters are
  downloaded, every request for a ticket is answered, every download is accepted, and when the last parameter has
  arrived, and not before, exactly the shared parameters are handed to the task that builds the model.
\<close>

theorem parameters_arrive_unchanged:
  assumes "sharing_ok E fetch" and "update_parameters ps s0 = Inr s" and "distinct (map fst ps)" and "ps \<noteq> []"
    and "\<forall>n \<in> fst ` set ps. utf8_valid n" and "set names = fst ` set ps" and "distinct ns" and "set ns \<subseteq> fst ` set ps"
  shows "\<exists>s' r'. transfer E fetch ns s (initialize_parameters names r0) = Some (s', r') \<and>
    (if set ns = fst ` set ps then \<exists>xs. sh_sent_parameters r' = Some xs \<and> map_of xs = map_of ps
     else sh_sent_parameters r' = sh_sent_parameters r0)"
proof -
  have dom: "dom (map_of ps) = fst ` set ps" by (rule dom_map_of_conv_image_fst)
  have s: "sharer_inv ps {} s" using assms(2) by (auto simp: update_parameters_def sharer_inv_def split: if_splits)
  have known: "n \<in> fst ` set ps" if "map_of ps n = Some v" for n v using dom that by blast
  have r: "joiner_inv ps {} (initialize_parameters names r0)"
    using set_peers_distinct [of "[]" None names] assms(6)
    by (auto simp: joiner_inv_def initialize_parameters_def set_peers_errors map_option_case map_of_eq_None_iff
        split: option.split dest: known)
  have "{} \<subset> dom (map_of ps)" using assms(4) dom by auto
  moreover have "\<forall>n v. map_of ps n = Some v \<longrightarrow> utf8_valid n" using assms(5) dom by blast
  moreover have "sh_sent_parameters (initialize_parameters names r0) = sh_sent_parameters r0"
    by (simp add: initialize_parameters_def)
  ultimately show ?thesis using transfer_all [OF assms(1) _ s r assms(7)] assms(8) by (simp only: dom inf_bot_right sup_bot_left)
qed

definition sample_sharing :: "(u8 list, nat, model_download) sharing_env" where
  "sample_sharing = \<lparr>se_save = Inr, se_load = Inr, se_print = (\<lambda>_. None), se_parse = (\<lambda>_. None), se_add = (\<lambda>d tag. Some d)\<rparr>"

theorem parameters_arrive_unchanged_witness:
  "\<exists>s s' r' xs. update_parameters [([97], [1, 2]), ([98], [3])] sharable_empty = Inr s \<and>
    transfer sample_sharing Some [[98], [97]] s (initialize_parameters [[97], [98]] sharable_empty) = Some (s', r') \<and>
    sh_sent_parameters r' = Some xs \<and> map_of xs = map_of [([97], [1, 2]), ([98], [3])]"
proof -
  obtain s where s: "update_parameters [([97], [1, 2]), ([98], [3])] sharable_empty = Inr (s :: (u8 list, nat, model_download) sharable_model)"
    by (simp add: update_parameters_def sharable_empty_def)
  have "sharing_ok sample_sharing Some" by (simp add: sharing_ok_def sample_sharing_def)
  moreover have "utf8_valid [97]" "utf8_valid [98]" by (simp_all add: utf8_valid.simps)
  moreover have e: "set [[98], [97]] = fst ` set [([97 :: u8], [1, 2]), ([98], [3 :: u8])]" by auto
  ultimately have "\<exists>s' r'. transfer sample_sharing Some [[98], [97]] s (initialize_parameters [[97], [98]] sharable_empty) = Some (s', r') \<and>
      (if set [[98], [97]] = fst ` set [([97 :: u8], [1, 2]), ([98], [3 :: u8])]
       then \<exists>xs. sh_sent_parameters r' = Some xs \<and> map_of xs = map_of [([97], [1, 2]), ([98], [3])]
       else sh_sent_parameters r' = sh_sent_parameters (sharable_empty :: (u8 list, nat, model_download) sharable_model))"
    by (intro parameters_arrive_unchanged [OF _ s]) auto
  then show ?thesis using s unfolding if_P [OF e] by blast
qed

end
