(* ===== verification/Downloads.thy ===== *)
theory Downloads
  imports Model_Sharing
begin

text \<open>
  Downloads of blobs (\<open>src/shared/network/src/download_manager.rs\<close>, the parts of \<open>lib.rs\<close>, \<open>latency_sorted.rs\<close> and
  \<open>allowlist.rs\<close> around them) and what the main loop of the client does when one ends (\<open>src/shared/client/src/client.rs\<close>).
  The blob transfer itself, its progress items and the decoding of a blob belong to other crates and are arguments.
  Instants are milliseconds. The order in which a hash table lists its entries is the order of the association list.
\<close>

section \<open>Tickets and kinds of downloads\<close>

record 'n blob_ticket =
  bt_hash :: bytes
  bt_addr :: 'n

datatype model_request_type = Config | Parameter bytes

datatype 'n download_type = DistroResult "'n list" | ModelSharing model_request_type

section \<open>Downloads to be retried\<close>

record 'n download_retry_info =
  ri_retries :: nat
  ri_retry_time :: "nat option"
  ri_ticket :: "'n blob_ticket"
  ri_tag :: bytes
  ri_type :: "'n download_type"

type_synonym 'n retried_downloads = "(bytes \<times> 'n download_retry_info) list"

definition MAX_DOWNLOAD_RETRIES :: nat where "MAX_DOWNLOAD_RETRIES = 3"

definition retry_insert :: "'n download_retry_info \<Rightarrow> 'n retried_downloads \<Rightarrow> 'n retried_downloads" where
  "retry_insert info ds = AList.update (bt_hash (ri_ticket info)) info ds"

definition retry_remove :: "bytes \<Rightarrow> 'n retried_downloads \<Rightarrow> 'n download_retry_info option \<times> 'n retried_downloads" where
  "retry_remove h ds = (map_of ds h, AList.delete h ds)"

definition retry_get :: "bytes \<Rightarrow> 'n retried_downloads \<Rightarrow> 'n download_retry_info option" where
  "retry_get h ds = map_of ds h"

definition pending_retries ::
    "nat \<Rightarrow> 'n retried_downloads \<Rightarrow> (bytes \<times> 'n blob_ticket \<times> bytes \<times> 'n download_type) list" where
  "pending_retries now ds =
     map (\<lambda>(h, info). (h, ri_ticket info, ri_tag info, ri_type info))
       (filter (\<lambda>(_, info). case ri_retry_time info of None \<Rightarrow> False | Some t \<Rightarrow> t \<le> now) ds)"

definition retry_update_time :: "bytes \<Rightarrow> 'n retried_downloads \<Rightarrow> nat \<times> 'n retried_downloads" where
  "retry_update_time h ds =
     (case map_of ds h of
        None \<Rightarrow> (0, ds)
      | Some info \<Rightarrow> (ri_retries info, AList.update h (info\<lparr>ri_retry_time := None\<rparr>) ds))"

text \<open>The check for due retries: every due download is marked and requested again.\<close>

fun request_retries ::
    "(bytes \<times> 'n blob_ticket \<times> bytes \<times> 'n download_type) list \<Rightarrow> 'n retried_downloads \<Rightarrow>
      'n retried_downloads \<times> ('n blob_ticket \<times> bytes \<times> 'n download_type) list" where
  "request_retries [] ds = (ds, [])"
| "request_retries ((h, ticket, tag, ty) # rest) ds =
     (let (_, ds) = retry_update_time h ds; (ds, reqs) = request_retries rest ds in (ds, (ticket, tag, ty) # reqs))"

definition retry_check ::
    "nat \<Rightarrow> 'n retried_downloads \<Rightarrow> 'n retried_downloads \<times> ('n blob_ticket \<times> bytes \<times> 'n download_type) list" where
  "retry_check now ds = request_retries (pending_retries now ds) ds"

section \<open>The manager of running downloads\<close>

record 'n download =
  dl_ticket :: "'n blob_ticket"
  dl_tag :: bytes
  dl_last_offset :: u64
  dl_total_size :: u64
  dl_type :: "'n download_type"

definition download_new :: "'n blob_ticket \<Rightarrow> bytes \<Rightarrow> 'n download_type \<Rightarrow> 'n download" where
  "download_new t tag ty = \<lparr>dl_ticket = t, dl_tag = tag, dl_last_offset = 0, dl_total_size = 0, dl_type = ty\<rparr>"

text \<open>The items of a running download; \<open>Closed\<close> is the end of their channel.\<close>

datatype progress_item = TryProvider | Progress u64 | PartComplete | DownloadError | ItemError | ProviderFailed | Closed

record 'n download_update =
  du_ticket :: "'n blob_ticket"
  du_tag :: bytes
  du_delta :: u64
  du_size :: u64
  du_total :: u64
  du_all_done :: bool
  du_type :: "'n download_type"

record 'n download_failed =
  df_ticket :: "'n blob_ticket"
  df_tag :: bytes
  df_type :: "'n download_type"

record ('n, 'd) download_complete =
  dc_hash :: bytes
  dc_from :: 'n
  dc_data :: 'd

datatype ('n, 'd) download_event =
    Update "'n download_update"
  | Complete "('n, 'd) download_complete"
  | Failed "'n download_failed"

definition swap_remove :: "nat \<Rightarrow> 'a list \<Rightarrow> 'a list" where
  "swap_remove i xs = butlast (xs[i := last xs])"

definition progress_update :: "'n download \<Rightarrow> u64 \<Rightarrow> u64 \<Rightarrow> u64 \<Rightarrow> bool \<Rightarrow> ('n, 'd) download_event" where
  "progress_update d delta sz total_sz all_done =
     Update \<lparr>du_ticket = dl_ticket d, du_tag = dl_tag d, du_delta = delta, du_size = sz, du_total = total_sz,
             du_all_done = all_done, du_type = dl_type d\<rparr>"

definition progress_failed :: "'n download \<Rightarrow> ('n, 'd) download_event" where
  "progress_failed d = Failed \<lparr>df_ticket = dl_ticket d, df_tag = dl_tag d, df_type = dl_type d\<rparr>"

definition progress_event :: "'n download \<Rightarrow> progress_item \<Rightarrow> ('n, 'd) download_event" where
  "progress_event d item =
     (case item of
        TryProvider \<Rightarrow> progress_update d 0 0 0 False
      | Progress n \<Rightarrow> progress_update d (if dl_last_offset d \<le> n then n - dl_last_offset d else 0) n (dl_total_size d) False
      | PartComplete \<Rightarrow> progress_update d 0 (dl_last_offset d) (dl_total_size d) True
      | ProviderFailed \<Rightarrow> progress_update d 0 (dl_last_offset d) (dl_total_size d) False
      | DownloadError \<Rightarrow> progress_failed d
      | ItemError \<Rightarrow> progress_failed d
      | Closed \<Rightarrow> progress_failed d)"

text \<open>An event after which the download is no longer managed.\<close>

fun final_event :: "('n, 'd) download_event \<Rightarrow> bool" where
  "final_event (Update u) \<longleftrightarrow> du_all_done u"
| "final_event (Failed f) \<longleftrightarrow> True"
| "final_event (Complete c) \<longleftrightarrow> False"

definition handle_download_progress ::
    "'n download list \<Rightarrow> progress_item \<Rightarrow> nat \<Rightarrow> (('n, 'd) download_event \<times> 'n download list) option" where
  "handle_download_progress downloads item i =
     (case nth_opt downloads i of
        None \<Rightarrow> None
      | Some d \<Rightarrow>
          let event = progress_event d item
          in Some (event, if final_event event then swap_remove i downloads else downloads))"

text \<open>A blob that was read is decoded; \<open>None\<close> is a reader that was dropped.\<close>

record 'n reading_download =
  rd_ticket :: "'n blob_ticket"
  rd_tag :: bytes
  rd_type :: "'n download_type"

definition handle_read_result :: "(bytes \<Rightarrow> 'd option) \<Rightarrow> 'n reading_download \<Rightarrow> bytes option \<Rightarrow> ('n, 'd) download_event" where
  "handle_read_result decode d result =
     (case Option.bind result decode of
        Some x \<Rightarrow> Complete \<lparr>dc_hash = bt_hash (rd_ticket d), dc_from = bt_addr (rd_ticket d), dc_data = x\<rparr>
      | None \<Rightarrow> Failed \<lparr>df_ticket = rd_ticket d, df_tag = rd_tag d, df_type = rd_type d\<rparr>)"

record 'n download_manager =
  dm_downloads :: "'n download list"
  dm_reading :: "'n reading_download list"

definition manager_add :: "'n blob_ticket \<Rightarrow> bytes \<Rightarrow> 'n download_type \<Rightarrow> 'n download_manager \<Rightarrow> 'n download_manager" where
  "manager_add t tag ty m = m\<lparr>dm_downloads := dm_downloads m @ [download_new t tag ty]\<rparr>"

definition manager_read :: "'n blob_ticket \<Rightarrow> bytes \<Rightarrow> 'n download_type \<Rightarrow> 'n download_manager \<Rightarrow> 'n download_manager" where
  "manager_read t tag ty m = m\<lparr>dm_reading := dm_reading m @ [\<lparr>rd_ticket = t, rd_tag = tag, rd_type = ty\<rparr>]\<rparr>"

text \<open>One turn of the manager: whichever download or reader has something first.\<close>

datatype ready = DownloadReady nat progress_item | ReadReady nat "bytes option"

definition manager_poll ::
    "(bytes \<Rightarrow> 'd option) \<Rightarrow> ready \<Rightarrow> 'n download_manager \<Rightarrow> (('n, 'd) download_event \<times> 'n download_manager) option" where
  "manager_poll decode r m =
     (case r of
        DownloadReady i item \<Rightarrow> do {
          (event, ds) \<leftarrow> handle_download_progress (dm_downloads m) item i;
          Some (event, m\<lparr>dm_downloads := ds\<rparr>)
        }
      | ReadReady i result \<Rightarrow> do {
          d \<leftarrow> nth_opt (dm_reading m) i;
          Some (handle_read_result decode d result, m\<lparr>dm_reading := swap_remove i (dm_reading m)\<rparr>)
        })"

text \<open>
  \<open>poll_next\<close> of the network: a finished transfer is read, other progress is only shown; what is handed to the client
  is a completed or a failed download.
\<close>

definition network_download_event ::
    "('n, 'd) download_event \<Rightarrow> 'n download_manager \<Rightarrow> ('n, 'd) download_event option \<times> 'n download_manager" where
  "network_download_event event m =
     (case event of
        Update u \<Rightarrow> (None, if du_all_done u then manager_read (du_ticket u) (du_tag u) (du_type u) m else m)
      | _ \<Rightarrow> (Some event, m))"

section \<open>Where a blob is looked for\<close>

text \<open>\<open>LatencySorted\<close>: every node once, those with an unknown latency last.\<close>

definition latency_sorted :: "('n \<Rightarrow> nat option) \<Rightarrow> nat \<Rightarrow> 'n list \<Rightarrow> 'n list" where
  "latency_sorted latency max_duration nodes =
     sort_key (\<lambda>n. case latency n of None \<Rightarrow> max_duration | Some l \<Rightarrow> l) (rev (remdups (rev nodes)))"

definition download_providers :: "('n \<Rightarrow> nat option) \<Rightarrow> nat \<Rightarrow> 'n blob_ticket \<Rightarrow> 'n download_type \<Rightarrow> 'n list" where
  "download_providers latency max_duration t ty =
     latency_sorted latency max_duration (bt_addr t # (case ty of DistroResult peers \<Rightarrow> peers | ModelSharing _ \<Rightarrow> []))"

section \<open>The client's reactions\<close>

definition DOWNLOAD_RETRY_BACKOFF_BASE :: nat where "DOWNLOAD_RETRY_BACKOFF_BASE = 2000"

text \<open>A download of a training result failed: retried later, or dropped after the last retry.\<close>

definition distro_download_failed :: "nat \<Rightarrow> 'n download_failed \<Rightarrow> 'n retried_downloads \<Rightarrow> 'n retried_downloads" where
  "distro_download_failed now dl ds =
     (let h = bt_hash (df_ticket dl);
          retries = (case retry_get h ds of None \<Rightarrow> 0 | Some info \<Rightarrow> ri_retries info)
      in if MAX_DOWNLOAD_RETRIES \<le> retries then snd (retry_remove h ds)
         else retry_insert \<lparr>ri_retries = retries + 1, ri_retry_time = Some (now + DOWNLOAD_RETRY_BACKOFF_BASE * 2 ^ retries),
                ri_ticket = df_ticket dl, ri_tag = df_tag dl, ri_type = df_type dl\<rparr> ds)"

text \<open>
  A download of a part of the model failed: the peer is reported, and a task is spawned that asks for another ticket.
  When the task ends, with a new ticket or without, the download is entered for a retry.
\<close>

record 'n ticket_task =
  tt_failed :: "'n download_failed"
  tt_retries :: nat
  tt_retry_time :: nat

definition model_download_failed ::
    "nat \<Rightarrow> 'n download_failed \<Rightarrow> 'n retried_downloads \<Rightarrow> 'n ticket_task \<times> 'n peer_command" where
  "model_download_failed now dl ds =
     (let retries = (case retry_get (bt_hash (df_ticket dl)) ds of None \<Rightarrow> 0 | Some info \<Rightarrow> ri_retries info)
      in (\<lparr>tt_failed = dl, tt_retries = retries, tt_retry_time = now + DOWNLOAD_RETRY_BACKOFF_BASE\<rparr>,
          ReportModelDownloadError (bt_addr (df_ticket dl))))"

definition ticket_task_finish ::
    "'n blob_ticket option \<Rightarrow> 'n ticket_task \<Rightarrow> 'n retried_downloads \<Rightarrow> 'n retried_downloads" where
  "ticket_task_finish new_ticket t ds =
     (let dl = tt_failed t;
          (ticket, ds) = (case new_ticket of
              Some b \<Rightarrow> (b, snd (retry_remove (bt_hash (df_ticket dl)) ds))
            | None \<Rightarrow> (df_ticket dl, ds))
      in retry_insert \<lparr>ri_retries = tt_retries t + 1, ri_retry_time = Some (tt_retry_time t),
           ri_ticket = ticket, ri_tag = df_tag dl, ri_type = df_type dl\<rparr> ds)"

definition download_completed :: "bytes \<Rightarrow> 'n retried_downloads \<Rightarrow> 'n retried_downloads" where
  "download_completed h ds = snd (retry_remove h ds)"

section \<open>Retries end\<close>

fun failures :: "nat list \<Rightarrow> 'n download_failed \<Rightarrow> 'n retried_downloads \<Rightarrow> 'n retried_downloads" where
  "failures [] dl ds = ds"
| "failures (t # ts) dl ds = failures ts dl (distro_download_failed t dl ds)"

lemma failures_append: "failures (xs @ ys) dl ds = failures ys dl (failures xs dl ds)"
  by (induction xs arbitrary: ds) auto

definition retry_entry :: "'n download_failed \<Rightarrow> nat \<Rightarrow> nat \<Rightarrow> 'n download_retry_info option" where
  "retry_entry dl n t =
     (if n mod 4 = 0 then None
      else Some \<lparr>ri_retries = n mod 4, ri_retry_time = Some (t + 2000 * 2 ^ (n mod 4 - 1)), ri_ticket = df_ticket dl,
             ri_tag = df_tag dl, ri_type = df_type dl\<rparr>)"

lemma failed_entry:
  "retry_get (bt_hash (df_ticket dl)) ds = retry_entry dl n t \<Longrightarrow>
    retry_get (bt_hash (df_ticket dl)) (distro_download_failed t' dl ds) = retry_entry dl (Suc n) t'"
  by (auto simp: distro_download_failed_def retry_get_def retry_remove_def retry_insert_def retry_entry_def update_conv'
      delete_conv' MAX_DOWNLOAD_RETRIES_def DOWNLOAD_RETRY_BACKOFF_BASE_def Let_def mod_Suc)

lemma failed_other:
  "h \<noteq> bt_hash (df_ticket dl) \<Longrightarrow> retry_get h (distro_download_failed t dl ds) = retry_get h ds"
  by (auto simp: distro_download_failed_def retry_get_def retry_remove_def retry_insert_def update_conv' delete_conv' Let_def)

lemma retry_update_time_get:
  "retry_get k (snd (retry_update_time h ds)) =
    (if k = h then map_option (\<lambda>i. i\<lparr>ri_retry_time := None\<rparr>) (retry_get h ds) else retry_get k ds)"
  by (auto simp: retry_update_time_def retry_get_def update_conv' split: option.split)

lemma retry_update_time_distinct: "distinct (map fst ds) \<Longrightarrow> distinct (map fst (snd (retry_update_time h ds)))"
  by (auto simp: retry_update_time_def distinct_update split: option.split)

lemma request_retries_get:
  "retry_get k (fst (request_retries ps ds)) =
    (if k \<in> fst ` set ps then map_option (\<lambda>i. i\<lparr>ri_retry_time := None\<rparr>) (retry_get k ds) else retry_get k ds)"
proof (induction ps ds rule: request_retries.induct)
  case (2 h ticket tag ty rest ds)
  obtain n ds1 where u: "retry_update_time h ds = (n, ds1)" by (cases "retry_update_time h ds")
  obtain ds2 reqs where r: "request_retries rest ds1 = (ds2, reqs)" by (cases "request_retries rest ds1")
  have "retry_get k ds1 = (if k = h then map_option (\<lambda>i. i\<lparr>ri_retry_time := None\<rparr>) (retry_get h ds) else retry_get k ds)"
    using retry_update_time_get [of k h ds] u by simp
  then show ?case using 2 [OF u [symmetric] refl] u r by (auto simp: Let_def option.map_comp comp_def)
qed simp

lemma request_retries_distinct: "distinct (map fst ds) \<Longrightarrow> distinct (map fst (fst (request_retries ps ds)))"
proof (induction ps ds rule: request_retries.induct)
  case (2 h ticket tag ty rest ds)
  then show ?case using retry_update_time_distinct [of ds h] by (auto simp: Let_def split: prod.splits)
qed simp

lemma request_retries_requests: "snd (request_retries ps ds) = map snd ps"
  by (induction ps ds rule: request_retries.induct) (auto simp: Let_def split: prod.splits)

lemma pending_iff:
  "distinct (map fst ds) \<Longrightarrow> h \<in> fst ` set (pending_retries now ds) \<longleftrightarrow>
    (\<exists>info t. retry_get h ds = Some info \<and> ri_retry_time info = Some t \<and> t \<le> now)"
  by (force simp: pending_retries_def retry_get_def map_of_eq_Some_iff split: option.splits)

lemma retry_check_clears:
  assumes "distinct (map fst ds)"
  shows "pending_retries now (fst (retry_check now ds)) = []"
proof (rule ccontr)
  assume "pending_retries now (fst (retry_check now ds)) \<noteq> []"
  then obtain h where "h \<in> fst ` set (pending_retries now (fst (retry_check now ds)))"
    by (meson all_not_in_conv image_is_empty set_empty)
  moreover have "distinct (map fst (fst (retry_check now ds)))" using request_retries_distinct assms by (simp add: retry_check_def)
  ultimately obtain info t where i: "retry_get h (fst (retry_check now ds)) = Some info" "ri_retry_time info = Some t" "t \<le> now"
    using pending_iff by blast
  show False
  proof (cases "h \<in> fst ` set (pending_retries now ds)")
    case True
    then show ?thesis using i by (auto simp: retry_check_def request_retries_get)
  next
    case False
    then have "retry_get h (fst (retry_check now ds)) = retry_get h ds" by (simp only: retry_check_def request_retries_get if_False)
    then show ?thesis using i False pending_iff [OF assms, of h now] by metis
  qed
qed



section \<open>Downloads are neither lost nor reported twice\<close>

fun download_id :: "'n blob_ticket \<Rightarrow> bytes \<times> 'n" where
  "download_id t = (bt_hash t, bt_addr t)"

definition held :: "'n download_manager \<Rightarrow> (bytes \<times> 'n) multiset" where
  "held m = mset (map (\<lambda>d. download_id (dl_ticket d)) (dm_downloads m)) + mset (map (\<lambda>d. download_id (rd_ticket d)) (dm_reading m))"

fun reported :: "('n, 'd) download_event \<Rightarrow> bytes \<times> 'n" where
  "reported (Update u) = download_id (du_ticket u)"
| "reported (Complete c) = (dc_hash c, dc_from c)"
| "reported (Failed f) = download_id (df_ticket f)"

datatype 'n manager_op = StartDownload "'n blob_ticket" bytes "'n download_type" | PollReady ready

text \<open>What the client is told, in order.\<close>

fun manager_run ::
    "(bytes \<Rightarrow> 'd option) \<Rightarrow> 'n manager_op list \<Rightarrow> 'n download_manager \<Rightarrow> (('n, 'd) download_event list \<times> 'n download_manager) option" where
  "manager_run decode [] m = Some ([], m)"
| "manager_run decode (StartDownload t tag ty # ops) m = manager_run decode ops (manager_add t tag ty m)"
| "manager_run decode (PollReady r # ops) m =
     do {
       (event, m) \<leftarrow> manager_poll decode r m;
       let (out, m) = network_download_event event m;
       (outs, m) \<leftarrow> manager_run decode ops m;
       Some (case out of None \<Rightarrow> outs | Some e \<Rightarrow> e # outs, m)
     }"

fun started_by :: "'n manager_op \<Rightarrow> (bytes \<times> 'n) list" where
  "started_by (StartDownload t tag ty) = [download_id t]"
| "started_by (PollReady r) = []"

lemma mset_swap_remove: "i < length xs \<Longrightarrow> mset xs = add_mset (xs ! i) (mset (swap_remove i xs))"
proof -
  assume i: "i < length xs"
  then have "xs \<noteq> []" by auto
  then obtain ys y where xs: "xs = ys @ [y]" by (metis append_butlast_last_id)
  show ?thesis
  proof (cases "i < length ys")
    case True
    then have "mset (ys[i := y]) + {#ys ! i#} = mset ys + {#y#}" by (simp add: mset_update)
    then show ?thesis using True by (simp add: xs swap_remove_def list_update_append nth_append)
  next
    case False
    then have "i = length ys" using i xs by simp
    then show ?thesis by (simp add: xs swap_remove_def)
  qed
qed

lemma progress_event_id [simp]: "reported (progress_event d item) = download_id (dl_ticket d)"
  by (cases item) (simp_all add: progress_event_def progress_update_def progress_failed_def)

lemma progress_event_not_complete: "progress_event d item \<noteq> Complete c"
  by (cases item) (simp_all add: progress_event_def progress_update_def progress_failed_def)

lemma handle_read_result_id [simp]: "reported (handle_read_result decode d r) = download_id (rd_ticket d)"
  by (simp add: handle_read_result_def split: option.split)

lemma handle_read_result_not_update: "handle_read_result decode d r \<noteq> Update u"
  by (simp add: handle_read_result_def split: option.split)

lemma held_poll:
  assumes "manager_poll decode r m = Some (event, m1)" and "network_download_event event m1 = (out, m')"
  shows "held m = held m' + (case out of None \<Rightarrow> {#} | Some e \<Rightarrow> {#reported e#})"
proof (cases r)
  case (DownloadReady i item)
  then obtain d where d: "nth_opt (dm_downloads m) i = Some d" "event = progress_event d item"
    "m1 = m\<lparr>dm_downloads := if final_event event then swap_remove i (dm_downloads m) else dm_downloads m\<rparr>"
    using assms(1) by (auto simp: manager_poll_def handle_download_progress_def Let_def split: option.splits)
  then have i: "i < length (dm_downloads m)" "d = dm_downloads m ! i" by (auto simp: nth_opt_iff)
  have s: "mset (dm_downloads m) = add_mset d (mset (swap_remove i (dm_downloads m)))" using mset_swap_remove [OF i(1)] i(2) by simp
  have id: "reported event = download_id (dl_ticket d)" unfolding d(2) by (rule progress_event_id)
  show ?thesis
  proof (cases event)
    case (Update u)
    have id: "download_id (du_ticket u) = download_id (dl_ticket d)"
      using id unfolding Update by (simp only: reported.simps)
    show ?thesis
    proof (cases "du_all_done u")
      case True
      then show ?thesis using assms(2) d(3) Update id s by (auto simp: network_download_event_def manager_read_def held_def)
    next
      case False
      then show ?thesis using assms(2) d(3) Update by (auto simp: network_download_event_def)
    qed
  next
    case (Failed f)
    have id: "download_id (df_ticket f) = download_id (dl_ticket d)"
      using id unfolding Failed by (simp only: reported.simps)
    then show ?thesis using assms(2) d(3) Failed s by (auto simp: network_download_event_def held_def)
  next
    case (Complete c)
    then show ?thesis using d(2) progress_event_not_complete by metis
  qed
next
  case (ReadReady i result)
  then obtain d where d: "nth_opt (dm_reading m) i = Some d" "event = handle_read_result decode d result"
    "m1 = m\<lparr>dm_reading := swap_remove i (dm_reading m)\<rparr>" using assms(1) by (auto simp: manager_poll_def bind_eq_Some_conv)
  then have i: "i < length (dm_reading m)" "d = dm_reading m ! i" by (auto simp: nth_opt_iff)
  have s: "mset (dm_reading m) = add_mset d (mset (swap_remove i (dm_reading m)))" using mset_swap_remove [OF i(1)] i(2) by simp
  have "out = Some event" "m' = m1" using assms(2) d(2) handle_read_result_not_update
    by (auto simp: network_download_event_def split: download_event.splits)
  then show ?thesis using d s by (simp add: held_def)
qed

lemma manager_run_held:
  "manager_run decode ops m = Some (outs, m') \<Longrightarrow>
    held m + mset (concat (map started_by ops)) = held m' + mset (map reported outs)"
proof (induction ops arbitrary: m outs)
  case (Cons op ops)
  show ?case
  proof (cases op)
    case (StartDownload t tag ty)
    have "held (manager_add t tag ty m) = add_mset (download_id t) (held m)" by (simp add: held_def manager_add_def download_new_def)
    then show ?thesis using Cons.IH [of "manager_add t tag ty m" outs] Cons.prems StartDownload by simp
  next
    case (PollReady r)
    obtain event m1 where e: "manager_poll decode r m = Some (event, m1)"
      using Cons.prems PollReady by (auto simp: bind_eq_Some_conv)
    obtain out m2 where o: "network_download_event event m1 = (out, m2)" by (cases "network_download_event event m1")
    from e o obtain outs2 where p: "manager_poll decode r m = Some (event, m1)" "network_download_event event m1 = (out, m2)"
      "manager_run decode ops m2 = Some (outs2, m')" "outs = (case out of None \<Rightarrow> outs2 | Some e \<Rightarrow> e # outs2)"
      using Cons.prems PollReady by (auto simp: bind_eq_Some_conv)
    show ?thesis using held_poll [OF p(1,2)] Cons.IH [OF p(3)] PollReady p(4) by (auto split: option.splits)
  qed
qed simp

text \<open>
  C38. No download is lost and none is reported twice: in every run of the manager, whatever becomes ready in whatever
  order, the downloads that were started are, counted with multiplicity, exactly those it still holds, running or
  being read, and those it has reported to the client as completed or failed. Every report names the blob and the
  provider of the download it ends.
\<close>

theorem downloads_conserved:
  assumes "manager_run decode ops \<lparr>dm_downloads = [], dm_reading = []\<rparr> = Some (outs, m)"
  shows "mset (concat (map started_by ops)) = held m + mset (map reported outs) \<and> (\<forall>u. Update u \<notin> set outs)"
proof -
  have "Update u \<notin> set outs" if "manager_run decode ops m0 = Some (outs, m)" for u m0
    using that
  proof (induction ops arbitrary: m0 outs)
    case (Cons op ops)
    then show ?case by (cases op)
      (auto simp: bind_eq_Some_conv network_download_event_def split: prod.splits option.splits download_event.splits)
  qed simp
  then show ?thesis using manager_run_held [OF assms] assms by (auto simp: held_def)
qed

definition sample_ops :: "nat manager_op list" where
  "sample_ops = [StartDownload \<lparr>bt_hash = [1], bt_addr = 7\<rparr> [] (DistroResult []), StartDownload \<lparr>bt_hash = [2], bt_addr = 8\<rparr> [] (DistroResult []),
     PollReady (DownloadReady 0 (Progress 5)), PollReady (DownloadReady 0 PartComplete), PollReady (DownloadReady 0 Closed),
     PollReady (ReadReady 0 (Some [9]))]"

theorem downloads_conserved_witness:
  "\<exists>outs m. manager_run Some sample_ops \<lparr>dm_downloads = [], dm_reading = []\<rparr> = Some (outs, m) \<and>
    map reported outs = [([2], 8), ([1], 7)] \<and> held m = {#} \<and>
    mset (concat (map started_by sample_ops)) = held m + mset (map reported outs)"
proof -
  define outs where "outs = [Failed \<lparr>df_ticket = \<lparr>bt_hash = [2], bt_addr = 8\<rparr>, df_tag = [], df_type = DistroResult []\<rparr>,
    Complete \<lparr>dc_hash = [1], dc_from = 7 :: nat, dc_data = [9 :: u8]\<rparr>]"
  define m :: "nat download_manager" where "m = \<lparr>dm_downloads = [], dm_reading = []\<rparr>"
  have r: "manager_run Some sample_ops \<lparr>dm_downloads = [], dm_reading = []\<rparr> = Some (outs, m)"
    "map reported outs = [([2], 8), ([1], 7)]" "held m = {#}"
    by (simp_all add: outs_def m_def sample_ops_def manager_add_def manager_poll_def handle_download_progress_def nth_opt_def download_new_def
        progress_event_def progress_update_def progress_failed_def network_download_event_def manager_read_def swap_remove_def
        handle_read_result_def held_def Let_def)
  then show ?thesis using downloads_conserved [OF r(1)] by (intro exI [of _ outs] exI [of _ m]) simp
qed

text \<open>
  The manager never moves the offset of a running download forward: the sizes it reports as newly downloaded add up to
  more than was downloaded.
\<close>

lemma progress_counted_twice:
  "progress_event (download_new t tag ty) (Progress 10) = progress_update (download_new t tag ty) 10 10 0 False \<and>
   handle_download_progress [download_new t tag ty] (Progress 10) 0 =
     Some (progress_update (download_new t tag ty) 10 10 0 False, [download_new t tag ty]) \<and>
   handle_download_progress [download_new t tag ty] (Progress 20) 0 =
     Some (progress_update (download_new t tag ty) 20 20 0 False, [download_new t tag ty])"
  by (simp add: progress_event_def handle_download_progress_def nth_opt_def download_new_def progress_update_def Let_def)

end
