(* ===== verification/Client_Network.thy ===== *)
theory Client_Network
  imports Client_Props Downloads
begin

text \<open>
  The main loop of a client (\<open>src/shared/client/src/client.rs\<close>): the watcher of coordinator states with its table of
  known clients (\<open>src/shared/watcher/src/watcher.rs\<close>), the check of every gossiped message, the client's own broadcasts
  and their repetition, the list of peers allowed to connect (\<open>src/shared/network/src/allowlist.rs\<close>), whom to connect
  to, downloads with their retries, and the sharing of the model. Every branch of the loop is one operation;
  \<open>Client_Loop\<close> composes them. A channel is the list of what was sent and not yet received. Signatures, random
  numbers, the gossip protocol, the blob store and the clock are arguments; metrics and logging are left out.
\<close>

section \<open>The state of the loop\<close>

type_synonym ticket = "bytes blob_ticket"

datatype transmittable_download =
    DistroResultDownload transmittable_distro_result
  | ModelDownload model_download

text \<open>
  \<open>cn_peers\<close> is \<open>None\<close> when the actor behind it has crashed. \<open>cn_joined\<close> lists the peers the gossip was told to join,
  \<open>cn_gossiped\<close> what was broadcast, \<open>cn_rx_download\<close>, \<open>cn_rx_params\<close> and \<open>cn_rx_config\<close> are channels of the loop, and
  \<open>cn_ticket_tasks\<close> holds the spawned tasks that ask for another ticket.
\<close>

record ('id, 'r, 'v, 'k) client_node =
  cn_run :: "('id, ticket, 'r) init_stage"
  cn_state :: "'id coordinator option"
  cn_lookup :: "(bytes \<times> 'id client) list"
  cn_allowed :: "bytes set"
  cn_last_attempt :: nat
  cn_joined :: "bytes list"
  cn_broadcasts :: "(ticket broadcast \<times> u32) list"
  cn_rebroadcast_index :: nat
  cn_gossiped :: "ticket broadcast list"
  cn_retried :: "bytes retried_downloads"
  cn_ticket_tasks :: "bytes ticket_task list"
  cn_downloads :: "bytes download_manager"
  cn_sharable :: "('v, 'k, ticket) sharable_model"
  cn_peers :: "bytes peer_manager option"
  cn_rx_download :: "(ticket \<times> bytes) list"
  cn_rx_params :: "(ticket \<times> model_request_type) list list"
  cn_rx_config :: "ticket list"

text \<open>The client's identity and keys, the blob store and the decoding of a blob.\<close>

record ('id, 'v, 'k) node_network =
  nn_identity :: 'id
  nn_me :: bytes
  nn_key :: "'id \<Rightarrow> bytes"
  nn_verify :: "bytes \<Rightarrow> bytes \<Rightarrow> bytes \<Rightarrow> bool"
  nn_sign :: "bytes \<Rightarrow> bytes"
  nn_sharing :: "('v, 'k, ticket) sharing_env"
  nn_decode :: "bytes \<Rightarrow> transmittable_download option"

text \<open>What the surroundings answer while a coordinator state is handled: clock, neighbours, shuffle.\<close>

record gossip_view =
  gv_now :: nat
  gv_neighbors :: "bytes set"
  gv_mix :: "bytes list \<Rightarrow> bytes list"

definition participating_endpoint_ids :: "('id, 'v, 'k) node_network \<Rightarrow> 'id coordinator \<Rightarrow> bytes list" where
  "participating_endpoint_ids N st = map (\<lambda>c. nn_key N (cl_id c)) (co_clients st)"

text \<open>\<open>BackendWatcher::poll_next\<close>: the table of clients is renewed when a warmup is seen.\<close>

definition watcher_poll ::
    "('id, 'v, 'k) node_network \<Rightarrow> 'id coordinator \<Rightarrow> ('id, 'r, 'v, 'k) client_node \<Rightarrow> ('id, 'r, 'v, 'k) client_node" where
  "watcher_poll N st n =
     n\<lparr>cn_state := Some st,
       cn_lookup := (if co_run_state st = Warmup
                     then foldl (\<lambda>m c. AList.update (nn_key N (cl_id c)) c m) [] (co_clients st) else cn_lookup n)\<rparr>"

section \<open>Whom to connect to\<close>

definition MAX_NUM_BOOTSTRAP_PEERS :: nat where "MAX_NUM_BOOTSTRAP_PEERS = 3"

text \<open>
  The peers to join and the time of the last attempt, in milliseconds; a clock that went backwards counts as no time
  passed.
\<close>

definition gossip_joins ::
    "('id, 'v, 'k) node_network \<Rightarrow> gossip_view \<Rightarrow> 'id coordinator \<Rightarrow> nat \<Rightarrow> bytes list \<times> nat" where
  "gossip_joins N gv st last_attempt =
     (let now = gv_now gv; neighbors = gv_neighbors gv; ids = participating_endpoint_ids N st
      in if halted st then ([], last_attempt)
         else if now - last_attempt < 6000 then ([], last_attempt)
         else if nn_me N \<notin> set ids then ([], last_attempt)
         else let to_add = MAX_NUM_BOOTSTRAP_PEERS - card neighbors
              in if to_add = 0 then ([], now)
                 else (take to_add (gv_mix gv (filter (\<lambda>i. i \<notin> neighbors) (filter (\<lambda>i. i \<noteq> nn_me N) ids))), now))"

definition ensure_gossip_connected ::
    "('id, 'v, 'k) node_network \<Rightarrow> gossip_view \<Rightarrow> 'id coordinator \<Rightarrow> ('id, 'r, 'v, 'k) client_node \<Rightarrow>
      ('id, 'r, 'v, 'k) client_node" where
  "ensure_gossip_connected N gv st n =
     (let (peers, t) = gossip_joins N gv st (cn_last_attempt n)
      in n\<lparr>cn_joined := cn_joined n @ peers, cn_last_attempt := t\<rparr>)"

definition check_connection ::
    "('id, 'v, 'k) node_network \<Rightarrow> gossip_view \<Rightarrow> ('id, 'r, 'v, 'k) client_node \<Rightarrow> ('id, 'r, 'v, 'k) client_node" where
  "check_connection N gv n =
     (case rm_coordinator_state (cn_run n) of
        None \<Rightarrow> n
      | Some st \<Rightarrow> if halted st then n else ensure_gossip_connected N gv st n)"

section \<open>Coordinator states and broadcasts\<close>

text \<open>
  A new coordinator state: the allow list, gossip connections, the broadcasts that are still needed, the cache of
  shared blobs, and the state machine.
\<close>

definition state_received ::
    "('id, ticket, 'r) client_env \<Rightarrow> ('id, 'v, 'k) node_network \<Rightarrow> gossip_view \<Rightarrow> outside \<Rightarrow> (unit + unit) option \<Rightarrow>
      'id coordinator \<Rightarrow> ('id, 'r, 'v, 'k) client_node \<Rightarrow> (('id, 'r, 'v, 'k) client_node, apply_state_error, unit) exec" where
  "state_received V N gv ou init st n =
     (let old = map_option co_run_state (cn_state n);
          n = (watcher_poll N st n)\<lparr>cn_allowed := set (participating_endpoint_ids N st)\<rparr>;
          n = ensure_gossip_connected N gv st n;
          last_needed = (if 2 \<le> co_step st then co_step st - 2 else 0);
          n = (if old \<noteq> Some (co_run_state st) \<and> co_run_state st = RoundTrain
               then n\<lparr>cn_broadcasts := filter (\<lambda>(_, step). last_needed \<le> step) (cn_broadcasts n),
                      cn_sharable := clear_cache (cn_sharable n)\<rparr>
               else n)
      in (case rm_apply_state V st ou init (cn_run n) of
            Panic \<Rightarrow> Panic
          | Fail rm e \<Rightarrow> Fail (n\<lparr>cn_run := rm\<rparr>) e
          | Done rm u \<Rightarrow> Done (n\<lparr>cn_run := rm\<rparr>) u))"

definition apply_to_run ::
    "('id, ticket, 'r) client_env \<Rightarrow> 'id \<Rightarrow> ticket broadcast \<Rightarrow> ('id, 'r, 'v, 'k) client_node \<Rightarrow>
      (('id, 'r, 'v, 'k) client_node, apply_message_error, apply_message_outcome) exec" where
  "apply_to_run V i bc n =
     (case rm_apply_message V i bc (cn_run n) of
        Panic \<Rightarrow> Panic
      | Fail rm e \<Rightarrow> Fail (n\<lparr>cn_run := rm\<rparr>) e
      | Done rm out \<Rightarrow> Done (n\<lparr>cn_run := rm\<rparr>) out)"

text \<open>\<open>NetworkEvent::MessageReceived\<close>; the outcome is that of the state machine, \<open>None\<close> when it was not asked.\<close>

definition message_received ::
    "('id, ticket, 'r) client_env \<Rightarrow> ('id, 'v, 'k) node_network \<Rightarrow> bytes \<Rightarrow> ticket broadcast \<Rightarrow> ('id, 'r, 'v, 'k) client_node \<Rightarrow>
      (('id, 'r, 'v, 'k) client_node, apply_message_error, apply_message_outcome option) exec" where
  "message_received V N from bc n =
     (case map_of (cn_lookup n) from of
        None \<Rightarrow> Done n None
      | Some client \<Rightarrow>
          if nn_verify N from (cm_data_hash (bc_commitment bc)) (cm_signature (bc_commitment bc))
          then (case apply_to_run V (cl_id client) bc n of
                  Panic \<Rightarrow> Panic
                | Fail n e \<Rightarrow> Fail n e
                | Done n out \<Rightarrow> Done n (Some out))
          else Done n None)"

text \<open>The client's own reports: signed, gossiped, remembered, and applied like anyone else's.\<close>

definition send_broadcast ::
    "('id, ticket, 'r) client_env \<Rightarrow> ('id, 'v, 'k) node_network \<Rightarrow> ticket broadcast \<Rightarrow> ('id, 'r, 'v, 'k) client_node \<Rightarrow>
      (('id, 'r, 'v, 'k) client_node, apply_message_error, apply_message_outcome) exec" where
  "send_broadcast V N bc n =
     apply_to_run V (nn_identity N) bc
       (n\<lparr>cn_gossiped := cn_gossiped n @ [bc], cn_broadcasts := cn_broadcasts n @ [(bc, bc_step bc)]\<rparr>)"

definition finished_ready ::
    "('id, ticket, 'r) client_env \<Rightarrow> ('id, 'v, 'k) node_network \<Rightarrow> u32 \<Rightarrow> finished_broadcast \<Rightarrow> ('id, 'r, 'v, 'k) client_node \<Rightarrow>
      (('id, 'r, 'v, 'k) client_node, apply_message_error, apply_message_outcome) exec" where
  "finished_ready V N nonce fb n =
     send_broadcast V N
       \<lparr>bc_step = fb_step fb, bc_proof = fb_proof fb,
        bc_commitment = \<lparr>cm_data_hash = fb_commitment_data_hash fb, cm_signature = nn_sign N (fb_commitment_data_hash fb)\<rparr>,
        bc_nonce = nonce, bc_data = FinishedMsg \<lparr>fi_broadcast_merkle = fb_merkle fb, fi_warmup = fb_warmup fb\<rparr>\<rparr> n"

text \<open>The payload of a result has been added to the blob store under \<open>ticket\<close>.\<close>

definition distro_result_ready ::
    "('id, ticket, 'r) client_env \<Rightarrow> ('id, 'v, 'k) node_network \<Rightarrow> u32 \<Rightarrow> u32 \<Rightarrow> batch_id \<Rightarrow> bytes \<Rightarrow> committee_proof \<Rightarrow>
      transmittable_distro_result \<Rightarrow> 'r list \<Rightarrow> ticket \<Rightarrow> ('id, 'r, 'v, 'k) client_node \<Rightarrow>
      (('id, 'r, 'v, 'k) client_node, apply_message_error, unit) exec" where
  "distro_result_ready V N nonce step b data_hash pf result original t n =
     (case send_broadcast V N
             \<lparr>bc_step = step, bc_proof = pf,
              bc_commitment = \<lparr>cm_data_hash = data_hash, cm_signature = nn_sign N data_hash\<rparr>,
              bc_nonce = nonce, bc_data = TrainingResult \<lparr>tr_batch_id = b, tr_ticket = t\<rparr>\<rparr> n of
        Panic \<Rightarrow> Panic
      | Fail n e \<Rightarrow> Fail n e
      | Done n _ \<Rightarrow> Done (n\<lparr>cn_run := rm_apply_distro_result V (bt_hash t) result (Some original) (cn_run n)\<rparr>) ())"

text \<open>The periodic repetition of one of the broadcasts that are still needed.\<close>

definition rebroadcast :: "('id, 'r, 'v, 'k) client_node \<Rightarrow> ('id, 'r, 'v, 'k) client_node" where
  "rebroadcast n =
     (let len = length (cn_broadcasts n)
      in if len = 0 then n
         else let i = (cn_rebroadcast_index n + 1) mod len;
                  (bc, step) = cn_broadcasts n ! i;
                  bc = bc\<lparr>bc_nonce := bc_nonce bc + 1\<rparr>
              in n\<lparr>cn_rebroadcast_index := i, cn_broadcasts := (cn_broadcasts n)[i := (bc, step)],
                   cn_gossiped := cn_gossiped n @ [bc]\<rparr>)"

section \<open>Downloads\<close>

definition tag_of :: "string \<Rightarrow> bytes" where
  "tag_of s = map of_char s"

definition start_download ::
    "ticket \<Rightarrow> bytes \<Rightarrow> bytes download_type \<Rightarrow> ('id, 'r, 'v, 'k) client_node \<Rightarrow> ('id, 'r, 'v, 'k) client_node" where
  "start_download t tag ty n = n\<lparr>cn_downloads := manager_add t tag ty (cn_downloads n)\<rparr>"

text \<open>Whom to ask for a training result besides its sender.\<close>

definition download_candidates ::
    "('id, 'v, 'k) node_network \<Rightarrow> (bytes list \<Rightarrow> bytes list) \<Rightarrow> 'id coordinator option \<Rightarrow> bytes list" where
  "download_candidates N mix st =
     (case st of None \<Rightarrow> [] | Some st \<Rightarrow> filter (\<lambda>i. i \<noteq> nn_me N) (mix (participating_endpoint_ids N st)))"

definition take_download ::
    "('id, 'v, 'k) node_network \<Rightarrow> (bytes list \<Rightarrow> bytes list) \<Rightarrow> ('id, 'r, 'v, 'k) client_node \<Rightarrow> ('id, 'r, 'v, 'k) client_node" where
  "take_download N mix n =
     (case cn_rx_download n of
        [] \<Rightarrow> n
      | (t, tag) # rest \<Rightarrow>
          start_download t tag (DistroResult (download_candidates N mix (rm_coordinator_state (cn_run n)))) (n\<lparr>cn_rx_download := rest\<rparr>))"

fun start_params :: "(ticket \<times> model_request_type) list \<Rightarrow> ('id, 'r, 'v, 'k) client_node \<Rightarrow> ('id, 'r, 'v, 'k) client_node" where
  "start_params [] n = n"
| "start_params ((t, req) # ts) n =
     start_params ts (case req of
         Parameter name \<Rightarrow> start_download t (tag_of ''model-'' @ name) (ModelSharing req) n
       | Config \<Rightarrow> n)"

definition take_params :: "('id, 'r, 'v, 'k) client_node \<Rightarrow> ('id, 'r, 'v, 'k) client_node" where
  "take_params n = (case cn_rx_params n of [] \<Rightarrow> n | ts # rest \<Rightarrow> start_params ts (n\<lparr>cn_rx_params := rest\<rparr>))"

definition take_config :: "('id, 'r, 'v, 'k) client_node \<Rightarrow> ('id, 'r, 'v, 'k) client_node" where
  "take_config n =
     (case cn_rx_config n of
        [] \<Rightarrow> n
      | t # rest \<Rightarrow> start_download t (tag_of ''model-config'') (ModelSharing Config) (n\<lparr>cn_rx_config := rest\<rparr>))"

text \<open>The periodic check for due retries, which sends every due download to the channel of its kind.\<close>

fun send_retry ::
    "ticket \<times> bytes \<times> bytes download_type \<Rightarrow> ('id, 'r, 'v, 'k) client_node \<Rightarrow> ('id, 'r, 'v, 'k) client_node" where
  "send_retry (t, tag, DistroResult _) n = n\<lparr>cn_rx_download := cn_rx_download n @ [(t, tag)]\<rparr>"
| "send_retry (t, tag, ModelSharing (Parameter p)) n = n\<lparr>cn_rx_params := cn_rx_params n @ [[(t, Parameter p)]]\<rparr>"
| "send_retry (t, tag, ModelSharing Config) n = n\<lparr>cn_rx_config := cn_rx_config n @ [t]\<rparr>"

definition retry_tick :: "nat \<Rightarrow> ('id, 'r, 'v, 'k) client_node \<Rightarrow> ('id, 'r, 'v, 'k) client_node" where
  "retry_tick now n =
     (let (ds, reqs) = retry_check now (cn_retried n) in fold send_retry reqs (n\<lparr>cn_retried := ds\<rparr>))"

text \<open>The manager of the peers; a command that makes its actor panic is the last one.\<close>

definition tell_peers :: "bytes peer_command \<Rightarrow> ('id, 'r, 'v, 'k) client_node \<Rightarrow> ('id, 'r, 'v, 'k) client_node" where
  "tell_peers cmd n = n\<lparr>cn_peers := Option.bind (cn_peers n) (\<lambda>pm. map_option fst (peer_handle cmd pm))\<rparr>"

text \<open>\<open>NetworkEvent::DownloadComplete\<close>; an error of the sharable model ends the loop.\<close>

definition download_complete_received ::
    "('id, ticket, 'r) client_env \<Rightarrow> ('id, 'v, 'k) node_network \<Rightarrow> bool \<Rightarrow> (bytes, transmittable_download) download_complete \<Rightarrow>
      ('id, 'r, 'v, 'k) client_node \<Rightarrow> (('id, 'r, 'v, 'k) client_node, sharable_model_error, unit) exec" where
  "download_complete_received V N rx_open c n =
     (let n = n\<lparr>cn_retried := download_completed (dc_hash c) (cn_retried n)\<rparr>
      in (case dc_data c of
            DistroResultDownload d \<Rightarrow> Done (n\<lparr>cn_run := rm_apply_distro_result V (dc_hash c) d None (cn_run n)\<rparr>) ()
          | ModelDownload (ModelParameter p) \<Rightarrow>
              (case parameter_downloaded (nn_sharing N) rx_open p (cn_sharable n) of
                 Inl e \<Rightarrow> Fail n e
               | Inr m \<Rightarrow> Done (n\<lparr>cn_sharable := m\<rparr>) ())
          | ModelDownload (ModelConfig cfg) \<Rightarrow>
              (case config_downloaded (nn_sharing N) rx_open cfg (cn_sharable n) of
                 Inl e \<Rightarrow> Fail n e
               | Inr m \<Rightarrow> Done (n\<lparr>cn_sharable := m\<rparr>) ())))"

text \<open>\<open>NetworkEvent::DownloadFailed\<close>\<close>

definition download_failed_received ::
    "nat \<Rightarrow> bytes download_failed \<Rightarrow> ('id, 'r, 'v, 'k) client_node \<Rightarrow> ('id, 'r, 'v, 'k) client_node" where
  "download_failed_received now dl n =
     (case df_type dl of
        DistroResult _ \<Rightarrow> n\<lparr>cn_retried := distro_download_failed now dl (cn_retried n)\<rparr>
      | ModelSharing _ \<Rightarrow>
          let (t, cmd) = model_download_failed now dl (cn_retried n)
          in tell_peers cmd (n\<lparr>cn_ticket_tasks := cn_ticket_tasks n @ [t]\<rparr>))"

text \<open>The spawned task number \<open>i\<close> ends with the answer it was given.\<close>

definition ticket_task_done ::
    "nat \<Rightarrow> ticket option \<Rightarrow> ('id, 'r, 'v, 'k) client_node \<Rightarrow> ('id, 'r, 'v, 'k) client_node" where
  "ticket_task_done i new_ticket n =
     (case nth_opt (cn_ticket_tasks n) i of
        None \<Rightarrow> n
      | Some t \<Rightarrow> n\<lparr>cn_ticket_tasks := take i (cn_ticket_tasks n) @ drop (Suc i) (cn_ticket_tasks n),
                    cn_retried := ticket_task_finish new_ticket t (cn_retried n)\<rparr>)"

text \<open>\<open>p2p.poll_next\<close> when a download or a reader is ready, and the branch of the loop for what it returns.\<close>

definition download_ready ::
    "('id, ticket, 'r) client_env \<Rightarrow> ('id, 'v, 'k) node_network \<Rightarrow> nat \<Rightarrow> bool \<Rightarrow> ready \<Rightarrow> ('id, 'r, 'v, 'k) client_node \<Rightarrow>
      (('id, 'r, 'v, 'k) client_node, sharable_model_error, unit) exec" where
  "download_ready V N now rx_open r n =
     (case manager_poll (nn_decode N) r (cn_downloads n) of
        None \<Rightarrow> Done n ()
      | Some (event, m) \<Rightarrow>
          let (out, m) = network_download_event event m; n = n\<lparr>cn_downloads := m\<rparr>
          in (case out of
                Some (Complete c) \<Rightarrow> download_complete_received V N rx_open c n
              | Some (Failed dl) \<Rightarrow> Done (download_failed_received now dl n) ()
              | _ \<Rightarrow> Done n ()))"

section \<open>Sharing the model\<close>

text \<open>Requests of peers; errors are sent to the peer that asked.\<close>

definition parameter_request ::
    "('id, 'v, 'k) node_network \<Rightarrow> bytes \<Rightarrow> ('id, 'r, 'v, 'k) client_node \<Rightarrow>
      (sharable_model_error + ticket) \<times> ('id, 'r, 'v, 'k) client_node" where
  "parameter_request N name n =
     (let (answer, m) = get_transmittable_parameter (nn_sharing N) name (tag_of ''model-'' @ name) (cn_sharable n)
      in (answer, n\<lparr>cn_sharable := m\<rparr>))"

definition model_config_request ::
    "('id, 'v, 'k) node_network \<Rightarrow> ('id, 'r, 'v, 'k) client_node \<Rightarrow>
      (sharable_model_error + ticket) \<times> ('id, 'r, 'v, 'k) client_node" where
  "model_config_request N n =
     (let (answer, m) = get_transmittable_config (nn_sharing N) (tag_of ''model-config'') (cn_sharable n)
      in (answer, n\<lparr>cn_sharable := m\<rparr>))"

text \<open>What the run hands to the loop: the model after an epoch, its configuration, the names of the parameters to get.\<close>

definition model_ready ::
    "(bytes \<times> 'v) list \<Rightarrow> ('id, 'r, 'v, 'k) client_node \<Rightarrow> (('id, 'r, 'v, 'k) client_node, sharable_model_error, unit) exec" where
  "model_ready ps n =
     (case update_parameters ps (cn_sharable n) of
        Inl e \<Rightarrow> Fail n e
      | Inr m \<Rightarrow> Done (n\<lparr>cn_sharable := m\<rparr>) ())"

definition config_ready ::
    "('id, 'v, 'k) node_network \<Rightarrow> bytes \<Rightarrow> bytes \<Rightarrow> ('id, 'r, 'v, 'k) client_node \<Rightarrow>
      (('id, 'r, 'v, 'k) client_node, sharable_model_error, unit) exec" where
  "config_ready N cfg tok n =
     (case se_parse (nn_sharing N) tok of
        None \<Rightarrow> Fail n ParseConfig
      | Some k \<Rightarrow> Done (n\<lparr>cn_sharable := update_config cfg k (cn_sharable n)\<rparr>) ())"

definition parameters_requested :: "bytes list \<Rightarrow> ('id, 'r, 'v, 'k) client_node \<Rightarrow> ('id, 'r, 'v, 'k) client_node" where
  "parameters_requested names n = n\<lparr>cn_sharable := initialize_parameters names (cn_sharable n)\<rparr>"

text \<open>Without a coordinator state the loop ends.\<close>

definition config_requested ::
    "('id, 'v, 'k) node_network \<Rightarrow> ('id, 'r, 'v, 'k) client_node \<Rightarrow> ('id, 'r, 'v, 'k) client_node option" where
  "config_requested N n =
     (let n = n\<lparr>cn_sharable := (cn_sharable n)\<lparr>sh_tx_config := True\<rparr>\<rparr>
      in (case cn_state n of
            None \<Rightarrow> None
          | Some st \<Rightarrow> Some (tell_peers (SetPeers (filter (\<lambda>p. p \<noteq> nn_key N (nn_identity N)) (participating_endpoint_ids N st))) n)))"

end
