(* ===== verification/Client_Loop.thy ===== *)
theory Client_Loop
  imports Client_Network
begin

text \<open>
  Runs of the main loop of a client (\<open>Client::new\<close> in \<open>src/shared/client/src/client.rs\<close>). An event is a branch of the
  \<open>select!\<close> together with what the surroundings answer, or a step of one of the tasks the loop has spawned; events come
  in any order. The channels from the state machine to the backend only pass on what they carry and are left out.
\<close>

section \<open>Events\<close>

datatype ('id, 'r, 'v, 'k) node_event =
    StateReceived gossip_view outside "(unit + unit) option" "'id coordinator"
  | MessageReceived bytes "ticket broadcast"
  | FinishedReady u32 finished_broadcast
  | DistroResultReady u32 u32 batch_id bytes committee_proof transmittable_distro_result "'r list" ticket
  | Rebroadcast
  | WitnessTick outside "(unit + unit) option"
  | CheckConnection gossip_view
  | RetryTick nat
  | DownloadReadyEvent nat bool ready
  | TakeDownload "bytes list \<Rightarrow> bytes list"
  | TakeParams
  | TakeConfig
  | ParameterRequest bytes
  | ModelConfigRequest
  | ModelReady "(bytes \<times> 'v) list"
  | ConfigReady bytes bytes
  | ParametersRequested "bytes list"
  | ConfigRequested
  | PeersUnreachable
  | RunRequestsDownload ticket bytes
  | TicketTaskDone nat "ticket option"
  | ParameterTickets "(ticket \<times> model_request_type) list"
  | ConfigTicket ticket
  | PeerTask "bytes peer_command"
  | RunTask "('id, ticket, 'r) init_stage \<Rightarrow> ('id, ticket, 'r) init_stage"

text \<open>
  The last seven are tasks: the state machine asks for a download, a task that asks for a ticket ends, tickets of
  parameters or of the configuration arrive, a request task talks to the manager of the peers, and a task of the run
  advances, which changes nothing but the run.
\<close>

fun continue_with :: "('s, 'e, 'a) exec \<Rightarrow> 's option" where
  "continue_with (Done s x) = Some s"
| "continue_with (Fail s e) = None"
| "continue_with Panic = None"

definition witness_tick ::
    "('id, ticket, 'r) client_env \<Rightarrow> outside \<Rightarrow> (unit + unit) option \<Rightarrow> ('id, 'r, 'v, 'k) client_node \<Rightarrow>
      ('id, 'r, 'v, 'k) client_node option" where
  "witness_tick V ou init n =
     map_option (\<lambda>rm. n\<lparr>cn_run := rm\<rparr>) (continue_with (rm_try_send_opportunistic_witness V ou init (cn_run n)))"

text \<open>An error ends the loop.\<close>

definition node_step ::
    "('id, ticket, 'r) client_env \<Rightarrow> ('id, 'v, 'k) node_network \<Rightarrow> ('id, 'r, 'v, 'k) node_event \<Rightarrow>
      ('id, 'r, 'v, 'k) client_node \<Rightarrow> ('id, 'r, 'v, 'k) client_node option" where
  "node_step V N e n =
     (case e of
        StateReceived gv ou init st \<Rightarrow> continue_with (state_received V N gv ou init st n)
      | MessageReceived from bc \<Rightarrow> continue_with (message_received V N from bc n)
      | FinishedReady nonce fb \<Rightarrow> continue_with (finished_ready V N nonce fb n)
      | DistroResultReady nonce step b h pf result original t \<Rightarrow>
          continue_with (distro_result_ready V N nonce step b h pf result original t n)
      | Rebroadcast \<Rightarrow> Some (rebroadcast n)
      | WitnessTick ou init \<Rightarrow> witness_tick V ou init n
      | CheckConnection gv \<Rightarrow> Some (check_connection N gv n)
      | RetryTick now \<Rightarrow> Some (retry_tick now n)
      | DownloadReadyEvent now rx_open r \<Rightarrow> continue_with (download_ready V N now rx_open r n)
      | TakeDownload mix \<Rightarrow> Some (take_download N mix n)
      | TakeParams \<Rightarrow> Some (take_params n)
      | TakeConfig \<Rightarrow> Some (take_config n)
      | ParameterRequest name \<Rightarrow> Some (snd (parameter_request N name n))
      | ModelConfigRequest \<Rightarrow> Some (snd (model_config_request N n))
      | ModelReady ps \<Rightarrow> continue_with (model_ready ps n)
      | ConfigReady cfg tok \<Rightarrow> continue_with (config_ready N cfg tok n)
      | ParametersRequested names \<Rightarrow> Some (parameters_requested names n)
      | ConfigRequested \<Rightarrow> config_requested N n
      | PeersUnreachable \<Rightarrow>
          (case cn_peers n of Some pm \<Rightarrow> if pm_cancelled pm then None else Some n | None \<Rightarrow> Some n)
      | RunRequestsDownload t tag \<Rightarrow> Some (n\<lparr>cn_rx_download := cn_rx_download n @ [(t, tag)]\<rparr>)
      | TicketTaskDone i t \<Rightarrow> Some (ticket_task_done i t n)
      | ParameterTickets ts \<Rightarrow> Some (n\<lparr>cn_rx_params := cn_rx_params n @ [ts]\<rparr>)
      | ConfigTicket t \<Rightarrow> Some (n\<lparr>cn_rx_config := cn_rx_config n @ [t]\<rparr>)
      | PeerTask cmd \<Rightarrow> Some (tell_peers cmd n)
      | RunTask f \<Rightarrow> Some (n\<lparr>cn_run := f (cn_run n)\<rparr>))"

fun node_run ::
    "('id, ticket, 'r) client_env \<Rightarrow> ('id, 'v, 'k) node_network \<Rightarrow> ('id, 'r, 'v, 'k) node_event list \<Rightarrow>
      ('id, 'r, 'v, 'k) client_node \<Rightarrow> ('id, 'r, 'v, 'k) client_node option" where
  "node_run V N [] n = Some n"
| "node_run V N (e # es) n = Option.bind (node_step V N e n) (node_run V N es)"

definition MAX_ERRORS_PER_PEER :: u8 where "MAX_ERRORS_PER_PEER = 5"

definition node_start :: "nat \<Rightarrow> ('id, ticket, 'r) init_stage \<Rightarrow> ('id, 'r, 'v, 'k) client_node" where
  "node_start now rm =
     \<lparr>cn_run = rm, cn_state = None, cn_lookup = [], cn_allowed = {}, cn_last_attempt = now, cn_joined = [],
      cn_broadcasts = [], cn_rebroadcast_index = 0, cn_gossiped = [], cn_retried = [], cn_ticket_tasks = [],
      cn_downloads = \<lparr>dm_downloads = [], dm_reading = []\<rparr>, cn_sharable = sharable_empty,
      cn_peers = Some (peer_manager_new MAX_ERRORS_PER_PEER), cn_rx_download = [], cn_rx_params = [], cn_rx_config = []\<rparr>"

section \<open>What every event keeps\<close>

text \<open>The table of known clients comes from warmup states that were received.\<close>

definition lookup_ok :: "('id, 'v, 'k) node_network \<Rightarrow> 'id coordinator set \<Rightarrow> (bytes \<times> 'id client) list \<Rightarrow> bool" where
  "lookup_ok N seen lookup \<longleftrightarrow> (\<forall>k c. map_of lookup k = Some c \<longrightarrow>
     (\<exists>st \<in> seen. co_run_state st = Warmup \<and> c \<in> set (co_clients st) \<and> nn_key N (cl_id c) = k))"

text \<open>Downloads wait for a retry under the hash of their ticket; a training result at most three times.\<close>

definition retry_info_ok :: "bytes \<times> bytes download_retry_info \<Rightarrow> bool" where
  "retry_info_ok e \<longleftrightarrow> fst e = bt_hash (ri_ticket (snd e)) \<and> 0 < ri_retries (snd e) \<and>
     (case ri_type (snd e) of DistroResult _ \<Rightarrow> ri_retries (snd e) \<le> MAX_DOWNLOAD_RETRIES | ModelSharing _ \<Rightarrow> True)"

definition retried_ok :: "bytes retried_downloads \<Rightarrow> bool" where
  "retried_ok ds \<longleftrightarrow> distinct (map fst ds) \<and> (\<forall>e \<in> set ds. retry_info_ok e)"

definition signed_ok :: "('id, 'v, 'k) node_network \<Rightarrow> ticket broadcast \<Rightarrow> bool" where
  "signed_ok N bc \<longleftrightarrow> cm_signature (bc_commitment bc) = nn_sign N (cm_data_hash (bc_commitment bc))"

definition allowed_ok :: "('id, 'v, 'k) node_network \<Rightarrow> ('id, 'r, 'v, 'k) client_node \<Rightarrow> bool" where
  "allowed_ok N n \<longleftrightarrow> cn_allowed n = (case cn_state n of None \<Rightarrow> {} | Some st \<Rightarrow> set (participating_endpoint_ids N st))"

definition tasks_ok :: "bytes ticket_task list \<Rightarrow> bool" where
  "tasks_ok ts \<longleftrightarrow> (\<forall>t \<in> set ts. \<exists>r. df_type (tt_failed t) = ModelSharing r)"

definition loop_inv :: "('id, 'v, 'k) node_network \<Rightarrow> 'id coordinator set \<Rightarrow> ('id, 'r, 'v, 'k) client_node \<Rightarrow> bool" where
  "loop_inv N seen n \<longleftrightarrow> lookup_ok N seen (cn_lookup n) \<and> allowed_ok N n \<and>
     (\<forall>bc \<in> set (cn_gossiped n). signed_ok N bc) \<and> (\<forall>e \<in> set (cn_broadcasts n). signed_ok N (fst e)) \<and>
     retried_ok (cn_retried n) \<and> tasks_ok (cn_ticket_tasks n)"

text \<open>Events that touch neither of these fields.\<close>

definition loop_books :: "('id, 'r, 'v, 'k) client_node \<Rightarrow> ('id, 'r, 'v, 'k) client_node \<Rightarrow> bool" where
  "loop_books n n' \<longleftrightarrow> cn_lookup n' = cn_lookup n \<and> cn_allowed n' = cn_allowed n \<and> cn_state n' = cn_state n \<and>
     cn_gossiped n' = cn_gossiped n \<and> cn_broadcasts n' = cn_broadcasts n \<and>
     cn_retried n' = cn_retried n \<and> cn_ticket_tasks n' = cn_ticket_tasks n"

lemma loop_books_inv: "loop_books n n' \<Longrightarrow> loop_inv N seen n \<Longrightarrow> loop_inv N seen n'"
  by (simp add: loop_books_def loop_inv_def allowed_ok_def)

lemma loop_inv_fields [simp]:
  "loop_inv N seen (n\<lparr>cn_run := r\<rparr>) = loop_inv N seen n" "loop_inv N seen (n\<lparr>cn_sharable := m\<rparr>) = loop_inv N seen n"
  "loop_inv N seen (n\<lparr>cn_downloads := d\<rparr>) = loop_inv N seen n" "loop_inv N seen (n\<lparr>cn_peers := p\<rparr>) = loop_inv N seen n"
  "loop_inv N seen (n\<lparr>cn_rx_download := a\<rparr>) = loop_inv N seen n" "loop_inv N seen (n\<lparr>cn_rx_params := b\<rparr>) = loop_inv N seen n"
  "loop_inv N seen (n\<lparr>cn_rx_config := c\<rparr>) = loop_inv N seen n"
  by (simp_all add: loop_inv_def allowed_ok_def)

lemma loop_books_trans: "loop_books a b \<Longrightarrow> loop_books b c \<Longrightarrow> loop_books a c"
  by (simp add: loop_books_def)

lemma lookup_mono: "lookup_ok N seen l \<Longrightarrow> seen \<subseteq> seen' \<Longrightarrow> lookup_ok N seen' l"
  unfolding lookup_ok_def by (meson subsetD)

lemma loop_inv_mono: "loop_inv N seen n \<Longrightarrow> seen \<subseteq> seen' \<Longrightarrow> loop_inv N seen' n"
  unfolding loop_inv_def using lookup_mono by blast

lemma lookup_fold:
  "map_of (foldl (\<lambda>m c. AList.update (f c) c m) xs cs) k = Some c \<Longrightarrow> map_of xs k = Some c \<or> (c \<in> set cs \<and> f c = k)"
proof (induction cs arbitrary: xs)
  case (Cons d cs)
  then show ?case by (fastforce simp: update_conv' split: if_splits)
qed simp

lemma start_params_books: "loop_books n (start_params ts n)"
proof (induction ts n rule: start_params.induct)
  case (2 t req ts n)
  moreover have "loop_books n (case req of Parameter name \<Rightarrow> start_download t (tag_of ''model-'' @ name) (ModelSharing req) n | Config \<Rightarrow> n)"
    by (simp add: loop_books_def start_download_def split: model_request_type.split)
  ultimately show ?case unfolding start_params.simps(2) by (blast intro: loop_books_trans)
qed (simp add: loop_books_def)

lemma send_retry_books: "loop_books n (send_retry x n)"
proof -
  obtain t tag ty where "x = (t, tag, ty)" by (cases x)
  then show ?thesis by (cases ty; cases "case ty of ModelSharing r \<Rightarrow> r | _ \<Rightarrow> Config") (simp_all add: loop_books_def)
qed

lemma send_retries_books: "loop_books n (fold send_retry xs n)"
proof (induction xs arbitrary: n)
  case (Cons x xs)
  then show ?case using send_retry_books loop_books_trans by (metis fold_simps(2))
qed (simp add: loop_books_def)

lemma update_retried_ok: "retried_ok ds \<Longrightarrow> retry_info_ok (h, i) \<Longrightarrow> retried_ok (AList.update h i ds)"
proof -
  assume a: "retried_ok ds" "retry_info_ok (h, i)"
  then have d: "distinct (map fst (AList.update h i ds))" using distinct_update by (auto simp: retried_ok_def)
  have "retry_info_ok e" if "e \<in> set (AList.update h i ds)" for e
  proof -
    have "map_of (AList.update h i ds) (fst e) = Some (snd e)" using that d by (simp add: map_of_eq_Some_iff)
    then have "e = (h, i) \<or> map_of ds (fst e) = Some (snd e)" by (cases e) (auto simp: update_conv' split: if_splits)
    then show ?thesis using a by (metis map_of_SomeD prod.collapse retried_ok_def)
  qed
  then show ?thesis using d by (simp add: retried_ok_def)
qed

lemma delete_retried_ok: "retried_ok ds \<Longrightarrow> retried_ok (AList.delete h ds)"
proof -
  assume "retried_ok ds"
  then show ?thesis using AList.distinct_delete [of ds h] by (auto simp: retried_ok_def AList.delete_eq)
qed

lemma distro_failed_ok:
  assumes "retried_ok ds" and "df_type dl = DistroResult ps"
  shows "retried_ok (distro_download_failed now dl ds)"
  using assms(1)
  by (auto simp: distro_download_failed_def Let_def retry_remove_def retry_insert_def not_le assms(2) retry_info_ok_def
      intro!: delete_retried_ok update_retried_ok)

lemma ticket_task_finish_ok:
  assumes "retried_ok ds" and "df_type (tt_failed t) = ModelSharing r"
  shows "retried_ok (ticket_task_finish new_ticket t ds)"
  using assms(1)
  by (auto simp: ticket_task_finish_def Let_def retry_remove_def retry_insert_def assms(2) retry_info_ok_def
      split: option.split intro!: delete_retried_ok update_retried_ok)

lemma request_retries_ok: "retried_ok ds \<Longrightarrow> retried_ok (fst (request_retries reqs ds))"
proof (induction reqs ds rule: request_retries.induct)
  case (2 h t tag ty rest ds)
  have "retried_ok (snd (retry_update_time h ds))"
  proof (cases "map_of ds h")
    case (Some info)
    then have "retry_info_ok (h, info)" using 2(2) by (auto simp: retried_ok_def dest: map_of_SomeD)
    then show ?thesis using Some 2(2) by (auto simp: retry_update_time_def retry_info_ok_def intro!: update_retried_ok split: download_type.splits)
  qed (use 2(2) in \<open>simp add: retry_update_time_def\<close>)
  then show ?case using 2(1) by (cases "retry_update_time h ds") (auto simp: Let_def split: prod.splits)
qed simp

text \<open>A run-only change of the state keeps everything else.\<close>

lemma apply_to_run_books: "continue_with (apply_to_run V i bc n) = Some n' \<Longrightarrow> loop_books n n'"
  by (auto simp: apply_to_run_def loop_books_def split: exec.splits)

lemma send_broadcast_inv:
  assumes "loop_inv N seen n" and "signed_ok N bc" and "continue_with (send_broadcast V N bc n) = Some n'"
  shows "loop_inv N seen n'"
proof -
  let ?n = "n\<lparr>cn_gossiped := cn_gossiped n @ [bc], cn_broadcasts := cn_broadcasts n @ [(bc, bc_step bc)]\<rparr>"
  have "loop_inv N seen ?n" using assms(1,2) by (auto simp: loop_inv_def allowed_ok_def)
  then show ?thesis by (rule loop_books_inv [OF apply_to_run_books [OF assms(3) [unfolded send_broadcast_def]]])
qed

lemma distro_result_ready_inv:
  assumes "loop_inv N seen n" and "continue_with (distro_result_ready V N nonce step b h pf result original t n) = Some n'"
  shows "loop_inv N seen n'"
proof -
  let ?bc = "\<lparr>bc_step = step, bc_proof = pf, bc_commitment = \<lparr>cm_data_hash = h, cm_signature = nn_sign N h\<rparr>,
      bc_nonce = nonce, bc_data = TrainingResult \<lparr>tr_batch_id = b, tr_ticket = t\<rparr>\<rparr>"
  obtain m x where m: "send_broadcast V N ?bc n = Done m x"
    and n': "n' = m\<lparr>cn_run := rm_apply_distro_result V (bt_hash t) result (Some original) (cn_run m)\<rparr>"
    using assms(2) by (auto simp: distro_result_ready_def split: exec.splits)
  have "loop_inv N seen m" by (rule send_broadcast_inv [OF assms(1), of ?bc V]) (simp_all add: signed_ok_def m)
  then show ?thesis unfolding n' by (rule loop_books_inv [rotated]) (simp add: loop_books_def)
qed

lemma rebroadcast_inv:
  assumes "loop_inv N seen n"
  shows "loop_inv N seen (rebroadcast n)"
proof (cases "cn_broadcasts n = []")
  case False
  let ?i = "(cn_rebroadcast_index n + 1) mod length (cn_broadcasts n)"
  obtain bc step where b: "cn_broadcasts n ! ?i = (bc, step)" by (cases "cn_broadcasts n ! ?i")
  have "?i < length (cn_broadcasts n)" using False by simp
  then have "(bc, step) \<in> set (cn_broadcasts n)" unfolding b [symmetric] by (rule nth_mem)
  then have "signed_ok N (bc\<lparr>bc_nonce := bc_nonce bc + 1\<rparr>)" using assms by (auto simp: loop_inv_def signed_ok_def)
  then show ?thesis using assms False b unfolding loop_inv_def
    by (auto simp: rebroadcast_def Let_def allowed_ok_def dest!: set_mp [OF set_update_subset_insert])
qed (use assms in \<open>simp add: rebroadcast_def\<close>)

lemma gossip_books: "loop_books n (ensure_gossip_connected N gv st n)"
  by (simp add: ensure_gossip_connected_def loop_books_def split: prod.split)

lemma state_received_inv:
  assumes "loop_inv N seen n" and "continue_with (state_received V N gv ou init st n) = Some n'"
  shows "loop_inv N (insert st seen) n'"
proof -
  let ?n1 = "(watcher_poll N st n)\<lparr>cn_allowed := set (participating_endpoint_ids N st)\<rparr>"
  have "lookup_ok N (insert st seen) (cn_lookup (watcher_poll N st n))"
    using assms(1) unfolding loop_inv_def lookup_ok_def watcher_poll_def by (auto split: if_splits dest!: lookup_fold)
  then have "loop_inv N (insert st seen) ?n1" using assms(1) by (simp add: loop_inv_def allowed_ok_def watcher_poll_def)
  then have "loop_inv N (insert st seen) (ensure_gossip_connected N gv st ?n1)" by (rule loop_books_inv [OF gossip_books])
  then show ?thesis using assms(2)
    by (auto simp: state_received_def Let_def loop_inv_def allowed_ok_def split: exec.splits if_splits)
qed

lemma tell_peers_books: "loop_books n (tell_peers cmd n)"
  by (simp add: tell_peers_def loop_books_def)

lemma download_ready_inv:
  assumes "loop_inv N seen n" and "continue_with (download_ready V N now rx_open r n) = Some n'"
  shows "loop_inv N seen n'"
proof -
  have complete: "loop_inv N seen m'" if "loop_inv N seen m" "continue_with (download_complete_received V N rx_open c m) = Some m'" for c m m'
    using that by (auto simp: download_complete_received_def Let_def loop_inv_def allowed_ok_def download_completed_def retry_remove_def
        intro!: delete_retried_ok split: transmittable_download.splits model_download.splits sum.splits)
  have failed: "loop_inv N seen (download_failed_received now dl m)" if inv: "loop_inv N seen m" for dl m
  proof (cases "df_type dl")
    case (DistroResult ps)
    then show ?thesis using inv by (simp add: download_failed_received_def loop_inv_def allowed_ok_def distro_failed_ok)
  next
    case (ModelSharing req)
    then have "loop_inv N seen (m\<lparr>cn_ticket_tasks := cn_ticket_tasks m @ [fst (model_download_failed now dl (cn_retried m))]\<rparr>)"
      using inv by (simp add: loop_inv_def allowed_ok_def tasks_ok_def model_download_failed_def Let_def)
    then show ?thesis using ModelSharing loop_books_inv [OF tell_peers_books]
      by (auto simp: download_failed_received_def split: prod.splits)
  qed
  have same: "loop_inv N seen (n\<lparr>cn_downloads := m\<rparr>)" for m
    using assms(1) by (rule loop_books_inv [rotated]) (simp add: loop_books_def)
  show ?thesis using assms unfolding download_ready_def Let_def
    by (auto intro!: failed [OF same] same dest!: complete [OF same] split: option.splits prod.splits download_event.splits)
qed

lemma node_step_inv:
  assumes "loop_inv N seen n" and "node_step V N e n = Some n'"
  shows "loop_inv N (seen \<union> {st. \<exists>gv ou init. e = StateReceived gv ou init st}) n'"
proof -
  have books: "loop_inv N seen n'" if "loop_books n n'" using loop_books_inv [OF that assms(1)] .
  have "loop_inv N seen n'" if "\<nexists>gv ou init st. e = StateReceived gv ou init st"
  proof (cases e)
    case (StateReceived gv ou init st)
    then show ?thesis using that by blast
  next
    case (MessageReceived k bc)
    then show ?thesis using assms(2)
      by (intro books) (auto simp: node_step_def message_received_def apply_to_run_def loop_books_def split: exec.splits if_splits option.splits)
  next
    case (FinishedReady nonce fb)
    then have "continue_with (finished_ready V N nonce fb n) = Some n'" using assms(2) by (simp add: node_step_def)
    from send_broadcast_inv [OF assms(1) _ this [unfolded finished_ready_def]] show ?thesis by (simp add: signed_ok_def)
  next
    case (DistroResultReady nonce step b h pf result original t)
    then show ?thesis using distro_result_ready_inv [OF assms(1)] assms(2) by (simp add: node_step_def)
  next
    case Rebroadcast
    then show ?thesis using rebroadcast_inv [OF assms(1)] assms(2) by (simp add: node_step_def)
  next
    case (CheckConnection gv)
    then show ?thesis using assms
      by (auto simp: node_step_def check_connection_def intro: loop_books_inv [OF gossip_books] split: option.splits if_splits)
  next
    case (RetryTick now)
    have "loop_inv N seen (n\<lparr>cn_retried := fst (retry_check now (cn_retried n))\<rparr>)"
      using assms(1) by (simp add: loop_inv_def allowed_ok_def retry_check_def request_retries_ok)
    then show ?thesis using RetryTick assms(2) loop_books_inv [OF send_retries_books]
      by (auto simp: node_step_def retry_tick_def split: prod.splits)
  next
    case (DownloadReadyEvent now rx_open r)
    then show ?thesis using download_ready_inv [OF assms(1)] assms(2) by (simp add: node_step_def)
  next
    case (TicketTaskDone i t)
    show ?thesis
    proof (cases "i < length (cn_ticket_tasks n)")
      case True
      then have n': "n' = n\<lparr>cn_ticket_tasks := take i (cn_ticket_tasks n) @ drop (Suc i) (cn_ticket_tasks n),
          cn_retried := ticket_task_finish t (cn_ticket_tasks n ! i) (cn_retried n)\<rparr>"
        using assms(2) TicketTaskDone by (simp add: node_step_def ticket_task_done_def nth_opt_def)
      have tasks: "tasks_ok (cn_ticket_tasks n)" using assms(1) by (simp add: loop_inv_def)
      then obtain r where "df_type (tt_failed (cn_ticket_tasks n ! i)) = ModelSharing r"
        using nth_mem [OF True] unfolding tasks_ok_def by blast
      moreover have "tasks_ok (take i (cn_ticket_tasks n) @ drop (Suc i) (cn_ticket_tasks n))"
        using tasks unfolding tasks_ok_def by (metis Un_iff in_set_dropD in_set_takeD set_append)
      ultimately show ?thesis using assms(1) unfolding n' by (simp add: loop_inv_def allowed_ok_def ticket_task_finish_ok)
    qed (use assms TicketTaskDone in \<open>simp add: node_step_def ticket_task_done_def nth_opt_def\<close>)
  next
    case TakeParams
    have "loop_books n (take_params n)"
    proof (cases "cn_rx_params n")
      case (Cons ts rest)
      have "loop_books n (n\<lparr>cn_rx_params := rest\<rparr>)" by (simp add: loop_books_def)
      then show ?thesis using Cons loop_books_trans [OF _ start_params_books] by (simp add: take_params_def)
    qed (simp add: take_params_def loop_books_def)
    then show ?thesis using assms(2) TakeParams by (intro books) (simp add: node_step_def)
  next
    case (PeerTask cmd)
    then show ?thesis using assms(2) tell_peers_books by (intro books) (auto simp: node_step_def)
  next
    case ConfigRequested
    then show ?thesis using assms(2)
      by (intro books) (auto simp: node_step_def config_requested_def Let_def tell_peers_def loop_books_def split: option.splits)
  qed (use assms in \<open>auto simp: node_step_def witness_tick_def take_download_def take_config_def start_download_def
      parameter_request_def model_config_request_def model_ready_def config_ready_def parameters_requested_def
      split: list.splits prod.splits option.splits sum.splits if_splits\<close>)
  then show ?thesis
    using assms state_received_inv [OF assms(1)] loop_inv_mono by (cases e) (auto simp: node_step_def)
qed

lemma node_run_inv:
  "loop_inv N seen n \<Longrightarrow> node_run V N es n = Some n' \<Longrightarrow>
    loop_inv N (seen \<union> {st. \<exists>gv ou init. StateReceived gv ou init st \<in> set es}) n'"
proof (induction es arbitrary: seen n)
  case (Cons e es)
  then obtain n1 where n1: "node_step V N e n = Some n1" "node_run V N es n1 = Some n'" by (auto simp: bind_eq_Some_conv)
  have "seen \<union> {st. \<exists>gv ou init. e = StateReceived gv ou init st} \<union> {st. \<exists>gv ou init. StateReceived gv ou init st \<in> set es} =
      seen \<union> {st. \<exists>gv ou init. StateReceived gv ou init st \<in> set (e # es)}" by auto
  then show ?case using Cons.IH [OF node_step_inv [OF Cons.prems(1) n1(1)] n1(2)] by simp
qed simp

lemma node_start_inv: "loop_inv N {} (node_start now rm)"
  by (simp add: loop_inv_def lookup_ok_def allowed_ok_def retried_ok_def tasks_ok_def node_start_def)

lemmas loop_inv_reached = node_run_inv [OF node_start_inv, simplified]

section \<open>Properties of the loop\<close>

definition sample_node_client :: "(nat, ticket, unit) client_env" where
  "sample_node_client = \<lparr>ce_node = sample_env, ce_ticket_hash = bt_hash, ce_deserialize = (\<lambda>_. Some ())\<rparr>"

definition sample_network :: "(nat, bytes, unit) node_network" where
  "sample_network = \<lparr>nn_identity = 9, nn_me = [9], nn_key = (\<lambda>i. [of_nat i]), nn_verify = (\<lambda>k bs sig. sig = k @ bs), nn_sign = (\<lambda>bs. 9 # bs),
     nn_sharing = \<lparr>se_save = Inr, se_load = Inr, se_print = (\<lambda>_. None), se_parse = (\<lambda>_. None), se_add = (\<lambda>d tag. None)\<rparr>, nn_decode = (\<lambda>_. None)\<rparr>"

definition sample_view :: gossip_view where
  "sample_view = \<lparr>gv_now = 9000, gv_neighbors = {}, gv_mix = rev\<rparr>"

definition sample_report :: "ticket broadcast" where
  "sample_report = \<lparr>bc_step = 1, bc_proof = \<lparr>cp_committee = Trainer, cp_position = 0, cp_index = 0\<rparr>,
     bc_commitment = \<lparr>cm_data_hash = [1], cm_signature = [7, 1]\<rparr>, bc_nonce = 0,
     bc_data = FinishedMsg \<lparr>fi_broadcast_merkle = [], fi_warmup = True\<rparr>\<rparr>"

definition sample_finished :: finished_broadcast where
  "sample_finished = \<lparr>fb_step = 0, fb_merkle = [4], fb_commitment_data_hash = [5], fb_proof = \<lparr>cp_committee = Trainer, cp_position = 0, cp_index = 0\<rparr>, fb_warmup = True\<rparr>"

definition sample_loop :: "(nat, unit, bytes, unit) node_event list" where
  "sample_loop = [StateReceived sample_view sample_outside None (sample_training\<lparr>co_run_state := Warmup\<rparr>), FinishedReady 0 sample_finished,
     RunRequestsDownload \<lparr>bt_hash = [1], bt_addr = [7]\<rparr> [], TakeDownload id, DownloadReadyEvent 100 True (DownloadReady 0 Closed)]"

abbreviation sample_warmup :: "nat coordinator" where
  "sample_warmup \<equiv> sample_training\<lparr>co_run_state := Warmup\<rparr>"

abbreviation sample_node :: "(nat, unit, bytes, unit) client_node" where
  "sample_node \<equiv> (node_start 0 (Initializing 9 (\<lambda>_. True) sample_warmup))
     \<lparr>cn_state := Some sample_warmup, cn_lookup := [([7], client_new 7), ([9], client_new 9)], cn_allowed := {[7], [9]},
      cn_joined := [[7]], cn_last_attempt := 9000\<rparr>"

lemma sample_received:
  "node_step sample_node_client sample_network (StateReceived sample_view sample_outside None sample_warmup)
     (node_start 0 (NotYetInitialized (Some (9, \<lambda>_. True)))) = Some sample_node"
  by (simp add: node_step_def state_received_def watcher_poll_def Let_def node_start_def rm_apply_state_def sample_node_client_def
      sample_env_def externs.defs sample_training_def fresh_def sample_network_def client_new_def update_conv' ensure_gossip_connected_def
      gossip_joins_def participating_endpoint_ids_def sample_view_def halted_def MAX_NUM_BOOTSTRAP_PEERS_def)

text \<open>
  C16. The books of the main loop are in order after any sequence of its events, whatever its tasks do in between: the
  peers allowed to connect are exactly the clients of the last coordinator state; everything the client has gossiped
  and everything it repeats is signed with its own key; and a download waits for a retry only under the hash of its own
  ticket, after at least one failure, and for a training result after at most three.
\<close>

theorem main_loop_invariant:
  assumes "node_run V N es (node_start now rm) = Some n"
  shows "cn_allowed n = (case cn_state n of None \<Rightarrow> {} | Some st \<Rightarrow> set (participating_endpoint_ids N st)) \<and>
    (\<forall>bc \<in> set (cn_gossiped n) \<union> fst ` set (cn_broadcasts n).
       cm_signature (bc_commitment bc) = nn_sign N (cm_data_hash (bc_commitment bc))) \<and>
    distinct (map fst (cn_retried n)) \<and>
    (\<forall>(h, info) \<in> set (cn_retried n). h = bt_hash (ri_ticket info) \<and> 0 < ri_retries info \<and>
       (\<forall>peers. ri_type info = DistroResult peers \<longrightarrow> ri_retries info \<le> 3))"
proof -
  from loop_inv_reached [OF assms] have inv: "allowed_ok N n" "\<forall>bc \<in> set (cn_gossiped n). signed_ok N bc"
    "\<forall>e \<in> set (cn_broadcasts n). signed_ok N (fst e)" "retried_ok (cn_retried n)" by (simp_all add: loop_inv_def)
  then show ?thesis
    by (fastforce simp: allowed_ok_def signed_ok_def retried_ok_def retry_info_ok_def MAX_DOWNLOAD_RETRIES_def)
qed

theorem main_loop_invariant_witness:
  "\<exists>n. node_run sample_node_client sample_network sample_loop (node_start 0 (NotYetInitialized (Some (9, \<lambda>_. True)))) = Some n \<and>
    map fst (cn_retried n) = [[1]] \<and> length (cn_gossiped n) = 1 \<and> cn_allowed n = {[7], [9]} \<and>
    (\<forall>bc \<in> set (cn_gossiped n). cm_signature (bc_commitment bc) = 9 # cm_data_hash (bc_commitment bc))"
proof -
  obtain n where n: "node_run sample_node_client sample_network sample_loop (node_start 0 (NotYetInitialized (Some (9, \<lambda>_. True)))) = Some n"
    "map fst (cn_retried n) = [[1]]" "length (cn_gossiped n) = 1" "cn_state n = Some sample_warmup"
    using sample_received
    by (simp add: sample_loop_def node_step_def finished_ready_def send_broadcast_def apply_to_run_def rm_apply_message_def node_start_def
        take_download_def start_download_def manager_add_def download_new_def download_ready_def manager_poll_def handle_download_progress_def
        nth_opt_def progress_event_def progress_failed_def network_download_event_def download_failed_received_def Let_def
        distro_download_failed_def retry_get_def retry_insert_def MAX_DOWNLOAD_RETRIES_def sample_finished_def)
  from main_loop_invariant [OF n(1)] n show ?thesis
    by (auto simp: sample_network_def participating_endpoint_ids_def sample_training_def fresh_def client_new_def)
qed

text \<open>
  C15. Whatever a client has gone through, a message from the network changes its state machine only if the commitment
  in it is signed by the sender, and the sender is the key of a client of a warmup state the client has seen; the
  machine is then told the identity behind that key. Every other message leaves the whole client as it was.
\<close>

theorem network_messages_signed:
  assumes "node_run V N es (node_start now rm) = Some n" and "message_received V N from bc n = Done n' out"
  shows "case out of
      None \<Rightarrow> n' = n
    | Some x \<Rightarrow> nn_verify N from (cm_data_hash (bc_commitment bc)) (cm_signature (bc_commitment bc)) \<and>
        (\<exists>gv ou init st c. StateReceived gv ou init st \<in> set es \<and> co_run_state st = Warmup \<and> c \<in> set (co_clients st) \<and>
          nn_key N (cl_id c) = from \<and> rm_apply_message V (cl_id c) bc (cn_run n) = Done (cn_run n') x \<and>
          n' = n\<lparr>cn_run := cn_run n'\<rparr>)"
proof -
  from loop_inv_reached [OF assms(1)]
  have inv: "lookup_ok N {st. \<exists>gv ou init. StateReceived gv ou init st \<in> set es} (cn_lookup n)" by (simp add: loop_inv_def)
  show ?thesis
  proof (cases out)
    case None
    then show ?thesis using assms(2) by (auto simp: message_received_def split: option.splits if_splits exec.splits)
  next
    case (Some x)
    then obtain c where c: "map_of (cn_lookup n) from = Some c"
      and v: "nn_verify N from (cm_data_hash (bc_commitment bc)) (cm_signature (bc_commitment bc))"
      using assms(2) by (auto simp: message_received_def split: option.splits if_splits)
    obtain rm' where r: "rm_apply_message V (cl_id c) bc (cn_run n) = Done rm' x" "n' = n\<lparr>cn_run := rm'\<rparr>"
      using assms(2) c v Some by (auto simp: message_received_def apply_to_run_def split: exec.splits)
    obtain st gv ou init where "StateReceived gv ou init st \<in> set es" "co_run_state st = Warmup" "c \<in> set (co_clients st)" "nn_key N (cl_id c) = from"
      using inv c unfolding lookup_ok_def by blast
    then have "\<exists>gv ou init st c. StateReceived gv ou init st \<in> set es \<and> co_run_state st = Warmup \<and> c \<in> set (co_clients st) \<and>
        nn_key N (cl_id c) = from \<and> rm_apply_message V (cl_id c) bc (cn_run n) = Done (cn_run n') x \<and> n' = n\<lparr>cn_run := cn_run n'\<rparr>"
      using r by (intro exI [of _ gv] exI [of _ ou] exI [of _ init] exI [of _ st] exI [of _ c]) simp
    then show ?thesis using v Some by simp
  qed
qed

theorem network_messages_signed_witness:
  "\<exists>n. node_run sample_node_client sample_network [StateReceived sample_view sample_outside None (sample_training\<lparr>co_run_state := Warmup\<rparr>)]
      (node_start 0 (NotYetInitialized (Some (9, \<lambda>_. True)))) = Some n \<and>
    message_received sample_node_client sample_network [7] sample_report n = Done n (Some Ignored) \<and>
    (\<exists>st c. co_run_state st = Warmup \<and> c \<in> set (co_clients st) \<and> nn_key sample_network (cl_id c) = [7])"
proof -
  let ?es = "[StateReceived sample_view sample_outside None (sample_training\<lparr>co_run_state := Warmup\<rparr>)] :: (nat, unit, bytes, unit) node_event list"
  obtain n where n: "node_run sample_node_client sample_network ?es (node_start 0 (NotYetInitialized (Some (9, \<lambda>_. True)))) = Some n"
    "cn_run n = Initializing 9 (\<lambda>_. True) (sample_training\<lparr>co_run_state := Warmup\<rparr>)" "map_of (cn_lookup n) [7] = Some (client_new 7)"
    using sample_received by (simp add: client_new_def node_start_def)
  have m: "message_received sample_node_client sample_network [7] sample_report n = Done n (Some Ignored)"
    using n(2,3) by (simp add: message_received_def apply_to_run_def rm_apply_message_def sample_network_def sample_report_def)
  from network_messages_signed [OF n(1) m] show ?thesis unfolding option.case using n(1) m by blast
qed

section \<open>Every live broadcast is repeated\<close>

definition without_nonce :: "'t broadcast \<Rightarrow> 't broadcast" where
  "without_nonce bc = bc\<lparr>bc_nonce := 0\<rparr>"

lemma rebroadcasts:
  assumes "cn_broadcasts n \<noteq> []"
  shows "let n' = (rebroadcast ^^ k) n; len = length (cn_broadcasts n)
    in map (\<lambda>(bc, step). (without_nonce bc, step)) (cn_broadcasts n') = map (\<lambda>(bc, step). (without_nonce bc, step)) (cn_broadcasts n) \<and>
      cn_rebroadcast_index n' mod len = (cn_rebroadcast_index n + k) mod len \<and>
      map without_nonce (cn_gossiped n') = map without_nonce (cn_gossiped n) @
        map (\<lambda>j. without_nonce (fst (cn_broadcasts n ! ((cn_rebroadcast_index n + Suc j) mod len)))) [0..<k]"
proof (induction k)
  case 0
  then show ?case by simp
next
  case (Suc k)
  let ?m = "(rebroadcast ^^ k) n" and ?len = "length (cn_broadcasts n)"
  let ?strip = "\<lambda>(bc, step). (without_nonce bc, step)"
  from Suc have bs: "map ?strip (cn_broadcasts ?m) = map ?strip (cn_broadcasts n)"
    and index: "cn_rebroadcast_index ?m mod ?len = (cn_rebroadcast_index n + k) mod ?len"
    and sent: "map without_nonce (cn_gossiped ?m) = map without_nonce (cn_gossiped n) @
        map (\<lambda>j. without_nonce (fst (cn_broadcasts n ! ((cn_rebroadcast_index n + Suc j) mod ?len)))) [0..<k]"
    by (simp_all add: Let_def)
  have len: "length (cn_broadcasts ?m) = ?len" using arg_cong [OF bs, of length] by simp
  have pos: "0 < ?len" using assms by simp
  let ?i = "(cn_rebroadcast_index ?m + 1) mod ?len"
  have i: "?i = (cn_rebroadcast_index n + Suc k) mod ?len" using index by (metis add.assoc mod_add_left_eq Suc_eq_plus1)
  have il: "?i < ?len" using pos by simp
  obtain bc step where b: "cn_broadcasts ?m ! ?i = (bc, step)" by (cases "cn_broadcasts ?m ! ?i")
  have "?strip (cn_broadcasts ?m ! ?i) = ?strip (cn_broadcasts n ! ?i)" using arg_cong [OF bs, of "\<lambda>xs. xs ! ?i"] il len by simp
  then have "?strip (bc, step) = ?strip (cn_broadcasts n ! ?i)" unfolding b .
  then have bc: "without_nonce bc = without_nonce (fst (cn_broadcasts n ! ?i))" by (cases "cn_broadcasts n ! ?i") simp
  have step: "rebroadcast ?m = ?m\<lparr>cn_rebroadcast_index := ?i, cn_broadcasts := (cn_broadcasts ?m)[?i := (bc\<lparr>bc_nonce := bc_nonce bc + 1\<rparr>, step)],
      cn_gossiped := cn_gossiped ?m @ [bc\<lparr>bc_nonce := bc_nonce bc + 1\<rparr>]\<rparr>"
    using pos len b by (simp add: rebroadcast_def Let_def)
  have "map ?strip ((cn_broadcasts ?m)[?i := (bc\<lparr>bc_nonce := bc_nonce bc + 1\<rparr>, step)]) = (map ?strip (cn_broadcasts ?m))[?i := ?strip (bc, step)]"
    by (simp add: map_update without_nonce_def)
  also have "\<dots> = map ?strip (cn_broadcasts ?m)" using il len b by (simp add: list_update_same_conv)
  finally have "map ?strip (cn_broadcasts (rebroadcast ?m)) = map ?strip (cn_broadcasts n)" using step bs by simp
  moreover have "cn_rebroadcast_index (rebroadcast ?m) mod ?len = (cn_rebroadcast_index n + Suc k) mod ?len" using step i by simp
  moreover have "map without_nonce (cn_gossiped (rebroadcast ?m)) = map without_nonce (cn_gossiped n) @
      map (\<lambda>j. without_nonce (fst (cn_broadcasts n ! ((cn_rebroadcast_index n + Suc j) mod ?len)))) [0..<Suc k]"
    using step sent bc i by (simp add: without_nonce_def)
  ultimately show ?case by (simp add: Let_def)
qed

lemma residues: "0 < len \<Longrightarrow> t < len \<Longrightarrow> \<exists>j < len. (a + Suc j) mod len = (t :: nat)"
proof -
  assume l: "0 < len" "t < len"
  let ?j = "(t + (len - Suc a mod len)) mod len"
  have "(a + Suc ?j) mod len = (Suc a + ?j) mod len" by simp
  also have "\<dots> = (Suc a + (t + (len - Suc a mod len))) mod len" by (rule mod_add_right_eq)
  also have "\<dots> = (Suc a mod len + (t + (len - Suc a mod len))) mod len" by (rule mod_add_left_eq [symmetric])
  also have "Suc a mod len + (t + (len - Suc a mod len)) = t + len" using mod_less_divisor [OF l(1), of "Suc a"] by linarith
  finally have "(a + Suc ?j) mod len = t" using l(2) by simp
  then show ?thesis using l(1) by (intro exI [of _ ?j]) simp
qed

text \<open>
  Every result and report of a client that is still needed is gossiped again: as many ticks of the repetition as
  there are live broadcasts send every one of them, each with a new nonce, and change nothing else about them. Entering
  a training round keeps exactly the broadcasts of the last two steps.
\<close>

theorem live_broadcasts_repeated:
  "(\<forall>(bc, step) \<in> set (cn_broadcasts n). \<exists>bc' \<in> set (drop (length (cn_gossiped n)) (cn_gossiped ((rebroadcast ^^ length (cn_broadcasts n)) n))).
      without_nonce bc' = without_nonce bc) \<and>
   map (\<lambda>(bc, step). (without_nonce bc, step)) (cn_broadcasts ((rebroadcast ^^ k) n)) =
     map (\<lambda>(bc, step). (without_nonce bc, step)) (cn_broadcasts n) \<and>
   (state_received V N gv ou init st n = Done n' u \<and> co_run_state st = RoundTrain \<and> map_option co_run_state (cn_state n) \<noteq> Some RoundTrain \<longrightarrow>
     cn_broadcasts n' = filter (\<lambda>(_, step). unat (co_step st) - 2 \<le> unat step) (cn_broadcasts n))"
proof (intro conjI)
  show "\<forall>(bc, step) \<in> set (cn_broadcasts n). \<exists>bc' \<in> set (drop (length (cn_gossiped n)) (cn_gossiped ((rebroadcast ^^ length (cn_broadcasts n)) n))).
      without_nonce bc' = without_nonce bc"
  proof (intro ballI, clarify)
    fix bc step assume "(bc, step) \<in> set (cn_broadcasts n)"
    then obtain t where t: "t < length (cn_broadcasts n)" "cn_broadcasts n ! t = (bc, step)" by (auto simp: in_set_conv_nth)
    let ?len = "length (cn_broadcasts n)" and ?n = "(rebroadcast ^^ length (cn_broadcasts n)) n"
    obtain j where j: "j < ?len" "(cn_rebroadcast_index n + Suc j) mod ?len = t" using residues [of ?len t] t(1) by fastforce
    have "cn_broadcasts n \<noteq> []" using t(1) by auto
    from rebroadcasts [OF this, of ?len] have g: "map without_nonce (cn_gossiped ?n) = map without_nonce (cn_gossiped n) @
        map (\<lambda>j. without_nonce (fst (cn_broadcasts n ! ((cn_rebroadcast_index n + Suc j) mod ?len)))) [0..<?len]" by (simp add: Let_def)
    have "map without_nonce (drop (length (cn_gossiped n)) (cn_gossiped ?n)) =
        map (\<lambda>j. without_nonce (fst (cn_broadcasts n ! ((cn_rebroadcast_index n + Suc j) mod ?len)))) [0..<?len]"
      using arg_cong [OF g, of "drop (length (cn_gossiped n))"] by (simp add: drop_map)
    then have "without_nonce bc \<in> set (map without_nonce (drop (length (cn_gossiped n)) (cn_gossiped ?n)))"
      using j t(2) by (force simp: image_iff)
    then show "\<exists>bc' \<in> set (drop (length (cn_gossiped n)) (cn_gossiped ?n)). without_nonce bc' = without_nonce bc" by auto
  qed
next
  show "map (\<lambda>(bc, step). (without_nonce bc, step)) (cn_broadcasts ((rebroadcast ^^ k) n)) =
     map (\<lambda>(bc, step). (without_nonce bc, step)) (cn_broadcasts n)"
  proof (cases "cn_broadcasts n = []")
    case True
    then have "rebroadcast n = n" by (simp add: rebroadcast_def)
    then have "(rebroadcast ^^ k) n = n" by (induction k) simp_all
    then show ?thesis by simp
  next
    case False
    then show ?thesis using rebroadcasts [of n k] by (simp add: Let_def)
  qed
next
  have "(if 2 \<le> co_step st then co_step st - 2 else 0) \<le> x \<longleftrightarrow> unat (co_step st) - 2 \<le> unat x" for x
    by (auto simp: word_le_nat_alt unat_sub)
  then have f: "filter (\<lambda>(_, step). (if 2 \<le> co_step st then co_step st - 2 else 0) \<le> step) (cn_broadcasts n) =
      filter (\<lambda>(_, step). unat (co_step st) - 2 \<le> unat step) (cn_broadcasts n)" by simp
  show "state_received V N gv ou init st n = Done n' u \<and> co_run_state st = RoundTrain \<and> map_option co_run_state (cn_state n) \<noteq> Some RoundTrain \<longrightarrow>
     cn_broadcasts n' = filter (\<lambda>(_, step). unat (co_step st) - 2 \<le> unat step) (cn_broadcasts n)"
    unfolding f [symmetric] by (auto simp: state_received_def watcher_poll_def ensure_gossip_connected_def Let_def split: exec.splits prod.splits)
qed

section \<open>Few peers are joined\<close>

lemma gossip_joins_bounded:
  assumes "\<And>xs. mset (gv_mix gv xs) = mset xs" and "gossip_joins N gv st last_attempt = (peers, t)"
  shows "length peers + card (gv_neighbors gv) \<le> max 3 (card (gv_neighbors gv)) \<and>
    set peers \<subseteq> set (participating_endpoint_ids N st) - {nn_me N} - gv_neighbors gv \<and>
    (peers \<noteq> [] \<longrightarrow> nn_me N \<in> set (participating_endpoint_ids N st) \<and> \<not> halted st \<and> 6000 \<le> gv_now gv - last_attempt \<and> t = gv_now gv)"
proof -
  have "set (gv_mix gv xs) = set xs" for xs using assms(1) by (rule mset_eq_setD)
  then have s: "x \<in> set xs" if "x \<in> set (take k (gv_mix gv xs))" for x xs k using that by (metis in_set_takeD)
  show ?thesis using assms(2)
    by (auto simp: gossip_joins_def Let_def MAX_NUM_BOOTSTRAP_PEERS_def not_less split: if_splits dest!: s)
qed

end
