(* ===== verification/Spec2Isabelle.thy ===== *)
theory Spec2Isabelle
  imports Data_Selection Treasurer_Props Mining_Pool_Props Central_Server Merkle Client_Reports
    Barrier Weighted_Provider Data_Server Client_Loop
begin

text \<open>
  \<^bold>\<open>The program.\<close> Psyche trains language models across machines that do not trust each other. The
  coordinator is a replicated state machine that decides which clients take part in an epoch, which of them
  witness a round, which data each trains on and who is healthy. It is run by an on-chain program (the
  decentralized architecture) or by a server (the centralized one). A client follows the coordinator from
  phase to phase, exchanges results with the other clients, verifies them, witnesses and applies them. It gets its
  training data from providers or from a data server, and the model from its peers. On chain, the authorizer program says
  who may join, the coordinator program holds the runs and counts the points their clients earn, the
  treasurer program pays collateral for points, and the mining-pool program shares repayments among lenders.

  \<^bold>\<open>Theories and sources.\<close> Names of definitions follow the source; the paths are below \<open>src/\<close>.

  \<^item> \<open>Psyche_Prelude\<close>: machine integers, checked arithmetic, the result type \<open>exec\<close> of a method that
    mutates its receiver (\<open>Panic\<close>, \<open>Fail\<close> with the state at the early return, \<open>Done\<close>), and the locale
    \<open>guarded_component\<close>, which carries an invariant along any sequence of commands.
  \<^item> \<open>Float64\<close>: \<open>f64\<close> as rounded rational arithmetic (nearest, ties to even), with the locale \<open>rounding\<close>
    of what the coordinator's formulas need; it is interpreted on the rounding function itself.
  \<^item> \<open>Fixed_Vec\<close>, \<open>Core_Types\<close>, \<open>Shuffling\<close>, \<open>Bloom\<close>, \<open>Batches\<close> (\<open>shared/core/src\<close>): the vector of fixed
    capacity with its in-place operations, strings, flags and the bounded queue, the linear congruential
    generator with the seeded shuffle and the swap-or-not permutation, the Bloom filter, intervals, batch
    identifiers and the interval tree.
  \<^item> \<open>Coordinator_Types\<close>, \<open>Committee\<close>, \<open>Coordinator\<close>, \<open>Data_Selection\<close> (\<open>shared/coordinator/src\<close>): the
    replicated state with what is read off it, committee and witness selection, every handler of the state
    machine (ticks of all phases, witnesses, health checks, checkpoints, withdrawal, pausing), and the
    assignment of batches. \<open>Coordinator_Inv\<close>, \<open>Coordinator_Steps\<close>, \<open>Coordinator_Props\<close> and
    \<open>Coordinator_Reads\<close> hold the invariant, its preservation and the properties.
  \<^item> \<open>Merkle\<close> (\<open>shared/core/src/merkle_tree.rs\<close>): construction, paths and their verification.
  \<^item> \<open>Central_Server\<close> (\<open>architectures/centralized/server/src/app.rs\<close>): the server's events as steps over
    the coordinator, the connected clients and the pending ones.
  \<^item> \<open>Client_Types\<close>, \<open>Client_Round\<close>, \<open>Client_Training\<close>, \<open>Client_Machine\<close> (\<open>shared/client/src/protocol.rs\<close> and
    \<open>state/\<close>): the data of a client, what it does with broadcasts and payloads, the training step, and the
    state machine with the manager around it. The \<open>Arc<Mutex<..>>\<close> cells that tasks share live in an explicit
    store (\<open>cells\<close>); a spawned task is a value with a program counter, run by events of its own.
    \<open>Client_Inv\<close> has the events as an inductive step relation, runs and the invariant, \<open>Client_Keeps\<close> and
    \<open>Client_Phases\<close> show that every event keeps it, and \<open>Client_Props\<close>, \<open>Client_Safety\<close> and
    \<open>Client_Reports\<close> hold the properties, the last of them together with the coordinator's handlers.
  \<^item> \<open>Client_Network\<close>, \<open>Client_Loop\<close> (\<open>shared/client/src/client.rs\<close>, \<open>shared/watcher/src/watcher.rs\<close>): every branch of
    the client's main loop that changes its state, on one record of the loop's variables, channels and spawned tasks,
    and runs of the loop with their invariant.
  \<^item> \<open>Model_Sharing\<close>, \<open>Downloads\<close> (\<open>shared/network/src/p2p_model_sharing.rs\<close>, \<open>download_manager.rs\<close>, \<open>latency_sorted.rs\<close>,
    parts of \<open>lib.rs\<close>): the manager of the peers, the task that asks for tickets, the parameters on the sharing and on
    the joining side, running downloads and their retries.
  \<^item> \<open>Tcp_Server\<close> (\<open>shared/network/src/tcp.rs\<close>, \<open>signed_message.rs\<close>): connections that must answer a signed challenge,
    their queues and the dispatcher, as steps that interleave.
  \<^item> \<open>Data_Providers\<close>, \<open>Weighted_Provider\<close>, \<open>Data_Server\<close> (\<open>shared/data-provider/src\<close>, \<open>shared/client/src/fetch_data.rs\<close>):
    samples from files, over HTTP and from mixtures with the locale \<open>sample_source\<close> of what their clients rely on, the
    server that hands data to the clients of a round, and the task that fetches the batches of a step.
  \<^item> \<open>Barrier\<close> (\<open>shared/core/src/cancellable_barrier.rs\<close>): the barrier of the trainers, cut where \<open>wait\<close> releases the
    mutex, with every interleaving of its threads.
  \<^item> \<open>Solana_Base\<close>: accounts, derived addresses, tokens and transactions, with the locale
    \<open>on_chain_program\<close> (instructions keep an invariant and never undo what was achieved), a sublocale of
    \<open>guarded_component\<close> by atomicity. \<open>Account_Sums\<close>: sums over the accounts that belong together.
  \<^item> \<open>Authorizer\<close> (\<open>architectures/decentralized/solana-authorizer\<close>): its four instructions and the abstract
    life cycle of an authorization as an inductive step relation.
  \<^item> \<open>Coordinator_Program\<close>, \<open>Coordinator_Accounts\<close> (\<open>solana-coordinator\<close>): the instance around the
    coordinator (registry, epoch rewards, updates, joins) and the instructions with the checks of their
    accounts structs. \<open>Coordinator_Roster\<close>, \<open>Coordinator_Instance\<close> and \<open>Coordinator_Guard\<close> hold what every
    coordinator command keeps of the clients, the invariants, and who may change what.
  \<^item> \<open>Treasurer\<close>, \<open>Treasurer_Props\<close> (\<open>solana-treasurer\<close>): runs owned by the program, participants and their
    claims, with calls into the coordinator program on a chain state that extends that program's.
  \<^item> \<open>Mining_Pool\<close>, \<open>Mining_Pool_Props\<close> (\<open>solana-mining-pool\<close>): pools, deposits, extraction and claims.

  \<^bold>\<open>How the state corresponds.\<close> A struct is a record with its fields, an enum a datatype, an integer a word
  of its width. A \<open>FixedVec\<close> inside the coordinator is the list of its elements (\<open>Fixed_Vec\<close> proves that
  this is what the array implements); its capacity appears where elements are pushed. Every handler is one
  definition with the guards and early returns of the code in their order. Arithmetic is checked as in the
  on-chain build: \<open>Cargo.toml\<close> sets \<open>overflow-checks\<close>, so an overflow is a \<open>Panic\<close>, and saturating and
  wrapping operations are written as such. The chain is a map from addresses to accounts for each program.

  \<^bold>\<open>Parameters.\<close> SHA-256, the hashing of Bloom keys, derived addresses, associated token addresses and the
  token program's transfer are code outside the repository. They are fields of \<open>externs\<close> and \<open>chain_env\<close>;
  \<open>externs_ok\<close>, \<open>pda_ok\<close> and \<open>transfer_ok\<close> state the documented behaviour that theorems rely on, and the
  witnesses instantiate them with concrete functions. The identity of a node is a type parameter with the
  locale \<open>node_identity\<close>, interpreted on the client identity of the coordinator program.

  \<^bold>\<open>What is shown.\<close> The coordinator keeps its invariant, follows its state machine, records only elected
  witnesses, each once, and a tick panics only when a counter of fixed width overflows. Committees partition
  the clients with the configured sizes, proofs verify exactly when they are the computed ones, and the
  batches of a round partition its data fairly; the data index kept across epochs is the one computed from
  the step. The quorum and the batch-size schedule, computed in floating point, have the values and bounds
  they should. On chain, instructions change the coordinator only through its commands or the owner's
  settings, only the parties of a run change it, an epoch pays each healthy client once, claims never exceed
  points, and a pool pays every lender its share and no more. The containers refine lists and round-trip.
  Merkle paths verify for the items of a tree and, without collisions, for no others. The server keeps the
  coordinator's invariant and admits connected clients only. A client, in whatever order its events and tasks
  run, records only results of assigned trainers, applies only payloads that match a commitment a quorum of
  witnesses agreed on, witnesses at most once per round and only when elected, with filters that cover the
  round, and the coordinator of the round never refuses that witness as invalid. Its main loop passes on only
  messages signed by clients of a warmup state, signs what it gossips, keeps its allow list and its retries in order.
  Downloads are neither lost nor reported twice, failing ones are retried three times with growing delays, and a model
  arrives unchanged. The TCP server attributes a message only to an identity its connection has proved; training data
  goes only to clients of the round. Files, HTTP ranges and mixtures give the samples their indices name, in order, and
  the fetching task ends with every batch when the provider recovers in time. A barrier releases all its threads or
  none.

  \<^bold>\<open>Bounds and termination.\<close> Every definition is a total function: loops are recursions over the vectors
  they traverse or over a measure (the batches a client has left to apply), and no fuel is used. A property
  that an operation returns is proved as such (\<open>tick_returns\<close>, \<open>participant_claim_outcome\<close>,
  \<open>share_always_claimable\<close>, \<open>client_enters_first_round\<close>, \<open>apply_run_terminates\<close>, \<open>fetch_data_delivers\<close>,
  \<open>mixture_index_in_turn\<close>, \<open>parameters_arrive_unchanged\<close>). The 500 attempts of the request task and the seven retries
  of the fetching task are the code's own bounds.

  \<^bold>\<open>What is outside the client's model.\<close> Trainers, evaluations, checkpoints and uploads run on libtorch and
  on remote services: whether an awaited task of theirs succeeds is an answer in the record \<open>outside\<close>, an
  argument of every operation that awaits one, and so are the random keys and sizes of new filters. The hash of
  a blob ticket and the decoding of a payload into tensors are fields of \<open>client_env\<close>. Statistics and logging
  are left out. No mutex is poisoned, since the code run under a lock does not panic.

  \<^bold>\<open>What is outside the network's model.\<close> Signatures, the postcard encoding, tensors, tokenizers, the blob store, the
  answers of peers and of HTTP servers, random draws and clocks are arguments, with what theorems need of them as
  hypotheses (a signed message verifies, a saved tensor loads again, a draw lies in its range). Asynchronous tasks are
  events that interleave in any order; what a channel carries to the backend is not followed further.

  \<^bold>\<open>Not modelled.\<close> Setting up endpoints, gossip and relays (iroh), the evaluation harness and the
  inference node are asynchronous programs around other crates; the models and trainers compute with
  libtorch tensors, whose semantics are outside the repository; model initialization, parquet and dataset-hub
  input, terminal interface, telemetry, bindings and command-line tools are input and output. Learning-rate
  schedules (cosines), serialization derives, logging and the decoding of account bytes are left out. Rent and compute limits are the runtime's.
\<close>

end
